(* ===== verification/Prelude.thy ===== *)
theory Prelude
  imports Main "HOL-Library.Multiset" "HOL-Library.AList" "HOL-Library.Char_ord"
    "HOL-Library.List_Lexorder" "HOL-Library.Product_Lexorder"
begin

text \<open>
  The generic part of the library: the collections of simplification rules the components
  share, comparators and the stable sort of JavaScript's \<^verbatim>\<open>Array.prototype.sort\<close>, the
  first-occurrence deduplication of \<^verbatim>\<open>[...new Set(xs)]\<close>, the insertion-ordered map of
  \<^verbatim>\<open>new Map()\<close>, and errors as values of a sum type.
\<close>

named_theorems cmp_simps \<open>unfolding rules for the comparators handed to sort\<close>
named_theorems guard_defs \<open>definitions of guards and predicates that proofs unfold\<close>

section \<open>Results that may be errors\<close>

text \<open>A JavaScript function that may throw returns \<open>Inl e\<close> for the thrown error.\<close>

datatype js_error = TypeError string | PlainError string

fun bind_result :: "'e + 'a \<Rightarrow> ('a \<Rightarrow> 'e + 'b) \<Rightarrow> 'e + 'b" where
  "bind_result (Inl e) f = Inl e"
| "bind_result (Inr a) f = f a"

lemma bind_result_Inr [simp]:
  "bind_result r f = Inr b \<longleftrightarrow> (\<exists>a. r = Inr a \<and> f a = Inr b)"
  by (cases r) auto

lemma bind_result_Inl [simp]:
  "bind_result r f = Inl e \<longleftrightarrow> r = Inl e \<or> (\<exists>a. r = Inr a \<and> f a = Inl e)"
  by (cases r) auto

fun map_result :: "('a \<Rightarrow> 'e + 'b) \<Rightarrow> 'a list \<Rightarrow> 'e + 'b list" where
  "map_result f [] = Inr []"
| "map_result f (x # xs) =
     bind_result (f x) (\<lambda>y. bind_result (map_result f xs) (\<lambda>ys. Inr (y # ys)))"

lemma map_result_Inr_set:
  "map_result f xs = Inr ys \<Longrightarrow> y \<in> set ys \<Longrightarrow> \<exists>x\<in>set xs. f x = Inr y"
  by (induction xs arbitrary: ys) auto

lemma map_result_length: "map_result f xs = Inr ys \<Longrightarrow> length ys = length xs"
  by (induction xs arbitrary: ys) auto

lemma map_result_Inl: "map_result f xs = Inl e \<Longrightarrow> \<exists>x\<in>set xs. f x = Inl e"
  by (induction xs) auto

text \<open>JavaScript's \<open>v ?? d\<close>, with \<open>None\<close> for \<^verbatim>\<open>undefined\<close> and \<^verbatim>\<open>null\<close>.\<close>

fun nullish :: "'a option \<Rightarrow> 'a \<Rightarrow> 'a" where
  "nullish None d = d"
| "nullish (Some v) d = v"

section \<open>Comparators and the stable sort\<close>

text \<open>
  A comparator returns a negative, zero or positive integer. JavaScript's sort is stable
  since ES2019; for a consistent comparator the result is the insertion sort below.
\<close>

fun insert_by :: "('a \<Rightarrow> 'a \<Rightarrow> int) \<Rightarrow> 'a \<Rightarrow> 'a list \<Rightarrow> 'a list" where
  "insert_by c x [] = [x]"
| "insert_by c x (y # ys) = (if c x y \<le> 0 then x # y # ys else y # insert_by c x ys)"

definition js_sort :: "('a \<Rightarrow> 'a \<Rightarrow> int) \<Rightarrow> 'a list \<Rightarrow> 'a list" where
  "js_sort c xs = foldr (insert_by c) xs []"

lemma js_sort_simps [simp]:
  "js_sort c [] = []"
  "js_sort c (x # xs) = insert_by c x (js_sort c xs)"
  by (simp_all add: js_sort_def)

lemma mset_insert_by [simp]: "mset (insert_by c x xs) = add_mset x (mset xs)"
  by (induction xs) auto

lemma mset_js_sort [simp]: "mset (js_sort c xs) = mset xs"
  by (induction xs) auto

lemma set_js_sort [simp]: "set (js_sort c xs) = set xs"
  by (metis mset_js_sort set_mset_mset)

lemma length_js_sort [simp]: "length (js_sort c xs) = length xs"
  by (metis mset_js_sort size_mset)

lemma distinct_js_sort [simp]: "distinct (js_sort c xs) = distinct xs"
  by (metis mset_js_sort mset_eq_imp_distinct_iff)

lemma mset_map_js_sort [simp]: "mset (map f (js_sort c xs)) = mset (map f xs)"
  by simp

lemma distinct_map_js_sort [simp]: "distinct (map f (js_sort c xs)) = distinct (map f xs)"
  by (metis mset_map_js_sort mset_eq_imp_distinct_iff)

text \<open>The contract of a comparator, and what the sort guarantees under it.\<close>

locale comparator =
  fixes cmp :: "'a \<Rightarrow> 'a \<Rightarrow> int"
  assumes cmp_total: "cmp x y \<le> 0 \<or> cmp y x \<le> 0"
    and cmp_trans: "cmp x y \<le> 0 \<Longrightarrow> cmp y z \<le> 0 \<Longrightarrow> cmp x z \<le> 0"
begin

lemma insert_by_sorted:
  "sorted_wrt (\<lambda>x y. cmp x y \<le> 0) xs \<Longrightarrow> sorted_wrt (\<lambda>x y. cmp x y \<le> 0) (insert_by cmp x xs)"
proof (induction xs)
  case Nil
  then show ?case by simp
next
  case (Cons y ys)
  have "set (insert_by cmp x ys) = insert x (set ys)"
    by (metis mset_insert_by set_mset_add_mset_insert set_mset_mset)
  with Cons show ?case using cmp_total [of x y] cmp_trans by auto
qed

lemma sort_sorted: "sorted_wrt (\<lambda>x y. cmp x y \<le> 0) (js_sort cmp xs)"
  by (induction xs) (auto intro: insert_by_sorted)

end

locale keyed_comparator = comparator cmp for cmp :: "'a \<Rightarrow> 'a \<Rightarrow> int" +
  fixes key :: "'a \<Rightarrow> 'k"
  assumes cmp_eq_key: "cmp x y \<le> 0 \<Longrightarrow> cmp y x \<le> 0 \<Longrightarrow> key x = key y"
begin

lemma sorted_unique:
  assumes "sorted_wrt (\<lambda>x y. cmp x y \<le> 0) xs" "sorted_wrt (\<lambda>x y. cmp x y \<le> 0) ys"
    and "mset xs = mset ys" "inj_on key (set xs)"
  shows "xs = ys"
  using assms
proof (induction xs arbitrary: ys)
  case Nil
  then show ?case by simp
next
  case (Cons x xs)
  then obtain y ys' where ys: "ys = y # ys'"
    by (cases ys) auto
  have sets: "set (x # xs) = set ys"
    using Cons.prems(3) by (metis set_mset_mset)
  have "cmp x y \<le> 0 \<and> cmp y x \<le> 0 \<or> x = y"
    using Cons.prems(1,2) sets ys by auto
  then have "key x = key y"
    using cmp_eq_key by blast
  then have xy: "x = y"
    using Cons.prems(4) sets ys by (auto simp: inj_on_def)
  with Cons ys show ?case by auto
qed

text \<open>Sorting forgets the order of the input, when the keys of its elements differ.\<close>

lemma sort_determined:
  assumes "mset xs = mset ys" "inj_on key (set xs)"
  shows "js_sort cmp xs = js_sort cmp ys"
  using assms sort_sorted by (intro sorted_unique) auto

lemma sort_idem:
  assumes "inj_on key (set xs)"
  shows "js_sort cmp (js_sort cmp xs) = js_sort cmp xs"
  using assms by (intro sort_determined) auto

end

text \<open>JavaScript's \<open>a || b\<close> on two comparison results: the second decides ties of the first.\<close>

definition cmp_or :: "int \<Rightarrow> int \<Rightarrow> int" where
  "cmp_or a b = (if a \<noteq> 0 then a else b)"

definition cmp_by :: "('a \<Rightarrow> 'k::linorder) \<Rightarrow> 'a \<Rightarrow> 'a \<Rightarrow> int" where
  "cmp_by f x y = (if f x < f y then -1 else if f y < f x then 1 else 0)"

lemma cmp_by_le [cmp_simps]: "cmp_by f x y \<le> 0 \<longleftrightarrow> f x \<le> f y"
  by (auto simp: cmp_by_def)

lemma cmp_by_refl [simp]: "cmp_by f x x = 0"
  by (simp add: cmp_by_def)

lemma cmp_or_by [cmp_simps]:
  "cmp_or (cmp_by f x y) (cmp_by g x y) = cmp_by (\<lambda>x. (f x, g x)) x y"
  by (auto simp: cmp_or_def cmp_by_def)

lemma comparator_cmp_by: "comparator (cmp_by f)"
  by unfold_locales (auto simp: cmp_simps)

lemma keyed_comparator_cmp_by: "keyed_comparator (cmp_by f) f"
  by unfold_locales (auto simp: cmp_simps)

section \<open>Stacks\<close>

text \<open>A stack kept as a list whose last element is the top: \<^verbatim>\<open>while (P(stack.at(-1))) stack.pop()\<close>.\<close>

definition pop_while :: "('a \<Rightarrow> bool) \<Rightarrow> 'a list \<Rightarrow> 'a list" where
  "pop_while P xs = rev (dropWhile P (rev xs))"

lemma pop_while_prefix: "\<exists>ys. xs = pop_while P xs @ ys"
  unfolding pop_while_def by (metis rev_append rev_rev_ident takeWhile_dropWhile_id)

lemma pop_while_last: "pop_while P xs = [] \<or> \<not> P (last (pop_while P xs))"
  by (cases "dropWhile P (rev xs) = []") (simp_all add: pop_while_def last_rev hd_dropWhile)

lemma sorted_wrt_pop_while: "sorted_wrt R xs \<Longrightarrow> sorted_wrt R (pop_while P xs)"
  using pop_while_prefix [of xs P] by (metis sorted_wrt_append)

text \<open>
  Pushing an element after popping everything not below it keeps a strictly increasing stack.
\<close>

lemma push_increasing:
  fixes f :: "'a \<Rightarrow> nat"
  assumes "sorted_wrt (\<lambda>x y. f x < f y) xs"
  shows "sorted_wrt (\<lambda>x y. f x < f y) (pop_while (\<lambda>x. f z \<le> f x) xs @ [z])"
proof -
  let ?ys = "pop_while (\<lambda>x. f z \<le> f x) xs"
  have sorted: "sorted_wrt (\<lambda>x y. f x < f y) ?ys"
    using assms by (rule sorted_wrt_pop_while)
  have "f y < f z" if "y \<in> set ?ys" for y
  proof -
    obtain us v where us: "?ys = us @ [v]"
      using \<open>y \<in> set ?ys\<close> by (cases ?ys rule: rev_cases) auto
    then have "f v < f z"
      using pop_while_last [of "\<lambda>x. f z \<le> f x" xs] by auto
    moreover have "f y \<le> f v"
      using \<open>y \<in> set ?ys\<close> sorted us by (auto simp: sorted_wrt_append)
    ultimately show ?thesis by simp
  qed
  with sorted show ?thesis by (auto simp: sorted_wrt_append)
qed

section \<open>Sets and maps in insertion order\<close>

lemma filter_absent: "x \<notin> set xs \<Longrightarrow> filter (\<lambda>y. y \<noteq> x) xs = xs"
  by (induction xs) auto

fun dedup :: "'a list \<Rightarrow> 'a list" where
  "dedup [] = []"
| "dedup (x # xs) = x # filter (\<lambda>y. y \<noteq> x) (dedup xs)"

lemma set_dedup [simp]: "set (dedup xs) = set xs"
  by (induction xs) auto

lemma distinct_dedup [simp]: "distinct (dedup xs)"
  by (induction xs) auto

lemma dedup_distinct: "distinct xs \<Longrightarrow> dedup xs = xs"
  by (induction xs) (auto intro!: filter_True)

lemma dedup_Nil_iff [simp]: "dedup xs = [] \<longleftrightarrow> xs = []"
  by (cases xs) auto

lemma length_dedup_le: "length (dedup xs) \<le> length xs"
  by (induction xs) (auto intro: le_trans [OF length_filter_le])

lemma mset_dedup_cong: "set xs = set ys \<Longrightarrow> mset (dedup xs) = mset (dedup ys)"
  by (metis distinct_dedup set_dedup set_eq_iff_mset_eq_distinct)

abbreviation jm_set :: "'k \<Rightarrow> 'v \<Rightarrow> ('k \<times> 'v) list \<Rightarrow> ('k \<times> 'v) list" where
  "jm_set k v m \<equiv> AList.update k v m"

abbreviation jm_get :: "('k \<times> 'v) list \<Rightarrow> 'k \<Rightarrow> 'v option" where
  "jm_get m k \<equiv> map_of m k"

definition jm_of_list :: "('k \<times> 'v) list \<Rightarrow> ('k \<times> 'v) list" where
  "jm_of_list kvs = fold (\<lambda>(k, v) m. jm_set k v m) kvs []"

text \<open>
  The contract of such a map: a write is seen by the reads of its key and by no other, and
  the keys stay distinct, so that iterating it yields every key once.
\<close>

locale keyed_store =
  fixes empty :: "'m" and get :: "'m \<Rightarrow> 'k \<Rightarrow> 'v option" and put :: "'k \<Rightarrow> 'v \<Rightarrow> 'm \<Rightarrow> 'm"
    and entries :: "'m \<Rightarrow> ('k \<times> 'v) list"
  assumes get_empty: "get empty k = None"
    and get_put: "get (put k v m) k' = (if k' = k then Some v else get m k')"
    and entries_empty: "entries empty = []"
    and entries_put: "distinct (map fst (entries m)) \<Longrightarrow> distinct (map fst (entries (put k v m)))"
    and entries_get: "distinct (map fst (entries m)) \<Longrightarrow> get m k = map_of (entries m) k"
begin

lemma fold_put_distinct:
  "distinct (map fst (entries m)) \<Longrightarrow>
   distinct (map fst (entries (fold (\<lambda>(k, v). put k v) kvs m)))"
  by (induction kvs arbitrary: m) (auto intro: entries_put)

lemma fold_put_get:
  "get (fold (\<lambda>(k, v). put k v) kvs m) k =
     (case map_of (rev kvs) k of None \<Rightarrow> get m k | Some v \<Rightarrow> Some v)"
  by (induction kvs arbitrary: m) (auto simp: get_put map_add_def split: option.splits)

lemma collect_distinct: "distinct (map fst (entries (fold (\<lambda>(k, v). put k v) kvs empty)))"
  by (rule fold_put_distinct) (simp add: entries_empty)

end

interpretation jmap: keyed_store "[]" map_of AList.update "\<lambda>m. m"
  by unfold_locales (auto simp: update_conv' distinct_update)

lemma jm_of_list_distinct [simp]: "distinct (map fst (jm_of_list kvs))"
  using jmap.collect_distinct by (simp add: jm_of_list_def)

lemma jm_of_list_get: "map_of (jm_of_list kvs) k = map_of (rev kvs) k"
  using jmap.fold_put_get [of kvs "[]" k] by (auto simp: jm_of_list_def split: option.splits)

lemma map_of_eqI_mset:
  "distinct (map fst xs) \<Longrightarrow> mset xs = mset ys \<Longrightarrow> map_of xs = map_of ys"
  by (metis map_of_inject_set mset_eq_setD mset_map mset_eq_imp_distinct_iff)

lemma fold_update_distinct:
  "distinct (map fst m @ map fst kvs) \<Longrightarrow> fold (\<lambda>(k, v) m. AList.update k v m) kvs m = m @ kvs"
proof (induction kvs arbitrary: m)
  case Nil
  then show ?case by simp
next
  case (Cons kv kvs)
  obtain k v where kv: "kv = (k, v)" by (cases kv)
  have upd: "k \<notin> fst ` set m \<Longrightarrow> AList.update k v m = m @ [(k, v)]" for m
    by (induction m) auto
  have "k \<notin> fst ` set m" using Cons.prems kv by auto
  then have "fold (\<lambda>(k, v) m. AList.update k v m) (kv # kvs) m
      = fold (\<lambda>(k, v) m. AList.update k v m) kvs (m @ [(k, v)])"
    by (simp add: kv upd)
  also have "\<dots> = (m @ [(k, v)]) @ kvs"
    using Cons.prems kv by (intro Cons.IH) auto
  finally show ?case by (simp add: kv)
qed

lemma jm_of_list_id: "distinct (map fst kvs) \<Longrightarrow> jm_of_list kvs = kvs"
  using fold_update_distinct [of "[]" kvs] by (simp add: jm_of_list_def)

section \<open>Grouping\<close>

text \<open>
  Grouping with a map of lists, \<^verbatim>\<open>const group = map.get(k) ?? []; group.push(x); map.set(k, group)\<close>
  for every element: the groups come in the order in which their keys first occur, and each
  holds its elements in their order.
\<close>

definition group_by :: "('a \<Rightarrow> 'k) \<Rightarrow> 'a list \<Rightarrow> ('k \<times> 'a list) list" where
  "group_by key xs = fold (\<lambda>x m. jm_set (key x) (nullish (jm_get m (key x)) [] @ [x]) m) xs []"

lemma dedup_snoc: "dedup (xs @ [x]) = (if x \<in> set xs then dedup xs else dedup xs @ [x])"
  by (induction xs) auto

lemma update_map_keys:
  "distinct ks \<Longrightarrow> AList.update k v (map (\<lambda>k. (k, f k)) ks) =
     (if k \<in> set ks then map (\<lambda>k'. (k', if k' = k then v else f k')) ks
      else map (\<lambda>k. (k, f k)) ks @ [(k, v)])"
  by (induction ks) (auto intro!: map_cong)

lemma map_of_map_keys: "map_of (map (\<lambda>k. (k, f k)) ks) k = (if k \<in> set ks then Some (f k) else None)"
  by (induction ks) auto

lemma group_by_eq: "group_by key xs = map (\<lambda>k. (k, filter (\<lambda>x. key x = k) xs)) (dedup (map key xs))"
proof (induction xs rule: rev_induct)
  case Nil
  then show ?case by (simp add: group_by_def)
next
  case (snoc x xs)
  have step: "group_by key (xs @ [x]) =
      jm_set (key x) (nullish (jm_get (group_by key xs) (key x)) [] @ [x]) (group_by key xs)"
    by (simp add: group_by_def)
  have new: "key x \<notin> key ` set xs \<Longrightarrow> filter (\<lambda>y. key y = key x) xs = []"
    by (auto simp: filter_empty_conv) (metis imageI)
  show ?case
    unfolding step snoc.IH
    using new by (auto simp: update_map_keys map_of_map_keys dedup_snoc intro!: map_cong)
qed

lemma group_by_members: "(k, g) \<in> set (group_by key xs) \<longleftrightarrow> k \<in> key ` set xs \<and> g = filter (\<lambda>x. key x = k) xs"
  by (auto simp: group_by_eq)

end
