(* ===== verification/JsText.thy ===== *)
theory JsText
  imports Prelude
begin

text \<open>
  The string operations of JavaScript the code uses, on strings whose UTF-16 code units are
  below 256 (a \<open>char\<close> is one code unit): \<^verbatim>\<open>trim\<close>, \<^verbatim>\<open>toLowerCase\<close>, \<^verbatim>\<open>slice\<close>,
  \<^verbatim>\<open>startsWith\<close>, \<^verbatim>\<open>endsWith\<close>, \<^verbatim>\<open>includes\<close>, \<^verbatim>\<open>indexOf\<close>, \<^verbatim>\<open>lastIndexOf\<close>,
  \<^verbatim>\<open>split\<close> on one character, \<^verbatim>\<open>join\<close>, \<^verbatim>\<open>replaceAll\<close> of one character and the decimal
  rendering of a natural number. On this alphabet \<^verbatim>\<open>normalize("NFC")\<close> is the identity.
\<close>

section \<open>White space\<close>

definition ws_chars :: "char list" where
  "ws_chars = [CHR 0x09, CHR 0x0A, CHR 0x0B, CHR 0x0C, CHR 0x0D, CHR 0x20, CHR 0xA0]"

definition is_ws :: "char \<Rightarrow> bool" where
  "is_ws c \<longleftrightarrow> c \<in> set ws_chars"

definition newline :: char where
  "newline = CHR 0x0A"

abbreviation nul :: char where
  "nul \<equiv> CHR 0x00"

definition trim_start :: "string \<Rightarrow> string" where
  "trim_start s = dropWhile is_ws s"

definition trim_end :: "string \<Rightarrow> string" where
  "trim_end s = rev (dropWhile is_ws (rev s))"

definition trim :: "string \<Rightarrow> string" where
  "trim s = trim_end (trim_start s)"

lemma trim_Nil [simp]: "trim [] = []"
  by (simp add: trim_def trim_end_def trim_start_def)

lemma is_ws_newline [simp]: "is_ws newline"
  by (simp add: is_ws_def ws_chars_def newline_def)

lemma takeWhile_rev_split: "rev (dropWhile P (rev s)) @ rev (takeWhile P (rev s)) = s"
  by (metis rev_append rev_rev_ident takeWhile_dropWhile_id)

lemma trim_end_append: "\<exists>w. s = trim_end s @ w \<and> list_all is_ws w"
proof -
  have "s = trim_end s @ rev (takeWhile is_ws (rev s))"
    by (simp add: trim_end_def takeWhile_rev_split)
  moreover have "list_all is_ws (rev (takeWhile is_ws (rev s)))"
    by (auto simp: list_all_iff dest: set_takeWhileD)
  ultimately show ?thesis by blast
qed

lemma filter_ws_nil: "list_all P w \<Longrightarrow> filter (\<lambda>c. \<not> P c) w = []"
  by (auto simp: list_all_iff filter_empty_conv)

lemma filter_trim_end [simp]:
  "filter (\<lambda>c. \<not> is_ws c) (trim_end s) = filter (\<lambda>c. \<not> is_ws c) s"
  using trim_end_append [of s] by (metis append_Nil2 filter_append filter_ws_nil)

lemma filter_trim_start [simp]:
  "filter (\<lambda>c. \<not> is_ws c) (trim_start s) = filter (\<lambda>c. \<not> is_ws c) s"
  unfolding trim_start_def by (induction s) auto

lemma filter_trim [simp]: "filter (\<lambda>c. \<not> is_ws c) (trim s) = filter (\<lambda>c. \<not> is_ws c) s"
  by (simp add: trim_def)

lemma trim_start_head: "trim_start s \<noteq> [] \<Longrightarrow> \<not> is_ws (hd (trim_start s))"
  by (simp add: trim_start_def hd_dropWhile)

lemma trim_end_last: "trim_end s \<noteq> [] \<Longrightarrow> \<not> is_ws (last (trim_end s))"
  by (simp add: trim_end_def last_rev hd_dropWhile)

lemma trim_end_hd: "trim_end s \<noteq> [] \<Longrightarrow> hd (trim_end s) = hd s"
  using trim_end_append [of s] by (metis hd_append)

lemma trim_no_outer_ws:
  assumes "trim s \<noteq> []"
  shows "\<not> is_ws (hd (trim s)) \<and> \<not> is_ws (last (trim s))"
proof -
  have "trim_start s \<noteq> []"
    using assms by (auto simp: trim_def trim_end_def)
  then show ?thesis
    using assms trim_start_head trim_end_hd trim_end_last by (metis trim_def)
qed

lemma trim_fixpoint:
  assumes "s = [] \<or> \<not> is_ws (hd s) \<and> \<not> is_ws (last s)"
  shows "trim s = s"
proof (cases "s = []")
  case False
  then have "trim_start s = s" and "dropWhile is_ws (rev s) = rev s"
    using assms by (auto simp: trim_start_def dropWhile_eq_self_iff hd_rev)
  then show ?thesis by (simp add: trim_def trim_end_def)
qed simp

lemma trim_idem [simp]: "trim (trim s) = trim s"
  using trim_no_outer_ws trim_fixpoint by blast

lemma length_trim_end_le: "length (trim_end s) \<le> length s"
  by (simp add: trim_end_def) (metis length_dropWhile_le length_rev)

lemma length_trim_le: "length (trim s) \<le> length s"
  unfolding trim_def trim_start_def
  by (metis length_dropWhile_le length_trim_end_le le_trans)

section \<open>Case\<close>

definition char_in :: "nat \<Rightarrow> nat \<Rightarrow> char \<Rightarrow> bool" where
  "char_in lo hi c \<longleftrightarrow> lo \<le> of_char c \<and> (of_char c :: nat) \<le> hi"

definition is_digit :: "char \<Rightarrow> bool" where
  "is_digit c = char_in 48 57 c"

definition is_lower :: "char \<Rightarrow> bool" where
  "is_lower c = char_in 97 122 c"

definition is_upper :: "char \<Rightarrow> bool" where
  "is_upper c = char_in 65 90 c"

definition lower_char :: "char \<Rightarrow> char" where
  "lower_char c =
     (let n = of_char c in
      if (65 \<le> n \<and> n \<le> 90) \<or> (192 \<le> n \<and> n \<le> 222 \<and> n \<noteq> 215) then char_of (n + 32 :: nat) else c)"

definition to_lower :: "string \<Rightarrow> string" where
  "to_lower s = map lower_char s"

lemma length_to_lower [simp]: "length (to_lower s) = length s"
  by (simp add: to_lower_def)

lemma to_lower_append [simp]: "to_lower (s @ t) = to_lower s @ to_lower t"
  by (simp add: to_lower_def)

lemma of_char_char_of_small: "n < 256 \<Longrightarrow> of_char (char_of n :: char) = (n :: nat)"
  by simp

lemma lower_char_idem [simp]: "lower_char (lower_char c) = lower_char c"
proof -
  have "(of_char c :: nat) < 256"
    by (rule nat_of_char_less_256)
  then show ?thesis
    by (simp add: lower_char_def Let_def)
qed

lemma to_lower_idem [simp]: "to_lower (to_lower s) = to_lower s"
  by (simp add: to_lower_def)

section \<open>Searching and cutting\<close>

definition str_slice :: "nat \<Rightarrow> nat \<Rightarrow> string \<Rightarrow> string" where
  "str_slice a b s = take (b - a) (drop a s)"

definition starts_with :: "string \<Rightarrow> string \<Rightarrow> bool" where
  "starts_with s p \<longleftrightarrow> take (length p) s = p"

definition ends_with :: "string \<Rightarrow> string \<Rightarrow> bool" where
  "ends_with s p \<longleftrightarrow> length p \<le> length s \<and> drop (length s - length p) s = p"

definition occurrences :: "string \<Rightarrow> string \<Rightarrow> nat list" where
  "occurrences s p = filter (\<lambda>i. starts_with (drop i s) p) [0..<length s + 1]"

definition index_of :: "string \<Rightarrow> string \<Rightarrow> int" where
  "index_of s p = (case occurrences s p of [] \<Rightarrow> -1 | i # _ \<Rightarrow> int i)"

definition last_index_of :: "string \<Rightarrow> string \<Rightarrow> int" where
  "last_index_of s p = (case rev (occurrences s p) of [] \<Rightarrow> -1 | i # _ \<Rightarrow> int i)"

definition str_includes :: "string \<Rightarrow> string \<Rightarrow> bool" where
  "str_includes s p \<longleftrightarrow> occurrences s p \<noteq> []"

lemma starts_with_append [simp]: "starts_with (p @ s) p"
  by (simp add: starts_with_def)

lemma starts_with_iff: "starts_with s p \<longleftrightarrow> (\<exists>t. s = p @ t)"
  by (metis append_take_drop_id starts_with_append starts_with_def)

lemma starts_with_refl [simp]: "starts_with s s"
  by (simp add: starts_with_def)

lemma starts_with_Nil [simp]: "starts_with s []"
  by (simp add: starts_with_def)

lemma last_index_of_less: "last_index_of s p \<le> int (length s)"
proof (cases "rev (occurrences s p)")
  case Nil
  then show ?thesis by (simp add: last_index_of_def)
next
  case (Cons i js)
  then have "i \<in> set (occurrences s p)"
    by (metis list.set_intros(1) set_rev)
  then have "i \<le> length s"
    by (simp add: occurrences_def del: upt_Suc)
  then show ?thesis
    using Cons by (simp add: last_index_of_def)
qed

section \<open>Splitting and joining\<close>

fun split_on :: "char \<Rightarrow> string \<Rightarrow> string list" where
  "split_on d [] = [[]]"
| "split_on d (c # cs) =
     (if c = d then [] # split_on d cs
      else (case split_on d cs of [] \<Rightarrow> [[c]] | p # ps \<Rightarrow> (c # p) # ps))"

fun join :: "string \<Rightarrow> string list \<Rightarrow> string" where
  "join sep [] = []"
| "join sep [x] = x"
| "join sep (x # y # zs) = x @ sep @ join sep (y # zs)"

lemma split_on_nonempty [simp]: "split_on d s \<noteq> []"
  by (cases s) (auto split: list.splits)

lemma join_Cons: "join sep (x # xs) = (if xs = [] then x else x @ sep @ join sep xs)"
  by (cases xs) auto

lemma join_snoc: "join sep (xs @ [x]) = (if xs = [] then x else join sep xs @ sep @ x)"
  by (induction xs) (auto simp: join_Cons)

lemma join_split_on: "join [d] (split_on d s) = s"
proof (induction s)
  case Nil
  then show ?case by simp
next
  case (Cons c cs)
  obtain p ps where ps: "split_on d cs = p # ps"
    by (cases "split_on d cs") auto
  with Cons show ?case by (auto simp: join_Cons)
qed

lemma split_on_no_sep: "p \<in> set (split_on d s) \<Longrightarrow> d \<notin> set p"
proof (induction s arbitrary: p)
  case Nil
  then show ?case by simp
next
  case (Cons c cs)
  obtain q qs where "split_on d cs = q # qs"
    by (cases "split_on d cs") auto
  with Cons show ?case by (auto split: if_splits)
qed

lemma split_on_single: "d \<notin> set s \<Longrightarrow> split_on d s = [s]"
  by (induction s) auto

lemma split_on_append: "d \<notin> set s \<Longrightarrow> split_on d (s @ d # t) = s # split_on d t"
  by (induction s) auto

lemma split_on_join:
  "xs \<noteq> [] \<Longrightarrow> (\<And>x. x \<in> set xs \<Longrightarrow> d \<notin> set x) \<Longrightarrow> split_on d (join [d] xs) = xs"
  by (induction xs) (auto simp: join_Cons split_on_single split_on_append)

lemma length_join:
  "length (join sep xs) = sum_list (map length xs) + (length xs - 1) * length sep"
  by (induction sep xs rule: join.induct) auto

lemma filter_join_ws:
  "list_all is_ws sep \<Longrightarrow>
   filter (\<lambda>c. \<not> is_ws c) (join sep xs) = filter (\<lambda>c. \<not> is_ws c) (concat xs)"
  by (induction sep xs rule: join.induct) (auto simp: filter_ws_nil)

definition replace_char :: "char \<Rightarrow> string \<Rightarrow> string \<Rightarrow> string" where
  "replace_char d r s = concat (map (\<lambda>c. if c = d then r else [c]) s)"

text \<open>The runs of characters that satisfy a class, replaced by one text: \<^verbatim>\<open>/[class]+/g\<close>.\<close>

fun replace_runs :: "(char \<Rightarrow> bool) \<Rightarrow> string \<Rightarrow> string \<Rightarrow> string" where
  "replace_runs P r [] = []"
| "replace_runs P r [c] = (if P c then r else [c])"
| "replace_runs P r (c # d # cs) =
     (if P c then (if P d then replace_runs P r (d # cs) else r @ replace_runs P r (d # cs))
      else c # replace_runs P r (d # cs))"

lemma replace_runs_keeps:
  "list_all P r \<Longrightarrow> filter (\<lambda>c. \<not> P c) (replace_runs P r s) = filter (\<lambda>c. \<not> P c) s"
  by (induction P r s rule: replace_runs.induct) (auto simp: filter_ws_nil)

lemma replace_runs_free: "list_all (\<lambda>c. \<not> P c) s \<Longrightarrow> replace_runs P r s = s"
  by (induction P r s rule: replace_runs.induct) auto

lemma set_replace_runs: "set (replace_runs P r s) \<subseteq> {c \<in> set s. \<not> P c} \<union> set r"
  by (induction P r s rule: replace_runs.induct) auto

section \<open>Decimal numbers\<close>

definition digit_char :: "nat \<Rightarrow> char" where
  "digit_char d = char_of (48 + d)"

fun nat_str :: "nat \<Rightarrow> string" where
  "nat_str n = (if n < 10 then [digit_char n] else nat_str (n div 10) @ [digit_char (n mod 10)])"

declare nat_str.simps [simp del]

definition int_str :: "int \<Rightarrow> string" where
  "int_str i = (if i < 0 then CHR ''-'' # nat_str (nat (- i)) else nat_str (nat i))"

definition digit_value :: "char \<Rightarrow> nat" where
  "digit_value c = of_char c - 48"

definition nat_of_digits :: "string \<Rightarrow> nat" where
  "nat_of_digits s = foldl (\<lambda>n c. 10 * n + digit_value c) 0 s"

lemma digit_char_value [simp]: "d < 10 \<Longrightarrow> digit_value (digit_char d) = d"
  by (simp add: digit_value_def digit_char_def)

lemma digit_char_is_digit [simp]: "d < 10 \<Longrightarrow> is_digit (digit_char d)"
  by (simp add: is_digit_def char_in_def digit_char_def)

lemma nat_of_digits_snoc: "nat_of_digits (s @ [c]) = 10 * nat_of_digits s + digit_value c"
  by (simp add: nat_of_digits_def)

lemma nat_of_digits_str [simp]: "nat_of_digits (nat_str n) = n"
proof (induction n rule: nat_str.induct)
  case (1 n)
  show ?case
  proof (cases "n < 10")
    case True
    then show ?thesis by (subst nat_str.simps) (simp add: nat_of_digits_def)
  next
    case False
    with "1" show ?thesis by (subst nat_str.simps) (simp add: nat_of_digits_snoc)
  qed
qed

lemma nat_str_inj [simp]: "nat_str m = nat_str n \<longleftrightarrow> m = n"
  by (metis nat_of_digits_str)

lemma nat_str_digits: "list_all is_digit (nat_str n)"
proof (induction n rule: nat_str.induct)
  case (1 n)
  then show ?case by (subst nat_str.simps) auto
qed

lemma nat_str_nonempty [simp]: "nat_str n \<noteq> []"
  by (subst nat_str.simps) simp

end
