(* ===== verification/Digest.thy ===== *)
theory Digest
  imports JsText "HOL-Library.Word"
begin

text \<open>
  The digests the code takes from \<^verbatim>\<open>node:crypto\<close>: UTF-8 encoding, SHA-256 and SHA-1 over
  32-bit words as FIPS 180-4 gives them, and their hexadecimal rendering. The locale
  \<open>digest\<close> states what the rest of the code relies on: a digest of fixed length whose
  characters are lower-case hexadecimal digits.
\<close>

unbundle bit_operations_syntax

type_synonym byte = "8 word"
type_synonym u32 = "32 word"

section \<open>Bytes and hexadecimal text\<close>

definition utf8_char :: "char \<Rightarrow> byte list" where
  "utf8_char c =
     (let n = of_char c :: nat in
      if n < 128 then [of_nat n] else [of_nat (192 + n div 64), of_nat (128 + n mod 64)])"

definition utf8 :: "string \<Rightarrow> byte list" where
  "utf8 s = concat (map utf8_char s)"

definition hex_digit :: "nat \<Rightarrow> char" where
  "hex_digit d = (if d < 10 then char_of (48 + d) else char_of (87 + d))"

definition hex_digits :: "char set" where
  "hex_digits = set (map hex_digit [0..<16])"

definition hex_byte :: "byte \<Rightarrow> string" where
  "hex_byte b = [hex_digit (unat b div 16), hex_digit (unat b mod 16)]"

definition hex_of_bytes :: "byte list \<Rightarrow> string" where
  "hex_of_bytes bs = concat (map hex_byte bs)"

definition bytes_of_u32 :: "u32 \<Rightarrow> byte list" where
  "bytes_of_u32 w = map (\<lambda>k. ucast (drop_bit k w)) [24, 16, 8, 0]"

fun u32s_of_bytes :: "byte list \<Rightarrow> u32 list" where
  "u32s_of_bytes (a # b # c # d # bs) =
     (push_bit 24 (ucast a) OR push_bit 16 (ucast b) OR push_bit 8 (ucast c) OR ucast d) # u32s_of_bytes bs"
| "u32s_of_bytes bs = []"

lemma hex_digit_in [simp]: "d < 16 \<Longrightarrow> hex_digit d \<in> hex_digits"
  by (simp add: hex_digits_def)

lemma unat_byte_less [simp]: "unat (b :: byte) < 256"
  using unsigned_less [of b] by simp

lemma length_hex_of_bytes [simp]: "length (hex_of_bytes bs) = 2 * length bs"
  by (induction bs) (simp_all add: hex_of_bytes_def hex_byte_def)

lemma set_hex_of_bytes: "set (hex_of_bytes bs) \<subseteq> hex_digits"
proof (induction bs)
  case Nil
  then show ?case by (simp add: hex_of_bytes_def)
next
  case (Cons b bs)
  have "unat b div 16 < 16" "unat b mod 16 < 16"
    using unat_byte_less [of b] by (simp_all add: div_less_iff_less_mult)
  with Cons show ?case by (simp add: hex_of_bytes_def hex_byte_def)
qed

lemma length_bytes_of_u32 [simp]: "length (bytes_of_u32 w) = 4"
  by (simp add: bytes_of_u32_def)

section \<open>Padding\<close>

definition length_bytes :: "nat \<Rightarrow> byte list" where
  "length_bytes n = map (\<lambda>k. of_nat (n div 2 ^ k mod 256)) [56, 48, 40, 32, 24, 16, 8, 0]"

definition sha_pad :: "byte list \<Rightarrow> byte list" where
  "sha_pad bs =
     bs @ [128] @ replicate ((119 - length bs mod 64) mod 64) 0 @ length_bytes (8 * length bs)"

lemma length_sha_pad: "length (sha_pad bs) mod 64 = 0"
proof -
  define r q where "r = length bs mod 64" and "q = length bs div 64"
  have n: "length bs = 64 * q + r" and r: "r < 64"
    by (simp_all add: r_def q_def)
  show ?thesis
  proof (cases "r \<le> 55")
    case True
    then have "119 - r = (55 - r) + 64" by simp
    then have "(119 - r) mod 64 = 55 - r"
      using True by (metis mod_add_self2 mod_less less_imp_diff_less numeral_less_iff semiring_norm(78) semiring_norm(76) semiring_norm(80) semiring_norm(81))
    then have "length (sha_pad bs) = 64 * (q + 1)"
      using n True by (simp add: sha_pad_def length_bytes_def flip: r_def)
    then show ?thesis by simp
  next
    case False
    then have "(119 - r) mod 64 = 119 - r" by simp
    then have "length (sha_pad bs) = 64 * (q + 2)"
      using n False r by (simp add: sha_pad_def length_bytes_def flip: r_def)
    then show ?thesis by simp
  qed
qed

fun chunks :: "nat \<Rightarrow> nat \<Rightarrow> 'a list \<Rightarrow> 'a list list" where
  "chunks 0 k xs = []"
| "chunks (Suc n) k xs = (if xs = [] then [] else take k xs # chunks n k (drop k xs))"

section \<open>SHA-256\<close>

text \<open>
  The round constants: the first 32 bits of the fractional parts of the cube roots of the first
  64 primes, which are the primes below 312. The cube root of a natural number below
  \<open>2 ^ 120\<close> is found bit by bit.
\<close>

definition primes_below :: "nat \<Rightarrow> nat list" where
  "primes_below n = filter (\<lambda>p. list_all (\<lambda>d. p mod d \<noteq> 0) [2..<p]) [2..<n]"

definition cube_root :: "nat \<Rightarrow> nat" where
  "cube_root n = fold (\<lambda>k r. if (r + 2 ^ k) ^ 3 \<le> n then r + 2 ^ k else r) (rev [0..<40]) 0"

definition k256 :: "u32 list" where
  "k256 = map (\<lambda>p. of_nat (cube_root (p * 2 ^ 96))) (primes_below 312)"

record sha256_state =
  va :: u32
  vb :: u32
  vc :: u32
  vd :: u32
  ve :: u32
  vf :: u32
  vg :: u32
  vh :: u32

definition sha256_init :: sha256_state where
  "sha256_init =
     \<lparr>va = 0x6a09e667, vb = 0xbb67ae85, vc = 0x3c6ef372, vd = 0xa54ff53a,
      ve = 0x510e527f, vf = 0x9b05688c, vg = 0x1f83d9ab, vh = 0x5be0cd19\<rparr>"

text \<open>The message schedule, extended one word at a time (the newest word first).\<close>

fun schedule256 :: "nat \<Rightarrow> u32 list \<Rightarrow> u32 list" where
  "schedule256 0 ws = rev ws"
| "schedule256 (Suc n) ws =
     (let w15 = ws ! 14; w2 = ws ! 1;
          s0 = word_rotr 7 w15 XOR word_rotr 18 w15 XOR drop_bit 3 w15;
          s1 = word_rotr 17 w2 XOR word_rotr 19 w2 XOR drop_bit 10 w2
      in schedule256 n ((ws ! 15 + s0 + ws ! 6 + s1) # ws))"

definition round256 :: "u32 \<times> u32 \<Rightarrow> sha256_state \<Rightarrow> sha256_state" where
  "round256 = (\<lambda>(k, w) s.
     let s1 = word_rotr 6 (ve s) XOR word_rotr 11 (ve s) XOR word_rotr 25 (ve s);
         ch = (ve s AND vf s) XOR (NOT (ve s) AND vg s);
         t1 = vh s + s1 + ch + k + w;
         s0 = word_rotr 2 (va s) XOR word_rotr 13 (va s) XOR word_rotr 22 (va s);
         mj = (va s AND vb s) XOR (va s AND vc s) XOR (vb s AND vc s)
     in \<lparr>va = t1 + s0 + mj, vb = va s, vc = vb s, vd = vc s,
         ve = vd s + t1, vf = ve s, vg = vf s, vh = vg s\<rparr>)"

definition block256 :: "byte list \<Rightarrow> sha256_state \<Rightarrow> sha256_state" where
  "block256 bs s =
     (let ws = schedule256 48 (rev (u32s_of_bytes bs)); r = fold round256 (zip k256 ws) s
      in \<lparr>va = va s + va r, vb = vb s + vb r, vc = vc s + vc r, vd = vd s + vd r,
          ve = ve s + ve r, vf = vf s + vf r, vg = vg s + vg r, vh = vh s + vh r\<rparr>)"

definition sha256_bytes :: "byte list \<Rightarrow> byte list" where
  "sha256_bytes bs =
     (let p = sha_pad bs; s = fold block256 (chunks (length p) 64 p) sha256_init
      in concat (map bytes_of_u32 [va s, vb s, vc s, vd s, ve s, vf s, vg s, vh s]))"

lemma length_sha256_bytes [simp]: "length (sha256_bytes bs) = 32"
  by (simp add: sha256_bytes_def Let_def)

section \<open>SHA-1\<close>

fun schedule160 :: "nat \<Rightarrow> u32 list \<Rightarrow> u32 list" where
  "schedule160 0 ws = rev ws"
| "schedule160 (Suc n) ws =
     schedule160 n (word_rotl 1 (ws ! 2 XOR ws ! 7 XOR ws ! 13 XOR ws ! 15) # ws)"

type_synonym sha1_state = "u32 \<times> u32 \<times> u32 \<times> u32 \<times> u32"

definition round160 :: "nat \<times> u32 \<Rightarrow> sha1_state \<Rightarrow> sha1_state" where
  "round160 = (\<lambda>(t, w) (a, b, c, d, e).
     let (f, k) =
       (if t < 20 then ((b AND c) OR (NOT b AND d), 0x5a827999)
        else if t < 40 then (b XOR c XOR d, 0x6ed9eba1)
        else if t < 60 then ((b AND c) OR (b AND d) OR (c AND d), 0x8f1bbcdc)
        else (b XOR c XOR d, 0xca62c1d6))
     in (word_rotl 5 a + f + e + k + w, a, word_rotl 30 b, c, d))"

definition block160 :: "byte list \<Rightarrow> sha1_state \<Rightarrow> sha1_state" where
  "block160 bs s =
     (let ws = schedule160 64 (rev (u32s_of_bytes bs));
          (a, b, c, d, e) = s;
          (a', b', c', d', e') = fold round160 (zip [0..<80] ws) s
      in (a + a', b + b', c + c', d + d', e + e'))"

definition sha1_bytes :: "byte list \<Rightarrow> byte list" where
  "sha1_bytes bs =
     (let p = sha_pad bs;
          (a, b, c, d, e) = fold block160 (chunks (length p) 64 p)
            (0x67452301, 0xefcdab89, 0x98badcfe, 0x10325476, 0xc3d2e1f0)
      in concat (map bytes_of_u32 [a, b, c, d, e]))"

lemma length_sha1_bytes [simp]: "length (sha1_bytes bs) = 20"
  by (simp add: sha1_bytes_def Let_def split: prod.split)

section \<open>The digest interface\<close>

locale digest =
  fixes H :: "string \<Rightarrow> string" and size :: nat
  assumes H_length: "length (H x) = size"
    and H_hex: "set (H x) \<subseteq> hex_digits"
begin

lemma H_nonempty: "0 < size \<Longrightarrow> H x \<noteq> []"
  using H_length [of x] by auto

text \<open>
  An identifier made of a fixed prefix and the first characters of a digest: its length is
  fixed, and two of them are equal only if the shortened digests are.
\<close>

lemma short_id_length: "n \<le> size \<Longrightarrow> length (p @ take n (H x)) = length p + n"
  by (simp add: H_length)

lemma short_id_eq: "p @ take n (H x) = p @ take n (H y) \<longleftrightarrow> take n (H x) = take n (H y)"
  by simp

lemma short_id_hex: "set (take n (H x)) \<subseteq> hex_digits"
  using H_hex by (meson order_trans set_take_subset)

lemma short_id_no_sep: "c \<notin> hex_digits \<Longrightarrow> c \<notin> set p \<Longrightarrow> c \<notin> set (p @ take n (H x))"
  using short_id_hex by auto

end

end
