(* ===== verification/JsValue.thy ===== *)
theory JsValue
  imports Digest
begin

text \<open>
  JavaScript values as the code meets them after \<^verbatim>\<open>JSON.parse\<close>, with \<open>JUndef\<close> for a member
  whose value is \<^verbatim>\<open>undefined\<close>. An object is the list of its own members in enumeration
  order. Numbers are integers below \<open>10 ^ 21\<close> in magnitude and decimals with a fraction (the sign, the
  whole part and the digits after the point), which JavaScript prints without an exponent. \<open>stringify\<close> is
  \<^verbatim>\<open>JSON.stringify\<close> without indentation.
\<close>

datatype digit = D0 | D1 | D2 | D3 | D4 | D5 | D6 | D7 | D8 | D9

datatype json =
    JUndef
  | JNull
  | JBool bool
  | JNum int
  | JDec bool nat "digit list"
  | JStr string
  | JArr "json list"
  | JObj "(string \<times> json) list"

text \<open>\<^verbatim>\<open>Number.isSafeInteger\<close> on whole numbers.\<close>

definition safe_integer :: "int \<Rightarrow> bool" where
  "safe_integer i \<longleftrightarrow> - (2 ^ 53) < i \<and> i < 2 ^ 53"

section \<open>Objects\<close>

text \<open>
  Integer-like keys (array indices, below \<open>2 ^ 32 - 1\<close>) are enumerated first, in numeric
  order, and then the others in insertion order.
\<close>

definition array_index :: "string \<Rightarrow> nat option" where
  "array_index s =
     (if s \<noteq> [] \<and> list_all is_digit s \<and> (s = ''0'' \<or> hd s \<noteq> CHR ''0'')
          \<and> nat_of_digits s < 2 ^ 32 - 1
      then Some (nat_of_digits s) else None)"

definition own_order :: "(string \<times> 'v) list \<Rightarrow> (string \<times> 'v) list" where
  "own_order kvs =
     js_sort (cmp_by (\<lambda>kv. case array_index (fst kv) of Some n \<Rightarrow> n | None \<Rightarrow> 0))
       (filter (\<lambda>kv. array_index (fst kv) \<noteq> None) kvs)
     @ filter (\<lambda>kv. array_index (fst kv) = None) kvs"

text \<open>\<^verbatim>\<open>Object.fromEntries\<close>: a later entry of a key overwrites the value of an earlier one.\<close>

definition from_entries :: "(string \<times> 'v) list \<Rightarrow> (string \<times> 'v) list" where
  "from_entries kvs = own_order (jm_of_list kvs)"

lemma mset_own_order [simp]: "mset (own_order kvs) = mset kvs"
  by (simp add: own_order_def)

lemma set_own_order [simp]: "set (own_order kvs) = set kvs"
  by (metis mset_own_order set_mset_mset)

lemma distinct_own_order [simp]: "distinct (map fst (own_order kvs)) = distinct (map fst kvs)"
  by (metis mset_map mset_own_order mset_eq_imp_distinct_iff)

lemma from_entries_distinct [simp]: "distinct (map fst (from_entries kvs))"
  by (simp add: from_entries_def)

lemma mset_from_entries: "distinct (map fst kvs) \<Longrightarrow> mset (from_entries kvs) = mset kvs"
  by (simp add: from_entries_def jm_of_list_id)

lemma set_from_entries: "distinct (map fst kvs) \<Longrightarrow> set (from_entries kvs) = set kvs"
  by (metis mset_from_entries set_mset_mset)

section \<open>Rendering\<close>

definition escape_char :: "char \<Rightarrow> string" where
  "escape_char c =
     (if c = CHR 0x22 then [CHR 0x5C, CHR 0x22]
      else if c = CHR 0x5C then [CHR 0x5C, CHR 0x5C]
      else if c = CHR 0x08 then [CHR 0x5C, CHR ''b'']
      else if c = CHR 0x0C then [CHR 0x5C, CHR ''f'']
      else if c = CHR 0x0A then [CHR 0x5C, CHR ''n'']
      else if c = CHR 0x0D then [CHR 0x5C, CHR ''r'']
      else if c = CHR 0x09 then [CHR 0x5C, CHR ''t'']
      else if (of_char c :: nat) < 32
        then [CHR 0x5C, CHR ''u'', CHR ''0'', CHR ''0'', hex_digit (of_char c div 16), hex_digit (of_char c mod 16)]
      else [c])"

definition quote :: "string \<Rightarrow> string" where
  "quote s = CHR 0x22 # concat (map escape_char s) @ [CHR 0x22]"

fun digit_text :: "digit \<Rightarrow> char" where
  "digit_text D0 = CHR ''0''"
| "digit_text D1 = CHR ''1''"
| "digit_text D2 = CHR ''2''"
| "digit_text D3 = CHR ''3''"
| "digit_text D4 = CHR ''4''"
| "digit_text D5 = CHR ''5''"
| "digit_text D6 = CHR ''6''"
| "digit_text D7 = CHR ''7''"
| "digit_text D8 = CHR ''8''"
| "digit_text D9 = CHR ''9''"

definition dec_str :: "bool \<Rightarrow> nat \<Rightarrow> digit list \<Rightarrow> string" where
  "dec_str negative whole fraction = (if negative then ''-'' else []) @ nat_str whole @ ''.'' @ map digit_text fraction"

fun stringify :: "json \<Rightarrow> string" where
  "stringify JUndef = ''null''"
| "stringify JNull = ''null''"
| "stringify (JBool b) = (if b then ''true'' else ''false'')"
| "stringify (JNum i) = int_str i"
| "stringify (JDec negative whole fraction) = dec_str negative whole fraction"
| "stringify (JStr s) = quote s"
| "stringify (JArr vs) = ''['' @ join '','' (map stringify vs) @ '']''"
| "stringify (JObj kvs) =
     ''{'' @ join '',''
       (map (\<lambda>(k, v). quote k @ '':'' @ stringify v) (filter (\<lambda>(k, v). v \<noteq> JUndef) kvs)) @ ''}''"

text \<open>Values without \<^verbatim>\<open>undefined\<close> in them: what \<^verbatim>\<open>JSON.parse\<close> returns.\<close>

fun defined :: "json \<Rightarrow> bool" where
  "defined JUndef = False"
| "defined (JArr vs) = list_all defined vs"
| "defined (JObj kvs) = list_all (\<lambda>(k, v). defined v) kvs"
| "defined _ = True"

subsection \<open>Rendering is injective\<close>

text \<open>
  A rendered value followed by a delimiter (or by nothing) determines the value and the rest:
  the renderings form a prefix code up to delimiters.
\<close>

definition delimited :: "string \<Rightarrow> bool" where
  "delimited xs \<longleftrightarrow> xs = [] \<or> hd xs \<in> set '',]}''"

lemma hex_digit_inj: "a < 16 \<Longrightarrow> b < 16 \<Longrightarrow> hex_digit a = hex_digit b \<longleftrightarrow> a = b"
  by (auto simp: hex_digit_def char_of_eq_iff take_bit_eq_mod split: if_splits)

lemma escape_char_prefix:
  assumes "escape_char c @ xs = escape_char d @ ys"
  shows "c = d \<and> xs = ys"
proof (cases "(of_char c :: nat) < 32 \<or> (of_char d :: nat) < 32")
  case False
  then show ?thesis
    using assms by (auto simp: escape_char_def split: if_splits)
next
  case True
  have *: "n < 32 \<Longrightarrow> n div 16 < 16 \<and> n mod 16 < 16" for n :: nat
    by auto
  have eq: "n div 16 = m div 16 \<Longrightarrow> n mod 16 = m mod 16 \<Longrightarrow> n = m" for n m :: nat
    by (metis div_mult_mod_eq)
  show ?thesis
    using assms True
    by (auto simp: escape_char_def hex_digit_inj * split: if_splits dest!: eq)
qed

lemma escape_char_head: "escape_char c \<noteq> [] \<and> hd (escape_char c) \<noteq> CHR 0x22"
  by (simp add: escape_char_def)

lemma quote_body_prefix:
  "concat (map escape_char s) @ CHR 0x22 # xs = concat (map escape_char t) @ CHR 0x22 # ys
     \<Longrightarrow> s = t \<and> xs = ys"
proof (induction s arbitrary: t)
  case Nil
  then show ?case
  proof (cases t)
    case (Cons d t')
    then show ?thesis
      using Nil escape_char_head [of d] by (cases "escape_char d") auto
  qed auto
next
  case (Cons c s)
  show ?case
  proof (cases t)
    case Nil
    then show ?thesis
      using Cons.prems escape_char_head [of c] by (cases "escape_char c") auto
  next
    case (Cons d t')
    have "c = d \<and> concat (map escape_char s) @ CHR 0x22 # xs
        = concat (map escape_char t') @ CHR 0x22 # ys"
      using Cons.prems Cons by (intro escape_char_prefix) simp
    with Cons Cons.IH show ?thesis by blast
  qed
qed

lemma quote_prefix: "quote s @ xs = quote t @ ys \<Longrightarrow> s = t \<and> xs = ys"
  unfolding quote_def by (rule quote_body_prefix) simp

lemma quote_inj [simp]: "quote s = quote t \<longleftrightarrow> s = t"
  using quote_prefix [of s "[]" t "[]"] by auto

text \<open>Texts over a class of characters, cut off by the first character outside it.\<close>

lemma class_prefix:
  assumes "list_all P a" "list_all P b" "xs = [] \<or> \<not> P (hd xs)" "ys = [] \<or> \<not> P (hd ys)"
    and "a @ xs = b @ ys"
  shows "a = b \<and> xs = ys"
proof -
  have cut: "takeWhile P (u @ zs) = u" if "list_all P u" "zs = [] \<or> \<not> P (hd zs)" for u zs
    using that by (induction u) (auto simp: takeWhile_eq_Nil_iff)
  have "a = b"
    using assms cut by metis
  with assms show ?thesis by simp
qed

definition number_char :: "char \<Rightarrow> bool" where
  "number_char c \<longleftrightarrow> is_digit c \<or> c = CHR ''-'' \<or> c = CHR ''.''"

lemma digit_text_digit: "is_digit (digit_text d)"
  by (cases d; simp add: is_digit_def char_in_def)

lemma digit_text_inj [simp]: "digit_text d = digit_text e \<longleftrightarrow> d = e"
  by (cases d; cases e; simp)

lemma dec_str_chars: "list_all number_char (dec_str n w ds)"
  using nat_str_digits [of w] digit_text_digit
  by (auto simp: dec_str_def number_char_def list_all_iff)

lemma dec_str_nonempty [simp]: "dec_str n w ds \<noteq> []"
  by (simp add: dec_str_def)

lemma int_str_chars: "list_all number_char (int_str i)"
  using nat_str_digits [of "nat i"] nat_str_digits [of "nat (- i)"]
  by (auto simp: int_str_def number_char_def list_all_iff)

lemma delimited_not_number: "delimited xs \<Longrightarrow> xs = [] \<or> \<not> number_char (hd xs)"
  by (auto simp: delimited_def number_char_def is_digit_def char_in_def)

lemma int_str_nonempty [simp]: "int_str i \<noteq> []"
  by (simp add: int_str_def)

lemma digit_not_minus: "CHR ''-'' # s \<noteq> nat_str n"
  using nat_str_digits [of n] by (auto simp: is_digit_def char_in_def dest: sym)

lemma int_str_inj [simp]: "int_str i = int_str j \<longleftrightarrow> i = j"
  using digit_not_minus by (auto simp: int_str_def digit_not_minus [symmetric])

lemma point_not_digit: "\<not> is_digit CHR ''.''" "\<not> is_digit CHR ''-''"
  by (simp_all add: is_digit_def char_in_def)

lemma nat_str_split:
  assumes "nat_str m @ CHR ''.'' # s = nat_str n @ CHR ''.'' # t"
  shows "m = n \<and> s = t"
proof -
  have "nat_str m = nat_str n \<and> CHR ''.'' # s = CHR ''.'' # t"
    using class_prefix [OF nat_str_digits nat_str_digits _ _ assms] by (simp add: point_not_digit)
  then show ?thesis by simp
qed

lemma minus_not_digits: "nat_str m @ s \<noteq> CHR ''-'' # t" "CHR ''-'' # t \<noteq> nat_str m @ s"
  using nat_str_digits [of m] point_not_digit(2) nat_str_nonempty [of m] by (cases "nat_str m"; auto)+

lemma inj_map_digit_text [simp]: "map digit_text ds = map digit_text es \<longleftrightarrow> ds = es"
  by (rule inj_map_eq_map) (simp add: inj_def)

lemma dec_str_inj [simp]: "dec_str n w ds = dec_str m v es \<longleftrightarrow> n = m \<and> w = v \<and> ds = es"
  using nat_str_split [of w "map digit_text ds" v "map digit_text es"]
  by (auto simp: dec_str_def minus_not_digits)

lemma dec_str_not_int [simp]: "dec_str n w ds \<noteq> int_str i" "int_str i \<noteq> dec_str n w ds"
proof -
  have "CHR ''.'' \<in> set (dec_str n w ds)" by (simp add: dec_str_def)
  moreover have "CHR ''.'' \<notin> set (int_str i)"
    using nat_str_digits [of "nat i"] nat_str_digits [of "nat (- i)"] point_not_digit
    by (auto simp: int_str_def list_all_iff)
  ultimately show "dec_str n w ds \<noteq> int_str i" "int_str i \<noteq> dec_str n w ds" by metis+
qed

lemma int_str_prefix:
  "delimited xs \<Longrightarrow> delimited ys \<Longrightarrow> int_str i @ xs = int_str j @ ys \<Longrightarrow> i = j \<and> xs = ys"
  using class_prefix [OF int_str_chars int_str_chars delimited_not_number delimited_not_number]
  by (metis int_str_inj)

lemma number_head:
  assumes "list_all number_char s" "s \<noteq> []"
  shows "hd s \<notin> set '',]}tfn[{'' \<and> hd s \<noteq> CHR 0x22"
proof -
  have "number_char (hd s)" using assms by (simp add: list_all_iff)
  then show ?thesis by (auto simp: number_char_def is_digit_def char_in_def)
qed

lemma int_str_head: "hd (int_str i) \<notin> set '',]}tfn[{'' \<and> hd (int_str i) \<noteq> CHR 0x22"
  by (rule number_head [OF int_str_chars]) simp

lemma dec_str_head: "hd (dec_str n w ds) \<notin> set '',]}tfn[{'' \<and> hd (dec_str n w ds) \<noteq> CHR 0x22"
  by (rule number_head [OF dec_str_chars]) simp

lemma dec_str_prefix:
  "delimited xs \<Longrightarrow> delimited ys \<Longrightarrow> dec_str n w ds @ xs = dec_str m v es @ ys \<Longrightarrow> n = m \<and> w = v \<and> ds = es \<and> xs = ys"
  using class_prefix [OF dec_str_chars dec_str_chars delimited_not_number delimited_not_number] by (metis dec_str_inj)

lemma dec_int_prefix:
  "delimited xs \<Longrightarrow> delimited ys \<Longrightarrow> dec_str n w ds @ xs \<noteq> int_str i @ ys"
  using class_prefix [OF dec_str_chars int_str_chars delimited_not_number delimited_not_number] by (metis dec_str_not_int(1))

text \<open>A comma-separated sequence of items that closes with one character.\<close>

lemma seq_prefix:
  assumes item: "\<And>v w xs ys. v \<in> set vs \<Longrightarrow> w \<in> set ws \<Longrightarrow> delimited xs \<Longrightarrow> delimited ys \<Longrightarrow>
      r v @ xs = r w @ ys \<Longrightarrow> v = w \<and> xs = ys"
    and head: "\<And>v. v \<in> set vs \<union> set ws \<Longrightarrow> r v \<noteq> [] \<and> hd (r v) \<noteq> e"
    and e: "e \<in> {CHR '']'', CHR ''}''}"
    and eq: "join '','' (map r vs) @ e # xs = join '','' (map r ws) @ e # ys"
  shows "vs = ws \<and> xs = ys"
  using assms(1,2,4)
proof (induction vs arbitrary: ws)
  case Nil
  show ?case
  proof (cases ws)
    case (Cons w ws')
    then show ?thesis
      using Nil(2) [of w] Nil(3) by (cases "r w") (auto simp: join_Cons split: if_splits)
  qed (use Nil in simp)
next
  case (Cons v vs)
  show ?case
  proof (cases ws)
    case Nil
    then show ?thesis
      using Cons(3) [of v] Cons(4) by (cases "r v") (auto simp: join_Cons split: if_splits)
  next
    case W: (Cons w ws')
    define R where "R us zs = (if us = [] then e # zs else CHR '','' # join '','' (map r us) @ e # zs)"
      for us zs
    have "r v @ R vs xs = r w @ R ws' ys"
      using Cons(4) W by (cases vs; cases ws') (simp_all add: R_def)
    moreover have "delimited (R vs xs)" "delimited (R ws' ys)"
      using e by (auto simp: R_def delimited_def)
    ultimately have vw: "v = w" and R: "R vs xs = R ws' ys"
      using Cons(2) [of v w] W by auto
    have "join '','' (map r vs) @ e # xs = join '','' (map r ws') @ e # ys"
      using R e by (cases vs; cases ws') (auto simp: R_def)
    then have "vs = ws' \<and> xs = ys"
      using Cons(2,3) W by (intro Cons.IH [of ws']) (blast intro: list.set_intros)+
    with vw W show ?thesis by simp
  qed
qed

lemma stringify_head:
  "stringify v \<noteq> [] \<and> hd (stringify v) \<notin> set '',]}''"
proof (cases v)
  case (JNum i)
  then show ?thesis using int_str_head [of i] by auto
next
  case (JDec n w ds)
  then show ?thesis using dec_str_head [of n w ds] by auto
qed (auto simp: quote_def)

lemma defined_members: "defined (JObj kvs) \<Longrightarrow> filter (\<lambda>(k, v). v \<noteq> JUndef) kvs = kvs"
  by (auto simp: list_all_iff intro!: filter_True)

lemma stringify_prefix:
  assumes "defined v" "defined w" "delimited xs" "delimited ys"
    and "stringify v @ xs = stringify w @ ys"
  shows "v = w \<and> xs = ys"
  using assms
proof (induction v arbitrary: w xs ys)
  case JUndef
  then show ?case by simp
next
  case JNull
  show ?case
  proof (cases w)
    case (JNum i)
    then show ?thesis
      using JNull int_str_head [of i] by (cases "int_str i") auto
  next
    case (JDec n u ds)
    then show ?thesis
      using JNull dec_str_head [of n u ds] by (cases "dec_str n u ds") auto
  qed (use JNull in \<open>auto simp: quote_def split: if_splits\<close>)
next
  case (JBool b)
  show ?case
  proof (cases w)
    case (JNum i)
    then show ?thesis
      using JBool int_str_head [of i] by (cases "int_str i") (auto split: if_splits)
  next
    case (JDec n u ds)
    then show ?thesis
      using JBool dec_str_head [of n u ds] by (cases "dec_str n u ds") (auto split: if_splits)
  qed (use JBool in \<open>auto simp: quote_def split: if_splits\<close>)
next
  case (JNum i)
  show ?case
  proof (cases w)
    case W: (JNum j)
    then show ?thesis
      using JNum.prems int_str_prefix [of xs ys i j] by simp
  next
    case W: (JDec n u ds)
    then show ?thesis
      using JNum.prems dec_int_prefix [of ys xs n u ds i] by simp
  qed (use JNum int_str_head [of i] in \<open>cases "int_str i"; auto simp: quote_def split: if_splits\<close>)+
next
  case (JDec n u ds)
  show ?case
  proof (cases w)
    case W: (JNum j)
    then show ?thesis
      using JDec.prems dec_int_prefix [of xs ys n u ds j] by simp
  next
    case W: (JDec m v es)
    then show ?thesis
      using JDec.prems dec_str_prefix [of xs ys n u ds m v es] by simp
  qed (use JDec dec_str_head [of n u ds] in \<open>cases "dec_str n u ds"; auto simp: quote_def split: if_splits\<close>)+
next
  case (JStr s)
  show ?case
  proof (cases w)
    case (JNum i)
    then show ?thesis
      using JStr int_str_head [of i] by (cases "int_str i") (auto simp: quote_def)
  next
    case (JDec n u ds)
    then show ?thesis
      using JStr dec_str_head [of n u ds] by (cases "dec_str n u ds") (auto simp: quote_def)
  next
    case W: (JStr t)
    then show ?thesis
      using JStr.prems quote_prefix [of s xs t ys] by simp
  qed (use JStr in \<open>auto simp: quote_def split: if_splits\<close>)
next
  case (JArr vs)
  show ?case
  proof (cases w)
    case (JNum i)
    then show ?thesis
      using JArr int_str_head [of i] by (cases "int_str i") auto
  next
    case (JDec n u ds)
    then show ?thesis
      using JArr dec_str_head [of n u ds] by (cases "dec_str n u ds") auto
  next
    case W: (JArr ws)
    have "vs = ws \<and> xs = ys"
    proof (rule seq_prefix [where r = stringify and e = "CHR '']''"])
      show "join '','' (map stringify vs) @ CHR '']'' # xs = join '','' (map stringify ws) @ CHR '']'' # ys"
        using JArr.prems W by simp
      show "v = w \<and> xs = ys" if "v \<in> set vs" "w \<in> set ws" "delimited xs" "delimited ys"
        "stringify v @ xs = stringify w @ ys" for v w xs ys
        using that JArr.IH [of v w xs ys] JArr.prems W by (auto simp: list_all_iff)
    qed (use stringify_head in auto)
    with W show ?thesis by simp
  qed (use JArr in \<open>auto simp: quote_def split: if_splits\<close>)
next
  case (JObj kvs)
  show ?case
  proof (cases w)
    case (JNum i)
    then show ?thesis
      using JObj int_str_head [of i] by (cases "int_str i") auto
  next
    case (JDec n u ds)
    then show ?thesis
      using JObj dec_str_head [of n u ds] by (cases "dec_str n u ds") auto
  next
    case W: (JObj lvs)
    let ?r = "\<lambda>(k, v). quote k @ '':'' @ stringify v"
    have "kvs = lvs \<and> xs = ys"
    proof (rule seq_prefix [where r = ?r and e = "CHR ''}''"])
      show "join '','' (map ?r kvs) @ CHR ''}'' # xs = join '','' (map ?r lvs) @ CHR ''}'' # ys"
        using JObj.prems W defined_members [of kvs] defined_members [of lvs] by simp
      show "p = q \<and> xs = ys" if "p \<in> set kvs" "q \<in> set lvs" "delimited xs" "delimited ys"
        "?r p @ xs = ?r q @ ys" for p q xs ys
      proof -
        obtain k v l u where pq: "p = (k, v)" "q = (l, u)" by (cases p; cases q)
        have def: "defined v" "defined u"
          using JObj.prems that pq W by (auto simp: list_all_iff)
        have "k = l \<and> '':'' @ stringify v @ xs = '':'' @ stringify u @ ys"
          using that pq by (intro quote_prefix) simp
        moreover from this have "v = u \<and> xs = ys"
          using JObj.IH [of p v u xs ys] that pq def by auto
        ultimately show ?thesis using pq by simp
      qed
    qed (auto simp: quote_def)
    with W show ?thesis by simp
  qed (use JObj in \<open>auto simp: quote_def split: if_splits\<close>)
qed

lemma stringify_inj: "defined v \<Longrightarrow> defined w \<Longrightarrow> stringify v = stringify w \<longleftrightarrow> v = w"
  using stringify_prefix [of v w "[]" "[]"] by (auto simp: delimited_def)

end
