(* ===== verification/Canonical.thy ===== *)
theory Canonical
  imports JsValue
begin

text \<open>
  \<^verbatim>\<open>crawler/ingestion/canonical.ts\<close>: the hash of a string, the locale-independent order of
  keys, canonical JSON, the normal forms of prose and code, source ranges and heading slugs.
\<close>

section \<open>Hashes and order\<close>

definition sha256 :: "string \<Rightarrow> string" where
  "sha256 s = hex_of_bytes (sha256_bytes (utf8 s))"

interpretation sha: digest sha256 64
  by unfold_locales (simp_all add: sha256_def set_hex_of_bytes)

definition compare_text :: "string \<Rightarrow> string \<Rightarrow> int" where
  "compare_text l r = (if l < r then -1 else if r < l then 1 else 0)"

lemma compare_text_by [cmp_simps]: "compare_text (f x) (f y) = cmp_by f x y"
  by (simp add: compare_text_def cmp_by_def)

section \<open>Canonical JSON\<close>

function canonical_value :: "json \<Rightarrow> json" where
  "canonical_value (JArr vs) = JArr (map canonical_value vs)"
| "canonical_value (JObj kvs) =
     JObj (from_entries
       (map (\<lambda>kv. (fst kv, canonical_value (snd kv)))
         (js_sort (\<lambda>l r. compare_text (fst l) (fst r)) (filter (\<lambda>kv. snd kv \<noteq> JUndef) kvs))))"
| "canonical_value JUndef = JUndef"
| "canonical_value JNull = JNull"
| "canonical_value (JBool b) = JBool b"
| "canonical_value (JNum i) = JNum i"
| "canonical_value (JDec n w ds) = JDec n w ds"
| "canonical_value (JStr s) = JStr s"
  by pat_completeness auto
termination
proof (relation "measure size", goal_cases)
  case 1
  then show ?case by simp
next
  case (2 vs v)
  then show ?case by (simp add: size_list_estimation' less_Suc_eq_le)
next
  case (3 kvs kv)
  then have kv: "kv \<in> set kvs" by simp
  have "size (snd kv) \<le> size_prod (\<lambda>_. 0) size kv"
    by (cases kv) simp
  then have "size (snd kv) \<le> size_list (size_prod (\<lambda>_. 0) size) kvs"
    using kv by (simp add: size_list_estimation')
  then show ?case by simp
qed

definition canonical_json :: "json \<Rightarrow> string" where
  "canonical_json v = stringify (canonical_value v)"

subsection \<open>The values that canonical JSON identifies\<close>

text \<open>
  Two values are the same data when they differ only in the order of the members of their
  objects and in members that are \<^verbatim>\<open>undefined\<close>.
\<close>

inductive json_eqv :: "json \<Rightarrow> json \<Rightarrow> bool" where
  eqv_undef: "json_eqv JUndef JUndef"
| eqv_null: "json_eqv JNull JNull"
| eqv_bool: "json_eqv (JBool b) (JBool b)"
| eqv_num: "json_eqv (JNum i) (JNum i)"
| eqv_dec: "json_eqv (JDec n w ds) (JDec n w ds)"
| eqv_str: "json_eqv (JStr s) (JStr s)"
| eqv_arr: "length vs = length ws \<Longrightarrow> (\<And>n. n < length vs \<Longrightarrow> json_eqv (vs ! n) (ws ! n))
    \<Longrightarrow> json_eqv (JArr vs) (JArr ws)"
| eqv_obj: "{k. \<exists>v. (k, v) \<in> set kvs \<and> v \<noteq> JUndef} = {k. \<exists>w. (k, w) \<in> set lvs \<and> w \<noteq> JUndef}
    \<Longrightarrow> (\<And>k v w. (k, v) \<in> set kvs \<Longrightarrow> (k, w) \<in> set lvs \<Longrightarrow> v \<noteq> JUndef \<Longrightarrow> w \<noteq> JUndef
          \<Longrightarrow> json_eqv v w)
    \<Longrightarrow> json_eqv (JObj kvs) (JObj lvs)"

inductive_cases eqv_arrE: "json_eqv (JArr vs) w"
inductive_cases eqv_objE: "json_eqv (JObj kvs) w"

text \<open>
  The values the code hashes: the keys of an object are distinct, and \<^verbatim>\<open>undefined\<close> occurs only
  as the value of a member.
\<close>

fun plain_data :: "json \<Rightarrow> bool" where
  "plain_data JUndef = False"
| "plain_data (JArr vs) = list_all plain_data vs"
| "plain_data (JObj kvs) =
     (distinct (map fst kvs) \<and> list_all (\<lambda>kv. snd kv = JUndef \<or> plain_data (snd kv)) kvs)"
| "plain_data _ = True"

lemma insert_by_map:
  "(\<And>x y. c (f x) (f y) = d x y) \<Longrightarrow> insert_by c (f x) (map f xs) = map f (insert_by d x xs)"
  by (induction xs) auto

lemma js_sort_map:
  "(\<And>x y. c (f x) (f y) = d x y) \<Longrightarrow> js_sort c (map f xs) = map f (js_sort d xs)"
  by (induction xs) (auto simp: insert_by_map)

definition members :: "(string \<times> json) list \<Rightarrow> (string \<times> json) list" where
  "members kvs =
     map (\<lambda>kv. (fst kv, canonical_value (snd kv))) (filter (\<lambda>kv. snd kv \<noteq> JUndef) kvs)"

abbreviation by_key :: "(string \<times> 'v) \<Rightarrow> (string \<times> 'v) \<Rightarrow> int" where
  "by_key \<equiv> \<lambda>l r. compare_text (fst l) (fst r)"

lemma by_key_cmp: "by_key = cmp_by fst"
  by (intro ext) (simp add: cmp_simps)

interpretation by_key: keyed_comparator "by_key :: (string \<times> 'v) \<Rightarrow> (string \<times> 'v) \<Rightarrow> int" fst
  unfolding by_key_cmp by (rule keyed_comparator_cmp_by)

lemma canonical_value_obj: "canonical_value (JObj kvs) = JObj (from_entries (js_sort by_key (members kvs)))"
  by (simp add: members_def js_sort_map [where d = by_key])

lemma map_fst_members: "map fst (members kvs) = map fst (filter (\<lambda>kv. snd kv \<noteq> JUndef) kvs)"
  by (simp add: members_def)

lemma distinct_members: "distinct (map fst kvs) \<Longrightarrow> distinct (map fst (members kvs))"
  by (simp add: map_fst_members distinct_map_filter)

lemma set_members: "set (members kvs) = {(k, canonical_value v) | k v. (k, v) \<in> set kvs \<and> v \<noteq> JUndef}"
  by (force simp: members_def)

text \<open>The canonical order depends on the set of members alone.\<close>

lemma canonical_order_determined:
  assumes "distinct (map fst xs)" "distinct (map fst ys)"
  shows "from_entries (js_sort by_key xs) = from_entries (js_sort by_key ys) \<longleftrightarrow> set xs = set ys"
proof
  assume "from_entries (js_sort by_key xs) = from_entries (js_sort by_key ys)"
  then have "set (from_entries (js_sort by_key xs)) = set (from_entries (js_sort by_key ys))"
    by simp
  then show "set xs = set ys"
    using assms by (simp add: set_from_entries)
next
  assume "set xs = set ys"
  then have "mset xs = mset ys"
    using assms by (metis distinct_map set_eq_iff_mset_eq_distinct)
  then have "js_sort by_key xs = js_sort by_key ys"
    using assms by (intro by_key.sort_determined) (auto simp: distinct_map)
  then show "from_entries (js_sort by_key xs) = from_entries (js_sort by_key ys)"
    by simp
qed

lemma members_eq_iff:
  assumes "distinct (map fst kvs)" "distinct (map fst lvs)"
  shows "set (members kvs) = set (members lvs) \<longleftrightarrow>
    {k. \<exists>v. (k, v) \<in> set kvs \<and> v \<noteq> JUndef} = {k. \<exists>w. (k, w) \<in> set lvs \<and> w \<noteq> JUndef} \<and>
    (\<forall>k v w. (k, v) \<in> set kvs \<longrightarrow> (k, w) \<in> set lvs \<longrightarrow> v \<noteq> JUndef \<longrightarrow> w \<noteq> JUndef \<longrightarrow>
       canonical_value v = canonical_value w)"
    (is "?L \<longleftrightarrow> ?D \<and> ?V")
proof
  assume L: ?L
  have d: "{k. \<exists>u. (k, u) \<in> set (members zs)} = {k. \<exists>v. (k, v) \<in> set zs \<and> v \<noteq> JUndef}" for zs
    by (auto simp: set_members)
  have ?D using L d [of kvs] d [of lvs] by simp
  moreover have ?V
  proof (intro allI impI)
    fix k v w assume kvw: "(k, v) \<in> set kvs" "(k, w) \<in> set lvs" "v \<noteq> JUndef" "w \<noteq> JUndef"
    have "(k, canonical_value v) \<in> set (members kvs)" "(k, canonical_value w) \<in> set (members lvs)"
      using kvw by (auto simp: set_members)
    with L show "canonical_value v = canonical_value w"
      using distinct_members [OF assms(2)] by (metis eq_key_imp_eq_value)
  qed
  ultimately show "?D \<and> ?V" by blast
next
  assume DV: "?D \<and> ?V"
  have "set (members xs) \<subseteq> set (members ys)"
    if D: "{k. \<exists>v. (k, v) \<in> set xs \<and> v \<noteq> JUndef} \<subseteq> {k. \<exists>w. (k, w) \<in> set ys \<and> w \<noteq> JUndef}"
    and V: "\<And>k v w. (k, v) \<in> set xs \<Longrightarrow> (k, w) \<in> set ys \<Longrightarrow> v \<noteq> JUndef \<Longrightarrow> w \<noteq> JUndef \<Longrightarrow>
       canonical_value v = canonical_value w" for xs ys
  proof
    fix p assume "p \<in> set (members xs)"
    then obtain k v where kv: "p = (k, canonical_value v)" "(k, v) \<in> set xs" "v \<noteq> JUndef"
      by (auto simp: set_members)
    then obtain w where w: "(k, w) \<in> set ys" "w \<noteq> JUndef"
      using D by blast
    with kv V [of k v w] show "p \<in> set (members ys)"
      by (auto simp: set_members)
  qed
  from this [of kvs lvs] this [of lvs kvs] show ?L
    using DV by (intro subset_antisym) (blast, auto)
qed

lemma canonical_value_eq_atom [simp]:
  "canonical_value v = JUndef \<longleftrightarrow> v = JUndef"
  "JNull = canonical_value v \<longleftrightarrow> v = JNull"
  "JBool b = canonical_value v \<longleftrightarrow> v = JBool b"
  "JNum i = canonical_value v \<longleftrightarrow> v = JNum i"
  "JDec n w ds = canonical_value v \<longleftrightarrow> v = JDec n w ds"
  "JStr s = canonical_value v \<longleftrightarrow> v = JStr s"
  by (cases v; auto)+

lemma plain_data_member:
  "plain_data (JObj kvs) \<Longrightarrow> (k, v) \<in> set kvs \<Longrightarrow> v \<noteq> JUndef \<Longrightarrow> plain_data v"
  by (auto simp: list_all_iff)

lemma canonical_defined: "plain_data v \<Longrightarrow> defined (canonical_value v)"
proof (induction v rule: canonical_value.induct)
  case (2 kvs)
  have "defined (snd p)" if "p \<in> set (members kvs)" for p
  proof -
    obtain k v where kv: "p = (k, canonical_value v)" "(k, v) \<in> set kvs" "v \<noteq> JUndef"
      using \<open>p \<in> set (members kvs)\<close> by (auto simp: set_members)
    then show ?thesis
      using "2.IH" [of "(k, v)"] plain_data_member [OF "2.prems" kv(2,3)] by simp
  qed
  moreover have "set (from_entries (js_sort by_key (members kvs))) = set (members kvs)"
    using "2.prems" by (simp add: distinct_members set_from_entries)
  ultimately show ?case
    unfolding canonical_value_obj by (simp add: list_all_iff case_prod_beta)
qed (auto simp: list_all_iff)

lemma canonical_eq_imp_eqv:
  assumes "plain_data v" "plain_data w" "canonical_value v = canonical_value w"
  shows "json_eqv v w"
  using assms
proof (induction v arbitrary: w rule: canonical_value.induct)
  case (1 vs)
  obtain ws where w: "w = JArr ws" and eq: "map canonical_value vs = map canonical_value ws"
    using "1.prems"(3) by (cases w) auto
  have len: "length vs = length ws"
    using eq by (metis length_map)
  have "json_eqv (vs ! n) (ws ! n)" if n: "n < length vs" for n
  proof -
    have "canonical_value (vs ! n) = canonical_value (ws ! n)"
      using eq n len by (metis nth_map)
    moreover have "plain_data (vs ! n)" "plain_data (ws ! n)"
      using n len "1.prems" w by (auto simp: list_all_length)
    ultimately show ?thesis
      using "1.IH" [of "vs ! n" "ws ! n"] n by simp
  qed
  with len w show ?case by (auto intro: eqv_arr)
next
  case (2 kvs)
  obtain lvs where w: "w = JObj lvs"
    using "2.prems"(3) by (cases w) auto
  have d: "distinct (map fst kvs)" "distinct (map fst lvs)"
    using "2.prems" w by auto
  have "set (members kvs) = set (members lvs)"
    using "2.prems"(3) d unfolding w canonical_value_obj
    by (simp add: canonical_order_determined distinct_members)
  then have M: "{k. \<exists>v. (k, v) \<in> set kvs \<and> v \<noteq> JUndef} = {k. \<exists>w. (k, w) \<in> set lvs \<and> w \<noteq> JUndef}"
    "\<And>k v w. (k, v) \<in> set kvs \<Longrightarrow> (k, w) \<in> set lvs \<Longrightarrow> v \<noteq> JUndef \<Longrightarrow> w \<noteq> JUndef \<Longrightarrow>
       canonical_value v = canonical_value w"
    unfolding members_eq_iff [OF d] by blast+
  show ?case unfolding w
  proof (rule eqv_obj [OF M(1)])
    fix k v u assume kvu: "(k, v) \<in> set kvs" "(k, u) \<in> set lvs" "v \<noteq> JUndef" "u \<noteq> JUndef"
    then show "json_eqv v u"
      using "2.IH" [of "(k, v)" u] M(2) plain_data_member "2.prems" w by simp
  qed
qed (simp_all add: eqv_null eqv_bool eqv_num eqv_dec eqv_str)

lemma eqv_imp_canonical_eq:
  assumes "json_eqv v w" "plain_data v" "plain_data w"
  shows "canonical_value v = canonical_value w"
  using assms
proof (induction rule: json_eqv.induct)
  case (eqv_arr vs ws)
  then show ?case by (auto simp: list_all_length intro: nth_equalityI)
next
  case (eqv_obj kvs lvs)
  then have d: "distinct (map fst kvs)" "distinct (map fst lvs)"
    by auto
  have "set (members kvs) = set (members lvs)"
    unfolding members_eq_iff [OF d]
    using eqv_obj.hyps(1) eqv_obj.IH plain_data_member eqv_obj.prems by blast
  then show ?case
    unfolding canonical_value_obj using d by (simp add: canonical_order_determined distinct_members)
qed auto

text \<open>
  Property C3. Canonical JSON is a sound and complete rendering of the data: two values have
  the same canonical text, and so the same content hash input, exactly when they are the same
  data up to the order of members and up to undefined members.
\<close>

theorem canonical_json_iff:
  assumes "plain_data v" "plain_data w"
  shows "canonical_json v = canonical_json w \<longleftrightarrow> json_eqv v w"
  unfolding canonical_json_def
  using assms stringify_inj [OF canonical_defined canonical_defined]
    canonical_eq_imp_eqv eqv_imp_canonical_eq by blast


lemma canonical_json_iff_witness:
  "canonical_json (JObj [(''b'', JNum 1), (''c'', JUndef), (''a'', JNull)]) =
     canonical_json (JObj [(''a'', JNull), (''b'', JNum 1)])"
proof -
  have "json_eqv (JObj [(''b'', JNum 1), (''c'', JUndef), (''a'', JNull)])
      (JObj [(''a'', JNull), (''b'', JNum 1)])"
    by (rule eqv_obj) (auto intro: json_eqv.intros)
  then show ?thesis
    by (subst canonical_json_iff) simp_all
qed

section \<open>Normal forms of text\<close>

definition normalize_prose :: "string \<Rightarrow> string" where
  "normalize_prose s = trim (replace_runs is_ws '' '' (filter (\<lambda>c. c \<noteq> nul) s))"

text \<open>\<^verbatim>\<open>/\r\n?/g\<close> replaced by a line feed.\<close>

fun fold_crlf :: "string \<Rightarrow> string" where
  "fold_crlf [] = []"
| "fold_crlf [c] = (if c = CHR 0x0D then [newline] else [c])"
| "fold_crlf (c # d # cs) =
     (if c = CHR 0x0D then newline # (if d = newline then fold_crlf cs else fold_crlf (d # cs))
      else c # fold_crlf (d # cs))"

definition is_blank :: "char \<Rightarrow> bool" where
  "is_blank c \<longleftrightarrow> c = CHR 0x20 \<or> c = CHR 0x09"

definition strip_right :: "(char \<Rightarrow> bool) \<Rightarrow> string \<Rightarrow> string" where
  "strip_right P s = rev (dropWhile P (rev s))"

text \<open>\<^verbatim>\<open>/[ \t]+$/gm\<close> removed: the blanks that end a line.\<close>

definition strip_line_ends :: "string \<Rightarrow> string" where
  "strip_line_ends s = join [newline] (map (strip_right is_blank) (split_on newline s))"

text \<open>\<^verbatim>\<open>/^\n+|\n+$/g\<close> removed.\<close>

definition strip_outer :: "(char \<Rightarrow> bool) \<Rightarrow> string \<Rightarrow> string" where
  "strip_outer P s = strip_right P (dropWhile P s)"

definition normalize_code :: "string \<Rightarrow> string" where
  "normalize_code s =
     strip_outer (\<lambda>c. c = newline) (strip_line_ends (fold_crlf (filter (\<lambda>c. c \<noteq> nul) s)))"

subsection \<open>Normalised prose\<close>

text \<open>Text whose white space is single spaces, and is neither first nor last.\<close>

fun single_spaced :: "string \<Rightarrow> bool" where
  "single_spaced [] = True"
| "single_spaced [c] = (is_ws c \<longrightarrow> c = CHR '' '')"
| "single_spaced (c # d # cs) =
     ((is_ws c \<longrightarrow> c = CHR '' '' \<and> \<not> is_ws d) \<and> single_spaced (d # cs))"

lemma is_ws_space [simp]: "is_ws (CHR '' '')"
  by (simp add: is_ws_def ws_chars_def)

lemma hd_replace_runs: "xs \<noteq> [] \<Longrightarrow> r \<noteq> [] \<Longrightarrow>
  \<not> P (hd xs) \<Longrightarrow> hd (replace_runs P r xs) = hd xs \<and> replace_runs P r xs \<noteq> []"
  by (induction P r xs rule: replace_runs.induct) auto

lemma single_spaced_Cons:
  "single_spaced (c # cs) \<longleftrightarrow>
     (is_ws c \<longrightarrow> c = CHR '' '' \<and> (cs = [] \<or> \<not> is_ws (hd cs))) \<and> single_spaced cs"
  by (cases cs) auto

lemma single_spaced_replace_runs: "single_spaced (replace_runs is_ws '' '' s)"
proof (induction is_ws "'' ''" s rule: replace_runs.induct)
  case (3 c d cs)
  then show ?case
    using hd_replace_runs [of "d # cs" "'' ''" is_ws] by (auto simp: single_spaced_Cons)
qed (auto simp: single_spaced_Cons)

lemma replace_runs_single_spaced: "single_spaced s \<Longrightarrow> replace_runs is_ws '' '' s = s"
proof (induction is_ws "'' ''" s rule: replace_runs.induct)
  case (3 c d cs)
  then show ?case by (auto simp: single_spaced_Cons)
qed auto

lemma single_spaced_append: "single_spaced (s @ t) \<Longrightarrow> single_spaced s \<and> single_spaced t"
proof (induction s)
  case (Cons c s)
  then show ?case by (cases s) (auto simp: single_spaced_Cons)
qed simp

lemma trim_sublist: "\<exists>p q. s = p @ trim s @ q"
proof -
  obtain q where "trim_start s = trim s @ q"
    using trim_end_append [of "trim_start s"] by (auto simp: trim_def)
  then have "s = takeWhile is_ws s @ trim s @ q"
    using takeWhile_dropWhile_id [of is_ws s] by (simp add: trim_start_def)
  then show ?thesis by blast
qed

lemma set_trim: "set (trim s) \<subseteq> set s"
  using trim_sublist [of s] by (metis UnI1 UnI2 set_append subsetI)

lemma normalize_prose_single_spaced: "single_spaced (normalize_prose s)"
  unfolding normalize_prose_def
  by (metis single_spaced_append single_spaced_replace_runs trim_sublist)

lemma normalize_prose_no_nul: "nul \<notin> set (normalize_prose s)"
proof -
  have "set (normalize_prose s) \<subseteq> set (replace_runs is_ws '' '' (filter (\<lambda>c. c \<noteq> nul) s))"
    unfolding normalize_prose_def by (rule set_trim)
  also have "\<dots> \<subseteq> {c \<in> set s. c \<noteq> nul} \<union> {CHR '' ''}"
    using set_replace_runs [of is_ws "'' ''" "filter (\<lambda>c. c \<noteq> nul) s"] by auto
  finally show ?thesis by auto
qed

text \<open>
  Normalising prose yields text with single inner spaces, no outer white space and
  no NUL, keeps every other character in its order, and changes nothing the second time: the
  hash of the normalised text does not depend on how often it was normalised.
\<close>

theorem normalize_prose_canonical:
  "single_spaced (normalize_prose s) \<and> trim (normalize_prose s) = normalize_prose s
     \<and> nul \<notin> set (normalize_prose s)
     \<and> filter (\<lambda>c. \<not> is_ws c) (normalize_prose s) = filter (\<lambda>c. \<not> is_ws c \<and> c \<noteq> nul) s
     \<and> normalize_prose (normalize_prose s) = normalize_prose s"
proof (intro conjI)
  show single: "single_spaced (normalize_prose s)" and no_nul: "nul \<notin> set (normalize_prose s)"
    by (rule normalize_prose_single_spaced normalize_prose_no_nul)+
  show outer: "trim (normalize_prose s) = normalize_prose s"
    by (simp add: normalize_prose_def)
  show "filter (\<lambda>c. \<not> is_ws c) (normalize_prose s) = filter (\<lambda>c. \<not> is_ws c \<and> c \<noteq> nul) s"
    by (simp add: normalize_prose_def replace_runs_keeps conj_commute)
  have fil: "filter (\<lambda>c. c \<noteq> nul) (normalize_prose s) = normalize_prose s"
    using no_nul by (rule filter_absent)
  show "normalize_prose (normalize_prose s) = normalize_prose s"
    by (rule trans [OF normalize_prose_def]) (simp only: fil replace_runs_single_spaced [OF single] outer)
qed

subsection \<open>Normalised code\<close>

lemma set_strip_right: "set (strip_right P s) \<subseteq> set s"
  unfolding strip_right_def by (metis set_dropWhileD set_rev subsetI)

lemma strip_right_last: "strip_right P s = [] \<or> \<not> P (last (strip_right P s))"
  by (cases "dropWhile P (rev s) = []") (simp_all add: strip_right_def last_rev hd_dropWhile)

lemma strip_right_fixpoint: "s = [] \<or> \<not> P (last s) \<Longrightarrow> strip_right P s = s"
  by (cases s rule: rev_cases) (simp_all add: strip_right_def)

lemma strip_right_idem [simp]: "strip_right P (strip_right P s) = strip_right P s"
  by (rule strip_right_fixpoint) (rule strip_right_last)

lemma strip_right_split: "\<exists>w. s = strip_right P s @ w \<and> list_all P w"
proof -
  have "s = strip_right P s @ rev (takeWhile P (rev s))"
    by (simp add: strip_right_def takeWhile_rev_split)
  then show ?thesis
    by (metis (no_types, lifting) list_all_iff set_rev set_takeWhileD)
qed

lemma strip_right_hd: "strip_right P s \<noteq> [] \<Longrightarrow> hd (strip_right P s) = hd s"
  using strip_right_split [of s P] by (metis hd_append)

lemma strip_outer_fixpoint:
  "s = [] \<or> \<not> P (hd s) \<and> \<not> P (last s) \<Longrightarrow> strip_outer P s = s"
  by (cases s) (auto simp: strip_outer_def intro!: strip_right_fixpoint)

lemma strip_outer_ends:
  "strip_outer P s = [] \<or> \<not> P (hd (strip_outer P s)) \<and> \<not> P (last (strip_outer P s))"
proof (cases "strip_outer P s = []")
  case False
  then have "dropWhile P s \<noteq> []"
    by (metis dropWhile.simps(1) rev.simps(1) strip_outer_def strip_right_def)
  then show ?thesis
    using False strip_right_hd [of P "dropWhile P s"] strip_right_last [of P "dropWhile P s"]
    by (simp add: strip_outer_def hd_dropWhile)
qed simp

lemma strip_outer_idem [simp]: "strip_outer P (strip_outer P s) = strip_outer P s"
  by (rule strip_outer_fixpoint) (rule strip_outer_ends)

lemma strip_outer_sublist: "\<exists>p q. s = p @ strip_outer P s @ q \<and> list_all P p \<and> list_all P q"
proof -
  obtain q where q: "dropWhile P s = strip_outer P s @ q" "list_all P q"
    using strip_right_split [of "dropWhile P s" P] by (auto simp: strip_outer_def)
  then have "s = takeWhile P s @ strip_outer P s @ q"
    using takeWhile_dropWhile_id [of P s] by simp
  moreover have "list_all P (takeWhile P s)"
    by (auto simp: list_all_iff dest: set_takeWhileD)
  ultimately show ?thesis using q by blast
qed

lemma fold_crlf_no_cr: "CHR 0x0D \<notin> set (fold_crlf s)"
  by (induction s rule: fold_crlf.induct) (auto simp: newline_def)

lemma fold_crlf_id: "CHR 0x0D \<notin> set s \<Longrightarrow> fold_crlf s = s"
  by (induction s rule: fold_crlf.induct) auto

lemma set_fold_crlf: "set (fold_crlf s) \<subseteq> insert newline (set s)"
  by (induction s rule: fold_crlf.induct) auto

text \<open>Text without blanks at the end of its lines.\<close>

definition clean_lines :: "string \<Rightarrow> bool" where
  "clean_lines s \<longleftrightarrow> (\<forall>l \<in> set (split_on newline s). strip_right is_blank l = l)"

lemma split_strip_line_ends:
  "split_on newline (strip_line_ends s) = map (strip_right is_blank) (split_on newline s)"
  unfolding strip_line_ends_def
proof (rule split_on_join)
  fix x assume "x \<in> set (map (strip_right is_blank) (split_on newline s))"
  then show "newline \<notin> set x"
    using split_on_no_sep set_strip_right by fastforce
qed simp

lemma clean_strip_line_ends: "clean_lines (strip_line_ends s)"
  by (auto simp: clean_lines_def split_strip_line_ends)

lemma strip_clean: "clean_lines s \<Longrightarrow> strip_line_ends s = s"
  by (simp add: clean_lines_def strip_line_ends_def map_idI join_split_on)

lemma split_on_append_sep: "split_on d (s @ d # t) = split_on d s @ split_on d t"
proof (induction s)
  case (Cons c s)
  then show ?case by (cases "split_on d s") auto
qed simp

lemma clean_lines_append_sep:
  "clean_lines (s @ newline # t) \<longleftrightarrow> clean_lines s \<and> clean_lines t"
  by (auto simp: clean_lines_def split_on_append_sep)

lemma clean_strip_outer:
  assumes "clean_lines s"
  shows "clean_lines (strip_outer (\<lambda>c. c = newline) s)"
proof -
  have pre: "list_all (\<lambda>c. c = newline) p \<Longrightarrow> clean_lines (p @ t) \<Longrightarrow> clean_lines t" for p t
    by (induction p) (auto simp: clean_lines_def)
  have post: "list_all (\<lambda>c. c = newline) q \<Longrightarrow> clean_lines (t @ q) \<Longrightarrow> clean_lines t" for q t
    by (cases q) (auto simp: clean_lines_append_sep)
  obtain p q where "s = p @ strip_outer (\<lambda>c. c = newline) s @ q"
    "list_all (\<lambda>c. c = newline) p" "list_all (\<lambda>c. c = newline) q"
    using strip_outer_sublist by blast
  then show ?thesis
    using assms pre post by metis
qed

lemma set_join: "set (join sep xs) \<subseteq> set sep \<union> (\<Union>x\<in>set xs. set x)"
  by (induction sep xs rule: join.induct) auto

lemma set_split_on: "p \<in> set (split_on d s) \<Longrightarrow> set p \<subseteq> set s"
proof (induction s arbitrary: p)
  case (Cons c cs)
  obtain q qs where "split_on d cs = q # qs"
    by (cases "split_on d cs") auto
  with Cons show ?case by (fastforce split: if_splits)
qed simp

lemma set_strip_line_ends: "set (strip_line_ends s) \<subseteq> insert newline (set s)"
proof
  fix c assume "c \<in> set (strip_line_ends s)"
  then consider "c = newline"
    | l where "l \<in> set (split_on newline s)" "c \<in> set (strip_right is_blank l)"
    using set_join [of "[newline]"] unfolding strip_line_ends_def by fastforce
  then show "c \<in> insert newline (set s)"
    using set_strip_right set_split_on by cases blast+
qed

lemma set_strip_outer: "set (strip_outer P s) \<subseteq> set s"
  using strip_outer_sublist [of s P] by (metis UnI1 UnI2 set_append subsetI)

lemma newline_not_cr [simp]: "newline \<noteq> CHR 0x0D" "newline \<noteq> nul"
  by (simp_all add: newline_def)

lemma normalized_code_no_cr: "CHR 0x0D \<notin> set (normalize_code s)"
proof -
  have "CHR 0x0D \<notin> insert newline (set (fold_crlf (filter (\<lambda>c. c \<noteq> nul) s)))"
    using fold_crlf_no_cr newline_not_cr(1) by (metis insertE)
  then show ?thesis
    unfolding normalize_code_def using set_strip_outer set_strip_line_ends by blast
qed

text \<open>
  Normalised code has no NUL, no carriage return, no blanks at the end of a line,
  neither starts nor ends with an empty line, and is a fixed point of the normalisation.
\<close>

theorem normalize_code_canonical:
  "nul \<notin> set (normalize_code s) \<and> CHR 0x0D \<notin> set (normalize_code s)
     \<and> clean_lines (normalize_code s)
     \<and> strip_outer (\<lambda>c. c = newline) (normalize_code s) = normalize_code s
     \<and> normalize_code (normalize_code s) = normalize_code s"
proof -
  define f where "f = fold_crlf (filter (\<lambda>c. c \<noteq> nul) s)"
  have sub: "set (normalize_code s) \<subseteq> insert newline (set f)"
    unfolding normalize_code_def f_def [symmetric]
    using set_strip_outer set_strip_line_ends by (metis subset_trans)
  have "nul \<notin> set f"
    using set_fold_crlf [of "filter (\<lambda>c. c \<noteq> nul) s"] newline_not_cr by (fastforce simp: f_def)
  then have nul: "nul \<notin> set (normalize_code s)"
    using sub newline_not_cr(2) by (metis insertE subsetD)
  have cr: "CHR 0x0D \<notin> set (normalize_code s)"
    using sub newline_not_cr(1) fold_crlf_no_cr by (metis f_def insertE subsetD)
  have clean: "clean_lines (normalize_code s)"
    unfolding normalize_code_def by (intro clean_strip_outer clean_strip_line_ends)
  have outer: "strip_outer (\<lambda>c. c = newline) (normalize_code s) = normalize_code s"
    by (simp add: normalize_code_def)
  have fil: "filter (\<lambda>c. c \<noteq> nul) (normalize_code s) = normalize_code s"
    using nul by (rule filter_absent)
  have "normalize_code (normalize_code s) = normalize_code s"
    by (rule trans [OF normalize_code_def]) (simp only: fil fold_crlf_id [OF cr] strip_clean [OF clean] outer)
  with nul cr clean outer show ?thesis by blast
qed

section \<open>Source ranges\<close>

record source_range =
  sr_start :: int
  sr_end :: int
  sr_start_line :: nat
  sr_end_line :: nat

definition source_range :: "string \<Rightarrow> int \<Rightarrow> int \<Rightarrow> source_range" where
  "source_range content a b =
     (let bounded_start = max 0 (min (int (length content)) a);
          bounded_end = max bounded_start (min (int (length content)) b)
      in \<lparr>sr_start = bounded_start, sr_end = bounded_end,
          sr_start_line = length (split_on newline (str_slice 0 (nat bounded_start) content)),
          sr_end_line = length (split_on newline (str_slice 0 (nat bounded_end) content))\<rparr>)"

lemma length_split_on: "length (split_on d s) = Suc (count_list s d)"
proof (induction s)
  case (Cons c cs)
  then show ?case by (cases "split_on d cs") auto
qed simp

lemma count_list_take_mono: "m \<le> n \<Longrightarrow> count_list (take m s) d \<le> count_list (take n s) d"
proof (induction s arbitrary: m n)
  case (Cons c cs)
  then show ?case by (cases m; cases n) auto
qed simp

text \<open>
  Whatever offsets a parser passes, the range lies inside the content, is not
  reversed, its lines are one plus the line feeds before each end, and so its line numbers are
  ordered too; offsets that already lie in the content are kept.
\<close>

theorem source_range_bounds:
  "let r = source_range content a b; n = int (length content) in
     0 \<le> sr_start r \<and> sr_start r \<le> sr_end r \<and> sr_end r \<le> n
     \<and> sr_start_line r = Suc (count_list (take (nat (sr_start r)) content) newline)
     \<and> sr_end_line r = Suc (count_list (take (nat (sr_end r)) content) newline)
     \<and> sr_start_line r \<le> sr_end_line r
     \<and> (if 0 \<le> a \<and> a \<le> b \<and> b \<le> n then sr_start r = a \<and> sr_end r = b else True)"
  by (simp add: source_range_def Let_def str_slice_def length_split_on count_list_take_mono)

section \<open>Slugs\<close>

text \<open>
  \<^verbatim>\<open>normalize("NFKD")\<close> followed by the removal of the combining marks U+0300 to U+036F. The
  compatibility decompositions of U+00B5 and of the slash in U+00BC to U+00BE lie outside the
  alphabet and are rendered \<open>/\<close>, which the slug treats like them: not a letter or digit.
\<close>

definition nfkd_base :: "char \<Rightarrow> string" where
  "nfkd_base c =
     (let n = of_char c :: nat in
      if n < 128 then [c]
      else if n \<in> {160, 168, 175, 180, 184} then '' ''
      else if n = 170 then ''a'' else if n = 178 then ''2'' else if n = 179 then ''3''
      else if n = 181 then ''/'' else if n = 185 then ''1'' else if n = 186 then ''o''
      else if n = 188 then ''1/4'' else if n = 189 then ''1/2'' else if n = 190 then ''3/4''
      else if n \<in> {192..197} then ''A'' else if n = 199 then ''C'' else if n \<in> {200..203} then ''E''
      else if n \<in> {204..207} then ''I'' else if n = 209 then ''N'' else if n \<in> {210..214} then ''O''
      else if n \<in> {217..220} then ''U'' else if n = 221 then ''Y''
      else if n \<in> {224..229} then ''a'' else if n = 231 then ''c'' else if n \<in> {232..235} then ''e''
      else if n \<in> {236..239} then ''i'' else if n = 241 then ''n'' else if n \<in> {242..246} then ''o''
      else if n \<in> {249..252} then ''u'' else if n = 253 \<or> n = 255 then ''y''
      else [c])"

definition slug_char :: "char \<Rightarrow> bool" where
  "slug_char c \<longleftrightarrow> is_lower c \<or> is_digit c"

definition slug :: "string \<Rightarrow> string" where
  "slug value =
     (let normalized = strip_outer (\<lambda>c. c = CHR ''-'')
            (replace_runs (\<lambda>c. \<not> slug_char c) ''-'' (to_lower (concat (map nfkd_base value))))
      in if normalized = [] then ''section'' else normalized)"

definition unique_slug ::
    "string \<Rightarrow> (string \<times> nat) list \<Rightarrow> string \<times> (string \<times> nat) list" where
  "unique_slug value counts =
     (let base = slug value;
          next = nullish (jm_get counts base) 0 + 1
      in (if next = 1 then base else base @ ''-'' @ nat_str next, jm_set base next counts))"

text \<open>The slugs of the headings of a document, in order, with one map of counts.\<close>

fun unique_slugs :: "string list \<Rightarrow> (string \<times> nat) list \<Rightarrow> string list" where
  "unique_slugs [] counts = []"
| "unique_slugs (v # vs) counts =
     (case unique_slug v counts of (s, counts') \<Rightarrow> s # unique_slugs vs counts')"

lemma slug_shape:
  "slug v \<noteq> [] \<and> set (slug v) \<subseteq> {c. slug_char c \<or> c = CHR ''-''}
     \<and> hd (slug v) \<noteq> CHR ''-'' \<and> last (slug v) \<noteq> CHR ''-''"
proof -
  define r where "r = replace_runs (\<lambda>c. \<not> slug_char c) ''-'' (to_lower (concat (map nfkd_base v)))"
  have "set (strip_outer (\<lambda>c. c = CHR ''-'') r) \<subseteq> {c. slug_char c \<or> c = CHR ''-''}"
    using set_strip_outer [of "\<lambda>c. c = CHR ''-''" r]
      set_replace_runs [of "\<lambda>c. \<not> slug_char c" "''-''"] by (force simp: r_def)
  moreover have "list_all slug_char ''section''"
    by (simp add: slug_char_def is_lower_def char_in_def)
  ultimately show ?thesis
    using strip_outer_ends [of "\<lambda>c. c = CHR ''-''" r]
    by (auto simp: slug_def Let_def r_def list_all_iff)
qed

text \<open>
  The slug of the \<open>k\<close>-th heading with base \<open>b\<close> (counting from one), and the counts after a
  list of headings.
\<close>

definition numbered :: "string \<Rightarrow> nat \<Rightarrow> string" where
  "numbered b k = (if k = 1 then b else b @ ''-'' @ nat_str k)"

lemma unique_slugs_Cons:
  "unique_slugs (v # vs) counts =
     (let n = nullish (jm_get counts (slug v)) 0 + 1
      in numbered (slug v) n # unique_slugs vs (jm_set (slug v) n counts))"
  by (simp add: unique_slug_def numbered_def Let_def)

lemma counts_after:
  "nullish (jm_get (jm_set b n counts) c) 0 = (if c = b then n else nullish (jm_get counts c) 0)"
  by (simp add: update_conv')

lemma unique_slugs_mem:
  "s \<in> set (unique_slugs vs counts) \<Longrightarrow>
     \<exists>v\<in>set vs. \<exists>k. nullish (jm_get counts (slug v)) 0 < k \<and> s = numbered (slug v) k"
proof (induction vs arbitrary: counts)
  case (Cons v vs)
  define n where "n = nullish (jm_get counts (slug v)) 0 + 1"
  consider "s = numbered (slug v) n" | "s \<in> set (unique_slugs vs (jm_set (slug v) n counts))"
    using Cons.prems unfolding unique_slugs_Cons by (auto simp: Let_def n_def)
  then show ?case
  proof cases
    case 1
    then show ?thesis by (auto simp: n_def)
  next
    case 2
    then obtain w k where w: "w \<in> set vs" "s = numbered (slug w) k"
      "nullish (jm_get (jm_set (slug v) n counts) (slug w)) 0 < k"
      using Cons.IH by blast
    then have "nullish (jm_get counts (slug w)) 0 < k"
      by (auto simp: counts_after n_def split: if_splits)
    with w show ?thesis by auto
  qed
qed simp

lemma is_digit_dash: "\<not> is_digit (CHR ''-'')"
  by (simp add: is_digit_def char_in_def)

lemma numbered_base_eq:
  assumes "b @ ''-'' @ nat_str i = c @ ''-'' @ nat_str j"
  shows "b = c"
proof -
  have tail: "takeWhile is_digit (rev (x @ ''-'' @ nat_str n)) = rev (nat_str n)" for x n
  proof -
    have "takeWhile is_digit (rev (nat_str n) @ CHR ''-'' # rev x) = rev (nat_str n)"
      using nat_str_digits [of n] is_digit_dash by (subst takeWhile_append2) (auto simp: list_all_iff)
    then show ?thesis by simp
  qed
  have "nat_str i = nat_str j"
    using tail [of b i] tail [of c j] assms by (metis rev_rev_ident)
  with assms show ?thesis by simp
qed

lemma numbered_inj:
  assumes "numbered b i = numbered c j" "\<And>k. b \<noteq> c @ ''-'' @ nat_str k" "\<And>k. c \<noteq> b @ ''-'' @ nat_str k"
  shows "b = c \<and> i = j"
proof (cases "i = 1 \<or> j = 1")
  case True
  then show ?thesis
    using assms(1) assms(2) [of j] assms(3) [of i] by (auto simp: numbered_def split: if_splits)
next
  case False
  then show ?thesis
    using assms(1) numbered_base_eq [of b i c j] by (auto simp: numbered_def)
qed

lemma unique_slugs_distinct_aux:
  assumes "\<And>v w k. v \<in> set vs \<Longrightarrow> w \<in> set vs \<Longrightarrow> slug v \<noteq> slug w @ ''-'' @ nat_str k"
  shows "distinct (unique_slugs vs counts)"
  using assms
proof (induction vs arbitrary: counts)
  case (Cons v vs)
  define n where "n = nullish (jm_get counts (slug v)) 0 + 1"
  have "numbered (slug v) n \<notin> set (unique_slugs vs (jm_set (slug v) n counts))"
  proof
    assume "numbered (slug v) n \<in> set (unique_slugs vs (jm_set (slug v) n counts))"
    then obtain w k where w: "w \<in> set vs" "numbered (slug v) n = numbered (slug w) k"
      "nullish (jm_get (jm_set (slug v) n counts) (slug w)) 0 < k"
      using unique_slugs_mem by blast
    then have "slug v = slug w \<and> n = k"
      using Cons.prems by (intro numbered_inj) auto
    with w(3) show False by (simp add: counts_after)
  qed
  then show ?case
    using Cons.IH [of "jm_set (slug v) n counts"] Cons.prems
    unfolding unique_slugs_Cons by (simp add: Let_def n_def)
qed simp

text \<open>
  The anchors given to the headings of a document are pairwise different, as long
  as no heading's base slug is that of another followed by a hyphen and a number.
\<close>

theorem unique_slugs_distinct:
  assumes "\<And>v w k. v \<in> set vs \<Longrightarrow> w \<in> set vs \<Longrightarrow> slug v \<noteq> slug w @ ''-'' @ nat_str k"
  shows "distinct (unique_slugs vs [])"
  using assms by (rule unique_slugs_distinct_aux)

lemma unique_slugs_distinct_witness: "distinct (unique_slugs [''Intro'', ''API'', ''Intro''] [])"
proof (rule unique_slugs_distinct)
  fix v w k assume "v \<in> set [''Intro'', ''API'', ''Intro'']" "w \<in> set [''Intro'', ''API'', ''Intro'']"
  moreover have "slug ''Intro'' = ''intro''" "slug ''API'' = ''api''"
    by code_simp+
  ultimately show "slug v \<noteq> slug w @ ''-'' @ nat_str k"
    by (auto dest: arg_cong [where f = length])
qed

text \<open>
  Without that condition anchors collide: the headings Setup, Setup and Setup 2 of
  one document get the anchor \<open>setup-2\<close> twice.
\<close>

theorem unique_slugs_collision:
  "unique_slugs [''Setup'', ''Setup'', ''Setup 2''] [] = [''setup'', ''setup-2'', ''setup-2'']"
  by code_simp

end
