(* ===== verification/DocTypes.thy ===== *)
theory DocTypes
  imports Canonical
begin

text \<open>
  The data of the documentation pipeline, \<^verbatim>\<open>crawler/ingestion/types.ts\<close> and
  \<^verbatim>\<open>crawler/ingestion/parser-types.ts\<close>. A block is its common fields and a body; the body is
  shared by parsed drafts, whose heading anchor is optional, and normalised blocks.
\<close>

section \<open>Documents\<close>

datatype document_format =
    Html | Markdown | Mdx | PlainText | Json | Yaml | OpenapiJson | OpenapiYaml

fun format_text :: "document_format \<Rightarrow> string" where
  "format_text Html = ''html''"
| "format_text Markdown = ''markdown''"
| "format_text Mdx = ''mdx''"
| "format_text PlainText = ''text''"
| "format_text Json = ''json''"
| "format_text Yaml = ''yaml''"
| "format_text OpenapiJson = ''openapi-json''"
| "format_text OpenapiYaml = ''openapi-yaml''"

datatype document_kind = DocumentationKind | OpenapiKind

fun kind_text :: "document_kind \<Rightarrow> string" where
  "kind_text DocumentationKind = ''documentation''"
| "kind_text OpenapiKind = ''openapi''"

record lineage_input =
  li_source_id :: string
  li_url :: string
  li_content_type :: string
  li_source_kind :: "string option"
  li_snapshot :: "string option"
  li_fetched_at :: "string option"

record lineage = lineage_input +
  ln_raw_sha :: string

record normalization_input =
  ni_content :: string
  ni_source :: lineage_input
  ni_title :: "string option"
  ni_kind :: "document_kind option"
  ni_format :: "document_format option"

section \<open>Blocks\<close>

record link =
  lk_label :: string
  lk_target :: string

record list_item =
  it_text :: string
  it_depth :: nat
  it_links :: "link list"

datatype 'a block_body =
    Heading nat string 'a "link list"
  | Paragraph string "link list"
  | Quotation string "link list"
  | Listing bool "list_item list"
  | Table "string list" "string list list" "link list"
  | Code "string option" string

fun body_type :: "'a block_body \<Rightarrow> string" where
  "body_type (Heading _ _ _ _) = ''heading''"
| "body_type (Paragraph _ _) = ''paragraph''"
| "body_type (Quotation _ _) = ''quote''"
| "body_type (Listing _ _) = ''list''"
| "body_type (Table _ _ _) = ''table''"
| "body_type (Code _ _) = ''code''"

fun is_heading :: "'a block_body \<Rightarrow> bool" where
  "is_heading (Heading _ _ _ _) = True"
| "is_heading _ = False"

fun is_code :: "'a block_body \<Rightarrow> bool" where
  "is_code (Code _ _) = True"
| "is_code _ = False"

fun is_table :: "'a block_body \<Rightarrow> bool" where
  "is_table (Table _ _ _) = True"
| "is_table _ = False"

record draft_block =
  df_range :: source_range
  df_body :: "string option block_body"

record normalized_block =
  nb_id :: string
  nb_ordinal :: nat
  nb_range :: source_range
  nb_sha :: string
  nb_body :: "string block_body"

section \<open>Diagnostics\<close>

datatype severity = Info | Warning | Error

fun severity_text :: "severity \<Rightarrow> string" where
  "severity_text Info = ''info''"
| "severity_text Warning = ''warning''"
| "severity_text Error = ''error''"

datatype scope = DocumentScope | SectionScope | CorpusScope

datatype diagnostic_code =
    DocumentEmpty | DocumentMissingTitle | DocumentDuplicate | DocumentBoilerplate
  | BoilerplateRemoved | SectionOversized | StructuredParseFailed
  | MdxExecutableSyntaxPreserved | UnsupportedMarkupPreserved

fun code_text :: "diagnostic_code \<Rightarrow> string" where
  "code_text DocumentEmpty = ''document_empty''"
| "code_text DocumentMissingTitle = ''document_missing_title''"
| "code_text DocumentDuplicate = ''document_duplicate''"
| "code_text DocumentBoilerplate = ''document_boilerplate''"
| "code_text BoilerplateRemoved = ''boilerplate_removed''"
| "code_text SectionOversized = ''section_oversized''"
| "code_text StructuredParseFailed = ''structured_parse_failed''"
| "code_text MdxExecutableSyntaxPreserved = ''mdx_executable_syntax_preserved''"
| "code_text UnsupportedMarkupPreserved = ''unsupported_markup_preserved''"

lemma code_text_inj [simp]: "code_text a = code_text b \<longleftrightarrow> a = b"
  by (cases a; cases b; simp)

record diagnostic =
  dg_code :: diagnostic_code
  dg_severity :: severity
  dg_scope :: scope
  dg_message :: string
  dg_document :: "string option"
  dg_section :: "string option"
  dg_evidence :: "string list option"
  dg_details :: "(string \<times> json) list option"

record parse_result =
  pr_title :: string
  pr_blocks :: "draft_block list"
  pr_diagnostics :: "diagnostic list"

record document =
  doc_id :: string
  doc_title :: string
  doc_format :: document_format
  doc_kind :: document_kind
  doc_source :: lineage
  doc_sha :: string
  doc_blocks :: "normalized_block list"
  doc_diagnostics :: "diagnostic list"

section \<open>Sections\<close>

record heading_path_item =
  hp_level :: nat
  hp_text :: string
  hp_anchor :: string

record block_slice =
  sl_block :: string
  sl_start :: nat
  sl_end :: nat

record section_source = lineage +
  ss_document_sha :: string

record doc_section =
  se_id :: string
  se_ordinal :: nat
  se_document :: string
  se_title :: string
  se_anchor :: string
  se_path :: "heading_path_item list"
  se_slices :: "block_slice list"
  se_content :: string
  se_sha :: string
  se_characters :: nat
  se_tokens :: nat
  se_source :: section_source

record segmentation_options =
  so_target :: "int option"
  so_oversized :: "int option"

record segmentation_result =
  sg_sections :: "doc_section list"
  sg_diagnostics :: "diagnostic list"

section \<open>The documentation map\<close>

datatype outline_node = OutlineNode
  (on_title: string) (on_anchor: string) (on_level: nat) (on_sections: "string list")
  (on_children: "outline_node list")

record map_document =
  md_document :: string
  md_title :: string
  md_url :: string
  md_format :: document_format
  md_raw_sha :: string
  md_sha :: string
  md_section_count :: nat
  md_languages :: "string list"
  md_topics :: "string list"
  md_outline :: "outline_node list"
  md_codes :: "diagnostic_code list"

record map_section =
  ms_section :: string
  ms_document :: string
  ms_title :: string
  ms_anchor :: string
  ms_path :: "heading_path_item list"
  ms_sha :: string
  ms_characters :: nat
  ms_tokens :: nat

datatype entry_kind = Authentication | Setup | Errors | Examples | Reference | Concepts

fun entry_kind_text :: "entry_kind \<Rightarrow> string" where
  "entry_kind_text Authentication = ''authentication''"
| "entry_kind_text Setup = ''setup''"
| "entry_kind_text Errors = ''errors''"
| "entry_kind_text Examples = ''examples''"
| "entry_kind_text Reference = ''reference''"
| "entry_kind_text Concepts = ''concepts''"

record entry_point =
  ep_kind :: entry_kind
  ep_section :: string
  ep_document :: string
  ep_title :: string

record map_overview =
  mo_documents :: nat
  mo_sections :: nat
  mo_formats :: "document_format list"
  mo_languages :: "string list"
  mo_topics :: "string list"
  mo_diagnostics :: "(string \<times> nat) list"

record map_payload =
  mp_overview :: map_overview
  mp_documents :: "map_document list"
  mp_sections :: "map_section list"
  mp_entry_points :: "entry_point list"

record documentation_map = map_payload +
  dm_id :: string
  dm_sha :: string

datatype evidence_kind = DocumentEvidence | SectionEvidence

record evidence_item =
  ev_id :: string
  ev_kind :: evidence_kind
  ev_document :: string
  ev_section :: "string option"
  ev_title :: string
  ev_url :: string
  ev_sha :: string
  ev_content :: string

end
