(* ===== verification/Render.thy ===== *)
theory Render
  imports DocTypes
begin

text \<open>
  \<^verbatim>\<open>crawler/ingestion/render.ts\<close>: the Markdown rendering of a normalised block, its plain text
  and its links.
\<close>

text \<open>\<^verbatim>\<open>/\s*\n\s*/g\<close> replaced by a space: the runs of white space that hold a line feed.\<close>

function fold_newlines :: "string \<Rightarrow> string" where
  "fold_newlines [] = []"
| "fold_newlines (c # cs) =
     (if is_ws c then
        (let run = takeWhile is_ws (c # cs)
         in (if newline \<in> set run then '' '' else run) @ fold_newlines (dropWhile is_ws cs))
      else c # fold_newlines cs)"
  by pat_completeness auto
termination
  by (relation "measure length") (auto simp: less_Suc_eq_le length_dropWhile_le)

definition safe_cell :: "string \<Rightarrow> string" where
  "safe_cell value = fold_newlines (replace_char (CHR ''|'') [CHR 0x5C, CHR ''|''] value)"

text \<open>The lengths of the maximal runs of back quotes, \<^verbatim>\<open>matchAll(/`+/g)\<close>.\<close>

fun runs_from :: "(char \<Rightarrow> bool) \<Rightarrow> nat \<Rightarrow> string \<Rightarrow> nat list" where
  "runs_from P n [] = (if n = 0 then [] else [n])"
| "runs_from P n (c # cs) =
     (if P c then runs_from P (Suc n) cs
      else (if n = 0 then runs_from P 0 cs else n # runs_from P 0 cs))"

definition back_quote :: char where
  "back_quote = CHR 0x60"

definition code_fence :: "string \<Rightarrow> string" where
  "code_fence code =
     replicate (fold max (map (\<lambda>n. n + 1) (runs_from (\<lambda>c. c = back_quote) 0 code)) 3) back_quote"

definition list_line :: "bool \<Rightarrow> nat \<Rightarrow> list_item \<Rightarrow> string" where
  "list_line ordered index item =
     concat (replicate (it_depth item) ''  '')
     @ (if ordered then nat_str (index + 1) @ ''.'' else ''-'') @ '' '' @ it_text item"

definition table_row :: "string list \<Rightarrow> string" where
  "table_row row = ''| '' @ join '' | '' row @ '' |''"

definition cell_at :: "string list \<Rightarrow> nat \<Rightarrow> string \<Rightarrow> string" where
  "cell_at row i d = safe_cell (if i < length row then row ! i else d)"

definition table_width :: "string list \<Rightarrow> string list list \<Rightarrow> nat" where
  "table_width headers rows = fold max (map length rows) (max (length headers) 1)"

fun render_body :: "'a block_body \<Rightarrow> string" where
  "render_body (Heading level text _ _) = replicate level (CHR ''#'') @ '' '' @ text"
| "render_body (Paragraph text _) = text"
| "render_body (Quotation text _) = join [newline] (map (\<lambda>line. ''> '' @ line) (split_on newline text))"
| "render_body (Listing ordered items) =
     join [newline] (map (\<lambda>(index, item). list_line ordered index item) (enumerate 0 items))"
| "render_body (Table headers rows _) =
     (let width = table_width headers rows;
          heads = map (\<lambda>i. cell_at headers i (''Column '' @ nat_str (i + 1))) [0..<width];
          divider = map (\<lambda>_. ''---'') heads;
          cells = map (\<lambda>row. map (\<lambda>i. cell_at row i []) [0..<width]) rows
      in join [newline] (map table_row ([heads, divider] @ cells)))"
| "render_body (Code language code) =
     code_fence code @ nullish language [] @ [newline] @ code @ [newline] @ code_fence code"

definition render_block :: "normalized_block \<Rightarrow> string" where
  "render_block b = render_body (nb_body b)"

fun body_plain_text :: "'a block_body \<Rightarrow> string" where
  "body_plain_text (Heading _ text _ _) = text"
| "body_plain_text (Paragraph text _) = text"
| "body_plain_text (Quotation text _) = text"
| "body_plain_text (Listing _ items) = join [newline] (map it_text items)"
| "body_plain_text (Table headers rows _) = join [newline] (headers @ concat rows)"
| "body_plain_text (Code _ code) = code"

definition block_plain_text :: "normalized_block \<Rightarrow> string" where
  "block_plain_text b = body_plain_text (nb_body b)"

fun body_links :: "'a block_body \<Rightarrow> link list" where
  "body_links (Code _ _) = []"
| "body_links (Listing _ items) = concat (map it_links items)"
| "body_links (Heading _ _ _ links) = links"
| "body_links (Paragraph _ links) = links"
| "body_links (Quotation _ links) = links"
| "body_links (Table _ _ links) = links"

section \<open>A code block cannot close its own fence\<close>

lemma fold_max_ge: "(m :: nat) \<le> fold max ns m" "n \<in> set ns \<Longrightarrow> n \<le> fold max ns m"
  using Max.set_eq_fold [of m ns] by (simp_all flip: Max.set_eq_fold)

lemma runs_from_start: "0 < m \<Longrightarrow> \<exists>n \<in> set (runs_from P m s). m \<le> n"
proof (induction s arbitrary: m)
  case (Cons c s)
  then show ?case using Cons.IH [of "Suc m"] by (auto dest: Suc_leD)
qed simp

lemma runs_from_prefix:
  "list_all P v \<Longrightarrow> 0 < m + length v \<Longrightarrow> \<exists>n \<in> set (runs_from P m (v @ w)). m + length v \<le> n"
proof (induction v arbitrary: m)
  case Nil
  then show ?case by (simp add: runs_from_start)
next
  case (Cons c v)
  then show ?case using Cons.IH [of "Suc m"] by simp
qed

lemma runs_from_bound:
  "list_all P v \<Longrightarrow> v \<noteq> [] \<Longrightarrow> \<exists>n \<in> set (runs_from P m (u @ v @ w)). length v \<le> n"
proof (induction u arbitrary: m)
  case Nil
  then show ?case
    using runs_from_prefix [of P v m w] by (auto dest: add_leD2)
next
  case (Cons c u)
  then show ?case by auto
qed

lemma code_fence_length: "3 \<le> length (code_fence code)"
  by (simp add: code_fence_def fold_max_ge)

lemma code_fence_longer:
  assumes "list_all (\<lambda>c. c = back_quote) v" "code = u @ v @ w"
  shows "length v < length (code_fence code)"
proof (cases "v = []")
  case False
  obtain n where "n \<in> set (runs_from (\<lambda>c. c = back_quote) 0 code)" "length v \<le> n"
    using runs_from_bound [OF assms(1) False, of 0 u w] assms(2) by auto
  then have "length v + 1 \<le> fold max (map (\<lambda>n. n + 1) (runs_from (\<lambda>c. c = back_quote) 0 code)) 3"
    by (intro order_trans [OF _ fold_max_ge(2) [of "n + 1"]]) auto
  then show ?thesis by (simp add: code_fence_def)
qed (use code_fence_length [of code] in auto)

text \<open>
  The fence put around a code block is a run of at least three back quotes that
  occurs nowhere in the code: the code cannot close its own block, whatever it holds.
\<close>

theorem code_fence_safe:
  "render_body (Code language code :: 'a block_body) =
     code_fence code @ nullish language [] @ [newline] @ code @ [newline] @ code_fence code
   \<and> 3 \<le> length (code_fence code) \<and> set (code_fence code) = {back_quote}
   \<and> \<not> (\<exists>u w. code = u @ code_fence code @ w)"
proof (intro conjI)
  show "set (code_fence code) = {back_quote}"
    using code_fence_length [of code] by (auto simp: code_fence_def)
  have "list_all (\<lambda>c. c = back_quote) (code_fence code)"
    by (simp add: code_fence_def list_all_iff)
  then show "\<not> (\<exists>u w. code = u @ code_fence code @ w)"
    using code_fence_longer by blast
qed (use code_fence_length in simp_all)

section \<open>A table is one line per row\<close>

lemma newline_not_space: "newline \<noteq> CHR '' ''" "newline \<noteq> CHR ''|''" "newline \<noteq> CHR ''-''"
  by (simp_all add: newline_def)

lemma fold_newlines_no_newline: "newline \<notin> set (fold_newlines s)"
  by (induction s rule: fold_newlines.induct) (auto simp: Let_def dest: newline_not_space(1) [THEN notE])

lemma cell_no_newline: "newline \<notin> set (cell_at row i d)"
  by (simp add: cell_at_def safe_cell_def fold_newlines_no_newline)

lemma table_row_no_newline:
  "(\<And>c. c \<in> set row \<Longrightarrow> newline \<notin> set c) \<Longrightarrow> newline \<notin> set (table_row row)"
  using set_join [of "'' | ''" row] newline_not_space by (auto simp: table_row_def)

lemma table_width_ge: "length headers \<le> table_width headers rows" "1 \<le> table_width headers rows"
  "row \<in> set rows \<Longrightarrow> length row \<le> table_width headers rows"
  using fold_max_ge [where m = "max (length headers) 1" and ns = "map length rows"]
  by (auto simp: table_width_def)

text \<open>
  A table renders as one line for its headers, one divider and one line per row:
  the line breaks inside its cells cannot add lines, every line has the same number of cells,
  and no cell of the source is dropped.
\<close>

theorem table_lines:
  "let w = table_width headers rows in
     split_on newline (render_body (Table headers rows links :: 'a block_body)) =
       table_row (map (\<lambda>i. cell_at headers i (''Column '' @ nat_str (i + 1))) [0..<w])
       # table_row (replicate w ''---'')
       # map (\<lambda>row. table_row (map (\<lambda>i. cell_at row i []) [0..<w])) rows
     \<and> 1 \<le> w \<and> list_all (\<lambda>row. length row \<le> w) (headers # rows)"
proof -
  define w where "w = table_width headers rows"
  define heads where "heads = map (\<lambda>i. cell_at headers i (''Column '' @ nat_str (i + 1))) [0..<w]"
  define cells where "cells = map (\<lambda>row. map (\<lambda>i. cell_at row i []) [0..<w]) rows"
  define ls where "ls = map table_row (heads # replicate w ''---'' # cells)"
  have "newline \<notin> set (table_row row)" if "row \<in> set (heads # replicate w ''---'' # cells)" for row
    using that cell_no_newline newline_not_space
    by (intro table_row_no_newline) (auto simp: heads_def cells_def)
  then have "split_on newline (join [newline] ls) = ls"
    unfolding ls_def by (intro split_on_join) auto
  moreover have "render_body (Table headers rows links :: 'a block_body) = join [newline] ls"
    by (simp add: ls_def heads_def cells_def w_def Let_def map_replicate_const comp_def)
  ultimately show ?thesis
    using table_width_ge [of headers rows] table_width_ge(3) [of _ rows headers]
    by (simp add: Let_def list_all_iff ls_def heads_def cells_def comp_def flip: w_def)
qed

end
