(* ===== verification/Segment.thy ===== *)
theory Segment
  imports Render
begin

text \<open>
  \<^verbatim>\<open>crawler/ingestion/segment.ts\<close>: a document is cut at its headings into logical sections,
  and each logical section is packed into review sections of at most the target size.
\<close>

section \<open>Cutting\<close>

record piece =
  pc_block :: string
  pc_start :: nat
  pc_end :: nat
  pc_text :: string
  pc_atomic :: bool

record logical_section =
  lg_title :: string
  lg_anchor :: string
  lg_path :: "heading_path_item list"
  lg_pieces :: "piece list"

definition boundary_candidates :: "string \<Rightarrow> int list" where
  "boundary_candidates prefix =
     [last_index_of prefix [newline, newline],
      last_index_of prefix [newline],
      max (max (last_index_of prefix ''. '') (last_index_of prefix ''! '')) (last_index_of prefix ''? '') + 1,
      last_index_of prefix '' '']"

definition boundary :: "string \<Rightarrow> nat \<Rightarrow> nat" where
  "boundary value maximum =
     (if length value \<le> maximum then length value
      else
        let least = max 1 (maximum div 2);
            prefix = str_slice 0 (maximum + 1) value;
            candidates = filter (\<lambda>c. int least \<le> c \<and> c \<le> int maximum) (boundary_candidates prefix)
        in if candidates \<noteq> [] then nat (fold max candidates 0) else maximum)"

fun merge_onto :: "block_slice list \<Rightarrow> piece list \<Rightarrow> block_slice list" where
  "merge_onto slices [] = slices"
| "merge_onto slices (p # ps) =
     (if slices \<noteq> [] \<and> sl_block (last slices) = pc_block p \<and> sl_end (last slices) = pc_start p
      then merge_onto (butlast slices @ [last slices\<lparr>sl_end := pc_end p\<rparr>]) ps
      else merge_onto (slices @ [\<lparr>sl_block = pc_block p, sl_start = pc_start p, sl_end = pc_end p\<rparr>]) ps)"

definition merge_slices :: "piece list \<Rightarrow> block_slice list" where
  "merge_slices ps = merge_onto [] ps"

definition block_piece :: "normalized_block \<Rightarrow> piece" where
  "block_piece b =
     (let t = render_block b
      in \<lparr>pc_block = nb_id b, pc_start = 0, pc_end = length t, pc_text = t,
          pc_atomic = is_code (nb_body b) \<or> is_table (nb_body b) \<or> is_heading (nb_body b)\<rparr>)"

section \<open>Logical sections\<close>

record logical_state =
  ls_result :: "logical_section list"
  ls_path :: "heading_path_item list"
  ls_current :: logical_section

definition flush_logical :: "logical_state \<Rightarrow> logical_state" where
  "flush_logical s =
     (if lg_pieces (ls_current s) \<noteq> [] then s\<lparr>ls_result := ls_result s @ [ls_current s]\<rparr> else s)"

definition logical_step :: "normalized_block \<Rightarrow> logical_state \<Rightarrow> logical_state" where
  "logical_step b s =
     (case nb_body b of
        Heading level t anchor _ \<Rightarrow>
          (let s = flush_logical s;
               path = pop_while (\<lambda>i. level \<le> hp_level i) (ls_path s)
                 @ [\<lparr>hp_level = level, hp_text = t, hp_anchor = anchor\<rparr>]
           in s\<lparr>ls_path := path,
                ls_current := \<lparr>lg_title = t, lg_anchor = anchor, lg_path = path,
                               lg_pieces = [block_piece b]\<rparr>\<rparr>)
      | _ \<Rightarrow> s\<lparr>ls_current := (ls_current s)\<lparr>lg_pieces := lg_pieces (ls_current s) @ [block_piece b]\<rparr>\<rparr>)"

definition logical_sections :: "document \<Rightarrow> logical_section list" where
  "logical_sections d =
     ls_result (flush_logical (fold logical_step (doc_blocks d)
       \<lparr>ls_result = [], ls_path = [],
        ls_current = \<lparr>lg_title = doc_title d, lg_anchor = ''document'', lg_path = [], lg_pieces = []\<rparr>\<rparr>))"

section \<open>Packing\<close>

record pack_state =
  pk_result :: "piece list list"
  pk_current :: "piece list"
  pk_chars :: nat

definition flush_pack :: "pack_state \<Rightarrow> pack_state" where
  "flush_pack s =
     s\<lparr>pk_result := (if pk_current s \<noteq> [] then pk_result s @ [pk_current s] else pk_result s),
       pk_current := [], pk_chars := 0\<rparr>"

text \<open>\<^verbatim>\<open>current.push(piece); currentCharacters += (current.length > 1 ? 2 : 0) + piece.text.length\<close>.\<close>

definition push_piece :: "piece \<Rightarrow> pack_state \<Rightarrow> pack_state" where
  "push_piece p s =
     (let current = pk_current s @ [p]
      in s\<lparr>pk_current := current,
           pk_chars := pk_chars s + (if 1 < length current then 2 else 0) + length (pc_text p)\<rparr>)"

definition pack_atomic :: "nat \<Rightarrow> piece \<Rightarrow> pack_state \<Rightarrow> pack_state" where
  "pack_atomic target p s =
     (let separator = (if pk_current s \<noteq> [] then 2 else 0);
          s = (if pk_current s \<noteq> [] \<and> target < pk_chars s + separator + length (pc_text p)
               then flush_pack s else s);
          s = push_piece p s
      in if target < length (pc_text p) then flush_pack s else s)"

text \<open>
  One round of the inner loop at offset \<open>start\<close>: room is made, the text is taken and trimmed,
  and the next offset skips the white space that follows.
\<close>

definition make_room :: "nat \<Rightarrow> pack_state \<Rightarrow> pack_state \<times> int" where
  "make_room target s =
     (let separator = (if pk_current s \<noteq> [] then 2 else 0);
          available = int target - int (pk_chars s) - separator
      in if available < int (min 64 target) \<and> pk_current s \<noteq> []
         then (flush_pack s, int target) else (s, available))"

definition cut_raw :: "piece \<Rightarrow> nat \<Rightarrow> int \<Rightarrow> string" where
  "cut_raw p start available =
     (let remainder = drop (start - pc_start p) (pc_text p)
      in str_slice 0 (boundary remainder (nat (max 1 available))) remainder)"

definition trimmed_piece :: "piece \<Rightarrow> nat \<Rightarrow> string \<Rightarrow> piece" where
  "trimmed_piece p start raw =
     (let leading = length (takeWhile is_ws raw);
          trailing = length (takeWhile is_ws (rev raw));
          stop = (if length raw - trailing = 0 then length raw else length raw - trailing)
      in \<lparr>pc_block = pc_block p, pc_start = start + leading, pc_end = start + length raw - trailing,
          pc_text = str_slice leading stop raw, pc_atomic = False\<rparr>)"

definition next_offset :: "piece \<Rightarrow> nat \<Rightarrow> string \<Rightarrow> nat" where
  "next_offset p start raw =
     (let next = start + max 1 (length raw)
      in next + length (takeWhile is_ws (take (pc_end p - next) (drop (next - pc_start p) (pc_text p)))))"

definition cut_round :: "nat \<Rightarrow> piece \<Rightarrow> nat \<Rightarrow> pack_state \<Rightarrow> nat \<times> pack_state" where
  "cut_round target p start s =
     (let (s, available) = make_room target s;
          raw = cut_raw p start available;
          q = trimmed_piece p start raw;
          s = (if pc_text q \<noteq> [] then push_piece q s else s)
      in (next_offset p start raw, if target \<le> pk_chars s then flush_pack s else s))"

lemma next_offset_advances: "start < next_offset p start raw"
  by (simp add: next_offset_def Let_def trans_less_add1)

lemma cut_round_advances: "(start', s') = cut_round target p start s \<Longrightarrow> start < start'"
  by (simp add: cut_round_def Let_def next_offset_advances split: prod.splits)

function cut_loop :: "nat \<Rightarrow> piece \<Rightarrow> nat \<Rightarrow> pack_state \<Rightarrow> pack_state" where
  "cut_loop target p start s =
     (if start < pc_end p
      then (let (start', s') = cut_round target p start s in cut_loop target p start' s')
      else s)"
  by pat_completeness auto
termination
  by (relation "measure (\<lambda>(target, p, start, s). pc_end p - start)")
     (auto split: prod.splits intro!: diff_less_mono2 dest: cut_round_advances [OF sym])

declare cut_loop.simps [simp del]

definition pack_piece :: "nat \<Rightarrow> piece \<Rightarrow> pack_state \<Rightarrow> pack_state" where
  "pack_piece target p s =
     (if pc_atomic p then pack_atomic target p s else cut_loop target p (pc_start p) s)"

definition pack_logical_section :: "logical_section \<Rightarrow> nat \<Rightarrow> piece list list" where
  "pack_logical_section l target =
     pk_result (flush_pack (fold (pack_piece target) (lg_pieces l)
       \<lparr>pk_result = [], pk_current = [], pk_chars = 0\<rparr>))"

section \<open>The segmenter\<close>

definition default_target :: int where
  "default_target = 4000"

definition default_oversized :: int where
  "default_oversized = 8000"

definition make_section :: "document \<Rightarrow> logical_section \<Rightarrow> nat \<Rightarrow> piece list \<Rightarrow> doc_section" where
  "make_section d l ordinal pieces =
     (let content = join [newline, newline] (map pc_text pieces);
          sha = sha256 content
      in \<lparr>se_id = ''section_'' @ take 24 (sha256 (canonical_json (JObj
              [(''documentId'', JStr (doc_id d)), (''anchor'', JStr (lg_anchor l)),
               (''ordinal'', JNum (int ordinal)), (''contentSha256'', JStr sha)]))),
          se_ordinal = ordinal, se_document = doc_id d, se_title = lg_title l,
          se_anchor = lg_anchor l, se_path = lg_path l, se_slices = merge_slices pieces,
          se_content = content, se_sha = sha, se_characters = length content,
          se_tokens = (length content + 3) div 4,
          se_source = lineage.extend (doc_source d) \<lparr>ss_document_sha = doc_sha d\<rparr>\<rparr>)"

definition section_pieces :: "document \<Rightarrow> nat \<Rightarrow> (logical_section \<times> piece list) list" where
  "section_pieces d target =
     concat (map (\<lambda>l. map (\<lambda>ps. (l, ps)) (pack_logical_section l target)) (logical_sections d))"

definition document_sections :: "document \<Rightarrow> nat \<Rightarrow> doc_section list" where
  "document_sections d target =
     map (\<lambda>(ordinal, l, ps). make_section d l ordinal ps) (enumerate 0 (section_pieces d target))"

definition oversized_diagnostic :: "document \<Rightarrow> int \<Rightarrow> doc_section \<Rightarrow> diagnostic" where
  "oversized_diagnostic d oversized s =
     \<lparr>dg_code = SectionOversized, dg_severity = Warning, dg_scope = SectionScope,
      dg_message = ''An indivisible code block or table keeps this section above the configured review size.'',
      dg_document = Some (doc_id d), dg_section = Some (se_id s), dg_evidence = Some [se_id s],
      dg_details = Some [(''characterCount'', JNum (int (se_characters s))),
                         (''oversizedCharacters'', JNum oversized)]\<rparr>"

definition segment_document ::
    "document \<Rightarrow> segmentation_options \<Rightarrow> js_error + segmentation_result" where
  "segment_document d options =
     (let target = nullish (so_target options) default_target;
          oversized = nullish (so_oversized options) default_oversized
      in if \<not> safe_integer target \<or> target < 1
         then Inl (TypeError ''targetCharacters must be a positive integer.'')
         else if \<not> safe_integer oversized \<or> oversized < target
         then Inl (TypeError ''oversizedCharacters must be an integer greater than or equal to targetCharacters.'')
         else
           let sections = document_sections d (nat target)
           in Inr \<lparr>sg_sections = sections,
                   sg_diagnostics = map (oversized_diagnostic d oversized)
                     (filter (\<lambda>s. oversized < int (se_characters s)) sections)\<rparr>)"

section \<open>The cut points\<close>

lemma fold_max_range:
  fixes cs :: "int list"
  assumes "\<And>c. c \<in> set cs \<Longrightarrow> lo \<le> c \<and> c \<le> hi" "cs \<noteq> []" "0 \<le> lo"
  shows "lo \<le> fold max cs 0 \<and> fold max cs 0 \<le> hi"
proof -
  have max: "fold max cs 0 = Max (insert 0 (set cs))"
    using Max.set_eq_fold [of 0 cs] by simp
  obtain c where c: "c \<in> set cs"
    using assms(2) by (cases cs) auto
  then have "lo \<le> c" "c \<le> Max (insert 0 (set cs))" "c \<le> hi"
    using assms(1) by simp_all
  then show ?thesis
    using max assms(1,3) by (auto intro: order_trans)
qed

lemma boundary_cut:
  assumes "m < length v"
  shows "max 1 (m div 2) \<le> max 1 (boundary v m) \<and> boundary v m \<le> m \<and> (1 \<le> m \<longrightarrow> 1 \<le> boundary v m)
    \<and> m div 2 \<le> boundary v m"
proof -
  define cs where "cs = filter (\<lambda>c. int (max 1 (m div 2)) \<le> c \<and> c \<le> int m)
    (boundary_candidates (str_slice 0 (m + 1) v))"
  have b: "boundary v m = (if cs \<noteq> [] then nat (fold max cs 0) else m)"
    using assms by (simp add: boundary_def cs_def Let_def)
  have "int (max 1 (m div 2)) \<le> fold max cs 0 \<and> fold max cs 0 \<le> int m" if ne: "cs \<noteq> []"
    using ne by (intro fold_max_range) (auto simp: cs_def)
  then show ?thesis
    using b by (cases "cs = []") auto
qed

lemma boundary_bounds:
  assumes "1 \<le> m" "v \<noteq> []"
  shows "1 \<le> boundary v m \<and> boundary v m \<le> m \<and> boundary v m \<le> length v"
proof (cases "length v \<le> m")
  case True
  then show ?thesis using assms by (simp add: boundary_def Suc_le_eq)
next
  case False
  then show ?thesis using assms boundary_cut [of m v] by auto
qed

text \<open>
  A cut point of a text longer than the limit lies between half the limit and the
  limit, so that every cut makes progress and no cut section is tiny; a text within the limit
  is not cut.
\<close>

theorem boundary_progress:
  assumes "1 \<le> m" "v \<noteq> []"
  shows "boundary v m \<in> {1..min m (length v)}
    \<and> (if length v \<le> m then boundary v m = length v else m div 2 \<le> boundary v m)"
  using boundary_bounds [OF assms] boundary_cut [of m v] by (auto simp: boundary_def)

lemma boundary_progress_witness: "boundary ''One. Two three'' 8 \<in> {1..8} \<and> 4 \<le> boundary ''One. Two three'' 8"
  using boundary_progress [of 8 "''One. Two three''"] by simp

section \<open>Trimming the taken text\<close>

abbreviation nonws :: "string \<Rightarrow> string" where
  "nonws s \<equiv> filter (\<lambda>c. \<not> is_ws c) s"

lemma rev_dropWhile_take: "rev (dropWhile P (rev s)) = take (length s - length (takeWhile P (rev s))) s"
  by (metis dropWhile_eq_drop length_rev rev_drop rev_rev_ident)

lemma takeWhile_rev_drop:
  assumes "\<not> list_all P s"
  shows "takeWhile P (rev (dropWhile P s)) = takeWhile P (rev s)"
proof -
  have "\<exists>c \<in> set (dropWhile P s). \<not> P c"
    using assms by (metis dropWhile_eq_Nil_conv hd_dropWhile hd_in_set list_all_iff)
  then have "takeWhile P (rev (dropWhile P s) @ rev (takeWhile P s)) = takeWhile P (rev (dropWhile P s))"
    by (metis set_rev takeWhile_append1)
  then show ?thesis
    by (metis rev_append takeWhile_dropWhile_id)
qed

lemma lead_trail_le:
  assumes "\<not> list_all P s"
  shows "length (takeWhile P s) + length (takeWhile P (rev s)) < length s"
proof -
  have "length (takeWhile P (rev (dropWhile P s))) < length (dropWhile P s)"
  proof -
    obtain c where "c \<in> set (rev (dropWhile P s))" "\<not> P c"
      using assms by (metis dropWhile_eq_Nil_conv hd_dropWhile hd_in_set list_all_iff set_rev)
    then have "takeWhile P (rev (dropWhile P s)) \<noteq> rev (dropWhile P s)"
      by (metis set_takeWhileD)
    then show ?thesis
      by (metis length_rev length_takeWhile_le nat_less_le takeWhile_eq_take take_all_iff)
  qed
  then show ?thesis
    using takeWhile_rev_drop [OF assms] takeWhile_dropWhile_id [of P s]
    by (metis add_less_cancel_left length_append)
qed

lemma trim_all_ws: "list_all is_ws s \<Longrightarrow> trim s = []"
proof -
  assume "list_all is_ws s"
  then have e: "dropWhile is_ws s = []"
    by (induction s) auto
  show ?thesis unfolding trim_def trim_start_def e by (simp add: trim_end_def)
qed

lemma trimmed_text: "pc_text (trimmed_piece p start raw) = trim raw"
proof (cases "list_all is_ws raw")
  case True
  have "length (takeWhile is_ws raw) = length raw"
    using True by (metis list_all_iff takeWhile_eq_all_conv)
  with trim_all_ws [OF True] show ?thesis
    by (simp add: trimmed_piece_def Let_def str_slice_def)
next
  case False
  let ?l = "length (takeWhile is_ws raw)" and ?t = "length (takeWhile is_ws (rev raw))"
  have lt: "?l + ?t < length raw"
    using False by (rule lead_trail_le)
  have "trim raw = take (length (dropWhile is_ws raw) - ?t) (dropWhile is_ws raw)"
    unfolding trim_def trim_start_def trim_end_def rev_dropWhile_take takeWhile_rev_drop [OF False] ..
  also have "\<dots> = take (length raw - ?t - ?l) (drop ?l raw)"
    by (simp add: dropWhile_eq_drop add.commute)
  finally show ?thesis
    using lt by (simp add: trimmed_piece_def Let_def str_slice_def)
qed

text \<open>The piece cut from an original piece is the text of the original at its offsets.\<close>

definition part_of :: "piece \<Rightarrow> piece \<Rightarrow> bool" where
  "part_of q p \<longleftrightarrow> pc_block q = pc_block p \<and> pc_start p \<le> pc_start q \<and> pc_start q \<le> pc_end q
     \<and> pc_end q \<le> pc_end p
     \<and> pc_text q = str_slice (pc_start q - pc_start p) (pc_end q - pc_start p) (pc_text p)"

definition piece_ok :: "piece \<Rightarrow> bool" where
  "piece_ok p \<longleftrightarrow> pc_end p = pc_start p + length (pc_text p)"

lemma part_of_refl [simp]: "piece_ok p \<Longrightarrow> part_of p p"
  by (simp add: part_of_def piece_ok_def str_slice_def)

lemma block_piece_ok [simp]: "piece_ok (block_piece b)"
  by (simp add: block_piece_def piece_ok_def Let_def)

lemma str_slice_inner: "b \<le> n \<Longrightarrow> str_slice a b (take n (drop k s)) = str_slice (k + a) (k + b) s"
  by (simp add: str_slice_def drop_take add.commute)

lemma trimmed_part_of:
  assumes "piece_ok p" "pc_start p \<le> start" "raw = take n (drop (start - pc_start p) (pc_text p))"
    and "pc_text (trimmed_piece p start raw) \<noteq> []" "start \<le> pc_end p"
  shows "part_of (trimmed_piece p start raw) p"
proof -
  have nws: "\<not> list_all is_ws raw"
    using assms(4) unfolding trimmed_text
    by (auto simp: trim_all_ws)
  let ?l = "length (takeWhile is_ws raw)" and ?t = "length (takeWhile is_ws (rev raw))"
  have lt: "?l + ?t < length raw"
    using nws by (rule lead_trail_le)
  have len: "length raw \<le> n" "length raw \<le> pc_end p - start"
    using assms(1,2,3,5) by (auto simp: piece_ok_def)
  have at: "start + ?l - pc_start p = start - pc_start p + ?l"
    "start + length raw - ?t - pc_start p = start - pc_start p + (length raw - ?t)"
    using assms(2) lt by arith+
  have "str_slice ?l (length raw - ?t) (take n (drop (start - pc_start p) (pc_text p)))
      = str_slice (start + ?l - pc_start p) (start + length raw - ?t - pc_start p) (pc_text p)"
    unfolding at using len by (intro str_slice_inner) simp
  then have "str_slice ?l (length raw - ?t) raw
      = str_slice (start + ?l - pc_start p) (start + length raw - ?t - pc_start p) (pc_text p)"
    by (simp flip: assms(3))
  then show ?thesis
    using assms(2,5) lt len(2) by (simp add: part_of_def trimmed_piece_def Let_def) arith
qed

section \<open>Packing invariants\<close>

definition pieces_of :: "pack_state \<Rightarrow> piece list" where
  "pieces_of s = concat (pk_result s) @ pk_current s"

definition content_of :: "piece list \<Rightarrow> string" where
  "content_of ps = join [newline, newline] (map pc_text ps)"

text \<open>A packed group fits the target, or is one atomic piece that does not fit alone.\<close>

definition group_ok :: "nat \<Rightarrow> piece list \<Rightarrow> bool" where
  "group_ok target ps \<longleftrightarrow> ps \<noteq> [] \<and> (length (content_of ps) \<le> target
     \<or> (\<exists>p. ps = [p] \<and> pc_atomic p \<and> target < length (pc_text p)))"

definition pack_ok :: "nat \<Rightarrow> pack_state \<Rightarrow> bool" where
  "pack_ok target s \<longleftrightarrow> list_all (group_ok target) (pk_result s)
     \<and> pk_chars s = length (content_of (pk_current s)) \<and> pk_chars s \<le> target"

lemma content_of_snoc:
  "length (content_of (ps @ [p])) =
     length (content_of ps) + (if ps \<noteq> [] then 2 else 0) + length (pc_text p)"
  by (simp add: content_of_def join_snoc)

lemma content_of_Nil [simp]: "content_of [] = []" and content_of_single [simp]: "content_of [p] = pc_text p"
  by (simp_all add: content_of_def)

lemma pieces_of_flush [simp]: "pieces_of (flush_pack s) = pieces_of s"
  by (simp add: pieces_of_def flush_pack_def)

lemma pieces_of_push [simp]: "pieces_of (push_piece p s) = pieces_of s @ [p]"
  by (simp add: pieces_of_def push_piece_def Let_def)

lemma flush_ok: "pack_ok target s \<Longrightarrow> pack_ok target (flush_pack s)"
  by (auto simp: pack_ok_def flush_pack_def group_ok_def)

lemma flush_current [simp]: "pk_current (flush_pack s) = []" "pk_chars (flush_pack s) = 0"
  by (simp_all add: flush_pack_def)

lemma push_ok:
  assumes "pack_ok target s"
    and "pk_chars s + (if pk_current s \<noteq> [] then 2 else 0) + length (pc_text p) \<le> target"
  shows "pack_ok target (push_piece p s)"
  using assms by (auto simp: pack_ok_def push_piece_def Let_def content_of_snoc split: if_splits)

lemma push_atomic_flush_ok:
  assumes "pack_ok target s" "pk_current s = []" "pc_atomic p" "target < length (pc_text p)"
  shows "pack_ok target (flush_pack (push_piece p s))"
  using assms by (simp add: pack_ok_def push_piece_def flush_pack_def group_ok_def)

lemma pack_atomic_ok:
  assumes "pack_ok target s" "pc_atomic p"
  shows "pack_ok target (pack_atomic target p s) \<and> pieces_of (pack_atomic target p s) = pieces_of s @ [p]"
proof -
  let ?over = "pk_current s \<noteq> [] \<and> target < pk_chars s + 2 + length (pc_text p)"
  define s' where "s' = (if ?over then flush_pack s else s)"
  have s': "pack_atomic target p s =
    (if target < length (pc_text p) then flush_pack (push_piece p s') else push_piece p s')"
    by (simp add: pack_atomic_def Let_def s'_def)
  have ok: "pack_ok target s'" "pieces_of s' = pieces_of s"
    using assms flush_ok by (auto simp: s'_def)
  show ?thesis
  proof (cases "target < length (pc_text p)")
    case True
    then have "pk_current s' = []"
      by (auto simp: s'_def)
    with True ok assms show ?thesis
      unfolding s' using push_atomic_flush_ok by simp
  next
    case False
    have "pk_chars s' + (if pk_current s' \<noteq> [] then 2 else 0) + length (pc_text p) \<le> target"
      using False ok(1) by (auto simp: s'_def pack_ok_def)
    with False ok show ?thesis
      unfolding s' using push_ok by simp
  qed
qed

lemma make_room_ok:
  assumes "pack_ok target s" "1 \<le> target" "make_room target s = (s', available)"
  shows "pack_ok target s'" "pieces_of s' = pieces_of s" "1 \<le> available"
    "int (pk_chars s') + (if pk_current s' \<noteq> [] then 2 else 0) + available = int target"
proof -
  let ?sep = "if pk_current s \<noteq> [] then 2 else 0 :: int"
  have "(s' = flush_pack s \<and> available = int target) \<or>
    (s' = s \<and> available = int target - int (pk_chars s) - ?sep
      \<and> (pk_current s = [] \<or> int (min 64 target) \<le> available))"
  proof (cases "pk_current s = []")
    case True
    with assms(3) show ?thesis by (auto simp: make_room_def)
  next
    case False
    define av where "av = int target - int (pk_chars s) - 2"
    have "make_room target s = (if av < int (min 64 target) then (flush_pack s, int target) else (s, av))"
      by (simp only: make_room_def av_def Let_def False not_False_eq_True if_True simp_thms)
    then have "(s', available) = (if av < int (min 64 target) then (flush_pack s, int target) else (s, av))"
      by (simp only: assms(3))
    then have "s' = flush_pack s \<and> available = int target
        \<or> s' = s \<and> available = av \<and> int (min 64 target) \<le> av"
      unfolding not_less [symmetric] by (simp only: prod.inject split: if_split_asm) blast+
    then show ?thesis
      using False by (simp add: av_def) blast
  qed
  moreover have "pk_current s = [] \<Longrightarrow> pk_chars s = 0"
    using assms(1) by (simp add: pack_ok_def)
  ultimately show "pack_ok target s'" "pieces_of s' = pieces_of s" "1 \<le> available"
    "int (pk_chars s') + (if pk_current s' \<noteq> [] then 2 else 0) + available = int target"
    using assms(1,2) flush_ok [OF assms(1)] by (auto split: if_splits)
qed

lemma cut_raw_bounds:
  assumes "piece_ok p" "pc_start p \<le> start" "start < pc_end p" "1 \<le> available"
  shows "cut_raw p start available \<noteq> []" "int (length (cut_raw p start available)) \<le> available"
    "cut_raw p start available =
       take (length (cut_raw p start available)) (drop (start - pc_start p) (pc_text p))"
proof -
  let ?r = "drop (start - pc_start p) (pc_text p)"
  have "?r \<noteq> []"
    using assms by (simp add: piece_ok_def)
  moreover have "1 \<le> nat (max 1 available)"
    by simp
  ultimately have b: "1 \<le> boundary ?r (nat (max 1 available))"
    "boundary ?r (nat (max 1 available)) \<le> nat (max 1 available)"
    "boundary ?r (nat (max 1 available)) \<le> length ?r"
    using boundary_bounds by blast+
  have raw: "cut_raw p start available = take (boundary ?r (nat (max 1 available))) ?r"
    by (simp add: cut_raw_def Let_def str_slice_def)
  then have len: "length (cut_raw p start available) = boundary ?r (nat (max 1 available))"
    using b(3) by simp
  show "cut_raw p start available \<noteq> []"
    using len b(1) by auto
  show "int (length (cut_raw p start available)) \<le> available"
    using len b(2) assms(4) by linarith
  show "cut_raw p start available = take (length (cut_raw p start available)) ?r"
    unfolding len by (rule raw)
qed

lemma nonws_drop_ws: "nonws (drop (length (takeWhile is_ws (take n s))) s) = nonws s"
proof -
  define w where "w = takeWhile is_ws (take n s)"
  have "length w \<le> n"
    unfolding w_def by (metis length_take length_takeWhile_le min.bounded_iff)
  then have "take (length w) s = w"
    using takeWhile_eq_take [of is_ws "take n s"] by (simp add: min_def flip: w_def)
  moreover have "list_all is_ws w"
    by (auto simp: w_def list_all_iff dest: set_takeWhileD)
  ultimately have "nonws s = nonws (drop (length w) s)"
    by (metis append_Nil append_take_drop_id filter_append filter_ws_nil)
  then show ?thesis by (simp add: w_def)
qed

text \<open>What a round appends, and what is left to cut.\<close>

lemma cut_round_effect:
  assumes "pack_ok target s" "1 \<le> target" "piece_ok p" "pc_start p \<le> start" "start < pc_end p"
    and "cut_round target p start s = (start', s')"
  shows "pack_ok target s'"
    and "\<exists>qs. pieces_of s' = pieces_of s @ qs \<and> list_all (\<lambda>q. part_of q p \<and> \<not> pc_atomic q) qs
      \<and> nonws (drop (start - pc_start p) (pc_text p))
        = nonws (concat (map pc_text qs)) @ nonws (drop (start' - pc_start p) (pc_text p))"
proof -
  obtain s1 av where room: "make_room target s = (s1, av)"
    by (cases "make_room target s")
  define raw where "raw = cut_raw p start av"
  define q where "q = trimmed_piece p start raw"
  define s2 where "s2 = (if pc_text q \<noteq> [] then push_piece q s1 else s1)"
  have s': "s' = (if target \<le> pk_chars s2 then flush_pack s2 else s2)" "start' = next_offset p start raw"
    using assms(6) unfolding cut_round_def room
    by (auto simp: Let_def s2_def q_def raw_def simp del: split_paired_Ex split: if_splits)
  note room_ok = make_room_ok [OF assms(1,2) room]
  note raw_ok = cut_raw_bounds [OF assms(3-5) room_ok(3), folded raw_def]
  have q_text: "pc_text q = trim raw"
    by (simp add: q_def trimmed_text)
  have "pk_chars s1 + (if pk_current s1 \<noteq> [] then 2 else 0) + length (pc_text q) \<le> target"
    using room_ok(4) raw_ok(2) length_trim_le [of raw] q_text by (auto split: if_splits)
  then have "pack_ok target s2"
    using room_ok(1) push_ok by (simp add: s2_def)
  then show "pack_ok target s'"
    using flush_ok s'(1) by simp
  define qs where "qs = (if pc_text q \<noteq> [] then [q] else [])"
  have "pieces_of s' = pieces_of s @ qs"
    using s'(1) room_ok(2) by (simp add: s2_def qs_def)
  moreover have "list_all (\<lambda>q. part_of q p \<and> \<not> pc_atomic q) qs"
    using trimmed_part_of [OF assms(3,4) raw_ok(3)] assms(5)
    by (simp add: qs_def q_def trimmed_piece_def Let_def)
  moreover have "nonws (concat (map pc_text qs)) = nonws raw"
    using filter_trim [of raw, symmetric] by (cases "trim raw = []") (simp_all add: qs_def q_text)
  moreover have "nonws (drop (start' - pc_start p) (pc_text p))
      = nonws (drop (length raw) (drop (start - pc_start p) (pc_text p)))"
  proof -
    let ?w = "length (takeWhile is_ws (take (pc_end p - (start + length raw))
      (drop (start + length raw - pc_start p) (pc_text p))))"
    have "start' - pc_start p = ?w + (start + length raw - pc_start p)"
      using s'(2) raw_ok(1) assms(4) by (simp add: next_offset_def Let_def max_def Suc_le_eq)
    then have "drop (start' - pc_start p) (pc_text p)
        = drop ?w (drop (start + length raw - pc_start p) (pc_text p))"
      by simp
    moreover have "start + length raw - pc_start p = length raw + (start - pc_start p)"
      using assms(4) by simp
    ultimately show ?thesis
      using nonws_drop_ws by (metis drop_drop)
  qed
  moreover have "nonws (drop (start - pc_start p) (pc_text p))
      = nonws raw @ nonws (drop (length raw) (drop (start - pc_start p) (pc_text p)))"
    using raw_ok(3) by (metis append_take_drop_id filter_append)
  ultimately show "\<exists>qs. pieces_of s' = pieces_of s @ qs \<and> list_all (\<lambda>q. part_of q p \<and> \<not> pc_atomic q) qs
      \<and> nonws (drop (start - pc_start p) (pc_text p))
        = nonws (concat (map pc_text qs)) @ nonws (drop (start' - pc_start p) (pc_text p))"
    by (intro exI [of _ qs]) simp
qed

lemma cut_loop_effect:
  assumes "pack_ok target s" "1 \<le> target" "piece_ok p" "pc_start p \<le> start"
  shows "pack_ok target (cut_loop target p start s)
    \<and> (\<exists>qs. pieces_of (cut_loop target p start s) = pieces_of s @ qs
        \<and> list_all (\<lambda>q. part_of q p \<and> \<not> pc_atomic q) qs
        \<and> nonws (concat (map pc_text qs)) = nonws (drop (start - pc_start p) (pc_text p)))"
  using assms
proof (induction target p start s rule: cut_loop.induct)
  case (1 target p start s)
  show ?case
  proof (cases "start < pc_end p")
    case False
    then have "drop (start - pc_start p) (pc_text p) = []"
      using 1 by (simp add: piece_ok_def)
    then show ?thesis
      using False 1 by (subst (1 2) cut_loop.simps) simp
  next
    case True
    obtain start' s' where r: "cut_round target p start s = (start', s')"
      by (cases "cut_round target p start s")
    note eff = cut_round_effect [OF "1.prems"(1,2,3,4) True r]
    obtain qs where qs: "pieces_of s' = pieces_of s @ qs" "list_all (\<lambda>q. part_of q p \<and> \<not> pc_atomic q) qs"
      "nonws (drop (start - pc_start p) (pc_text p))
        = nonws (concat (map pc_text qs)) @ nonws (drop (start' - pc_start p) (pc_text p))"
      using eff(2) by blast
    have loop: "cut_loop target p start s = cut_loop target p start' s'"
      using True r by (subst cut_loop.simps) simp
    have "pc_start p \<le> start'"
      using "1.prems"(4) cut_round_advances [OF r [symmetric]] by simp
    then obtain rs where "pack_ok target (cut_loop target p start' s')"
      "pieces_of (cut_loop target p start' s') = pieces_of s' @ rs"
      "list_all (\<lambda>q. part_of q p \<and> \<not> pc_atomic q) rs"
      "nonws (concat (map pc_text rs)) = nonws (drop (start' - pc_start p) (pc_text p))"
      using "1.IH" [OF True r [symmetric] refl] eff(1) "1.prems"(2,3) by blast
    then show ?thesis
      unfolding loop using qs by (intro conjI exI [of _ "qs @ rs"]) simp_all
  qed
qed

lemma pack_piece_effect:
  assumes "pack_ok target s" "1 \<le> target" "piece_ok p"
  shows "pack_ok target (pack_piece target p s)
    \<and> (\<exists>qs. pieces_of (pack_piece target p s) = pieces_of s @ qs
        \<and> list_all (\<lambda>q. part_of q p) qs
        \<and> nonws (concat (map pc_text qs)) = nonws (pc_text p)
        \<and> (pc_atomic p \<longrightarrow> qs = [p]) \<and> (\<not> pc_atomic p \<longrightarrow> list_all (\<lambda>q. \<not> pc_atomic q) qs))"
proof (cases "pc_atomic p")
  case True
  then show ?thesis
    using pack_atomic_ok [OF assms(1) True] assms(3) by (simp add: pack_piece_def)
next
  case False
  then show ?thesis
    using cut_loop_effect [OF assms order_refl] by (auto simp: pack_piece_def list_all_iff)
qed

lemma pack_fold_effect:
  assumes "pack_ok target s" "1 \<le> target" "list_all piece_ok ps"
  shows "pack_ok target (fold (pack_piece target) ps s)
    \<and> (\<exists>qs. pieces_of (fold (pack_piece target) ps s) = pieces_of s @ qs
        \<and> (\<forall>q \<in> set qs. \<exists>p \<in> set ps. part_of q p \<and> (pc_atomic q \<longrightarrow> q = p))
        \<and> nonws (concat (map pc_text qs)) = nonws (concat (map pc_text ps)))"
  using assms
proof (induction ps arbitrary: s)
  case Nil
  then show ?case by simp
next
  case (Cons p ps)
  then obtain qs where ok: "pack_ok target (pack_piece target p s)"
    and qs: "pieces_of (pack_piece target p s) = pieces_of s @ qs" "list_all (\<lambda>q. part_of q p) qs"
    "nonws (concat (map pc_text qs)) = nonws (pc_text p)"
    "pc_atomic p \<longrightarrow> qs = [p]" "\<not> pc_atomic p \<longrightarrow> list_all (\<lambda>q. \<not> pc_atomic q) qs"
    using pack_piece_effect [of target s p] by auto
  obtain rs where rs: "pack_ok target (fold (pack_piece target) ps (pack_piece target p s))"
    "pieces_of (fold (pack_piece target) ps (pack_piece target p s)) = pieces_of (pack_piece target p s) @ rs"
    "\<forall>q \<in> set rs. \<exists>p \<in> set ps. part_of q p \<and> (pc_atomic q \<longrightarrow> q = p)"
    "nonws (concat (map pc_text rs)) = nonws (concat (map pc_text ps))"
    using Cons.IH [OF ok Cons.prems(2)] Cons.prems(3) by auto
  have "\<forall>q \<in> set qs. part_of q p \<and> (pc_atomic q \<longrightarrow> q = p)"
    using qs(2,4,5) by (cases "pc_atomic p") (auto simp: list_all_iff)
  with qs rs show ?case
    by (intro conjI exI [of _ "qs @ rs"]) auto
qed

lemma pack_logical_effect:
  assumes "1 \<le> target" "list_all piece_ok (lg_pieces l)"
  defines "gs \<equiv> pack_logical_section l target"
  shows "list_all (group_ok target) gs"
    and "\<And>q. q \<in> set (concat gs) \<Longrightarrow> \<exists>p \<in> set (lg_pieces l). part_of q p \<and> (pc_atomic q \<longrightarrow> q = p)"
    and "nonws (concat (map pc_text (concat gs))) = nonws (concat (map pc_text (lg_pieces l)))"
proof -
  let ?init = "\<lparr>pk_result = [], pk_current = [], pk_chars = 0\<rparr>"
  let ?s = "fold (pack_piece target) (lg_pieces l) ?init"
  have start: "pack_ok target ?init" "pieces_of ?init = []"
    by (simp_all add: pack_ok_def pieces_of_def)
  obtain qs where qs: "pack_ok target ?s" "pieces_of ?s = qs"
    "\<forall>q \<in> set qs. \<exists>p \<in> set (lg_pieces l). part_of q p \<and> (pc_atomic q \<longrightarrow> q = p)"
    "nonws (concat (map pc_text qs)) = nonws (concat (map pc_text (lg_pieces l)))"
    using pack_fold_effect [OF start(1) assms(1,2)] unfolding start(2) append_Nil by blast
  have gs: "gs = pk_result (flush_pack ?s)"
    by (simp add: gs_def pack_logical_section_def)
  have "concat gs = pieces_of (flush_pack ?s)"
    unfolding gs by (simp only: pieces_of_def flush_current append_Nil2)
  then have cg: "concat gs = qs"
    unfolding pieces_of_flush qs(2) .
  show "\<exists>p \<in> set (lg_pieces l). part_of q p \<and> (pc_atomic q \<longrightarrow> q = p)" if "q \<in> set (concat gs)" for q
    using that qs(3) unfolding cg by (rule bspec [rotated])
  show "nonws (concat (map pc_text (concat gs))) = nonws (concat (map pc_text (lg_pieces l)))"
    unfolding cg by (rule qs(4))
  show "list_all (group_ok target) gs"
    using flush_ok [OF qs(1)] unfolding gs pack_ok_def by blast
qed

section \<open>Logical sections\<close>

definition logical_ok :: "document \<Rightarrow> logical_section \<Rightarrow> bool" where
  "logical_ok d l \<longleftrightarrow> sorted_wrt (\<lambda>i j. hp_level i < hp_level j) (lg_path l)
     \<and> (if lg_path l = [] then lg_title l = doc_title d \<and> lg_anchor l = ''document''
        else lg_title l = hp_text (last (lg_path l)) \<and> lg_anchor l = hp_anchor (last (lg_path l)))"

lemma logical_ok_pieces [simp]: "logical_ok d (l\<lparr>lg_pieces := ps\<rparr>) = logical_ok d l"
  by (simp add: logical_ok_def)

definition logical_inv :: "document \<Rightarrow> normalized_block list \<Rightarrow> logical_state \<Rightarrow> bool" where
  "logical_inv d bs s \<longleftrightarrow>
     concat (map lg_pieces (ls_result s)) @ lg_pieces (ls_current s) = map block_piece bs
     \<and> list_all (logical_ok d) (ls_result s) \<and> logical_ok d (ls_current s)
     \<and> lg_path (ls_current s) = ls_path s"

lemma logical_step_inv:
  assumes "logical_inv d bs s"
  shows "logical_inv d (bs @ [b]) (logical_step b s)"
proof (cases "is_heading (nb_body b)")
  case True
  then obtain level t anchor links where b: "nb_body b = Heading level t anchor links"
    by (cases "nb_body b") auto
  have "sorted_wrt (\<lambda>i j. hp_level i < hp_level j)
    (pop_while (\<lambda>i. level \<le> hp_level i) (ls_path s) @ [\<lparr>hp_level = level, hp_text = t, hp_anchor = anchor\<rparr>])"
    using push_increasing [of hp_level "ls_path s" "\<lparr>hp_level = level, hp_text = t, hp_anchor = anchor\<rparr>"] assms
    by (auto simp: logical_inv_def logical_ok_def)
  then show ?thesis
    using assms by (auto simp: logical_inv_def logical_step_def flush_logical_def b Let_def logical_ok_def)
next
  case False
  then have "logical_step b s
      = s\<lparr>ls_current := (ls_current s)\<lparr>lg_pieces := lg_pieces (ls_current s) @ [block_piece b]\<rparr>\<rparr>"
    by (cases "nb_body b") (simp_all add: logical_step_def)
  then show ?thesis
    using assms by (simp add: logical_inv_def flip: append_assoc)
qed

lemma logical_fold_inv:
  "logical_inv d bs s \<Longrightarrow> logical_inv d (bs @ cs) (fold logical_step cs s)"
proof (induction cs arbitrary: bs s)
  case (Cons c cs)
  then show ?case using Cons.IH [OF logical_step_inv [of d bs s c]] by simp
qed simp

lemma logical_sections_effect:
  "concat (map lg_pieces (logical_sections d)) = map block_piece (doc_blocks d)"
  "list_all (logical_ok d) (logical_sections d)"
proof -
  define s0 where "s0 = \<lparr>ls_result = [], ls_path = [],
    ls_current = \<lparr>lg_title = doc_title d, lg_anchor = ''document'', lg_path = [], lg_pieces = []\<rparr>\<rparr>"
  have "logical_inv d [] s0"
    by (simp add: s0_def logical_inv_def logical_ok_def)
  then have inv: "logical_inv d (doc_blocks d) (fold logical_step (doc_blocks d) s0)"
    using logical_fold_inv by fastforce
  moreover have res: "logical_sections d = ls_result (flush_logical (fold logical_step (doc_blocks d) s0))"
    by (simp add: logical_sections_def s0_def)
  ultimately show "concat (map lg_pieces (logical_sections d)) = map block_piece (doc_blocks d)"
    by (auto simp: flush_logical_def logical_inv_def)
  show "list_all (logical_ok d) (logical_sections d)"
    using inv res by (auto simp: flush_logical_def logical_inv_def)
qed

lemma logical_pieces_ok:
  assumes "l \<in> set (logical_sections d)"
  shows "list_all piece_ok (lg_pieces l)" "set (lg_pieces l) \<subseteq> block_piece ` set (doc_blocks d)"
proof -
  have "set (lg_pieces l) \<subseteq> set (concat (map lg_pieces (logical_sections d)))"
    using assms by auto
  then show sub: "set (lg_pieces l) \<subseteq> block_piece ` set (doc_blocks d)"
    unfolding logical_sections_effect by simp
  show "list_all piece_ok (lg_pieces l)"
    using sub by (auto simp: list_all_iff)
qed

section \<open>What segmentation guarantees\<close>

lemma section_pieces_mem:
  "(l, ps) \<in> set (section_pieces d target) \<longleftrightarrow>
     l \<in> set (logical_sections d) \<and> ps \<in> set (pack_logical_section l target)"
  by (auto simp: section_pieces_def)

lemma document_sections_mem:
  assumes "s \<in> set (document_sections d target)"
  obtains n l ps where "s = make_section d l n ps" "l \<in> set (logical_sections d)"
    "ps \<in> set (pack_logical_section l target)"
  using assms unfolding document_sections_def
  by (auto simp: in_set_enumerate_eq) (metis nth_mem prod.collapse section_pieces_mem)

lemma document_sections_content:
  "map se_content (document_sections d target) = map content_of (map snd (section_pieces d target))"
proof -
  have "map se_content (document_sections d target) = map (content_of \<circ> snd \<circ> snd) (enumerate 0 (section_pieces d target))"
    by (simp add: document_sections_def make_section_def content_of_def Let_def case_prod_beta)
  also have "\<dots> = map (content_of \<circ> snd) (map snd (enumerate 0 (section_pieces d target)))"
    by (simp only: map_map comp_assoc)
  finally show ?thesis by (simp only: map_snd_enumerate map_map)
qed

text \<open>A successful segmentation, in terms of the sections of the document.\<close>

lemma segment_document_Inr:
  assumes "segment_document d options = Inr r"
  obtains target where "target = nat (nullish (so_target options) default_target)" "1 \<le> target"
    "sg_sections r = document_sections d target"
    "int target = nullish (so_target options) default_target"
    "sg_diagnostics r = map (oversized_diagnostic d (nullish (so_oversized options) default_oversized))
       (filter (\<lambda>s. nullish (so_oversized options) default_oversized < int (se_characters s)) (sg_sections r))"
    "int target \<le> nullish (so_oversized options) default_oversized"
  using assms by (auto simp: segment_document_def Let_def split: if_splits)

lemma nonws_content_of: "nonws (content_of ps) = nonws (concat (map pc_text ps))"
  by (simp add: content_of_def filter_join_ws)

lemma nonws_concat_concat:
  "nonws (concat (concat (map f ls))) = concat (map (\<lambda>l. nonws (concat (f l))) ls)"
  by (induction ls) simp_all

lemma nonws_concat_pieces:
  "concat (map (\<lambda>l. nonws (concat (map pc_text (g l)))) ls) = nonws (concat (map pc_text (concat (map g ls))))"
  by (induction ls) simp_all

lemma pack_section_text:
  assumes "1 \<le> target" "l \<in> set (logical_sections d)"
  shows "nonws (concat (map content_of (pack_logical_section l target)))
    = nonws (concat (map pc_text (lg_pieces l)))"
proof -
  have "nonws (concat (map content_of gs)) = nonws (concat (map pc_text (concat gs)))" for gs
    by (induction gs) (simp_all add: nonws_content_of)
  then show ?thesis
    using pack_logical_effect(3) [OF assms(1) logical_pieces_ok(1) [OF assms(2)]] by simp
qed

lemma segment_text:
  assumes "segment_document d options = Inr r"
  shows "nonws (concat (map se_content (sg_sections r))) = nonws (concat (map render_block (doc_blocks d)))"
proof -
  obtain target where t: "1 \<le> target" "sg_sections r = document_sections d target"
    using assms by (rule segment_document_Inr)
  have "nonws (concat (map se_content (sg_sections r)))
      = nonws (concat (concat (map (\<lambda>l. map content_of (pack_logical_section l target)) (logical_sections d))))"
    unfolding t(2) document_sections_content by (simp add: section_pieces_def map_concat comp_def)
  also have "\<dots> = concat (map (\<lambda>l. nonws (concat (map content_of (pack_logical_section l target)))) (logical_sections d))"
    by (rule nonws_concat_concat)
  also have "\<dots> = concat (map (\<lambda>l. nonws (concat (map pc_text (lg_pieces l)))) (logical_sections d))"
    using pack_section_text [OF t(1)] by (simp cong: map_cong)
  also have "\<dots> = nonws (concat (map pc_text (concat (map lg_pieces (logical_sections d)))))"
    by (rule nonws_concat_pieces)
  also have "\<dots> = nonws (concat (map render_block (doc_blocks d)))"
    by (simp add: logical_sections_effect block_piece_def Let_def comp_def)
  finally show ?thesis .
qed

text \<open>
  Property C1. Segmentation loses and invents nothing: read in order, the sections hold exactly
  the characters of the rendered blocks of the document, up to white space.
\<close>

theorem segment_preserves_text:
  assumes "segment_document d options = Inr r"
  shows "nonws (concat (map se_content (sg_sections r))) = nonws (concat (map render_block (doc_blocks d)))"
  by (rule segment_text [OF assms])

definition atomic_block :: "normalized_block \<Rightarrow> bool" where
  "atomic_block b \<longleftrightarrow> is_code (nb_body b) \<or> is_table (nb_body b) \<or> is_heading (nb_body b)"

lemma section_size_aux:
  assumes "segment_document d options = Inr r" "s \<in> set (sg_sections r)"
  shows "int (se_characters s) \<le> nullish (so_target options) default_target
       \<or> (\<exists>b \<in> set (doc_blocks d). atomic_block b \<and> se_content s = render_block b)"
proof -
  obtain target where t: "1 \<le> target" "sg_sections r = document_sections d target"
    "int target = nullish (so_target options) default_target"
    using assms(1) by (rule segment_document_Inr)
  obtain n l ps where s: "s = make_section d l n ps" and l: "l \<in> set (logical_sections d)"
    and ps: "ps \<in> set (pack_logical_section l target)"
    using assms(2) unfolding t(2) by (rule document_sections_mem)
  note eff = pack_logical_effect [OF t(1) logical_pieces_ok(1) [OF l]]
  have content: "se_content s = content_of ps"
    by (simp add: s make_section_def content_of_def Let_def)
  have fields: "se_characters s = length (se_content s)"
    by (simp_all add: s make_section_def Let_def)
  have "length (content_of ps) \<le> target \<or> (\<exists>b \<in> set (doc_blocks d). atomic_block b \<and> content_of ps = render_block b)"
  proof (cases "length (content_of ps) \<le> target")
    case False
    have "group_ok target ps"
      using eff(1) ps by (simp add: list_all_iff)
    then obtain p where p: "ps = [p]" "pc_atomic p"
      using False by (auto simp: group_ok_def)
    have "p \<in> set (concat (pack_logical_section l target))"
      using ps p by (auto intro: bexI [of _ "[p]"])
    then have "p \<in> set (lg_pieces l)"
      using eff(2) p(2) by blast
    then obtain b where b: "b \<in> set (doc_blocks d)" "p = block_piece b"
      using logical_pieces_ok(2) [OF l] by auto
    then have "atomic_block b" "content_of ps = render_block b"
      using p by (simp_all add: block_piece_def atomic_block_def Let_def)
    with b show ?thesis by blast
  qed simp
  then show ?thesis
    using fields content t(3) by auto
qed

text \<open>
  Property C2. No section exceeds the target size, except a section that is the rendering of a
  single code block, table or heading of the document; its character count, token estimate and
  hash are those of its content.
\<close>

theorem segment_size:
  assumes "segment_document d options = Inr r" "s \<in> set (sg_sections r)"
  shows "se_characters s = length (se_content s) \<and> 4 * se_tokens s \<in> {se_characters s..<se_characters s + 4}
    \<and> se_sha s = sha256 (se_content s)
    \<and> (int (se_characters s) \<le> nullish (so_target options) default_target
       \<or> (\<exists>b \<in> set (doc_blocks d). atomic_block b \<and> se_content s = render_block b))"
proof -
  obtain target where "sg_sections r = document_sections d target"
    using assms(1) by (rule segment_document_Inr)
  then obtain n l ps where s: "s = make_section d l n ps"
    using assms(2) document_sections_mem by metis
  have "se_characters s = length (se_content s)" "se_tokens s = (length (se_content s) + 3) div 4"
    "se_sha s = sha256 (se_content s)"
    by (simp_all add: s make_section_def Let_def)
  moreover from this have "4 * se_tokens s \<in> {se_characters s..<se_characters s + 4}"
    by (simp add: atLeastLessThan_iff) presburger
  ultimately show ?thesis
    using section_size_aux [OF assms] by blast
qed

subsection \<open>Slices\<close>

definition slice_ok :: "normalized_block list \<Rightarrow> block_slice \<Rightarrow> bool" where
  "slice_ok bs sl \<longleftrightarrow> (\<exists>b \<in> set bs. sl_block sl = nb_id b \<and> sl_start sl \<le> sl_end sl
     \<and> sl_end sl \<le> length (render_block b))"

abbreviation piece_slice :: "piece \<Rightarrow> block_slice" where
  "piece_slice p \<equiv> \<lparr>sl_block = pc_block p, sl_start = pc_start p, sl_end = pc_end p\<rparr>"

lemma slice_ok_extend:
  assumes "distinct (map nb_id bs)" "slice_ok bs sl" "slice_ok bs (piece_slice p)"
    and "sl_block sl = pc_block p" "sl_end sl = pc_start p"
  shows "slice_ok bs (sl\<lparr>sl_end := pc_end p\<rparr>)"
proof -
  obtain b where b: "b \<in> set bs" "sl_block sl = nb_id b" "sl_start sl \<le> sl_end sl"
    using assms(2) by (auto simp: slice_ok_def)
  obtain c where c: "c \<in> set bs" "pc_block p = nb_id c" "pc_start p \<le> pc_end p" "pc_end p \<le> length (render_block c)"
    using assms(3) by (auto simp: slice_ok_def)
  have "b = c"
    using assms(1,4) b c by (auto simp: distinct_map inj_on_def)
  with b c assms(5) show ?thesis by (auto simp: slice_ok_def)
qed

lemma merge_onto_nonempty: "slices \<noteq> [] \<Longrightarrow> merge_onto slices ps \<noteq> []"
  by (induction slices ps rule: merge_onto.induct) auto

lemma merge_onto_ok:
  assumes "distinct (map nb_id bs)" "list_all (slice_ok bs) slices" "list_all (\<lambda>p. slice_ok bs (piece_slice p)) ps"
  shows "list_all (slice_ok bs) (merge_onto slices ps)"
  using assms(2,3)
proof (induction slices ps rule: merge_onto.induct)
  case (2 slices p ps)
  show ?case
  proof (cases "slices \<noteq> [] \<and> sl_block (last slices) = pc_block p \<and> sl_end (last slices) = pc_start p")
    case True
    then obtain us u where us: "slices = us @ [u]"
      by (cases slices rule: rev_cases) auto
    then have "slice_ok bs (u\<lparr>sl_end := pc_end p\<rparr>)"
      using True "2.prems" by (intro slice_ok_extend [OF assms(1)]) auto
    with True us "2.prems" "2.IH"(1) show ?thesis by simp
  next
    case False
    then have step: "merge_onto slices (p # ps) = merge_onto (slices @ [piece_slice p]) ps"
      by (simp only: merge_onto.simps if_False)
    show ?thesis
      unfolding step using "2.IH"(2) [OF False] "2.prems" by simp
  qed
qed simp

text \<open>
  Property C4. Every slice of a section names a block of the document and a range inside the
  rendering of that block, also after adjacent slices are merged.
\<close>

theorem segment_slices:
  assumes "segment_document d options = Inr r" "s \<in> set (sg_sections r)"
    and "distinct (map nb_id (doc_blocks d))"
  shows "list_all (slice_ok (doc_blocks d)) (se_slices s)"
proof -
  obtain target where t: "1 \<le> target" "sg_sections r = document_sections d target"
    using assms(1) by (rule segment_document_Inr)
  obtain n l ps where s: "s = make_section d l n ps" and l: "l \<in> set (logical_sections d)"
    and ps: "ps \<in> set (pack_logical_section l target)"
    using assms(2) unfolding t(2) by (rule document_sections_mem)
  note eff = pack_logical_effect [OF t(1) logical_pieces_ok(1) [OF l]]
  have "slice_ok (doc_blocks d) (piece_slice q)" if "q \<in> set ps" for q
  proof -
    have "q \<in> set (concat (pack_logical_section l target))"
      using that ps by auto
    then obtain p where p: "p \<in> set (lg_pieces l)" "part_of q p"
      using eff(2) by blast
    then obtain b where b: "b \<in> set (doc_blocks d)" "p = block_piece b"
      using logical_pieces_ok(2) [OF l] by auto
    with p(2) show ?thesis
      by (auto simp: slice_ok_def part_of_def block_piece_def Let_def)
  qed
  then have "list_all (slice_ok (doc_blocks d)) (merge_slices ps)"
    unfolding merge_slices_def using assms(3) by (intro merge_onto_ok) (auto simp: list_all_iff)
  then show ?thesis by (simp add: s make_section_def Let_def)
qed

subsection \<open>Order and headings\<close>

text \<open>
  The sections are numbered from zero in document order, carry the identity of
  the document, an identifier of fixed length, and a heading path whose levels strictly
  increase and whose last heading gives the title and anchor (those of the document before the
  first heading).
\<close>

theorem segment_structure:
  assumes "segment_document d options = Inr r"
  shows "map se_ordinal (sg_sections r) = [0..<length (sg_sections r)]
    \<and> list_all (\<lambda>s. se_document s = doc_id d \<and> length (se_id s) = 32 \<and> se_slices s \<noteq> []
        \<and> sorted_wrt (\<lambda>i j. hp_level i < hp_level j) (se_path s)
        \<and> (if se_path s = [] then se_title s = doc_title d \<and> se_anchor s = ''document''
           else se_title s = hp_text (last (se_path s)) \<and> se_anchor s = hp_anchor (last (se_path s))))
      (sg_sections r)"
proof
  obtain target where t: "1 \<le> target" "sg_sections r = document_sections d target"
    using assms by (rule segment_document_Inr)
  have "map se_ordinal (document_sections d target) = map fst (enumerate 0 (section_pieces d target))"
    unfolding document_sections_def map_map
    by (intro map_cong refl) (auto simp: make_section_def Let_def)
  also have "\<dots> = [0..<length (document_sections d target)]"
    by (simp add: document_sections_def)
  finally show "map se_ordinal (sg_sections r) = [0..<length (sg_sections r)]"
    unfolding t(2) .
  show "list_all (\<lambda>s. se_document s = doc_id d \<and> length (se_id s) = 32 \<and> se_slices s \<noteq> []
        \<and> sorted_wrt (\<lambda>i j. hp_level i < hp_level j) (se_path s)
        \<and> (if se_path s = [] then se_title s = doc_title d \<and> se_anchor s = ''document''
           else se_title s = hp_text (last (se_path s)) \<and> se_anchor s = hp_anchor (last (se_path s))))
      (sg_sections r)"
    unfolding list_all_iff
  proof
    fix s assume "s \<in> set (sg_sections r)"
    then obtain n l ps where s: "s = make_section d l n ps" and l: "l \<in> set (logical_sections d)"
      and ps: "ps \<in> set (pack_logical_section l target)"
      unfolding t(2) by (rule document_sections_mem)
    have "group_ok target ps"
      using pack_logical_effect(1) [OF t(1) logical_pieces_ok(1) [OF l]] ps by (simp add: list_all_iff)
    then have "merge_slices ps \<noteq> []"
      by (cases ps) (simp_all add: group_ok_def merge_slices_def merge_onto_nonempty)
    moreover have "logical_ok d l"
      using logical_sections_effect(2) l by (simp add: list_all_iff)
    moreover have "length (se_id s) = 32"
      using sha.short_id_length [of 24 "''section_''"] by (simp add: s make_section_def Let_def)
    ultimately show "se_document s = doc_id d \<and> length (se_id s) = 32 \<and> se_slices s \<noteq> []
        \<and> sorted_wrt (\<lambda>i j. hp_level i < hp_level j) (se_path s)
        \<and> (if se_path s = [] then se_title s = doc_title d \<and> se_anchor s = ''document''
           else se_title s = hp_text (last (se_path s)) \<and> se_anchor s = hp_anchor (last (se_path s)))"
      by (simp add: s make_section_def logical_ok_def Let_def)
  qed
qed

subsection \<open>Errors and diagnostics\<close>

text \<open>
  Segmentation fails exactly for a target that is not a positive safe integer or
  an oversize limit that is not a safe integer of at least the target, whatever the document;
  with the defaults it always succeeds.
\<close>

theorem segment_errors:
  "(let t = nullish (so_target options) 4000; m = nullish (so_oversized options) 8000;
        bad_target = (t < 1 \<or> 2 ^ 53 \<le> t); bad_limit = (m < t \<or> 2 ^ 53 \<le> m)
    in if bad_target then segment_document d options = Inl (TypeError ''targetCharacters must be a positive integer.'')
       else if bad_limit then segment_document d options =
         Inl (TypeError ''oversizedCharacters must be an integer greater than or equal to targetCharacters.'')
       else \<exists>r. segment_document d options = Inr r)"
  by (auto simp: segment_document_def default_target_def default_oversized_def safe_integer_def Let_def)

text \<open>
  The diagnostics are one warning for each section above the oversize limit, in
  the order of the sections, and each such section is the rendering of a single code block,
  table or heading.
\<close>

theorem segment_oversized:
  assumes "segment_document d options = Inr r"
  shows "map dg_section (sg_diagnostics r) = map (Some \<circ> se_id)
      (filter (\<lambda>s. nullish (so_oversized options) 8000 < int (se_characters s)) (sg_sections r))
    \<and> list_all (\<lambda>s. if nullish (so_oversized options) 8000 < int (se_characters s)
         then \<exists>b \<in> set (doc_blocks d). atomic_block b \<and> se_content s = render_block b else True) (sg_sections r)"
proof
  obtain target where t: "1 \<le> target" "sg_sections r = document_sections d target"
    "int target = nullish (so_target options) default_target"
    "sg_diagnostics r = map (oversized_diagnostic d (nullish (so_oversized options) default_oversized))
       (filter (\<lambda>s. nullish (so_oversized options) default_oversized < int (se_characters s)) (sg_sections r))"
    "int target \<le> nullish (so_oversized options) default_oversized"
    using assms by (rule segment_document_Inr)
  show "map dg_section (sg_diagnostics r) = map (Some \<circ> se_id)
      (filter (\<lambda>s. nullish (so_oversized options) 8000 < int (se_characters s)) (sg_sections r))"
    unfolding t(4) by (simp add: oversized_diagnostic_def default_oversized_def)
  show "list_all (\<lambda>s. if nullish (so_oversized options) 8000 < int (se_characters s)
         then \<exists>b \<in> set (doc_blocks d). atomic_block b \<and> se_content s = render_block b else True) (sg_sections r)"
    using section_size_aux [OF assms] t(3,5) by (force simp: list_all_iff default_oversized_def)
qed

subsection \<open>A concrete document\<close>

definition sample_block :: "nat \<Rightarrow> string block_body \<Rightarrow> normalized_block" where
  "sample_block n body =
     \<lparr>nb_id = ''b'' @ nat_str n, nb_ordinal = n,
      nb_range = \<lparr>sr_start = 0, sr_end = 0, sr_start_line = 1, sr_end_line = 1\<rparr>,
      nb_sha = [], nb_body = body\<rparr>"

definition sample_document :: document where
  "sample_document =
     \<lparr>doc_id = ''document_1'', doc_title = ''Guide'', doc_format = Markdown, doc_kind = DocumentationKind,
      doc_source = \<lparr>li_source_id = ''s'', li_url = ''https://a.test/'', li_content_type = ''text/markdown'',
        li_source_kind = None, li_snapshot = None, li_fetched_at = None, ln_raw_sha = []\<rparr>,
      doc_sha = [],
      doc_blocks = [sample_block 0 (Heading 1 ''Introduction'' ''introduction'' []),
                    sample_block 1 (Paragraph ''One two. Three four'' [])],
      doc_diagnostics = []\<rparr>"

definition sample_options :: segmentation_options where
  "sample_options = \<lparr>so_target = Some 9, so_oversized = Some 9\<rparr>"

lemma sample_pieces:
  "map (\<lambda>(l, ps). (lg_title l, map (\<lambda>p. (pc_text p, pc_start p)) ps)) (section_pieces sample_document 9) =
     [(''Introduction'', [(''# Introduction'', 0)]), (''Introduction'', [(''One two.'', 0)]),
      (''Introduction'', [(''Three'', 9)]), (''Introduction'', [(''four'', 15)])]"
  by code_simp

lemma sample_segmented:
  "\<exists>r. segment_document sample_document sample_options = Inr r
     \<and> sg_sections r = document_sections sample_document 9"
  by (simp add: segment_document_def sample_options_def safe_integer_def Let_def)

lemma sample_sections:
  "map se_content (document_sections sample_document 9) = [''# Introduction'', ''One two.'', ''Three'', ''four'']"
proof -
  have "map snd (section_pieces sample_document 9) = map snd (section_pieces sample_document 9)" ..
  have "map content_of (map snd (section_pieces sample_document 9))
      = map (\<lambda>(t, ps). join [newline, newline] (map fst ps))
          (map (\<lambda>(l, ps). (lg_title l, map (\<lambda>p. (pc_text p, pc_start p)) ps)) (section_pieces sample_document 9))"
    by (simp add: content_of_def case_prod_beta comp_def)
  then show ?thesis
    unfolding document_sections_content sample_pieces by simp
qed

lemma sample_section:
  "\<exists>r s. segment_document sample_document sample_options = Inr r \<and> s \<in> set (sg_sections r)
     \<and> se_content s = ''# Introduction''"
proof -
  obtain r where r: "segment_document sample_document sample_options = Inr r"
    "sg_sections r = document_sections sample_document 9"
    using sample_segmented by blast
  have "''# Introduction'' \<in> set (map se_content (sg_sections r))"
    unfolding r(2) sample_sections by simp
  with r show ?thesis by auto
qed

lemma segment_preserves_text_witness:
  "\<exists>r. segment_document sample_document sample_options = Inr r
     \<and> nonws (concat (map se_content (sg_sections r))) = nonws (concat (map render_block (doc_blocks sample_document)))"
  using sample_segmented segment_preserves_text [of sample_document sample_options] by blast

lemma segment_size_witness:
  "\<exists>r s. segment_document sample_document sample_options = Inr r \<and> s \<in> set (sg_sections r)
     \<and> se_content s = ''# Introduction''
     \<and> (\<exists>b \<in> set (doc_blocks sample_document). atomic_block b \<and> se_content s = render_block b)"
proof -
  obtain r s where rs: "segment_document sample_document sample_options = Inr r" "s \<in> set (sg_sections r)"
    "se_content s = ''# Introduction''"
    using sample_section by blast
  then have "\<not> int (se_characters s) \<le> nullish (so_target sample_options) default_target"
    using segment_size [OF rs(1,2)] by (simp add: sample_options_def)
  then show ?thesis
    using rs segment_size [OF rs(1,2)] by blast
qed

lemma segment_slices_witness:
  "\<exists>r s. segment_document sample_document sample_options = Inr r \<and> s \<in> set (sg_sections r)
     \<and> list_all (slice_ok (doc_blocks sample_document)) (se_slices s)"
proof -
  obtain r s where rs: "segment_document sample_document sample_options = Inr r" "s \<in> set (sg_sections r)"
    using sample_section by blast
  moreover have "distinct (map nb_id (doc_blocks sample_document))"
    by (simp add: sample_document_def sample_block_def)
  ultimately show ?thesis
    using segment_slices by blast
qed

lemma segment_structure_witness:
  "\<exists>r. segment_document sample_document sample_options = Inr r
     \<and> map se_ordinal (sg_sections r) = [0..<length (sg_sections r)]"
  using sample_segmented segment_structure [of sample_document sample_options] by blast

text \<open>A heading alone can keep a section above the oversize limit: the warning
  about an indivisible code block or table is then issued for a document that has neither.\<close>

theorem oversized_heading:
  "\<exists>r. segment_document sample_document sample_options = Inr r
     \<and> list_all (\<lambda>b. \<not> is_code (nb_body b) \<and> \<not> is_table (nb_body b)) (doc_blocks sample_document)
     \<and> map dg_message (sg_diagnostics r) =
       [''An indivisible code block or table keeps this section above the configured review size.'']"
proof -
  obtain r where r: "segment_document sample_document sample_options = Inr r"
    "sg_sections r = document_sections sample_document 9"
    using sample_segmented by blast
  have chars: "map se_characters (document_sections sample_document 9) = map length (map se_content (document_sections sample_document 9))"
    unfolding document_sections_def map_map by (intro map_cong refl) (auto simp: make_section_def Let_def)
  have "map dg_message (sg_diagnostics r) = map (\<lambda>_. ''An indivisible code block or table keeps this section above the configured review size.'')
      (filter (\<lambda>n. 9 < n) (map se_characters (sg_sections r)))"
    using r(1) by (auto simp: segment_document_def sample_options_def safe_integer_def Let_def
        oversized_diagnostic_def filter_map comp_def)
  also have "filter (\<lambda>n. 9 < n) (map se_characters (sg_sections r)) = [14]"
    unfolding r(2) chars sample_sections by simp
  finally show ?thesis
    using r(1) by (simp add: sample_document_def sample_block_def)
qed

lemma segment_oversized_witness:
  "\<exists>r s. segment_document sample_document sample_options = Inr r \<and> s \<in> set (sg_sections r)
     \<and> 9 < se_characters s
     \<and> map dg_section (sg_diagnostics r) =
         map (Some \<circ> se_id) (filter (\<lambda>s. 9 < int (se_characters s)) (sg_sections r))"
proof -
  obtain r s where rs: "segment_document sample_document sample_options = Inr r" "s \<in> set (sg_sections r)"
    "se_content s = ''# Introduction''"
    using sample_section by blast
  obtain t where "sg_sections r = document_sections sample_document t"
    using segment_document_Inr [OF rs(1)] by blast
  then have "se_characters s = 14"
    using rs(2,3) by (auto elim!: document_sections_mem simp: make_section_def Let_def)
  then show ?thesis
    using rs segment_oversized [OF rs(1)] by (intro exI [of _ r] exI [of _ s]) (simp add: sample_options_def)
qed

end
