(* ===== verification/Quality.thy ===== *)
theory Quality
  imports Segment
begin

text \<open>
  \<^verbatim>\<open>crawler/ingestion/quality.ts\<close>: the corpus-wide diagnostics for duplicated documents and for
  documents dominated by boilerplate.
\<close>

definition document_fingerprint :: "document \<Rightarrow> string" where
  "document_fingerprint d =
     sha256 (canonical_json (JArr (map (\<lambda>b. JObj
       [(''type'', JStr (body_type (nb_body b))), (''contentSha256'', JStr (nb_sha b))]) (doc_blocks d))))"

definition diagnostic_order :: "diagnostic \<Rightarrow> diagnostic \<Rightarrow> int" where
  "diagnostic_order l r =
     cmp_or (compare_text (nullish (dg_document l) []) (nullish (dg_document r) []))
       (cmp_or (compare_text (nullish (dg_section l) []) (nullish (dg_section r) []))
         (compare_text (code_text (dg_code l)) (code_text (dg_code r))))"

definition document_order :: "document \<Rightarrow> document \<Rightarrow> int" where
  "document_order l r =
     cmp_or (compare_text (li_url (doc_source l)) (li_url (doc_source r))) (compare_text (doc_id l) (doc_id r))"

definition duplicate_diagnostic :: "document \<Rightarrow> document \<Rightarrow> diagnostic" where
  "duplicate_diagnostic canonical duplicate =
     \<lparr>dg_code = DocumentDuplicate, dg_severity = Warning, dg_scope = DocumentScope,
      dg_message = ''This document has the same normalized block content as another source document.'',
      dg_document = Some (doc_id duplicate), dg_section = None,
      dg_evidence = Some [doc_id canonical, doc_id duplicate],
      dg_details = Some [(''canonicalDocumentId'', JStr (doc_id canonical))]\<rparr>"

text \<open>The duplicates of each group of documents with one fingerprint: all but the first.\<close>

fun group_duplicates :: "document list \<Rightarrow> (document \<times> document) list" where
  "group_duplicates [] = []"
| "group_duplicates (canonical # rest) = map (\<lambda>d. (canonical, d)) rest"

definition duplicates :: "document list \<Rightarrow> (document \<times> document) list" where
  "duplicates documents =
     concat (map (\<lambda>(k, g). group_duplicates g)
       (group_by document_fingerprint (js_sort document_order documents)))"

definition prose_block :: "normalized_block \<Rightarrow> bool" where
  "prose_block b \<longleftrightarrow> \<not> is_heading (nb_body b) \<and> \<not> is_code (nb_body b)"

definition characters :: "normalized_block \<Rightarrow> nat" where
  "characters b = length (block_plain_text b)"

text \<open>
  The owners of each block content (a set of document ids, as a list without repetition) and
  its number of characters, over the prose blocks of at least 40 characters.
\<close>

definition tracked_blocks :: "document list \<Rightarrow> (document \<times> normalized_block) list" where
  "tracked_blocks documents =
     concat (map (\<lambda>d. map (\<lambda>b. (d, b))
       (filter (\<lambda>b. prose_block b \<and> \<not> characters b < 40) (doc_blocks d))) documents)"

definition block_documents :: "document list \<Rightarrow> (string \<times> string list) list" where
  "block_documents documents =
     fold (\<lambda>(d, b) m. let owners = nullish (jm_get m (nb_sha b)) []
        in jm_set (nb_sha b) (if doc_id d \<in> set owners then owners else owners @ [doc_id d]) m)
       (tracked_blocks documents) []"

definition block_characters :: "document list \<Rightarrow> (string \<times> nat) list" where
  "block_characters documents =
     fold (\<lambda>(d, b) m. jm_set (nb_sha b) (characters b) m) (tracked_blocks documents) []"

text \<open>\<^verbatim>\<open>Math.max(2, Math.ceil(n * 0.6))\<close>; the product is a whole number exactly when five divides n.\<close>

definition boilerplate_threshold :: "nat \<Rightarrow> nat" where
  "boilerplate_threshold n = max 2 ((3 * n + 4) div 5)"

definition common_blocks :: "document list \<Rightarrow> string list" where
  "common_blocks documents =
     map fst (filter (\<lambda>(sha, owners). boilerplate_threshold (length documents) \<le> length owners)
       (block_documents documents))"

definition total_characters :: "document \<Rightarrow> nat" where
  "total_characters d = sum_list (map characters (filter prose_block (doc_blocks d)))"

definition repeated_characters :: "document list \<Rightarrow> document \<Rightarrow> nat" where
  "repeated_characters documents d =
     sum_list (map (\<lambda>b. if nb_sha b \<in> set (common_blocks documents)
         then nullish (jm_get (block_characters documents) (nb_sha b)) 0 else 0)
       (filter prose_block (doc_blocks d)))"

definition boilerplate_diagnostic :: "document list \<Rightarrow> document \<Rightarrow> diagnostic" where
  "boilerplate_diagnostic documents d =
     \<lparr>dg_code = DocumentBoilerplate, dg_severity = Warning, dg_scope = DocumentScope,
      dg_message = ''Repeated corpus-wide prose dominates this document and should be reviewed as possible boilerplate.'',
      dg_document = Some (doc_id d), dg_section = None, dg_evidence = Some [doc_id d],
      dg_details = Some [(''repeatedCharacters'', JNum (int (repeated_characters documents d))),
                         (''totalCharacters'', JNum (int (total_characters d)))]\<rparr>"

definition is_boilerplate :: "document list \<Rightarrow> document \<Rightarrow> bool" where
  "is_boilerplate documents d \<longleftrightarrow>
     doc_id d \<notin> (doc_id \<circ> snd) ` set (duplicates documents)
     \<and> 0 < total_characters d \<and> total_characters d \<le> 2 * repeated_characters documents d"

definition collected_diagnostics :: "document list \<Rightarrow> diagnostic list \<Rightarrow> diagnostic list" where
  "collected_diagnostics documents additional =
     concat (map doc_diagnostics documents) @ additional
     @ map (\<lambda>(c, d). duplicate_diagnostic c d) (duplicates documents)
     @ (if 2 \<le> length documents
        then map (boilerplate_diagnostic documents) (filter (is_boilerplate documents) documents) else [])"

text \<open>\<^verbatim>\<open>!diagnostic.sectionId || knownSections.has(diagnostic.sectionId)\<close>.\<close>

definition known_section :: "doc_section list \<Rightarrow> diagnostic \<Rightarrow> bool" where
  "known_section sections g \<longleftrightarrow>
     (case dg_section g of None \<Rightarrow> True | Some s \<Rightarrow> s = [] \<or> s \<in> se_id ` set sections)"

definition assess_corpus_quality ::
    "document list \<Rightarrow> doc_section list \<Rightarrow> diagnostic list \<Rightarrow> diagnostic list" where
  "assess_corpus_quality documents sections additional =
     js_sort diagnostic_order (filter (known_section sections) (collected_diagnostics documents additional))"

section \<open>Orders\<close>

lemma diagnostic_order_by:
  "diagnostic_order = cmp_by (\<lambda>g. (nullish (dg_document g) [], nullish (dg_section g) [], code_text (dg_code g)))"
  by (intro ext) (auto simp: diagnostic_order_def compare_text_def cmp_or_def cmp_by_def)

lemma document_order_by: "document_order = cmp_by (\<lambda>d. (li_url (doc_source d), doc_id d))"
  by (intro ext) (auto simp: document_order_def compare_text_def cmp_or_def cmp_by_def)

interpretation doc_order: keyed_comparator document_order "\<lambda>d. (li_url (doc_source d), doc_id d)"
  unfolding document_order_by by (rule keyed_comparator_cmp_by)

interpretation diag_order: keyed_comparator diagnostic_order
  "\<lambda>g. (nullish (dg_document g) [], nullish (dg_section g) [], code_text (dg_code g))"
  unfolding diagnostic_order_by by (rule keyed_comparator_cmp_by)

section \<open>Results\<close>

text \<open>
  The report is sorted by document, section and code, and holds exactly the
  collected diagnostics whose section, if they name one, is a section of the corpus.
\<close>

theorem quality_report:
  "mset (assess_corpus_quality documents sections additional)
     = mset (filter (known_section sections) (collected_diagnostics documents additional))
   \<and> sorted_wrt (\<lambda>g h. (nullish (dg_document g) [], nullish (dg_section g) [], code_text (dg_code g))
        \<le> (nullish (dg_document h) [], nullish (dg_section h) [], code_text (dg_code h)))
      (assess_corpus_quality documents sections additional)
   \<and> list_all (known_section sections) (assess_corpus_quality documents sections additional)"
  using diag_order.sort_sorted [of "filter (known_section sections) (collected_diagnostics documents additional)"]
  by (simp add: assess_corpus_quality_def diagnostic_order_by cmp_by_le list_all_iff)

subsection \<open>Duplicates\<close>

text \<open>The first document of each content, in the order of URL and identity.\<close>

definition first_with_content :: "document list \<Rightarrow> document \<Rightarrow> document" where
  "first_with_content documents d =
     hd (filter (\<lambda>e. document_fingerprint e = document_fingerprint d) (js_sort document_order documents))"

lemma first_with_content_least:
  assumes "d \<in> set documents"
  shows "first_with_content documents d \<in> set documents"
    and "document_fingerprint (first_with_content documents d) = document_fingerprint d"
    and "\<And>e. e \<in> set documents \<Longrightarrow> document_fingerprint e = document_fingerprint d \<Longrightarrow>
      document_order (first_with_content documents d) e \<le> 0"
proof -
  define g where "g = filter (\<lambda>e. document_fingerprint e = document_fingerprint d) (js_sort document_order documents)"
  have d: "d \<in> set g"
    using assms by (simp add: g_def)
  then obtain h t where g: "g = h # t"
    by (cases g) auto
  have h: "first_with_content documents d = h"
    by (simp add: first_with_content_def g flip: g_def)
  have "h \<in> set g" by (simp add: g)
  then show "first_with_content documents d \<in> set documents"
    "document_fingerprint (first_with_content documents d) = document_fingerprint d"
    unfolding h by (auto simp: g_def)
  have "sorted_wrt (\<lambda>x y. document_order x y \<le> 0) g"
    unfolding g_def by (intro sorted_wrt_filter doc_order.sort_sorted)
  moreover fix e assume "e \<in> set documents" "document_fingerprint e = document_fingerprint d"
  then have "e \<in> set g"
    by (simp add: g_def)
  ultimately show "document_order (first_with_content documents d) e \<le> 0"
    unfolding h g by (auto simp: document_order_by cmp_by_le)
qed

lemma group_duplicates_mem:
  "(c, d) \<in> set (group_duplicates g) \<longleftrightarrow> g \<noteq> [] \<and> c = hd g \<and> d \<in> set (tl g)"
  by (cases g) auto

lemma duplicates_mem:
  assumes "distinct documents"
  shows "(c, d) \<in> set (duplicates documents) \<longleftrightarrow>
    d \<in> set documents \<and> c = first_with_content documents d \<and> d \<noteq> c"
proof -
  define s where "s = js_sort document_order documents"
  have s: "distinct s" "set s = set documents"
    using assms by (simp_all add: s_def)
  define g where "g k = filter (\<lambda>x. document_fingerprint x = k) s" for k
  have dg: "distinct (g k)" for k
    using s by (simp add: g_def)
  have tl: "x \<in> set (tl (g k)) \<longleftrightarrow> x \<in> set (g k) \<and> x \<noteq> hd (g k)" for x k
    using dg [of k] by (cases "g k") auto
  have first: "first_with_content documents d = hd (g (document_fingerprint d))"
    by (simp add: first_with_content_def g_def s_def)
  have "(c, d) \<in> set (duplicates documents) \<longleftrightarrow>
      (\<exists>k \<in> document_fingerprint ` set s. g k \<noteq> [] \<and> c = hd (g k) \<and> d \<in> set (tl (g k)))"
    by (auto simp: duplicates_def group_by_eq group_duplicates_mem s_def g_def)
  also have "\<dots> \<longleftrightarrow> d \<in> set documents \<and> c = hd (g (document_fingerprint d)) \<and> d \<noteq> c"
    unfolding tl using s(2) by (auto simp: g_def filter_empty_conv intro!: bexI [of _ d])
  finally show ?thesis
    using first by auto
qed

text \<open>
  A document is reported as a duplicate exactly when another document of the
  corpus has the same block content and comes before it by URL and identity; the canonical
  document it names is the first of them, and is itself never reported.
\<close>

theorem duplicates_exact:
  assumes "distinct (map (\<lambda>d. (li_url (doc_source d), doc_id d)) documents)"
  shows "set (duplicates documents) = {(c, d). c \<in> set documents \<and> d \<in> set documents \<and> c \<noteq> d
      \<and> document_fingerprint c = document_fingerprint d
      \<and> (\<forall>e. e \<in> set documents \<and> document_fingerprint e = document_fingerprint d \<longrightarrow>
           (li_url (doc_source c), doc_id c) \<le> (li_url (doc_source e), doc_id e))}"
proof (intro set_eqI)
  fix p :: "document \<times> document"
  obtain c d where p: "p = (c, d)" by (cases p)
  have dist: "distinct documents" and inj: "inj_on (\<lambda>d. (li_url (doc_source d), doc_id d)) (set documents)"
    using assms by (simp_all add: distinct_map)
  have le: "document_order x y \<le> 0 \<longleftrightarrow> (li_url (doc_source x), doc_id x) \<le> (li_url (doc_source y), doc_id y)" for x y
    by (simp add: document_order_by cmp_by_le)
  have "c = first_with_content documents d \<longleftrightarrow> c \<in> set documents
      \<and> document_fingerprint c = document_fingerprint d
      \<and> (\<forall>e. e \<in> set documents \<and> document_fingerprint e = document_fingerprint d \<longrightarrow>
           (li_url (doc_source c), doc_id c) \<le> (li_url (doc_source e), doc_id e))" (is "?L \<longleftrightarrow> ?R")
    if d: "d \<in> set documents"
  proof
    assume ?L then show ?R
      using first_with_content_least [OF d] le by metis
  next
    assume R: ?R
    let ?f = "first_with_content documents d"
    have "(li_url (doc_source c), doc_id c) = (li_url (doc_source ?f), doc_id ?f)"
      using R first_with_content_least [OF d] le by (intro order_antisym) metis+
    then show ?L
      using R first_with_content_least(1) [OF d] inj by (metis (no_types, lifting) inj_on_def)
  qed
  then show "p \<in> set (duplicates documents) \<longleftrightarrow> p \<in> {(c, d). c \<in> set documents \<and> d \<in> set documents \<and> c \<noteq> d
      \<and> document_fingerprint c = document_fingerprint d
      \<and> (\<forall>e. e \<in> set documents \<and> document_fingerprint e = document_fingerprint d \<longrightarrow>
           (li_url (doc_source c), doc_id c) \<le> (li_url (doc_source e), doc_id e))}"
    unfolding p duplicates_mem [OF dist] by blast
qed

lemma duplicates_exact_witness:
  "(sample_document, sample_document\<lparr>doc_id := ''document_2''\<rparr>)
     \<in> set (duplicates [sample_document, sample_document\<lparr>doc_id := ''document_2''\<rparr>])"
proof -
  define d where "d = sample_document"
  define e where "e = sample_document\<lparr>doc_id := ''document_2''\<rparr>"
  have src: "doc_source e = doc_source d"
    by (simp add: d_def e_def sample_document_def)
  have fp: "document_fingerprint e = document_fingerprint d"
    by (simp add: document_fingerprint_def d_def e_def)
  have lt: "doc_id d < doc_id e"
    by (simp add: d_def e_def sample_document_def less_char_def)
  have ne: "d \<noteq> e"
    using lt by auto
  have dist: "distinct (map (\<lambda>d. (li_url (doc_source d), doc_id d)) [d, e])"
    using lt by auto
  have "(d, e) \<in> set (duplicates [d, e])"
    unfolding duplicates_exact [OF dist] using lt ne fp src by auto
  then show ?thesis
    by (simp only: d_def e_def)
qed

subsection \<open>Boilerplate\<close>

definition owner_step :: "document \<times> normalized_block \<Rightarrow> (string \<times> string list) list \<Rightarrow> (string \<times> string list) list" where
  "owner_step = (\<lambda>(d, b) m. let owners = nullish (jm_get m (nb_sha b)) []
     in jm_set (nb_sha b) (if doc_id d \<in> set owners then owners else owners @ [doc_id d]) m)"

lemma owners_fold:
  "distinct (map fst (fold owner_step xs []))"
  "jm_get (fold owner_step xs []) k =
     (if k \<in> (\<lambda>x. nb_sha (snd x)) ` set xs
      then Some (dedup (map (\<lambda>x. doc_id (fst x)) (filter (\<lambda>x. nb_sha (snd x) = k) xs))) else None)"
proof (induction xs arbitrary: k rule: rev_induct)
  case (snoc x xs)
  obtain d b where x: "x = (d, b)" by (cases x)
  {
    case 1
    show ?case
      using snoc(1) by (simp add: owner_step_def x Let_def distinct_update)
  next
    case 2
    have new: "nb_sha b \<notin> (\<lambda>x. nb_sha (snd x)) ` set xs \<Longrightarrow> filter (\<lambda>x. nb_sha (snd x) = nb_sha b) xs = []"
      by (auto simp: filter_empty_conv) (metis image_eqI snd_conv)
    have old: "nullish (jm_get (fold owner_step xs []) (nb_sha b)) []
        = dedup (map (\<lambda>x. doc_id (fst x)) (filter (\<lambda>x. nb_sha (snd x) = nb_sha b) xs))"
      using snoc(2) [of "nb_sha b"] new by simp
    show ?case
      using snoc(2) [of k] old by (auto simp: owner_step_def x Let_def update_conv' dedup_snoc)
  }
qed simp_all

definition owners_of :: "document list \<Rightarrow> string \<Rightarrow> string set" where
  "owners_of documents sha = doc_id ` {d \<in> set documents. \<exists>b \<in> set (doc_blocks d).
     prose_block b \<and> 40 \<le> characters b \<and> nb_sha b = sha}"

lemma block_documents_get:
  "jm_get (block_documents documents) sha = Some owners \<Longrightarrow> distinct owners \<and> set owners = owners_of documents sha"
  "jm_get (block_documents documents) sha = None \<Longrightarrow> owners_of documents sha = {}"
proof -
  have bd: "block_documents documents = fold owner_step (tracked_blocks documents) []"
    by (simp add: block_documents_def owner_step_def)
  have tracked: "set (tracked_blocks documents) =
      {(d, b). d \<in> set documents \<and> b \<in> set (doc_blocks d) \<and> prose_block b \<and> 40 \<le> characters b}"
    by (auto simp: tracked_blocks_def)
  have owners: "owners_of documents sha =
      (\<lambda>x. doc_id (fst x)) ` {x \<in> set (tracked_blocks documents). nb_sha (snd x) = sha}"
    unfolding tracked owners_of_def by force
  show "jm_get (block_documents documents) sha = Some owners \<Longrightarrow> distinct owners \<and> set owners = owners_of documents sha"
    unfolding bd owners_fold(2) owners by (simp split: if_splits) (metis distinct_dedup set_dedup set_filter set_map)
  show "jm_get (block_documents documents) sha = None \<Longrightarrow> owners_of documents sha = {}"
    unfolding bd owners_fold(2) owners by (simp split: if_splits) force
qed

text \<open>
  A block content counts as common exactly when prose blocks of at least 40
  characters with it occur in at least the threshold number of different documents, which is at
  least two and the least number that is 60 percent of the corpus or more.
\<close>

theorem common_blocks_exact:
  "let t = boilerplate_threshold (length documents) in
     set (common_blocks documents) = {sha. t \<le> card (owners_of documents sha)}
     \<and> 2 \<le> t \<and> 3 * length documents \<le> 5 * t \<and> (t = 2 \<or> 5 * (t - 1) < 3 * length documents)"
proof -
  define t where "t = boilerplate_threshold (length documents)"
  have pos: "2 \<le> t" "3 * length documents \<le> 5 * t" "t = 2 \<or> 5 * (t - 1) < 3 * length documents"
    unfolding t_def boilerplate_threshold_def by linarith+
  have dist: "distinct (map fst (block_documents documents))"
    using owners_fold(1) by (simp add: block_documents_def owner_step_def)
  have "sha \<in> set (common_blocks documents) \<longleftrightarrow> t \<le> card (owners_of documents sha)" for sha
  proof (cases "jm_get (block_documents documents) sha")
    case None
    then show ?thesis
      using block_documents_get(2) [OF None] pos(1)
      by (auto simp: common_blocks_def map_of_eq_None_iff)
  next
    case (Some owners)
    then have "card (owners_of documents sha) = length owners"
      using block_documents_get(1) [OF Some] distinct_card by metis
    moreover have "(sha, os) \<in> set (block_documents documents) \<longleftrightarrow> os = owners" for os
      using dist Some by (metis map_of_SomeD map_of_eq_Some_iff option.inject)
    moreover have "sha \<in> set (common_blocks documents) \<longleftrightarrow>
        (\<exists>os. (sha, os) \<in> set (block_documents documents) \<and> t \<le> length os)"
      by (auto simp: common_blocks_def t_def image_iff)
    ultimately show ?thesis by simp
  qed
  with pos show ?thesis
    by (auto simp: Let_def simp flip: t_def)
qed

end
