(* ===== verification/DocMap.thy ===== *)
theory DocMap
  imports Quality
begin

text \<open>
  \<^verbatim>\<open>crawler/ingestion/documentation-map.ts\<close>: the outline of each document, the entry points,
  the documentation map with its hash, and the evidence handed to the enrichment step.
\<close>

section \<open>Outlines\<close>

text \<open>\<^verbatim>\<open>[...new Set(values.filter(Boolean))]\<close>.\<close>

definition unique_texts :: "string list \<Rightarrow> string list" where
  "unique_texts values = dedup (filter (\<lambda>v. v \<noteq> []) values)"

text \<open>
  The stack of the code holds references to the nodes on the rightmost path of the forest, so
  \<^verbatim>\<open>stack.at(-1).children.push(node)\<close> appends below the last node at the depth of the stack.
  The model keeps the levels of that path and appends at its length.
\<close>

fun attach :: "nat \<Rightarrow> outline_node \<Rightarrow> outline_node list \<Rightarrow> outline_node list" where
  "attach 0 n ns = ns @ [n]"
| "attach (Suc k) n ns =
     (case rev ns of
        [] \<Rightarrow> [n]
      | OutlineNode t a l ids cs # _ \<Rightarrow> butlast ns @ [OutlineNode t a l ids (attach k n cs)])"

definition outline_step ::
    "(string \<Rightarrow> string list) \<Rightarrow> normalized_block \<Rightarrow> nat list \<times> outline_node list \<Rightarrow> nat list \<times> outline_node list" where
  "outline_step ids b = (\<lambda>(stack, roots).
     case nb_body b of
       Heading level t anchor _ \<Rightarrow>
         (let stack = pop_while (\<lambda>l. level \<le> l) stack;
              node = OutlineNode t anchor level (ids anchor) []
          in (stack @ [level], attach (length stack) node roots))
     | _ \<Rightarrow> (stack, roots))"

definition section_ids :: "document \<Rightarrow> doc_section list \<Rightarrow> string \<Rightarrow> string list" where
  "section_ids d sections anchor =
     map se_id (filter (\<lambda>s. se_document s = doc_id d \<and> se_anchor s = anchor) sections)"

definition outline :: "document \<Rightarrow> doc_section list \<Rightarrow> outline_node list" where
  "outline d sections = snd (fold (outline_step (section_ids d sections)) (doc_blocks d) ([], []))"

text \<open>The nodes of a forest in document order.\<close>

fun preorder :: "outline_node \<Rightarrow> (string \<times> string \<times> nat \<times> string list) list" where
  "preorder (OutlineNode t a l ids cs) = (t, a, l, ids) # concat (map preorder cs)"

text \<open>Every node is deeper than its parent, in level as in position.\<close>

fun nested :: "outline_node \<Rightarrow> bool" where
  "nested (OutlineNode t a l ids cs) = list_all (\<lambda>c. l < on_level c \<and> nested c) cs"

text \<open>The levels of the rightmost path.\<close>

function right_path :: "outline_node list \<Rightarrow> nat list" where
  "right_path ns = (if ns = [] then [] else on_level (last ns) # right_path (on_children (last ns)))"
  by pat_completeness auto
termination
proof (relation "measure (size_list size)", goal_cases)
  case (2 ns)
  then have "size (last ns) \<le> size_list size ns"
    by (intro size_list_estimation' [of "last ns"]) simp_all
  moreover have "size_list size (on_children (last ns)) < size (last ns)"
    by (cases "last ns") simp
  ultimately show ?case by simp
qed simp

declare right_path.simps [simp del]

lemma right_path_Nil [simp]: "right_path [] = []"
  by (subst right_path.simps) simp

lemma right_path_snoc [simp]: "right_path (ns @ [n]) = on_level n # right_path (on_children n)"
  by (subst right_path.simps) simp

lemma forest_snoc:
  "ns \<noteq> [] \<Longrightarrow> \<exists>ms t a l ids cs. ns = ms @ [OutlineNode t a l ids cs]"
  by (metis append_butlast_last_id outline_node.exhaust)

lemma path_forest_snoc:
  "Suc k \<le> length (right_path ns) \<Longrightarrow> \<exists>ms t a l ids cs. ns = ms @ [OutlineNode t a l ids cs]"
  by (intro forest_snoc) auto

lemma attach_effect:
  assumes "k \<le> length (right_path ns)"
  shows "right_path (attach k (OutlineNode t a l ids []) ns) = take k (right_path ns) @ [l]"
    and "concat (map preorder (attach k (OutlineNode t a l ids []) ns)) = concat (map preorder ns) @ [(t, a, l, ids)]"
  using assms
proof (induction k arbitrary: ns)
  case 0
  {
    case 1 show ?case by simp
  next
    case 2 show ?case by simp
  }
next
  case (Suc k)
  {
    case 1
    from path_forest_snoc [OF 1] obtain ms t' a' l' ids' cs where ns: "ns = ms @ [OutlineNode t' a' l' ids' cs]"
      by (elim exE)
    with 1 Suc(1) [of cs] show ?case by simp
  next
    case 2
    from path_forest_snoc [OF 2] obtain ms t' a' l' ids' cs where ns: "ns = ms @ [OutlineNode t' a' l' ids' cs]"
      by (elim exE)
    with 2 Suc(2) [of cs] show ?case by simp
  }
qed

lemma attach_nested:
  assumes "k \<le> length (right_path ns)" "list_all nested ns" "list_all (\<lambda>p. p < l) (take k (right_path ns))"
  shows "list_all nested (attach k (OutlineNode t a l ids []) ns)
    \<and> (0 < k \<longrightarrow> map on_level (attach k (OutlineNode t a l ids []) ns) = map on_level ns)"
  using assms
proof (induction k arbitrary: ns)
  case (Suc k)
  obtain ms t' a' l' ids' cs where ns: "ns = ms @ [OutlineNode t' a' l' ids' cs]"
    using Suc.prems(1) forest_snoc [of ns] by fastforce
  let ?cs = "attach k (OutlineNode t a l ids []) cs"
  have IH: "list_all nested ?cs" "0 < k \<longrightarrow> map on_level ?cs = map on_level cs"
    using Suc.IH [of cs] Suc.prems ns by (auto simp: list_all_iff)
  have "list_all (\<lambda>c. l' < on_level c) ?cs"
  proof (cases k)
    case 0
    then show ?thesis using Suc.prems ns by (simp add: list_all_iff)
  next
    case (Suc j)
    then have "set (map on_level ?cs) = set (map on_level cs)"
      using IH(2) by (metis zero_less_Suc)
    then show ?thesis
      using Suc.prems ns by (auto simp: list_all_iff) (metis image_eqI image_iff)
  qed
  with IH Suc.prems ns show ?case
    by (auto simp: list_all_iff)
qed simp

text \<open>The headings of a document, and their nodes without children.\<close>

definition heading_entries :: "(string \<Rightarrow> string list) \<Rightarrow> normalized_block list \<Rightarrow> (string \<times> string \<times> nat \<times> string list) list" where
  "heading_entries ids bs = concat (map (\<lambda>b. case nb_body b of
     Heading level t anchor _ \<Rightarrow> [(t, anchor, level, ids anchor)] | _ \<Rightarrow> []) bs)"

definition outline_inv :: "nat list \<times> outline_node list \<Rightarrow> bool" where
  "outline_inv = (\<lambda>(stack, roots). right_path roots = stack \<and> sorted_wrt (<) stack \<and> list_all nested roots)"

lemma pop_while_take: "\<exists>k \<le> length xs. pop_while P xs = take k xs"
  by (metis append_eq_conv_conj length_append le_add1 pop_while_prefix)

lemma outline_step_inv:
  assumes "outline_inv s"
  shows "outline_inv (outline_step ids b s)"
    and "concat (map preorder (snd (outline_step ids b s))) =
      concat (map preorder (snd s)) @ heading_entries ids [b]"
proof -
  obtain stack roots where s: "s = (stack, roots)" by (cases s)
  have inv: "right_path roots = stack" "sorted_wrt (<) stack" "list_all nested roots"
    using assms by (simp_all add: outline_inv_def s)
  have both: "outline_inv (outline_step ids b s) \<and> concat (map preorder (snd (outline_step ids b s))) =
      concat (map preorder (snd s)) @ heading_entries ids [b]"
  proof (cases "is_heading (nb_body b)")
    case True
    then obtain level t anchor links where b: "nb_body b = Heading level t anchor links"
      by (cases "nb_body b") auto
    define st where "st = pop_while (\<lambda>l. level \<le> l) stack"
    obtain k where k: "k \<le> length stack" "st = take k stack"
      using pop_while_take st_def by blast
    have step: "outline_step ids b s = (st @ [level], attach (length st) (OutlineNode t anchor level (ids anchor) []) roots)"
      by (simp add: outline_step_def s b Let_def st_def)
    have len: "length st \<le> length (right_path roots)" "take (length st) (right_path roots) = st"
      using k inv(1) by auto
    have "sorted_wrt (<) (st @ [level])"
      using push_increasing [of "\<lambda>l. l" stack level] inv(2) by (simp add: st_def)
    moreover from this have "list_all (\<lambda>p. p < level) st"
      by (auto simp: sorted_wrt_append list_all_iff)
    ultimately show ?thesis
      using attach_effect [OF len(1)] attach_nested [OF len(1) inv(3)] len(2)
      unfolding step by (simp add: outline_inv_def heading_entries_def b s)
  next
    case False
    then show ?thesis
      using assms by (cases "nb_body b") (simp_all add: outline_step_def heading_entries_def s)
  qed
  then show "outline_inv (outline_step ids b s)"
    and "concat (map preorder (snd (outline_step ids b s))) =
      concat (map preorder (snd s)) @ heading_entries ids [b]" by blast+
qed

lemma outline_fold_inv:
  "outline_inv s \<Longrightarrow> outline_inv (fold (outline_step ids) bs s)
     \<and> concat (map preorder (snd (fold (outline_step ids) bs s))) =
       concat (map preorder (snd s)) @ heading_entries ids bs"
proof (induction bs arbitrary: s)
  case (Cons b bs)
  have "heading_entries ids (b # bs) = heading_entries ids [b] @ heading_entries ids bs"
    by (simp add: heading_entries_def)
  with Cons outline_step_inv [OF Cons.prems] show ?case by simp
qed (simp add: heading_entries_def)

section \<open>The outline as a function of its headings\<close>

text \<open>
  The forest that a list of headings means: a heading holds those after it up to the next one of its own or a
  smaller level.
\<close>

abbreviation entry_level :: "string \<times> string \<times> nat \<times> string list \<Rightarrow> nat" where
  "entry_level h \<equiv> fst (snd (snd h))"

function outline_forest :: "(string \<times> string \<times> nat \<times> string list) list \<Rightarrow> outline_node list" where
  "outline_forest [] = []"
| "outline_forest ((t, a, l, ids) # hs) =
     OutlineNode t a l ids (outline_forest (takeWhile (\<lambda>h. l < entry_level h) hs))
     # outline_forest (dropWhile (\<lambda>h. l < entry_level h) hs)"
  by pat_completeness auto
termination
  by (relation "measure length") (auto simp: le_imp_less_Suc length_takeWhile_le length_dropWhile_le)

lemma outline_forest_empty [simp]: "outline_forest hs = [] \<longleftrightarrow> hs = []"
  by (cases hs rule: outline_forest.cases) auto

lemma attach_last [simp]: "ns \<noteq> [] \<Longrightarrow> attach k m (n # ns) = n # attach k m ns"
  by (cases k; cases ns rule: rev_cases) (auto split: outline_node.splits)

lemma right_path_Cons [simp]: "ns \<noteq> [] \<Longrightarrow> right_path (n # ns) = right_path ns"
  by (cases ns rule: rev_cases) (simp_all flip: append_Cons)

lemma right_path_one: "right_path [n] = on_level n # right_path (on_children n)"
  using right_path_snoc [of "[]" n] by simp

lemma right_path_levels: "set (right_path (outline_forest hs)) \<subseteq> entry_level ` set hs"
proof (induction hs rule: outline_forest.induct)
  case (2 t a l ids hs)
  show ?case
  proof (cases "dropWhile (\<lambda>h. l < entry_level h) hs = []")
    case True
    then have same: "takeWhile (\<lambda>h. l < entry_level h) hs = hs"
      by (metis append_Nil2 takeWhile_dropWhile_id)
    show ?thesis using "2.IH"(1) unfolding same outline_forest.simps True by (auto simp: right_path_one)
  next
    case False
    then show ?thesis using "2.IH"(2) set_dropWhileD by (force simp: image_iff)
  qed
qed simp

lemma pop_while_Cons:
  "pop_while P (x # xs) = (if pop_while P xs = [] then (if P x then [] else [x]) else x # pop_while P xs)"
  by (auto simp: pop_while_def dropWhile_append)

lemma pop_while_all: "(\<And>x. x \<in> set xs \<Longrightarrow> P x) \<Longrightarrow> pop_while P xs = []"
  by (simp add: pop_while_def)

text \<open>Attaching a heading below the part of the rightmost path that it does not close extends the forest by it.\<close>

lemma outline_forest_snoc:
  "outline_forest (hs @ [(t, a, l, ids)]) =
     attach (length (pop_while (\<lambda>p. l \<le> p) (right_path (outline_forest hs)))) (OutlineNode t a l ids []) (outline_forest hs)"
proof (induction hs rule: outline_forest.induct)
  case 1
  show ?case by (simp add: pop_while_def)
next
  case (2 t' a' l' ids' hs)
  let ?below = "\<lambda>h. l' < entry_level h"
  show ?case
  proof (cases "dropWhile ?below hs = []")
    case True
    then have all: "\<And>h. h \<in> set hs \<Longrightarrow> ?below h" and same: "takeWhile ?below hs = hs"
      by (auto simp: dropWhile_eq_Nil_conv)
    have path: "l' < p" if "p \<in> set (right_path (outline_forest hs))" for p
      using that right_path_levels [of hs] all by fastforce
    show ?thesis
    proof (cases "l' < l")
      case True
      have kept: "takeWhile ?below (hs @ [(t, a, l, ids)]) = hs @ [(t, a, l, ids)]"
        "dropWhile ?below (hs @ [(t, a, l, ids)]) = []"
        using all True by (simp_all add: takeWhile_append2 dropWhile_append2)
      show ?thesis
        using "2.IH"(1) True all
        by (simp add: kept same right_path_one pop_while_Cons \<open>dropWhile ?below hs = []\<close>)
    next
      case False
      have "takeWhile ?below (hs @ [(t, a, l, ids)]) = hs" "dropWhile ?below (hs @ [(t, a, l, ids)]) = [(t, a, l, ids)]"
        using all False by (simp_all add: takeWhile_append2 dropWhile_append2)
      moreover have "pop_while (\<lambda>p. l \<le> p) (l' # right_path (outline_forest hs)) = []"
        using path False by (intro pop_while_all) force
      ultimately show ?thesis
        unfolding append_Cons outline_forest.simps same \<open>dropWhile ?below hs = []\<close> by (simp add: right_path_one)
    qed
  next
    case False
    then obtain h where h: "h \<in> set hs" "\<not> ?below h" by (auto simp: dropWhile_eq_Nil_conv)
    then have "takeWhile ?below (hs @ [(t, a, l, ids)]) = takeWhile ?below hs"
      "dropWhile ?below (hs @ [(t, a, l, ids)]) = dropWhile ?below hs @ [(t, a, l, ids)]"
      by (simp_all add: takeWhile_append1 dropWhile_append1)
    then show ?thesis using "2.IH"(2) False by simp
  qed
qed

lemma outline_fold_forest:
  "right_path roots = stack \<and> roots = outline_forest hs \<Longrightarrow>
     snd (fold (outline_step ids) bs (stack, roots)) = outline_forest (hs @ heading_entries ids bs)"
proof (induction bs arbitrary: stack roots hs)
  case Nil
  then show ?case by (simp add: heading_entries_def)
next
  case (Cons b bs)
  have split: "heading_entries ids (b # bs) = heading_entries ids [b] @ heading_entries ids bs"
    by (simp add: heading_entries_def)
  show ?case
  proof (cases "is_heading (nb_body b)")
    case True
    then obtain level t anchor links where b: "nb_body b = Heading level t anchor links"
      by (cases "nb_body b") auto
    define st where "st = pop_while (\<lambda>p. level \<le> p) stack"
    obtain k where k: "k \<le> length stack" "st = take k stack"
      using pop_while_take st_def by blast
    have step: "outline_step ids b (stack, roots) =
        (st @ [level], attach (length st) (OutlineNode t anchor level (ids anchor) []) roots)"
      by (simp add: outline_step_def b Let_def st_def)
    have "right_path (attach (length st) (OutlineNode t anchor level (ids anchor) []) roots) = st @ [level]"
    proof -
      have "length st \<le> length (right_path roots)" "take (length st) (right_path roots) = st"
        using k conjunct1 [OF Cons.prems] by auto
      then show ?thesis using attach_effect(1) [of "length st" roots] by simp
    qed
    moreover have "attach (length st) (OutlineNode t anchor level (ids anchor) []) roots =
        outline_forest (hs @ heading_entries ids [b])"
      using outline_forest_snoc [of hs t anchor level "ids anchor"]
      by (simp add: st_def heading_entries_def b conjunct1 [OF Cons.prems, symmetric] flip: conjunct2 [OF Cons.prems])
    ultimately show ?thesis
      using Cons.IH [of _ "st @ [level]" "hs @ heading_entries ids [b]"] step split by simp
  next
    case False
    then have "outline_step ids b (stack, roots) = (stack, roots)" "heading_entries ids [b] = []"
      by (cases "nb_body b"; simp add: outline_step_def heading_entries_def)+
    then show ?thesis using Cons.IH [OF Cons.prems] split by simp
  qed
qed

text \<open>
  Property C9. The outline of a document lists every heading once, in document order, with the
  identifiers of the sections under its anchor, and it is the forest that the headings mean: below a
  heading stand exactly those that follow it before the next heading of its own or a smaller level, nested in the
  same way; so every node is below a heading of a strictly smaller level.
\<close>

theorem outline_preorder:
  "concat (map preorder (outline d sections)) = heading_entries (section_ids d sections) (doc_blocks d)
   \<and> outline d sections = outline_forest (heading_entries (section_ids d sections) (doc_blocks d))
   \<and> list_all nested (outline d sections)"
proof -
  have "outline_inv ([], [])"
    by (simp add: outline_inv_def)
  from outline_fold_inv [OF this, of "section_ids d sections" "doc_blocks d"] show ?thesis
    using outline_fold_forest [of "[]" "[]" "[]" "section_ids d sections" "doc_blocks d"]
    by (auto simp: outline_def outline_inv_def case_prod_beta)
qed

section \<open>Entry points\<close>

text \<open>
  The patterns are alternatives of fixed words between word boundaries, without regard to case.
  A word character is a letter, a digit or an underscore.
\<close>

definition word_char :: "char \<Rightarrow> bool" where
  "word_char c \<longleftrightarrow> is_lower c \<or> is_upper c \<or> is_digit c \<or> c = CHR ''_''"

definition word_at :: "string \<Rightarrow> nat \<Rightarrow> bool" where
  "word_at s i \<longleftrightarrow> i < length s \<and> word_char (s ! i)"

text \<open>\<^verbatim>\<open>\b\<close> at an offset: exactly one of its neighbours is a word character.\<close>

definition boundary_at :: "string \<Rightarrow> nat \<Rightarrow> bool" where
  "boundary_at s i \<longleftrightarrow> (0 < i \<and> word_at s (i - 1)) \<noteq> word_at s i"

definition has_word :: "string list \<Rightarrow> string \<Rightarrow> bool" where
  "has_word ws s \<longleftrightarrow> list_ex (\<lambda>w. list_ex (\<lambda>i. starts_with (drop i (to_lower s)) w
     \<and> boundary_at s i \<and> boundary_at s (i + length w)) [0..<length s + 1]) ws"

definition entry_point_patterns :: "(entry_kind \<times> string list) list" where
  "entry_point_patterns =
     [(Authentication, [''auth'', ''authentication'', ''authorization'', ''oauth'', ''token'', ''credential'',
         ''signin'', ''sign in'', ''sign-in'']),
      (Setup, [''setup'', ''install'', ''installation'', ''getting started'', ''quickstart'', ''quick start'',
         ''configuration'', ''initialize'']),
      (Errors, [''error'', ''troubleshoot'', ''failure'', ''exception'', ''retry'', ''status code'']),
      (Examples, [''example'', ''sample'', ''tutorial'', ''walkthrough'', ''recipe'']),
      (Reference, [''reference'', ''operation'', ''endpoint'', ''schema'', ''api'', ''method'', ''class'', ''function'']),
      (Concepts, [''overview'', ''concept'', ''architecture'', ''introduction'', ''guide''])]"

definition entry_point_of :: "doc_section \<Rightarrow> entry_point option" where
  "entry_point_of s =
     (let value = join '' '' (map hp_text (se_path s)) @ '' '' @ se_title s
      in map_option (\<lambda>(k, ws). \<lparr>ep_kind = k, ep_section = se_id s, ep_document = se_document s, ep_title = se_title s\<rparr>)
           (find (\<lambda>(k, ws). has_word ws value) entry_point_patterns))"

section \<open>The map\<close>

definition map_document_of :: "document \<Rightarrow> doc_section list \<Rightarrow> diagnostic list \<Rightarrow> map_document" where
  "map_document_of d sections diagnostics =
     (let own = filter (\<lambda>s. se_document s = doc_id d) sections
      in \<lparr>md_document = doc_id d, md_title = doc_title d, md_url = li_url (doc_source d),
          md_format = doc_format d, md_raw_sha = ln_raw_sha (doc_source d), md_sha = doc_sha d,
          md_section_count = length own,
          md_languages = unique_texts (concat (map (\<lambda>b. case nb_body b of
            Code (Some language) _ \<Rightarrow> [language] | _ \<Rightarrow> []) (doc_blocks d))),
          md_topics = unique_texts (concat (map (\<lambda>b. case nb_body b of
            Heading _ t _ _ \<Rightarrow> [t] | _ \<Rightarrow> []) (doc_blocks d))),
          md_outline = outline d own,
          md_codes = dedup (map dg_code (filter (\<lambda>g. dg_document g = Some (doc_id d)) diagnostics))\<rparr>)"

definition find_index :: "('a \<Rightarrow> bool) \<Rightarrow> 'a list \<Rightarrow> int" where
  "find_index P xs = (let n = length (takeWhile (\<lambda>x. \<not> P x) xs) in if n < length xs then int n else -1)"

definition section_order :: "document list \<Rightarrow> doc_section \<Rightarrow> doc_section \<Rightarrow> int" where
  "section_order documents l r =
     (let at = (\<lambda>s. find_index (\<lambda>d. doc_id d = se_document s) documents)
      in cmp_or (at l - at r)
           (cmp_or (int (se_ordinal l) - int (se_ordinal r)) (compare_text (se_id l) (se_id r))))"

definition diagnostic_counts :: "diagnostic list \<Rightarrow> (string \<times> nat) list" where
  "diagnostic_counts diagnostics =
     (let counts = fold (\<lambda>g m. jm_set (code_text (dg_code g)) (nullish (jm_get m (code_text (dg_code g))) 0 + 1) m)
        diagnostics []
      in from_entries (js_sort by_key (own_order counts)))"

definition map_section_of :: "doc_section \<Rightarrow> map_section" where
  "map_section_of s =
     \<lparr>ms_section = se_id s, ms_document = se_document s, ms_title = se_title s, ms_anchor = se_anchor s,
      ms_path = se_path s, ms_sha = se_sha s, ms_characters = se_characters s, ms_tokens = se_tokens s\<rparr>"

subsection \<open>The hashed payload\<close>

abbreviation json_strings :: "string list \<Rightarrow> json" where
  "json_strings ss \<equiv> JArr (map JStr ss)"

abbreviation json_nat :: "nat \<Rightarrow> json" where
  "json_nat n \<equiv> JNum (int n)"

fun json_outline :: "outline_node \<Rightarrow> json" where
  "json_outline (OutlineNode t a l ids cs) =
     JObj [(''title'', JStr t), (''anchor'', JStr a), (''level'', json_nat l),
       (''sectionIds'', json_strings ids), (''children'', JArr (map json_outline cs))]"

definition json_path :: "heading_path_item list \<Rightarrow> json" where
  "json_path path = JArr (map (\<lambda>i. JObj [(''level'', json_nat (hp_level i)), (''text'', JStr (hp_text i)),
     (''anchor'', JStr (hp_anchor i))]) path)"

definition json_map_document :: "map_document \<Rightarrow> json" where
  "json_map_document m = JObj
     [(''documentId'', JStr (md_document m)), (''title'', JStr (md_title m)), (''canonicalUrl'', JStr (md_url m)),
      (''format'', JStr (format_text (md_format m))), (''rawSha256'', JStr (md_raw_sha m)),
      (''normalizedSha256'', JStr (md_sha m)), (''sectionCount'', json_nat (md_section_count m)),
      (''languages'', json_strings (md_languages m)), (''topics'', json_strings (md_topics m)),
      (''outline'', JArr (map json_outline (md_outline m))),
      (''diagnosticCodes'', json_strings (map code_text (md_codes m)))]"

definition json_map_section :: "map_section \<Rightarrow> json" where
  "json_map_section m = JObj
     [(''sectionId'', JStr (ms_section m)), (''documentId'', JStr (ms_document m)), (''title'', JStr (ms_title m)),
      (''anchor'', JStr (ms_anchor m)), (''headingPath'', json_path (ms_path m)),
      (''contentSha256'', JStr (ms_sha m)), (''characterCount'', json_nat (ms_characters m)),
      (''estimatedTokens'', json_nat (ms_tokens m))]"

definition json_payload :: "map_payload \<Rightarrow> json" where
  "json_payload p = JObj
     [(''schemaVersion'', JStr ''2026-08-26''),
      (''overview'', JObj
        [(''documentCount'', json_nat (mo_documents (mp_overview p))),
         (''sectionCount'', json_nat (mo_sections (mp_overview p))),
         (''formats'', json_strings (map format_text (mo_formats (mp_overview p)))),
         (''languages'', json_strings (mo_languages (mp_overview p))),
         (''topLevelTopics'', json_strings (mo_topics (mp_overview p))),
         (''diagnostics'', JObj (map (\<lambda>(k, n). (k, json_nat n)) (mo_diagnostics (mp_overview p))))]),
      (''documents'', JArr (map json_map_document (mp_documents p))),
      (''sections'', JArr (map json_map_section (mp_sections p))),
      (''entryPoints'', JArr (map (\<lambda>e. JObj [(''kind'', JStr (entry_kind_text (ep_kind e))),
         (''sectionId'', JStr (ep_section e)), (''documentId'', JStr (ep_document e)),
         (''title'', JStr (ep_title e))]) (mp_entry_points p)))]"

definition map_payload_of :: "document list \<Rightarrow> doc_section list \<Rightarrow> diagnostic list \<Rightarrow> map_payload" where
  "map_payload_of documents sections diagnostics =
     (let sorted_documents = js_sort document_order documents;
          sorted_sections = js_sort (section_order sorted_documents) sections;
          docs = map (\<lambda>d. map_document_of d sorted_sections diagnostics) sorted_documents
      in \<lparr>mp_overview = \<lparr>mo_documents = length docs, mo_sections = length sorted_sections,
            mo_formats = dedup (map md_format docs),
            mo_languages = unique_texts (concat (map md_languages docs)),
            mo_topics = unique_texts (concat (map (\<lambda>m. map on_title (md_outline m)) docs)),
            mo_diagnostics = diagnostic_counts diagnostics\<rparr>,
          mp_documents = docs,
          mp_sections = map map_section_of sorted_sections,
          mp_entry_points = List.map_filter entry_point_of sorted_sections\<rparr>)"

definition build_documentation_map ::
    "document list \<Rightarrow> doc_section list \<Rightarrow> diagnostic list \<Rightarrow> documentation_map" where
  "build_documentation_map documents sections diagnostics =
     (let payload = map_payload_of documents sections diagnostics;
          sha = sha256 (canonical_json (json_payload payload))
      in map_payload.extend payload \<lparr>dm_id = ''documentation_map_'' @ take 24 sha, dm_sha = sha\<rparr>)"

section \<open>Evidence\<close>

record enrichment_input =
  ei_map_id :: string
  ei_map_sha :: string
  ei_map :: documentation_map
  ei_evidence :: "evidence_item list"

definition document_evidence :: "document \<Rightarrow> evidence_item" where
  "document_evidence d =
     (let content = join [newline, newline] (map render_block (doc_blocks d))
      in \<lparr>ev_id = ''document:'' @ doc_id d, ev_kind = DocumentEvidence, ev_document = doc_id d,
          ev_section = None, ev_title = doc_title d, ev_url = li_url (doc_source d),
          ev_sha = sha256 content, ev_content = content\<rparr>)"

definition section_evidence :: "(string \<times> document) list \<Rightarrow> doc_section \<Rightarrow> js_error + evidence_item" where
  "section_evidence by_id s =
     (case jm_get by_id (se_document s) of
        None \<Rightarrow> Inl (TypeError (''Section '' @ se_id s @ '' references unknown document '' @ se_document s @ ''.''))
      | Some d \<Rightarrow> Inr \<lparr>ev_id = ''section:'' @ se_id s, ev_kind = SectionEvidence, ev_document = se_document s,
          ev_section = Some (se_id s), ev_title = se_title s, ev_url = li_url (doc_source d),
          ev_sha = se_sha s, ev_content = se_content s\<rparr>)"

definition evidence_order :: "doc_section \<Rightarrow> doc_section \<Rightarrow> int" where
  "evidence_order l r =
     cmp_or (compare_text (se_document l) (se_document r)) (int (se_ordinal l) - int (se_ordinal r))"

definition documentation_map_enrichment_input ::
    "documentation_map \<Rightarrow> document list \<Rightarrow> doc_section list \<Rightarrow> js_error + enrichment_input" where
  "documentation_map_enrichment_input m documents sections =
     (let by_id = jm_of_list (map (\<lambda>d. (doc_id d, d)) documents)
      in bind_result (map_result (section_evidence by_id) (js_sort evidence_order sections))
        (\<lambda>evs. Inr \<lparr>ei_map_id = dm_id m, ei_map_sha = dm_sha m, ei_map = m,
           ei_evidence = map document_evidence (js_sort document_order documents) @ evs\<rparr>))"

section \<open>The map does not depend on the order of its inputs\<close>

definition section_key :: "document list \<Rightarrow> doc_section \<Rightarrow> int \<times> int \<times> string" where
  "section_key documents s =
     (find_index (\<lambda>d. doc_id d = se_document s) documents, int (se_ordinal s), se_id s)"

lemma section_order_le: "section_order documents l r \<le> 0 \<longleftrightarrow> section_key documents l \<le> section_key documents r"
  by (auto simp: section_order_def section_key_def cmp_or_def compare_text_def Let_def)

interpretation sec_order: keyed_comparator "section_order documents" "section_key documents"
  by unfold_locales (auto simp: section_order_le)

abbreviation document_key :: "document \<Rightarrow> string \<times> string" where
  "document_key d \<equiv> (li_url (doc_source d), doc_id d)"

lemma sorted_documents_determined:
  "mset documents = mset documents' \<Longrightarrow> distinct (map document_key documents) \<Longrightarrow>
     js_sort document_order documents = js_sort document_order documents'"
  by (intro doc_order.sort_determined) (simp_all add: distinct_map)

lemma sorted_sections_determined:
  assumes "mset sections = mset sections'" "distinct (map se_id sections)"
  shows "js_sort (section_order ds) sections = js_sort (section_order ds) sections'"
proof (rule sec_order.sort_determined [OF assms(1)])
  have "inj_on se_id (set sections)"
    using assms(2) by (simp add: distinct_map)
  then show "inj_on (section_key ds) (set sections)"
    by (auto simp: inj_on_def section_key_def)
qed

text \<open>
  The documentation map, its identity and its hash do not depend on the order in
  which documents and sections are handed over, as long as documents differ in URL or identity
  and sections in identity.
\<close>

theorem map_order_independent:
  assumes "mset documents = mset documents'" "mset sections = mset sections'"
    and "distinct (map document_key documents)" "distinct (map se_id sections)"
  shows "build_documentation_map documents sections diagnostics = build_documentation_map documents' sections' diagnostics"
  unfolding build_documentation_map_def map_payload_of_def
  using sorted_documents_determined [OF assms(1,3)] sorted_sections_determined [OF assms(2,4)] by simp

lemma map_order_independent_witness:
  "build_documentation_map [sample_document, sample_document\<lparr>doc_id := ''document_2''\<rparr>] [] [] =
     build_documentation_map [sample_document\<lparr>doc_id := ''document_2''\<rparr>, sample_document] [] []"
  by (rule map_order_independent) (simp_all add: sample_document_def)

section \<open>Counts\<close>

lemma sum_increment:
  "distinct (map fst m) \<Longrightarrow> sum_list (map snd (jm_set k (nullish (jm_get m k) 0 + 1) m)) = sum_list (map snd m) + (1::nat)"
  by (induction m) auto

lemma sum_counts:
  "distinct (map fst m) \<Longrightarrow>
     sum_list (map snd (fold (\<lambda>g m. jm_set (f g) (nullish (jm_get m (f g)) 0 + 1) m) gs m)) =
     sum_list (map snd m) + (length gs :: nat)"
proof (induction gs arbitrary: m)
  case (Cons g gs)
  have d: "distinct (map fst (jm_set (f g) (nullish (jm_get m (f g)) 0 + 1) m))"
    using Cons.prems by (rule distinct_update)
  show ?case
    by (simp only: fold_simps(2) Cons.IH [OF d] sum_increment [OF Cons.prems] length_Cons)
qed simp

lemma sum_list_mset_cong:
  fixes f :: "'a \<Rightarrow> nat"
  assumes "mset xs = mset ys"
  shows "sum_list (map f xs) = sum_list (map f ys)"
proof -
  have "sum_list (map f zs) = \<Sum>\<^sub># (image_mset f (mset zs))" for zs
    by (simp flip: sum_mset_sum_list)
  with assms show ?thesis by simp
qed

lemma fold_counts_distinct:
  "distinct (map fst m) \<Longrightarrow> distinct (map fst (fold (\<lambda>g m. jm_set (f g) (h g m) m) gs m))"
  by (induction gs arbitrary: m) (simp_all add: distinct_update)

lemma diagnostic_counts_sum: "sum_list (map snd (diagnostic_counts gs)) = length gs"
proof -
  define c :: "(string \<times> nat) list" where "c = fold (\<lambda>g m. jm_set (code_text (dg_code g)) (nullish (jm_get m (code_text (dg_code g))) 0 + 1) m) gs []"
  have "distinct (map fst c)"
    unfolding c_def by (rule fold_counts_distinct) simp
  then have "mset (diagnostic_counts gs) = mset c"
    by (simp add: diagnostic_counts_def Let_def mset_from_entries flip: c_def One_nat_def)
  moreover have "sum_list (map snd c) = length gs"
    using sum_counts [of "[]" "\<lambda>g. code_text (dg_code g)" gs] by (simp add: c_def)
  ultimately show ?thesis
    using sum_list_mset_cong [of "diagnostic_counts gs" c snd] by simp
qed

lemma sum_partition:
  assumes "distinct ks" "\<And>x. x \<in> set xs \<Longrightarrow> f x \<in> set ks"
  shows "sum_list (map (\<lambda>k. length (filter (\<lambda>x. f x = k) xs)) ks) = length xs"
  using assms(2)
proof (induction xs)
  case Nil
  then show ?case by simp
next
  case (Cons x xs)
  have "sum_list (map (\<lambda>k. if f x = k then 1 else 0 :: nat) ks) = 1"
    using assms(1) Cons.prems [of x]
    by (simp add: sum_list_distinct_conv_sum_set)
  moreover have "sum_list (map (\<lambda>k. length (filter (\<lambda>x. f x = k) (x # xs))) ks)
      = sum_list (map (\<lambda>k. (if f x = k then 1 else 0) + length (filter (\<lambda>x. f x = k) xs)) ks)"
    by (intro arg_cong [where f = sum_list] map_cong) auto
  ultimately show ?case
    using Cons by (simp add: sum_list_addf)
qed

text \<open>
  The totals of the map agree with its inputs: every document and section is
  counted once, the per-document section counts add up to the number of sections, and the
  diagnostic counts add up to the number of diagnostics.
\<close>

theorem map_counts:
  fixes documents :: "document list" and sections :: "doc_section list" and diagnostics :: "diagnostic list"
  assumes "distinct (map doc_id documents)" "\<And>s. s \<in> set sections \<Longrightarrow> se_document s \<in> doc_id ` set documents"
  defines "m \<equiv> build_documentation_map documents sections diagnostics"
  shows "mo_documents (mp_overview m) = length documents \<and> mo_sections (mp_overview m) = length sections
    \<and> sum_list (map md_section_count (mp_documents m)) = length sections
    \<and> sum_list (map snd (mo_diagnostics (mp_overview m))) = length diagnostics
    \<and> mset (map ms_section (mp_sections m)) = mset (map se_id sections)"
proof -
  define ds where "ds = js_sort document_order documents"
  define ss where "ss = js_sort (section_order ds) sections"
  have m: "mp_overview m = mp_overview (map_payload_of documents sections diagnostics)"
    "mp_documents m = map (\<lambda>d. map_document_of d ss diagnostics) ds"
    "mp_sections m = map map_section_of ss"
    by (simp_all add: m_def build_documentation_map_def map_payload.extend_def map_payload_of_def Let_def ds_def ss_def)
  have "sum_list (map md_section_count (mp_documents m))
      = sum_list (map (\<lambda>k. length (filter (\<lambda>s. se_document s = k) ss)) (map doc_id ds))"
    unfolding m(2) by (simp add: map_document_of_def Let_def comp_def)
  also have "\<dots> = length ss"
    using assms(1,2) by (intro sum_partition) (auto simp: ds_def ss_def)
  finally have "sum_list (map md_section_count (mp_documents m)) = length sections"
    by (simp add: ss_def)
  moreover have "mset (map ms_section (mp_sections m)) = mset (map se_id sections)"
    unfolding m(3) by (simp add: map_section_of_def comp_def ss_def)
  ultimately show ?thesis
    using diagnostic_counts_sum [of diagnostics] by (simp add: m(1) map_payload_of_def Let_def)
qed

lemma map_counts_witness:
  "mo_documents (mp_overview (build_documentation_map [sample_document] (document_sections sample_document 9) [])) = 1
   \<and> sum_list (map md_section_count (mp_documents (build_documentation_map [sample_document] (document_sections sample_document 9) []))) = 4"
proof -
  have len: "length (document_sections sample_document 9) = 4"
    using arg_cong [OF sample_sections, of length] by simp
  have known: "se_document s \<in> doc_id ` set [sample_document]" if "s \<in> set (document_sections sample_document 9)" for s
    using that by (auto elim!: document_sections_mem simp: make_section_def Let_def)
  have "distinct (map doc_id [sample_document])" by simp
  from map_counts [OF this known, of "document_sections sample_document 9" "[]"] show ?thesis
    using len by simp
qed

section \<open>The evidence\<close>

lemma map_result_first:
  "(\<exists>e. map_result f xs = Inl e) \<longleftrightarrow> (\<exists>x \<in> set xs. \<exists>e. f x = Inl e)"
proof (induction xs)
  case (Cons x xs)
  then show ?case by (cases "f x"; cases "map_result f xs") auto
qed simp

lemma map_result_map:
  "map_result f xs = Inr ys \<Longrightarrow> (\<And>x y. f x = Inr y \<Longrightarrow> g y = h x) \<Longrightarrow> map g ys = map h xs"
  by (induction xs arbitrary: ys) auto

lemma jm_of_list_keys: "jm_get (jm_of_list kvs) k = None \<longleftrightarrow> k \<notin> fst ` set kvs"
  by (simp add: jm_of_list_get map_of_eq_None_iff image_set [symmetric])

lemma section_evidence_fields:
  "section_evidence by_id s = Inr e \<Longrightarrow> ev_kind e = SectionEvidence \<and> ev_id e = ''section:'' @ se_id s"
  by (auto simp: section_evidence_def split: option.splits)

text \<open>The evidence fails exactly when a section names a document that is not there.\<close>

lemma enrichment_fails:
  "(\<exists>e. documentation_map_enrichment_input m documents sections = Inl e) \<longleftrightarrow>
     \<not> se_document ` set sections \<subseteq> doc_id ` set documents"
proof -
  define by_id where "by_id = jm_of_list (map (\<lambda>d. (doc_id d, d)) documents)"
  have known: "jm_get by_id k = None \<longleftrightarrow> k \<notin> doc_id ` set documents" for k
    by (simp add: by_id_def jm_of_list_keys image_image)
  have "(\<exists>e. section_evidence by_id s = Inl e) \<longleftrightarrow> se_document s \<notin> doc_id ` set documents" for s
    using known [of "se_document s"] by (auto simp: section_evidence_def split: option.splits)
  then have "(\<exists>e. map_result (section_evidence by_id) (js_sort evidence_order sections) = Inl e) \<longleftrightarrow>
      \<not> se_document ` set sections \<subseteq> doc_id ` set documents"
    unfolding map_result_first by auto
  then show ?thesis
    by (cases "map_result (section_evidence by_id) (js_sort evidence_order sections)")
      (auto simp: documentation_map_enrichment_input_def by_id_def [symmetric] Let_def)
qed

lemma enrichment_items:
  assumes "documentation_map_enrichment_input m documents sections = Inr r"
  obtains es where "ei_evidence r = map document_evidence (js_sort document_order documents) @ es"
    "map ev_id es = map (\<lambda>s. ''section:'' @ se_id s) (js_sort evidence_order sections)"
    "list_all (\<lambda>e. ev_kind e = SectionEvidence) es"
proof -
  define f where "f = section_evidence (jm_of_list (map (\<lambda>d. (doc_id d, d)) documents))"
  obtain es where es: "map_result f (js_sort evidence_order sections) = Inr es"
    and "ei_evidence r = map document_evidence (js_sort document_order documents) @ es"
    using assms unfolding documentation_map_enrichment_input_def f_def [symmetric] Let_def
    by (cases "map_result f (js_sort evidence_order sections)") auto
  moreover have "map ev_id es = map (\<lambda>s. ''section:'' @ se_id s) (js_sort evidence_order sections)"
    using es by (rule map_result_map) (simp add: f_def section_evidence_fields)
  moreover have "list_all (\<lambda>e. ev_kind e = SectionEvidence) es"
    using map_result_Inr_set [OF es] section_evidence_fields by (fastforce simp: list_all_iff f_def)
  ultimately show thesis by (intro that)
qed

text \<open>
  The enrichment input fails exactly when some section names a document that is
  not there. Otherwise it holds one item per document and one per section with different
  evidence identifiers, and every document item carries the hash of its own content.
\<close>

theorem enrichment_evidence:
  "((\<exists>e. documentation_map_enrichment_input m documents sections = Inl e) \<longleftrightarrow>
      \<not> se_document ` set sections \<subseteq> doc_id ` set documents)
   \<and> (case documentation_map_enrichment_input m documents sections of
        Inl e \<Rightarrow> True
      | Inr r \<Rightarrow> mset (map ev_id (ei_evidence r)) =
            mset (map (\<lambda>d. ''document:'' @ doc_id d) documents) + mset (map (\<lambda>s. ''section:'' @ se_id s) sections)
          \<and> list_all (\<lambda>e. ev_kind e = SectionEvidence \<or> ev_sha e = sha256 (ev_content e)) (ei_evidence r)
          \<and> (if distinct (map doc_id documents) \<and> distinct (map se_id sections)
             then distinct (map ev_id (ei_evidence r)) else True))"
proof (cases "documentation_map_enrichment_input m documents sections")
  case (Inl e)
  then show ?thesis using enrichment_fails [of m documents sections] by simp
next
  case (Inr r)
  obtain es where ev: "ei_evidence r = map document_evidence (js_sort document_order documents) @ es"
    and ids: "map ev_id es = map (\<lambda>s. ''section:'' @ se_id s) (js_sort evidence_order sections)"
    and kinds: "list_all (\<lambda>e. ev_kind e = SectionEvidence) es"
    using Inr by (rule enrichment_items)
  have all: "map ev_id (ei_evidence r) = map (\<lambda>d. ''document:'' @ doc_id d) (js_sort document_order documents)
      @ map (\<lambda>s. ''section:'' @ se_id s) (js_sort evidence_order sections)"
    by (simp add: ev ids document_evidence_def Let_def comp_def)
  have "distinct (map ev_id (ei_evidence r))" if "distinct (map doc_id documents)" "distinct (map se_id sections)"
  proof -
    have "distinct (map (\<lambda>d. ''document:'' @ doc_id d) (js_sort document_order documents))"
      "distinct (map (\<lambda>s. ''section:'' @ se_id s) (js_sort evidence_order sections))"
      using that by (simp_all add: distinct_map inj_on_def)
    then show ?thesis unfolding all by auto
  qed
  moreover have "mset (map ev_id (ei_evidence r)) =
      mset (map (\<lambda>d. ''document:'' @ doc_id d) documents) + mset (map (\<lambda>s. ''section:'' @ se_id s) sections)"
    unfolding all mset_append mset_map mset_js_sort ..
  moreover have "list_all (\<lambda>e. ev_kind e = SectionEvidence \<or> ev_sha e = sha256 (ev_content e)) (ei_evidence r)"
    using kinds by (auto simp: ev document_evidence_def Let_def list_all_iff)
  ultimately have "mset (map ev_id (ei_evidence r)) =
      mset (map (\<lambda>d. ''document:'' @ doc_id d) documents) + mset (map (\<lambda>s. ''section:'' @ se_id s) sections)
    \<and> list_all (\<lambda>e. ev_kind e = SectionEvidence \<or> ev_sha e = sha256 (ev_content e)) (ei_evidence r)
    \<and> (if distinct (map doc_id documents) \<and> distinct (map se_id sections)
       then distinct (map ev_id (ei_evidence r)) else True)"
    by presburger
  then show ?thesis
    unfolding enrichment_fails unfolding Inr sum.case by blast
qed

end
