(* ===== verification/Addresses.thy ===== *)
theory Addresses
  imports Canonical
begin

text \<open>
  The address checks of \<^verbatim>\<open>crawler/security.ts\<close>: \<^verbatim>\<open>isIP\<close> of \<^verbatim>\<open>node:net\<close>, the numeric value of an
  address (a 32-bit word, or a natural number for \<^verbatim>\<open>BigInt\<close>), membership in a network, and the
  lists of denied and of local development networks.
\<close>

section \<open>Textual addresses\<close>

definition hex_value :: "char \<Rightarrow> nat" where
  "hex_value c = (if is_digit c then digit_value c
     else if char_in 97 102 c then of_char c - 87 else of_char c - 55)"

definition is_hex :: "char \<Rightarrow> bool" where
  "is_hex c \<longleftrightarrow> is_digit c \<or> char_in 97 102 c \<or> char_in 65 70 c"

definition nat_of_hex :: "string \<Rightarrow> nat" where
  "nat_of_hex s = foldl (\<lambda>n c. 16 * n + hex_value c) 0 s"

text \<open>An octet without leading zeros, a group of one to four hexadecimal digits.\<close>

definition is_octet :: "string \<Rightarrow> bool" where
  "is_octet s \<longleftrightarrow> s \<noteq> [] \<and> length s \<le> 3 \<and> list_all is_digit s \<and> (s = ''0'' \<or> hd s \<noteq> CHR ''0'')
     \<and> nat_of_digits s < 256"

definition is_group :: "string \<Rightarrow> bool" where
  "is_group s \<longleftrightarrow> s \<noteq> [] \<and> length s \<le> 4 \<and> list_all is_hex s"

definition is_ipv4 :: "string \<Rightarrow> bool" where
  "is_ipv4 s \<longleftrightarrow> (let parts = split_on (CHR ''.'') s in length parts = 4 \<and> list_all is_octet parts)"

text \<open>\<^verbatim>\<open>value.split("::")\<close>.\<close>

fun split_double_colon :: "string \<Rightarrow> string list" where
  "split_double_colon [] = [[]]"
| "split_double_colon [c] = [[c]]"
| "split_double_colon (c # d # cs) =
     (if c = CHR '':'' \<and> d = CHR '':'' then [] # split_double_colon cs
      else (case split_double_colon (d # cs) of [] \<Rightarrow> [[c]] | p # ps \<Rightarrow> (c # p) # ps))"

definition colon_parts :: "string \<Rightarrow> string list" where
  "colon_parts s = (if s = [] then [] else split_on (CHR '':'') s)"

text \<open>
  The number of 16-bit groups of a list of parts, in which an IPv4 address may come last and
  counts for two.
\<close>

fun group_count :: "bool \<Rightarrow> string list \<Rightarrow> nat option" where
  "group_count v4 [] = Some 0"
| "group_count v4 [p] =
     (if is_group p then Some 1 else if v4 \<and> is_ipv4 p then Some 2 else None)"
| "group_count v4 (p # ps) = (if is_group p then map_option Suc (group_count v4 ps) else None)"

definition is_ipv6_plain :: "string \<Rightarrow> bool" where
  "is_ipv6_plain s \<longleftrightarrow>
     (case split_double_colon s of
        [whole] \<Rightarrow> group_count True (colon_parts whole) = Some 8
      | [l, r] \<Rightarrow> (case (group_count False (colon_parts l), group_count True (colon_parts r)) of
          (Some m, Some n) \<Rightarrow> m + n \<le> 7 | _ \<Rightarrow> False)
      | _ \<Rightarrow> False)"

definition is_zone_char :: "char \<Rightarrow> bool" where
  "is_zone_char c \<longleftrightarrow> is_digit c \<or> is_lower c \<or> is_upper c \<or> c \<in> set ''-.:''"

definition is_ipv6 :: "string \<Rightarrow> bool" where
  "is_ipv6 s \<longleftrightarrow>
     (let head = takeWhile (\<lambda>c. c \<noteq> CHR ''%'') s; zone = dropWhile (\<lambda>c. c \<noteq> CHR ''%'') s
      in is_ipv6_plain head \<and> (zone = [] \<or> (tl zone \<noteq> [] \<and> list_all is_zone_char (tl zone))))"

definition is_ip :: "string \<Rightarrow> nat" where
  "is_ip s = (if is_ipv4 s then 4 else if is_ipv6 s then 6 else 0)"

section \<open>Numeric addresses and networks\<close>

definition ipv4_number :: "string \<Rightarrow> u32" where
  "ipv4_number value =
     foldl (\<lambda>total part. push_bit 8 total + of_nat (nat_of_digits part)) 0 (split_on (CHR ''.'') value)"

definition in_v4_network :: "string \<Rightarrow> string \<Rightarrow> nat \<Rightarrow> bool" where
  "in_v4_network value network prefix =
     (let address = ipv4_number value; m = push_bit (32 - prefix) 0xffffffff
      in address AND m = ipv4_number network AND m)"

text \<open>
  \<^verbatim>\<open>/(?:^|:)(\d{1,3}(?:\.\d{1,3}){3})$/\<close>: the text after the last colon, when it is four runs of
  one to three digits.
\<close>

definition embedded_v4 :: "string \<Rightarrow> string option" where
  "embedded_v4 s =
     (let t = last (split_on (CHR '':'') s); parts = split_on (CHR ''.'') t
      in if length parts = 4 \<and> list_all (\<lambda>p. p \<noteq> [] \<and> length p \<le> 3 \<and> list_all is_digit p) parts
         then Some t else None)"

fun hex_str :: "nat \<Rightarrow> string" where
  "hex_str n = (if n < 16 then [hex_digit n] else hex_str (n div 16) @ [hex_digit (n mod 16)])"

declare hex_str.simps [simp del]

definition ipv6_parts :: "string \<Rightarrow> string list" where
  "ipv6_parts value =
     (let normalized = to_lower value;
          normalized = (case embedded_v4 normalized of
            None \<Rightarrow> normalized
          | Some e \<Rightarrow> (let address = ipv4_number e
              in take (length normalized - length e) normalized
                 @ hex_str (unat (drop_bit 16 address)) @ '':'' @ hex_str (unat (address AND 0xffff))));
          halves = split_double_colon normalized;
          left = colon_parts (hd halves);
          right = (if 2 \<le> length halves then colon_parts (halves ! 1) else []);
          missing = 8 - length left - length right
      in if length halves = 2 then left @ replicate missing ''0'' @ right else left)"

definition ipv6_number :: "string \<Rightarrow> nat" where
  "ipv6_number value = foldl (\<lambda>total part. push_bit 16 total OR nat_of_hex part) 0 (ipv6_parts value)"

definition in_v6_network :: "string \<Rightarrow> string \<Rightarrow> nat \<Rightarrow> bool" where
  "in_v6_network value network prefix =
     (let shift = 128 - prefix in drop_bit shift (ipv6_number value) = drop_bit shift (ipv6_number network))"

definition denied_v4 :: "(string \<times> nat) list" where
  "denied_v4 =
     [(''0.0.0.0'', 8), (''10.0.0.0'', 8), (''100.64.0.0'', 10), (''127.0.0.0'', 8),
      (''169.254.0.0'', 16), (''172.16.0.0'', 12), (''192.0.0.0'', 24), (''192.0.2.0'', 24),
      (''192.88.99.0'', 24), (''192.168.0.0'', 16), (''198.18.0.0'', 15), (''198.51.100.0'', 24),
      (''203.0.113.0'', 24), (''224.0.0.0'', 4), (''240.0.0.0'', 4)]"

definition local_development_v4 :: "(string \<times> nat) list" where
  "local_development_v4 =
     [(''10.0.0.0'', 8), (''127.0.0.0'', 8), (''172.16.0.0'', 12), (''192.168.0.0'', 16)]"

definition denied_v6 :: "(string \<times> nat) list" where
  "denied_v6 =
     [(''::'', 96), (''::ffff:0:0'', 96), (''64:ff9b::'', 96), (''64:ff9b:1::'', 48), (''100::'', 64),
      (''2001::'', 23), (''2001:db8::'', 32), (''2002::'', 16), (''3fff::'', 20), (''5f00::'', 16),
      (''fc00::'', 7), (''fe80::'', 10), (''fec0::'', 10), (''ff00::'', 8)]"

text \<open>\<^verbatim>\<open>value.toLowerCase().split("%")[0]\<close>.\<close>

definition address_text :: "string \<Rightarrow> string" where
  "address_text value = hd (split_on (CHR ''%'') (to_lower value))"

definition is_denied_address :: "string \<Rightarrow> bool" where
  "is_denied_address value =
     (let normalized = address_text value
      in if is_ip normalized = 4 then list_ex (\<lambda>(n, p). in_v4_network normalized n p) denied_v4
         else if is_ip normalized = 6 then list_ex (\<lambda>(n, p). in_v6_network normalized n p) denied_v6
         else True)"

definition is_local_development_address :: "string \<Rightarrow> bool" where
  "is_local_development_address value =
     (let normalized = address_text value
      in if is_ip normalized = 4 then list_ex (\<lambda>(n, p). in_v4_network normalized n p) local_development_v4
         else if is_ip normalized = 6 then normalized = ''::1'' \<or> in_v6_network normalized ''fc00::'' 7
         else False)"

text \<open>
  \<^verbatim>\<open>/^(?:[a-z0-9](?:[a-z0-9-]*[a-z0-9])?\.)+localhost$/i\<close>: at least two labels, the last of which
  is \<open>localhost\<close> and the others start and end with a letter or digit.
\<close>

definition label_char :: "char \<Rightarrow> bool" where
  "label_char c \<longleftrightarrow> is_lower c \<or> is_upper c \<or> is_digit c"

definition is_label :: "string \<Rightarrow> bool" where
  "is_label l \<longleftrightarrow> l \<noteq> [] \<and> label_char (hd l) \<and> label_char (last l)
     \<and> list_all (\<lambda>c. label_char c \<or> c = CHR ''-'') l"

definition is_localhost_subdomain :: "string \<Rightarrow> bool" where
  "is_localhost_subdomain value =
     (let labels = split_on (CHR ''.'') value
      in 2 \<le> length labels \<and> to_lower (last labels) = ''localhost'' \<and> list_all is_label (butlast labels))"

section \<open>Denied IPv4 addresses\<close>

definition dotted :: "nat \<Rightarrow> nat \<Rightarrow> nat \<Rightarrow> nat \<Rightarrow> string" where
  "dotted a b c d = join ''.'' [nat_str a, nat_str b, nat_str c, nat_str d]"

definition v4_value :: "nat \<Rightarrow> nat \<Rightarrow> nat \<Rightarrow> nat \<Rightarrow> nat" where
  "v4_value a b c d = ((a * 256 + b) * 256 + c) * 256 + d"

lemma digit_not: "is_digit c \<Longrightarrow> c \<noteq> CHR ''.''" "is_digit c \<Longrightarrow> c \<noteq> CHR ''%''" "is_digit c \<Longrightarrow> lower_char c = c"
  by (auto simp: is_digit_def char_in_def lower_char_def)

lemma digit_char_0 [simp]: "digit_char 0 = CHR ''0''"
  by code_simp

lemma digit_char_zero: "d < 10 \<Longrightarrow> digit_char d = CHR ''0'' \<longleftrightarrow> d = 0"
  using digit_char_value [of d] by (auto simp: digit_value_def)

lemma nat_str_hd: "0 < n \<Longrightarrow> hd (nat_str n) \<noteq> CHR ''0''"
proof (induction n rule: nat_str.induct)
  case (1 n)
  show ?case
  proof (cases "n < 10")
    case True
    then show ?thesis
      using "1.prems" by (subst nat_str.simps) (simp add: digit_char_zero)
  next
    case False
    then have "hd (nat_str (n div 10)) \<noteq> CHR ''0''"
      using "1.IH" by simp
    then show ?thesis
      using False by (subst nat_str.simps) simp
  qed
qed

lemma octet_nat_str: "n < 256 \<Longrightarrow> is_octet (nat_str n)"
proof -
  assume n: "n < 256"
  have one: "length (nat_str k) = 1" if "k < 10" for k
    using that by (subst nat_str.simps) simp
  have two: "length (nat_str k) \<le> 2" if "k < 100" for k
    using that one [of "k div 10"] one [of k] by (subst nat_str.simps) (auto simp: less_mult_imp_div_less)
  have "length (nat_str n) \<le> 3"
    using n two [of "n div 10"] by (subst nat_str.simps) (auto simp: less_mult_imp_div_less)
  moreover have "nat_str 0 = ''0''"
    by (subst nat_str.simps) simp
  ultimately show ?thesis
    using n nat_str_hd [of n] nat_str_digits [of n] nat_of_digits_str [of n]
    by (cases "n = 0") (simp_all add: is_octet_def)
qed

lemma nat_str_digit: "c \<in> set (nat_str n) \<Longrightarrow> is_digit c"
  using nat_str_digits [of n] by (simp add: list_all_iff)

lemma split_dotted: "split_on (CHR ''.'') (dotted a b c d) = [nat_str a, nat_str b, nat_str c, nat_str d]"
  unfolding dotted_def by (rule split_on_join) (auto dest!: nat_str_digit dest: digit_not)

lemma dotted_is_ipv4:
  "a < 256 \<Longrightarrow> b < 256 \<Longrightarrow> c < 256 \<Longrightarrow> d < 256 \<Longrightarrow> is_ipv4 (dotted a b c d)"
  by (simp add: is_ipv4_def split_dotted octet_nat_str)

lemma address_text_dotted: "address_text (dotted a b c d) = dotted a b c d"
proof -
  have chars: "is_digit x \<or> x = CHR ''.''" if "x \<in> set (dotted a b c d)" for x
    using that by (auto simp: dotted_def dest: nat_str_digit)
  have "to_lower (dotted a b c d) = dotted a b c d"
  proof -
    have "lower_char (CHR ''.'') = CHR ''.''"
      by (simp add: lower_char_def Let_def)
    then show ?thesis
      unfolding to_lower_def by (intro map_idI) (auto dest!: chars simp: digit_not)
  qed
  moreover have "CHR ''%'' \<notin> set (dotted a b c d)"
    using chars digit_not by force
  ultimately show ?thesis
    by (simp add: address_text_def split_on_single)
qed

lemma ipv4_number_dotted: "ipv4_number (dotted a b c d) = of_nat (v4_value a b c d)"
  by (simp add: ipv4_number_def split_dotted v4_value_def push_bit_eq_mult)

lemma v4_value_less: "a < 256 \<Longrightarrow> b < 256 \<Longrightarrow> c < 256 \<Longrightarrow> d < 256 \<Longrightarrow> v4_value a b c d < 2 ^ 32"
  by (simp add: v4_value_def)

lemma mask_high_eq:
  fixes x y :: u32
  shows "x AND push_bit k 0xffffffff = y AND push_bit k 0xffffffff \<longleftrightarrow> drop_bit k x = drop_bit k y"
proof -
  have ones: "(0xffffffff :: u32) = -1"
    by simp
  have up: "z AND push_bit k (-1) = push_bit k (drop_bit k z)" for z :: u32
    by (rule bit_eqI) (auto simp: bit_simps)
  have down: "drop_bit k (z AND push_bit k (-1)) = drop_bit k z" for z :: u32
    by (rule bit_eqI) (auto simp: bit_simps dest: bit_imp_le_length)
  show ?thesis
    unfolding ones using up down by metis
qed

lemma drop_bit_of_nat_eq:
  assumes "m < 2 ^ 32" "n < 2 ^ 32"
  shows "drop_bit k (of_nat m :: u32) = drop_bit k (of_nat n) \<longleftrightarrow> m div 2 ^ k = n div 2 ^ k"
proof -
  have "unat (drop_bit k (of_nat j :: u32)) = j div 2 ^ k" if "j < 2 ^ 32" for j
    unfolding unat_drop_bit_eq using that by (simp add: unat_of_nat take_bit_nat_eq_self drop_bit_eq_div)
  then show ?thesis
    using assms by (metis word_unat_eq_iff)
qed

lemma in_v4_network_dotted:
  assumes "a < 256" "b < 256" "c < 256" "d < 256"
  shows "in_v4_network (dotted a b c d) network p \<longleftrightarrow>
    v4_value a b c d div 2 ^ (32 - p) = unat (ipv4_number network) div 2 ^ (32 - p)"
proof -
  have "ipv4_number network = of_nat (unat (ipv4_number network))" "unat (ipv4_number network) < 2 ^ 32"
    using unsigned_less [of "ipv4_number network"] by simp_all
  then show ?thesis
    using v4_value_less [OF assms]
    by (metis (mono_tags) in_v4_network_def ipv4_number_dotted mask_high_eq drop_bit_of_nat_eq)
qed

lemma digits_eq: "(y :: nat) < m \<Longrightarrow> a * m + y = n \<longleftrightarrow> a = n div m \<and> y = n mod m"
  by auto

lemma v4_value_div:
  assumes "b < 256" "c < 256" "d < 256"
  shows "v4_value a b c d div 256 = n \<longleftrightarrow> a = n div 256 div 256 \<and> b = n div 256 mod 256 \<and> c = n mod 256"
    "v4_value a b c d div 65536 = n \<longleftrightarrow> a = n div 256 \<and> b = n mod 256"
    "v4_value a b c d div 131072 = n \<longleftrightarrow> a = n div 128 \<and> b div 2 = n mod 128"
    "v4_value a b c d div 1048576 = n \<longleftrightarrow> a = n div 16 \<and> b div 16 = n mod 16"
    "v4_value a b c d div 4194304 = n \<longleftrightarrow> a = n div 4 \<and> b div 64 = n mod 4"
    "v4_value a b c d div 16777216 = a"
    "v4_value a b c d div 268435456 = a div 16"
proof -
  have "v4_value a b c d div 256 = (a * 256 + b) * 256 + c"
    using assms by (simp add: v4_value_def)
  then show "v4_value a b c d div 256 = n \<longleftrightarrow> a = n div 256 div 256 \<and> b = n div 256 mod 256 \<and> c = n mod 256"
    using digits_eq [OF assms(2), of "a * 256 + b" n] digits_eq [OF assms(1), of a "n div 256"] by metis
  have "v4_value a b c d div 65536 = a * 256 + b" "v4_value a b c d div 131072 = a * 128 + b div 2"
    "v4_value a b c d div 1048576 = a * 16 + b div 16" "v4_value a b c d div 4194304 = a * 4 + b div 64"
    using assms by (simp_all add: v4_value_def)
  moreover have "b div 2 < 128" "b div 16 < 16" "b div 64 < 4"
    using assms by simp_all
  ultimately show "v4_value a b c d div 65536 = n \<longleftrightarrow> a = n div 256 \<and> b = n mod 256"
    "v4_value a b c d div 131072 = n \<longleftrightarrow> a = n div 128 \<and> b div 2 = n mod 128"
    "v4_value a b c d div 1048576 = n \<longleftrightarrow> a = n div 16 \<and> b div 16 = n mod 16"
    "v4_value a b c d div 4194304 = n \<longleftrightarrow> a = n div 4 \<and> b div 64 = n mod 4"
    using digits_eq assms(1) by metis+
qed (use assms in \<open>simp_all add: v4_value_def\<close>)

lemma div_range: "0 < m \<Longrightarrow> (x :: nat) div m = k \<longleftrightarrow> k * m \<le> x \<and> x < k * m + m"
  by (metis add.commute div_nat_eqI div_times_less_eq_dividend dividend_less_div_times mult.commute mult_Suc_right)

text \<open>
  The meaning of each listed network for the octets of an address.
\<close>

lemma v4_network_meaning:
  assumes "a < 256" "b < 256" "c < 256" "d < 256"
  shows
    "in_v4_network (dotted a b c d) ''0.0.0.0'' 8 \<longleftrightarrow> a = 0"
    "in_v4_network (dotted a b c d) ''10.0.0.0'' 8 \<longleftrightarrow> a = 10"
    "in_v4_network (dotted a b c d) ''100.64.0.0'' 10 \<longleftrightarrow> a = 100 \<and> 64 \<le> b \<and> b < 128"
    "in_v4_network (dotted a b c d) ''127.0.0.0'' 8 \<longleftrightarrow> a = 127"
    "in_v4_network (dotted a b c d) ''169.254.0.0'' 16 \<longleftrightarrow> a = 169 \<and> b = 254"
    "in_v4_network (dotted a b c d) ''172.16.0.0'' 12 \<longleftrightarrow> a = 172 \<and> 16 \<le> b \<and> b < 32"
    "in_v4_network (dotted a b c d) ''192.0.0.0'' 24 \<longleftrightarrow> a = 192 \<and> b = 0 \<and> c = 0"
    "in_v4_network (dotted a b c d) ''192.0.2.0'' 24 \<longleftrightarrow> a = 192 \<and> b = 0 \<and> c = 2"
    "in_v4_network (dotted a b c d) ''192.88.99.0'' 24 \<longleftrightarrow> a = 192 \<and> b = 88 \<and> c = 99"
    "in_v4_network (dotted a b c d) ''192.168.0.0'' 16 \<longleftrightarrow> a = 192 \<and> b = 168"
    "in_v4_network (dotted a b c d) ''198.18.0.0'' 15 \<longleftrightarrow> a = 198 \<and> (b = 18 \<or> b = 19)"
    "in_v4_network (dotted a b c d) ''198.51.100.0'' 24 \<longleftrightarrow> a = 198 \<and> b = 51 \<and> c = 100"
    "in_v4_network (dotted a b c d) ''203.0.113.0'' 24 \<longleftrightarrow> a = 203 \<and> b = 0 \<and> c = 113"
    "in_v4_network (dotted a b c d) ''224.0.0.0'' 4 \<longleftrightarrow> 224 \<le> a \<and> a < 240"
    "in_v4_network (dotted a b c d) ''240.0.0.0'' 4 \<longleftrightarrow> 240 \<le> a"
proof -
  have texts: "ipv4_number ''0.0.0.0'' = 0" "ipv4_number ''10.0.0.0'' = 167772160" "ipv4_number ''100.64.0.0'' = 1681915904"
    "ipv4_number ''127.0.0.0'' = 2130706432" "ipv4_number ''169.254.0.0'' = 2851995648" "ipv4_number ''172.16.0.0'' = 2886729728"
    "ipv4_number ''192.0.0.0'' = 3221225472" "ipv4_number ''192.0.2.0'' = 3221225984" "ipv4_number ''192.88.99.0'' = 3227017984"
    "ipv4_number ''192.168.0.0'' = 3232235520" "ipv4_number ''198.18.0.0'' = 3323068416" "ipv4_number ''198.51.100.0'' = 3325256704"
    "ipv4_number ''203.0.113.0'' = 3405803776" "ipv4_number ''224.0.0.0'' = 3758096384" "ipv4_number ''240.0.0.0'' = 4026531840"
    by code_simp+
  note net = in_v4_network_dotted [OF assms]
  show
    "in_v4_network (dotted a b c d) ''0.0.0.0'' 8 \<longleftrightarrow> a = 0"
    "in_v4_network (dotted a b c d) ''10.0.0.0'' 8 \<longleftrightarrow> a = 10"
    "in_v4_network (dotted a b c d) ''100.64.0.0'' 10 \<longleftrightarrow> a = 100 \<and> 64 \<le> b \<and> b < 128"
    "in_v4_network (dotted a b c d) ''127.0.0.0'' 8 \<longleftrightarrow> a = 127"
    "in_v4_network (dotted a b c d) ''169.254.0.0'' 16 \<longleftrightarrow> a = 169 \<and> b = 254"
    "in_v4_network (dotted a b c d) ''172.16.0.0'' 12 \<longleftrightarrow> a = 172 \<and> 16 \<le> b \<and> b < 32"
    "in_v4_network (dotted a b c d) ''192.0.0.0'' 24 \<longleftrightarrow> a = 192 \<and> b = 0 \<and> c = 0"
    "in_v4_network (dotted a b c d) ''192.0.2.0'' 24 \<longleftrightarrow> a = 192 \<and> b = 0 \<and> c = 2"
    "in_v4_network (dotted a b c d) ''192.88.99.0'' 24 \<longleftrightarrow> a = 192 \<and> b = 88 \<and> c = 99"
    "in_v4_network (dotted a b c d) ''192.168.0.0'' 16 \<longleftrightarrow> a = 192 \<and> b = 168"
    "in_v4_network (dotted a b c d) ''198.18.0.0'' 15 \<longleftrightarrow> a = 198 \<and> (b = 18 \<or> b = 19)"
    "in_v4_network (dotted a b c d) ''198.51.100.0'' 24 \<longleftrightarrow> a = 198 \<and> b = 51 \<and> c = 100"
    "in_v4_network (dotted a b c d) ''203.0.113.0'' 24 \<longleftrightarrow> a = 203 \<and> b = 0 \<and> c = 113"
    "in_v4_network (dotted a b c d) ''224.0.0.0'' 4 \<longleftrightarrow> 224 \<le> a \<and> a < 240"
    "in_v4_network (dotted a b c d) ''240.0.0.0'' 4 \<longleftrightarrow> 240 \<le> a"
    using assms by (simp_all add: net v4_value_div texts) (auto simp: div_range)
qed

lemma denied_v4_dotted:
  assumes "a < 256" "b < 256" "c < 256" "d < 256"
  shows "is_denied_address (dotted a b c d) \<longleftrightarrow>
      a \<in> {0, 10, 127} \<or> 224 \<le> a \<or> a = 100 \<and> b \<in> {64..127} \<or> a = 169 \<and> b = 254
      \<or> a = 172 \<and> b \<in> {16..31} \<or> a = 192 \<and> b = 168 \<or> a = 198 \<and> b \<in> {18, 19}
      \<or> (a, b, c) \<in> {(192, 0, 0), (192, 0, 2), (192, 88, 99), (198, 51, 100), (203, 0, 113)}"
    and "is_local_development_address (dotted a b c d) \<longleftrightarrow>
      a \<in> {10, 127} \<or> a = 172 \<and> b \<in> {16..31} \<or> a = 192 \<and> b = 168"
proof -
  have four: "is_ip (address_text (dotted a b c d)) = 4"
    using assms by (simp add: is_ip_def address_text_dotted dotted_is_ipv4)
  have "224 \<le> a \<and> a < 240 \<or> 240 \<le> a \<longleftrightarrow> 224 \<le> a" "64 \<le> b \<and> b < 128 \<longleftrightarrow> b \<in> {64..127}"
    "16 \<le> b \<and> b < 32 \<longleftrightarrow> b \<in> {16..31}"
    by auto
  then show "is_denied_address (dotted a b c d) \<longleftrightarrow>
      a \<in> {0, 10, 127} \<or> 224 \<le> a \<or> a = 100 \<and> b \<in> {64..127} \<or> a = 169 \<and> b = 254
      \<or> a = 172 \<and> b \<in> {16..31} \<or> a = 192 \<and> b = 168 \<or> a = 198 \<and> b \<in> {18, 19}
      \<or> (a, b, c) \<in> {(192, 0, 0), (192, 0, 2), (192, 88, 99), (198, 51, 100), (203, 0, 113)}"
    "is_local_development_address (dotted a b c d) \<longleftrightarrow>
      a \<in> {10, 127} \<or> a = 172 \<and> b \<in> {16..31} \<or> a = 192 \<and> b = 168"
    using four unfolding is_denied_address_def is_local_development_address_def address_text_dotted
    by (simp_all add: denied_v4_def local_development_v4_def v4_network_meaning [OF assms]) auto
qed

text \<open>
  Property C7. For every dotted IPv4 address the deny list means exactly the reserved ranges:
  this host, private, carrier-grade NAT, loopback, link-local, IETF protocol, documentation,
  6to4 relay, benchmarking, multicast and the reserved block with broadcast. Only the private
  and loopback ones are local development addresses.
\<close>

theorem denied_v4_exact:
  assumes "a < 256" "b < 256" "c < 256" "d < 256"
  shows "(is_denied_address (dotted a b c d) \<longleftrightarrow>
      a \<in> {0, 10, 127} \<or> 224 \<le> a \<or> a = 100 \<and> b \<in> {64..127} \<or> a = 169 \<and> b = 254
      \<or> a = 172 \<and> b \<in> {16..31} \<or> a = 192 \<and> b = 168 \<or> a = 198 \<and> b \<in> {18, 19}
      \<or> (a, b, c) \<in> {(192, 0, 0), (192, 0, 2), (192, 88, 99), (198, 51, 100), (203, 0, 113)})
    \<and> (is_local_development_address (dotted a b c d) \<longleftrightarrow>
      a \<in> {10, 127} \<or> a = 172 \<and> b \<in> {16..31} \<or> a = 192 \<and> b = 168)"
  using denied_v4_dotted [OF assms] by (rule conjI)

lemma denied_v4_exact_witness: "is_denied_address ''10.1.2.3'' \<and> \<not> is_denied_address ''8.8.8.8''"
proof -
  have "''10.1.2.3'' = dotted 10 1 2 3" "''8.8.8.8'' = dotted 8 8 8 8"
    by code_simp+
  then show ?thesis
    using denied_v4_exact [of 10 1 2 3] denied_v4_exact [of 8 8 8 8] by simp
qed

section \<open>Denied IPv6 addresses\<close>

definition v6_text :: "nat list \<Rightarrow> string" where
  "v6_text gs = join '':'' (map hex_str gs)"

definition v6_value :: "nat list \<Rightarrow> nat" where
  "v6_value gs = foldl (\<lambda>t g. t * 65536 + g) 0 gs"

definition v6_groups :: "nat list \<Rightarrow> bool" where
  "v6_groups gs \<longleftrightarrow> length gs = 8 \<and> list_all (\<lambda>g. g < 65536) gs"

lemma hex_digit_value [simp]: "d < 16 \<Longrightarrow> hex_value (hex_digit d) = d"
  and hex_digit_is_hex [simp]: "d < 16 \<Longrightarrow> is_hex (hex_digit d)"
  by (auto simp: hex_value_def hex_digit_def is_digit_def char_in_def digit_value_def is_hex_def)

lemma nat_of_hex_snoc: "nat_of_hex (s @ [c]) = 16 * nat_of_hex s + hex_value c"
  by (simp add: nat_of_hex_def)

lemma nat_of_hex_str [simp]: "nat_of_hex (hex_str n) = n"
proof (induction n rule: hex_str.induct)
  case (1 n)
  then show ?case
    by (subst hex_str.simps) (simp add: nat_of_hex_snoc, simp add: nat_of_hex_def)
qed

lemma hex_str_chars: "x \<in> set (hex_str n) \<Longrightarrow> \<exists>d < 16. x = hex_digit d"
proof (induction n rule: hex_str.induct)
  case (1 n)
  have "n mod 16 < 16" by simp
  then have "\<exists>d < 16. hex_digit (n mod 16) = hex_digit d"
    by blast
  with 1 show ?case
    by (subst (asm) (2) hex_str.simps) (auto split: if_splits)
qed

lemma hex_str_nonempty [simp]: "hex_str n \<noteq> []"
  by (subst hex_str.simps) simp

lemma hex_str_length: "n < 16 ^ k \<Longrightarrow> 0 < k \<Longrightarrow> length (hex_str n) \<le> k"
proof (induction k arbitrary: n)
  case (Suc k)
  then show ?case
    using Suc.IH [of "n div 16"] by (subst hex_str.simps) (cases k; auto simp: less_mult_imp_div_less)
qed simp

lemma hex_str_group: "n < 65536 \<Longrightarrow> is_group (hex_str n)"
  using hex_str_length [of n 4] hex_str_chars [of _ n] by (fastforce simp: is_group_def list_all_iff)

lemma hex_digit_not:
  "d < 16 \<Longrightarrow> hex_digit d \<noteq> CHR '':'' \<and> hex_digit d \<noteq> CHR ''.'' \<and> hex_digit d \<noteq> CHR ''%''
     \<and> lower_char (hex_digit d) = hex_digit d"
proof -
  have "list_all (\<lambda>d. hex_digit d \<noteq> CHR '':'' \<and> hex_digit d \<noteq> CHR ''.'' \<and> hex_digit d \<noteq> CHR ''%''
     \<and> lower_char (hex_digit d) = hex_digit d) [0..<16]"
    by code_simp
  then show "d < 16 \<Longrightarrow> ?thesis"
    by (simp add: list_all_iff)
qed

lemma hex_str_not:
  "CHR '':'' \<notin> set (hex_str n)" "CHR ''.'' \<notin> set (hex_str n)" "CHR ''%'' \<notin> set (hex_str n)"
  using hex_str_chars [of _ n] hex_digit_not by metis+

lemma v6_text_not: "CHR ''.'' \<notin> set (v6_text gs)" "CHR ''%'' \<notin> set (v6_text gs)"
  using set_join [of "'':''" "map hex_str gs"] hex_str_not by (auto simp: v6_text_def)

lemma to_lower_v6_text: "to_lower (v6_text gs) = v6_text gs"
proof -
  have "lower_char x = x" if "x \<in> set (v6_text gs)" for x
  proof -
    have "x = CHR '':'' \<or> (\<exists>g. x \<in> set (hex_str g))"
      using that set_join [of "'':''" "map hex_str gs"] by (auto simp: v6_text_def)
    moreover have "lower_char (CHR '':'') = CHR '':''"
      by (simp add: lower_char_def Let_def)
    ultimately show ?thesis
      using hex_str_chars hex_digit_not by blast
  qed
  then show ?thesis
    unfolding to_lower_def by (intro map_idI)
qed

lemma split_v6_text: "gs \<noteq> [] \<Longrightarrow> split_on (CHR '':'') (v6_text gs) = map hex_str gs"
  unfolding v6_text_def by (rule split_on_join) (auto simp: hex_str_not)

lemma split_double_colon_none:
  "(\<And>u v. s \<noteq> u @ ''::'' @ v) \<Longrightarrow> split_double_colon s = [s]"
proof (induction s rule: split_double_colon.induct)
  case (3 c d cs)
  have "\<not> (c = CHR '':'' \<and> d = CHR '':'')"
    using "3.prems" [of "[]" cs] by auto
  moreover have "d # cs \<noteq> u @ ''::'' @ v" for u v
    using "3.prems" [of "c # u" v] by auto
  ultimately show ?case
    using "3.IH"(2) by simp
qed simp_all

lemma split_double_colon_v6_text:
  assumes "gs \<noteq> []"
  shows "split_double_colon (v6_text gs) = [v6_text gs]"
proof (rule split_double_colon_none)
  fix u v
  show "v6_text gs \<noteq> u @ ''::'' @ v"
  proof
    assume "v6_text gs = u @ ''::'' @ v"
    then have "[] \<in> set (split_on (CHR '':'') (v6_text gs))"
      using split_on_append_sep [of "CHR '':''" u "CHR '':'' # v"] by simp
    then show False
      unfolding split_v6_text [OF assms] using hex_str_nonempty by (auto simp: eq_commute [of "[]"])
  qed
qed

lemma v6_text_nonempty: "gs \<noteq> [] \<Longrightarrow> v6_text gs \<noteq> []"
  by (cases gs) (simp_all add: v6_text_def join_Cons)

lemma embedded_v4_none:
  assumes "gs \<noteq> []"
  shows "embedded_v4 (v6_text gs) = None"
proof -
  have "last (map hex_str gs) \<in> hex_str ` set gs"
    using assms by (metis last_in_set length_0_conv length_map list.set_map)
  then obtain g where "last (map hex_str gs) = hex_str g" by blast
  then show ?thesis
    using split_v6_text [OF assms] split_on_single [OF hex_str_not(2)] by (simp add: embedded_v4_def Let_def)
qed

lemma group_count_groups: "list_all is_group ps \<Longrightarrow> group_count v4 ps = Some (length ps)"
  by (induction v4 ps rule: group_count.induct) auto

lemma is_ip_v6_text:
  assumes "v6_groups gs"
  shows "is_ip (v6_text gs) = 6"
proof -
  have gs: "gs \<noteq> []" "length gs = 8" "list_all (\<lambda>g. g < 65536) gs"
    using assms by (auto simp: v6_groups_def)
  have n4: "\<not> is_ipv4 (v6_text gs)"
    by (simp add: is_ipv4_def split_on_single [OF v6_text_not(1)])
  have "list_all is_group (map hex_str gs)"
    using gs(3) hex_str_group by (simp add: list_all_iff)
  then have plain: "is_ipv6_plain (v6_text gs)"
    using gs by (simp add: is_ipv6_plain_def split_double_colon_v6_text colon_parts_def v6_text_nonempty
        split_v6_text group_count_groups)
  have "takeWhile (\<lambda>c. c \<noteq> x) s = s \<and> dropWhile (\<lambda>c. c \<noteq> x) s = []" if "x \<notin> set s" for x s
    using that by (induction s) auto
  note td = this [OF v6_text_not(2) [of gs]]
  have "is_ipv6 (v6_text gs)"
    unfolding is_ipv6_def Let_def conjunct1 [OF td] conjunct2 [OF td] by (simp add: plain)
  with n4 show ?thesis
    by (simp add: is_ip_def)
qed

lemma push_or: "g < 65536 \<Longrightarrow> push_bit 16 t OR g = t * 65536 + (g :: nat)"
proof -
  assume "g < 65536"
  then have "take_bit 16 g = g"
    by (simp add: take_bit_nat_eq_self)
  then have "\<not> bit (push_bit 16 t) n \<or> \<not> bit g n" for n
    by (metis bit_push_bit_iff bit_take_bit_iff not_le)
  then have "push_bit 16 t + g = push_bit 16 t OR g"
    by (intro disjunctive_add) blast
  then show ?thesis
    by (simp add: push_bit_eq_mult)
qed

lemma foldl_parts:
  "list_all (\<lambda>g. g < 65536) (map nat_of_hex ps) \<Longrightarrow>
     foldl (\<lambda>total part. push_bit 16 total OR nat_of_hex part) t ps = foldl (\<lambda>t g. t * 65536 + g) t (map nat_of_hex ps)"
  by (induction ps arbitrary: t) (simp_all add: push_or)

lemma ipv6_number_parts:
  "ipv6_parts s = ps \<Longrightarrow> map nat_of_hex ps = gs \<Longrightarrow> list_all (\<lambda>g. g < 65536) gs \<Longrightarrow> ipv6_number s = v6_value gs"
  by (simp add: ipv6_number_def v6_value_def foldl_parts)

lemma ipv6_number_v6_text:
  assumes "v6_groups gs"
  shows "ipv6_number (v6_text gs) = v6_value gs"
proof (rule ipv6_number_parts)
  have gs: "gs \<noteq> []"
    using assms by (auto simp: v6_groups_def)
  then show "ipv6_parts (v6_text gs) = map hex_str gs"
    by (simp add: ipv6_parts_def to_lower_v6_text embedded_v4_none split_double_colon_v6_text Let_def
        colon_parts_def v6_text_nonempty split_v6_text)
  show "map nat_of_hex (map hex_str gs) = gs"
    by (simp add: comp_def)
  show "list_all (\<lambda>g. g < 65536) gs"
    using assms by (simp add: v6_groups_def)
qed

text \<open>A prefix of a value in base 65536.\<close>

lemma v6_value_snoc: "v6_value (gs @ [g]) = v6_value gs * 65536 + g"
  by (simp add: v6_value_def)

lemma v6_value_prefix:
  "list_all (\<lambda>g. g < 65536) ys \<Longrightarrow> v6_value (xs @ ys) div 65536 ^ length ys = v6_value xs"
proof (induction ys rule: rev_induct)
  case (snoc y ys)
  have "v6_value (xs @ ys @ [y]) div 65536 = v6_value (xs @ ys)"
    using snoc.prems v6_value_snoc [of "xs @ ys" y] by simp
  then have "v6_value (xs @ ys @ [y]) div (65536 * 65536 ^ length ys) = v6_value xs"
    using snoc by (simp only: div_mult2_eq list_all_append)
  then show ?case by simp
qed simp

lemma v6_value_inj:
  "length xs = length ys \<Longrightarrow> list_all (\<lambda>g. g < 65536) xs \<Longrightarrow> list_all (\<lambda>g. g < 65536) ys \<Longrightarrow>
     v6_value xs = v6_value ys \<longleftrightarrow> xs = ys"
proof (induction xs arbitrary: ys rule: rev_induct)
  case (snoc x xs)
  then obtain zs z where ys: "ys = zs @ [z]" "length zs = length xs"
    by (cases ys rule: rev_cases) auto
  have "v6_value xs * 65536 + x = v6_value zs * 65536 + z \<longleftrightarrow> v6_value xs = v6_value zs \<and> x = z"
    using snoc.prems ys by (simp add: digits_eq)
  with snoc ys show ?case by (simp add: v6_value_snoc)
qed simp

text \<open>
  Two addresses agree on a prefix of \<open>16 * k + r\<close> bits when their first \<open>k\<close> groups agree and the
  next ones agree on their first \<open>r\<close> bits.
\<close>

lemma v6_value_div:
  assumes "v6_groups gs" "k < 8" "r < 16" "p = 16 * k + r"
  shows "v6_value gs div 2 ^ (128 - p) = v6_value (take k gs) * 2 ^ r + gs ! k div 2 ^ (16 - r)"
proof -
  have len: "length gs = 8" "list_all (\<lambda>g. g < 65536) gs"
    using assms(1) by (simp_all add: v6_groups_def)
  have "(65536 :: nat) ^ (7 - k) * 2 ^ (16 - r) = 2 ^ (16 * (7 - k) + (16 - r))"
    by (simp add: power_add power_mult)
  also have "16 * (7 - k) + (16 - r) = 128 - p"
    using assms by simp
  finally have pow: "(2 :: nat) ^ (128 - p) = 65536 ^ (7 - k) * 2 ^ (16 - r)" ..
  have gs: "gs = take k gs @ gs ! k # drop (Suc k) gs"
    using assms(2) len(1) by (simp add: id_take_nth_drop)
  have "length (drop (Suc k) gs) = 7 - k" "list_all (\<lambda>g. g < 65536) (drop (Suc k) gs)"
    using len by (auto simp: list_all_iff dest: in_set_dropD)
  then have "v6_value ((take k gs @ [gs ! k]) @ drop (Suc k) gs) div 65536 ^ (7 - k) = v6_value (take k gs @ [gs ! k])"
    using v6_value_prefix [of "drop (Suc k) gs" "take k gs @ [gs ! k]"] by simp
  moreover have "(take k gs @ [gs ! k]) @ drop (Suc k) gs = gs"
    using gs by simp
  ultimately have "v6_value gs div 65536 ^ (7 - k) = v6_value (take k gs @ [gs ! k])"
    by simp
  then have "v6_value gs div 2 ^ (128 - p) = (v6_value (take k gs) * 65536 + gs ! k) div 2 ^ (16 - r)"
    unfolding pow div_mult2_eq v6_value_snoc by simp
  also have "(65536 :: nat) = 2 ^ r * 2 ^ (16 - r)"
    using assms(3) by (simp flip: power_add)
  also have "(v6_value (take k gs) * (2 ^ r * 2 ^ (16 - r)) + gs ! k) div 2 ^ (16 - r)
      = v6_value (take k gs) * 2 ^ r + gs ! k div 2 ^ (16 - r)"
    by (simp flip: mult.assoc)
  finally show ?thesis .
qed

lemma in_v6_network_groups:
  assumes "v6_groups gs" "v6_groups ns" "ipv6_number network = v6_value ns"
    and "k < 8" "r < 16" "p = 16 * k + r"
  shows "in_v6_network (v6_text gs) network p \<longleftrightarrow>
    take k gs = take k ns \<and> gs ! k div 2 ^ (16 - r) = ns ! k div 2 ^ (16 - r)"
proof -
  have small: "hs ! k div 2 ^ (16 - r) < 2 ^ r" if "v6_groups hs" for hs
  proof -
    have "hs ! k < 65536"
      using that assms(4) by (simp add: v6_groups_def list_all_length)
    also have "(65536 :: nat) = 2 ^ r * 2 ^ (16 - r)"
      using assms(5) by (simp flip: power_add)
    finally show ?thesis
      by (simp add: less_mult_imp_div_less)
  qed
  have "v6_value (take k gs) = v6_value (take k ns) \<longleftrightarrow> take k gs = take k ns"
    using assms(1,2) by (intro v6_value_inj) (auto simp: v6_groups_def list_all_length)
  moreover have "x * m + y = x' * m + y' \<longleftrightarrow> x = x' \<and> y = y'" if "y < m" "y' < m" for x x' y y' m :: nat
    using that digits_eq [of y m x] by auto
  ultimately show ?thesis
    unfolding in_v6_network_def Let_def drop_bit_eq_div ipv6_number_v6_text [OF assms(1)] assms(3)
      v6_value_div [OF assms(1,4,5,6)] v6_value_div [OF assms(2,4,5,6)]
    using small [OF assms(1)] small [OF assms(2)] by metis
qed

lemma denied_v6_numbers:
  "ipv6_number ''::'' = v6_value [0, 0, 0, 0, 0, 0, 0, 0]"
  "ipv6_number ''::ffff:0:0'' = v6_value [0, 0, 0, 0, 0, 0xffff, 0, 0]"
  "ipv6_number ''64:ff9b::'' = v6_value [0x64, 0xff9b, 0, 0, 0, 0, 0, 0]"
  "ipv6_number ''64:ff9b:1::'' = v6_value [0x64, 0xff9b, 1, 0, 0, 0, 0, 0]"
  "ipv6_number ''100::'' = v6_value [0x100, 0, 0, 0, 0, 0, 0, 0]"
  "ipv6_number ''2001::'' = v6_value [0x2001, 0, 0, 0, 0, 0, 0, 0]"
  "ipv6_number ''2001:db8::'' = v6_value [0x2001, 0xdb8, 0, 0, 0, 0, 0, 0]"
  "ipv6_number ''2002::'' = v6_value [0x2002, 0, 0, 0, 0, 0, 0, 0]"
  "ipv6_number ''3fff::'' = v6_value [0x3fff, 0, 0, 0, 0, 0, 0, 0]"
  "ipv6_number ''5f00::'' = v6_value [0x5f00, 0, 0, 0, 0, 0, 0, 0]"
  "ipv6_number ''fc00::'' = v6_value [0xfc00, 0, 0, 0, 0, 0, 0, 0]"
  "ipv6_number ''fe80::'' = v6_value [0xfe80, 0, 0, 0, 0, 0, 0, 0]"
  "ipv6_number ''fec0::'' = v6_value [0xfec0, 0, 0, 0, 0, 0, 0, 0]"
  "ipv6_number ''ff00::'' = v6_value [0xff00, 0, 0, 0, 0, 0, 0, 0]"
proof -
  have parts:
    "ipv6_parts ''::'' = [''0'', ''0'', ''0'', ''0'', ''0'', ''0'', ''0'', ''0'']"
    "ipv6_parts ''::ffff:0:0'' = [''0'', ''0'', ''0'', ''0'', ''0'', ''ffff'', ''0'', ''0'']"
    "ipv6_parts ''64:ff9b::'' = [''64'', ''ff9b'', ''0'', ''0'', ''0'', ''0'', ''0'', ''0'']"
    "ipv6_parts ''64:ff9b:1::'' = [''64'', ''ff9b'', ''1'', ''0'', ''0'', ''0'', ''0'', ''0'']"
    "ipv6_parts ''100::'' = [''100'', ''0'', ''0'', ''0'', ''0'', ''0'', ''0'', ''0'']"
    "ipv6_parts ''2001::'' = [''2001'', ''0'', ''0'', ''0'', ''0'', ''0'', ''0'', ''0'']"
    "ipv6_parts ''2001:db8::'' = [''2001'', ''db8'', ''0'', ''0'', ''0'', ''0'', ''0'', ''0'']"
    "ipv6_parts ''2002::'' = [''2002'', ''0'', ''0'', ''0'', ''0'', ''0'', ''0'', ''0'']"
    "ipv6_parts ''3fff::'' = [''3fff'', ''0'', ''0'', ''0'', ''0'', ''0'', ''0'', ''0'']"
    "ipv6_parts ''5f00::'' = [''5f00'', ''0'', ''0'', ''0'', ''0'', ''0'', ''0'', ''0'']"
    "ipv6_parts ''fc00::'' = [''fc00'', ''0'', ''0'', ''0'', ''0'', ''0'', ''0'', ''0'']"
    "ipv6_parts ''fe80::'' = [''fe80'', ''0'', ''0'', ''0'', ''0'', ''0'', ''0'', ''0'']"
    "ipv6_parts ''fec0::'' = [''fec0'', ''0'', ''0'', ''0'', ''0'', ''0'', ''0'', ''0'']"
    "ipv6_parts ''ff00::'' = [''ff00'', ''0'', ''0'', ''0'', ''0'', ''0'', ''0'', ''0'']"
    by code_simp+
  note hex = nat_of_hex_def hex_value_def is_digit_def char_in_def digit_value_def
  show
    "ipv6_number ''::'' = v6_value [0, 0, 0, 0, 0, 0, 0, 0]"
    "ipv6_number ''::ffff:0:0'' = v6_value [0, 0, 0, 0, 0, 0xffff, 0, 0]"
    "ipv6_number ''64:ff9b::'' = v6_value [0x64, 0xff9b, 0, 0, 0, 0, 0, 0]"
    "ipv6_number ''64:ff9b:1::'' = v6_value [0x64, 0xff9b, 1, 0, 0, 0, 0, 0]"
    "ipv6_number ''100::'' = v6_value [0x100, 0, 0, 0, 0, 0, 0, 0]"
    "ipv6_number ''2001::'' = v6_value [0x2001, 0, 0, 0, 0, 0, 0, 0]"
    "ipv6_number ''2001:db8::'' = v6_value [0x2001, 0xdb8, 0, 0, 0, 0, 0, 0]"
    "ipv6_number ''2002::'' = v6_value [0x2002, 0, 0, 0, 0, 0, 0, 0]"
    "ipv6_number ''3fff::'' = v6_value [0x3fff, 0, 0, 0, 0, 0, 0, 0]"
    "ipv6_number ''5f00::'' = v6_value [0x5f00, 0, 0, 0, 0, 0, 0, 0]"
    "ipv6_number ''fc00::'' = v6_value [0xfc00, 0, 0, 0, 0, 0, 0, 0]"
    "ipv6_number ''fe80::'' = v6_value [0xfe80, 0, 0, 0, 0, 0, 0, 0]"
    "ipv6_number ''fec0::'' = v6_value [0xfec0, 0, 0, 0, 0, 0, 0, 0]"
    "ipv6_number ''ff00::'' = v6_value [0xff00, 0, 0, 0, 0, 0, 0, 0]"
    by (rule parts [THEN ipv6_number_parts]; simp add: hex)+
qed

lemma address_text_v6_text: "address_text (v6_text gs) = v6_text gs"
  by (simp add: address_text_def to_lower_v6_text split_on_single v6_text_not)

lemma v6_network_meaning:
  assumes "v6_groups [a, b, c, d, e, f, g, h]"
  defines "s \<equiv> v6_text [a, b, c, d, e, f, g, h]"
  shows
    "in_v6_network s ''::'' 96 \<longleftrightarrow> [a, b, c, d, e, f] = [0, 0, 0, 0, 0, 0]"
    "in_v6_network s ''::ffff:0:0'' 96 \<longleftrightarrow> [a, b, c, d, e, f] = [0, 0, 0, 0, 0, 0xffff]"
    "in_v6_network s ''64:ff9b::'' 96 \<longleftrightarrow> [a, b, c, d, e, f] = [0x64, 0xff9b, 0, 0, 0, 0]"
    "in_v6_network s ''64:ff9b:1::'' 48 \<longleftrightarrow> [a, b, c] = [0x64, 0xff9b, 1]"
    "in_v6_network s ''100::'' 64 \<longleftrightarrow> [a, b, c, d] = [0x100, 0, 0, 0]"
    "in_v6_network s ''2001::'' 23 \<longleftrightarrow> a = 0x2001 \<and> b div 512 = 0"
    "in_v6_network s ''2001:db8::'' 32 \<longleftrightarrow> a = 0x2001 \<and> b = 0xdb8"
    "in_v6_network s ''2002::'' 16 \<longleftrightarrow> a = 0x2002"
    "in_v6_network s ''3fff::'' 20 \<longleftrightarrow> a = 0x3fff \<and> b div 4096 = 0"
    "in_v6_network s ''5f00::'' 16 \<longleftrightarrow> a = 0x5f00"
    "in_v6_network s ''fc00::'' 7 \<longleftrightarrow> a div 512 = 126"
    "in_v6_network s ''fe80::'' 10 \<longleftrightarrow> a div 64 = 1018"
    "in_v6_network s ''fec0::'' 10 \<longleftrightarrow> a div 64 = 1019"
    "in_v6_network s ''ff00::'' 8 \<longleftrightarrow> a div 256 = 255"
proof -
  have lt: "a < 65536" "b < 65536" "c < 65536" "d < 65536" "e < 65536" "f < 65536" "g < 65536"
    using assms(1) by (simp_all add: v6_groups_def)
  have ok: "v6_groups ns" if "length ns = 8" "list_all (\<lambda>g. g < 65536) ns" for ns
    using that by (simp add: v6_groups_def)
  note at = in_v6_network_groups [OF assms(1) ok, folded s_def]
  show "in_v6_network s ''::'' 96 \<longleftrightarrow> [a, b, c, d, e, f] = [0, 0, 0, 0, 0, 0]"
    by (subst at [OF _ _ denied_v6_numbers(1), where k = 6 and r = 0]) (use lt in simp_all)
  show "in_v6_network s ''::ffff:0:0'' 96 \<longleftrightarrow> [a, b, c, d, e, f] = [0, 0, 0, 0, 0, 0xffff]"
    by (subst at [OF _ _ denied_v6_numbers(2), where k = 6 and r = 0]) (use lt in simp_all)
  show "in_v6_network s ''64:ff9b::'' 96 \<longleftrightarrow> [a, b, c, d, e, f] = [0x64, 0xff9b, 0, 0, 0, 0]"
    by (subst at [OF _ _ denied_v6_numbers(3), where k = 6 and r = 0]) (use lt in simp_all)
  show "in_v6_network s ''64:ff9b:1::'' 48 \<longleftrightarrow> [a, b, c] = [0x64, 0xff9b, 1]"
    by (subst at [OF _ _ denied_v6_numbers(4), where k = 3 and r = 0]) (use lt in simp_all)
  show "in_v6_network s ''100::'' 64 \<longleftrightarrow> [a, b, c, d] = [0x100, 0, 0, 0]"
    by (subst at [OF _ _ denied_v6_numbers(5), where k = 4 and r = 0]) (use lt in simp_all)
  show "in_v6_network s ''2001::'' 23 \<longleftrightarrow> a = 0x2001 \<and> b div 512 = 0"
    by (subst at [OF _ _ denied_v6_numbers(6), where k = 1 and r = 7]) (use lt in simp_all)
  show "in_v6_network s ''2001:db8::'' 32 \<longleftrightarrow> a = 0x2001 \<and> b = 0xdb8"
    by (subst at [OF _ _ denied_v6_numbers(7), where k = 2 and r = 0]) (use lt in simp_all)
  show "in_v6_network s ''2002::'' 16 \<longleftrightarrow> a = 0x2002"
    by (subst at [OF _ _ denied_v6_numbers(8), where k = 1 and r = 0]) (use lt in simp_all)
  show "in_v6_network s ''3fff::'' 20 \<longleftrightarrow> a = 0x3fff \<and> b div 4096 = 0"
    by (subst at [OF _ _ denied_v6_numbers(9), where k = 1 and r = 4]) (use lt in simp_all)
  show "in_v6_network s ''5f00::'' 16 \<longleftrightarrow> a = 0x5f00"
    by (subst at [OF _ _ denied_v6_numbers(10), where k = 1 and r = 0]) (use lt in simp_all)
  show "in_v6_network s ''fc00::'' 7 \<longleftrightarrow> a div 512 = 126"
    by (subst at [OF _ _ denied_v6_numbers(11), where k = 0 and r = 7]) (use lt in simp_all)
  show "in_v6_network s ''fe80::'' 10 \<longleftrightarrow> a div 64 = 1018"
    by (subst at [OF _ _ denied_v6_numbers(12), where k = 0 and r = 10]) (use lt in simp_all)
  show "in_v6_network s ''fec0::'' 10 \<longleftrightarrow> a div 64 = 1019"
    by (subst at [OF _ _ denied_v6_numbers(13), where k = 0 and r = 10]) (use lt in simp_all)
  show "in_v6_network s ''ff00::'' 8 \<longleftrightarrow> a div 256 = 255"
    by (subst at [OF _ _ denied_v6_numbers(14), where k = 0 and r = 8]) (use lt in simp_all)
qed

text \<open>
  Property C8. For every IPv6 address written with eight groups the deny list means exactly:
  the unspecified, loopback and IPv4-compatible block, IPv4-mapped addresses, both NAT64
  prefixes, discard-only, the IETF protocol block with Teredo, documentation (both prefixes),
  6to4, segment routing, unique local, link-local, site-local and multicast addresses.
\<close>

theorem denied_v6_exact:
  assumes "v6_groups [a, b, c, d, e, f, g, h]"
  shows "is_denied_address (v6_text [a, b, c, d, e, f, g, h]) \<longleftrightarrow>
      [a, b, c, d, e, f] = [0, 0, 0, 0, 0, 0] \<or> [a, b, c, d, e, f] = [0, 0, 0, 0, 0, 0xffff]
      \<or> [a, b, c, d, e, f] = [0x64, 0xff9b, 0, 0, 0, 0] \<or> [a, b, c] = [0x64, 0xff9b, 1]
      \<or> [a, b, c, d] = [0x100, 0, 0, 0] \<or> a = 0x2001 \<and> b < 0x200 \<or> a = 0x2001 \<and> b = 0xdb8
      \<or> a = 0x2002 \<or> a = 0x3fff \<and> b < 0x1000 \<or> a = 0x5f00
      \<or> a \<in> {0xfc00..0xfdff} \<or> 0xfe80 \<le> a"
proof -
  have six: "is_ip (v6_text [a, b, c, d, e, f, g, h]) = 6"
    using assms by (rule is_ip_v6_text)
  have a: "a < 65536"
    using assms by (simp add: v6_groups_def)
  have ranges: "a div 512 = 126 \<longleftrightarrow> a \<in> {0xfc00..0xfdff}" "b div 512 = 0 \<longleftrightarrow> b < 0x200" "b div 4096 = 0 \<longleftrightarrow> b < 0x1000"
    "a div 64 = 1018 \<or> a div 64 = 1019 \<or> a div 256 = 255 \<longleftrightarrow> 0xfe80 \<le> a"
    using a by (simp_all only: div_range zero_less_numeral atLeastAtMost_iff) presburger+
  have "is_denied_address (v6_text [a, b, c, d, e, f, g, h]) \<longleftrightarrow>
      list_ex (\<lambda>(n, p). in_v6_network (v6_text [a, b, c, d, e, f, g, h]) n p) denied_v6"
    unfolding is_denied_address_def Let_def address_text_v6_text six by simp
  also have "\<dots> \<longleftrightarrow> [a, b, c, d, e, f] = [0, 0, 0, 0, 0, 0] \<or> [a, b, c, d, e, f] = [0, 0, 0, 0, 0, 0xffff]
      \<or> [a, b, c, d, e, f] = [0x64, 0xff9b, 0, 0, 0, 0] \<or> [a, b, c] = [0x64, 0xff9b, 1]
      \<or> [a, b, c, d] = [0x100, 0, 0, 0] \<or> a = 0x2001 \<and> b div 512 = 0 \<or> a = 0x2001 \<and> b = 0xdb8
      \<or> a = 0x2002 \<or> a = 0x3fff \<and> b div 4096 = 0 \<or> a = 0x5f00 \<or> a div 512 = 126
      \<or> a div 64 = 1018 \<or> a div 64 = 1019 \<or> a div 256 = 255"
    by (simp only: denied_v6_def list_ex_iff list.set bex_simps prod.case v6_network_meaning [OF assms] simp_thms)
  finally show ?thesis
    by (simp only: ranges)
qed

lemma denied_v6_exact_witness:
  "is_denied_address ''0:0:0:0:0:ffff:808:808'' \<and> \<not> is_denied_address ''2606:4700:4700:0:0:0:0:1111''"
proof -
  have t: "''0:0:0:0:0:ffff:808:808'' = v6_text [0, 0, 0, 0, 0, 0xffff, 0x808, 0x808]"
    "''2606:4700:4700:0:0:0:0:1111'' = v6_text [0x2606, 0x4700, 0x4700, 0, 0, 0, 0, 0x1111]"
    by (simp_all add: v6_text_def hex_str.simps hex_digit_def char_of_def bit_0)
  show ?thesis
    unfolding t by (subst (1 2) denied_v6_exact) (simp_all add: v6_groups_def)
qed

end
