(* ===== verification/Settings.thy ===== *)
theory Settings
  imports Addresses
begin

text \<open>
  The configuration of the crawler, the first half of \<^verbatim>\<open>crawler/security.ts\<close>: environment
  variables, the central configuration file and its validation, and the settings made of both.
  The file system and \<^verbatim>\<open>JSON.parse\<close> are arguments: reading or decoding gives \<open>None\<close> where the
  code catches an exception.
\<close>

section \<open>Errors and settings\<close>

record crawler_error =
  ce_code :: string
  ce_message :: string

definition configuration_error :: "string \<Rightarrow> crawler_error" where
  "configuration_error message = \<lparr>ce_code = ''crawler_configuration_invalid'', ce_message = message\<rparr>"

record crawler_settings =
  cs_database :: "string option"
  cs_max_pages :: int
  cs_max_bytes :: int
  cs_data_dir :: string
  cs_upload_dir :: "string option"
  cs_allow_localhost :: bool
  cs_ports :: "int list"

section \<open>Numbers in text\<close>

text \<open>
  \<^verbatim>\<open>Number(text)\<close> where the result is a whole number, \<open>None\<close> where it is not (or is \<^verbatim>\<open>NaN\<close>).
  Literals may have a prefix, a sign, a fraction and an exponent. A fraction that is not whole
  is never rounded to a whole number here; a double would round one of more than 15 digits.
\<close>

definition radix_number :: "(char \<Rightarrow> bool) \<Rightarrow> (char \<Rightarrow> nat) \<Rightarrow> nat \<Rightarrow> string \<Rightarrow> int option" where
  "radix_number ok val b s =
     (if s \<noteq> [] \<and> list_all ok s then Some (int (foldl (\<lambda>n c. b * n + val c) 0 s)) else None)"

definition exponent_value :: "string \<Rightarrow> int option" where
  "exponent_value s =
     (let digits = (if s \<noteq> [] \<and> hd s \<in> set ''+-'' then tl s else s)
      in if digits = [] \<or> \<not> list_all is_digit digits then None
         else Some (if hd s = CHR ''-'' then - int (nat_of_digits digits) else int (nat_of_digits digits)))"

definition scaled :: "nat \<Rightarrow> int \<Rightarrow> int option" where
  "scaled m e =
     (if 0 \<le> e then Some (int m * 10 ^ nat e)
      else if m mod 10 ^ nat (- e) = 0 then Some (int (m div 10 ^ nat (- e))) else None)"

definition decimal_number :: "string \<Rightarrow> int option" where
  "decimal_number s =
     (let mantissa = takeWhile (\<lambda>c. c \<notin> set ''eE'') s; tail = dropWhile (\<lambda>c. c \<notin> set ''eE'') s;
          whole = takeWhile (\<lambda>c. c \<noteq> CHR ''.'') mantissa;
          fraction = drop 1 (dropWhile (\<lambda>c. c \<noteq> CHR ''.'') mantissa)
      in if whole @ fraction = [] \<or> \<not> list_all is_digit (whole @ fraction) then None
         else (case (if tail = [] then Some 0 else exponent_value (tl tail)) of
             None \<Rightarrow> None
           | Some e \<Rightarrow> scaled (nat_of_digits (whole @ fraction)) (e - int (length fraction))))"

definition js_number :: "string \<Rightarrow> int option" where
  "js_number s =
     (let t = trim s; p = to_lower (take 2 t)
      in if t = [] then Some 0
         else if p = ''0x'' then radix_number is_hex hex_value 16 (drop 2 t)
         else if p = ''0o'' then radix_number (char_in 48 55) digit_value 8 (drop 2 t)
         else if p = ''0b'' then radix_number (char_in 48 49) digit_value 2 (drop 2 t)
         else if hd t = CHR ''-'' then map_option uminus (decimal_number (tl t))
         else if hd t = CHR ''+'' then decimal_number (tl t)
         else decimal_number t)"

section \<open>Environment settings\<close>

definition blank :: "string option \<Rightarrow> bool" where
  "blank v \<longleftrightarrow> (case v of None \<Rightarrow> True | Some s \<Rightarrow> trim s = [])"

definition positive_integer :: "string option \<Rightarrow> int \<Rightarrow> string \<Rightarrow> crawler_error + int" where
  "positive_integer value fallback name =
     (if blank value then Inr fallback
      else (case js_number (the value) of
          Some n \<Rightarrow> if safe_integer n \<and> 1 \<le> n then Inr n
                    else Inl (configuration_error (name @ '' must be a positive integer.''))
        | None \<Rightarrow> Inl (configuration_error (name @ '' must be a positive integer.''))))"

definition boolean_setting :: "string option \<Rightarrow> crawler_error + bool" where
  "boolean_setting value =
     (if blank value then Inr False
      else let normalized = to_lower (trim (the value))
        in if normalized \<in> set [''true'', ''1'', ''yes'', ''on''] then Inr True
           else if normalized \<in> set [''false'', ''0'', ''no'', ''off''] then Inr False
           else Inl (configuration_error ''DOKOSOKO_CRAWLER_ALLOW_LOCALHOST_SUBDOMAINS must be true or false.''))"

definition port_item :: "string \<Rightarrow> crawler_error + int" where
  "port_item item =
     (case js_number (trim item) of
        Some n \<Rightarrow> if 1 \<le> n \<and> n \<le> 65535 then Inr n
                  else Inl (configuration_error ''DOKOSOKO_CRAWLER_LOCALHOST_PORTS contains an invalid port.'')
      | None \<Rightarrow> Inl (configuration_error ''DOKOSOKO_CRAWLER_LOCALHOST_PORTS contains an invalid port.''))"

definition port_setting :: "string option \<Rightarrow> crawler_error + int list" where
  "port_setting value =
     bind_result (map_result port_item (split_on (CHR '','') (nullish value ''80,443'')))
       (\<lambda>ports. Inr (dedup ports))"

section \<open>The central configuration\<close>

datatype secret_reference = EnvSecret string | FileSecret string

record central_configuration =
  cc_crawler :: "(string \<times> json) list"
  cc_database :: "secret_reference option"
  cc_upload :: json

abbreviation member :: "(string \<times> json) list \<Rightarrow> string \<Rightarrow> json" where
  "member r k \<equiv> nullish (map_of r k) JUndef"

fun as_record :: "json \<Rightarrow> string \<Rightarrow> crawler_error + (string \<times> json) list" where
  "as_record (JObj kvs) name = Inr kvs"
| "as_record _ name = Inl (configuration_error (name @ '' must be an object.''))"

text \<open>The first unknown key is looked for, and reported when it is a non-empty string.\<close>

definition assert_known_keys :: "(string \<times> json) list \<Rightarrow> string list \<Rightarrow> string \<Rightarrow> crawler_error + unit" where
  "assert_known_keys value allowed name =
     (case find (\<lambda>k. k \<notin> set allowed) (map fst value) of
        Some u \<Rightarrow> if u \<noteq> [] then Inl (configuration_error (name @ '' contains unknown field '' @ u @ ''.'')) else Inr ()
      | None \<Rightarrow> Inr ())"

definition known_record :: "json \<Rightarrow> string list \<Rightarrow> string \<Rightarrow> crawler_error + unit" where
  "known_record value allowed name = bind_result (as_record value name) (\<lambda>r. assert_known_keys r allowed name)"

text \<open>A check that only applies to a member that is present.\<close>

definition when_present :: "json \<Rightarrow> (json \<Rightarrow> crawler_error + unit) \<Rightarrow> crawler_error + unit" where
  "when_present v f = (if v = JUndef then Inr () else f v)"

fun optional_text :: "json \<Rightarrow> string \<Rightarrow> crawler_error + string" where
  "optional_text JUndef name = Inr []"
| "optional_text (JStr s) name = Inr (trim s)"
| "optional_text _ name = Inl (configuration_error (name @ '' must be a string.''))"

definition central_secret_reference :: "json \<Rightarrow> string \<Rightarrow> crawler_error + secret_reference" where
  "central_secret_reference value name =
     bind_result (as_record value name) (\<lambda>secret.
     bind_result (assert_known_keys secret [''env'', ''file''] name) (\<lambda>_.
     bind_result (optional_text (member secret ''env'') (name @ ''.env'')) (\<lambda>environment.
     bind_result (optional_text (member secret ''file'') (name @ ''.file'')) (\<lambda>file.
       if (environment = []) = (file = [])
       then Inl (configuration_error (name @ '' must reference exactly one environment variable or file.''))
       else Inr (if environment \<noteq> [] then EnvSecret environment else FileSecret file)))))"

definition root_keys :: "string list" where
  "root_keys = [''$schema'', ''version'', ''server'', ''database'', ''security'', ''uploads'', ''tools'',
     ''native_plugins'', ''ai'', ''crawler'', ''control_plane'']"

definition section_keys :: "(string \<times> string list) list" where
  "section_keys =
     [(''server'', [''listen'', ''public_url'', ''ui_directory'']),
      (''database'', [''url'', ''migrations_directory'']),
      (''security'', [''master_key'', ''setup_token'', ''dev_memory'', ''allow_demo_tokens'', ''allow_insecure_http'']),
      (''uploads'', [''directory'', ''max_bytes'']),
      (''tools'', [''localhost_hosts'']),
      (''native_plugins'', [''required'', ''disabled'']),
      (''ai'', [''provider'', ''api_key'', ''endpoint'', ''analysis'']),
      (''crawler'', [''max_pages'', ''max_bytes'', ''data_directory'', ''upload_directory'',
         ''allow_localhost_subdomains'', ''localhost_ports'']),
      (''control_plane'', [''organisation'', ''deployment'', ''environments''])]"

fun each_result :: "('a \<Rightarrow> 'e + unit) \<Rightarrow> 'a list \<Rightarrow> 'e + unit" where
  "each_result f [] = Inr ()"
| "each_result f (x # xs) = bind_result (f x) (\<lambda>_. each_result f xs)"

definition check_ai :: "(string \<times> json) list \<Rightarrow> crawler_error + unit" where
  "check_ai root = when_present (member root ''ai'') (\<lambda>v.
     bind_result (as_record v ''ai'') (\<lambda>ai.
       when_present (member ai ''analysis'') (\<lambda>a. known_record a
         [''model'', ''max_input_tokens'', ''max_output_tokens'', ''daily_token_budget''] ''ai.analysis'')))"

definition check_environments :: "json \<Rightarrow> crawler_error + unit" where
  "check_environments v =
     (case v of
        JArr items \<Rightarrow> each_result (\<lambda>e. known_record e [''name'', ''slug'', ''is_production'']
          ''control_plane.environments item'') items
      | _ \<Rightarrow> Inl (configuration_error ''control_plane.environments must be an array.''))"

definition check_control_plane :: "(string \<times> json) list \<Rightarrow> crawler_error + unit" where
  "check_control_plane root = when_present (member root ''control_plane'') (\<lambda>v.
     bind_result (as_record v ''control_plane'') (\<lambda>cp.
     bind_result (when_present (member cp ''organisation'')
       (\<lambda>o'. known_record o' [''name'', ''slug''] ''control_plane.organisation'')) (\<lambda>_.
     bind_result (when_present (member cp ''deployment'')
       (\<lambda>d. known_record d [''name'', ''slug'', ''description'', ''feedback_submission_url'', ''error_submission_url'']
          ''control_plane.deployment'')) (\<lambda>_.
       when_present (member cp ''environments'') check_environments))))"

text \<open>The secrets, in order; the reference to the database URL is kept.\<close>

definition secret_step ::
    "(string \<times> json) list \<Rightarrow> string \<times> string \<Rightarrow> secret_reference option \<Rightarrow> crawler_error + secret_reference option" where
  "secret_step root sk database =
     (case sk of (section, key) \<Rightarrow>
       if member root section = JUndef then Inr database
       else bind_result (as_record (member root section) section) (\<lambda>r.
         if member r key = JUndef then Inr database
         else bind_result (central_secret_reference (member r key) (section @ ''.'' @ key)) (\<lambda>secret.
           Inr (if section = ''database'' \<and> key = ''url'' then Some secret else database))))"

definition central_secrets :: "(string \<times> json) list \<Rightarrow> crawler_error + secret_reference option" where
  "central_secrets root =
     fold (\<lambda>sk r. bind_result r (secret_step root sk))
       [(''database'', ''url''), (''security'', ''master_key''), (''security'', ''setup_token''), (''ai'', ''api_key'')]
       (Inr None)"

text \<open>
  The members of \<^verbatim>\<open>crawler\<close> are spread into the result unread, so a \<^verbatim>\<open>database_url\<close> that an
  unreported unknown key hides is used as it stands (text members only; others are not modelled).
\<close>

fun text_or_empty :: "json \<Rightarrow> string" where
  "text_or_empty (JStr s) = s"
| "text_or_empty _ = []"

fun spread_reference :: "json \<Rightarrow> secret_reference option" where
  "spread_reference (JObj kvs) =
     (let environment = text_or_empty (member kvs ''env''); file = text_or_empty (member kvs ''file'')
      in if environment \<noteq> [] then Some (EnvSecret environment)
         else if file \<noteq> [] then Some (FileSecret file) else None)"
| "spread_reference _ = None"

definition record_or_empty :: "json \<Rightarrow> string \<Rightarrow> crawler_error + (string \<times> json) list" where
  "record_or_empty v name = (if v = JUndef then Inr [] else as_record v name)"

fun is_text :: "json \<Rightarrow> bool" where
  "is_text (JStr s) = True"
| "is_text _ = False"

definition validate_central_configuration :: "json \<Rightarrow> crawler_error + central_configuration" where
  "validate_central_configuration value =
     bind_result (as_record value ''Configuration file'') (\<lambda>root.
     bind_result (assert_known_keys root root_keys ''Configuration file'') (\<lambda>_.
     if member root ''version'' \<noteq> JNum 1 then Inl (configuration_error ''Configuration version must be 1.'')
     else
     bind_result (each_result (\<lambda>(section, allowed). when_present (member root section)
       (\<lambda>v. known_record v allowed section)) section_keys) (\<lambda>_.
     bind_result (check_ai root) (\<lambda>_.
     bind_result (check_control_plane root) (\<lambda>_.
     bind_result (central_secrets root) (\<lambda>database.
     bind_result (record_or_empty (member root ''crawler'') ''crawler'') (\<lambda>crawler.
     bind_result (record_or_empty (member root ''uploads'') ''uploads'') (\<lambda>uploads.
       Inr \<lparr>cc_crawler = crawler,
            cc_database = (if database = None then spread_reference (member crawler ''database_url'') else database),
            cc_upload = (if member crawler ''upload_directory'' = JUndef \<and> is_text (member uploads ''directory'')
              then member uploads ''directory'' else member crawler ''upload_directory'')\<rparr>))))))))"

section \<open>Paths\<close>

text \<open>\<^verbatim>\<open>path.resolve(base, p)\<close> and \<^verbatim>\<open>path.dirname\<close> of \<^verbatim>\<open>node:path\<close> on POSIX, from a working directory.\<close>

definition path_step :: "string \<Rightarrow> string list \<Rightarrow> string list" where
  "path_step seg acc =
     (if seg = [] \<or> seg = ''.'' then acc else if seg = ''..'' then butlast acc else acc @ [seg])"

definition absolute :: "string \<Rightarrow> bool" where
  "absolute p \<longleftrightarrow> p \<noteq> [] \<and> hd p = CHR ''/''"

definition normalize_absolute :: "string \<Rightarrow> string" where
  "normalize_absolute p = ''/'' @ join ''/'' (fold path_step (split_on (CHR ''/'') p) [])"

definition path_resolve :: "string \<Rightarrow> string \<Rightarrow> string \<Rightarrow> string" where
  "path_resolve cwd base p =
     normalize_absolute
       (if absolute p then p else if absolute base then base @ ''/'' @ p else cwd @ ''/'' @ base @ ''/'' @ p)"

definition path_dirname :: "string \<Rightarrow> string" where
  "path_dirname p =
     (let d = join ''/'' (butlast (split_on (CHR ''/'') p)) in if d = [] then ''/'' else d)"

section \<open>Loading the settings\<close>

record load_environment =
  le_env :: "string \<Rightarrow> string option"
  le_cwd :: string
  le_working :: "string option"
  le_read :: "string \<Rightarrow> string option"
  le_decode :: "string \<Rightarrow> json option"

text \<open>\<^verbatim>\<open>env.NAME?.trim()\<close>, with the empty string for a variable that is not set.\<close>

definition env_text :: "load_environment \<Rightarrow> string \<Rightarrow> string" where
  "env_text le name = trim (nullish (le_env le name) [])"

definition read_secret_file :: "load_environment \<Rightarrow> string \<Rightarrow> string \<Rightarrow> crawler_error + string" where
  "read_secret_file le file name =
     (case le_read le file of
        Some contents \<Rightarrow> Inr (trim contents)
      | None \<Rightarrow> Inl (configuration_error (name @ '' could not be read.'')))"

definition non_empty :: "string \<Rightarrow> string option" where
  "non_empty s = (if s = [] then None else Some s)"

definition database_url_setting ::
    "load_environment \<Rightarrow> secret_reference option \<Rightarrow> string \<Rightarrow> string \<Rightarrow> crawler_error + string option" where
  "database_url_setting le configured working configuration_directory =
     (let direct = env_text le ''DOKOSOKO_DATABASE_URL'';
          file = env_text le ''DOKOSOKO_DATABASE_URL_FILE''
      in if direct \<noteq> [] \<and> file \<noteq> []
         then Inl (configuration_error ''DOKOSOKO_DATABASE_URL and DOKOSOKO_DATABASE_URL_FILE cannot both be set.'')
         else if direct \<noteq> [] then Inr (Some direct)
         else if file \<noteq> [] then
           bind_result (read_secret_file le (path_resolve (le_cwd le) working file) ''DOKOSOKO_DATABASE_URL_FILE'')
             (\<lambda>s. Inr (non_empty s))
         else (case configured of
             Some (EnvSecret e) \<Rightarrow> Inr (non_empty (env_text le e))
           | Some (FileSecret f) \<Rightarrow>
               bind_result (read_secret_file le (path_resolve (le_cwd le) configuration_directory f) ''database.url secret file'')
                 (\<lambda>s. Inr (non_empty s))
           | None \<Rightarrow> Inr None))"

fun file_positive_integer :: "json \<Rightarrow> int \<Rightarrow> string \<Rightarrow> crawler_error + int" where
  "file_positive_integer JUndef fallback name = Inr fallback"
| "file_positive_integer (JNum n) fallback name =
     (if safe_integer n \<and> 1 \<le> n then Inr n
      else Inl (configuration_error (name @ '' must be a positive integer.'')))"
| "file_positive_integer _ fallback name = Inl (configuration_error (name @ '' must be a positive integer.''))"

fun file_boolean :: "json \<Rightarrow> bool \<Rightarrow> string \<Rightarrow> crawler_error + bool" where
  "file_boolean JUndef fallback name = Inr fallback"
| "file_boolean (JBool b) fallback name = Inr b"
| "file_boolean _ fallback name = Inl (configuration_error (name @ '' must be true or false.''))"

fun file_string :: "json \<Rightarrow> string option \<Rightarrow> string \<Rightarrow> crawler_error + string option" where
  "file_string JUndef fallback name = Inr fallback"
| "file_string (JStr s) fallback name = Inr (if trim s \<noteq> [] then Some (trim s) else fallback)"
| "file_string _ fallback name = Inl (configuration_error (name @ '' must be a string.''))"

fun port_value :: "json \<Rightarrow> int option" where
  "port_value (JNum n) = (if 1 \<le> n \<and> n \<le> 65535 then Some n else None)"
| "port_value _ = None"

fun file_ports :: "json \<Rightarrow> int list \<Rightarrow> crawler_error + int list" where
  "file_ports JUndef fallback = Inr fallback"
| "file_ports (JArr vs) fallback =
     (if vs = [] \<or> list_ex (\<lambda>v. port_value v = None) vs
      then Inl (configuration_error ''crawler.localhost_ports contains an invalid port.'')
      else Inr (dedup (map (the \<circ> port_value) vs)))"
| "file_ports _ fallback = Inl (configuration_error ''crawler.localhost_ports contains an invalid port.'')"

definition empty_configuration :: central_configuration where
  "empty_configuration = \<lparr>cc_crawler = [], cc_database = None, cc_upload = JUndef\<rparr>"

text \<open>The configuration file, with the directory its relative paths start from.\<close>

definition load_configuration :: "load_environment \<Rightarrow> crawler_error + central_configuration \<times> string" where
  "load_configuration le =
     (let working = nullish (le_working le) (le_cwd le); file = env_text le ''DOKOSOKO_CONFIG_FILE''
      in if file = [] then Inr (empty_configuration, working)
         else
           let resolved = path_resolve (le_cwd le) working file;
               undecodable = configuration_error ''Configuration file could not be read or decoded.''
           in (case le_read le resolved of
               None \<Rightarrow> Inl undecodable
             | Some contents \<Rightarrow>
                 if 2 ^ 20 < length (utf8 contents)
                 then Inl (configuration_error ''Configuration file must be 1 MiB or smaller.'')
                 else (case le_decode le contents of
                     None \<Rightarrow> Inl undecodable
                   | Some v \<Rightarrow> bind_result (validate_central_configuration v)
                       (\<lambda>c. Inr (c, path_dirname resolved)))))"

definition load_crawler_settings :: "load_environment \<Rightarrow> crawler_error + crawler_settings" where
  "load_crawler_settings le =
     (let working = nullish (le_working le) (le_cwd le); resolve = path_resolve (le_cwd le); env = le_env le in
      bind_result (load_configuration le) (\<lambda>(configured, directory).
      let cm = member (cc_crawler configured) in
      bind_result (file_string (cm ''data_directory'') (Some ''/data'') ''crawler.data_directory'') (\<lambda>file_data.
      bind_result (file_string (cc_upload configured) None ''crawler.upload_directory'') (\<lambda>file_upload.
      bind_result (database_url_setting le (cc_database configured) working directory) (\<lambda>database.
      bind_result (file_positive_integer (cm ''max_pages'') 500 ''crawler.max_pages'') (\<lambda>file_pages.
      bind_result (positive_integer (env ''DOKOSOKO_CRAWLER_MAX_PAGES'') file_pages ''DOKOSOKO_CRAWLER_MAX_PAGES'') (\<lambda>pages.
      bind_result (file_positive_integer (cm ''max_bytes'') 5000000 ''crawler.max_bytes'') (\<lambda>file_bytes.
      bind_result (positive_integer (env ''DOKOSOKO_CRAWLER_MAX_BYTES'') file_bytes ''DOKOSOKO_CRAWLER_MAX_BYTES'') (\<lambda>bytes.
      bind_result (if env_text le ''DOKOSOKO_CRAWLER_ALLOW_LOCALHOST_SUBDOMAINS'' \<noteq> []
          then boolean_setting (env ''DOKOSOKO_CRAWLER_ALLOW_LOCALHOST_SUBDOMAINS'')
          else file_boolean (cm ''allow_localhost_subdomains'') False ''crawler.allow_localhost_subdomains'') (\<lambda>localhost.
      bind_result (if env_text le ''DOKOSOKO_CRAWLER_LOCALHOST_PORTS'' \<noteq> []
          then port_setting (env ''DOKOSOKO_CRAWLER_LOCALHOST_PORTS'')
          else file_ports (cm ''localhost_ports'') [80, 443]) (\<lambda>ports.
        let data_env = env_text le ''DOKOSOKO_DATA_DIR'';
            upload_env = (if env_text le ''DOKOSOKO_CRAWLER_UPLOAD_DIR'' \<noteq> []
              then env_text le ''DOKOSOKO_CRAWLER_UPLOAD_DIR'' else env_text le ''DOKOSOKO_UPLOAD_DIR'')
        in Inr \<lparr>cs_database = database, cs_max_pages = pages, cs_max_bytes = bytes,
            cs_data_dir = (if data_env \<noteq> [] then resolve working data_env
              else nullish (map_option (resolve directory) file_data) ''/data''),
            cs_upload_dir = (if upload_env \<noteq> [] then Some (resolve working upload_env)
              else map_option (resolve directory) file_upload),
            cs_allow_localhost = localhost, cs_ports = ports\<rparr>)))))))))))"

section \<open>What loaded settings satisfy\<close>

definition limit_ok :: "int \<Rightarrow> bool" where
  "limit_ok n \<longleftrightarrow> 1 \<le> n \<and> safe_integer n"

lemma positive_integer_range: "positive_integer v fallback name = Inr n \<Longrightarrow> limit_ok fallback \<longrightarrow> limit_ok n"
  by (auto simp: positive_integer_def limit_ok_def split: if_splits option.splits)

lemma file_positive_integer_range:
  "file_positive_integer v fallback name = Inr n \<Longrightarrow> limit_ok fallback \<longrightarrow> limit_ok n"
  by (cases v) (auto simp: limit_ok_def split: if_splits)

definition ports_ok :: "int list \<Rightarrow> bool" where
  "ports_ok ps \<longleftrightarrow> ps \<noteq> [] \<and> distinct ps \<and> list_all (\<lambda>p. 1 \<le> p \<and> p \<le> 65535) ps"

lemma port_setting_ok: "port_setting v = Inr ps \<Longrightarrow> ports_ok ps"
proof -
  assume "port_setting v = Inr ps"
  then obtain qs where qs: "map_result port_item (split_on (CHR '','') (nullish v ''80,443'')) = Inr qs" "ps = dedup qs"
    by (auto simp: port_setting_def)
  have "1 \<le> p \<and> p \<le> 65535" if "p \<in> set qs" for p
    using map_result_Inr_set [OF qs(1) that] by (auto simp: port_item_def split: option.splits if_splits)
  moreover have "qs \<noteq> []"
    using map_result_length [OF qs(1)] by auto
  ultimately show ?thesis
    using qs(2) by (auto simp: ports_ok_def list_all_iff)
qed

lemma port_value_range: "port_value v \<noteq> None \<Longrightarrow> 1 \<le> the (port_value v) \<and> the (port_value v) \<le> 65535"
  by (cases v) (auto split: if_splits)

lemma file_ports_ok: "file_ports v fallback = Inr ps \<Longrightarrow> ports_ok fallback \<Longrightarrow> ports_ok ps"
proof (cases v)
  case (JArr vs)
  assume "file_ports v fallback = Inr ps"
  then have vs: "vs \<noteq> []" "\<And>v. v \<in> set vs \<Longrightarrow> port_value v \<noteq> None" "ps = dedup (map (the \<circ> port_value) vs)"
    using JArr by (auto simp: list_ex_iff split: if_splits)
  then show ?thesis
    using port_value_range by (simp add: ports_ok_def list_all_iff)
qed simp_all

lemma path_resolve_absolute: "absolute (path_resolve cwd base p)"
  by (simp add: absolute_def path_resolve_def normalize_absolute_def)

lemma chosen_ports_ok:
  "(if b then port_setting v else file_ports w [80, 443]) = Inr ps \<Longrightarrow> ports_ok ps"
  using port_setting_ok file_ports_ok [of w "[80, 443]"] by (cases b) (auto simp: ports_ok_def)

lemma default_limits: "limit_ok 500" "limit_ok 5000000"
  by (simp_all add: limit_ok_def safe_integer_def)

lemma resolved_absolute:
  "absolute (nullish (map_option (path_resolve cwd d) p) ''/data'')"
  "list_all absolute (case p of None \<Rightarrow> [] | Some x \<Rightarrow> ((\<lambda>u. [u]) \<circ> path_resolve cwd d) x)"
  by (cases p; simp add: path_resolve_absolute absolute_def [of "''/data''"])+

text \<open>
  Settings that load are usable: both limits are positive safe integers, the
  development ports are a non-empty set of valid ports, and the directories are absolute paths,
  whichever of the environment, the configuration file and the defaults they come from.
\<close>

theorem settings_well_formed:
  assumes "load_crawler_settings le = Inr s"
  shows "limit_ok (cs_max_pages s) \<and> limit_ok (cs_max_bytes s)
    \<and> ports_ok (cs_ports s) \<and> absolute (cs_data_dir s) \<and> list_all absolute (case cs_upload_dir s of None \<Rightarrow> [] | Some u \<Rightarrow> [u])"
  using assms unfolding load_crawler_settings_def Let_def
  by (auto simp: resolved_absolute path_resolve_absolute default_limits
      dest!: positive_integer_range file_positive_integer_range chosen_ports_ok)

definition sample_environment :: load_environment where
  "sample_environment = \<lparr>le_env = map_of [(''DOKOSOKO_CRAWLER_MAX_PAGES'', ''0x20''),
     (''DOKOSOKO_CRAWLER_LOCALHOST_PORTS'', ''3000, 3000'')], le_cwd = ''/srv'', le_working = None,
     le_read = (\<lambda>_. None), le_decode = (\<lambda>_. None)\<rparr>"

theorem settings_well_formed_witness:
  "\<exists>s. load_crawler_settings sample_environment = Inr s \<and> cs_max_pages s = 32 \<and> cs_ports s = [3000]
     \<and> cs_data_dir s = ''/data'' \<and> limit_ok (cs_max_pages s)"
proof -
  define s where "s = projr (load_crawler_settings sample_environment)"
  have s: "load_crawler_settings sample_environment = Inr s"
    unfolding s_def by code_simp
  moreover have "cs_max_pages s = 32 \<and> cs_ports s = [3000] \<and> cs_data_dir s = ''/data''"
    unfolding s_def by code_simp
  ultimately show ?thesis
    using settings_well_formed [OF s] by blast
qed

section \<open>Which configuration files are accepted\<close>

definition keys :: "(string \<times> json) list \<Rightarrow> string set" where
  "keys kvs = set (map fst kvs)"

lemma assert_known_keys_keys:
  "assert_known_keys kvs allowed name = Inr () \<Longrightarrow> [] \<notin> keys kvs \<Longrightarrow> keys kvs \<subseteq> set allowed"
  by (auto simp: assert_known_keys_def keys_def find_None_iff find_Some_iff split: option.splits if_splits
      dest: nth_mem)

lemma each_result_set: "each_result f xs = Inr u \<Longrightarrow> x \<in> set xs \<Longrightarrow> f x = Inr ()"
  by (induction xs) auto

lemma as_record_obj: "as_record v name = Inr kvs \<Longrightarrow> v = JObj kvs"
  by (cases "(v, name)" rule: as_record.cases) simp_all

definition section_ok :: "(string \<times> json) list \<Rightarrow> string \<times> string list \<Rightarrow> bool" where
  "section_ok root sa \<longleftrightarrow> (case member root (fst sa) of
      JUndef \<Rightarrow> True
    | JObj kvs \<Rightarrow> [] \<in> keys kvs \<or> keys kvs \<subseteq> set (snd sa)
    | _ \<Rightarrow> False)"

lemma known_record_section_ok:
  assumes "when_present (member root section) (\<lambda>v. known_record v allowed section) = Inr ()"
  shows "section_ok root (section, allowed)"
proof (cases "member root section = JUndef")
  case False
  then obtain kvs where "member root section = JObj kvs" "assert_known_keys kvs allowed section = Inr ()"
    using assms by (auto simp: when_present_def known_record_def dest!: as_record_obj)
  then show ?thesis
    using assert_known_keys_keys by (auto simp: section_ok_def)
qed (simp add: section_ok_def)

text \<open>
  An accepted configuration file is version 1 and has known fields only: those of the
  root and, in every section that is present, those of the section, in every object that has no
  member with an empty name.
\<close>

theorem configuration_closed:
  assumes "validate_central_configuration (JObj root) = Inr c" and "[] \<notin> keys root"
  shows "keys root \<subseteq> set root_keys \<and> member root ''version'' = JNum 1 \<and> list_all (section_ok root) section_keys"
proof -
  from assms(1) have *: "assert_known_keys root root_keys ''Configuration file'' = Inr ()"
      "member root ''version'' = JNum 1"
      "each_result (\<lambda>(section, allowed). when_present (member root section)
         (\<lambda>v. known_record v allowed section)) section_keys = Inr ()"
    by (simp_all add: validate_central_configuration_def split: if_splits)
  have "section_ok root sa" if "sa \<in> set section_keys" for sa
    using each_result_set [OF *(3) that] known_record_section_ok by (cases sa) simp
  then show ?thesis
    using assert_known_keys_keys [OF *(1) assms(2)] *(2) by (simp add: list_all_iff)
qed

definition sample_configuration :: "(string \<times> json) list" where
  "sample_configuration = [(''version'', JNum 1), (''crawler'', JObj [(''max_pages'', JNum 20)]),
     (''database'', JObj [(''url'', JObj [(''env'', JStr ''DATABASE'')])])]"

theorem configuration_closed_witness:
  "\<exists>c. validate_central_configuration (JObj sample_configuration) = Inr c
     \<and> cc_database c = Some (EnvSecret ''DATABASE'') \<and> list_all (section_ok sample_configuration) section_keys"
proof -
  define c where "c = projr (validate_central_configuration (JObj sample_configuration))"
  have c: "validate_central_configuration (JObj sample_configuration) = Inr c"
    unfolding c_def by code_simp
  have "[] \<notin> keys sample_configuration"
    by (simp add: keys_def sample_configuration_def)
  moreover have "cc_database c = Some (EnvSecret ''DATABASE'')"
    unfolding c_def by code_simp
  ultimately show ?thesis
    using configuration_closed [OF c] c by blast
qed

text \<open>
  A member with an empty name switches the check of unknown fields off for what
  follows it: the configuration with the members version, the empty name and bogus is accepted,
  although bogus alone is refused.
\<close>

theorem empty_key_hides_unknown:
  "validate_central_configuration (JObj [(''version'', JNum 1), ([], JNull), (''bogus'', JNull)]) = Inr empty_configuration
   \<and> validate_central_configuration (JObj [(''version'', JNum 1), (''bogus'', JNull)])
       = Inl (configuration_error ''Configuration file contains unknown field bogus.'')"
  by code_simp

end
