(* ===== verification/SafeUrl.thy ===== *)
theory SafeUrl
  imports Settings
begin

text \<open>
  The second half of \<^verbatim>\<open>crawler/security.ts\<close>: URLs, the safety check of a URL and of the addresses
  its hostname resolves to, the lookup function that hands out vetted addresses only, and the
  canonical form of a URL. A \<^verbatim>\<open>URL\<close> object is the record of its serialized parts. The URL
  parser and the DNS resolver are arguments; a resolver that throws gives \<open>None\<close>.
\<close>

section \<open>URLs\<close>

record url =
  u_scheme :: string
  u_username :: string
  u_password :: string
  u_hostname :: string
  u_port :: string
  u_path :: string
  u_query :: "string option"
  u_fragment :: "string option"

definition u_host :: "url \<Rightarrow> string" where
  "u_host u = u_hostname u @ (if u_port u = [] then [] else '':'' @ u_port u)"

definition origin :: "url \<Rightarrow> string" where
  "origin u = u_scheme u @ ''://'' @ u_host u"

definition credentials :: "url \<Rightarrow> string" where
  "credentials u = (if u_username u = [] \<and> u_password u = [] then []
     else u_username u @ (if u_password u = [] then [] else '':'' @ u_password u) @ ''@'')"

definition href :: "url \<Rightarrow> string" where
  "href u = u_scheme u @ ''://'' @ credentials u @ u_host u @ u_path u
     @ (case u_query u of None \<Rightarrow> [] | Some q \<Rightarrow> ''?'' @ q)
     @ (case u_fragment u of None \<Rightarrow> [] | Some f \<Rightarrow> ''#'' @ f)"

type_synonym url_parser = "url option \<Rightarrow> string \<Rightarrow> url option"

definition effective_port :: "url \<Rightarrow> string" where
  "effective_port u = (if u_port u \<noteq> [] then u_port u else if u_scheme u = ''https'' then ''443'' else ''80'')"

definition strip_brackets :: "string \<Rightarrow> string" where
  "strip_brackets s =
     (let t = (if s \<noteq> [] \<and> hd s = CHR ''['' then tl s else s)
      in if t \<noteq> [] \<and> last t = CHR '']'' then butlast t else t)"

section \<open>The safety check\<close>

type_synonym address_resolver = "string \<Rightarrow> (string \<times> int option) list option"

type_synonym resolved_address = "string \<times> nat"

record safe_resolution =
  sr_url :: url
  sr_hostname :: string
  sr_addresses :: "resolved_address list"

definition job_error :: "string \<Rightarrow> string \<Rightarrow> crawler_error" where
  "job_error code message = \<lparr>ce_code = code, ce_message = message\<rparr>"

definition check_form :: "url_parser \<Rightarrow> string \<Rightarrow> crawler_error + url" where
  "check_form parse value =
     (if value = [] \<or> value \<noteq> trim value
      then Inl (job_error ''source_location_invalid'' ''Source location must be a complete HTTP(S) URL without surrounding whitespace.'')
      else (case parse None value of
          None \<Rightarrow> Inl (job_error ''source_location_invalid'' ''Source location must be a valid HTTP(S) URL.'')
        | Some u \<Rightarrow>
            if u_scheme u \<notin> set [''http'', ''https''] \<or> u_username u \<noteq> [] \<or> u_password u \<noteq> [] \<or> u_hostname u = []
            then Inl (job_error ''source_url_not_allowed'' ''Source URLs must be credential-free HTTP(S) URLs.'')
            else Inr u))"

definition port_listed :: "crawler_settings \<Rightarrow> string \<Rightarrow> bool" where
  "port_listed settings p = (case js_number p of None \<Rightarrow> False | Some n \<Rightarrow> n \<in> set (cs_ports settings))"

definition check_port :: "crawler_settings \<Rightarrow> bool \<Rightarrow> url \<Rightarrow> crawler_error + unit" where
  "check_port settings local u =
     (if local then
        if \<not> cs_allow_localhost settings
        then Inl (job_error ''localhost_source_disabled'' ''Localhost-subdomain crawling is disabled. Enable it only in an isolated development environment.'')
        else if \<not> port_listed settings (effective_port u)
        then Inl (job_error ''localhost_port_not_allowed'' (''The localhost development port '' @ effective_port u @ '' is not in the crawler allowlist.''))
        else Inr ()
      else if u_port u \<noteq> [] \<and> u_port u \<notin> set [''80'', ''443'']
      then Inl (job_error ''source_port_not_allowed'' ''Public source URLs may use only ports 80 and 443.'')
      else Inr ())"

definition resolved_entry :: "string \<times> int option \<Rightarrow> crawler_error + resolved_address" where
  "resolved_entry entry =
     (let address = to_lower (fst entry); family = is_ip address
      in if (family \<noteq> 4 \<and> family \<noteq> 6) \<or> (snd entry \<noteq> None \<and> snd entry \<noteq> Some (int family)) \<or> CHR ''%'' \<in> set address
         then Inl (job_error ''source_dns_failed'' ''The source hostname resolved to an invalid address.'')
         else Inr (address, family))"

definition check_network :: "bool \<Rightarrow> resolved_address list \<Rightarrow> crawler_error + unit" where
  "check_network local resolved =
     (if local then
        if list_ex (\<lambda>e. \<not> is_local_development_address (fst e)) resolved
        then Inl (job_error ''localhost_resolution_not_allowed'' ''A localhost development source must resolve only to loopback, RFC1918, or unique-local addresses.'')
        else Inr ()
      else if list_ex (\<lambda>e. is_denied_address (fst e)) resolved
      then Inl (job_error ''source_network_not_allowed'' ''The source hostname resolves to a private, loopback, link-local, or reserved network.'')
      else Inr ())"

definition address_key :: "resolved_address \<Rightarrow> string" where
  "address_key e = nat_str (snd e) @ '':'' @ fst e"

definition unique_addresses :: "resolved_address list \<Rightarrow> resolved_address list" where
  "unique_addresses es = map snd (jm_of_list (map (\<lambda>e. (address_key e, e)) es))"

definition resolve_addresses :: "address_resolver \<Rightarrow> string \<Rightarrow> crawler_error + resolved_address list" where
  "resolve_addresses resolver hostname =
     (case resolver hostname of
        None \<Rightarrow> Inl (job_error ''source_dns_failed'' ''The source hostname could not be resolved.'')
      | Some [] \<Rightarrow> Inl (job_error ''source_dns_failed'' ''The source hostname did not resolve to an address.'')
      | Some es \<Rightarrow> map_result resolved_entry es)"

definition resolve_safe_url ::
    "url_parser \<Rightarrow> address_resolver \<Rightarrow> crawler_settings \<Rightarrow> string \<Rightarrow> crawler_error + safe_resolution" where
  "resolve_safe_url parse resolver settings value =
     bind_result (check_form parse value) (\<lambda>u.
     let hostname = strip_brackets (to_lower (u_hostname u)); local = is_localhost_subdomain hostname in
     bind_result (check_port settings local u) (\<lambda>_.
     bind_result (resolve_addresses resolver hostname) (\<lambda>resolved.
     bind_result (check_network local resolved) (\<lambda>_.
       Inr \<lparr>sr_url = u, sr_hostname = hostname, sr_addresses = unique_addresses resolved\<rparr>))))"

definition assert_safe_url ::
    "url_parser \<Rightarrow> address_resolver \<Rightarrow> crawler_settings \<Rightarrow> string \<Rightarrow> crawler_error + url" where
  "assert_safe_url parse resolver settings value =
     bind_result (resolve_safe_url parse resolver settings value) (\<lambda>r. Inr (sr_url r))"

section \<open>The pinned lookup\<close>

datatype lookup_answer = LookupAll "resolved_address list" | LookupOne resolved_address

text \<open>A lookup answers through its callback with an error, its code and message, or an answer.\<close>

definition pinned_lookup ::
    "safe_resolution \<Rightarrow> string \<Rightarrow> int option \<Rightarrow> bool \<Rightarrow> (string \<times> string) + lookup_answer" where
  "pinned_lookup resolution hostname family all =
     (if strip_brackets (to_lower hostname) \<noteq> sr_hostname resolution
      then Inl (''EAI_FAIL'', ''The HTTP client attempted to resolve a hostname outside its vetted destination.'')
      else
        let requested = (if family = Some 4 then 4 else if family = Some 6 then 6 else 0);
            candidates = (if requested = 0 then sr_addresses resolution
              else filter (\<lambda>e. snd e = requested) (sr_addresses resolution))
        in case candidates of
            [] \<Rightarrow> Inl (''EAI_NODATA'', ''The vetted destination has no address in the requested family.'')
          | c # _ \<Rightarrow> Inr (if all then LookupAll candidates else LookupOne c))"

fun answered :: "(string \<times> string) + lookup_answer \<Rightarrow> resolved_address list" where
  "answered (Inl e) = []"
| "answered (Inr (LookupAll es)) = es"
| "answered (Inr (LookupOne e)) = [e]"

section \<open>What a checked URL satisfies\<close>

definition vetted :: "bool \<Rightarrow> resolved_address \<Rightarrow> bool" where
  "vetted local e \<longleftrightarrow> is_ip (fst e) = snd e \<and> snd e \<in> {4, 6} \<and> CHR ''%'' \<notin> set (fst e)
     \<and> (if local then is_local_development_address (fst e) else \<not> is_denied_address (fst e))"

definition safe_destination :: "crawler_settings \<Rightarrow> safe_resolution \<Rightarrow> bool" where
  "safe_destination settings r \<longleftrightarrow>
     (let u = sr_url r; local = is_localhost_subdomain (sr_hostname r)
      in u_scheme u \<in> {''http'', ''https''} \<and> u_username u = [] \<and> u_password u = []
       \<and> sr_hostname r = strip_brackets (to_lower (u_hostname u))
       \<and> (if local then cs_allow_localhost settings \<and> port_listed settings (effective_port u)
          else u_port u \<in> {[], ''80'', ''443''})
       \<and> sr_addresses r \<noteq> [] \<and> distinct (sr_addresses r) \<and> list_all (vetted local) (sr_addresses r))"

lemma jm_of_list_values:
  assumes "\<And>x y. x \<in> set xs \<Longrightarrow> y \<in> set xs \<Longrightarrow> f x = f y \<Longrightarrow> x = y"
  shows "set (map snd (jm_of_list (map (\<lambda>x. (f x, x)) xs))) = set xs"
    and "distinct (map snd (jm_of_list (map (\<lambda>x. (f x, x)) xs)))"
proof -
  let ?m = "jm_of_list (map (\<lambda>x. (f x, x)) xs)"
  have entry: "(k, v) \<in> set ?m \<longleftrightarrow> map_of ?m k = Some v" for k v
    by simp
  have get: "map_of ?m k = Some v \<longleftrightarrow> v \<in> set xs \<and> f v = k" for k v
  proof -
    have "map_of (rev (map (\<lambda>x. (f x, x)) xs)) k = Some v \<Longrightarrow> v \<in> set xs \<and> f v = k"
      by (auto dest!: map_of_SomeD)
    moreover have "map_of (rev (map (\<lambda>x. (f x, x)) xs)) k = Some v" if "v \<in> set xs" "f v = k"
    proof -
      have "map_of (rev (map (\<lambda>x. (f x, x)) xs)) k \<noteq> None"
        unfolding map_of_eq_None_iff using that by (auto simp: image_iff)
      then obtain w where "map_of (rev (map (\<lambda>x. (f x, x)) xs)) k = Some w" by auto
      moreover from this have "w \<in> set xs" "f w = k" by (auto dest!: map_of_SomeD)
      ultimately show ?thesis using assms that by metis
    qed
    ultimately show ?thesis by (auto simp: jm_of_list_get)
  qed
  show "set (map snd ?m) = set xs"
    using entry get by (auto simp: image_iff) (metis snd_conv)
  have "distinct ?m" by (metis distinct_map jm_of_list_distinct)
  moreover have "inj_on snd (set ?m)"
    using entry get by (auto simp: inj_on_def)
  ultimately show "distinct (map snd ?m)"
    by (simp add: distinct_map)
qed

lemma address_key_inj: "address_key x = address_key y \<Longrightarrow> x = y"
proof -
  assume *: "address_key x = address_key y"
  have "CHR '':'' \<notin> set (nat_str n)" for n
    using nat_str_digit [of "CHR '':''" n] by (auto simp: is_digit_def char_in_def)
  then have "takeWhile (\<lambda>c. c \<noteq> CHR '':'') (address_key e) = nat_str (snd e)"
    and "dropWhile (\<lambda>c. c \<noteq> CHR '':'') (address_key e) = '':'' @ fst e" for e
    by (auto simp: address_key_def takeWhile_append dropWhile_append intro!: takeWhile_eq_all_conv [THEN iffD2])
  then show ?thesis using * by (metis append_same_eq nat_str_inj prod_eqI same_append_eq)
qed

lemma unique_addresses_set [simp]: "set (unique_addresses es) = set es"
  and unique_addresses_distinct [simp]: "distinct (unique_addresses es)"
  using jm_of_list_values [of es address_key] address_key_inj by (auto simp: unique_addresses_def)

lemma resolved_entry_Inr:
  "resolved_entry x = Inr e \<Longrightarrow> is_ip (fst e) = snd e \<and> snd e \<in> {4, 6} \<and> CHR ''%'' \<notin> set (fst e)"
  by (auto simp: resolved_entry_def Let_def split: if_splits)

lemma resolve_addresses_Inr:
  assumes "resolve_addresses resolver hostname = Inr es"
  shows "es \<noteq> []" and "e \<in> set es \<Longrightarrow> is_ip (fst e) = snd e \<and> snd e \<in> {4, 6} \<and> CHR ''%'' \<notin> set (fst e)"
proof -
  from assms obtain xs where xs: "xs \<noteq> []" "map_result resolved_entry xs = Inr es"
    by (auto simp: resolve_addresses_def simp del: map_result.simps split: option.splits list.splits)
  show "es \<noteq> []" using xs map_result_length [OF xs(2)] by auto
  show "e \<in> set es \<Longrightarrow> is_ip (fst e) = snd e \<and> snd e \<in> {4, 6} \<and> CHR ''%'' \<notin> set (fst e)"
    using map_result_Inr_set [OF xs(2)] resolved_entry_Inr by blast
qed

lemma check_form_Inr:
  "check_form parse value = Inr u \<longleftrightarrow>
     value \<noteq> [] \<and> value = trim value \<and> parse None value = Some u \<and> u_scheme u \<in> {''http'', ''https''}
     \<and> u_username u = [] \<and> u_password u = [] \<and> u_hostname u \<noteq> []"
  by (auto simp: check_form_def split: option.splits)

lemma resolve_safe_url_safe:
  assumes "resolve_safe_url parse resolver settings value = Inr r"
  shows "safe_destination settings r"
proof -
  from assms obtain u es where u: "check_form parse value = Inr u"
    and h: "sr_hostname r = strip_brackets (to_lower (u_hostname u))"
    and port: "check_port settings (is_localhost_subdomain (sr_hostname r)) u = Inr ()"
    and es: "resolve_addresses resolver (sr_hostname r) = Inr es"
    and net: "check_network (is_localhost_subdomain (sr_hostname r)) es = Inr ()"
    and r: "sr_url r = u" "sr_addresses r = unique_addresses es"
    by (auto simp: resolve_safe_url_def Let_def)
  have "list_all (vetted (is_localhost_subdomain (sr_hostname r))) (sr_addresses r)"
    using resolve_addresses_Inr(2) [OF es] net
    by (auto simp: vetted_def list_all_iff list_ex_iff check_network_def r split: if_splits)
  moreover have "sr_addresses r \<noteq> []"
    using resolve_addresses_Inr(1) [OF es] r unique_addresses_set [of es] by (metis set_empty)
  ultimately show ?thesis
    using u port by (auto simp: safe_destination_def check_form_Inr check_port_def r h Let_def split: if_splits)
qed


text \<open>
  Property C5. A URL that passes the check is a credential-free HTTP(S) URL on an allowed port,
  and every address that the check returns is a valid address of the stated family: for an enabled
  localhost development name a local one, for every other name one outside all denied networks.
  The addresses are never empty and never repeated.
\<close>

theorem resolve_safe_url_vetted:
  assumes "resolve_safe_url parse resolver settings value = Inr r"
  shows "safe_destination settings r"
  using assms by (rule resolve_safe_url_safe)

lemma answered_pinned_lookup:
  assumes "e \<in> set (answered (pinned_lookup r hostname family all))"
  shows "e \<in> set (sr_addresses r) \<and> strip_brackets (to_lower hostname) = sr_hostname r
    \<and> (family = Some 4 \<or> family = Some 6 \<longrightarrow> family = Some (int (snd e)))"
proof -
  define requested :: nat where "requested = (if family = Some 4 then 4 else if family = Some 6 then 6 else 0)"
  define cs where "cs = (if requested = 0 then sr_addresses r
    else filter (\<lambda>e. snd e = requested) (sr_addresses r))"
  have "e \<in> set cs \<and> strip_brackets (to_lower hostname) = sr_hostname r"
    using assms unfolding pinned_lookup_def Let_def requested_def [symmetric] cs_def [symmetric]
    by (cases cs) (auto split: if_splits)
  then show ?thesis
    by (auto simp: cs_def requested_def split: if_splits)
qed

lemma pinned_lookup_own_host:
  assumes "sr_addresses r \<noteq> []" "strip_brackets (to_lower hostname) = sr_hostname r"
  shows "answered (pinned_lookup r hostname None True) = sr_addresses r"
  using assms by (cases "sr_addresses r") (auto simp: pinned_lookup_def)

text \<open>
  The lookup of a checked destination hands the HTTP stack vetted addresses of that
  check only, of the family it asks for, and only for the destination's own hostname; and asked
  for all addresses of the hostname of the URL it returns all of them.
\<close>

theorem pinned_lookup_vetted:
  assumes "resolve_safe_url parse resolver settings value = Inr r"
  shows "(\<forall>hostname family all e. e \<in> set (answered (pinned_lookup r hostname family all)) \<longrightarrow>
       e \<in> set (sr_addresses r) \<and> vetted (is_localhost_subdomain (sr_hostname r)) e
       \<and> (family = Some 4 \<or> family = Some 6 \<longrightarrow> family = Some (int (snd e)))
       \<and> strip_brackets (to_lower hostname) = sr_hostname r)
     \<and> answered (pinned_lookup r (u_hostname (sr_url r)) None True) = sr_addresses r"
proof -
  have safe: "safe_destination settings r" using assms by (rule resolve_safe_url_safe)
  then have own: "answered (pinned_lookup r (u_hostname (sr_url r)) None True) = sr_addresses r"
    by (intro pinned_lookup_own_host) (auto simp: safe_destination_def Let_def)
  have "vetted (is_localhost_subdomain (sr_hostname r)) e" if "e \<in> set (sr_addresses r)" for e
    using safe that by (auto simp: safe_destination_def Let_def list_all_iff)
  then have given: "e \<in> set (sr_addresses r) \<and> vetted (is_localhost_subdomain (sr_hostname r)) e
       \<and> (family = Some 4 \<or> family = Some 6 \<longrightarrow> family = Some (int (snd e)))
       \<and> strip_brackets (to_lower hostname) = sr_hostname r"
    if "e \<in> set (answered (pinned_lookup r hostname family all))" for hostname family all e
    using answered_pinned_lookup [OF that] by simp
  show ?thesis
    by (rule conjI, intro allI impI, rule given, assumption, rule own)
qed

definition sample_url :: url where
  "sample_url = \<lparr>u_scheme = ''https'', u_username = [], u_password = [], u_hostname = ''docs.example'', u_port = [],
     u_path = ''/guide/'', u_query = Some ''b=2&utm_source=x&a=1'', u_fragment = Some ''top''\<rparr>"

definition sample_parse :: url_parser where
  "sample_parse base value = (if value = href sample_url then Some sample_url else None)"

definition sample_resolver :: address_resolver where
  "sample_resolver hostname = (if hostname = ''docs.example''
     then Some [(''93.184.216.34'', Some 4), (''8.8.8.8'', None), (''93.184.216.34'', None)] else None)"

definition sample_settings :: crawler_settings where
  "sample_settings = \<lparr>cs_database = None, cs_max_pages = 3, cs_max_bytes = 100, cs_data_dir = ''/data'',
     cs_upload_dir = Some ''/uploads'', cs_allow_localhost = False, cs_ports = [80, 443]\<rparr>"

definition sample_resolution :: safe_resolution where
  "sample_resolution = \<lparr>sr_url = sample_url, sr_hostname = ''docs.example'',
     sr_addresses = [(''93.184.216.34'', 4), (''8.8.8.8'', 4)]\<rparr>"

lemma sample_public: "\<not> is_denied_address ''93.184.216.34'' \<and> \<not> is_denied_address ''8.8.8.8''"
proof -
  have "''93.184.216.34'' = dotted 93 184 216 34" "''8.8.8.8'' = dotted 8 8 8 8"
    by code_simp+
  then show ?thesis
    using denied_v4_dotted(1) [of 93 184 216 34] denied_v4_dotted(1) [of 8 8 8 8] by simp
qed

lemma sample_resolves:
  "resolve_safe_url sample_parse sample_resolver sample_settings (href sample_url) = Inr sample_resolution"
proof -
  let ?es = "[(''93.184.216.34'', 4), (''8.8.8.8'', 4), (''93.184.216.34'', 4)]"
  have "check_form sample_parse (href sample_url) = Inr sample_url"
    and "strip_brackets (to_lower (u_hostname sample_url)) = ''docs.example''"
    and "\<not> is_localhost_subdomain ''docs.example''"
    and "check_port sample_settings False sample_url = Inr ()"
    and "resolve_addresses sample_resolver ''docs.example'' = Inr ?es"
    and "unique_addresses ?es = [(''93.184.216.34'', 4), (''8.8.8.8'', 4)]"
    by code_simp+
  moreover have "check_network False ?es = Inr ()"
    using sample_public by (simp add: check_network_def)
  ultimately show ?thesis
    by (simp add: resolve_safe_url_def sample_resolution_def Let_def)
qed

theorem resolve_safe_url_vetted_witness: "safe_destination sample_settings sample_resolution"
  by (rule resolve_safe_url_vetted [OF sample_resolves])

theorem pinned_lookup_vetted_witness:
  "answered (pinned_lookup sample_resolution ''docs.example'' None True)
     = [(''93.184.216.34'', 4), (''8.8.8.8'', 4)]"
  using pinned_lookup_vetted [OF sample_resolves] by (simp add: sample_resolution_def sample_url_def)

section \<open>Query strings\<close>

text \<open>
  \<^verbatim>\<open>URLSearchParams\<close>: the names and values of a query string, kept as their UTF-8 bytes, and the
  form encoding that writes them back.  Bytes that are no UTF-8 stay as they are here, where JavaScript reads
  U+FFFD for them; pairs are sorted by their bytes, which is the order of their code units but for characters
  beyond U+FFFF.
\<close>

fun percent_decode :: "string \<Rightarrow> string" where
  "percent_decode (p # a # b # s) =
     (if p = CHR ''%'' \<and> is_hex a \<and> is_hex b then char_of (16 * hex_value a + hex_value b) # percent_decode s
      else p # percent_decode (a # b # s))"
| "percent_decode [a, b] = [a, b]"
| "percent_decode [a] = [a]"
| "percent_decode [] = []"

definition form_plain :: "char \<Rightarrow> bool" where
  "form_plain c \<longleftrightarrow> is_digit c \<or> is_lower c \<or> is_upper c \<or> c \<in> set ''*-._''"

definition upper_hex_digit :: "nat \<Rightarrow> char" where
  "upper_hex_digit n = (if n < 10 then char_of (48 + n) else char_of (55 + n))"

definition form_char :: "char \<Rightarrow> string" where
  "form_char c = (if form_plain c then [c] else if c = CHR '' '' then ''+''
     else [CHR ''%'', upper_hex_digit (of_char c div 16), upper_hex_digit (of_char c mod 16)])"

definition form_encode :: "string \<Rightarrow> string" where
  "form_encode s = concat (map form_char s)"

definition form_decode :: "string \<Rightarrow> string" where
  "form_decode s = percent_decode (map (\<lambda>c. if c = CHR ''+'' then CHR '' '' else c) s)"

definition parse_pair :: "string \<Rightarrow> string \<times> string" where
  "parse_pair s = (form_decode (takeWhile (\<lambda>c. c \<noteq> CHR ''='') s),
     form_decode (drop 1 (dropWhile (\<lambda>c. c \<noteq> CHR ''='') s)))"

definition parse_query :: "string \<Rightarrow> (string \<times> string) list" where
  "parse_query q = map parse_pair (filter (\<lambda>p. p \<noteq> []) (split_on (CHR ''&'') q))"

definition query_pair :: "string \<times> string \<Rightarrow> string" where
  "query_pair p = form_encode (fst p) @ ''='' @ form_encode (snd p)"

definition serialize_query :: "(string \<times> string) list \<Rightarrow> string" where
  "serialize_query ps = join ''&'' (map query_pair ps)"

lemma is_hex_not: "is_hex c \<Longrightarrow> c \<notin> set ''%+&=''"
  by (auto simp: is_hex_def is_digit_def char_in_def)

lemma upper_hex: "n < 16 \<Longrightarrow> is_hex (upper_hex_digit n) \<and> hex_value (upper_hex_digit n) = n"
  by (auto simp: upper_hex_digit_def is_hex_def hex_value_def is_digit_def char_in_def digit_value_def
      of_char_char_of_small)

lemma byte_nibbles: "of_char c div 16 < (16 :: nat)" "of_char c mod 16 < (16 :: nat)"
  by (simp_all add: less_mult_imp_div_less)

lemma form_plain_not: "form_plain c \<Longrightarrow> c \<notin> set ''%+&= ''"
  by (auto simp: form_plain_def is_digit_def is_lower_def is_upper_def char_in_def)

lemma form_char_chars: "c \<in> set (form_char d) \<Longrightarrow> c \<noteq> CHR ''&'' \<and> c \<noteq> CHR ''=''"
  using upper_hex [OF byte_nibbles(1) [of d]] upper_hex [OF byte_nibbles(2) [of d]] form_plain_not [of d]
    is_hex_not [of c]
  by (auto simp: form_char_def split: if_splits)

lemma form_decode_char: "form_decode (form_char c @ s) = c # form_decode s"
proof (cases "form_plain c \<or> c = CHR '' ''")
  case True
  then have one: "form_char c = [if c = CHR '' '' then CHR ''+'' else c]" "c \<noteq> CHR ''%''" "c \<noteq> CHR ''+''"
    using form_plain_not [of c] by (auto simp: form_char_def)
  have "percent_decode (c # t) = c # percent_decode t" for t
    using one by (cases t rule: percent_decode.cases) auto
  then have "percent_decode ((if c = CHR '' '' then CHR '' '' else c) # t) = c # percent_decode t" for t
    by simp
  then show ?thesis using one(1,3) by (cases "c = CHR '' ''") (simp_all add: form_decode_def)
next
  case False
  let ?a = "upper_hex_digit (of_char c div 16)" and ?b = "upper_hex_digit (of_char c mod 16)"
  have hex: "is_hex ?a" "is_hex ?b" "hex_value ?a = of_char c div 16" "hex_value ?b = of_char c mod 16"
    using upper_hex byte_nibbles by blast+
  then have "?a \<noteq> CHR ''+''" "?b \<noteq> CHR ''+''"
    using is_hex_not by force+
  with False hex show ?thesis by (simp add: form_decode_def form_char_def)
qed

lemma form_decode_encode [simp]: "form_decode (form_encode s) = s"
  by (induction s) (simp_all add: form_encode_def form_decode_char, simp add: form_decode_def)

lemma form_encode_chars: "c \<in> set (form_encode s) \<Longrightarrow> c \<noteq> CHR ''&'' \<and> c \<noteq> CHR ''=''"
  using form_char_chars by (fastforce simp: form_encode_def)

lemma parse_query_pair [simp]: "parse_pair (query_pair p) = p"
proof -
  have "takeWhile (\<lambda>c. c \<noteq> CHR ''='') (query_pair p) = form_encode (fst p)"
    and "dropWhile (\<lambda>c. c \<noteq> CHR ''='') (query_pair p) = ''='' @ form_encode (snd p)"
    using form_encode_chars by (fastforce simp: query_pair_def takeWhile_append dropWhile_append)+
  then show ?thesis by (simp add: parse_pair_def)
qed

lemma parse_serialize: "parse_query (serialize_query ps) = ps"
proof (cases "ps = []")
  case False
  have sep: "CHR ''&'' \<notin> set (query_pair p)" for p
    using form_encode_chars by (auto simp: query_pair_def)
  have "split_on (CHR ''&'') (serialize_query ps) = map query_pair ps"
    unfolding serialize_query_def using False sep by (intro split_on_join) auto
  moreover have "query_pair p \<noteq> []" for p by (simp add: query_pair_def)
  ultimately show ?thesis by (simp add: parse_query_def comp_def)
qed (simp add: parse_query_def serialize_query_def)

section \<open>The canonical form\<close>

definition tracking :: "string \<Rightarrow> bool" where
  "tracking key \<longleftrightarrow> (let k = to_lower key
     in starts_with k ''utm_'' \<or> starts_with k ''fbclid'' \<or> starts_with k ''gclid'')"

definition canonical_query :: "string \<Rightarrow> string" where
  "canonical_query q = serialize_query (js_sort by_key (filter (\<lambda>p. \<not> tracking (fst p)) (parse_query q)))"

text \<open>An HTTP(S) URL whose path is set to the empty text gets the path \<^verbatim>\<open>/\<close>.\<close>

definition canonical_path :: "string \<Rightarrow> string" where
  "canonical_path p =
     (if p = ''/'' then p else let t = strip_right (\<lambda>c. c = CHR ''/'') p in if t = [] then ''/'' else t)"

definition default_port :: "string \<Rightarrow> string \<Rightarrow> bool" where
  "default_port scheme port \<longleftrightarrow> scheme = ''https'' \<and> port = ''443'' \<or> scheme = ''http'' \<and> port = ''80''"

definition canonical_url :: "url \<Rightarrow> url" where
  "canonical_url u =
     u\<lparr>u_fragment := None,
       u_hostname := to_lower (u_hostname u),
       u_port := (if default_port (u_scheme u) (u_port u) then [] else u_port u),
       u_query := (let q = canonical_query (nullish (u_query u) []) in if q = [] then None else Some q),
       u_path := canonical_path (u_path u)\<rparr>"

definition canonicalize :: "url_parser \<Rightarrow> string \<Rightarrow> string option" where
  "canonicalize parse value = map_option (\<lambda>u. href (canonical_url u)) (parse None value)"

lemma js_sort_sorted_id:
  "sorted_wrt (\<lambda>x y. cmp x y \<le> 0) xs \<Longrightarrow> js_sort cmp xs = xs"
proof (induction xs)
  case (Cons x xs)
  then show ?case by (cases xs) auto
qed simp

lemma by_key_sorted: "sorted_wrt (\<lambda>x y. by_key x y \<le> 0) (js_sort by_key xs)"
  using comparator.sort_sorted [OF comparator_cmp_by, of fst xs] by (simp add: cmp_simps by_key_cmp)

lemma parse_canonical_query:
  "parse_query (canonical_query q) = js_sort by_key (filter (\<lambda>p. \<not> tracking (fst p)) (parse_query q))"
  by (simp add: canonical_query_def parse_serialize)

lemma canonical_query_idem [simp]: "canonical_query (canonical_query q) = canonical_query q"
proof -
  let ?ps = "js_sort by_key (filter (\<lambda>p. \<not> tracking (fst p)) (parse_query q))"
  have "filter (\<lambda>p. \<not> tracking (fst p)) ?ps = ?ps"
    by (rule filter_True) auto
  then show ?thesis
    using by_key_sorted js_sort_sorted_id unfolding canonical_query_def [of "canonical_query q"] parse_canonical_query
    by (metis canonical_query_def)
qed

lemma canonical_query_Nil [simp]: "canonical_query [] = []"
  by (simp add: canonical_query_def parse_query_def serialize_query_def)

lemma canonical_path_idem [simp]: "canonical_path (canonical_path p) = canonical_path p"
  by (auto simp: canonical_path_def Let_def)

lemma canonical_path_end: "canonical_path p = ''/'' \<or> canonical_path p \<noteq> [] \<and> last (canonical_path p) \<noteq> CHR ''/''"
  using strip_right_last [of "\<lambda>c. c = CHR ''/''" p] by (auto simp: canonical_path_def Let_def)

lemma stable_by_key: "filter (\<lambda>p. fst p = k) (js_sort by_key ps) = filter (\<lambda>p. fst p = k) ps"
proof (induction ps)
  case (Cons p ps)
  have "filter (\<lambda>p. fst p = k) (insert_by by_key p xs) = filter (\<lambda>p. fst p = k) (p # xs)" for xs
    by (induction xs) (auto simp: by_key_cmp cmp_by_def)
  then show ?case using Cons by simp
qed simp

text \<open>
  Property C6. A canonical URL is a fixed point of canonicalisation. It has no fragment, no default
  port and, unless it is the root, no trailing slash; its query has the parameters of the original
  other than the tracking ones, sorted by name, the values of each name in their original order;
  scheme, credentials and lower-case hostname are those of the original, and so is the port.
\<close>

theorem canonical_url_normal:
  "canonical_url (canonical_url u) = canonical_url u
   \<and> u_fragment (canonical_url u) = None \<and> \<not> default_port (u_scheme u) (u_port (canonical_url u))
   \<and> (u_path (canonical_url u) = ''/'' \<or> u_path (canonical_url u) \<noteq> [] \<and> last (u_path (canonical_url u)) \<noteq> CHR ''/'')
   \<and> (let ps = parse_query (nullish (u_query u) []); qs = parse_query (nullish (u_query (canonical_url u)) [])
      in mset qs = filter_mset (\<lambda>p. \<not> tracking (fst p)) (mset ps) \<and> sorted (map fst qs)
        \<and> (\<forall>k. \<not> tracking k \<longrightarrow> filter (\<lambda>p. fst p = k) qs = filter (\<lambda>p. fst p = k) ps))
   \<and> u_scheme (canonical_url u) = u_scheme u \<and> credentials (canonical_url u) = credentials u
   \<and> u_hostname (canonical_url u) = to_lower (u_hostname u) \<and> effective_port (canonical_url u) = effective_port u"
proof -
  let ?ps = "parse_query (nullish (u_query u) [])"
  have qs: "parse_query (nullish (u_query (canonical_url u)) []) = js_sort by_key (filter (\<lambda>p. \<not> tracking (fst p)) ?ps)"
    using parse_canonical_query [of "nullish (u_query u) []"] by (auto simp: canonical_url_def Let_def)
  have sorted: "sorted (map fst (js_sort by_key xs))" for xs :: "(string \<times> string) list"
    using by_key_sorted [of xs] by (simp add: sorted_map by_key_cmp cmp_simps sorted_wrt_iff_nth_less)
  have kept: "filter (\<lambda>p. fst p = k) (js_sort by_key (filter (\<lambda>p. \<not> tracking (fst p)) ?ps)) = filter (\<lambda>p. fst p = k) ?ps"
    if "\<not> tracking k" for k
    using that by (auto simp: stable_by_key intro!: filter_cong)
  have idem: "canonical_url (canonical_url u) = canonical_url u"
    by (auto simp: canonical_url_def Let_def default_port_def)
  show ?thesis
    unfolding qs Let_def using idem sorted kept canonical_path_end [of "u_path u"]
    by (auto simp: canonical_url_def default_port_def credentials_def effective_port_def)
qed

text \<open>The witness is the sample URL: its fragment, its tracking parameter and its trailing slash go.\<close>

theorem canonical_url_normal_witness:
  "href (canonical_url sample_url) = ''https://docs.example/guide?a=1&b=2''
   \<and> filter (\<lambda>p. fst p = ''a'') (parse_query ''a=1&b=2'') = [(''a'', ''1'')]"
proof -
  have "u_query (canonical_url sample_url) = Some ''a=1&b=2''" "u_query sample_url = Some ''b=2&utm_source=x&a=1''"
    "\<not> tracking ''a''" "filter (\<lambda>p. fst p = ''a'') (parse_query ''b=2&utm_source=x&a=1'') = [(''a'', ''1'')]"
    by code_simp+
  moreover have "href (canonical_url sample_url) = ''https://docs.example/guide?a=1&b=2''"
    by code_simp
  ultimately show ?thesis
    using canonical_url_normal [of sample_url] by (auto simp: Let_def)
qed

end
