(* ===== verification/Fetch.thy ===== *)
theory Fetch
  imports SafeUrl
begin

text \<open>
  Fetching over the network: the bounded reading of a response, the request headers, the transport
  pinned to vetted addresses, the redirect loop of \<^verbatim>\<open>secureFetch\<close> (\<^verbatim>\<open>crawler/sources.ts\<close>) and the HTTP
  client that Crawlee is given (\<^verbatim>\<open>crawler/pinned-http-client.ts\<close>). A body is the list of the chunks its
  stream yields. DNS and the HTTP stack are arguments indexed by the number of redirects followed,
  so that their answers may change between two hops.
\<close>

section \<open>Headers and responses\<close>

datatype header_value = NoValue | OneValue string | ManyValues "string list"

type_synonym request_headers = "(string \<times> header_value) list"

text \<open>A \<^verbatim>\<open>Headers\<close> object: lower-case names in the order they were appended.\<close>

type_synonym web_headers = "(string \<times> string) list"

definition append_header :: "string \<Rightarrow> string \<Rightarrow> web_headers \<Rightarrow> web_headers" where
  "append_header name v hs = hs @ [(to_lower name, v)]"

definition set_header :: "string \<Rightarrow> string \<Rightarrow> web_headers \<Rightarrow> web_headers" where
  "set_header name v hs = filter (\<lambda>h. fst h \<noteq> to_lower name) hs @ [(to_lower name, v)]"

definition header_get :: "web_headers \<Rightarrow> string \<Rightarrow> string option" where
  "header_get hs name =
     (case map snd (filter (\<lambda>h. fst h = to_lower name) hs) of [] \<Rightarrow> None | vs \<Rightarrow> Some (join '', '' vs))"

record response =
  rs_status :: nat
  rs_headers :: web_headers
  rs_body :: "string list option"

definition response_ok :: "response \<Rightarrow> bool" where
  "response_ok r \<longleftrightarrow> 200 \<le> rs_status r \<and> rs_status r \<le> 299"

section \<open>Bounded bodies\<close>

definition too_large :: "int \<Rightarrow> crawler_error" where
  "too_large m = job_error ''source_too_large'' (''The source exceeds the configured '' @ int_str m @ ''-byte limit.'')"

text \<open>The declared length is a decimal number, as the HTTP parser enforces.\<close>

definition declared_over :: "response \<Rightarrow> int \<Rightarrow> bool" where
  "declared_over r m \<longleftrightarrow>
     (case js_number (nullish (header_get (rs_headers r) ''content-length'') ''0'') of
        Some n \<Rightarrow> m < n
      | None \<Rightarrow> False)"

fun read_chunks :: "int \<Rightarrow> int \<Rightarrow> string list \<Rightarrow> string list \<Rightarrow> crawler_error + string list" where
  "read_chunks m seen got [] = Inr got"
| "read_chunks m seen got (v # vs) =
     (let t = seen + int (length v) in if m < t then Inl (too_large m) else read_chunks m t (got @ [v]) vs)"

definition bounded_response_bytes :: "response \<Rightarrow> int \<Rightarrow> crawler_error + string" where
  "bounded_response_bytes r m =
     (if declared_over r m then Inl (too_large m)
      else (case rs_body r of
          None \<Rightarrow> Inr []
        | Some vs \<Rightarrow> bind_result (read_chunks m 0 [] vs) (\<lambda>got. Inr (concat got))))"

text \<open>The UTF-8 decoder is an argument; it refuses malformed bytes.\<close>

definition bounded_response_text :: "(string \<Rightarrow> string option) \<Rightarrow> response \<Rightarrow> int \<Rightarrow> crawler_error + string" where
  "bounded_response_text decode r m =
     bind_result (bounded_response_bytes r m) (\<lambda>bytes.
       (case decode bytes of
          Some t \<Rightarrow> Inr t
        | None \<Rightarrow> Inl (job_error ''source_encoding_unsupported'' ''Documentation sources must use valid UTF-8 text.'')))"

section \<open>The pinned transport\<close>

definition managed_headers :: "string list" where
  "managed_headers = [''host'', ''connection'', ''proxy-authorization'', ''transfer-encoding'', ''content-length'', ''accept-encoding'']"

definition request_headers :: "url \<Rightarrow> request_headers \<Rightarrow> request_headers" where
  "request_headers u values =
     jm_set ''Accept-Encoding'' (OneValue ''identity'') (jm_set ''Host'' (OneValue (u_host u))
       (jm_of_list (filter (\<lambda>(name, v). v \<noteq> NoValue \<and> to_lower name \<notin> set managed_headers) values)))"

definition append_value :: "string \<times> header_value \<Rightarrow> web_headers \<Rightarrow> web_headers" where
  "append_value nv hs =
     (case snd nv of
        NoValue \<Rightarrow> hs
      | OneValue v \<Rightarrow> set_header (fst nv) v hs
      | ManyValues vs \<Rightarrow> fold (append_header (fst nv)) vs hs)"

definition web_headers :: "request_headers \<Rightarrow> (string \<times> string) list \<Rightarrow> web_headers" where
  "web_headers values raw =
     (if raw = [] then fold append_value values [] else fold (\<lambda>(n, v). append_header n v) raw [])"

record incoming =
  in_status :: nat
  in_headers :: request_headers
  in_raw :: "(string \<times> string) list"
  in_encoding :: "string option"
  in_chunks :: "string list"

record http_request =
  hq_url :: url
  hq_headers :: request_headers
  hq_lookup :: "string \<Rightarrow> int option \<Rightarrow> bool \<Rightarrow> (string \<times> string) + lookup_answer"
  hq_servername :: "string option"

definition request_of :: "safe_resolution \<Rightarrow> request_headers \<Rightarrow> http_request" where
  "request_of r headers =
     \<lparr>hq_url = sr_url r, hq_headers = request_headers (sr_url r) headers, hq_lookup = pinned_lookup r,
      hq_servername = (if u_scheme (sr_url r) = ''https'' \<and> is_ip (sr_hostname r) = 0 then Some (sr_hostname r) else None)\<rparr>"

text \<open>A failure that is not a \<^verbatim>\<open>CrawlerJobError\<close> is \<open>None\<close>.\<close>

definition pinned_transport ::
    "(http_request \<Rightarrow> incoming option) \<Rightarrow> safe_resolution \<Rightarrow> request_headers \<Rightarrow> crawler_error option + response" where
  "pinned_transport http r headers =
     (case http (request_of r headers) of
        None \<Rightarrow> Inl None
      | Some m \<Rightarrow>
          if in_status m < 200 \<or> 599 < in_status m then Inl None
          else if to_lower (trim (nullish (in_encoding m) [])) \<notin> set [[], ''identity''] then Inl None
          else Inr \<lparr>rs_status = in_status m, rs_headers = web_headers (in_headers m) (in_raw m),
                 rs_body = (if in_status m \<in> set [204, 304] then None else Some (in_chunks m))\<rparr>)"

section \<open>The redirect loop\<close>

record fetch_env =
  fe_parse :: url_parser
  fe_resolve :: "nat \<Rightarrow> address_resolver"
  fe_transport :: "nat \<Rightarrow> safe_resolution \<Rightarrow> request_headers \<Rightarrow> crawler_error option + response"

record fetch_options =
  fo_headers :: request_headers
  fo_policy :: "url \<Rightarrow> url \<Rightarrow> crawler_error + unit"

definition default_options :: fetch_options where
  "default_options = \<lparr>fo_headers = [], fo_policy = (\<lambda>_ _. Inr ())\<rparr>"

definition fetch_headers :: "string \<Rightarrow> fetch_options \<Rightarrow> request_headers" where
  "fetch_headers accept opts =
     jm_of_list ([(''User-Agent'', OneValue ''DokoSokoCrawler/3.0''), (''Accept'', OneValue accept)] @ fo_headers opts)"

definition fetch_response ::
    "fetch_env \<Rightarrow> nat \<Rightarrow> string \<Rightarrow> fetch_options \<Rightarrow> safe_resolution \<Rightarrow> crawler_error + response" where
  "fetch_response env redirects accept opts r =
     (case fe_transport env redirects r (fetch_headers accept opts) of
        Inr response \<Rightarrow> Inr response
      | Inl (Some e) \<Rightarrow> Inl e
      | Inl None \<Rightarrow> Inl (job_error ''source_fetch_failed'' ''The crawler could not fetch the source. Check DNS, TLS, and source availability.''))"

definition redirect_status :: "nat \<Rightarrow> bool" where
  "redirect_status n \<longleftrightarrow> n \<in> set [301, 302, 303, 307, 308]"

definition redirect_target ::
    "fetch_env \<Rightarrow> fetch_options \<Rightarrow> nat \<Rightarrow> url \<Rightarrow> response \<Rightarrow> crawler_error + url" where
  "redirect_target env opts redirects u response =
     (if 5 \<le> redirects then Inl (job_error ''source_redirect_limit'' ''The source exceeded the five-redirect limit.'')
      else (case header_get (rs_headers response) ''location'' of
          None \<Rightarrow> Inl (job_error ''source_redirect_invalid'' ''The source returned a redirect without a Location header.'')
        | Some location \<Rightarrow>
            if location = []
            then Inl (job_error ''source_redirect_invalid'' ''The source returned a redirect without a Location header.'')
            else (case fe_parse env (Some u) location of
                None \<Rightarrow> Inl (job_error ''source_redirect_invalid'' ''The source returned an invalid redirect destination.'')
              | Some target \<Rightarrow> bind_result (fo_policy opts u target) (\<lambda>_. Inr target))))"

lemma redirect_target_Inr:
  "redirect_target env opts redirects u response = Inr target \<Longrightarrow>
     redirects < 5 \<and> fo_policy opts u target = Inr ()
     \<and> (\<exists>location. fe_parse env (Some u) location = Some target)"
  by (auto simp: redirect_target_def split: if_splits option.splits)

text \<open>The loop, with the list of the checked destinations it sent a request to.\<close>

function secure_fetch ::
    "fetch_env \<Rightarrow> crawler_settings \<Rightarrow> string \<Rightarrow> fetch_options \<Rightarrow> nat \<Rightarrow> string \<Rightarrow> url list
      \<Rightarrow> (crawler_error + response \<times> url \<times> url list) \<times> safe_resolution list" where
  "secure_fetch env settings accept opts redirects value urls =
     (case resolve_safe_url (fe_parse env) (fe_resolve env redirects) settings value of
        Inl e \<Rightarrow> (Inl e, [])
      | Inr r \<Rightarrow>
         (case fetch_response env redirects accept opts r of
            Inl e \<Rightarrow> (Inl e, [r])
          | Inr response \<Rightarrow>
              if \<not> redirect_status (rs_status response) then (Inr (response, sr_url r, urls), [r])
              else (case redirect_target env opts redirects (sr_url r) response of
                  Inl e \<Rightarrow> (Inl e, [r])
                | Inr target \<Rightarrow>
                    apsnd (\<lambda>log. r # log)
                      (secure_fetch env settings accept opts (Suc redirects) (href target) (urls @ [target])))))"
  by pat_completeness auto
termination
  by (relation "measure (\<lambda>(env, settings, accept, opts, redirects, value, urls). 6 - redirects)")
    (auto dest: redirect_target_Inr)

declare secure_fetch.simps [simp del]

section \<open>What the reader and the loop guarantee\<close>

lemma read_chunks_eq:
  "seen \<le> m \<Longrightarrow> read_chunks m seen got vs =
     (if seen + int (length (concat vs)) \<le> m then Inr (got @ vs) else Inl (too_large m))"
  by (induction vs arbitrary: seen got) (auto simp: Let_def)

lemma bounded_bytes_le: "bounded_response_bytes r m = Inr bytes \<Longrightarrow> 0 \<le> m \<Longrightarrow> int (length bytes) \<le> m"
  using read_chunks_eq [of 0 m "[]"] by (auto simp: bounded_response_bytes_def split: if_splits option.splits)

text \<open>
  Reading a body returns exactly the bytes of its stream when neither the declared nor
  the actual length is above the limit, and otherwise fails; so it never returns more bytes than
  the limit.
\<close>

theorem bounded_bytes_exact:
  assumes "0 \<le> m"
  shows "bounded_response_bytes r m =
      (if declared_over r m \<or> m < int (length (concat (nullish (rs_body r) []))) then Inl (too_large m)
       else Inr (concat (nullish (rs_body r) [])))"
  using read_chunks_eq [OF assms, of "[]"] assms
  by (auto simp: bounded_response_bytes_def split: option.splits)

theorem bounded_bytes_exact_witness:
  "bounded_response_bytes \<lparr>rs_status = 200, rs_headers = [], rs_body = Some [''abc'', ''de'']\<rparr> 5 = Inr ''abcde''
   \<and> bounded_response_bytes \<lparr>rs_status = 200, rs_headers = [], rs_body = Some [''abc'', ''de'']\<rparr> 4 = Inl (too_large 4)"
proof -
  have "\<not> declared_over \<lparr>rs_status = 200, rs_headers = [], rs_body = Some [''abc'', ''de'']\<rparr> 5"
    "\<not> declared_over \<lparr>rs_status = 200, rs_headers = [], rs_body = Some [''abc'', ''de'']\<rparr> 4"
    by code_simp+
  then show ?thesis
    by (simp add: bounded_bytes_exact)
qed

lemma update_new: "k \<notin> fst ` set m \<Longrightarrow> AList.update k v m = m @ [(k, v)]"
  by (induction m) auto

lemma header_list_keys: "fst ` set (jm_of_list kvs) = fst ` set kvs"
proof -
  have "fst ` set (fold (\<lambda>(k, v) m. jm_set k v m) kvs m) = fst ` set m \<union> fst ` set kvs"
    for m :: "('a \<times> 'b) list"
    by (induction kvs arbitrary: m) (simp_all add: dom_update case_prod_beta)
  then show ?thesis by (simp add: jm_of_list_def)
qed

text \<open>
  Whatever headers a caller passes, a request has exactly one host header, that of the
  URL, asks for the identity encoding, and has no other header that the transport manages itself.
\<close>

theorem request_headers_managed:
  "map_of (request_headers u values) ''Host'' = Some (OneValue (u_host u))
   \<and> map_of (request_headers u values) ''Accept-Encoding'' = Some (OneValue ''identity'')
   \<and> distinct (map fst (request_headers u values))
   \<and> filter (\<lambda>h. to_lower (fst h) \<in> set managed_headers) (request_headers u values)
       = [(''Host'', OneValue (u_host u)), (''Accept-Encoding'', OneValue ''identity'')]"
proof -
  let ?hs = "jm_of_list (filter (\<lambda>(name, v). v \<noteq> NoValue \<and> to_lower name \<notin> set managed_headers) values)"
  have free: "to_lower k \<notin> set managed_headers" if "k \<in> fst ` set ?hs" for k
    using that by (auto simp: header_list_keys)
  have names: "to_lower ''Host'' \<in> set managed_headers" "to_lower ''Accept-Encoding'' \<in> set managed_headers"
    by code_simp+
  have fresh: "''Host'' \<notin> fst ` set ?hs" "''Accept-Encoding'' \<notin> fst ` set ?hs"
    using free names by metis+
  then have eq: "request_headers u values = ?hs @ [(''Host'', OneValue (u_host u)), (''Accept-Encoding'', OneValue ''identity'')]"
    by (simp add: request_headers_def update_new)
  have "filter (\<lambda>h. to_lower (fst h) \<in> set managed_headers) ?hs = []"
    unfolding filter_empty_conv by (intro ballI free imageI)
  then have "filter (\<lambda>h. to_lower (fst h) \<in> set managed_headers) (request_headers u values)
       = [(''Host'', OneValue (u_host u)), (''Accept-Encoding'', OneValue ''identity'')]"
    unfolding eq filter_append using names by simp
  moreover have "map_of ?hs ''Host'' = None" "map_of ?hs ''Accept-Encoding'' = None"
    using fresh unfolding map_of_eq_None_iff by simp_all
  moreover have "distinct (map fst (request_headers u values))"
    unfolding request_headers_def by (intro distinct_update jm_of_list_distinct)
  ultimately show ?thesis
    unfolding eq by (simp add: map_add_def)
qed

section \<open>The trace of a fetch\<close>

text \<open>The hops of a fetch: each destination but the last answered with a redirect to the next.\<close>

fun hops :: "fetch_env \<Rightarrow> fetch_options \<Rightarrow> safe_resolution list \<Rightarrow> url list \<Rightarrow> bool" where
  "hops env opts (r # r' # rs) (t # ts) \<longleftrightarrow>
     fo_policy opts (sr_url r) t = Inr () \<and> (\<exists>l. fe_parse env (Some (sr_url r)) l = Some t)
     \<and> fe_parse env None (href t) = Some (sr_url r') \<and> hops env opts (r' # rs) ts"
| "hops env opts [r] [] \<longleftrightarrow> True"
| "hops env opts _ _ \<longleftrightarrow> False"

lemma resolve_safe_url_parse:
  "resolve_safe_url parse resolver settings value = Inr r \<Longrightarrow> parse None value = Some (sr_url r)"
  by (auto simp: resolve_safe_url_def Let_def check_form_Inr)

lemma secure_fetch_log:
  assumes "secure_fetch env settings accept opts n value urls = (res, log)" "n \<le> 5"
  shows "list_all (safe_destination settings) log \<and> length log \<le> 6 - n
    \<and> (log \<noteq> [] \<longrightarrow> fe_parse env None value = Some (sr_url (hd log)))"
  using assms
proof (induction env settings accept opts n "value" urls arbitrary: res log rule: secure_fetch.induct)
  case (1 env settings accept opts n location urls)
  show ?case
  proof (cases "resolve_safe_url (fe_parse env) (fe_resolve env n) settings location")
    case (Inl e)
    then show ?thesis using "1.prems" by (simp add: secure_fetch.simps [of env])
  next
    case (Inr r)
    note r = resolve_safe_url_safe [OF Inr] resolve_safe_url_parse [OF Inr]
    show ?thesis
    proof (cases "\<exists>response target. fetch_response env n accept opts r = Inr response
        \<and> redirect_status (rs_status response) \<and> redirect_target env opts n (sr_url r) response = Inr target")
      case False
      then have "log = [r]"
        using "1.prems" Inr by (auto simp: secure_fetch.simps [of env] split: sum.splits if_splits)
      then show ?thesis using r "1.prems" by simp
    next
      case True
      then obtain response target where t: "fetch_response env n accept opts r = Inr response"
          "redirect_status (rs_status response)" "redirect_target env opts n (sr_url r) response = Inr target"
        by blast
      obtain res' log' where rec: "secure_fetch env settings accept opts (Suc n) (href target) (urls @ [target]) = (res', log')"
        by fastforce
      have "n < 5" using redirect_target_Inr [OF t(3)] by simp
      then have "list_all (safe_destination settings) log' \<and> length log' \<le> 6 - Suc n"
        using "1.IH" [OF Inr t(1) _ t(3) rec] t(2) by simp
      moreover have "log = r # log'"
        using "1.prems" Inr t rec by (simp add: secure_fetch.simps [of env] apsnd_def)
      ultimately show ?thesis using r \<open>n < 5\<close> by auto
    qed
  qed
qed

lemma secure_fetch_hops:
  assumes "secure_fetch env settings accept opts n value urls = (Inr (response, u, us), log)"
  shows "\<exists>ts. us = urls @ ts \<and> hops env opts log ts \<and> log \<noteq> [] \<and> u = sr_url (last log)
    \<and> \<not> redirect_status (rs_status response)"
  using assms
proof (induction env settings accept opts n "value" urls arbitrary: log rule: secure_fetch.induct)
  case (1 env settings accept opts n location urls)
  show ?case
  proof (cases "resolve_safe_url (fe_parse env) (fe_resolve env n) settings location")
    case (Inl e)
    then show ?thesis using "1.prems" by (simp add: secure_fetch.simps [of env])
  next
    case (Inr r)
    then obtain response' where t: "fetch_response env n accept opts r = Inr response'"
      using "1.prems" by (auto simp: secure_fetch.simps [of env] split: sum.splits)
    show ?thesis
    proof (cases "redirect_status (rs_status response')")
      case False
      then show ?thesis using "1.prems" Inr t by (auto simp: secure_fetch.simps [of env] split: if_splits)
    next
      case True
      then obtain target where target: "redirect_target env opts n (sr_url r) response' = Inr target"
        using "1.prems" Inr t by (auto simp: secure_fetch.simps [of env] split: sum.splits)
      obtain res' log' where hop: "secure_fetch env settings accept opts (Suc n) (href target) (urls @ [target]) = (res', log')"
        by fastforce
      then have eq: "log = r # log'" "res' = Inr (response, u, us)"
        using "1.prems" Inr t True target by (auto simp: secure_fetch.simps [of env _ _ _ n location] split: if_splits)
      then obtain ts where ts: "us = (urls @ [target]) @ ts" "hops env opts log' ts" "log' \<noteq> []" "u = sr_url (last log')"
          "\<not> redirect_status (rs_status response)"
        using "1.IH" [OF Inr t _ target] True hop by blast
      then obtain r' rs where log': "log' = r' # rs" by (cases log') auto
      have "fe_parse env None (href target) = Some (sr_url r')"
        using hop log' by (auto simp: secure_fetch.simps [of env _ _ _ "Suc n"] apsnd_def map_prod_def
            dest!: resolve_safe_url_parse split: sum.splits if_splits prod.splits)
      then have "hops env opts log (target # ts)"
        using redirect_target_Inr [OF target] ts eq log' by auto
      then show ?thesis using ts eq by auto
    qed
  qed
qed

text \<open>
  Property C10. Every request of a fetch goes to a checked destination, at most six requests are
  sent, and a fetch that returns followed redirects only that the policy allowed: the destination
  after each is the URL the server redirected to, and the response is that of the last destination
  and no redirect itself.
\<close>

theorem secure_fetch_safe:
  assumes "secure_fetch env settings accept opts 0 value [] = (res, log)"
  shows "list_all (safe_destination settings) log \<and> length log \<le> 6
    \<and> (\<forall>response u us. res = Inr (response, u, us) \<longrightarrow>
         hops env opts log us \<and> fe_parse env None value = Some (sr_url (hd log))
         \<and> u = sr_url (last log) \<and> \<not> redirect_status (rs_status response))"
proof -
  have "list_all (safe_destination settings) log \<and> length log \<le> 6
    \<and> (log \<noteq> [] \<longrightarrow> fe_parse env None value = Some (sr_url (hd log)))"
    using secure_fetch_log [OF assms] by simp
  moreover have "hops env opts log us \<and> log \<noteq> [] \<and> u = sr_url (last log) \<and> \<not> redirect_status (rs_status response)"
    if "res = Inr (response, u, us)" for response u us
    using secure_fetch_hops [of env settings accept opts 0 "value" "[]" response u us log] assms that by auto
  ultimately show ?thesis by blast
qed

definition sample_fetch :: fetch_env where
  "sample_fetch = \<lparr>fe_parse = sample_parse, fe_resolve = (\<lambda>_. sample_resolver),
     fe_transport = (\<lambda>n r hs. Inr (if n = 0 then \<lparr>rs_status = 302, rs_headers = [(''location'', href sample_url)], rs_body = None\<rparr>
       else \<lparr>rs_status = 200, rs_headers = [], rs_body = Some [''ok'']\<rparr>))\<rparr>"

lemma sample_fetch_hop:
  "resolve_safe_url (fe_parse sample_fetch) (fe_resolve sample_fetch n) sample_settings (href sample_url) = Inr sample_resolution"
  by (simp add: sample_fetch_def sample_resolves)

lemma sample_fetches:
  assumes "fo_policy opts sample_url sample_url = Inr ()"
  shows "secure_fetch sample_fetch sample_settings accept opts 0 (href sample_url) []
     = (Inr (\<lparr>rs_status = 200, rs_headers = [], rs_body = Some [''ok'']\<rparr>, sample_url, [sample_url]),
        [sample_resolution, sample_resolution])"
proof -
  have "header_get [(''location'', href sample_url)] ''location'' = Some (href sample_url)"
    and "href sample_url \<noteq> []"
    by code_simp+
  moreover have "fe_parse sample_fetch b (href sample_url) = Some sample_url" for b
    by (simp add: sample_fetch_def sample_parse_def)
  moreover have "sr_url sample_resolution = sample_url"
    by (simp add: sample_resolution_def)
  ultimately have "redirect_target sample_fetch opts 0 (sr_url sample_resolution)
      \<lparr>rs_status = 302, rs_headers = [(''location'', href sample_url)], rs_body = None\<rparr> = Inr sample_url"
    by (simp add: redirect_target_def assms)
  moreover have "fetch_response sample_fetch n accept opts sample_resolution = Inr
      (if n = 0 then \<lparr>rs_status = 302, rs_headers = [(''location'', href sample_url)], rs_body = None\<rparr>
       else \<lparr>rs_status = 200, rs_headers = [], rs_body = Some [''ok'']\<rparr>)" for n
    by (simp add: fetch_response_def sample_fetch_def)
  moreover have "sr_url sample_resolution = sample_url"
    by (simp add: sample_resolution_def)
  ultimately show ?thesis
    by (simp add: secure_fetch.simps [of sample_fetch] sample_fetch_hop redirect_status_def)
qed

theorem secure_fetch_safe_witness:
  "hops sample_fetch default_options [sample_resolution, sample_resolution] [sample_url]
   \<and> safe_destination sample_settings sample_resolution"
  using secure_fetch_safe [OF sample_fetches [of default_options]] by (simp del: hops.simps add: default_options_def)

end
