(* ===== verification/PinnedClient.thy ===== *)
theory PinnedClient
  imports Fetch
begin

text \<open>
  The HTTP client handed to Crawlee, \<^verbatim>\<open>crawler/pinned-http-client.ts\<close>: it permits GET requests without
  a proxy inside the boundary of the crawl, fetches through \<^verbatim>\<open>secureFetch\<close> and limits the stream. A
  failure that is not a \<^verbatim>\<open>CrawlerJobError\<close> is \<open>None\<close>.
\<close>

section \<open>The limited stream\<close>

text \<open>The chunks that pass the limiter, and the error that ends the stream.\<close>

fun limited :: "int \<Rightarrow> int \<Rightarrow> string list \<Rightarrow> string list \<times> crawler_error option" where
  "limited m transferred [] = ([], None)"
| "limited m transferred (v # vs) =
     (let t = transferred + int (length v)
      in if m < t then ([], Some (too_large m)) else apfst (\<lambda>cs. v # cs) (limited m t vs))"

record bounded_stream =
  bs_chunks :: "string list"
  bs_failure :: "crawler_error option"
  bs_total :: "int option"

definition bounded_stream_of :: "response \<Rightarrow> int \<Rightarrow> crawler_error + bounded_stream" where
  "bounded_stream_of r m =
     (if declared_over r m then Inl (too_large m)
      else let s = limited m 0 (nullish (rs_body r) []);
               declared = js_number (nullish (header_get (rs_headers r) ''content-length'') ''0'')
        in Inr \<lparr>bs_chunks = fst s, bs_failure = snd s,
             bs_total = (case declared of Some n \<Rightarrow> if 0 < n then Some n else None | None \<Rightarrow> None)\<rparr>)"

definition response_headers :: "web_headers \<Rightarrow> request_headers" where
  "response_headers hs =
     (let cookies = map snd (filter (\<lambda>h. fst h = ''set-cookie'') hs);
          names = js_sort compare_text (dedup (map fst hs))
      in map (\<lambda>n. (n, if n = ''set-cookie'' then ManyValues cookies else OneValue (nullish (header_get hs n) []))) names)"

section \<open>Requests\<close>

datatype response_type = TextBody | BufferBody | JsonBody

record client_request =
  cq_url :: string
  cq_method :: "string option"
  cq_proxy :: "string option"
  cq_headers :: request_headers
  cq_type :: response_type

record streaming_response =
  st_stream :: bounded_stream
  st_redirects :: "url list"
  st_url :: string
  st_status :: nat
  st_headers :: request_headers

definition boundary_error :: crawler_error where
  "boundary_error = job_error ''source_redirect_not_allowed'' ''Website crawls may not navigate outside the configured source boundary.''"

definition client_accept :: string where
  "client_accept = ''text/html,application/xhtml+xml,application/xml,text/xml,application/json;q=0.9,text/plain;q=0.5''"

definition client_options :: "(url \<Rightarrow> bool) \<Rightarrow> fetch_options \<Rightarrow> client_request \<Rightarrow> fetch_options" where
  "client_options allowed opts request =
     \<lparr>fo_headers = jm_of_list (cq_headers request @ fo_headers opts),
      fo_policy = (\<lambda>from to. if \<not> allowed to then Inl boundary_error else fo_policy opts from to)\<rparr>"

definition upper_char :: "char \<Rightarrow> char" where
  "upper_char c = (if is_lower c then char_of (of_char c - 32 :: nat) else c)"

definition check_request :: "fetch_env \<Rightarrow> (url \<Rightarrow> bool) \<Rightarrow> client_request \<Rightarrow> crawler_error option + url" where
  "check_request env allowed request =
     (if nullish (cq_method request) [] \<noteq> [] \<and> map upper_char (nullish (cq_method request) []) \<noteq> ''GET''
      then Inl (Some (job_error ''source_method_not_allowed'' ''Website crawling permits only GET requests.''))
      else if nullish (cq_proxy request) [] \<noteq> []
      then Inl (Some (job_error ''source_proxy_not_allowed'' ''Documentation crawling cannot use an outbound proxy.''))
      else (case fe_parse env None (cq_url request) of
          None \<Rightarrow> Inl None
        | Some u \<Rightarrow> if \<not> allowed u then Inl (Some boundary_error) else Inr u))"

text \<open>The stream and the destinations requests were sent to.\<close>

definition client_stream ::
    "fetch_env \<Rightarrow> crawler_settings \<Rightarrow> (url \<Rightarrow> bool) \<Rightarrow> fetch_options \<Rightarrow> client_request
      \<Rightarrow> (crawler_error option + streaming_response) \<times> safe_resolution list" where
  "client_stream env settings allowed opts request =
     (case check_request env allowed request of
        Inl e \<Rightarrow> (Inl e, [])
      | Inr u \<Rightarrow>
          (case secure_fetch env settings client_accept (client_options allowed opts request) 0 (href u) [] of
             (Inl e, log) \<Rightarrow> (Inl (Some e), log)
           | (Inr (response, final, redirects), log) \<Rightarrow>
               (case bounded_stream_of response (cs_max_bytes settings) of
                  Inl e \<Rightarrow> (Inl (Some e), log)
                | Inr s \<Rightarrow> (Inr \<lparr>st_stream = s, st_redirects = redirects, st_url = href final,
                    st_status = rs_status response, st_headers = response_headers (rs_headers response)\<rparr>, log))))"

datatype client_body = BodyText string | BodyBytes string | BodyJson json

text \<open>\<^verbatim>\<open>sendRequest\<close>: the text decoder replaces malformed bytes, \<^verbatim>\<open>JSON.parse\<close> may throw.\<close>

definition send_request ::
    "(string \<Rightarrow> string) \<Rightarrow> (string \<Rightarrow> json option) \<Rightarrow> fetch_env \<Rightarrow> crawler_settings \<Rightarrow> (url \<Rightarrow> bool) \<Rightarrow> fetch_options
      \<Rightarrow> client_request \<Rightarrow> crawler_error option + streaming_response \<times> client_body" where
  "send_request to_text decode_json env settings allowed opts request =
     bind_result (fst (client_stream env settings allowed opts request)) (\<lambda>r.
       case bs_failure (st_stream r) of
         Some e \<Rightarrow> Inl (Some e)
       | None \<Rightarrow>
           let buffer = concat (bs_chunks (st_stream r)) in
           (case cq_type request of
              BufferBody \<Rightarrow> Inr (r, BodyBytes buffer)
            | TextBody \<Rightarrow> Inr (r, BodyText (to_text buffer))
            | JsonBody \<Rightarrow> (case decode_json (to_text buffer) of None \<Rightarrow> Inl None | Some j \<Rightarrow> Inr (r, BodyJson j))))"

section \<open>The boundary of a crawl\<close>

text \<open>A URL read back from its own text is the same URL.\<close>

definition stable_parser :: "url_parser \<Rightarrow> bool" where
  "stable_parser parse \<longleftrightarrow> (\<forall>base s u. parse base s = Some u \<longrightarrow> parse None (href u) = Some u)"

lemma limited_bytes:
  "t \<le> m \<Longrightarrow> t + int (length (concat (fst (limited m t vs)))) \<le> m"
  by (induction m t vs rule: limited.induct) (auto simp: Let_def)

lemma limited_complete: "snd (limited m t vs) = None \<Longrightarrow> fst (limited m t vs) = vs"
  by (induction m t vs rule: limited.induct) (auto simp: Let_def split: if_splits)

lemma secure_fetch_targets:
  assumes "secure_fetch env settings accept opts n value urls = (res, log)" "r \<in> set (tl log)"
  shows "\<exists>u t l. fo_policy opts u t = Inr () \<and> fe_parse env (Some u) l = Some t \<and> fe_parse env None (href t) = Some (sr_url r)"
  using assms
proof (induction env settings accept opts n "value" urls arbitrary: res log rule: secure_fetch.induct)
  case (1 env settings accept opts n location urls)
  then obtain q response target where hop:
      "resolve_safe_url (fe_parse env) (fe_resolve env n) settings location = Inr q"
      "fetch_response env n accept opts q = Inr response" "redirect_status (rs_status response)"
      "redirect_target env opts n (sr_url q) response = Inr target"
    by (auto simp: secure_fetch.simps [of env _ _ _ n location] split: sum.splits if_splits)
  obtain res' log' where rec: "secure_fetch env settings accept opts (Suc n) (href target) (urls @ [target]) = (res', log')"
    by fastforce
  have log: "log = q # log'"
    using "1.prems" hop rec by (auto simp: secure_fetch.simps [of env _ _ _ n location])
  have here: "log' \<noteq> [] \<Longrightarrow> fe_parse env None (href target) = Some (sr_url (hd log'))"
    using secure_fetch_log [OF rec] redirect_target_Inr [OF hop(4)] by simp
  show ?case
  proof (cases "r \<in> set (tl log')")
    case True
    then show ?thesis using "1.IH" [OF hop(1,2) _ hop(4) rec] hop(3) by simp
  next
    case False
    then have "log' \<noteq> []" "r = hd log'"
      using "1.prems" log by (cases log'; auto)+
    then show ?thesis using here redirect_target_Inr [OF hop(4)] by metis
  qed
qed

lemma secure_fetch_confined:
  assumes fetch: "secure_fetch env settings accept opts 0 (href u) [] = (res, log)"
    and stable: "stable_parser (fe_parse env)" and start: "fe_parse env base v = Some u" "allowed u"
    and policy: "\<And>from to. fo_policy opts from to = Inr () \<Longrightarrow> allowed to"
  shows "list_all (\<lambda>r. allowed (sr_url r) \<and> safe_destination settings r) log"
proof -
  have "allowed (sr_url r)" if "r \<in> set log" for r
  proof (cases "r \<in> set (tl log)")
    case True
    obtain v t l where t: "fo_policy opts v t = Inr ()"
        "fe_parse env (Some v) l = Some t" "fe_parse env None (href t) = Some (sr_url r)"
      using secure_fetch_targets [OF fetch True] by blast
    then have "sr_url r = t" using stable by (auto simp: stable_parser_def)
    then show ?thesis using t(1) policy by auto
  next
    case False
    then have "log \<noteq> []" "r = hd log" using that by (cases log; auto)+
    then have "fe_parse env None (href u) = Some (sr_url r)"
      using secure_fetch_log [OF fetch] by simp
    then show ?thesis using start stable by (auto simp: stable_parser_def)
  qed
  then show ?thesis
    using secure_fetch_log [OF fetch] by (simp add: list_all_iff)
qed

lemma bounded_stream_chunks:
  "bounded_stream_of r m = Inr s \<Longrightarrow> bs_chunks s = fst (limited m 0 (nullish (rs_body r) []))"
  by (cases s) (auto simp: bounded_stream_of_def Let_def split: if_splits)

lemma check_request_Inr:
  "check_request env allowed request = Inr u \<Longrightarrow> fe_parse env None (cq_url request) = Some u \<and> allowed u"
  by (auto simp: check_request_def split: if_splits option.splits)

text \<open>
  With a parser that reads its own texts back, the client sends every request of a
  crawl, redirects included, to a checked destination inside the boundary, and no stream that it
  returns yields more bytes than the limit.
\<close>

theorem client_boundary:
  assumes "client_stream env settings allowed opts request = (res, log)"
    and "stable_parser (fe_parse env)" and "0 \<le> cs_max_bytes settings"
  shows "list_all (\<lambda>r. allowed (sr_url r) \<and> safe_destination settings r) log
    \<and> (\<forall>s. res = Inr s \<longrightarrow> int (length (concat (bs_chunks (st_stream s)))) \<le> cs_max_bytes settings)"
proof (cases "check_request env allowed request")
  case (Inl e)
  then show ?thesis using assms(1) by (auto simp: client_stream_def)
next
  case (Inr u)
  note u = check_request_Inr [OF Inr]
  obtain out log' where fetch: "secure_fetch env settings client_accept (client_options allowed opts request) 0 (href u) [] = (out, log')"
    by fastforce
  have log: "log' = log"
    using assms(1) Inr fetch by (auto simp: client_stream_def split: sum.splits prod.splits)
  have "fo_policy (client_options allowed opts request) from to = Inr () \<Longrightarrow> allowed to" for "from" to
    by (auto simp: client_options_def split: if_splits)
  then have "list_all (\<lambda>r. allowed (sr_url r) \<and> safe_destination settings r) log"
    using secure_fetch_confined [OF fetch assms(2)] u log by blast
  moreover have "int (length (concat (bs_chunks (st_stream s)))) \<le> cs_max_bytes settings" if s: "res = Inr s" for s
  proof -
    obtain response where "bounded_stream_of response (cs_max_bytes settings) = Inr (st_stream s)"
      using assms(1) Inr fetch s by (auto simp: client_stream_def split: sum.splits prod.splits)
    then have "bs_chunks (st_stream s) = fst (limited (cs_max_bytes settings) 0 (nullish (rs_body response) []))"
      by (rule bounded_stream_chunks)
    then show ?thesis
      using limited_bytes [of 0 "cs_max_bytes settings"] assms(3) by simp
  qed
  ultimately show ?thesis by blast
qed

definition sample_request :: client_request where
  "sample_request = \<lparr>cq_url = href sample_url, cq_method = Some ''get'', cq_proxy = None,
     cq_headers = [(''Host'', OneValue ''other'')], cq_type = TextBody\<rparr>"

lemma sample_parser_stable: "stable_parser sample_parse"
  by (auto simp: stable_parser_def sample_parse_def)

theorem client_boundary_witness:
  "\<exists>s. client_stream sample_fetch sample_settings (\<lambda>u. u_hostname u = ''docs.example'') default_options sample_request
       = (Inr s, [sample_resolution, sample_resolution])
     \<and> bs_chunks (st_stream s) = [''ok''] \<and> int (length (concat (bs_chunks (st_stream s)))) \<le> cs_max_bytes sample_settings"
proof -
  let ?allowed = "\<lambda>u :: url. u_hostname u = ''docs.example''"
  have "map upper_char (nullish (cq_method sample_request) []) = ''GET''"
    by code_simp
  then have "check_request sample_fetch ?allowed sample_request = Inr sample_url"
    by (simp add: check_request_def sample_request_def sample_fetch_def sample_parse_def sample_url_def)
  moreover have "fo_policy (client_options ?allowed default_options sample_request) sample_url sample_url = Inr ()"
    by (simp add: client_options_def default_options_def sample_url_def)
  moreover have "bounded_stream_of \<lparr>rs_status = 200, rs_headers = [], rs_body = Some [''ok'']\<rparr> (cs_max_bytes sample_settings)
      = Inr \<lparr>bs_chunks = [''ok''], bs_failure = None, bs_total = None\<rparr>"
    by code_simp
  ultimately obtain s where s: "client_stream sample_fetch sample_settings ?allowed default_options sample_request
      = (Inr s, [sample_resolution, sample_resolution])" "bs_chunks (st_stream s) = [''ok'']"
    by (simp add: client_stream_def sample_fetches)
  moreover have "stable_parser (fe_parse sample_fetch)" "0 \<le> cs_max_bytes sample_settings"
    by (simp_all add: sample_fetch_def sample_parser_stable sample_settings_def)
  ultimately show ?thesis
    using client_boundary [OF s(1)] by blast
qed

end
