(* ===== verification/JsRegex.thy ===== *)
theory JsRegex
  imports JsText
begin

text \<open>
  The regular expressions the program uses, as a small backtracking matcher in the priority order of
  JavaScript: every run gives the list of its results, the first one being the match. A state is the
  text before the position (reversed), the text after it and the captured groups. A repetition whose
  round consumes nothing stops, as in JavaScript, so the length of the text is enough fuel for it.
  \<open>Look\<close> is a condition on the text before the position (reversed) and after it: a lookbehind or lookahead.
\<close>

section \<open>Expressions\<close>

datatype rx =
    Cls "char \<Rightarrow> bool"
  | Empty
  | Seq rx rx
  | Alt rx rx
  | Star bool rx
  | Cap nat rx
  | LineStart
  | LineEnd
  | TextStart
  | TextEnd
  | WordEdge
  | Look "string \<Rightarrow> string \<Rightarrow> bool"

type_synonym rx_state = "string \<times> string \<times> (nat \<times> string) list"

abbreviation rest :: "rx_state \<Rightarrow> string" where
  "rest st \<equiv> fst (snd st)"

definition rx_word :: "char \<Rightarrow> bool" where
  "rx_word c \<longleftrightarrow> is_digit c \<or> is_lower c \<or> is_upper c \<or> c = CHR ''_''"

definition line_break :: "char \<Rightarrow> bool" where
  "line_break c \<longleftrightarrow> c = newline \<or> c = CHR 0x0D"

definition head_is :: "(char \<Rightarrow> bool) \<Rightarrow> string \<Rightarrow> bool" where
  "head_is p s \<longleftrightarrow> (case s of [] \<Rightarrow> False | c # _ \<Rightarrow> p c)"

fun star_run :: "(rx_state \<Rightarrow> rx_state list) \<Rightarrow> bool \<Rightarrow> nat \<Rightarrow> rx_state \<Rightarrow> rx_state list" where
  "star_run f greedy 0 st = [st]"
| "star_run f greedy (Suc n) st =
     (let more = concat (map (star_run f greedy n) (filter (\<lambda>t. length (rest t) < length (rest st)) (f st)))
      in if greedy then more @ [st] else st # more)"

primrec rx_run :: "rx \<Rightarrow> rx_state \<Rightarrow> rx_state list" where
  "rx_run (Cls p) st = (case st of (b, s, g) \<Rightarrow>
     (case s of [] \<Rightarrow> [] | c # cs \<Rightarrow> if p c then [(c # b, cs, g)] else []))"
| "rx_run Empty st = [st]"
| "rx_run (Seq r q) st = concat (map (rx_run q) (rx_run r st))"
| "rx_run (Alt r q) st = rx_run r st @ rx_run q st"
| "rx_run (Star greedy r) st = star_run (rx_run r) greedy (length (rest st)) st"
| "rx_run (Cap k r) st = map (\<lambda>t. (fst t, rest t, (k, take (length (rest st) - length (rest t)) (rest st)) # snd (snd t)))
     (rx_run r st)"
| "rx_run LineStart st = (if fst st = [] \<or> head_is line_break (fst st) then [st] else [])"
| "rx_run LineEnd st = (if rest st = [] \<or> head_is line_break (rest st) then [st] else [])"
| "rx_run TextStart st = (if fst st = [] then [st] else [])"
| "rx_run TextEnd st = (if rest st = [] then [st] else [])"
| "rx_run WordEdge st = (if head_is rx_word (fst st) \<noteq> head_is rx_word (rest st) then [st] else [])"
| "rx_run (Look p) st = (if p (fst st) (rest st) then [st] else [])"

section \<open>Building blocks\<close>

text \<open>\<open>lit_i\<close> is a literal under the flag \<^verbatim>\<open>i\<close>; \<open>upto n r\<close> is \<^verbatim>\<open>r{0,n}\<close>, \<open>maybe r\<close> is \<^verbatim>\<open>r?\<close>.\<close>

fun seqs :: "rx list \<Rightarrow> rx" where
  "seqs [] = Empty"
| "seqs [r] = r"
| "seqs (r # rs) = Seq r (seqs rs)"

fun alts :: "rx list \<Rightarrow> rx" where
  "alts [] = Cls (\<lambda>_. False)"
| "alts [r] = r"
| "alts (r # rs) = Alt r (alts rs)"

definition lit :: "string \<Rightarrow> rx" where
  "lit s = seqs (map (\<lambda>c. Cls (\<lambda>d. d = c)) s)"

definition lit_i :: "string \<Rightarrow> rx" where
  "lit_i s = seqs (map (\<lambda>c. Cls (\<lambda>d. lower_char d = lower_char c)) s)"

abbreviation words :: "string list \<Rightarrow> rx" where
  "words ws \<equiv> alts (map lit ws)"

abbreviation words_i :: "string list \<Rightarrow> rx" where
  "words_i ws \<equiv> alts (map lit_i ws)"

definition maybe :: "rx \<Rightarrow> rx" where
  "maybe r = Alt r Empty"

fun upto_rx :: "nat \<Rightarrow> rx \<Rightarrow> rx" where
  "upto_rx 0 r = Empty"
| "upto_rx (Suc n) r = maybe (Seq r (upto_rx n r))"

definition many :: "rx \<Rightarrow> rx" where
  "many r = Star True r"

definition some_rx :: "rx \<Rightarrow> rx" where
  "some_rx r = Seq r (Star True r)"

abbreviation space :: rx where
  "space \<equiv> Cls is_ws"

abbreviation spaces :: rx where
  "spaces \<equiv> many space"

abbreviation any_char :: rx where
  "any_char \<equiv> Cls (\<lambda>c. \<not> line_break c)"

section \<open>Searching\<close>

record rx_match =
  rm_before :: string
  rm_text :: string
  rm_groups :: "(nat \<times> string) list"
  rm_after :: string

fun rx_search :: "rx \<Rightarrow> string \<Rightarrow> string \<Rightarrow> rx_match option" where
  "rx_search r before s =
     (case rx_run r (before, s, []) of
        (b, t, g) # _ \<Rightarrow> Some \<lparr>rm_before = before, rm_text = take (length s - length t) s, rm_groups = g, rm_after = t\<rparr>
      | [] \<Rightarrow> (case s of [] \<Rightarrow> None | c # cs \<Rightarrow> rx_search r (c # before) cs))"

definition rx_exec :: "rx \<Rightarrow> string \<Rightarrow> rx_match option" where
  "rx_exec r s = rx_search r [] s"

definition rx_test :: "rx \<Rightarrow> string \<Rightarrow> bool" where
  "rx_test r s \<longleftrightarrow> rx_exec r s \<noteq> None"

definition rx_group :: "nat \<Rightarrow> rx_match \<Rightarrow> string option" where
  "rx_group k m = map_of (rm_groups m) k"

text \<open>All matches from left to right (flag \<^verbatim>\<open>g\<close>); after an empty match the next search starts one further.\<close>

function rx_all :: "rx \<Rightarrow> string \<Rightarrow> string \<Rightarrow> rx_match list" where
  "rx_all r before s =
     (case rx_search r before s of
        None \<Rightarrow> []
      | Some m \<Rightarrow> m # (if length (rm_after m) < length s
            then rx_all r (rev (rm_text m) @ rm_before m) (rm_after m)
            else (case s of [] \<Rightarrow> [] | c # cs \<Rightarrow> rx_all r (c # before) cs)))"
  by pat_completeness auto
termination
  by (relation "measure (\<lambda>(r, before, s). length s)") auto

function rx_replace :: "rx \<Rightarrow> (rx_match \<Rightarrow> string) \<Rightarrow> string \<Rightarrow> string \<Rightarrow> string" where
  "rx_replace r f before s =
     (case rx_search r before s of
        None \<Rightarrow> s
      | Some m \<Rightarrow> take (length s - length (rm_text m @ rm_after m)) s @ f m
          @ (if length (rm_after m) < length s
             then rx_replace r f (rev (rm_text m) @ rm_before m) (rm_after m)
             else (case s of [] \<Rightarrow> [] | c # cs \<Rightarrow> c # rx_replace r f (c # before) cs)))"
  by pat_completeness auto
termination
  by (relation "measure (\<lambda>(r, f, before, s). length s)") auto

declare rx_search.simps [simp del] rx_all.simps [simp del] rx_replace.simps [simp del]

section \<open>What a run means\<close>

text \<open>
  The relation between the state before and after a match, without priorities: a run computes
  exactly it, and only moves forward in the text.
\<close>

inductive rx_rel :: "rx \<Rightarrow> rx_state \<Rightarrow> rx_state \<Rightarrow> bool" where
  Cls: "p c \<Longrightarrow> rx_rel (Cls p) (b, c # s, g) (c # b, s, g)"
| Empty: "rx_rel Empty st st"
| Seq: "rx_rel r st st' \<Longrightarrow> rx_rel q st' st'' \<Longrightarrow> rx_rel (Seq r q) st st''"
| AltL: "rx_rel r st st' \<Longrightarrow> rx_rel (Alt r q) st st'"
| AltR: "rx_rel q st st' \<Longrightarrow> rx_rel (Alt r q) st st'"
| Stop: "rx_rel (Star greedy r) st st"
| Round: "rx_rel r st st' \<Longrightarrow> length (rest st') < length (rest st) \<Longrightarrow> rx_rel (Star greedy r) st' st''
    \<Longrightarrow> rx_rel (Star greedy r) st st''"
| Cap: "rx_rel r st t \<Longrightarrow> rx_rel (Cap k r) st
    (fst t, rest t, (k, take (length (rest st) - length (rest t)) (rest st)) # snd (snd t))"
| LineStart: "fst st = [] \<or> head_is line_break (fst st) \<Longrightarrow> rx_rel LineStart st st"
| LineEnd: "rest st = [] \<or> head_is line_break (rest st) \<Longrightarrow> rx_rel LineEnd st st"
| TextStart: "fst st = [] \<Longrightarrow> rx_rel TextStart st st"
| TextEnd: "rest st = [] \<Longrightarrow> rx_rel TextEnd st st"
| WordEdge: "head_is rx_word (fst st) \<noteq> head_is rx_word (rest st) \<Longrightarrow> rx_rel WordEdge st st"
| Look: "p (fst st) (rest st) \<Longrightarrow> rx_rel (Look p) st st"

inductive_cases rx_rel_cases:
  "rx_rel (Cls p) st st'" "rx_rel Empty st st'" "rx_rel (Seq r q) st st'" "rx_rel (Alt r q) st st'"
  "rx_rel (Cap k r) st st'"

inductive_simps rx_rel_simps [simp]:
  "rx_rel (Cls p) (b, s, g) st'" "rx_rel Empty st st'" "rx_rel (Seq r q) st st'" "rx_rel (Alt r q) st st'"
  "rx_rel (Cap k r) st st'" "rx_rel LineStart st st'" "rx_rel LineEnd st st'" "rx_rel TextStart st st'"
  "rx_rel TextEnd st st'" "rx_rel WordEdge st st'" "rx_rel (Look p) st st'"

lemma star_run_rel:
  assumes "\<And>s t. t \<in> set (f s) \<longleftrightarrow> rx_rel r s t"
  shows "length (rest st) \<le> n \<Longrightarrow> t \<in> set (star_run f greedy n st) \<longleftrightarrow> rx_rel (Star greedy r) st t"
proof (induction n arbitrary: st)
  case 0
  have "rx_rel (Star greedy r) st t \<longleftrightarrow> t = st"
    using 0 by (subst rx_rel.simps) auto
  then show ?case by simp
next
  case (Suc n)
  have "t \<in> set (star_run f greedy (Suc n) st) \<longleftrightarrow>
      t = st \<or> (\<exists>u. rx_rel r st u \<and> length (rest u) < length (rest st) \<and> t \<in> set (star_run f greedy n u))"
    using assms by (auto simp: Let_def)
  also have "\<dots> \<longleftrightarrow> t = st \<or> (\<exists>u. rx_rel r st u \<and> length (rest u) < length (rest st) \<and> rx_rel (Star greedy r) u t)"
    using Suc by (metis (no_types, lifting) less_Suc_eq_le less_le_trans)
  also have "\<dots> \<longleftrightarrow> rx_rel (Star greedy r) st t"
    by (subst (2) rx_rel.simps) auto
  finally show ?case .
qed

lemma rx_run_rel: "t \<in> set (rx_run r st) \<longleftrightarrow> rx_rel r st t"
proof (induction r arbitrary: st t)
  case (Cls p)
  show ?case by (cases st) (auto split: list.splits)
next
  case (Star greedy r)
  then show ?case using star_run_rel [of "rx_run r" r st "length (rest st)"] by simp
next
  case (Seq r q)
  then show ?case by (simp add: Bex_def)
next
  case (Cap k r)
  then show ?case by (auto simp: image_iff Bex_def)
qed auto

lemma rx_rel_forward: "rx_rel r st t \<Longrightarrow> \<exists>u. rest st = u @ rest t \<and> fst t = rev u @ fst st"
  by (induction rule: rx_rel.induct) (force)+

lemma rx_search_None: "rx_search r before s = None \<longleftrightarrow>
    (\<forall>p q. s = p @ q \<longrightarrow> (\<nexists>t. rx_rel r (rev p @ before, q, []) t))"
proof (induction r before s rule: rx_search.induct)
  case (1 r before s)
  have now: "rx_run r (before, s, []) = [] \<longleftrightarrow> (\<nexists>t. rx_rel r (before, s, []) t)"
    using rx_run_rel [of _ r "(before, s, [])"] by (metis last_in_set list.set_cases list.distinct(1) empty_iff empty_set)
  show ?case
  proof (cases "rx_run r (before, s, [])")
    case Nil
    note head = this
    show ?thesis
    proof (cases s)
      case Nil
      then show ?thesis using head now by (subst rx_search.simps) auto
    next
      case (Cons c cs)
      have "rx_search r before s = rx_search r (c # before) cs"
        using head Cons by (subst rx_search.simps) simp
      moreover have "(\<forall>p q. s = p @ q \<longrightarrow> (\<nexists>t. rx_rel r (rev p @ before, q, []) t)) \<longleftrightarrow>
          (\<nexists>t. rx_rel r (before, s, []) t) \<and>
          (\<forall>p q. cs = p @ q \<longrightarrow> (\<nexists>t. rx_rel r (rev p @ c # before, q, []) t))"
        (is "?all \<longleftrightarrow> ?now \<and> ?later")
      proof
        show "?all \<Longrightarrow> ?now \<and> ?later"
          using Cons by (metis append_Cons append_Nil append.assoc rev.simps)
        show "?now \<and> ?later \<Longrightarrow> ?all"
          using Cons by (auto simp: Cons_eq_append_conv)
      qed
      ultimately show ?thesis
        using 1 [OF head Cons] head now by simp
    qed
  next
    case (Cons t ts)
    then have "rx_search r before s \<noteq> None"
      by (subst rx_search.simps) (auto split: prod.splits)
    moreover have "\<exists>t. rx_rel r (before, s, []) t"
      using Cons rx_run_rel [of t r "(before, s, [])"] by (intro exI [of _ t]) simp
    ultimately show ?thesis by (metis append_Nil rev.simps(1))
  qed
qed

text \<open>An expression is found in a text exactly when it matches somewhere.\<close>

lemma rx_test_iff: "rx_test r s \<longleftrightarrow> (\<exists>p q t. s = p @ q \<and> rx_rel r (rev p, q, []) t)"
  using rx_search_None [of r "[]" s] by (auto simp: rx_test_def rx_exec_def)

lemma rx_rel_lit:
  "rx_rel (seqs (map (\<lambda>c. Cls (P c)) w)) (b, s, g) t \<longleftrightarrow>
     (\<exists>u v. s = u @ v \<and> length u = length w \<and> list_all2 P w u \<and> t = (rev u @ b, v, g))"
proof (induction w arbitrary: b s)
  case Nil
  then show ?case by simp
next
  case (Cons c w)
  show ?case
  proof (cases w)
    case Nil
    then show ?thesis by (auto simp: list_all2_Cons1)
  next
    case (Cons d ds)
    then have "rx_rel (seqs (map (\<lambda>c. Cls (P c)) (c # w))) (b, s, g) t \<longleftrightarrow>
        (\<exists>e s'. s = e # s' \<and> P c e \<and> rx_rel (seqs (map (\<lambda>c. Cls (P c)) w)) (e # b, s', g) t)"
      by auto
    then show ?thesis
      by (auto simp: Cons.IH list_all2_Cons1)
  qed
qed

lemma rx_rel_lit_eq: "rx_rel (lit w) (b, s, g) t \<longleftrightarrow> (\<exists>v. s = w @ v \<and> t = (rev w @ b, v, g))"
proof -
  have "list_all2 (\<lambda>c d. d = c) w u \<longleftrightarrow> u = w" for u
    by (induction w arbitrary: u) (auto simp: list_all2_Cons1)
  then show ?thesis by (auto simp: lit_def rx_rel_lit)
qed

lemma rx_rel_alts: "rx_rel (alts rs) st t \<longleftrightarrow> (\<exists>r\<in>set rs. rx_rel r st t)"
  by (induction rs rule: alts.induct) (auto elim: rx_rel_cases)

text \<open>A match found is a match, and the leftmost one.\<close>

lemma rx_search_Some:
  "rx_search r before s = Some m \<Longrightarrow>
     (\<exists>p. s = p @ rm_text m @ rm_after m \<and> rm_before m = rev p @ before
       \<and> rx_rel r (rm_before m, rm_text m @ rm_after m, []) (rev (rm_text m) @ rm_before m, rm_after m, rm_groups m)
       \<and> (\<forall>q c u. s = q @ c # u \<longrightarrow> length q < length p \<longrightarrow> (\<nexists>t. rx_rel r (rev q @ before, c # u, []) t)))"
proof (induction r before s rule: rx_search.induct)
  case (1 r before s)
  show ?case
  proof (cases "rx_run r (before, s, [])")
    case (Cons t ts)
    obtain b v g where t: "t = (b, v, g)" by (cases t)
    have rel: "rx_rel r (before, s, []) (b, v, g)"
      using Cons t rx_run_rel [of "(b, v, g)" r "(before, s, [])"] by simp
    then obtain u where u: "s = u @ v" "b = rev u @ before"
      using rx_rel_forward [OF rel] by auto
    have "m = \<lparr>rm_before = before, rm_text = u, rm_groups = g, rm_after = v\<rparr>"
      using "1.prems" Cons t u by (subst (asm) rx_search.simps) simp
    then show ?thesis using rel u by (intro exI [of _ "[]"]) simp
  next
    case Nil
    have none: "\<nexists>t. rx_rel r (before, s, []) t"
      using Nil rx_run_rel [of _ r "(before, s, [])"] by (metis empty_iff empty_set)
    obtain c cs where s: "s = c # cs" "rx_search r (c # before) cs = Some m"
      using "1.prems" Nil by (subst (asm) rx_search.simps) (auto split: list.splits)
    obtain p where p: "cs = p @ rm_text m @ rm_after m" "rm_before m = rev p @ c # before"
        "rx_rel r (rm_before m, rm_text m @ rm_after m, []) (rev (rm_text m) @ rm_before m, rm_after m, rm_groups m)"
        "\<And>q d u. cs = q @ d # u \<Longrightarrow> length q < length p \<Longrightarrow> \<nexists>t. rx_rel r (rev q @ c # before, d # u, []) t"
      using "1.IH" [OF Nil s] by auto
    have "\<nexists>t. rx_rel r (rev q @ before, d # u, []) t" if "s = q @ d # u" "length q < length (c # p)" for q d u
    proof (cases q)
      case Nil
      then show ?thesis using none that by simp
    next
      case (Cons e q')
      then show ?thesis using p(4) [of q' d u] that s by simp
    qed
    then show ?thesis
      using p(1-3) s by (intro exI [of _ "c # p"]) auto
  qed
qed

lemma rx_replace_step:
  "rx_replace r f before s =
     (case rx_search r before s of
        None \<Rightarrow> s
      | Some m \<Rightarrow> take (length s - length (rm_text m @ rm_after m)) s @ f m
          @ (if length (rm_after m) < length s
             then rx_replace r f (rev (rm_text m) @ rm_before m) (rm_after m)
             else (case s of [] \<Rightarrow> [] | c # cs \<Rightarrow> c # rx_replace r f (c # before) cs)))"
  by (rule rx_replace.simps)

lemma rx_rel_star_cls:
  "rx_rel (Star greedy (Cls P)) (b, s, g) t \<longleftrightarrow> (\<exists>u v. s = u @ v \<and> list_all P u \<and> t = (rev u @ b, v, g))"
proof
  have "rx_rel r st t \<Longrightarrow> r = Star greedy (Cls P) \<Longrightarrow>
      \<exists>u v. rest st = u @ v \<and> list_all P u \<and> t = (rev u @ fst st, v, snd (snd st))" for r st
  proof (induction rule: rx_rel.induct)
    case (Round r st st' greedy' st'')
    then obtain u v where u: "rest st' = u @ v" "list_all P u" "st'' = (rev u @ fst st', v, snd (snd st'))"
      by auto
    obtain b s g where st: "st = (b, s, g)" by (cases st)
    then obtain c where "s = c # rest st'" "P c" "fst st' = c # b" "snd (snd st') = g"
      using Round by (auto elim: rx_rel.cases)
    then have "rest st = (c # u) @ v \<and> list_all P (c # u) \<and> st'' = (rev (c # u) @ fst st, v, snd (snd st))"
      using u st by simp
    then show ?case by blast
  qed auto
  then show "rx_rel (Star greedy (Cls P)) (b, s, g) t \<Longrightarrow> \<exists>u v. s = u @ v \<and> list_all P u \<and> t = (rev u @ b, v, g)"
    by fastforce
next
  have "list_all P u \<Longrightarrow> rx_rel (Star greedy (Cls P)) (b, u @ v, g) (rev u @ b, v, g)" for u v b
  proof (induction u arbitrary: b)
    case (Cons c u)
    then show ?case
      using rx_rel.Round [of "Cls P" "(b, (c # u) @ v, g)" "(c # b, u @ v, g)"] by simp
  qed (simp add: rx_rel.Stop)
  then show "\<exists>u v. s = u @ v \<and> list_all P u \<and> t = (rev u @ b, v, g) \<Longrightarrow> rx_rel (Star greedy (Cls P)) (b, s, g) t"
    by auto
qed

section \<open>Expressions without context\<close>

text \<open>An expression without assertions and groups consumes a word of a set, wherever it stands.\<close>

definition accepts :: "rx \<Rightarrow> string set \<Rightarrow> bool" where
  "accepts r L \<longleftrightarrow> (\<forall>b s g t. rx_rel r (b, s, g) t \<longleftrightarrow> (\<exists>u v. s = u @ v \<and> u \<in> L \<and> t = (rev u @ b, v, g)))"

lemma accepts_run: "accepts r L \<Longrightarrow> u \<in> L \<Longrightarrow> rx_rel r (b, u @ v, g) (rev u @ b, v, g)"
  by (auto simp: accepts_def)

definition then_words :: "string set \<Rightarrow> string set \<Rightarrow> string set" where
  "then_words L M = {u @ v | u v. u \<in> L \<and> v \<in> M}"

named_theorems rx_language \<open>the words an expression consumes\<close>

lemma accepts_lit [rx_language]: "accepts (lit w) {w}"
  by (auto simp: accepts_def rx_rel_lit_eq)

lemma accepts_cls [rx_language]: "accepts (Cls P) {[c] | c. P c}"
  by (auto simp: accepts_def)

lemma accepts_star [rx_language]: "accepts (Star greedy (Cls P)) {u. list_all P u}"
  by (auto simp: accepts_def rx_rel_star_cls)

lemma accepts_empty [rx_language]: "accepts Empty {[]}"
  by (auto simp: accepts_def)

lemma accepts_alt [rx_language]: "accepts r L \<Longrightarrow> accepts q M \<Longrightarrow> accepts (Alt r q) (L \<union> M)"
  by (auto simp: accepts_def) 

lemma accepts_Seq [rx_language]:
  assumes "accepts r L" "accepts q M"
  shows "accepts (Seq r q) (then_words L M)"
proof -
  have "rx_rel (Seq r q) (b, s, g) t \<longleftrightarrow> (\<exists>u v. s = u @ v \<and> u \<in> then_words L M \<and> t = (rev u @ b, v, g))" for b s g t
  proof
    assume "rx_rel (Seq r q) (b, s, g) t"
    then obtain st where st: "rx_rel r (b, s, g) st" "rx_rel q st t" by (rule rx_rel_cases(3))
    then obtain u v where u: "s = u @ v" "u \<in> L" "st = (rev u @ b, v, g)"
      using assms(1) unfolding accepts_def by blast
    then obtain u' v' where "v = u' @ v'" "u' \<in> M" "t = (rev u' @ rev u @ b, v', g)"
      using assms(2) st unfolding accepts_def by blast
    then have "s = (u @ u') @ v' \<and> u @ u' \<in> then_words L M \<and> t = (rev (u @ u') @ b, v', g)"
      using u by (auto simp: then_words_def)
    then show "\<exists>u v. s = u @ v \<and> u \<in> then_words L M \<and> t = (rev u @ b, v, g)" by blast
  next
    assume "\<exists>u v. s = u @ v \<and> u \<in> then_words L M \<and> t = (rev u @ b, v, g)"
    then obtain u u' v where u: "s = u @ u' @ v" "u \<in> L" "u' \<in> M" "t = (rev u' @ rev u @ b, v, g)"
      by (auto simp: then_words_def)
    then have "rx_rel r (b, s, g) (rev u @ b, u' @ v, g)" "rx_rel q (rev u @ b, u' @ v, g) t"
      using accepts_run [OF assms(1)] accepts_run [OF assms(2)] by simp_all
    then show "rx_rel (Seq r q) (b, s, g) t" by (rule rx_rel.Seq)
  qed
  then show ?thesis by (simp add: accepts_def)
qed

lemma accepts_words [rx_language]: "accepts (words ws) (set ws)"
  by (auto simp: accepts_def rx_rel_alts rx_rel_lit_eq)

lemma accepts_maybe [rx_language]: "accepts r L \<Longrightarrow> accepts (maybe r) (L \<union> {[]})"
  unfolding maybe_def by (intro rx_language)

lemma accepts_test: "accepts r L \<Longrightarrow> rx_test r s \<longleftrightarrow> (\<exists>p u q. s = p @ u @ q \<and> u \<in> L)"
  by (auto simp: rx_test_iff accepts_def)

end
