(* ===== verification/Sources.thy ===== *)
theory Sources
  imports Fetch JsRegex DocTypes
begin

text \<open>
  The rest of \<^verbatim>\<open>crawler/sources.ts\<close>: jobs, pages and ingestion results, the injection indicators,
  OpenAPI sources and uploads. \<^verbatim>\<open>JSON.parse\<close>, the UTF-8 decoder, the URL parser and the file system
  are arguments. The dates of a job are milliseconds.
\<close>

section \<open>Jobs and results\<close>

datatype visibility = Private | Public

record job =
  j_id :: string
  j_organisation :: string
  j_product :: string
  j_source :: string
  j_source_name :: string
  j_source_kind :: string
  j_location :: string
  j_visibility :: visibility
  j_attempt :: int
  j_lease_owner :: string
  j_lease_expires :: int
  j_heartbeat :: int

record page_record =
  pg_url :: string
  pg_title :: string
  pg_text :: string
  pg_html :: string
  pg_content_type :: string
  pg_status :: nat
  pg_indicators :: "string list"
  pg_rendered :: bool

record ingestion_diagnostic =
  dg_code :: string
  dg_severity :: severity
  dg_message :: string
  dg_url :: "string option"
  dg_redirected :: "string option"

record ingestion_result =
  ir_pages :: "page_record list"
  ir_discovered :: int
  ir_failed :: int
  ir_skipped :: int
  ir_redirected :: int
  ir_diagnostics :: "ingestion_diagnostic list"

definition single_page_result :: "page_record \<Rightarrow> ingestion_result" where
  "single_page_result page =
     \<lparr>ir_pages = [page], ir_discovered = 1, ir_failed = 0, ir_skipped = 0, ir_redirected = 0, ir_diagnostics = []\<rparr>"

text \<open>What a step may throw: a \<^verbatim>\<open>CrawlerJobError\<close>, an \<^verbatim>\<open>IngestionRunError\<close> or another error.\<close>

datatype fault = JobFault crawler_error | RunFault crawler_error ingestion_result | OtherFault

fun lift_error :: "crawler_error + 'a \<Rightarrow> fault + 'a" where
  "lift_error (Inl e) = Inl (JobFault e)"
| "lift_error (Inr a) = Inr a"

definition throw :: "string \<Rightarrow> string \<Rightarrow> fault + 'a" where
  "throw code message = Inl (JobFault (job_error code message))"

lemma lift_error_Inr [simp]: "lift_error r = Inr a \<longleftrightarrow> r = Inr a"
  by (cases r) simp_all

section \<open>Injection indicators\<close>

definition word_list :: "string \<Rightarrow> rx" where
  "word_list ws = words (split_on (CHR ''|'') ws)"

definition injection_patterns :: "(string \<times> rx) list" where
  "injection_patterns =
     [(''instruction_override'', seqs [lit ''ignore '', maybe (words [''all '', ''any '']),
        word_list ''previous|prior|system|developer'', lit '' instructions'']),
      (''prompt_exfiltration'', seqs [
        alts [LineStart, Seq (Cls (\<lambda>c. c \<in> set ''.!?'')) (some_rx space),
          seqs [WordEdge, word_list ''please|now|immediately|then|and|keep|start|begin|continue'', some_rx space]],
        word_list ''reveal|print|return|expose|revealing|printing|returning|exposing'', WordEdge,
        upto_rx 40 any_char, WordEdge, word_list ''system prompt|secret|api key|access token'', WordEdge]),
      (''tool_coercion'', seqs [word_list ''call|invoke|execute'', upto_rx 30 any_char,
        word_list ''tool|function|shell|terminal'']),
      (''role_impersonation'', seqs [Alt TextStart (Cls (\<lambda>c. \<not> rx_word c)),
        word_list ''system|assistant|developer'', spaces, lit '':'']),
      (''hidden_content'', alts [seqs [lit ''display'', spaces, lit '':'', spaces, lit ''none''],
        seqs [lit ''visibility'', spaces, lit '':'', spaces, lit ''hidden''],
        seqs [lit ''font-size'', spaces, lit '':'', spaces, lit ''0'']]),
      (''encoded_payload'', seqs [word_list ''base64|decode this|rot13'', upto_rx 30 any_char,
        word_list ''instruction|prompt|secret''])]"

definition injection_indicators :: "string \<Rightarrow> string \<Rightarrow> string list" where
  "injection_indicators t html =
     (let combined = to_lower (t @ [newline] @ html)
      in map fst (filter (\<lambda>(_, pattern). rx_test pattern combined) injection_patterns))"

section \<open>OpenAPI documents\<close>

datatype openapi_format = JsonFormat | YamlFormat

definition scalar :: "json \<Rightarrow> string" where
  "scalar v = (case v of JStr s \<Rightarrow> trim s | _ \<Rightarrow> [])"

fun is_object :: "json \<Rightarrow> bool" where
  "is_object (JObj kvs) = True"
| "is_object _ = False"

definition or_else :: "string \<Rightarrow> string \<Rightarrow> string" where
  "or_else s d = (if s = [] then d else s)"

definition invalid_openapi :: "string \<Rightarrow> crawler_error" where
  "invalid_openapi message = job_error ''openapi_document_invalid'' message"

definition blank_rx :: rx where
  "blank_rx = Cls (\<lambda>c. c = CHR '' '' \<or> c = CHR 0x09)"

definition comment_end :: rx where
  "comment_end = Seq (maybe (Seq (lit ''#'') (many any_char))) LineEnd"

definition yaml_version_rx :: rx where
  "yaml_version_rx = seqs [LineStart, words [''openapi'', ''swagger''], spaces, lit '':'', spaces,
     some_rx (Cls (\<lambda>c. \<not> is_ws c \<and> c \<noteq> CHR ''#'')), spaces, comment_end]"

definition yaml_section_rx :: "string \<Rightarrow> rx" where
  "yaml_section_rx key = seqs [LineStart, lit key, spaces, lit '':'', spaces,
     maybe (seqs [lit ''{'', many any_char, lit ''}'']), spaces, comment_end]"

definition yaml_title_rx :: rx where
  "yaml_title_rx = seqs [LineStart, lit ''info'', spaces, lit '':'', spaces, lit [newline],
     Star False (seqs [LineStart, some_rx blank_rx, many any_char, lit [newline]]),
     LineStart, some_rx blank_rx, lit ''title'', spaces, lit '':'', spaces,
     maybe (Cls (\<lambda>c. c = CHR 0x22 \<or> c = CHR 0x27)),
     Cap 1 (some_rx (Cls (\<lambda>c. c \<noteq> newline \<and> c \<noteq> CHR ''#'' \<and> c \<noteq> CHR 0x22 \<and> c \<noteq> CHR 0x27)))]"

definition validate_openapi_json :: "json \<Rightarrow> string \<Rightarrow> crawler_error + string \<times> openapi_format" where
  "validate_openapi_json parsed fallback =
     (case parsed of
        JObj kvs \<Rightarrow>
          (let version = or_else (scalar (member kvs ''openapi'')) (scalar (member kvs ''swagger''))
           in if version = [] \<or> \<not> is_object (member kvs ''info'') \<or> \<not> is_object (member kvs ''paths'')
              then Inl (invalid_openapi ''The document must contain OpenAPI/Swagger version, info, and paths objects.'')
              else Inr (or_else (case member kvs ''info'' of JObj info \<Rightarrow> scalar (member info ''title'') | _ \<Rightarrow> []) fallback,
                JsonFormat))
      | _ \<Rightarrow> Inl (invalid_openapi ''The OpenAPI document must be a JSON object.''))"

definition validate_openapi_yaml :: "string \<Rightarrow> string \<Rightarrow> crawler_error + string \<times> openapi_format" where
  "validate_openapi_yaml v fallback =
     (if \<not> rx_test yaml_version_rx v \<or> \<not> rx_test (yaml_section_rx ''info'') v \<or> \<not> rx_test (yaml_section_rx ''paths'') v
      then Inl (invalid_openapi ''The YAML document must contain top-level OpenAPI/Swagger version, info, and paths keys.'')
      else Inr (or_else (case rx_exec yaml_title_rx v of
          None \<Rightarrow> [] | Some m \<Rightarrow> trim (nullish (rx_group 1 m) [])) fallback, YamlFormat))"

definition validate_openapi_document ::
    "(string \<Rightarrow> json option) \<Rightarrow> string \<Rightarrow> string \<Rightarrow> crawler_error + string \<times> openapi_format" where
  "validate_openapi_document decode doc fallback =
     (let v = trim doc in
      if v = [] then Inl (invalid_openapi ''The OpenAPI document is empty.'')
      else if starts_with v ''{'' \<or> starts_with v ''['' then
        (case decode v of
           None \<Rightarrow> Inl (invalid_openapi ''The OpenAPI JSON document is malformed.'')
         | Some parsed \<Rightarrow> validate_openapi_json parsed fallback)
      else validate_openapi_yaml v fallback)"

definition media_type :: "string option \<Rightarrow> string" where
  "media_type v = to_lower (trim (hd (split_on (CHR '';'') (nullish v []))))"

definition is_openapi_media_type :: "string \<Rightarrow> url \<Rightarrow> bool" where
  "is_openapi_media_type v u \<longleftrightarrow>
     v \<in> set [''application/json'', ''application/yaml'', ''application/x-yaml'', ''text/yaml'', ''text/x-yaml'',
       ''application/vnd.oai.openapi'', ''application/vnd.oai.openapi+json'', ''application/vnd.oai.openapi+yaml'']
     \<or> v = ''text/plain'' \<and> (let p = to_lower (u_path u)
         in ends_with p ''.json'' \<or> ends_with p ''.yaml'' \<or> ends_with p ''.yml'')"

definition openapi_accept :: string where
  "openapi_accept = ''application/vnd.oai.openapi+json,application/vnd.oai.openapi+yaml,application/json,application/yaml,text/yaml;q=0.9,text/plain;q=0.5''"

definition ingest_openapi ::
    "fetch_env \<Rightarrow> (string \<Rightarrow> string option) \<Rightarrow> (string \<Rightarrow> json option) \<Rightarrow> job \<Rightarrow> crawler_settings \<Rightarrow> fault + ingestion_result" where
  "ingest_openapi env decode_text decode_json job settings =
     bind_result (lift_error (fst (secure_fetch env settings openapi_accept default_options 0 (j_location job) [])))
       (\<lambda>(response, u, _).
        if \<not> response_ok response
        then throw ''source_http_error'' (''The OpenAPI source returned HTTP '' @ nat_str (rs_status response) @ ''.'')
        else
          let content_type = media_type (header_get (rs_headers response) ''content-type'') in
          if \<not> is_openapi_media_type content_type u
          then throw ''source_media_type_unsupported''
            (''The OpenAPI source returned unsupported media type '' @ or_else content_type ''unknown'' @ ''.'')
          else bind_result (lift_error (bounded_response_text decode_text response (cs_max_bytes settings))) (\<lambda>doc.
            bind_result (lift_error (validate_openapi_document decode_json doc (j_source_name job))) (\<lambda>(title, format).
            case canonicalize (fe_parse env) (href u) of
              None \<Rightarrow> Inl OtherFault
            | Some canonical \<Rightarrow> Inr (single_page_result
                \<lparr>pg_url = canonical, pg_title = title, pg_text = doc, pg_html = doc,
                 pg_content_type = or_else content_type (if format = JsonFormat then ''application/json'' else ''application/yaml''),
                 pg_status = rs_status response, pg_indicators = injection_indicators doc [], pg_rendered = False\<rparr>))))"

section \<open>Uploads\<close>

definition upload_types :: "(string \<times> string) list" where
  "upload_types = [(''.md'', ''text/markdown''), (''.mdx'', ''text/markdown''), (''.txt'', ''text/plain''),
     (''.html'', ''text/html''), (''.htm'', ''text/html''), (''.json'', ''application/json''),
     (''.yaml'', ''application/yaml''), (''.yml'', ''application/yaml'')]"

definition element_rx :: "string \<Rightarrow> rx" where
  "element_rx name = seqs [lit_i (''<'' @ name), WordEdge, many (Cls (\<lambda>c. c \<noteq> CHR ''>'')), lit ''>'',
     Star False (Cls (\<lambda>_. True)), lit_i (''</'' @ name @ ''>'')]"

definition tag_rx :: rx where
  "tag_rx = seqs [lit ''<'', some_rx (Cls (\<lambda>c. c \<noteq> CHR ''>'')), lit ''>'']"

definition upload_text :: "string \<Rightarrow> string \<Rightarrow> string" where
  "upload_text doc content_type =
     (if content_type \<noteq> ''text/html'' then doc
      else trim (replace_runs is_ws '' '' (rx_replace tag_rx (\<lambda>_. '' '') []
        (rx_replace (element_rx ''style'') (\<lambda>_. '' '') []
        (rx_replace (element_rx ''script'') (\<lambda>_. '' '') [] doc)))))"

definition group_text :: "rx \<Rightarrow> string \<Rightarrow> string" where
  "group_text r s = (case rx_exec r s of None \<Rightarrow> [] | Some m \<Rightarrow> trim (nullish (rx_group 1 m) []))"

definition html_title_rx :: rx where
  "html_title_rx = seqs [lit_i ''<title'', WordEdge, many (Cls (\<lambda>c. c \<noteq> CHR ''>'')), lit ''>'',
     Cap 1 (some_rx (Cls (\<lambda>c. c \<noteq> CHR ''<''))), lit_i ''</title>'']"

definition markdown_title_rx :: rx where
  "markdown_title_rx = seqs [LineStart, lit ''#'', some_rx space, Cap 1 (some_rx any_char), LineEnd]"

definition upload_title :: "(string \<Rightarrow> json option) \<Rightarrow> string \<Rightarrow> string \<Rightarrow> string \<Rightarrow> string" where
  "upload_title decode doc content_type fallback =
     (if content_type = ''text/html'' then or_else (group_text html_title_rx doc) fallback
      else if content_type = ''text/markdown'' then or_else (group_text markdown_title_rx doc) fallback
      else if content_type = ''application/json'' then
        (case decode doc of
           Some (JObj kvs) \<Rightarrow> or_else (scalar (member kvs ''title'')) fallback
         | _ \<Rightarrow> fallback)
      else fallback)"

text \<open>\<^verbatim>\<open>path.normalize\<close>, \<^verbatim>\<open>path.extname\<close>, \<^verbatim>\<open>path.basename\<close> on POSIX, for the paths the code gives them.\<close>

definition normal_step :: "bool \<Rightarrow> string \<Rightarrow> string list \<Rightarrow> string list" where
  "normal_step rooted seg acc =
     (if seg = [] \<or> seg = ''.'' then acc
      else if seg = ''..'' then
        (if acc \<noteq> [] \<and> last acc \<noteq> ''..'' then butlast acc else if rooted then acc else acc @ [seg])
      else acc @ [seg])"

definition path_normalize :: "string \<Rightarrow> string" where
  "path_normalize p =
     (let rooted = absolute p; trailing = ends_with p ''/'';
          body = join ''/'' (fold (normal_step rooted) (split_on (CHR ''/'') p) [])
      in if p = [] then ''.''
         else if body = [] then (if rooted then ''/'' else if trailing then ''./'' else ''.'')
         else (if rooted then ''/'' else []) @ body @ (if trailing then ''/'' else []))"

definition path_basename :: "string \<Rightarrow> string" where
  "path_basename p = last (split_on (CHR ''/'') p)"

definition path_extname :: "string \<Rightarrow> string" where
  "path_extname p =
     (let base = path_basename p; k = last_index_of base ''.''
      in if k \<le> 0 \<or> base = ''..'' then [] else drop (nat k) base)"

definition contained_path :: "string \<Rightarrow> string \<Rightarrow> bool" where
  "contained_path root target \<longleftrightarrow> target = root \<or> starts_with target (root @ ''/'')"

text \<open>\<^verbatim>\<open>path.relative(root, target)\<close> of a target inside the root.\<close>

definition path_relative :: "string \<Rightarrow> string \<Rightarrow> string" where
  "path_relative root target = drop (length root + 1) target"

definition uri_plain :: "char \<Rightarrow> bool" where
  "uri_plain c \<longleftrightarrow> is_digit c \<or> is_lower c \<or> is_upper c \<or> c \<in> set ''-_.!~*()'' \<or> c = CHR 0x27"

definition percent_byte :: "byte \<Rightarrow> string" where
  "percent_byte b = [CHR ''%'', upper_hex_digit (unat b div 16), upper_hex_digit (unat b mod 16)]"

definition encode_uri_component :: "string \<Rightarrow> string" where
  "encode_uri_component s =
     concat (map (\<lambda>c. if uri_plain c then [c] else concat (map percent_byte (utf8_char c))) s)"

record upload_file =
  uf_is_file :: bool
  uf_size :: int
  uf_contents :: "string option"

text \<open>The file system: \<^verbatim>\<open>realpath\<close> gives a path or the code of its error, \<^verbatim>\<open>open\<close> may fail.\<close>

record upload_system =
  us_realpath :: "string \<Rightarrow> string + string"
  us_open :: "string \<Rightarrow> upload_file option"
  us_decode :: "string \<Rightarrow> string option"
  us_json :: "string \<Rightarrow> json option"

definition upload_location :: "string \<Rightarrow> fault + string" where
  "upload_location location =
     (if location = [] \<or> nul \<in> set location \<or> CHR 0x5C \<in> set location \<or> absolute location
      then throw ''upload_path_not_allowed'' ''Upload locations must be relative paths inside DOKOSOKO_UPLOAD_DIR.''
      else let normalized = path_normalize location in
        if normalized = ''.'' \<or> normalized = ''..'' \<or> starts_with normalized ''../''
        then throw ''upload_path_not_allowed'' ''Upload locations may not escape DOKOSOKO_UPLOAD_DIR.''
        else Inr normalized)"

fun realpath_error :: "string + 'a \<Rightarrow> fault + 'a" where
  "realpath_error (Inl code) =
     (if code = ''ENOENT'' then throw ''upload_not_found'' ''The selected upload does not exist in DOKOSOKO_UPLOAD_DIR.''
      else throw ''upload_unreadable'' ''The selected upload could not be read.'')"
| "realpath_error (Inr p) = Inr p"

definition upload_target :: "upload_system \<Rightarrow> crawler_settings \<Rightarrow> string \<Rightarrow> fault + string \<times> string" where
  "upload_target sys settings location =
     (case cs_upload_dir settings of
        None \<Rightarrow> throw ''upload_directory_unconfigured'' ''Upload ingestion requires a dedicated DOKOSOKO_UPLOAD_DIR.''
      | Some directory \<Rightarrow>
          bind_result (upload_location location) (\<lambda>normalized.
          bind_result (realpath_error (us_realpath sys directory)) (\<lambda>root.
          let unresolved = path_resolve ''/'' root normalized in
          bind_result (realpath_error (us_realpath sys unresolved)) (\<lambda>target.
            if \<not> contained_path root target \<or> target \<noteq> unresolved
            then throw ''upload_path_not_allowed'' ''Upload paths must be canonical, symlink-free, and strictly inside DOKOSOKO_UPLOAD_DIR.''
            else Inr (root, target)))))"

definition upload_too_large :: "crawler_settings \<Rightarrow> fault + 'a" where
  "upload_too_large settings =
     throw ''source_too_large'' (''The upload exceeds the configured '' @ int_str (cs_max_bytes settings) @ ''-byte limit.'')"

definition read_upload :: "upload_system \<Rightarrow> crawler_settings \<Rightarrow> string \<Rightarrow> fault + string" where
  "read_upload sys settings target =
     (case us_open sys target of
        None \<Rightarrow> throw ''upload_unreadable'' ''The selected upload could not be read.''
      | Some f \<Rightarrow>
          if \<not> uf_is_file f then throw ''upload_type_not_allowed'' ''The upload location must identify a regular file.''
          else if cs_max_bytes settings < uf_size f then upload_too_large settings
          else (case uf_contents f of
              None \<Rightarrow> throw ''upload_unreadable'' ''The selected upload could not be read.''
            | Some bytes \<Rightarrow>
                if cs_max_bytes settings < int (length bytes) then upload_too_large settings
                else (case us_decode sys bytes of
                    None \<Rightarrow> throw ''source_encoding_unsupported'' ''Uploads must use valid UTF-8 text.''
                  | Some doc \<Rightarrow> Inr doc)))"

definition upload_url :: "string \<Rightarrow> string \<Rightarrow> string \<Rightarrow> string" where
  "upload_url source_id root target =
     ''upload://'' @ source_id @ ''/''
       @ join ''/'' (map encode_uri_component (split_on (CHR ''/'') (path_relative root target)))"

definition ingest_upload :: "upload_system \<Rightarrow> job \<Rightarrow> crawler_settings \<Rightarrow> fault + ingestion_result" where
  "ingest_upload sys job settings =
     bind_result (upload_target sys settings (j_location job)) (\<lambda>(root, target).
     case map_of upload_types (to_lower (path_extname target)) of
       None \<Rightarrow> throw ''upload_media_type_unsupported'' ''Uploads must be UTF-8 Markdown, text, HTML, JSON, or YAML files.''
     | Some content_type \<Rightarrow>
         bind_result (read_upload sys settings target) (\<lambda>doc.
           Inr (single_page_result
             \<lparr>pg_url = upload_url (j_source job) root target,
              pg_title = upload_title (us_json sys) doc content_type (path_basename target),
              pg_text = upload_text doc content_type, pg_html = doc, pg_content_type = content_type,
              pg_status = 200, pg_indicators = injection_indicators doc [], pg_rendered = False\<rparr>)))"

definition reject_git_source :: "fault + 'a" where
  "reject_git_source = throw ''git_source_unsupported''
     ''Git ingestion is not enabled in this worker. Use a website, an HTTPS OpenAPI document, or a reviewed upload; do not use git:// or repository credentials.''"

section \<open>What the indicators catch\<close>

lemma injection_iff:
  "name \<in> set (injection_indicators t html) \<longleftrightarrow>
     (\<exists>r. (name, r) \<in> set injection_patterns \<and> rx_test r (to_lower (t @ [newline] @ html)))"
  by (force simp: injection_indicators_def Let_def)

lemma phrase_words:
  "(\<exists>p u q. s = p @ u @ q \<and> u \<in> then_words {i} (then_words A (then_words W {e})))
     \<longleftrightarrow> (\<exists>p a w q. s = p @ i @ a @ w @ e @ q \<and> a \<in> A \<and> w \<in> W)"
proof -
  have mem: "u \<in> then_words {i} (then_words A (then_words W {e})) \<longleftrightarrow> (\<exists>a w. u = i @ a @ w @ e \<and> a \<in> A \<and> w \<in> W)" for u
    by (simp add: then_words_def) blast
  show ?thesis
  proof
    assume "\<exists>p u q. s = p @ u @ q \<and> u \<in> then_words {i} (then_words A (then_words W {e}))"
    then obtain p q a w where "s = p @ (i @ a @ w @ e) @ q" "a \<in> A" "w \<in> W"
      unfolding mem by blast
    then show "\<exists>p a w q. s = p @ i @ a @ w @ e @ q \<and> a \<in> A \<and> w \<in> W"
      unfolding append_assoc by blast
  next
    assume "\<exists>p a w q. s = p @ i @ a @ w @ e @ q \<and> a \<in> A \<and> w \<in> W"
    then obtain p q a w where "s = p @ (i @ a @ w @ e) @ q" "a \<in> A" "w \<in> W"
      unfolding append_assoc by blast
    then show "\<exists>p u q. s = p @ u @ q \<and> u \<in> then_words {i} (then_words A (then_words W {e}))"
      unfolding mem by blast
  qed
qed

definition overriding :: "string \<Rightarrow> bool" where
  "overriding s \<longleftrightarrow> (\<exists>p a w q. s = p @ ''ignore '' @ a @ w @ '' instructions'' @ q
     \<and> a \<in> set [''all '', ''any ''] \<union> {[]} \<and> w \<in> set [''previous'', ''prior'', ''system'', ''developer''])"

text \<open>
  A page is flagged as overriding instructions exactly when its text, a line break and
  its HTML, in lower case, hold the phrase ignore (all, any or nothing) previous, prior, system or
  developer instructions.
\<close>

theorem instruction_override_exact:
  "''instruction_override'' \<in> set (injection_indicators t html) \<longleftrightarrow> overriding (to_lower (t @ [newline] @ html))"
proof -
  let ?s = "to_lower (t @ [newline] @ html)"
  let ?r = "seqs [lit ''ignore '', maybe (words [''all '', ''any '']), word_list ''previous|prior|system|developer'',
    lit '' instructions'']"
  have split: "split_on (CHR ''|'') ''previous|prior|system|developer'' = [''previous'', ''prior'', ''system'', ''developer'']"
    by code_simp
  have "''instruction_override'' \<in> set (injection_indicators t html) \<longleftrightarrow> rx_test ?r ?s"
    by (auto simp: injection_iff injection_patterns_def)
  also have "\<dots> \<longleftrightarrow> (\<exists>p u q. ?s = p @ u @ q \<and> u \<in> then_words {''ignore ''} (then_words (set [''all '', ''any ''] \<union> {[]})
      (then_words (set [''previous'', ''prior'', ''system'', ''developer'']) {'' instructions''})))"
    unfolding seqs.simps word_list_def split
    by (rule accepts_test) (intro rx_language)
  also have "\<dots> \<longleftrightarrow> overriding ?s"
    unfolding overriding_def by (rule phrase_words)
  finally show ?thesis .
qed

section \<open>Uploads stay inside their directory\<close>

lemma throw_not_Inr [simp]: "throw code message \<noteq> Inr x"
  by (simp add: throw_def)

lemma realpath_error_Inr [simp]: "realpath_error r = Inr p \<longleftrightarrow> r = Inr p"
  by (cases r) auto

lemma path_step_plain:
  "list_all (\<lambda>s. s \<notin> {[], ''.'', ''..''} \<and> CHR ''/'' \<notin> set s) acc \<Longrightarrow> list_all (\<lambda>s. CHR ''/'' \<notin> set s) segs \<Longrightarrow>
   list_all (\<lambda>s. s \<notin> {[], ''.'', ''..''} \<and> CHR ''/'' \<notin> set s) (fold path_step segs acc)"
proof (induction segs arbitrary: acc)
  case (Cons x segs)
  have "list_all (\<lambda>s. s \<notin> {[], ''.'', ''..''} \<and> CHR ''/'' \<notin> set s) (path_step x acc)"
    using Cons.prems by (auto simp: path_step_def list_all_iff dest: in_set_butlastD)
  then show ?case using Cons by simp
qed simp

definition plain_path :: "string \<Rightarrow> bool" where
  "plain_path p \<longleftrightarrow> p = ''/'' \<or> absolute p \<and> list_all (\<lambda>s. s \<notin> {[], ''.'', ''..''}) (tl (split_on (CHR ''/'') p))"

lemma plain_path_resolve: "plain_path (path_resolve cwd base p)"
proof -
  have "plain_path (normalize_absolute q)" for q
  proof -
    let ?segs = "fold path_step (split_on (CHR ''/'') q) []"
    have segs: "list_all (\<lambda>s. s \<notin> {[], ''.'', ''..''} \<and> CHR ''/'' \<notin> set s) ?segs"
      by (rule path_step_plain) (auto simp: list_all_iff dest: split_on_no_sep)
    show ?thesis
    proof (cases "?segs = []")
      case False
      have "split_on (CHR ''/'') (''/'' @ join ''/'' ?segs) = [] # ?segs"
        using segs False split_on_append [of "CHR ''/''" "[]"] split_on_join [of ?segs "CHR ''/''"]
        by (auto simp: list_all_iff)
      then show ?thesis
        using segs by (auto simp: plain_path_def normalize_absolute_def absolute_def list_all_iff)
    qed (simp add: plain_path_def normalize_absolute_def)
  qed
  then show ?thesis by (simp add: path_resolve_def)
qed

lemma upload_target_Inr:
  assumes "upload_target sys settings location = Inr (root, target)"
  shows "\<exists>directory. cs_upload_dir settings = Some directory \<and> us_realpath sys directory = Inr root
    \<and> us_realpath sys target = Inr target \<and> contained_path root target \<and> plain_path target"
  using assms by (auto simp: upload_target_def Let_def plain_path_resolve split: option.splits if_splits)

lemma read_upload_Inr:
  "read_upload sys settings target = Inr doc \<Longrightarrow>
     \<exists>f bytes. us_open sys target = Some f \<and> uf_is_file f \<and> uf_contents f = Some bytes
       \<and> us_decode sys bytes = Some doc \<and> int (length bytes) \<le> cs_max_bytes settings"
  by (auto simp: read_upload_def upload_too_large_def split: option.splits if_splits)

text \<open>
  Property C11. An upload that is ingested is one page, read from a regular file that is its own real
  path, inside the real upload directory, by a path without dot segments; it holds the decoded bytes
  of that file, never more than the limit.
\<close>

theorem upload_contained:
  assumes "ingest_upload sys job settings = Inr result"
  shows "\<exists>directory root target f bytes page. cs_upload_dir settings = Some directory
    \<and> us_realpath sys directory = Inr root \<and> us_realpath sys target = Inr target
    \<and> contained_path root target \<and> plain_path target \<and> us_open sys target = Some f \<and> uf_is_file f
    \<and> uf_contents f = Some bytes \<and> int (length bytes) \<le> cs_max_bytes settings
    \<and> ir_pages result = [page] \<and> us_decode sys bytes = Some (pg_html page)
    \<and> pg_url page = upload_url (j_source job) root target \<and> map_of upload_types (to_lower (path_extname target)) \<noteq> None"
proof -
  from assms obtain root target content_type doc where
      t: "upload_target sys settings (j_location job) = Inr (root, target)"
      "map_of upload_types (to_lower (path_extname target)) = Some content_type"
      "read_upload sys settings target = Inr doc"
    and r: "result = single_page_result
             \<lparr>pg_url = upload_url (j_source job) root target,
              pg_title = upload_title (us_json sys) doc content_type (path_basename target),
              pg_text = upload_text doc content_type, pg_html = doc, pg_content_type = content_type,
              pg_status = 200, pg_indicators = injection_indicators doc [], pg_rendered = False\<rparr>"
    by (auto simp: ingest_upload_def split: option.splits)
  then have page: "ir_pages result = [hd (ir_pages result)]" "pg_html (hd (ir_pages result)) = doc"
      "pg_url (hd (ir_pages result)) = upload_url (j_source job) root target"
    by (simp_all add: single_page_result_def)
  obtain directory where "cs_upload_dir settings = Some directory" "us_realpath sys directory = Inr root"
      "us_realpath sys target = Inr target" "contained_path root target" "plain_path target"
    using upload_target_Inr [OF t(1)] by blast
  moreover obtain f bytes where "us_open sys target = Some f" "uf_is_file f" "uf_contents f = Some bytes"
      "us_decode sys bytes = Some (pg_html (hd (ir_pages result)))" "int (length bytes) \<le> cs_max_bytes settings"
    using read_upload_Inr [OF t(3)] page(2) by blast
  moreover have "map_of upload_types (to_lower (path_extname target)) \<noteq> None"
    using t(2) by simp
  ultimately show ?thesis using page by blast
qed

definition sample_job :: job where
  "sample_job = \<lparr>j_id = ''job1'', j_organisation = ''org'', j_product = ''product'', j_source = ''source'',
     j_source_name = ''Docs'', j_source_kind = ''upload'', j_location = ''a/../guide.md'', j_visibility = Private,
     j_attempt = 1, j_lease_owner = ''w1'', j_lease_expires = 60000, j_heartbeat = 0\<rparr>"

definition sample_uploads :: upload_system where
  "sample_uploads = \<lparr>us_realpath = (\<lambda>p. if p \<in> set [''/uploads'', ''/uploads/guide.md''] then Inr p else Inl ''ENOENT''),
     us_open = (\<lambda>p. Some \<lparr>uf_is_file = True, uf_size = 7, uf_contents = Some ''# Guide''\<rparr>),
     us_decode = Some, us_json = (\<lambda>_. None)\<rparr>"

theorem upload_contained_witness:
  "\<exists>page. ingest_upload sample_uploads sample_job sample_settings = Inr (single_page_result page)
     \<and> pg_title page = ''Guide'' \<and> pg_url page = ''upload://source/guide.md''
     \<and> contained_path ''/uploads'' ''/uploads/guide.md''"
proof -
  define r where "r = projr (ingest_upload sample_uploads sample_job sample_settings)"
  have r: "ingest_upload sample_uploads sample_job sample_settings = Inr r"
    unfolding r_def by code_simp
  have "r = single_page_result (hd (ir_pages r)) \<and> pg_title (hd (ir_pages r)) = ''Guide''
     \<and> pg_url (hd (ir_pages r)) = ''upload://source/guide.md''"
    unfolding r_def by code_simp
  moreover have "contained_path ''/uploads'' ''/uploads/guide.md''"
    by code_simp
  ultimately show ?thesis
    using upload_contained [OF r] r by auto
qed

section \<open>The text of an HTML upload\<close>

text \<open>No \<^verbatim>\<open><\<close> opens a tag: it is followed by \<^verbatim>\<open>>\<close> at once, or never.\<close>

definition tagless :: "string \<Rightarrow> bool" where
  "tagless s \<longleftrightarrow> (\<forall>p q. s = p @ ''<'' @ q \<longrightarrow> starts_with q ''>'' \<or> CHR ''>'' \<notin> set q)"

lemma tag_words: "accepts tag_rx {''<'' @ u @ ''>'' | u. u \<noteq> [] \<and> CHR ''>'' \<notin> set u}"
proof -
  have "accepts tag_rx (then_words {''<''} (then_words (then_words {[c] | c. c \<noteq> CHR ''>''} {u. list_all (\<lambda>c. c \<noteq> CHR ''>'') u}) {''>''}))"
    unfolding tag_rx_def seqs.simps some_rx_def by (intro rx_language)
  moreover have "then_words {[c] | c. c \<noteq> CHR ''>''} {u. list_all (\<lambda>c. c \<noteq> CHR ''>'') u} = {u. u \<noteq> [] \<and> CHR ''>'' \<notin> set u}"
  proof (intro set_eqI iffI)
    fix u assume "u \<in> {u. u \<noteq> [] \<and> CHR ''>'' \<notin> set u}"
    then have "u = [hd u] @ tl u" "hd u \<noteq> CHR ''>''" "list_all (\<lambda>c. c \<noteq> CHR ''>'') (tl u)"
      by (cases u; auto simp: list_all_iff)+
    then show "u \<in> then_words {[c] | c. c \<noteq> CHR ''>''} {u. list_all (\<lambda>c. c \<noteq> CHR ''>'') u}"
      unfolding then_words_def by blast
  next
    fix u assume "u \<in> then_words {[c] | c. c \<noteq> CHR ''>''} {u. list_all (\<lambda>c. c \<noteq> CHR ''>'') u}"
    then obtain c v where "u = [c] @ v" "c \<noteq> CHR ''>''" "list_all (\<lambda>c. c \<noteq> CHR ''>'') v"
      unfolding then_words_def by blast
    then show "u \<in> {u. u \<noteq> [] \<and> CHR ''>'' \<notin> set u}"
      by (auto simp: list_all_iff)
  qed
  moreover have "then_words {''<''} (then_words {u. u \<noteq> [] \<and> CHR ''>'' \<notin> set u} {''>''})
      = {''<'' @ u @ ''>'' | u. u \<noteq> [] \<and> CHR ''>'' \<notin> set u}"
    by (auto simp: then_words_def)
  ultimately show ?thesis by simp
qed

lemma tag_rx_None: "rx_search tag_rx before s = None \<Longrightarrow> tagless s"
proof (unfold tagless_def, intro allI impI)
  fix p q assume none: "rx_search tag_rx before s = None" and s: "s = p @ ''<'' @ q"
  show "starts_with q ''>'' \<or> CHR ''>'' \<notin> set q"
  proof (rule ccontr)
    assume no: "\<not> (starts_with q ''>'' \<or> CHR ''>'' \<notin> set q)"
    then obtain u v where q: "q = u @ ''>'' @ v" "CHR ''>'' \<notin> set u"
      using split_list_first [of "CHR ''>''" q] by auto
    have "u \<noteq> []" using no q by (auto simp: starts_with_iff)
    then have "rx_rel tag_rx (rev p @ before, (''<'' @ u @ ''>'') @ v, []) (rev (''<'' @ u @ ''>'') @ rev p @ before, v, [])"
      using q(2) by (intro accepts_run [OF tag_words]) blast
    moreover have "s = p @ ((''<'' @ u @ ''>'') @ v)" using s q by simp
    ultimately show False using none unfolding rx_search_None by blast
  qed
qed

lemma tag_rx_Some:
  assumes "rx_search tag_rx before s = Some m"
  shows "\<exists>p. s = p @ rm_text m @ rm_after m \<and> length (rm_after m) < length s
    \<and> (\<forall>a b. p = a @ ''<'' @ b \<longrightarrow> starts_with b ''>'')"
proof -
  obtain p where p: "s = p @ rm_text m @ rm_after m"
      "rx_rel tag_rx (rm_before m, rm_text m @ rm_after m, []) (rev (rm_text m) @ rm_before m, rm_after m, rm_groups m)"
      "\<And>q c u. s = q @ c # u \<Longrightarrow> length q < length p \<Longrightarrow> \<nexists>t. rx_rel tag_rx (rev q @ before, c # u, []) t"
    using rx_search_Some [OF assms] by blast
  obtain w where w: "rm_text m = ''<'' @ w @ ''>''" "CHR ''>'' \<notin> set w"
    using p(2) tag_words unfolding accepts_def by fastforce
  have "starts_with b ''>''" if p': "p = a @ ''<'' @ b" for a b
  proof (rule ccontr)
    assume no: "\<not> starts_with b ''>''"
    obtain u v where u: "b @ ''<'' @ w @ ''>'' @ rm_after m = u @ ''>'' @ v" "CHR ''>'' \<notin> set u"
      using split_list_first [of "CHR ''>''" "b @ ''<'' @ w @ ''>'' @ rm_after m"] by auto
    have "u \<noteq> []" using u no by (cases b) (auto simp: starts_with_iff)
    then have "rx_rel tag_rx (rev a @ before, (''<'' @ u @ ''>'') @ v, []) (rev (''<'' @ u @ ''>'') @ rev a @ before, v, [])"
      using u(2) by (intro accepts_run [OF tag_words]) blast
    moreover have "s = a @ CHR ''<'' # (u @ ''>'' @ v)"
      using p(1) p' w(1) u(1) by simp
    ultimately show False using p(3) [of a "CHR ''<''"] p' by simp
  qed
  then show ?thesis using p(1) w(1) by (intro exI [of _ p]) auto
qed

lemma tagless_append:
  assumes "\<And>a b. p = a @ ''<'' @ b \<Longrightarrow> starts_with b ''>''" "tagless s" "CHR ''<'' \<notin> set r"
  shows "tagless (p @ r @ s)"
proof (unfold tagless_def, intro allI impI)
  fix a q assume eq: "p @ r @ s = a @ ''<'' @ q"
  then consider b where "p = a @ ''<'' @ b" "q = b @ r @ s" | c where "a = p @ r @ c" "s = c @ ''<'' @ q"
    using assms(3) by (auto simp: append_eq_append_conv2 append_eq_Cons_conv Cons_eq_append_conv)
  then show "starts_with q ''>'' \<or> CHR ''>'' \<notin> set q"
  proof cases
    case 1
    then show ?thesis using assms(1) [of a b] by (auto simp: starts_with_iff)
  next
    case 2
    then show ?thesis using assms(2) unfolding tagless_def by blast
  qed
qed

lemma tagless_replace: "tagless (rx_replace tag_rx (\<lambda>_. '' '') before s)"
proof (induction "length s" arbitrary: before s rule: less_induct)
  case less
  show ?case
  proof (cases "rx_search tag_rx before s")
    case None
    then show ?thesis using tag_rx_None by (subst rx_replace_step) simp
  next
    case (Some m)
    obtain p where p: "s = p @ rm_text m @ rm_after m" "length (rm_after m) < length s"
        "\<And>a b. p = a @ ''<'' @ b \<Longrightarrow> starts_with b ''>''"
      using tag_rx_Some [OF Some] by blast
    have "rx_replace tag_rx (\<lambda>_. '' '') before s
        = p @ '' '' @ rx_replace tag_rx (\<lambda>_. '' '') (rev (rm_text m) @ rm_before m) (rm_after m)"
      using Some p by (subst rx_replace_step) simp
    then show ?thesis
      using tagless_append [of p _ "'' ''"] p(3) less [OF p(2)] by simp
  qed
qed

lemma replace_runs_split:
  assumes "replace_runs P r s = p @ c # q" "\<not> P c" "c \<notin> set r"
  shows "\<exists>a b. s = a @ c # b \<and> q = replace_runs P r b"
  using assms
proof (induction P r s arbitrary: p rule: replace_runs.induct)
  case (3 P r d e cs)
  have later: "\<exists>a b. d # e # cs = a @ c # b \<and> q = replace_runs P r b"
    if "replace_runs P r (e # cs) = p' @ c # q" for p'
  proof -
    have "\<exists>a b. e # cs = a @ c # b \<and> q = replace_runs P r b"
      using "3.IH" "3.prems"(2,3) that by metis
    then show ?thesis by (metis append_Cons)
  qed
  show ?case
  proof (cases "P d")
    case True
    then obtain p' where "replace_runs P r (e # cs) = p' @ c # q"
      using "3.prems" by (auto split: if_splits simp: append_eq_append_conv2 append_eq_Cons_conv Cons_eq_append_conv)
    then show ?thesis by (rule later)
  next
    case False
    then have eq: "d # replace_runs P r (e # cs) = p @ c # q"
      using "3.prems" by simp
    show ?thesis
    proof (cases p)
      case Nil
      then show ?thesis using eq by (intro exI [of _ "[]"] exI [of _ "e # cs"]) simp
    next
      case (Cons d' p')
      then show ?thesis using eq later [of p'] by simp
    qed
  qed
qed (auto simp: Cons_eq_append_conv split: if_splits)

lemma tagless_collapse:
  assumes "tagless s"
  shows "tagless (trim (replace_runs is_ws '' '' s))"
proof -
  have "tagless (replace_runs is_ws '' '' s)"
  proof (unfold tagless_def, intro allI impI)
    fix p q assume "replace_runs is_ws '' '' s = p @ ''<'' @ q"
    then obtain a b where s: "s = a @ ''<'' @ b" "q = replace_runs is_ws '' '' b"
      using replace_runs_split [of is_ws "'' ''" s p "CHR ''<''" q] by (auto simp: is_ws_def ws_chars_def)
    consider v where "b = ''>'' @ v" | "CHR ''>'' \<notin> set b"
      using assms s(1) by (auto simp: tagless_def starts_with_iff)
    then show "starts_with q ''>'' \<or> CHR ''>'' \<notin> set q"
    proof cases
      case 1
      then show ?thesis
        using s(2) by (cases v) (auto simp: is_ws_def ws_chars_def starts_with_iff)
    next
      case 2
      then show ?thesis using s(2) set_replace_runs [of is_ws "'' ''" b] by auto
    qed
  qed
  moreover have "tagless x" if "tagless (p @ x @ q)" for p x q
  proof (unfold tagless_def, intro allI impI)
    fix a b assume "x = a @ ''<'' @ b"
    then have "p @ x @ q = (p @ a) @ ''<'' @ (b @ q)" by simp
    then have "starts_with (b @ q) ''>'' \<or> CHR ''>'' \<notin> set (b @ q)"
      using that unfolding tagless_def by blast
    then show "starts_with b ''>'' \<or> CHR ''>'' \<notin> set b"
      by (cases b) (auto simp: starts_with_iff)
  qed
  ultimately show ?thesis using trim_sublist by metis
qed

text \<open>
  The text of an HTML upload has no tag: each less-than sign left in it is followed
  at once by a greater-than sign or by none at all. Other uploads keep their text.
\<close>

theorem upload_text_tagless:
  "tagless (upload_text doc ''text/html'') \<and> (content_type \<noteq> ''text/html'' \<longrightarrow> upload_text doc content_type = doc)"
  by (simp add: upload_text_def tagless_collapse tagless_replace)

theorem upload_text_tagless_witness:
  "upload_text ''<p>a</p><script>if (x < 1) y();</script> <B>b</B> 1 < 2'' ''text/html'' = ''a b 1 < 2''
   \<and> upload_text ''<p>'' ''text/markdown'' = ''<p>''"
proof
  show "upload_text ''<p>a</p><script>if (x < 1) y();</script> <B>b</B> 1 < 2'' ''text/html'' = ''a b 1 < 2''"
    by code_simp
  show "upload_text ''<p>'' ''text/markdown'' = ''<p>''"
    using conjunct2 [OF upload_text_tagless [of _ "''text/markdown''"]] by simp
qed

end
