(* ===== verification/JobStore.thy ===== *)
theory JobStore
  imports Sources
begin

text \<open>
  The tables the crawler writes and the transactions on them, from \<^verbatim>\<open>crawler/index.ts\<close>: claiming a job,
  renewing its lease, storing a page, completing and failing a job. A transaction is one function on
  the database; \<^verbatim>\<open>now()\<close> is the start of the transaction, as PostgreSQL defines it, so it is the same in all its
  statements. Rows locked by other transactions are an argument of the claim, which skips them.
\<close>

section \<open>The tables\<close>

datatype job_state = Queued | Running | Review | Succeeded | Failed | Cancelled

datatype lifecycle = Draft | Validated | Published | Quarantined | Retired

record job_counts =
  ct_discovered :: int
  ct_fetched :: int
  ct_changed :: int
  ct_failed :: int
  ct_skipped :: int
  ct_redirected :: int

definition no_counts :: job_counts where
  "no_counts = \<lparr>ct_discovered = 0, ct_fetched = 0, ct_changed = 0, ct_failed = 0, ct_skipped = 0, ct_redirected = 0\<rparr>"

record job_row =
  jr_id :: string
  jr_organisation :: string
  jr_product :: string
  jr_source :: string
  jr_state :: job_state
  jr_attempt :: int
  jr_counts :: job_counts
  jr_diagnostics :: json
  jr_owner :: string
  jr_expires :: "int option"
  jr_heartbeat :: "int option"
  jr_queued :: int
  jr_started :: "int option"
  jr_finished :: "int option"
  jr_error :: "crawler_error option"

record source_row =
  so_id :: string
  so_organisation :: string
  so_product :: string
  so_name :: string
  so_kind :: string
  so_location :: string
  so_visibility :: visibility
  so_state :: lifecycle
  so_revision :: nat

record snapshot_row =
  sn_id :: string
  sn_source :: string
  sn_job :: string
  sn_url :: string
  sn_object :: string
  sn_hash :: string
  sn_type :: string
  sn_status :: nat
  sn_trust :: json

record document_row =
  dc_id :: string
  dc_product :: string
  dc_source :: string
  dc_snapshot :: string
  dc_title :: string
  dc_url :: string
  dc_body :: string
  dc_visibility :: visibility
  dc_state :: lifecycle
  dc_trust :: int
  dc_indicators :: json
  dc_revision :: nat

record link_row =
  lk_job :: string
  lk_document :: string
  lk_changed :: bool
  lk_state :: lifecycle
  lk_trust :: int
  lk_indicators :: json

record database =
  db_now :: int
  db_jobs :: "job_row list"
  db_sources :: "source_row list"
  db_snapshots :: "snapshot_row list"
  db_documents :: "document_row list"
  db_links :: "link_row list"

definition update_where :: "('r \<Rightarrow> bool) \<Rightarrow> ('r \<Rightarrow> 'r) \<Rightarrow> 'r list \<Rightarrow> 'r list" where
  "update_where p f rows = map (\<lambda>r. if p r then f r else r) rows"

lemma update_where_length [simp]: "length (update_where p f rows) = length rows"
  by (simp add: update_where_def)

lemma set_update_where: "set (update_where p f rows) = (\<lambda>r. if p r then f r else r) ` set rows"
  by (simp add: update_where_def)

lemma update_where_none: "filter p rows = [] \<Longrightarrow> update_where p f rows = rows"
  by (induction rows) (auto simp: update_where_def split: if_splits)

section \<open>Leases\<close>

definition lease_duration :: int where
  "lease_duration = 60000"

definition crawler_lease_owner :: "string option \<Rightarrow> string \<Rightarrow> string" where
  "crawler_lease_owner worker_id generated = or_else (take 255 (trim (nullish worker_id []))) generated"

definition valid_lease_owner :: "string \<Rightarrow> crawler_error + string" where
  "valid_lease_owner v =
     (if trim v = [] then Inl (configuration_error ''The crawler lease owner must not be empty.'') else Inr (take 255 (trim v)))"

definition check_duration :: "int \<Rightarrow> crawler_error + unit" where
  "check_duration d =
     (if safe_integer d \<and> 1000 \<le> d then Inr ()
      else Inl (configuration_error ''The crawler lease duration must be at least one second.''))"

text \<open>The condition every statement of a lease holder has.\<close>

definition holds_lease :: "int \<Rightarrow> string \<Rightarrow> string \<Rightarrow> job_row \<Rightarrow> bool" where
  "holds_lease now job_id owner r \<longleftrightarrow>
     jr_id r = job_id \<and> jr_state r = Running \<and> jr_owner r = owner
     \<and> (case jr_expires r of None \<Rightarrow> False | Some e \<Rightarrow> now < e)"

definition owned :: "database \<Rightarrow> job \<Rightarrow> bool" where
  "owned db job \<longleftrightarrow> list_ex (holds_lease (db_now db) (j_id job) (j_lease_owner job)) (db_jobs db)"

section \<open>Claiming\<close>

definition claimable :: "string set \<Rightarrow> int \<Rightarrow> job_row \<Rightarrow> bool" where
  "claimable locked now r \<longleftrightarrow> jr_id r \<notin> locked \<and>
     (jr_state r = Queued \<or> jr_state r = Running \<and> (case jr_expires r of None \<Rightarrow> True | Some e \<Rightarrow> e \<le> now))"

definition claim_candidate :: "string set \<Rightarrow> database \<Rightarrow> job_row option" where
  "claim_candidate locked db =
     (case js_sort (cmp_by (\<lambda>r. (jr_queued r, jr_id r))) (filter (claimable locked (db_now db)) (db_jobs db)) of
        [] \<Rightarrow> None
      | r # _ \<Rightarrow> Some r)"

definition claimed_row :: "string \<Rightarrow> int \<Rightarrow> int \<Rightarrow> job_row \<Rightarrow> job_row" where
  "claimed_row owner duration now r =
     r\<lparr>jr_state := Running, jr_attempt := (if jr_state r = Running then jr_attempt r + 1 else jr_attempt r),
       jr_counts := no_counts, jr_diagnostics := JObj [], jr_owner := owner, jr_expires := Some (now + duration),
       jr_heartbeat := Some now, jr_started := Some now, jr_finished := None, jr_error := None\<rparr>"

definition job_of :: "job_row \<Rightarrow> source_row \<Rightarrow> job" where
  "job_of r s =
     \<lparr>j_id = jr_id r, j_organisation = jr_organisation r, j_product = jr_product r, j_source = jr_source r,
      j_source_name = so_name s, j_source_kind = so_kind s, j_location = so_location s, j_visibility = so_visibility s,
      j_attempt = jr_attempt r, j_lease_owner = jr_owner r, j_lease_expires = nullish (jr_expires r) 0,
      j_heartbeat = nullish (jr_heartbeat r) 0\<rparr>"

definition claim_job ::
    "string \<Rightarrow> int \<Rightarrow> string set \<Rightarrow> database \<Rightarrow> (crawler_error + job option) \<times> database" where
  "claim_job lease_owner duration locked db =
     (case bind_result (valid_lease_owner lease_owner) (\<lambda>o'. bind_result (check_duration duration) (\<lambda>_. Inr o')) of
        Inl e \<Rightarrow> (Inl e, db)
      | Inr owner \<Rightarrow>
          (case claim_candidate locked db of
             None \<Rightarrow> (Inr None, db)
           | Some c \<Rightarrow>
               let claimed = claimed_row owner duration (db_now db) c
               in (Inr (map_option (job_of claimed) (find (\<lambda>s. so_id s = jr_source claimed) (db_sources db))),
                   db\<lparr>db_jobs := update_where (\<lambda>r. jr_id r = jr_id c) (claimed_row owner duration (db_now db)) (db_jobs db),
                      db_links := (if jr_state c = Running then filter (\<lambda>l. lk_job l \<noteq> jr_id c) (db_links db)
                        else db_links db)\<rparr>)))"

definition heartbeat_job :: "job \<Rightarrow> int \<Rightarrow> database \<Rightarrow> (crawler_error + bool) \<times> database" where
  "heartbeat_job job duration db =
     (case check_duration duration of
        Inl e \<Rightarrow> (Inl e, db)
      | Inr _ \<Rightarrow>
          let held = holds_lease (db_now db) (j_id job) (j_lease_owner job)
          in (Inr (length (filter held (db_jobs db)) = 1),
              db\<lparr>db_jobs := update_where held
                (\<lambda>r. r\<lparr>jr_heartbeat := Some (db_now db), jr_expires := Some (db_now db + duration)\<rparr>) (db_jobs db)\<rparr>))"

definition lease_lost :: "string \<Rightarrow> fault" where
  "lease_lost message = JobFault (job_error ''crawler_lease_lost'' message)"

definition lock_job_lease :: "database \<Rightarrow> job \<Rightarrow> fault + unit" where
  "lock_job_lease db job =
     (if owned db job then Inr ()
      else Inl (lease_lost ''The crawler no longer owns this job lease; its results were not committed.''))"

section \<open>Storing a page\<close>

definition json_texts :: "string list \<Rightarrow> json" where
  "json_texts ts = JArr (map JStr ts)"

fun text_items :: "json list \<Rightarrow> string list option" where
  "text_items [] = Some []"
| "text_items (JStr s # vs) = map_option (\<lambda>ts. s # ts) (text_items vs)"
| "text_items (_ # vs) = None"

text \<open>A text value is decoded first; \<open>decode\<close> is \<^verbatim>\<open>JSON.parse\<close>.\<close>

definition stored_indicator_names :: "(string \<Rightarrow> json option) \<Rightarrow> json \<Rightarrow> string list option" where
  "stored_indicator_names decode v =
     (let parsed = (case v of JStr s \<Rightarrow> decode s | _ \<Rightarrow> Some v)
      in case parsed of Some (JArr vs) \<Rightarrow> text_items vs | _ \<Rightarrow> None)"

definition trust_assessment :: "job \<Rightarrow> page_record \<Rightarrow> json" where
  "trust_assessment job page = JObj [(''rendered'', JBool (pg_rendered page)), (''source_kind'', JStr (j_source_kind job)),
     (''injection_indicators'', json_texts (pg_indicators page))]"

definition assessed_trust :: "page_record \<Rightarrow> int" where
  "assessed_trust page = (if pg_indicators page \<noteq> [] then 10 else 70)"

definition assessed_state :: "page_record \<Rightarrow> lifecycle \<Rightarrow> lifecycle" where
  "assessed_state page current =
     (if pg_indicators page \<noteq> [] then Quarantined else if current = Published then Published else Validated)"

definition object_key :: "job \<Rightarrow> page_record \<Rightarrow> string" where
  "object_key job page = ''snapshots/'' @ j_source job @ ''/'' @ sha256 (pg_html page) @ ''.json''"

record store_ids =
  si_snapshot :: string
  si_document :: string

record page_reference =
  pr_document :: string
  pr_snapshot :: string

definition same_snapshot :: "job \<Rightarrow> page_record \<Rightarrow> snapshot_row \<Rightarrow> bool" where
  "same_snapshot job page s \<longleftrightarrow> sn_source s = j_source job \<and> sn_url s = pg_url page \<and> sn_hash s = sha256 (pg_html page)"

definition new_snapshot :: "store_ids \<Rightarrow> job \<Rightarrow> page_record \<Rightarrow> snapshot_row" where
  "new_snapshot ids job page =
     \<lparr>sn_id = si_snapshot ids, sn_source = j_source job, sn_job = j_id job, sn_url = pg_url page,
      sn_object = object_key job page, sn_hash = sha256 (pg_html page), sn_type = pg_content_type page,
      sn_status = pg_status page, sn_trust = trust_assessment job page\<rparr>"

definition new_document :: "store_ids \<Rightarrow> job \<Rightarrow> page_record \<Rightarrow> document_row" where
  "new_document ids job page =
     \<lparr>dc_id = si_document ids, dc_product = j_product job, dc_source = j_source job, dc_snapshot = si_snapshot ids,
      dc_title = or_else (pg_title page) (pg_url page), dc_url = pg_url page, dc_body = pg_text page,
      dc_visibility = j_visibility job, dc_state = assessed_state page Draft, dc_trust = assessed_trust page,
      dc_indicators = json_texts (pg_indicators page), dc_revision = 1\<rparr>"

text \<open>The assessment of a page: the document it belongs to, its state and whether anything changed.\<close>

record assessment =
  as_document :: string
  as_snapshot :: string
  as_state :: lifecycle
  as_changed :: bool

definition insert_page :: "store_ids \<Rightarrow> job \<Rightarrow> page_record \<Rightarrow> database \<Rightarrow> assessment \<times> database" where
  "insert_page ids job page db =
     (\<lparr>as_document = si_document ids, as_snapshot = si_snapshot ids, as_state = assessed_state page Draft, as_changed = True\<rparr>,
      db\<lparr>db_snapshots := db_snapshots db @ [new_snapshot ids job page],
         db_documents := db_documents db @ [new_document ids job page]\<rparr>)"

definition same_document :: "job \<Rightarrow> string \<Rightarrow> document_row \<Rightarrow> bool" where
  "same_document job snapshot d \<longleftrightarrow>
     dc_product d = j_product job \<and> dc_source d = j_source job \<and> dc_snapshot d = snapshot"

definition reassess_page ::
    "(string \<Rightarrow> json option) \<Rightarrow> job \<Rightarrow> page_record \<Rightarrow> snapshot_row \<Rightarrow> database \<Rightarrow> (fault + assessment) \<times> database" where
  "reassess_page decode job page s db =
     (let trust = trust_assessment job page; reassessed = sn_trust s \<noteq> trust;
          db1 = db\<lparr>db_snapshots := update_where (\<lambda>r. sn_id r = sn_id s \<and> sn_trust r \<noteq> trust)
            (\<lambda>r. r\<lparr>sn_trust := trust\<rparr>) (db_snapshots db)\<rparr>
      in case find (same_document job (sn_id s)) (db_documents db) of
          None \<Rightarrow> (Inl OtherFault, db1)
        | Some d \<Rightarrow>
            let st = assessed_state page (dc_state d);
                stale = dc_state d \<noteq> st \<or> dc_trust d \<noteq> assessed_trust page
                  \<or> stored_indicator_names decode (dc_indicators d) \<noteq> Some (pg_indicators page)
            in (Inr \<lparr>as_document = dc_id d, as_snapshot = sn_id s, as_state = st, as_changed = reassessed \<or> stale\<rparr>,
                if stale then db1\<lparr>db_documents := update_where (\<lambda>r. dc_id r = dc_id d)
                  (\<lambda>r. r\<lparr>dc_state := st, dc_trust := assessed_trust page, dc_indicators := json_texts (pg_indicators page),
                     dc_revision := dc_revision r + 1\<rparr>) (db_documents db1)\<rparr>
                else db1))"

definition link_page :: "job \<Rightarrow> page_record \<Rightarrow> assessment \<Rightarrow> database \<Rightarrow> database" where
  "link_page job page a db =
     (let link = \<lparr>lk_job = j_id job, lk_document = as_document a, lk_changed = as_changed a, lk_state = as_state a,
            lk_trust = assessed_trust page, lk_indicators = json_texts (pg_indicators page)\<rparr>;
          same = (\<lambda>l. lk_job l = j_id job \<and> lk_document l = as_document a)
      in db\<lparr>db_links := (if list_ex same (db_links db) then update_where same (\<lambda>_. link) (db_links db)
           else db_links db @ [link])\<rparr>)"

definition store_transaction ::
    "(string \<Rightarrow> json option) \<Rightarrow> store_ids \<Rightarrow> job \<Rightarrow> page_record \<Rightarrow> database \<Rightarrow> (fault + assessment) \<times> database" where
  "store_transaction decode ids job page db =
     (case find (same_snapshot job page) (db_snapshots db) of
        None \<Rightarrow> (case insert_page ids job page db of (a, db') \<Rightarrow> (Inr a, link_page job page a db'))
      | Some s \<Rightarrow>
          (case reassess_page decode job page s db of
             (Inl e, db') \<Rightarrow> (Inl e, db')
           | (Inr a, db') \<Rightarrow> (Inr a, link_page job page a db')))"

definition source_available :: "database \<Rightarrow> job \<Rightarrow> bool" where
  "source_available db job \<longleftrightarrow> list_ex (\<lambda>s. so_id s = j_source job \<and> so_organisation s = j_organisation job
     \<and> so_product s = j_product job) (db_sources db)"

text \<open>The snapshot file is written before the transaction; a failed write ends the operation.\<close>

definition store_page ::
    "bool \<Rightarrow> (string \<Rightarrow> json option) \<Rightarrow> store_ids \<Rightarrow> job \<Rightarrow> page_record \<Rightarrow> database
      \<Rightarrow> (fault + bool \<times> page_reference) \<times> database" where
  "store_page written decode ids job page db =
     (if \<not> written then (Inl OtherFault, db)
      else (case lock_job_lease db job of
          Inl e \<Rightarrow> (Inl e, db)
        | Inr _ \<Rightarrow>
            if \<not> source_available db job then (Inl OtherFault, db)
            else (case store_transaction decode ids job page db of
                (Inl e, _) \<Rightarrow> (Inl e, db)
              | (Inr a, db') \<Rightarrow> (Inr (as_changed a, \<lparr>pr_document = as_document a, pr_snapshot = as_snapshot a\<rparr>), db'))))"

section \<open>Completing and failing\<close>

definition sorted_diagnostics :: "ingestion_diagnostic list \<Rightarrow> ingestion_diagnostic list" where
  "sorted_diagnostics ds =
     js_sort (cmp_by (\<lambda>d. dg_code d @ [nul] @ nullish (dg_url d) [] @ [nul] @ nullish (dg_redirected d) [] @ [nul] @ dg_message d)) ds"

definition json_diagnostic :: "ingestion_diagnostic \<Rightarrow> json" where
  "json_diagnostic d = JObj [(''code'', JStr (dg_code d)), (''severity'', JStr (severity_text (dg_severity d))),
     (''message'', JStr (dg_message d)),
     (''url'', case dg_url d of None \<Rightarrow> JUndef | Some u \<Rightarrow> JStr u),
     (''redirectedTo'', case dg_redirected d of None \<Rightarrow> JUndef | Some u \<Rightarrow> JStr u)]"

definition run_diagnostics :: "bool \<Rightarrow> ingestion_result \<Rightarrow> int \<Rightarrow> ingestion_diagnostic list \<Rightarrow> json" where
  "run_diagnostics partial r failed items =
     JObj [(''partial'', JBool partial),
       (''counts'', JObj [(''discovered'', JNum (ir_discovered r)), (''fetched'', JNum (int (length (ir_pages r)))),
          (''failed'', JNum failed), (''skipped'', JNum (ir_skipped r)), (''redirected'', JNum (ir_redirected r))]),
       (''items'', JArr (map json_diagnostic items))]"

definition incomplete :: "ingestion_result \<Rightarrow> bool" where
  "incomplete r \<longleftrightarrow> 0 < ir_failed r \<or> 0 < ir_skipped r"

definition quarantines :: "ingestion_result \<Rightarrow> bool" where
  "quarantines r \<longleftrightarrow> incomplete r \<or> list_ex (\<lambda>p. pg_indicators p \<noteq> []) (ir_pages r)"

definition assess_source :: "bool \<Rightarrow> int \<Rightarrow> source_row \<Rightarrow> source_row" where
  "assess_source quarantined changed s =
     (let target = (if quarantined then Quarantined else if so_state s = Published then Published else Validated)
      in if so_state s \<noteq> target \<or> 0 < changed then s\<lparr>so_state := target, so_revision := so_revision s + 1\<rparr> else s)"

definition completed_row :: "ingestion_result \<Rightarrow> int \<Rightarrow> int \<Rightarrow> job_row \<Rightarrow> job_row" where
  "completed_row result changed now r =
     r\<lparr>jr_state := Review,
       jr_counts := \<lparr>ct_discovered = ir_discovered result, ct_fetched = int (length (ir_pages result)), ct_changed = changed,
         ct_failed = ir_failed result, ct_skipped = ir_skipped result, ct_redirected = ir_redirected result\<rparr>,
       jr_diagnostics := run_diagnostics (incomplete result) result (ir_failed result) (sorted_diagnostics (ir_diagnostics result)),
       jr_error := None, jr_owner := [], jr_expires := None, jr_finished := Some now\<rparr>"

definition complete_job :: "job \<Rightarrow> ingestion_result \<Rightarrow> int \<Rightarrow> database \<Rightarrow> (fault + unit) \<times> database" where
  "complete_job job result changed db =
     (case lock_job_lease db job of
        Inl e \<Rightarrow> (Inl e, db)
      | Inr _ \<Rightarrow>
          let held = holds_lease (db_now db) (j_id job) (j_lease_owner job)
          in if length (filter held (db_jobs db)) \<noteq> 1
             then (Inl (lease_lost ''The crawler no longer owns this job lease; completion was rolled back.''), db)
             else (Inr (), db\<lparr>
               db_sources := update_where (\<lambda>s. so_id s = j_source job) (assess_source (quarantines result) changed) (db_sources db),
               db_jobs := update_where held (completed_row result changed (db_now db)) (db_jobs db)\<rparr>))"

definition job_failure :: "fault \<Rightarrow> crawler_error" where
  "job_failure e =
     (case e of
        JobFault c \<Rightarrow> c\<lparr>ce_message := take 1000 (ce_message c)\<rparr>
      | RunFault c _ \<Rightarrow> c\<lparr>ce_message := take 1000 (ce_message c)\<rparr>
      | OtherFault \<Rightarrow> job_error ''crawler_internal_error''
          ''The ingestion worker failed unexpectedly. Review the worker logs and retry the job.'')"

definition failed_ingestion_result :: "fault \<Rightarrow> ingestion_result" where
  "failed_ingestion_result e =
     (case e of
        RunFault _ r \<Rightarrow> r
      | _ \<Rightarrow> \<lparr>ir_pages = [], ir_discovered = 0, ir_failed = 1, ir_skipped = 0, ir_redirected = 0, ir_diagnostics = []\<rparr>)"

definition failed_row :: "fault \<Rightarrow> int \<Rightarrow> job_row \<Rightarrow> job_row" where
  "failed_row e now r =
     (let failure = job_failure e; result = failed_ingestion_result e; failed = max 1 (ir_failed result);
          items = sorted_diagnostics (ir_diagnostics result @
            [\<lparr>dg_code = ce_code failure, dg_severity = Error, dg_message = ce_message failure, dg_url = None, dg_redirected = None\<rparr>])
      in r\<lparr>jr_state := Failed,
        jr_counts := (jr_counts r)\<lparr>ct_discovered := ir_discovered result, ct_fetched := int (length (ir_pages result)),
          ct_failed := failed, ct_skipped := ir_skipped result, ct_redirected := ir_redirected result\<rparr>,
        jr_diagnostics := run_diagnostics True result failed items, jr_error := Some failure,
        jr_owner := [], jr_expires := None, jr_finished := Some now\<rparr>)"

definition fail_job :: "job \<Rightarrow> fault \<Rightarrow> database \<Rightarrow> bool \<times> database" where
  "fail_job job e db =
     (let held = holds_lease (db_now db) (j_id job) (j_lease_owner job)
      in (length (filter held (db_jobs db)) = 1,
          db\<lparr>db_jobs := update_where held (failed_row e (db_now db)) (db_jobs db)\<rparr>))"

section \<open>What storing a page leaves\<close>

lemma text_items_map: "text_items (map JStr ts) = Some ts"
  by (induction ts) auto

lemma stored_json_texts [simp]: "stored_indicator_names decode (json_texts ts) = Some ts"
  by (simp add: stored_indicator_names_def json_texts_def text_items_map)

lemma assessed_state_idem [simp]: "assessed_state page (assessed_state page st) = assessed_state page st"
  by (simp add: assessed_state_def)

lemma find_update_where:
  "find p rows = Some x \<Longrightarrow> (\<And>r. p (f r) = p r) \<Longrightarrow> find p (update_where q f rows) = Some (if q x then f x else x)"
  by (induction rows) (auto simp: update_where_def split: if_splits)

lemma find_append: "find p (xs @ ys) = (case find p xs of None \<Rightarrow> find p ys | Some x \<Rightarrow> Some x)"
  by (induction xs) auto

text \<open>The stored rows a page has been assessed into.\<close>

definition settled :: "(string \<Rightarrow> json option) \<Rightarrow> job \<Rightarrow> page_record \<Rightarrow> assessment \<Rightarrow> database \<Rightarrow> bool" where
  "settled decode job page a db \<longleftrightarrow> (\<exists>s d. find (same_snapshot job page) (db_snapshots db) = Some s
     \<and> sn_id s = as_snapshot a \<and> sn_trust s = trust_assessment job page
     \<and> (\<forall>r\<in>set (db_snapshots db). sn_id r = sn_id s \<longrightarrow> sn_trust r = trust_assessment job page)
     \<and> find (same_document job (sn_id s)) (db_documents db) = Some d \<and> dc_id d = as_document a
     \<and> dc_state d = as_state a \<and> assessed_state page (as_state a) = as_state a \<and> dc_trust d = assessed_trust page
     \<and> stored_indicator_names decode (dc_indicators d) = Some (pg_indicators page))"

lemma link_page_tables [simp]:
  "db_snapshots (link_page job page a db) = db_snapshots db" "db_documents (link_page job page a db) = db_documents db"
  by (simp_all add: link_page_def Let_def)

lemma settled_link [simp]: "settled decode job page a (link_page job page b db) = settled decode job page a db"
  by (simp add: settled_def)

lemma store_settles:
  assumes "store_transaction decode ids job page db = (Inr a, db')"
    and fresh: "si_snapshot ids \<notin> dc_snapshot ` set (db_documents db)" "si_snapshot ids \<notin> sn_id ` set (db_snapshots db)"
  shows "settled decode job page a db'"
proof (cases "find (same_snapshot job page) (db_snapshots db)")
  case None
  let ?s = "new_snapshot ids job page" and ?d = "new_document ids job page"
  have db': "db_snapshots db' = db_snapshots db @ [?s]" "db_documents db' = db_documents db @ [?d]"
      and a: "as_document a = si_document ids" "as_snapshot a = si_snapshot ids" "as_state a = assessed_state page Draft"
    using assms(1) None by (auto simp: store_transaction_def insert_page_def)
  have "find (same_document job (si_snapshot ids)) (db_documents db) = None"
    using fresh(1) by (force simp: find_None_iff same_document_def)
  moreover have "same_snapshot job page ?s" "same_document job (si_snapshot ids) ?d"
    by (simp_all add: same_snapshot_def new_snapshot_def same_document_def new_document_def)
  ultimately have "find (same_snapshot job page) (db_snapshots db') = Some ?s"
      "find (same_document job (sn_id ?s)) (db_documents db') = Some ?d"
    using None by (simp_all add: db' find_append new_snapshot_def)
  moreover have "\<forall>r\<in>set (db_snapshots db'). sn_id r = sn_id ?s \<longrightarrow> sn_trust r = trust_assessment job page"
    using fresh(2) by (auto simp: db' new_snapshot_def) (metis imageI)
  ultimately show ?thesis
    unfolding settled_def a by (auto simp: new_snapshot_def new_document_def)
next
  case (Some s)
  let ?trust = "trust_assessment job page"
  let ?f = "\<lambda>r. r\<lparr>sn_trust := ?trust\<rparr>" and ?q = "\<lambda>r. sn_id r = sn_id s \<and> sn_trust r \<noteq> ?trust"
  have snap: "find (same_snapshot job page) (update_where ?q ?f (db_snapshots db)) = Some (if ?q s then ?f s else s)"
    using Some by (rule find_update_where) (simp add: same_snapshot_def)
  obtain db1 where re: "reassess_page decode job page s db = (Inr a, db1)" "db' = link_page job page a db1"
    using assms(1) Some by (auto simp: store_transaction_def split: sum.splits prod.splits)
  then obtain d where d: "find (same_document job (sn_id s)) (db_documents db) = Some d"
    by (auto simp: reassess_page_def Let_def split: option.splits)
  have doc: "find (same_document job (sn_id s)) (update_where (\<lambda>r. dc_id r = dc_id d)
      (\<lambda>r. r\<lparr>dc_state := st, dc_trust := t, dc_indicators := i, dc_revision := dc_revision r + 1\<rparr>) (db_documents db))
    = Some (d\<lparr>dc_state := st, dc_trust := t, dc_indicators := i, dc_revision := dc_revision d + 1\<rparr>)" for st t i
    using find_update_where [OF d, of _ "\<lambda>r. dc_id r = dc_id d"] by (simp add: same_document_def)
  let ?st = "assessed_state page (dc_state d)"
  define stale where "stale \<longleftrightarrow> dc_state d \<noteq> ?st \<or> dc_trust d \<noteq> assessed_trust page
    \<or> stored_indicator_names decode (dc_indicators d) \<noteq> Some (pg_indicators page)"
  have a: "as_document a = dc_id d" "as_snapshot a = sn_id s" "as_state a = ?st"
    using re(1) d by (auto simp: reassess_page_def Let_def)
  have snaps: "db_snapshots db1 = update_where ?q ?f (db_snapshots db)"
    using re(1) d by (auto simp: reassess_page_def Let_def)
  have docs: "db_documents db1 = (if stale then update_where (\<lambda>r. dc_id r = dc_id d)
      (\<lambda>r. r\<lparr>dc_state := ?st, dc_trust := assessed_trust page, dc_indicators := json_texts (pg_indicators page),
         dc_revision := dc_revision r + 1\<rparr>) (db_documents db) else db_documents db)"
    using re(1) d by (auto simp: reassess_page_def Let_def stale_def)
  define s' where "s' = (if ?q s then ?f s else s)"
  have s': "find (same_snapshot job page) (db_snapshots db1) = Some s'" "sn_id s' = sn_id s" "sn_trust s' = ?trust"
    using snap snaps by (auto simp: s'_def)
  have "\<exists>d'. find (same_document job (sn_id s)) (db_documents db1) = Some d' \<and> dc_id d' = dc_id d \<and> dc_state d' = ?st
     \<and> dc_trust d' = assessed_trust page \<and> stored_indicator_names decode (dc_indicators d') = Some (pg_indicators page)"
    using docs doc d by (cases stale) (auto simp: stale_def)
  moreover have "\<forall>r\<in>set (db_snapshots db1). sn_id r = sn_id s \<longrightarrow> sn_trust r = ?trust"
    unfolding snaps set_update_where by auto
  ultimately show ?thesis
    unfolding re(2) settled_link settled_def using s' a by auto
qed

lemma settled_unchanged:
  assumes "settled decode job page a db"
  shows "\<exists>db'. store_transaction decode ids job page db = (Inr (a\<lparr>as_changed := False\<rparr>), db')
    \<and> db_snapshots db' = db_snapshots db \<and> db_documents db' = db_documents db"
proof -
  from assms obtain s d where *: "find (same_snapshot job page) (db_snapshots db) = Some s"
      "sn_id s = as_snapshot a" "sn_trust s = trust_assessment job page"
      "find (same_document job (sn_id s)) (db_documents db) = Some d" "dc_id d = as_document a"
      "dc_state d = as_state a" "assessed_state page (as_state a) = as_state a" "dc_trust d = assessed_trust page"
      "stored_indicator_names decode (dc_indicators d) = Some (pg_indicators page)"
    by (auto simp: settled_def)
  have "filter (\<lambda>r. sn_id r = sn_id s \<and> sn_trust r \<noteq> trust_assessment job page) (db_snapshots db) = []"
    using assms *(1,2) by (auto simp: settled_def filter_empty_conv)
  then have same: "db\<lparr>db_snapshots := update_where (\<lambda>r. sn_id r = sn_id s \<and> sn_trust r \<noteq> trust_assessment job page)
      (\<lambda>r. r\<lparr>sn_trust := trust_assessment job page\<rparr>) (db_snapshots db)\<rparr> = db"
    by (simp add: update_where_none)
  have "a\<lparr>as_changed := False\<rparr> = \<lparr>as_document = dc_id d, as_snapshot = sn_id s, as_state = assessed_state page (dc_state d),
      as_changed = False\<rparr>"
    using * by (cases a) simp
  then have "reassess_page decode job page s db = (Inr (a\<lparr>as_changed := False\<rparr>), db)"
    unfolding reassess_page_def Let_def same *(4) option.case using *(3,6-9) by simp
  then show ?thesis
    using *(1) by (auto simp: store_transaction_def)
qed

lemma store_transaction_jobs:
  "store_transaction decode ids job page db = (r, db') \<Longrightarrow>
     db_jobs db' = db_jobs db \<and> db_now db' = db_now db \<and> db_sources db' = db_sources db"
  by (auto simp: store_transaction_def insert_page_def reassess_page_def link_page_def Let_def
      split: option.splits sum.splits prod.splits if_splits)

lemma link_page_linked:
  "\<exists>l\<in>set (db_links (link_page job page a db)). lk_job l = j_id job \<and> lk_document l = as_document a
     \<and> lk_state l = as_state a \<and> lk_changed l = as_changed a"
proof -
  let ?link = "\<lparr>lk_job = j_id job, lk_document = as_document a, lk_changed = as_changed a, lk_state = as_state a,
    lk_trust = assessed_trust page, lk_indicators = json_texts (pg_indicators page)\<rparr>"
  have "?link \<in> set (db_links (link_page job page a db))"
    by (auto simp: link_page_def Let_def set_update_where list_ex_iff)
  then show ?thesis by (rule bexI [rotated]) simp
qed

lemma store_transaction_linked:
  "store_transaction decode ids job page db = (Inr a, db') \<Longrightarrow>
     \<exists>l\<in>set (db_links db'). lk_job l = j_id job \<and> lk_document l = as_document a
       \<and> lk_state l = as_state a \<and> lk_changed l = as_changed a"
  using link_page_linked by (auto simp: store_transaction_def split: option.splits sum.splits prod.splits)

text \<open>
  A stored page is linked to its job with the state of its assessment, which is quarantined
  exactly when the page has injection indicators; its document has that state too. Storing the same
  page again reports no change, refers to the same rows and leaves snapshots and documents alone.
\<close>

theorem store_page_settles:
  assumes "store_page True decode ids job page db = (Inr (changed, ref), db')"
    and "si_snapshot ids \<notin> dc_snapshot ` set (db_documents db)" "si_snapshot ids \<notin> sn_id ` set (db_snapshots db)"
  shows "(\<exists>l\<in>set (db_links db'). lk_job l = j_id job \<and> lk_document l = pr_document ref \<and> lk_changed l = changed
        \<and> (lk_state l = Quarantined \<longleftrightarrow> pg_indicators page \<noteq> []))
    \<and> (\<exists>d\<in>set (db_documents db'). dc_id d = pr_document ref \<and> (dc_state d = Quarantined \<longleftrightarrow> pg_indicators page \<noteq> []))
    \<and> (\<forall>ids'. \<exists>db''. store_page True decode ids' job page db' = (Inr (False, ref), db'')
        \<and> db_snapshots db'' = db_snapshots db' \<and> db_documents db'' = db_documents db')"
proof -
  from assms(1) obtain a where a: "store_transaction decode ids job page db = (Inr a, db')" "changed = as_changed a"
      "ref = \<lparr>pr_document = as_document a, pr_snapshot = as_snapshot a\<rparr>"
    and pre: "lock_job_lease db job = Inr ()" "source_available db job"
    by (auto simp: store_page_def split: sum.splits if_splits prod.splits)
  have settled: "settled decode job page a db'"
    using a(1) assms(2,3) by (rule store_settles)
  then obtain d where d: "d \<in> set (db_documents db')" "dc_id d = as_document a" "dc_state d = as_state a"
      "assessed_state page (as_state a) = as_state a"
    by (auto simp: settled_def find_Some_iff dest: nth_mem)
  have quarantine: "as_state a = Quarantined \<longleftrightarrow> pg_indicators page \<noteq> []"
    using d(4) unfolding assessed_state_def by (auto split: if_splits)
  have "lock_job_lease db' job = Inr ()" "source_available db' job"
    using pre store_transaction_jobs [OF a(1)] by (simp_all add: lock_job_lease_def owned_def source_available_def split: if_splits)
  then have again: "\<exists>db''. store_page True decode ids' job page db' = (Inr (False, ref), db'')
        \<and> db_snapshots db'' = db_snapshots db' \<and> db_documents db'' = db_documents db'" for ids'
    using settled_unchanged [OF settled, of ids'] a(3) by (auto simp: store_page_def)
  show ?thesis
    using store_transaction_linked [OF a(1)] d quarantine again a(2,3) by auto
qed

definition flagged_page :: page_record where
  "flagged_page = \<lparr>pg_url = ''https://docs.example/a'', pg_title = [], pg_text = ''x'', pg_html = ''x'', pg_content_type = ''text/html'',
     pg_status = 200, pg_indicators = [''hidden_content''], pg_rendered = False\<rparr>"

definition store_db :: database where
  "store_db = \<lparr>db_now = 0, db_jobs = [\<lparr>jr_id = ''job1'', jr_organisation = ''org'', jr_product = ''product'', jr_source = ''source'',
       jr_state = Running, jr_attempt = 1, jr_counts = no_counts, jr_diagnostics = JObj [], jr_owner = ''w1'', jr_expires = Some 60000,
       jr_heartbeat = Some 0, jr_queued = 0, jr_started = Some 0, jr_finished = None, jr_error = None\<rparr>],
     db_sources = [\<lparr>so_id = ''source'', so_organisation = ''org'', so_product = ''product'', so_name = ''Docs'',
       so_kind = ''upload'', so_location = ''guide.md'', so_visibility = Private, so_state = Draft, so_revision = 1\<rparr>],
     db_snapshots = [], db_documents = [], db_links = []\<rparr>"

theorem store_page_settles_witness:
  "\<exists>ref db' l. store_page True (\<lambda>_. None) \<lparr>si_snapshot = ''s1'', si_document = ''d1''\<rparr> sample_job flagged_page store_db = (Inr (True, ref), db')
     \<and> l \<in> set (db_links db') \<and> lk_document l = pr_document ref \<and> lk_state l = Quarantined"
proof -
  have "lock_job_lease store_db sample_job = Inr ()" "source_available store_db sample_job"
    by code_simp+
  moreover have "find (same_snapshot sample_job flagged_page) (db_snapshots store_db) = None"
    by (simp add: store_db_def)
  ultimately obtain ref db' where st: "store_page True (\<lambda>_. None) \<lparr>si_snapshot = ''s1'', si_document = ''d1''\<rparr>
      sample_job flagged_page store_db = (Inr (True, ref), db')"
    by (simp add: store_page_def store_transaction_def insert_page_def)
  have "\<exists>l\<in>set (db_links db'). lk_document l = pr_document ref \<and> (lk_state l = Quarantined \<longleftrightarrow> pg_indicators flagged_page \<noteq> [])"
    using store_page_settles [OF st] by (auto simp: store_db_def)
  then show ?thesis
    using st by (auto simp: flagged_page_def)
qed

end
