(* ===== verification/JobLease.thy ===== *)
theory JobLease
  imports JobStore
begin

text \<open>
  The life of the crawl jobs under many workers: the operations of a lease holder behind one interface,
  the step relation of the database, its invariant, and what a lease guarantees to its holder.
\<close>

section \<open>The operations of a lease holder\<close>

datatype operation =
    Heartbeat int
  | Store bool "string \<Rightarrow> json option" store_ids page_record
  | Complete ingestion_result int
  | Fail fault

fun ok :: "'e + 'a \<Rightarrow> bool" where
  "ok (Inl e) = False"
| "ok (Inr a) = True"

fun run_operation :: "operation \<Rightarrow> job \<Rightarrow> database \<Rightarrow> bool \<times> database" where
  "run_operation (Heartbeat duration) job db =
     (case heartbeat_job job duration db of (r, db') \<Rightarrow> (r = Inr True, db'))"
| "run_operation (Store written decode ids page) job db = apfst ok (store_page written decode ids job page db)"
| "run_operation (Complete result changed) job db = apfst ok (complete_job job result changed db)"
| "run_operation (Fail e) job db = fail_job job e db"

text \<open>A row as its holder leaves it: still leased to the same owner, or released.\<close>

definition leased_or_released :: "string \<Rightarrow> job_row \<Rightarrow> bool" where
  "leased_or_released owner r \<longleftrightarrow>
     jr_state r = Running \<and> jr_owner r = owner \<and> jr_expires r \<noteq> None
     \<or> jr_state r \<in> {Review, Failed} \<and> jr_owner r = [] \<and> jr_expires r = None \<and> jr_finished r \<noteq> None"

definition row_effect :: "database \<Rightarrow> job \<Rightarrow> job_row \<Rightarrow> job_row \<Rightarrow> bool" where
  "row_effect db job r r' \<longleftrightarrow> r' = r
     \<or> holds_lease (db_now db) (j_id job) (j_lease_owner job) r \<and> jr_id r' = jr_id r \<and> leased_or_released (j_lease_owner job) r'"

locale lease_guarded =
  fixes act :: "job \<Rightarrow> database \<Rightarrow> bool \<times> database"
  assumes refused: "\<not> owned db job \<Longrightarrow> act job db = (False, db)"
    and rows: "list_all2 (row_effect db job) (db_jobs db) (db_jobs (snd (act job db)))"
    and clock: "db_now (snd (act job db)) = db_now db"
begin

lemma same_ids: "map jr_id (db_jobs (snd (act job db))) = map jr_id (db_jobs db)"
  using rows [of db job] by (auto simp: row_effect_def list_all2_conv_all_nth intro!: nth_equalityI)

text \<open>A row not leased to the caller stays as it is.\<close>

lemma other_row:
  assumes "r \<in> set (db_jobs db)" "\<not> holds_lease (db_now db) (j_id job) (j_lease_owner job) r"
  shows "r \<in> set (db_jobs (snd (act job db)))"
  using rows [of db job] assms by (auto simp: row_effect_def list_all2_conv_all_nth in_set_conv_nth)

lemma new_row:
  assumes "r' \<in> set (db_jobs (snd (act job db)))"
  shows "\<exists>r \<in> set (db_jobs db). row_effect db job r r'"
proof -
  obtain i where i: "i < length (db_jobs (snd (act job db)))" "r' = db_jobs (snd (act job db)) ! i"
    using assms by (auto simp: in_set_conv_nth)
  then have "db_jobs db ! i \<in> set (db_jobs db)" "row_effect db job (db_jobs db ! i) r'"
    using rows [of db job] by (auto simp: list_all2_conv_all_nth)
  then show ?thesis by blast
qed

lemma other_owner:
  assumes "owned db other" "j_id other \<noteq> j_id job \<or> j_lease_owner other \<noteq> j_lease_owner job"
  shows "owned (snd (act job db)) other"
proof -
  from assms(1) obtain r where r: "r \<in> set (db_jobs db)" "holds_lease (db_now db) (j_id other) (j_lease_owner other) r"
    by (auto simp: owned_def list_ex_iff)
  then have "\<not> holds_lease (db_now db) (j_id job) (j_lease_owner job) r"
    using assms(2) by (auto simp: holds_lease_def)
  then show ?thesis
    using other_row [OF r(1)] r(2) by (auto simp: owned_def list_ex_iff clock)
qed

end

lemma held_none: "\<not> owned db job \<Longrightarrow> filter (holds_lease (db_now db) (j_id job) (j_lease_owner job)) (db_jobs db) = []"
  by (auto simp: owned_def list_ex_iff filter_empty_conv)

lemma rows_refl [simp]: "list_all2 (row_effect db job) rows rows"
  by (auto simp: row_effect_def intro!: list.rel_refl)

lemma rows_update:
  assumes "\<And>r. jr_id (f r) = jr_id r" "\<And>r. jr_owner r = j_lease_owner job \<Longrightarrow> jr_state r = Running \<Longrightarrow> leased_or_released (j_lease_owner job) (f r)"
  shows "list_all2 (row_effect db job) rows (update_where (holds_lease (db_now db) (j_id job) (j_lease_owner job)) f rows)"
  using assms by (auto simp: update_where_def row_effect_def list_all2_conv_all_nth holds_lease_def)

lemma store_page_jobs: "db_jobs (snd (store_page w decode ids job page db)) = db_jobs db
    \<and> db_now (snd (store_page w decode ids job page db)) = db_now db"
  by (auto simp: store_page_def split: sum.splits prod.splits dest: store_transaction_jobs)

interpretation guarded: lease_guarded "run_operation opn" for opn
proof
  fix db job
  show "\<not> owned db job \<Longrightarrow> run_operation opn job db = (False, db)"
    by (cases opn) (auto simp: heartbeat_job_def store_page_def complete_job_def fail_job_def lock_job_lease_def
        held_none update_where_none split: sum.splits)
  show "list_all2 (row_effect db job) (db_jobs db) (db_jobs (snd (run_operation opn job db)))"
    by (cases opn) (auto simp: heartbeat_job_def complete_job_def fail_job_def store_page_jobs Let_def
        completed_row_def failed_row_def leased_or_released_def split: sum.splits intro!: rows_update)
  show "db_now (snd (run_operation opn job db)) = db_now db"
    by (cases opn) (auto simp: heartbeat_job_def complete_job_def fail_job_def store_page_jobs Let_def split: sum.splits)
qed

section \<open>The steps of the database\<close>

text \<open>
  Besides the crawler's own operations, time passes, the service enqueues new jobs and settles
  jobs that no worker runs.
\<close>

datatype db_event = Tick | Enqueue string | Settle string job_state | Claim string "string option" | Act job bool

inductive db_step :: "database \<Rightarrow> db_event \<Rightarrow> database \<Rightarrow> bool" where
  tick: "0 \<le> d \<Longrightarrow> db_step db Tick (db\<lparr>db_now := db_now db + d\<rparr>)"
| enqueue: "jr_state r = Queued \<Longrightarrow> jr_owner r = [] \<Longrightarrow> jr_expires r = None \<Longrightarrow> jr_id r \<notin> jr_id ` set (db_jobs db)
    \<Longrightarrow> db_step db (Enqueue (jr_id r)) (db\<lparr>db_jobs := db_jobs db @ [r]\<rparr>)"
| settle: "st \<in> {Succeeded, Cancelled} \<Longrightarrow> db_step db (Settle i st)
    (db\<lparr>db_jobs := update_where (\<lambda>r. jr_id r = i \<and> jr_state r \<noteq> Running) (\<lambda>r. r\<lparr>jr_state := st\<rparr>) (db_jobs db)\<rparr>)"
| claim: "claim_job owner duration locked db = (Inr got, db')
    \<Longrightarrow> db_step db (Claim (take 255 (trim owner)) (map_option jr_id (claim_candidate locked db))) db'"
| act: "run_operation opn job db = (b, db') \<Longrightarrow> db_step db (Act job b) db'"

inductive_cases db_step_cases:
  "db_step db Tick db'" "db_step db (Enqueue i) db'" "db_step db (Settle i st) db'"
  "db_step db (Claim owner c) db'" "db_step db (Act job b) db'"

inductive db_steps :: "database \<Rightarrow> db_event list \<Rightarrow> database \<Rightarrow> bool" where
  none: "db_steps db [] db"
| more: "db_step db e db' \<Longrightarrow> db_steps db' es db'' \<Longrightarrow> db_steps db (e # es) db''"

inductive_simps db_steps_simps [simp]: "db_steps db [] db'" "db_steps db (e # es) db'"

inductive reachable :: "database \<Rightarrow> bool" where
  start: "db_jobs db = [] \<Longrightarrow> reachable db"
| step: "reachable db \<Longrightarrow> db_step db e db' \<Longrightarrow> reachable db'"

definition row_ok :: "job_row \<Rightarrow> bool" where
  "row_ok r \<longleftrightarrow> (if jr_state r = Running then jr_owner r \<noteq> [] \<and> jr_expires r \<noteq> None
     else jr_owner r = [] \<and> jr_expires r = None) \<and> (jr_state r \<in> {Review, Failed} \<longrightarrow> jr_finished r \<noteq> None)"

definition jobs_ok :: "database \<Rightarrow> bool" where
  "jobs_ok db \<longleftrightarrow> distinct (map jr_id (db_jobs db)) \<and> list_all row_ok (db_jobs db)"

lemma valid_lease_owner_Inr: "valid_lease_owner v = Inr o' \<longleftrightarrow> trim v \<noteq> [] \<and> o' = take 255 (trim v)"
  by (auto simp: valid_lease_owner_def)

lemma claim_candidate_Some:
  assumes "claim_candidate locked db = Some c"
  shows "c \<in> set (db_jobs db)" and "claimable locked (db_now db) c"
    and "\<And>r. r \<in> set (db_jobs db) \<Longrightarrow> claimable locked (db_now db) r \<Longrightarrow> (jr_queued c, jr_id c) \<le> (jr_queued r, jr_id r)"
proof -
  let ?key = "\<lambda>r. (jr_queued r, jr_id r)"
  let ?xs = "js_sort (cmp_by ?key) (filter (claimable locked (db_now db)) (db_jobs db))"
  from assms obtain cs where cs: "?xs = c # cs"
    by (auto simp: claim_candidate_def split: list.splits)
  have elems: "set ?xs = {r \<in> set (db_jobs db). claimable locked (db_now db) r}"
    by (simp only: set_js_sort set_filter)
  then show "c \<in> set (db_jobs db)" "claimable locked (db_now db) c"
    using cs by auto
  have "sorted_wrt (\<lambda>x y. cmp_by ?key x y \<le> 0) ?xs"
    by (rule comparator.sort_sorted [OF comparator_cmp_by])
  then show "(jr_queued c, jr_id c) \<le> (jr_queued r, jr_id r)"
    if "r \<in> set (db_jobs db)" "claimable locked (db_now db) r" for r
    using cs elems that by (cases "r = c") (auto simp: cmp_by_le)
qed

lemma claim_candidate_None: "claim_candidate locked db = None \<longleftrightarrow> (\<forall>r\<in>set (db_jobs db). \<not> claimable locked (db_now db) r)"
proof -
  have "claim_candidate locked db = None \<longleftrightarrow> filter (claimable locked (db_now db)) (db_jobs db) = []"
    using set_js_sort [of "cmp_by (\<lambda>r. (jr_queued r, jr_id r))" "filter (claimable locked (db_now db)) (db_jobs db)"]
    by (auto simp: claim_candidate_def simp del: set_js_sort split: list.splits)
  then show ?thesis by (simp add: filter_empty_conv)
qed

text \<open>What a claim does to the rows.\<close>

lemma claim_job_rows:
  assumes "claim_job lease_owner duration locked db = (Inr got, db')"
  shows "db_now db' = db_now db" and "trim lease_owner \<noteq> []" and "1000 \<le> duration"
    and "db_jobs db' = (case claim_candidate locked db of
        None \<Rightarrow> db_jobs db
      | Some c \<Rightarrow> update_where (\<lambda>r. jr_id r = jr_id c) (claimed_row (take 255 (trim lease_owner)) duration (db_now db)) (db_jobs db))"
  using assms by (auto simp: claim_job_def valid_lease_owner_Inr check_duration_def Let_def
      split: sum.splits option.splits if_splits)

lemma take_trim_nonempty: "trim s \<noteq> [] \<Longrightarrow> take 255 (trim s) \<noteq> []"
  by simp

lemma distinct_update_where:
  "(\<And>r. jr_id (f r) = jr_id r) \<Longrightarrow> map jr_id (update_where p f rows) = map jr_id rows"
  by (auto simp: update_where_def)

lemma claimed_row_id [simp]: "jr_id (claimed_row owner duration now r) = jr_id r"
  by (simp add: claimed_row_def)

lemma step_jobs_ok: "db_step db e db' \<Longrightarrow> jobs_ok db \<Longrightarrow> jobs_ok db'"
proof (induction rule: db_step.induct)
  case (tick d db)
  then show ?case by (simp add: jobs_ok_def)
next
  case (enqueue r db)
  then show ?case by (auto simp: jobs_ok_def row_ok_def)
next
  case (settle st db i)
  then show ?case
    by (auto simp: jobs_ok_def distinct_update_where list_all_iff set_update_where row_ok_def split: if_splits)
next
  case (claim owner duration locked db got db')
  then show ?case
    using claim_job_rows [OF claim.hyps] take_trim_nonempty
    by (auto simp: jobs_ok_def distinct_update_where list_all_iff set_update_where row_ok_def claimed_row_def
        split: option.splits if_splits)
next
  case (act opn job db b db')
  then have db': "db' = snd (run_operation opn job db)" by simp
  have "row_ok r'" if r': "r' \<in> set (db_jobs db')" for r'
  proof -
    obtain r where "r \<in> set (db_jobs db)" "row_effect db job r r'"
      using guarded.new_row r' unfolding db' by blast
    then show ?thesis
      using act.prems by (auto simp: jobs_ok_def list_all_iff row_effect_def leased_or_released_def holds_lease_def row_ok_def)
  qed
  then show ?case
    using act.prems guarded.same_ids [of opn job db] by (simp add: jobs_ok_def db' list_all_iff)
qed

lemma reachable_jobs_ok: "reachable db \<Longrightarrow> jobs_ok db"
proof (induction rule: reachable.induct)
  case (start db)
  then show ?case by (simp add: jobs_ok_def)
next
  case (step db e db')
  then show ?case by (blast intro: step_jobs_ok)
qed

lemma steps_jobs_ok: "db_steps db es db' \<Longrightarrow> jobs_ok db \<Longrightarrow> jobs_ok db'"
  by (induction rule: db_steps.induct) (auto intro: step_jobs_ok)

lemma only_row: "jobs_ok db \<Longrightarrow> r \<in> set (db_jobs db) \<Longrightarrow> filter (\<lambda>x. jr_id x = jr_id r) (db_jobs db) = [r]"
proof -
  have "distinct (map jr_id rows) \<Longrightarrow> r \<in> set rows \<Longrightarrow> filter (\<lambda>x. jr_id x = jr_id r) rows = [r]" for rows
    by (induction rows) (auto simp: filter_empty_conv image_iff)
  then show "jobs_ok db \<Longrightarrow> r \<in> set (db_jobs db) \<Longrightarrow> ?thesis" by (simp add: jobs_ok_def)
qed

section \<open>What the lease guarantees\<close>

text \<open>
  Property C12. In every reachable database job identifiers are distinct, exactly the running jobs
  have an owner and an expiry, and jobs in review or failed are finished; so no two workers with
  different names hold the lease of one job at the same time.
\<close>

theorem lease_invariant:
  assumes "reachable db"
  shows "jobs_ok db \<and> (\<forall>job other. owned db job \<and> owned db other \<and> j_id job = j_id other \<longrightarrow> j_lease_owner job = j_lease_owner other)"
proof -
  have "distinct (map jr_id (db_jobs db))"
    using reachable_jobs_ok [OF assms] by (simp add: jobs_ok_def)
  then have unique: "r = r'" if "r \<in> set (db_jobs db)" "r' \<in> set (db_jobs db)" "jr_id r = jr_id r'" for r r'
    using that by (auto simp: distinct_map inj_on_def)
  have "j_lease_owner job = j_lease_owner other"
    if held: "owned db job" "owned db other" "j_id job = j_id other" for job other
  proof -
    obtain r r' where "r \<in> set (db_jobs db)" "holds_lease (db_now db) (j_id job) (j_lease_owner job) r"
        "r' \<in> set (db_jobs db)" "holds_lease (db_now db) (j_id other) (j_lease_owner other) r'"
      using held by (auto simp: owned_def list_ex_iff)
    moreover from this have "r = r'"
      using held by (intro unique) (auto simp: holds_lease_def)
    ultimately show ?thesis by (auto simp: holds_lease_def)
  qed
  then show ?thesis
    using reachable_jobs_ok [OF assms] by blast
qed

text \<open>
  Property C13. While a worker holds a lease that has not expired, no step of anyone else touches the
  job: no claim picks it, an operation on it in another name is refused and changes nothing in the database, and
  after any step other than the passing of time and its own operations the row of the job is, with its owner,
  its expiry and its heartbeat, the one it was, and the worker still holds it.
\<close>

theorem lease_kept:
  assumes "jobs_ok db" "owned db job" "db_step db e db'"
    and "e \<noteq> Tick" and "\<And>other b. e = Act other b \<Longrightarrow> j_id other \<noteq> j_id job \<or> j_lease_owner other \<noteq> j_lease_owner job"
  shows "owned db' job \<and> (\<forall>owner. e \<noteq> Claim owner (Some (j_id job)))
    \<and> filter (\<lambda>r. jr_id r = j_id job) (db_jobs db') = filter (\<lambda>r. jr_id r = j_id job) (db_jobs db)
    \<and> (\<forall>other b. e = Act other b \<and> j_id other = j_id job \<longrightarrow> \<not> b \<and> db' = db)"
proof -
  from assms(2) obtain r where r: "r \<in> set (db_jobs db)" "holds_lease (db_now db) (j_id job) (j_lease_owner job) r"
    by (auto simp: owned_def list_ex_iff)
  have unique: "r' = r" if "r' \<in> set (db_jobs db)" "jr_id r' = j_id job" for r'
    using assms(1) r that by (auto simp: jobs_ok_def distinct_map inj_on_def holds_lease_def)
  have not_claimed: "jr_id c \<noteq> j_id job" if "claim_candidate locked db = Some c" for locked c
    using claim_candidate_Some [OF that] unique [of c] r(2) by (auto simp: claimable_def holds_lease_def split: option.splits)
  have refused: "\<not> b \<and> db' = db" if "e = Act other b" "j_id other = j_id job" for other b
  proof -
    have "\<not> owned db other"
      using assms(5) [OF that(1)] that(2) unique r(2) by (auto simp: owned_def list_ex_iff holds_lease_def)
    then show ?thesis using assms(3) guarded.refused that(1) by (auto elim: db_step_cases)
  qed
  have kept: "r \<in> set (db_jobs db') \<and> db_now db' = db_now db"
    using assms(3)
  proof cases
    case (tick d)
    then show ?thesis using assms(4) by simp
  next
    case (settle st i)
    then show ?thesis using r by (auto simp: set_update_where holds_lease_def image_iff split: if_splits)
  next
    case (claim owner duration locked got)
    then show ?thesis
      using claim_job_rows(1,4) [OF claim(2)] r not_claimed [of locked]
      by (cases "claim_candidate locked db") (auto simp: set_update_where image_iff holds_lease_def)
  next
    case (act opn other b)
    then show ?thesis
      using guarded.other_row [OF r(1), of other opn] assms(5) [OF act(1)] r(2) guarded.clock [of opn other db]
      by (auto simp: holds_lease_def)
  qed (use r in auto)
  have "filter (\<lambda>r. jr_id r = j_id job) (db_jobs db) = [r]" "filter (\<lambda>r. jr_id r = j_id job) (db_jobs db') = [r]"
    using only_row [OF assms(1) r(1)] only_row [OF step_jobs_ok [OF assms(3,1)] conjunct1 [OF kept]] r(2)
    by (simp_all add: holds_lease_def)
  moreover have "\<forall>owner. e \<noteq> Claim owner (Some (j_id job))"
    using assms(3) not_claimed by (auto elim!: db_step.cases simp: eq_commute [of "Some (j_id job)"])
  moreover have "owned db' job"
    using kept r(2) by (auto simp: owned_def list_ex_iff)
  ultimately show ?thesis using refused by (intro conjI allI impI) simp_all
qed

text \<open>
  The rows of a job that still carry the name of a worker have expired: somebody else has claimed the job, it was
  released, or its time ran out.
\<close>

definition lease_over :: "database \<Rightarrow> string \<Rightarrow> string \<Rightarrow> bool" where
  "lease_over db i owner \<longleftrightarrow> list_all (\<lambda>r. jr_id r = i \<and> jr_owner r = owner \<longrightarrow>
     (case jr_expires r of None \<Rightarrow> True | Some t \<Rightarrow> t \<le> db_now db)) (db_jobs db)"

lemma lease_over_holds: "lease_over db i owner \<Longrightarrow> r \<in> set (db_jobs db) \<Longrightarrow> \<not> holds_lease (db_now db) i owner r"
  by (auto simp: lease_over_def list_all_iff holds_lease_def split: option.splits)

lemma lease_over_step:
  assumes "db_step db e db'" "lease_over db i owner" "e \<noteq> Claim owner (Some i)"
  shows "lease_over db' i owner"
  using assms(1)
proof cases
  case (tick d)
  then show ?thesis using assms(2) by (auto simp: lease_over_def list_all_iff split: option.splits)
next
  case (claim lease_owner duration locked got)
  note rows = claim_job_rows(1,4) [OF claim(2)]
  show ?thesis
  proof (cases "claim_candidate locked db")
    case None
    then show ?thesis using rows assms(2) unfolding lease_over_def by (simp only: option.case)
  next
    case (Some c)
    then show ?thesis
      using rows assms(2,3) claim(1)
      by (auto simp: lease_over_def list_all_iff set_update_where claimed_row_def split: if_splits option.splits)
  qed
next
  case (act opn job b)
  have same: "db_now db' = db_now db" using guarded.clock [of opn job db] act by simp
  have "case jr_expires r' of None \<Rightarrow> True | Some t \<Rightarrow> t \<le> db_now db"
    if r': "r' \<in> set (db_jobs db')" "jr_id r' = i" "jr_owner r' = owner" for r'
  proof -
    obtain r where r: "r \<in> set (db_jobs db)" "row_effect db job r r'"
      using guarded.new_row [of r' opn job db] r' act by auto
    show ?thesis
    proof (cases "r' = r")
      case True
      then show ?thesis using assms(2) r(1) r' by (auto simp: lease_over_def list_all_iff)
    next
      case False
      then have "holds_lease (db_now db) (j_id job) (j_lease_owner job) r" "jr_id r = i"
        and "jr_owner r' = j_lease_owner job \<or> jr_expires r' = None"
        using r(2) r'(2) by (auto simp: row_effect_def leased_or_released_def)
      then show ?thesis
        using lease_over_holds [OF assms(2) r(1)] r'(3) by (auto simp: holds_lease_def)
    qed
  qed
  then show ?thesis unfolding lease_over_def list_all_iff same by blast
qed (use assms in \<open>auto simp: lease_over_def list_all_iff set_update_where split: if_splits option.splits\<close>)

text \<open>
  Property C14. Fencing: once the lease of a worker on a job has run out, or the job was released or claimed
  by another, and the worker does not claim it again, every operation on the job in its name is refused and changes
  nothing, whatever others do and however much time passes.
\<close>

theorem stale_worker_refused:
  assumes "db_steps db es db'"
    and "\<forall>r\<in>set (db_jobs db). jr_id r = i \<and> jr_owner r = owner \<longrightarrow>
      (case jr_expires r of None \<Rightarrow> True | Some t \<Rightarrow> t \<le> db_now db)"
    and "Claim owner (Some i) \<notin> set es" and "j_id job = i" and "j_lease_owner job = owner"
  shows "(\<forall>b. Act job b \<in> set es \<longrightarrow> \<not> b) \<and> run_operation opn job db' = (False, db')"
proof -
  have "lease_over db i owner" using assms(2) by (simp add: lease_over_def list_all_iff)
  with assms(1,3) show ?thesis
  proof (induction rule: db_steps.induct)
    case (none db)
    then have "\<not> owned db job"
      using lease_over_holds assms(4,5) by (auto simp: owned_def list_ex_iff)
    then show ?case using guarded.refused by simp
  next
    case (more db e db' es db'')
    have "\<not> owned db job"
      using lease_over_holds more.prems(2) assms(4,5) by (auto simp: owned_def list_ex_iff)
    then have "\<not> b" if "e = Act job b" for b
      using more.hyps(1) guarded.refused that by (auto elim: db_step_cases)
    then show ?case
      using more.IH lease_over_step [OF more.hyps(1) more.prems(2)] more.prems(1) by auto
  qed
qed

text \<open>
  A claim takes the job that was queued first among those that wait or whose lease ran out
  and that no other transaction locks; it finds one whenever there is one. The claimed job runs
  under the claimer's name for the whole duration, and its attempt grows exactly when a worker was lost.
\<close>

theorem claim_takes_first:
  assumes "claim_job lease_owner duration locked db = (Inr got, db')" "jobs_ok db"
    and "r \<in> set (db_jobs db)" "claimable locked (db_now db) r"
  shows "\<exists>c c'. c \<in> set (db_jobs db) \<and> claimable locked (db_now db) c \<and> (jr_queued c, jr_id c) \<le> (jr_queued r, jr_id r)
    \<and> c' \<in> set (db_jobs db') \<and> jr_id c' = jr_id c
    \<and> jr_attempt c' = jr_attempt c + (if jr_state c = Running then 1 else 0)
    \<and> (\<forall>t < db_now db + duration. holds_lease t (jr_id c) (take 255 (trim lease_owner)) c')"
proof -
  obtain c where c: "claim_candidate locked db = Some c"
    using assms(3,4) claim_candidate_None [of locked db] by (cases "claim_candidate locked db") auto
  define c' where "c' = claimed_row (take 255 (trim lease_owner)) duration (db_now db) c"
  have "c' \<in> set (db_jobs db')"
    using claim_job_rows(4) [OF assms(1)] claim_candidate_Some(1) [OF c]
    by (auto simp: c set_update_where c'_def image_iff)
  moreover have "jr_id c' = jr_id c" "jr_attempt c' = jr_attempt c + (if jr_state c = Running then 1 else 0)"
    "\<forall>t < db_now db + duration. holds_lease t (jr_id c) (take 255 (trim lease_owner)) c'"
    by (simp_all add: c'_def claimed_row_def holds_lease_def)
  ultimately show ?thesis
    using claim_candidate_Some [OF c] assms(3,4) by blast
qed

text \<open>
  A heartbeat within the lease succeeds and keeps the job for its duration: the worker
  holds it at every later time before the new expiry.
\<close>

theorem heartbeat_extends:
  assumes "jobs_ok db" "owned db job" "safe_integer duration" "1000 \<le> duration"
  shows "\<exists>db'. heartbeat_job job duration db = (Inr True, db')
    \<and> (\<forall>t. db_now db \<le> t \<and> t < db_now db + duration \<longrightarrow> owned (db'\<lparr>db_now := t\<rparr>) job)"
proof -
  let ?held = "holds_lease (db_now db) (j_id job) (j_lease_owner job)"
  obtain r where r: "r \<in> set (db_jobs db)" "?held r"
    using assms(2) by (auto simp: owned_def list_ex_iff)
  have "distinct (filter ?held (db_jobs db))"
    using assms(1) by (auto simp: jobs_ok_def distinct_map)
  moreover have "set (filter ?held (db_jobs db)) = {r}"
    using assms(1) r by (auto simp: jobs_ok_def distinct_map inj_on_def holds_lease_def)
  ultimately have "length (filter ?held (db_jobs db)) = 1"
    by (metis distinct_card card.empty card_insert_disjoint empty_iff finite.emptyI One_nat_def)
  moreover define r' where "r' = r\<lparr>jr_heartbeat := Some (db_now db), jr_expires := Some (db_now db + duration)\<rparr>"
  moreover have "r' \<in> set (update_where ?held (\<lambda>r. r\<lparr>jr_heartbeat := Some (db_now db),
      jr_expires := Some (db_now db + duration)\<rparr>) (db_jobs db))"
    using r by (auto simp: set_update_where r'_def image_iff)
  moreover have "holds_lease t (j_id job) (j_lease_owner job) r'" if "t < db_now db + duration" for t
    using r(2) that by (simp add: r'_def holds_lease_def)
  ultimately show ?thesis
    using assms(3,4) by (auto simp: heartbeat_job_def check_duration_def Let_def owned_def list_ex_iff)
qed

section \<open>A run with two workers\<close>

definition sample_row :: job_row where
  "sample_row = \<lparr>jr_id = ''job1'', jr_organisation = ''org'', jr_product = ''product'', jr_source = ''source'',
     jr_state = Queued, jr_attempt = 1, jr_counts = no_counts, jr_diagnostics = JObj [], jr_owner = [], jr_expires = None,
     jr_heartbeat = None, jr_queued = 0, jr_started = None, jr_finished = None, jr_error = None\<rparr>"

definition sample_source :: source_row where
  "sample_source = \<lparr>so_id = ''source'', so_organisation = ''org'', so_product = ''product'', so_name = ''Docs'',
     so_kind = ''upload'', so_location = ''guide.md'', so_visibility = Private, so_state = Draft, so_revision = 1\<rparr>"

definition empty_db :: database where
  "empty_db = \<lparr>db_now = 0, db_jobs = [], db_sources = [sample_source], db_snapshots = [], db_documents = [], db_links = []\<rparr>"

definition queued_db :: database where
  "queued_db = empty_db\<lparr>db_jobs := [sample_row]\<rparr>"

text \<open>The job after a worker claimed it at a time, as its first or as a later attempt.\<close>

definition claimed_db :: "string \<Rightarrow> int \<Rightarrow> int \<Rightarrow> database" where
  "claimed_db owner t attempt = queued_db\<lparr>db_now := t, db_jobs := [(claimed_row owner lease_duration t sample_row)\<lparr>jr_attempt := attempt\<rparr>]\<rparr>"

definition handle :: "string \<Rightarrow> int \<Rightarrow> int \<Rightarrow> job" where
  "handle owner t attempt = job_of ((claimed_row owner lease_duration t sample_row)\<lparr>jr_attempt := attempt\<rparr>) sample_source"

lemma sample_claims:
  "claim_job ''w1'' lease_duration {} queued_db = (Inr (Some (handle ''w1'' 0 1)), claimed_db ''w1'' 0 1)"
  "claim_job ''w1'' lease_duration {} ((claimed_db ''w1'' 0 1)\<lparr>db_now := 60000\<rparr>)
     = (Inr (Some (handle ''w1'' 60000 2)), claimed_db ''w1'' 60000 2)"
  "claim_job ''w2'' lease_duration {} ((claimed_db ''w1'' 0 1)\<lparr>db_now := 60000\<rparr>)
     = (Inr (Some (handle ''w2'' 60000 2)), claimed_db ''w2'' 60000 2)"
  "claim_candidate {} queued_db = Some sample_row"
  by code_simp+

lemma sample_reachable: "reachable queued_db" "reachable (claimed_db ''w1'' 0 1)"
proof -
  have "reachable empty_db" by (rule reachable.start) (simp add: empty_db_def)
  moreover have "db_step empty_db (Enqueue ''job1'') queued_db"
    using db_step.enqueue [of sample_row empty_db] by (simp add: sample_row_def empty_db_def queued_db_def)
  ultimately show q: "reachable queued_db" by (rule reachable.step)
  show "reachable (claimed_db ''w1'' 0 1)"
    using q db_step.claim [OF sample_claims(1)] by (rule reachable.step)
qed

lemma sample_owned: "owned (claimed_db ''w1'' 0 1) (handle ''w1'' 0 1)"
  by code_simp

theorem lease_invariant_witness: "jobs_ok (claimed_db ''w1'' 0 1) \<and> owned (claimed_db ''w1'' 0 1) (handle ''w1'' 0 1)"
  using lease_invariant [OF sample_reachable(2)] sample_owned by blast

theorem claim_takes_first_witness:
  "\<exists>c' \<in> set (db_jobs (claimed_db ''w1'' 0 1)). jr_attempt c' = 1 \<and> holds_lease 59999 ''job1'' ''w1'' c'"
proof -
  have "jobs_ok queued_db" "sample_row \<in> set (db_jobs queued_db)" "claimable {} (db_now queued_db) sample_row"
    by code_simp+
  then obtain c c' where c: "c \<in> set (db_jobs queued_db)" "c' \<in> set (db_jobs (claimed_db ''w1'' 0 1))"
      "jr_attempt c' = jr_attempt c + (if jr_state c = Running then 1 else 0)"
      "\<forall>t < db_now queued_db + lease_duration. holds_lease t (jr_id c) (take 255 (trim ''w1'')) c'"
    using claim_takes_first [OF sample_claims(1)] by blast
  moreover have "c = sample_row" using c(1) by (simp add: queued_db_def)
  moreover have "take 255 (trim ''w1'') = ''w1''" "db_now queued_db + lease_duration = 60000"
    by code_simp+
  ultimately show ?thesis by (auto simp: sample_row_def)
qed

theorem heartbeat_extends_witness:
  "\<exists>db'. heartbeat_job (handle ''w1'' 0 1) 60000 (claimed_db ''w1'' 0 1) = (Inr True, db')
     \<and> owned (db'\<lparr>db_now := 59999\<rparr>) (handle ''w1'' 0 1)"
proof -
  have "safe_integer 60000" "db_now (claimed_db ''w1'' 0 1) = 0"
    by (simp_all add: safe_integer_def claimed_db_def)
  then show ?thesis
    using heartbeat_extends [OF reachable_jobs_ok [OF sample_reachable(2)] sample_owned, of 60000] by fastforce
qed

theorem lease_kept_witness: "owned (claimed_db ''w1'' 0 1) (handle ''w1'' 0 1)"
proof -
  have "claim_job ''w2'' lease_duration {} (claimed_db ''w1'' 0 1) = (Inr None, claimed_db ''w1'' 0 1)"
    by code_simp
  then have "db_step (claimed_db ''w1'' 0 1) (Claim (take 255 (trim ''w2'')) (map_option jr_id (claim_candidate {} (claimed_db ''w1'' 0 1))))
      (claimed_db ''w1'' 0 1)"
    by (rule db_step.claim)
  then show ?thesis
    using lease_kept [OF reachable_jobs_ok [OF sample_reachable(2)] sample_owned] by blast
qed

text \<open>The lease that ran out at its expiry, nobody else having claimed the job.\<close>

theorem stale_worker_refused_witness:
  "run_operation (Complete (failed_ingestion_result OtherFault) 0) (handle ''w1'' 0 1) ((claimed_db ''w1'' 0 1)\<lparr>db_now := 60000\<rparr>)
     = (False, (claimed_db ''w1'' 0 1)\<lparr>db_now := 60000\<rparr>)"
proof -
  have h: "\<forall>r\<in>set (db_jobs ((claimed_db ''w1'' 0 1)\<lparr>db_now := 60000\<rparr>)). jr_id r = ''job1'' \<and> jr_owner r = ''w1'' \<longrightarrow>
      (case jr_expires r of None \<Rightarrow> True | Some t \<Rightarrow> t \<le> db_now ((claimed_db ''w1'' 0 1)\<lparr>db_now := 60000\<rparr>))"
    "j_id (handle ''w1'' 0 1) = ''job1''" "j_lease_owner (handle ''w1'' 0 1) = ''w1''"
    by (simp_all add: claimed_db_def claimed_row_def handle_def job_of_def sample_row_def lease_duration_def)
  show ?thesis
    by (rule conjunct2 [OF stale_worker_refused [OF db_steps.none h(1) _ h(2,3)]]) simp
qed

text \<open>
  The name is the only fence: a worker whose lease ran out and was claimed again under the
  same name, by itself or by another process with the same worker identifier, can still complete the
  job as its earlier attempt.
\<close>

theorem same_name_not_fenced:
  "claim_job ''w1'' lease_duration {} ((claimed_db ''w1'' 0 1)\<lparr>db_now := 60000\<rparr>)
     = (Inr (Some (handle ''w1'' 60000 2)), claimed_db ''w1'' 60000 2)
   \<and> j_attempt (handle ''w1'' 0 1) = 1 \<and> j_attempt (handle ''w1'' 60000 2) = 2
   \<and> fst (run_operation (Complete (failed_ingestion_result OtherFault) 0) (handle ''w1'' 0 1) (claimed_db ''w1'' 60000 2))"
  using sample_claims(2) by (simp add: handle_def job_of_def complete_job_def lock_job_lease_def owned_def claimed_db_def
      queued_db_def claimed_row_def holds_lease_def lease_duration_def sample_row_def Let_def)

end
