(* ===== verification/Worker.thy ===== *)
theory Worker
  imports JobLease
begin

text \<open>
  The worker of \<^verbatim>\<open>crawler/index.ts\<close>: the heartbeat beside a job, \<^verbatim>\<open>processJob\<close> and \<^verbatim>\<open>runOnce\<close>. A step maps the heartbeat's
  state and the database to a fault or a value and their next state. Before each step the rest of the
  world acts: the timer's pulses, and other workers as any functions on the database.
\<close>

section \<open>The heartbeat\<close>

record monitor =
  mo_failure :: "fault option"
  mo_stopped :: bool

definition lease_lost_error :: fault where
  "lease_lost_error = lease_lost ''The crawler no longer owns this job lease; processing stopped without committing stale results.''"

definition pulse :: "job \<Rightarrow> monitor \<times> database \<Rightarrow> monitor \<times> database" where
  "pulse job s =
     (case s of (m, db) \<Rightarrow>
       if mo_stopped m \<or> mo_failure m \<noteq> None then (m, db)
       else (case heartbeat_job job lease_duration db of
           (Inl e, db') \<Rightarrow> (m\<lparr>mo_failure := Some (JobFault e)\<rparr>, db')
         | (Inr kept, db') \<Rightarrow> ((if kept then m else m\<lparr>mo_failure := Some lease_lost_error\<rparr>), db')))"

text \<open>What happens between two steps; a pulse whose query fails records that failure.\<close>

datatype gap_event = Pulse | PulseError | World "database \<Rightarrow> database"

fun gap_step :: "job \<Rightarrow> gap_event \<Rightarrow> monitor \<times> database \<Rightarrow> monitor \<times> database" where
  "gap_step job Pulse s = pulse job s"
| "gap_step job PulseError (m, db) =
     ((if mo_stopped m \<or> mo_failure m \<noteq> None then m else m\<lparr>mo_failure := Some OtherFault\<rparr>), db)"
| "gap_step job (World f) (m, db) = (m, f db)"

section \<open>Steps\<close>

type_synonym 'a worker_step = "monitor \<times> database \<Rightarrow> (fault + 'a) \<times> (monitor \<times> database)"

definition and_then :: "'a worker_step \<Rightarrow> ('a \<Rightarrow> 'b worker_step) \<Rightarrow> 'b worker_step" where
  "and_then m f s = (case m s of (Inl e, s') \<Rightarrow> (Inl e, s') | (Inr a, s') \<Rightarrow> f a s')"

definition on_db :: "(database \<Rightarrow> (fault + 'a) \<times> database) \<Rightarrow> 'a worker_step" where
  "on_db act s = (case act (snd s) of (r, db') \<Rightarrow> (r, (fst s, db')))"

definition pass :: "'a \<Rightarrow> 'a worker_step" where
  "pass a s = (Inr a, s)"

record worker =
  wk_collect :: "fault + ingestion_result"
  wk_written :: "nat \<Rightarrow> bool"
  wk_decode :: "string \<Rightarrow> json option"
  wk_ids :: "nat \<Rightarrow> store_ids"
  wk_persist :: "ingestion_result \<Rightarrow> (string \<times> page_reference) list \<Rightarrow> database \<Rightarrow> (fault + ingestion_diagnostic list) \<times> database"
  wk_gap :: "nat \<Rightarrow> gap_event list"

definition wait_step :: "worker \<Rightarrow> job \<Rightarrow> nat \<Rightarrow> unit worker_step" where
  "wait_step w job k s = (Inr (), fold (gap_step job) (wk_gap w k) s)"

definition assert_owned :: "unit worker_step" where
  "assert_owned s = ((case mo_failure (fst s) of None \<Rightarrow> Inr () | Some e \<Rightarrow> Inl e), s)"

definition renew_lease :: "job \<Rightarrow> unit worker_step" where
  "renew_lease job = on_db (\<lambda>db. case heartbeat_job job lease_duration db of
     (Inl e, db') \<Rightarrow> (Inl (JobFault e), db')
   | (Inr kept, db') \<Rightarrow> ((if kept then Inr () else Inl lease_lost_error), db'))"

text \<open>The loop over the pages: how many changed, and the reference of each URL.\<close>

fun store_pages :: "worker \<Rightarrow> job \<Rightarrow> nat \<Rightarrow> page_record list \<Rightarrow> int \<times> (string \<times> page_reference) list
    \<Rightarrow> (int \<times> (string \<times> page_reference) list) worker_step" where
  "store_pages w job k [] acc = pass acc"
| "store_pages w job k (p # ps) acc =
     and_then (wait_step w job k) (\<lambda>_. and_then assert_owned (\<lambda>_.
     and_then (on_db (store_page (wk_written w k) (wk_decode w) (wk_ids w k) job p)) (\<lambda>(changed, ref).
       store_pages w job (Suc k) ps ((if changed then fst acc + 1 else fst acc), jm_set (pg_url p) ref (snd acc)))))"

definition with_candidates :: "ingestion_result \<Rightarrow> ingestion_diagnostic list \<Rightarrow> ingestion_result" where
  "with_candidates result ds =
     (if ds \<noteq> [] then result\<lparr>ir_diagnostics := sorted_diagnostics (ir_diagnostics result @ ds)\<rparr> else result)"

definition process_job :: "worker \<Rightarrow> job \<Rightarrow> unit worker_step" where
  "process_job w job =
     and_then (wait_step w job 0) (\<lambda>_.
     and_then (\<lambda>s. (wk_collect w, s)) (\<lambda>result.
     and_then (wait_step w job 1) (\<lambda>_. and_then assert_owned (\<lambda>_.
     and_then (renew_lease job) (\<lambda>_.
     and_then (store_pages w job 2 (ir_pages result) (0, [])) (\<lambda>(changed, refs).
     let k = 2 + length (ir_pages result) in
     and_then (wait_step w job k) (\<lambda>_. and_then assert_owned (\<lambda>_.
     and_then (renew_lease job) (\<lambda>_.
     and_then (on_db (wk_persist w result refs)) (\<lambda>ds.
     and_then (wait_step w job (k + 1)) (\<lambda>_. and_then assert_owned (\<lambda>_.
       on_db (complete_job job (with_candidates result ds) changed)))))))))))))"

text \<open>A run gives \<open>False\<close> when there was no job; the heartbeat is stopped before a failure is recorded.\<close>

definition run_once :: "(job \<Rightarrow> worker) \<Rightarrow> string \<Rightarrow> string set \<Rightarrow> database \<Rightarrow> (crawler_error + bool) \<times> database" where
  "run_once workers lease_owner locked db =
     (case claim_job lease_owner lease_duration locked db of
        (Inl e, db') \<Rightarrow> (Inl e, db')
      | (Inr None, db') \<Rightarrow> (Inr False, db')
      | (Inr (Some job), db') \<Rightarrow>
          (case process_job (workers job) job (\<lparr>mo_failure = None, mo_stopped = False\<rparr>, db') of
             (Inr _, (m, db'')) \<Rightarrow> (Inr True, db'')
           | (Inl e, (m, db'')) \<Rightarrow> (Inr True, snd (fail_job job e db''))))"

section \<open>A worker that keeps its lease settles its job\<close>

definition holding :: "job \<Rightarrow> database \<Rightarrow> bool" where
  "holding job db \<longleftrightarrow> owned db job \<and> distinct (map jr_id (db_jobs db))"

definition settled_job :: "job \<Rightarrow> job_state \<Rightarrow> database \<Rightarrow> bool" where
  "settled_job job st db \<longleftrightarrow> (\<exists>r\<in>set (db_jobs db). jr_id r = j_id job \<and> jr_state r = st \<and> jr_owner r = [] \<and> jr_finished r \<noteq> None)"

text \<open>What the rest of the world does leaves the worker its lease.\<close>

definition quiet :: "job \<Rightarrow> gap_event \<Rightarrow> bool" where
  "quiet job e \<longleftrightarrow> (case e of World f \<Rightarrow> (\<forall>db. holding job db \<longrightarrow> holding job (f db)) | _ \<Rightarrow> True)"

definition undisturbed :: "worker \<Rightarrow> job \<Rightarrow> bool" where
  "undisturbed w job \<longleftrightarrow> (\<forall>k. list_all (quiet job) (wk_gap w k))
     \<and> (\<forall>result refs db. holding job db \<longrightarrow> holding job (snd (wk_persist w result refs db)))"

definition keeps :: "job \<Rightarrow> 'a worker_step \<Rightarrow> bool" where
  "keeps job m \<longleftrightarrow> (\<forall>s. holding job (snd s) \<longrightarrow> holding job (snd (snd (m s))))"

lemma keeps_and_then: "keeps job m \<Longrightarrow> (\<And>a. keeps job (f a)) \<Longrightarrow> keeps job (and_then m f)"
  by (auto simp: keeps_def and_then_def split: prod.splits sum.splits) (metis snd_conv)+

lemma keeps_on_db: "(\<And>db. holding job db \<Longrightarrow> holding job (snd (act db))) \<Longrightarrow> keeps job (on_db act)"
  by (auto simp: keeps_def on_db_def split: prod.splits) (metis snd_conv)

lemma keeps_pass: "keeps job (pass a)" "keeps job assert_owned" "keeps job (\<lambda>s. (r, s))"
  by (simp_all add: keeps_def pass_def assert_owned_def)

lemma heartbeat_holds: "holding job db \<Longrightarrow> holding job (snd (heartbeat_job job lease_duration db))"
proof -
  assume *: "holding job db"
  let ?held = "holds_lease (db_now db) (j_id job) (j_lease_owner job)"
  let ?f = "\<lambda>r. r\<lparr>jr_heartbeat := Some (db_now db), jr_expires := Some (db_now db + lease_duration)\<rparr>"
  have "check_duration lease_duration = Inr ()"
    by (simp add: check_duration_def lease_duration_def safe_integer_def)
  then have eq: "snd (heartbeat_job job lease_duration db) = db\<lparr>db_jobs := update_where ?held ?f (db_jobs db)\<rparr>"
    by (simp add: heartbeat_job_def Let_def)
  obtain r where r: "r \<in> set (db_jobs db)" "?held r"
    using * by (auto simp: holding_def owned_def list_ex_iff)
  then have "?f r \<in> set (update_where ?held ?f (db_jobs db))" "?held (?f r)"
    by (auto simp: set_update_where holds_lease_def lease_duration_def image_iff)
  then have "owned (snd (heartbeat_job job lease_duration db)) job"
    unfolding eq owned_def list_ex_iff by auto
  moreover have "map jr_id (update_where ?held ?f (db_jobs db)) = map jr_id (db_jobs db)"
    by (rule distinct_update_where) simp
  ultimately show ?thesis
    using * unfolding holding_def eq by simp
qed

lemma store_page_holds: "holding job db \<Longrightarrow> holding job (snd (store_page w decode ids job p db))"
proof -
  assume *: "holding job db"
  have "db_jobs (snd (store_page w decode ids job p db)) = db_jobs db \<and> db_now (snd (store_page w decode ids job p db)) = db_now db"
    by (auto simp: store_page_def split: sum.splits prod.splits dest: store_transaction_jobs)
  with * show ?thesis by (simp add: holding_def owned_def)
qed

lemma gap_holds: "quiet job e \<Longrightarrow> holding job (snd s) \<Longrightarrow> holding job (snd (gap_step job e s))"
  using heartbeat_holds [of job "snd s"]
  by (cases e; cases s) (auto simp: quiet_def pulse_def split: prod.splits sum.splits)

lemma gaps_hold: "list_all (quiet job) es \<Longrightarrow> holding job (snd s) \<Longrightarrow> holding job (snd (fold (gap_step job) es s))"
  by (induction es arbitrary: s) (simp_all add: gap_holds)

lemma keeps_wait: "undisturbed w job \<Longrightarrow> keeps job (wait_step w job k)"
  by (simp add: keeps_def wait_step_def undisturbed_def gaps_hold)

lemma keeps_renew: "keeps job (renew_lease job)"
  unfolding renew_lease_def
  using heartbeat_holds by (intro keeps_on_db) (auto split: prod.splits sum.splits dest: heartbeat_holds)

lemma keeps_store_pages: "undisturbed w job \<Longrightarrow> keeps job (store_pages w job k ps acc)"
  by (induction w job k ps acc rule: store_pages.induct)
    (auto intro!: keeps_and_then keeps_wait keeps_pass keeps_on_db store_page_holds)

text \<open>A property of the last step of a sequence whose steps keep the lease.\<close>

definition ends :: "job \<Rightarrow> 'a worker_step \<Rightarrow> bool" where
  "ends job m \<longleftrightarrow> (\<forall>s. holding job (snd s) \<longrightarrow>
     (case m s of (Inl e, s') \<Rightarrow> holding job (snd s') | (Inr a, s') \<Rightarrow> settled_job job Review (snd s')))"

lemma ends_and_then:
  assumes "keeps job m" "\<And>a. ends job (f a)"
  shows "ends job (and_then m f)"
  unfolding ends_def
proof (intro allI impI)
  fix s :: "monitor \<times> database"
  assume s: "holding job (snd s)"
  obtain r s' where m: "m s = (r, s')" by (cases "m s")
  have s': "holding job (snd s')" using assms(1) s m unfolding keeps_def by (metis snd_conv)
  show "case and_then m f s of (Inl e, s') \<Rightarrow> holding job (snd s') | (Inr a, s') \<Rightarrow> settled_job job Review (snd s')"
  proof (cases r)
    case (Inl e)
    then show ?thesis using m s' by (simp add: and_then_def)
  next
    case (Inr a)
    then show ?thesis using assms(2) [of a, unfolded ends_def, rule_format, OF s'] m by (simp add: and_then_def)
  qed
qed

lemma keeps_case: "(\<And>x y. keeps job (f x y)) \<Longrightarrow> keeps job (case a of (x, y) \<Rightarrow> f x y)"
  by (cases a) simp

lemma ends_case: "(\<And>x y. ends job (f x y)) \<Longrightarrow> ends job (case a of (x, y) \<Rightarrow> f x y)"
  by (cases a) simp

lemma one_held: "holding job db \<Longrightarrow> length (filter (holds_lease (db_now db) (j_id job) (j_lease_owner job)) (db_jobs db)) = 1"
proof -
  assume *: "holding job db"
  have "length (filter p xs) \<le> 1" if "distinct (map jr_id xs)" "\<And>x. p x \<Longrightarrow> jr_id x = i" for p xs i
    using that by (induction xs) (auto simp: filter_empty_conv image_iff)
  moreover have "filter (holds_lease (db_now db) (j_id job) (j_lease_owner job)) (db_jobs db) \<noteq> []"
    using * by (auto simp: holding_def owned_def list_ex_iff filter_empty_conv)
  ultimately show ?thesis
    using * unfolding holding_def by (metis One_nat_def holds_lease_def le_antisym length_0_conv less_one not_le)
qed

lemma update_held:
  assumes "holding job db" "\<And>r. jr_id (f r) = jr_id r \<and> jr_state (f r) = st \<and> jr_owner (f r) = [] \<and> jr_finished (f r) \<noteq> None"
  shows "settled_job job st (db\<lparr>db_jobs := update_where (holds_lease (db_now db) (j_id job) (j_lease_owner job)) f (db_jobs db)\<rparr>)"
proof -
  obtain r where "r \<in> set (db_jobs db)" "holds_lease (db_now db) (j_id job) (j_lease_owner job) r"
    using assms(1) by (auto simp: holding_def owned_def list_ex_iff)
  then show ?thesis
    using assms(2) [of r] by (auto simp: settled_job_def set_update_where holds_lease_def intro!: bexI [of _ "f r"])
qed

lemma complete_ends: "ends job (on_db (complete_job job result changed))"
proof -
  have "fst (complete_job job result changed db) = Inr () \<and> settled_job job Review (snd (complete_job job result changed db))"
    if "holding job db" for db
  proof -
    have "lock_job_lease db job = Inr ()" using that by (simp add: holding_def lock_job_lease_def)
    moreover have "settled_job job Review (db\<lparr>db_jobs := update_where (holds_lease (db_now db) (j_id job) (j_lease_owner job))
        (completed_row result changed (db_now db)) (db_jobs db)\<rparr>)"
      by (rule update_held [OF that]) (simp add: completed_row_def)
    ultimately show ?thesis
      using one_held [OF that] by (simp add: complete_job_def Let_def settled_job_def)
  qed
  then show ?thesis
    by (auto simp: ends_def on_db_def split: prod.splits) (metis fst_conv snd_conv sum.case(2))
qed

lemma process_ends: "undisturbed w job \<Longrightarrow> ends job (process_job w job)"
proof -
  assume *: "undisturbed w job"
  have persist: "keeps job (on_db (wk_persist w result refs))" for result refs
    using * by (intro keeps_on_db) (simp add: undisturbed_def)
  show ?thesis
    unfolding process_job_def Let_def
    by (intro ends_and_then ends_case complete_ends keeps_wait [OF *] keeps_pass keeps_renew keeps_store_pages [OF *] persist)
qed

lemma fail_settles: "holding job db \<Longrightarrow> settled_job job Failed (snd (fail_job job e db))"
  unfolding fail_job_def Let_def snd_conv by (erule update_held) (simp add: failed_row_def Let_def)

lemma claim_holds:
  assumes claim: "claim_job lease_owner lease_duration locked db = (Inr (Some job), db')" and ok: "jobs_ok db"
  shows "holding job db'"
proof -
  let ?owner = "take 255 (trim lease_owner)"
  obtain c where c: "claim_candidate locked db = Some c"
    using claim by (auto simp: claim_job_def split: sum.splits option.splits)
  define c' where "c' = claimed_row ?owner lease_duration (db_now db) c"
  have rows: "db_jobs db' = update_where (\<lambda>r. jr_id r = jr_id c) (claimed_row ?owner lease_duration (db_now db)) (db_jobs db)"
    and now: "db_now db' = db_now db"
    using claim_job_rows [OF claim] c by auto
  have "\<exists>s. job = job_of c' s"
    using claim c by (auto simp: claim_job_def valid_lease_owner_Inr c'_def Let_def split: sum.splits)
  then have job: "j_id job = jr_id c" "j_lease_owner job = ?owner"
    by (auto simp: job_of_def c'_def claimed_row_def)
  have "c' \<in> set (db_jobs db')"
    using claim_candidate_Some(1) [OF c] by (auto simp: rows set_update_where c'_def image_iff)
  moreover have "holds_lease (db_now db') (j_id job) (j_lease_owner job) c'"
    by (simp add: holds_lease_def job c'_def claimed_row_def now lease_duration_def)
  ultimately have "owned db' job" by (auto simp: owned_def list_ex_iff)
  moreover have "map jr_id (db_jobs db') = map jr_id (db_jobs db)"
    unfolding rows by (rule distinct_update_where) simp
  ultimately show ?thesis using ok by (simp add: holding_def jobs_ok_def)
qed

text \<open>
  Property C17. A worker that claims a job of a well-formed database settles it: as long as the rest of the world
  leaves it its lease, whatever the source, the file system, the candidate persistence or a failed heartbeat
  query do, the run ends with the job in review or failed, without an owner.
\<close>

theorem run_once_settles:
  assumes "claim_job lease_owner lease_duration locked db = (Inr (Some job), db1)" "jobs_ok db"
    and "undisturbed (workers job) job"
  shows "\<exists>db'. run_once workers lease_owner locked db = (Inr True, db') \<and> (settled_job job Review db' \<or> settled_job job Failed db')"
proof -
  obtain r m db2 where run: "process_job (workers job) job (\<lparr>mo_failure = None, mo_stopped = False\<rparr>, db1) = (r, (m, db2))"
    by (metis prod.collapse)
  have "case r of Inl e \<Rightarrow> holding job db2 | Inr a \<Rightarrow> settled_job job Review db2"
    using process_ends [OF assms(3), unfolded ends_def, rule_format, of "(\<lparr>mo_failure = None, mo_stopped = False\<rparr>, db1)"]
      claim_holds [OF assms(1,2)]
    by (cases r) (simp_all add: run)
  then show ?thesis
    using run assms(1) fail_settles by (cases r) (auto simp: run_once_def)
qed

text \<open>A failing collection of the sample job, with a heartbeat before and after it.\<close>

definition sample_worker :: worker where
  "sample_worker = \<lparr>wk_collect = Inl OtherFault, wk_written = (\<lambda>_. True), wk_decode = (\<lambda>_. None),
     wk_ids = (\<lambda>_. \<lparr>si_snapshot = ''s1'', si_document = ''d1''\<rparr>), wk_persist = (\<lambda>_ _ db. (Inr [], db)),
     wk_gap = (\<lambda>_. [Pulse, World (\<lambda>db. db), PulseError])\<rparr>"

theorem run_once_settles_witness:
  "\<exists>db'. run_once (\<lambda>_. sample_worker) ''w1'' {} queued_db = (Inr True, db')
     \<and> (settled_job (handle ''w1'' 0 1) Review db' \<or> settled_job (handle ''w1'' 0 1) Failed db')"
proof -
  have "undisturbed sample_worker (handle ''w1'' 0 1)"
    by (simp add: undisturbed_def sample_worker_def quiet_def)
  then show ?thesis
    using run_once_settles [OF sample_claims(1) reachable_jobs_ok [OF sample_reachable(1)], of "\<lambda>_. sample_worker"] by blast
qed

end
