(* ===== verification/Uri.thy ===== *)
theory Uri
  imports SafeUrl
begin

text \<open>
  \<^verbatim>\<open>decodeURIComponent\<close>, as the UTF-8 bytes of its result or \<open>None\<close> where it throws: percent escapes must be
  complete and the bytes they give well-formed. A decoded text is the bytes with the characters
  up to U+00FF put back together; a character beyond them stands as its bytes.
\<close>

definition utf8_text :: "char \<Rightarrow> string" where
  "utf8_text c = map (\<lambda>b. char_of (unat b)) (utf8_char c)"

fun decode_uri_bytes :: "string \<Rightarrow> string option" where
  "decode_uri_bytes [] = Some []"
| "decode_uri_bytes (c # s) =
     (if c \<noteq> CHR ''%'' then map_option ((@) (utf8_text c)) (decode_uri_bytes s)
      else (case s of
          a # b # t \<Rightarrow> if is_hex a \<and> is_hex b
            then map_option (\<lambda>r. char_of (16 * hex_value a + hex_value b) # r) (decode_uri_bytes t) else None
        | _ \<Rightarrow> None))"

definition continuation :: "nat \<Rightarrow> bool" where
  "continuation b \<longleftrightarrow> 128 \<le> b \<and> b \<le> 191"

fun valid_utf8 :: "nat list \<Rightarrow> bool" where
  "valid_utf8 [] = True"
| "valid_utf8 (a # s) =
     (if a < 128 then valid_utf8 s
      else if 194 \<le> a \<and> a \<le> 223 then (case s of b # t \<Rightarrow> continuation b \<and> valid_utf8 t | _ \<Rightarrow> False)
      else if 224 \<le> a \<and> a \<le> 239 then (case s of
          b # c # t \<Rightarrow> continuation b \<and> continuation c \<and> (a = 224 \<longrightarrow> 160 \<le> b) \<and> (a = 237 \<longrightarrow> b < 160) \<and> valid_utf8 t
        | _ \<Rightarrow> False)
      else if 240 \<le> a \<and> a \<le> 244 then (case s of
          b # c # d # t \<Rightarrow> continuation b \<and> continuation c \<and> continuation d
            \<and> (a = 240 \<longrightarrow> 144 \<le> b) \<and> (a = 244 \<longrightarrow> b < 144) \<and> valid_utf8 t
        | _ \<Rightarrow> False)
      else False)"

definition decode_uri_component :: "string \<Rightarrow> string option" where
  "decode_uri_component s =
     (case decode_uri_bytes s of
        Some bytes \<Rightarrow> if valid_utf8 (map of_char bytes) then Some bytes else None
      | None \<Rightarrow> None)"


fun latin_text :: "string \<Rightarrow> string" where
  "latin_text (a # b # s) =
     (if of_char a \<in> {194, 195 :: nat} then char_of ((of_char a - 192) * 64 + (of_char b - 128) :: nat) # latin_text s
      else a # latin_text (b # s))"
| "latin_text s = s"

definition decode_uri_text :: "string \<Rightarrow> string option" where
  "decode_uri_text s = map_option latin_text (decode_uri_component s)"

end
