(* ===== verification/WebScope.thy ===== *)
theory WebScope
  imports PinnedClient Sources Uri
begin

text \<open>
  The boundary of a website crawl and the renderer behind it, from \<^verbatim>\<open>crawler/index.ts\<close>: the normalised path of
  a URL, the scope of a root URL, the resources the rendering browser may load. A decoded path is
  kept as its UTF-8 bytes: the code compares it and cuts it at ASCII characters only. The browser is
  an argument that is given the route handler and may call it with any request.
\<close>

section \<open>Decoded paths\<close>

definition rooted :: "string \<Rightarrow> string" where
  "rooted p = (if starts_with p ''/'' then p else ''/'' @ p)"

definition decoded_path :: "url \<Rightarrow> string option" where
  "decoded_path u =
     (case decode_uri_component (u_path u) of
        None \<Rightarrow> None
      | Some d \<Rightarrow> let p = replace_char (CHR 0x5C) ''/'' d in if nul \<in> set p then None else Some (rooted p))"

definition normalized_website_path :: "url \<Rightarrow> string option" where
  "normalized_website_path u =
     map_option (\<lambda>p. let n = path_normalize p in if n = ''.'' then ''/'' else n) (decoded_path u)"

definition strip_slashes :: "string \<Rightarrow> string" where
  "strip_slashes p = strip_right (\<lambda>c. c = CHR ''/'') p"

definition website_url_within_scope :: "url \<Rightarrow> url \<Rightarrow> bool" where
  "website_url_within_scope root candidate \<longleftrightarrow>
     origin candidate = origin root
     \<and> (case (normalized_website_path root, normalized_website_path candidate) of
          (Some rp, Some cp) \<Rightarrow>
            let boundary = (if rp = ''/'' then ''/'' else strip_slashes rp)
            in boundary = ''/'' \<or> cp = boundary \<or> starts_with cp (boundary @ ''/'')
        | _ \<Rightarrow> False)"

text \<open>The URL of the sitemap; \<open>with_path o p\<close> is the URL of the origin \<open>o\<close> after its path is set to \<open>p\<close>.\<close>

definition website_sitemap_url :: "(string \<Rightarrow> string \<Rightarrow> string) \<Rightarrow> url \<Rightarrow> string" where
  "website_sitemap_url with_path root =
     (let rp = nullish (normalized_website_path root) ''/''; boundary = (if rp = ''/'' then [] else strip_slashes rp)
      in with_path (origin root) (boundary @ ''/sitemap.xml''))"

section \<open>Resources of the renderer\<close>

record rendered_resource =
  rr_body :: string
  rr_headers :: web_headers
  rr_status :: nat
  rr_url :: url

definition render_accept :: string where
  "render_accept = ''text/html,application/xhtml+xml,text/css,application/javascript,application/json,image/*;q=0.8,*/*;q=0.5''"

definition origin_error :: crawler_error where
  "origin_error = job_error ''source_redirect_not_allowed'' ''Rendered website resources must stay on the source origin.''"

definition origin_options :: "string \<Rightarrow> fetch_options \<Rightarrow> fetch_options" where
  "origin_options root_origin opts =
     opts\<lparr>fo_policy := (\<lambda>from to. if origin to \<noteq> root_origin then Inl origin_error else fo_policy opts from to)\<rparr>"

text \<open>\<^verbatim>\<open>Object.fromEntries(headers.entries())\<close>: one combined value per name; of the cookies the last.\<close>

definition header_entries :: "web_headers \<Rightarrow> web_headers" where
  "header_entries hs =
     map (\<lambda>n. (n, if n = ''set-cookie'' then last (map snd (filter (\<lambda>h. fst h = n) hs)) else nullish (header_get hs n) []))
       (js_sort compare_text (dedup (map fst hs)))"

text \<open>The resource, and the destinations requests were sent to.\<close>

definition fetch_rendered_resource ::
    "fetch_env \<Rightarrow> crawler_settings \<Rightarrow> string \<Rightarrow> fetch_options \<Rightarrow> string \<Rightarrow> (fault + rendered_resource) \<times> safe_resolution list" where
  "fetch_rendered_resource env settings root_origin opts v =
     (case fe_parse env None v of
        None \<Rightarrow> (Inl OtherFault, [])
      | Some requested \<Rightarrow>
          if origin requested \<noteq> root_origin then (Inl (JobFault origin_error), [])
          else (case secure_fetch env settings render_accept (origin_options root_origin opts) 0 (href requested) [] of
              (res, log) \<Rightarrow> (bind_result (lift_error res) (\<lambda>(response, u, _).
                 bind_result (lift_error (bounded_response_bytes response (cs_max_bytes settings))) (\<lambda>body.
                   Inr \<lparr>rr_body = body, rr_headers = header_entries (rs_headers response),
                     rr_status = rs_status response, rr_url = u\<rparr>)), log)))"

record browser_request =
  br_network :: fetch_env
  br_url :: string
  br_method :: string

datatype route_reply = Abort | Fulfill nat web_headers string

definition route_request :: "crawler_settings \<Rightarrow> string \<Rightarrow> browser_request \<Rightarrow> route_reply \<times> safe_resolution list" where
  "route_request settings root_origin req =
     (case fe_parse (br_network req) None (br_url req) of
        None \<Rightarrow> (Abort, [])
      | Some u \<Rightarrow>
          if u_scheme u \<notin> set [''http'', ''https''] \<or> origin u \<noteq> root_origin \<or> br_method req \<noteq> ''GET'' then (Abort, [])
          else (case fetch_rendered_resource (br_network req) settings root_origin default_options (href u) of
              (Inl _, log) \<Rightarrow> (Abort, log)
            | (Inr r, log) \<Rightarrow> (Fulfill (rr_status r) (rr_headers r) (rr_body r), log)))"

text \<open>A browser loads the page through the route handler and gives its HTML, text and title, or fails.\<close>

type_synonym browser = "string \<Rightarrow> (browser_request \<Rightarrow> route_reply) \<Rightarrow> (string \<times> string \<times> string) option"

definition rendered_page ::
    "browser \<Rightarrow> url_parser \<Rightarrow> address_resolver \<Rightarrow> crawler_settings \<Rightarrow> string \<Rightarrow> string \<Rightarrow> (string \<times> string \<times> string) option" where
  "rendered_page browse parse resolver settings root_origin v =
     (case assert_safe_url parse resolver settings v of
        Inl _ \<Rightarrow> None
      | Inr _ \<Rightarrow> map_option (\<lambda>(html, t, title). (take (nat (cs_max_bytes settings)) html, take (nat (cs_max_bytes settings)) t, title))
          (browse v (\<lambda>req. fst (route_request settings root_origin req))))"

section \<open>What the scope means\<close>

text \<open>The segments of a path after it is normalised.\<close>

definition path_segments :: "string \<Rightarrow> string list" where
  "path_segments p = fold (normal_step True) (split_on (CHR ''/'') p) []"

definition plain_segments :: "string list \<Rightarrow> bool" where
  "plain_segments segs \<longleftrightarrow> list_all (\<lambda>s. s \<notin> {[], ''.'', ''..''} \<and> CHR ''/'' \<notin> set s) segs"

lemma normal_step_plain:
  "plain_segments acc \<Longrightarrow> list_all (\<lambda>s. CHR ''/'' \<notin> set s) segs \<Longrightarrow> plain_segments (fold (normal_step True) segs acc)"
proof (induction segs arbitrary: acc)
  case (Cons x segs)
  have "plain_segments (normal_step True x acc)"
    using Cons.prems by (auto simp: normal_step_def plain_segments_def list_all_iff dest: in_set_butlastD)
  then show ?case using Cons by simp
qed simp

lemma path_segments_plain: "plain_segments (path_segments p)"
  unfolding path_segments_def
  by (rule normal_step_plain) (auto simp: plain_segments_def list_all_iff dest: split_on_no_sep)

lemma path_normalize_segments:
  assumes "absolute p"
  shows "\<exists>tail \<in> {[], ''/''}. path_normalize p = ''/'' @ join ''/'' (path_segments p) @ (if path_segments p = [] then [] else tail)"
proof -
  have ne: "join ''/'' (path_segments p) = [] \<longleftrightarrow> path_segments p = []"
    using path_segments_plain [of p] by (cases "path_segments p") (auto simp: plain_segments_def join_Cons)
  then show ?thesis
    using assms by (auto simp: path_normalize_def path_segments_def [symmetric] absolute_def Let_def)
qed

lemma plain_join_last: "plain_segments segs \<Longrightarrow> segs \<noteq> [] \<Longrightarrow> join ''/'' segs \<noteq> [] \<and> last (join ''/'' segs) \<noteq> CHR ''/''"
proof (induction segs)
  case (Cons s segs)
  then have "s \<noteq> [] \<and> CHR ''/'' \<notin> set s" by (auto simp: plain_segments_def)
  then have "s \<noteq> [] \<and> last s \<noteq> CHR ''/''" by (metis last_in_set)
  with Cons show ?case by (cases segs) (auto simp: plain_segments_def join_Cons)
qed simp

lemma strip_slashes_join:
  assumes "plain_segments segs" "segs \<noteq> []" "tail \<in> {[], ''/''}"
  shows "strip_slashes (''/'' @ join ''/'' segs @ tail) = ''/'' @ join ''/'' segs"
proof -
  have keep: "strip_slashes s = s" if "s = [] \<or> last s \<noteq> CHR ''/''" for s
    using that by (simp add: strip_slashes_def strip_right_def dropWhile_eq_self_iff hd_rev rev_swap)
  have one: "strip_slashes (s @ ''/'') = strip_slashes s" for s
    by (simp add: strip_slashes_def strip_right_def)
  have "strip_slashes (''/'' @ join ''/'' segs) = ''/'' @ join ''/'' segs"
    by (rule keep) (use plain_join_last [OF assms(1,2)] in simp)
  then show ?thesis
    using assms(3) one [of "''/'' @ join ''/'' segs"] by auto
qed

lemma split_on_plain:
  "plain_segments segs \<Longrightarrow> segs \<noteq> [] \<Longrightarrow> split_on (CHR ''/'') (join ''/'' segs) = segs"
  by (rule split_on_join) (auto simp: plain_segments_def list_all_iff)

lemma split_on_join_append:
  "plain_segments segs \<Longrightarrow> segs \<noteq> [] \<Longrightarrow> split_on (CHR ''/'') (join ''/'' segs @ ''/'' @ t) = segs @ split_on (CHR ''/'') t"
proof (induction segs)
  case (Cons s segs)
  then have "CHR ''/'' \<notin> set s" by (auto simp: plain_segments_def)
  with Cons show ?case
    by (cases segs) (auto simp: plain_segments_def join_Cons split_on_append)
qed simp

lemma below_prefix:
  assumes "plain_segments rs" "rs \<noteq> []" "plain_segments cs" "cs \<noteq> []" "tail \<in> {[], ''/''}"
  shows "join ''/'' cs @ tail = join ''/'' rs \<or> starts_with (join ''/'' cs @ tail) (join ''/'' rs @ ''/'')
    \<longleftrightarrow> (\<exists>ts. cs = rs @ ts)" (is "?below \<longleftrightarrow> _")
proof
  assume ?below
  then consider (same) "join ''/'' cs @ tail = join ''/'' rs" | (under) t where "join ''/'' cs @ tail = join ''/'' rs @ ''/'' @ t"
    by (auto simp: starts_with_iff)
  then show "\<exists>ts. cs = rs @ ts"
  proof cases
    case same
    then have "tail = []"
      using assms(5) plain_join_last [OF assms(1,2)] by (metis emptyE insertE last_appendR last_ConsL list.discI)
    then show ?thesis using same split_on_plain assms by (metis append_Nil2)
  next
    case under
    have "split_on (CHR ''/'') (join ''/'' cs @ tail) = cs @ (if tail = [] then [] else [[]])"
      using assms split_on_plain [of cs] split_on_join_append [of cs "[]"] by auto
    then have eq: "cs @ (if tail = [] then [] else [[]]) = rs @ split_on (CHR ''/'') t"
      using under split_on_join_append [OF assms(1,2)] by simp
    then show ?thesis
    proof (cases "tail = []")
      case False
      then have "cs @ [[]] = rs @ split_on (CHR ''/'') t" using eq by simp
      then show ?thesis
        by (metis butlast_append butlast_snoc split_on_nonempty)
    qed auto
  qed
next
  assume "\<exists>ts. cs = rs @ ts"
  then obtain ts where ts: "cs = rs @ ts" ..
  have app: "join ''/'' (rs @ ts) = join ''/'' rs @ ''/'' @ join ''/'' ts" if "ts \<noteq> []" for ts
    using that assms(2) by (induction rs) (auto simp: join_Cons)
  show ?below
  proof (cases "ts = []")
    case True
    then show ?thesis using ts assms(5) by (auto simp: starts_with_iff)
  next
    case False
    then show ?thesis using ts app by (simp add: starts_with_iff)
  qed
qed

lemma rooted_absolute: "absolute (rooted p)"
  by (auto simp: rooted_def absolute_def starts_with_iff)

lemma normalized_segments:
  "normalized_website_path u = Some n \<Longrightarrow>
     \<exists>p. decoded_path u = Some p \<and> (\<exists>tail \<in> {[], ''/''}. n = ''/'' @ join ''/'' (path_segments p)
       @ (if path_segments p = [] then [] else tail))"
proof -
  assume *: "normalized_website_path u = Some n"
  then obtain p where p: "decoded_path u = Some p" by (auto simp: normalized_website_path_def)
  then have "absolute p" by (auto simp: decoded_path_def Let_def rooted_absolute split: option.splits if_splits)
  then show ?thesis
    using * p path_normalize_segments [of p] by (auto simp: normalized_website_path_def Let_def)
qed

text \<open>
  A URL is inside the scope of a root URL exactly when it has its origin, both paths can be
  decoded, and the segments of the root's normalised path begin those of the candidate's; no segment
  is empty or a dot segment, so no encoding of a parent step leads out of the scope.
\<close>

theorem scope_exact:
  "website_url_within_scope root candidate \<longleftrightarrow> origin candidate = origin root
     \<and> (\<exists>rp cp ts. decoded_path root = Some rp \<and> decoded_path candidate = Some cp
          \<and> path_segments cp = path_segments rp @ ts \<and> plain_segments (path_segments cp))"
proof (cases "normalized_website_path root = None \<or> normalized_website_path candidate = None")
  case True
  then show ?thesis
    by (auto simp: website_url_within_scope_def normalized_website_path_def split: option.splits)
next
  case False
  then obtain rn cn where n: "normalized_website_path root = Some rn" "normalized_website_path candidate = Some cn"
    by auto
  obtain rp rt where rp: "decoded_path root = Some rp" "rt \<in> {[], ''/''}"
      "rn = ''/'' @ join ''/'' (path_segments rp) @ (if path_segments rp = [] then [] else rt)"
    using normalized_segments [OF n(1)] by blast
  obtain cp ct where cp: "decoded_path candidate = Some cp" "ct \<in> {[], ''/''}"
      "cn = ''/'' @ join ''/'' (path_segments cp) @ (if path_segments cp = [] then [] else ct)"
    using normalized_segments [OF n(2)] by blast
  let ?rs = "path_segments rp" and ?cs = "path_segments cp"
  have "(let boundary = (if rn = ''/'' then ''/'' else strip_slashes rn)
     in boundary = ''/'' \<or> cn = boundary \<or> starts_with cn (boundary @ ''/'')) \<longleftrightarrow> (\<exists>ts. ?cs = ?rs @ ts)"
  proof (cases "?rs = []")
    case True
    then show ?thesis using rp by simp
  next
    case rs: False
    have rn: "strip_slashes rn = ''/'' @ join ''/'' ?rs" "rn \<noteq> ''/''" "join ''/'' ?rs \<noteq> []"
      using rp strip_slashes_join [OF path_segments_plain rs rp(2)] rs plain_join_last [OF path_segments_plain rs] by auto
    show ?thesis
    proof (cases "?cs = []")
      case True
      then show ?thesis using rn rs cp by (simp add: Let_def starts_with_iff)
    next
      case False
      then have "cn = ''/'' @ join ''/'' ?cs @ ct" using cp by simp
      then show ?thesis
        using below_prefix [OF path_segments_plain rs path_segments_plain False cp(2)] rn
        by (simp add: Let_def starts_with_def)
    qed
  qed
  then show ?thesis
    using n rp(1) cp(1) path_segments_plain by (auto simp: website_url_within_scope_def)
qed

text \<open>
  Property C15. With a parser that reads its own texts back, every request that the rendering browser
  causes goes to a checked destination of the page's own origin, redirects included, and a resource is
  handed to the browser only for a GET request and never with more bytes than the limit.
\<close>

theorem render_confined:
  assumes "route_request settings root_origin req = (reply, log)"
    and "stable_parser (fe_parse (br_network req))" and "0 \<le> cs_max_bytes settings"
  shows "list_all (\<lambda>r. origin (sr_url r) = root_origin \<and> safe_destination settings r) log
    \<and> (\<forall>status headers body. reply = Fulfill status headers body \<longrightarrow>
         br_method req = ''GET'' \<and> int (length body) \<le> cs_max_bytes settings)"
proof (cases "log = [] \<and> reply = Abort")
  case False
  let ?env = "br_network req"
  obtain u where u: "fe_parse ?env None (br_url req) = Some u" "origin u = root_origin" "br_method req = ''GET''"
    using assms(1) False by (auto simp: route_request_def split: option.splits if_splits)
  have again: "fe_parse ?env None (href u) = Some u"
    using u(1) assms(2) by (auto simp: stable_parser_def)
  obtain out log' where fetch:
      "secure_fetch ?env settings render_accept (origin_options root_origin default_options) 0 (href u) [] = (out, log')"
    by fastforce
  have log: "log' = log"
    using assms(1) False u again fetch by (auto simp: route_request_def fetch_rendered_resource_def split: if_splits sum.splits prod.splits)
  have "fo_policy (origin_options root_origin default_options) from to = Inr () \<Longrightarrow> origin to = root_origin" for "from" to
    by (auto simp: origin_options_def split: if_splits)
  then have confined: "list_all (\<lambda>r. origin (sr_url r) = root_origin \<and> safe_destination settings r) log"
    using secure_fetch_confined [OF fetch assms(2) u(1), of "\<lambda>u. origin u = root_origin"] u(2) log by blast
  have "int (length body) \<le> cs_max_bytes settings" if reply: "reply = Fulfill status headers body" for status headers body
  proof -
    obtain res where "fetch_rendered_resource ?env settings root_origin default_options (href u) = (Inr res, log)" "rr_body res = body"
      using assms(1) u reply by (auto simp: route_request_def split: if_splits sum.splits prod.splits)
    then obtain response where "bounded_response_bytes response (cs_max_bytes settings) = Inr body"
      using again fetch by (auto simp: fetch_rendered_resource_def split: if_splits)
    then show ?thesis using bounded_bytes_le [OF _ assms(3)] by blast
  qed
  then show ?thesis using confined u(3) by blast
qed simp

definition sample_browser_request :: browser_request where
  "sample_browser_request = \<lparr>br_network = sample_fetch, br_url = href sample_url, br_method = ''GET''\<rparr>"

lemma sample_routed:
  "route_request sample_settings (origin sample_url) sample_browser_request
     = (Fulfill 200 [] ''ok'', [sample_resolution, sample_resolution])"
proof -
  have parse: "fe_parse sample_fetch None (href sample_url) = Some sample_url"
    by (simp add: sample_fetch_def sample_parse_def)
  have scheme: "u_scheme sample_url = ''https''"
    by (simp add: sample_url_def)
  have opts: "fo_policy (origin_options (origin sample_url) default_options) sample_url sample_url = Inr ()"
    by (simp add: origin_options_def default_options_def)
  have bytes: "bounded_response_bytes \<lparr>rs_status = 200, rs_headers = [], rs_body = Some [''ok'']\<rparr> (cs_max_bytes sample_settings) = Inr ''ok''"
    by code_simp
  have headers: "header_entries [] = []"
    by (simp add: header_entries_def)
  show ?thesis
    using bytes by (simp add: route_request_def sample_browser_request_def parse scheme fetch_rendered_resource_def
        sample_fetches [OF opts] headers)
qed

theorem render_confined_witness:
  "list_all (\<lambda>r. origin (sr_url r) = origin sample_url \<and> safe_destination sample_settings r) [sample_resolution, sample_resolution]
   \<and> int (length ''ok'') \<le> cs_max_bytes sample_settings"
proof -
  have "stable_parser (fe_parse (br_network sample_browser_request))" "0 \<le> cs_max_bytes sample_settings"
    by (simp_all add: sample_browser_request_def sample_fetch_def sample_parser_stable sample_settings_def)
  then show ?thesis
    using render_confined [OF sample_routed] by blast
qed

end
