(* ===== verification/Website.thy ===== *)
theory Website
  imports WebScope JobStore
begin

text \<open>
  The website crawl of \<^verbatim>\<open>crawler/index.ts\<close>: the sitemap, the handlers that Crawlee calls for a loaded page, for each
  link of it and for a failed page, and the result of the run. Crawlee, the DOM and the browser are
  outside the repository: a page is given by the texts that the handler reads from it, and a run is
  any list of the steps of handlers, in any order.  A JavaScript \<^verbatim>\<open>Set\<close> is the list of its elements in insertion order.
\<close>

section \<open>Sitemap\<close>

definition diagnose :: "string \<Rightarrow> severity \<Rightarrow> string \<Rightarrow> string option \<Rightarrow> string option \<Rightarrow> ingestion_diagnostic" where
  "diagnose code sev message u to =
     \<lparr>dg_code = code, dg_severity = sev, dg_message = message, dg_url = u, dg_redirected = to\<rparr>"

record sitemap_seeds =
  sm_urls :: "string list"
  sm_skipped :: int
  sm_diagnostics :: "ingestion_diagnostic list"

definition no_seeds :: sitemap_seeds where
  "no_seeds = \<lparr>sm_urls = [], sm_skipped = 0, sm_diagnostics = []\<rparr>"

definition skip_entry :: "string \<Rightarrow> string \<Rightarrow> sitemap_seeds \<Rightarrow> sitemap_seeds" where
  "skip_entry target message sm =
     sm\<lparr>sm_skipped := sm_skipped sm + 1,
        sm_diagnostics := sm_diagnostics sm @ [diagnose ''website_sitemap_entry_skipped'' Warning message (Some target) None]\<rparr>"

definition sitemap_entry ::
    "url_parser \<Rightarrow> crawler_settings \<Rightarrow> url \<Rightarrow> string \<Rightarrow> address_resolver \<times> string \<Rightarrow> sitemap_seeds \<Rightarrow> sitemap_seeds" where
  "sitemap_entry parse settings root target entry sm =
     (case assert_safe_url parse (fst entry) settings (snd entry) of
        Inl _ \<Rightarrow> skip_entry target ''A malformed or unsafe sitemap entry was skipped.'' sm
      | Inr u \<Rightarrow>
          if \<not> website_url_within_scope root u
          then skip_entry target ''A sitemap entry was skipped because it is outside the configured source path.'' sm
          else (case canonicalize parse (href u) of
              None \<Rightarrow> skip_entry target ''A malformed or unsafe sitemap entry was skipped.'' sm
            | Some c \<Rightarrow> sm\<lparr>sm_urls := sm_urls sm @ [c]\<rparr>))"

definition loc_rx :: rx where
  "loc_rx = seqs [lit_i ''<loc>'', spaces, Cap 1 (Seq (Cls (\<lambda>c. c \<noteq> CHR ''<'')) (Star False (Cls (\<lambda>c. c \<noteq> CHR ''<'')))),
     spaces, lit_i ''</loc>'']"

definition sitemap_values :: "string \<Rightarrow> string list" where
  "sitemap_values xml =
     map (\<lambda>m. rx_replace (lit ''&amp;'') (\<lambda>_. ''&'') [] (nullish (rx_group 1 m) [])) (rx_all loc_rx [] xml)"

definition sitemap_start :: "crawler_settings \<Rightarrow> string \<Rightarrow> string list \<Rightarrow> sitemap_seeds" where
  "sitemap_start settings target vs =
     (let over = int (length vs) - cs_max_pages settings
      in \<lparr>sm_urls = [], sm_skipped = max 0 over,
          sm_diagnostics = (if 0 < over then [diagnose ''website_page_limit_reached'' Warning
            (int_str over @ '' sitemap entries were skipped because the configured page limit was reached.'') (Some target) None]
            else [])\<rparr>)"

definition sitemap_policy :: "url \<Rightarrow> fetch_options" where
  "sitemap_policy root =
     default_options\<lparr>fo_policy := (\<lambda>_ to. if website_url_within_scope root to then Inr ()
       else Inl (job_error ''source_redirect_not_allowed'' ''Website sitemap discovery may not leave the configured source path.''))\<rparr>"

definition sitemap_accept :: string where
  "sitemap_accept = ''application/xml,text/xml,text/plain;q=0.5''"

text \<open>The answers of DNS for the entries are a sequence \<open>resolvers\<close>.\<close>

definition sitemap_seeds_of ::
    "fetch_env \<Rightarrow> (nat \<Rightarrow> address_resolver) \<Rightarrow> (string \<Rightarrow> string \<Rightarrow> string) \<Rightarrow> (string \<Rightarrow> string option) \<Rightarrow> url
      \<Rightarrow> crawler_settings \<Rightarrow> sitemap_seeds" where
  "sitemap_seeds_of env resolvers with_path decode root settings =
     (let target = website_sitemap_url with_path root in
      case fst (secure_fetch env settings sitemap_accept (sitemap_policy root) 0 target []) of
        Inl _ \<Rightarrow> no_seeds
      | Inr (response, _, _) \<Rightarrow>
          if \<not> response_ok response then no_seeds
          else (case bounded_response_text decode response (cs_max_bytes settings) of
              Inl _ \<Rightarrow> no_seeds
            | Inr xml \<Rightarrow>
                let vs = sitemap_values xml; taken = take (nat (cs_max_pages settings)) vs
                in fold (sitemap_entry (fe_parse env) settings root target)
                     (zip (map resolvers [0..<length taken]) taken) (sitemap_start settings target vs)))"

section \<open>The state of a crawl\<close>

text \<open>What the handler reads of a loaded page, and what DNS and the browser answer while it runs.\<close>

record page_load =
  pl_url :: string
  pl_loaded :: "string option"
  pl_status :: nat
  pl_length :: "string option"
  pl_type :: "string option"
  pl_bytes :: int
  pl_raw :: string
  pl_hidden :: string
  pl_main :: string
  pl_body :: string
  pl_html :: string
  pl_title :: string
  pl_heading :: string
  pl_links :: "string list"
  pl_resolve :: address_resolver
  pl_render :: address_resolver
  pl_browser :: browser

text \<open>
  \<^verbatim>\<open>ws_open\<close> holds the pages whose handlers wait for the browser: their URLs are in \<^verbatim>\<open>seenFinalURLs\<close>, their pages
  are not yet pushed.
\<close>

record website_state =
  ws_pages :: "page_record list"
  ws_seen :: "string list"
  ws_open :: "(string \<times> page_load) list"
  ws_observed :: "string list"
  ws_accepted :: "string list"
  ws_failed :: "string list"
  ws_redirected :: "string list"
  ws_diagnostics :: "ingestion_diagnostic list"
  ws_skipped :: int
  ws_omitted :: int

definition set_add :: "'a \<Rightarrow> 'a list \<Rightarrow> 'a list" where
  "set_add x xs = (if x \<in> set xs then xs else xs @ [x])"

definition website_seeds :: "crawler_settings \<Rightarrow> string \<Rightarrow> sitemap_seeds \<Rightarrow> string list" where
  "website_seeds settings canonical_root sm = take (nat (cs_max_pages settings)) (dedup (canonical_root # sm_urls sm))"

definition website_start :: "string list \<Rightarrow> sitemap_seeds \<Rightarrow> website_state" where
  "website_start seeds sm =
     \<lparr>ws_pages = [], ws_seen = [], ws_open = [], ws_observed = seeds, ws_accepted = seeds, ws_failed = [], ws_redirected = [],
      ws_diagnostics = take 200 (sm_diagnostics sm), ws_skipped = sm_skipped sm,
      ws_omitted = int (length (sm_diagnostics sm)) - int (length (take 200 (sm_diagnostics sm)))\<rparr>"

definition add_diagnostic :: "ingestion_diagnostic \<Rightarrow> website_state \<Rightarrow> website_state" where
  "add_diagnostic d st =
     (if length (ws_diagnostics st) < 200 then st\<lparr>ws_diagnostics := ws_diagnostics st @ [d]\<rparr>
      else st\<lparr>ws_omitted := ws_omitted st + 1\<rparr>)"

definition skip_page :: "ingestion_diagnostic \<Rightarrow> website_state \<Rightarrow> website_state" where
  "skip_page d st = add_diagnostic d (st\<lparr>ws_skipped := ws_skipped st + 1\<rparr>)"

section \<open>The handler of a loaded page\<close>

definition check_response :: "crawler_settings \<Rightarrow> page_load \<Rightarrow> fault + unit" where
  "check_response settings l =
     (if pl_status l < 200 \<or> 400 \<le> pl_status l
      then throw ''source_http_error''
        (''The website page returned HTTP '' @ (if pl_status l = 0 then ''unknown'' else nat_str (pl_status l)) @ ''.'')
      else if (case js_number (nullish (pl_length l) ''0'') of Some n \<Rightarrow> cs_max_bytes settings < n | None \<Rightarrow> False)
      then Inl (JobFault (too_large (cs_max_bytes settings)))
      else if cs_max_bytes settings < pl_bytes l then Inl (JobFault (too_large (cs_max_bytes settings)))
      else Inr ())"

text \<open>The canonical final URL, checked and inside the scope, and the canonical requested URL.\<close>

definition check_final :: "url_parser \<Rightarrow> crawler_settings \<Rightarrow> url \<Rightarrow> page_load \<Rightarrow> fault + string \<times> string" where
  "check_final parse settings root l =
     (case canonicalize parse (nullish (pl_loaded l) (pl_url l)) of
        None \<Rightarrow> Inl OtherFault
      | Some final_url \<Rightarrow>
          bind_result (lift_error (assert_safe_url parse (pl_resolve l) settings final_url)) (\<lambda>final.
          if \<not> website_url_within_scope root final
          then throw ''source_redirect_not_allowed'' ''Website crawls may not navigate outside the configured source path.''
          else (case canonicalize parse (pl_url l) of None \<Rightarrow> Inl OtherFault | Some requested \<Rightarrow> Inr (final_url, requested))))"

definition note_redirect :: "string \<Rightarrow> string \<Rightarrow> website_state \<Rightarrow> website_state" where
  "note_redirect requested final_url st =
     (if requested \<noteq> final_url \<and> requested \<notin> set (ws_redirected st)
      then add_diagnostic (diagnose ''website_page_redirected'' Info
          ''A discovered website page redirected within the configured source path.'' (Some requested) (Some final_url))
        (st\<lparr>ws_redirected := set_add requested (ws_redirected st)\<rparr>)
      else st)"

definition script_rx :: rx where
  "script_rx = Seq (lit_i ''<script'') WordEdge"

text \<open>The text, HTML and title of the page, and whether the browser rendered them.\<close>

definition page_content ::
    "url_parser \<Rightarrow> crawler_settings \<Rightarrow> url \<Rightarrow> string \<Rightarrow> page_load \<Rightarrow> string \<times> string \<times> string \<times> bool" where
  "page_content parse settings root final_url l =
     (let m = nat (cs_max_bytes settings); raw = take m (pl_raw l);
          t = take m (trim (replace_runs is_ws '' '' (or_else (pl_main l) (pl_body l))));
          static = (t, take m (pl_html l), or_else (trim (pl_title l)) (trim (pl_heading l)), False)
      in if length t < 200 \<and> rx_test script_rx raw
         then (case rendered_page (pl_browser l) parse (pl_render l) settings (origin root) final_url of
             None \<Rightarrow> static
           | Some (html, t', title) \<Rightarrow> (t', html, title, True))
         else static)"

definition page_of :: "url_parser \<Rightarrow> crawler_settings \<Rightarrow> url \<Rightarrow> string \<Rightarrow> page_load \<Rightarrow> page_record" where
  "page_of parse settings root final_url l =
     (case page_content parse settings root final_url l of
        (t, html, title, rendered) \<Rightarrow>
          \<lparr>pg_url = final_url, pg_title = title, pg_text = t, pg_html = html,
           pg_content_type = nullish (pl_type l) ''text/html'', pg_status = pl_status l,
           pg_indicators = injection_indicators (t @ [newline] @ pl_hidden l)
             (take (nat (cs_max_bytes settings)) (pl_raw l) @ [newline] @ html),
           pg_rendered = rendered\<rparr>)"

text \<open>The function that filters a link: the URL to enqueue, if any.\<close>

definition link_filter :: "url_parser \<Rightarrow> crawler_settings \<Rightarrow> url \<Rightarrow> string \<Rightarrow> website_state \<Rightarrow> string option \<times> website_state" where
  "link_filter parse settings root candidate st =
     (case canonicalize parse candidate of
        None \<Rightarrow> (None, skip_page (diagnose ''website_link_skipped'' Warning
          ''A malformed website link was skipped during discovery.'' None None) st)
      | Some c \<Rightarrow>
         (case parse None c of
            None \<Rightarrow> (None, skip_page (diagnose ''website_link_skipped'' Warning
              ''A malformed website link was skipped during discovery.'' None None) st)
          | Some u \<Rightarrow>
              if \<not> website_url_within_scope root u
              then (None, skip_page (diagnose ''website_link_outside_scope_skipped'' Info
                ''A discovered page was skipped because it is outside the configured source path.'' (Some c) None) st)
              else if c \<in> set (ws_observed st) then (Some c, st)
              else let st1 = st\<lparr>ws_observed := ws_observed st @ [c]\<rparr> in
                if cs_max_pages settings \<le> int (length (ws_accepted st1))
                then (None, skip_page (diagnose ''website_page_limit_reached'' Warning
                  ''A discovered page was skipped because the configured page limit was reached.'' (Some c) None) st1)
                else (Some c, st1\<lparr>ws_accepted := set_add c (ws_accepted st1)\<rparr>)))"

fun filter_links :: "url_parser \<Rightarrow> crawler_settings \<Rightarrow> url \<Rightarrow> string list \<Rightarrow> website_state \<Rightarrow> string list \<times> website_state" where
  "filter_links parse settings root [] st = ([], st)"
| "filter_links parse settings root (c # cs) st =
     (case link_filter parse settings root c st of
        (kept, st1) \<Rightarrow> (case filter_links parse settings root cs st1 of
          (urls, st2) \<Rightarrow> ((case kept of None \<Rightarrow> urls | Some u \<Rightarrow> u # urls), st2)))"

text \<open>
  The handler waits at two places: for DNS in the check of the final URL, before it changes anything, and for the
  browser, between noting the URL as seen and pushing the page.  So it is three steps, and the steps of several
  handlers may interleave: \<open>visit_page\<close> up to the note, with the fault it throws or whether the page is new;
  \<open>acquire_page\<close>, which pushes a page that waits; and \<open>link_filter\<close> for each link.  A handler that throws or is
  given up while it waits leaves its page open, and its URL noted.
\<close>

definition visit_page ::
    "url_parser \<Rightarrow> crawler_settings \<Rightarrow> url \<Rightarrow> page_load \<Rightarrow> website_state \<Rightarrow> (fault + bool) \<times> website_state" where
  "visit_page parse settings root l st =
     (case bind_result (check_response settings l) (\<lambda>_. check_final parse settings root l) of
        Inl e \<Rightarrow> (Inl e, st)
      | Inr (final_url, requested) \<Rightarrow>
          let st1 = note_redirect requested final_url st in
          if final_url \<in> set (ws_seen st1)
          then (Inr False, skip_page (diagnose ''website_duplicate_page_skipped'' Warning
            ''A discovered URL resolved to content already acquired through another URL.'' (Some requested) (Some final_url)) st1)
          else (Inr True, st1\<lparr>ws_seen := ws_seen st1 @ [final_url], ws_open := ws_open st1 @ [(final_url, l)]\<rparr>))"

definition acquire_page :: "url_parser \<Rightarrow> crawler_settings \<Rightarrow> url \<Rightarrow> nat \<Rightarrow> website_state \<Rightarrow> website_state" where
  "acquire_page parse settings root i st =
     (if i < length (ws_open st)
      then (case ws_open st ! i of (final_url, l) \<Rightarrow>
        st\<lparr>ws_open := take i (ws_open st) @ drop (Suc i) (ws_open st),
           ws_pages := ws_pages st @ [page_of parse settings root final_url l]\<rparr>)
      else st)"

text \<open>The handler that nobody interrupts: the fault it throws or the URLs it enqueues, and the state it leaves.\<close>

definition handle_page ::
    "url_parser \<Rightarrow> crawler_settings \<Rightarrow> url \<Rightarrow> page_load \<Rightarrow> website_state \<Rightarrow> (fault + string list) \<times> website_state" where
  "handle_page parse settings root l st =
     (case visit_page parse settings root l st of
        (Inl e, st1) \<Rightarrow> (Inl e, st1)
      | (Inr new, st1) \<Rightarrow>
          if \<not> new then (Inr [], st1)
          else apfst Inr (filter_links parse settings root (pl_links l)
            (acquire_page parse settings root (length (ws_open st1) - 1) st1)))"

definition handle_failure :: "url_parser \<Rightarrow> string \<Rightarrow> fault \<Rightarrow> website_state \<Rightarrow> website_state" where
  "handle_failure parse v e st =
     (let failed = nullish (canonicalize parse v) v in
      if failed \<in> set (ws_failed st) then st
      else add_diagnostic (diagnose
          (case e of JobFault c \<Rightarrow> ce_code c | RunFault c _ \<Rightarrow> ce_code c | OtherFault \<Rightarrow> ''website_page_failed'') Error
          ''The crawler could not retrieve this discovered page after its bounded retries.''
          (if starts_with failed ''http://'' \<or> starts_with failed ''https://'' then Some failed else None) None)
        (st\<lparr>ws_failed := ws_failed st @ [failed]\<rparr>))"

section \<open>The run\<close>

datatype website_event = Loaded page_load | Acquired nat | Linked string | Failed_Page string fault

fun website_step :: "url_parser \<Rightarrow> crawler_settings \<Rightarrow> url \<Rightarrow> website_event \<Rightarrow> website_state \<Rightarrow> website_state" where
  "website_step parse settings root (Loaded l) st = snd (visit_page parse settings root l st)"
| "website_step parse settings root (Acquired i) st = acquire_page parse settings root i st"
| "website_step parse settings root (Linked v) st = snd (link_filter parse settings root v st)"
| "website_step parse settings root (Failed_Page v e) st = handle_failure parse v e st"

definition push_when :: "bool \<Rightarrow> ingestion_diagnostic \<Rightarrow> ingestion_diagnostic list \<Rightarrow> ingestion_diagnostic list" where
  "push_when b d ds = (if b then ds @ [d] else ds)"

definition settle_pending :: "int \<Rightarrow> website_state \<Rightarrow> website_state" where
  "settle_pending pending st =
     (if 0 < pending
      then add_diagnostic (diagnose ''website_page_limit_reached'' Warning
          (int_str pending @ '' discovered pages remained pending when the configured crawl limit was reached.'') None None)
        (st\<lparr>ws_skipped := ws_skipped st + pending\<rparr>)
      else st)"

definition website_result :: "sitemap_seeds \<Rightarrow> website_state \<Rightarrow> ingestion_result" where
  "website_result sm st =
     (let failed = int (length (ws_failed st));
          ds = push_when (0 < ws_omitted st) (diagnose ''website_diagnostics_truncated'' Warning
              (int_str (ws_omitted st) @ '' additional website diagnostics were omitted from the bounded run record.'') None None)
            (ws_diagnostics st);
          ds' = push_when (0 < failed \<or> 0 < ws_skipped st) (diagnose ''website_partial_coverage'' Warning
              (''The website run is partial: '' @ int_str failed @ '' pages failed and '' @ int_str (ws_skipped st)
                @ '' pages were skipped.'') None None) ds
      in \<lparr>ir_pages = ws_pages st,
          ir_discovered = max (int (length (ws_observed st)) + sm_skipped sm) (int (length (ws_pages st)) + failed + ws_skipped st),
          ir_failed = failed, ir_skipped = ws_skipped st, ir_redirected = int (length (ws_redirected st)),
          ir_diagnostics = sorted_diagnostics ds'\<rparr>)"

definition website_outcome :: "fault option \<Rightarrow> ingestion_result \<Rightarrow> fault + ingestion_result" where
  "website_outcome crash result =
     (case crash of
        Some e \<Rightarrow> Inl (RunFault (job_failure e) result)
      | None \<Rightarrow>
          if ir_pages result = []
          then Inl (RunFault (job_error ''website_no_content''
            ''The website crawl did not retrieve any reviewable pages. Check its URL, robots policy, and network availability.'') result)
          else Inr result)"

text \<open>
  What the run needs from outside: the network of the sitemap, DNS for the root and the sitemap's
  entries, and Crawlee, which given the seeds makes handler calls, leaves pending requests and may fail.
\<close>

record website_env =
  we_fetch :: fetch_env
  we_root :: address_resolver
  we_entries :: "nat \<Rightarrow> address_resolver"
  we_with_path :: "string \<Rightarrow> string \<Rightarrow> string"
  we_decode :: "string \<Rightarrow> string option"
  we_crawl :: "string list \<Rightarrow> website_event list \<times> int \<times> fault option"

definition ingest_website :: "website_env \<Rightarrow> job \<Rightarrow> crawler_settings \<Rightarrow> fault + ingestion_result" where
  "ingest_website env job settings =
     (let parse = fe_parse (we_fetch env) in
      bind_result (lift_error (assert_safe_url parse (we_root env) settings (j_location job))) (\<lambda>root.
      let sm = sitemap_seeds_of (we_fetch env) (we_entries env) (we_with_path env) (we_decode env) root settings in
      case canonicalize parse (href root) of
        None \<Rightarrow> Inl OtherFault
      | Some c \<Rightarrow>
          let seeds = website_seeds settings c sm in
          (case we_crawl env seeds of
             (events, pending, crash) \<Rightarrow>
               website_outcome crash (website_result sm
                 (settle_pending pending (fold (website_step parse settings root) events (website_start seeds sm)))))))"

definition collect_source ::
    "website_env \<Rightarrow> (string \<Rightarrow> json option) \<Rightarrow> upload_system \<Rightarrow> job \<Rightarrow> crawler_settings \<Rightarrow> fault + ingestion_result" where
  "collect_source env decode_json sys job settings =
     (if j_source_kind job = ''website'' then ingest_website env job settings
      else if j_source_kind job = ''openapi'' then ingest_openapi (we_fetch env) (we_decode env) decode_json job settings
      else if j_source_kind job = ''upload'' then ingest_upload sys job settings
      else if j_source_kind job = ''git'' then reject_git_source
      else throw ''source_kind_unsupported''
        (''Source kind '' @ or_else (j_source_kind job) ''unknown'' @ '' is not supported by this worker.''))"

section \<open>The invariant of a crawl\<close>

text \<open>
  A page comes from a load of the run: it is what the handler makes of that load under the final URL, which is the canonical
  form of where the load ended, passed the check with the answer that DNS gave to this handler, and lies in the scope.
\<close>

definition load_checked :: "url_parser \<Rightarrow> crawler_settings \<Rightarrow> url \<Rightarrow> page_load \<Rightarrow> string \<Rightarrow> bool" where
  "load_checked parse settings root l v \<longleftrightarrow>
     canonicalize parse (nullish (pl_loaded l) (pl_url l)) = Some v \<and> 200 \<le> pl_status l \<and> pl_status l < 400
     \<and> (case assert_safe_url parse (pl_resolve l) settings v of Inl _ \<Rightarrow> False | Inr u \<Rightarrow> website_url_within_scope root u)"

definition page_from :: "url_parser \<Rightarrow> crawler_settings \<Rightarrow> url \<Rightarrow> website_event list \<Rightarrow> page_record \<Rightarrow> bool" where
  "page_from parse settings root es p \<longleftrightarrow>
     (\<exists>l. Loaded l \<in> set es \<and> load_checked parse settings root l (pg_url p) \<and> p = page_of parse settings root (pg_url p) l)"

definition pages_ok :: "url_parser \<Rightarrow> crawler_settings \<Rightarrow> url \<Rightarrow> website_event list \<Rightarrow> website_state \<Rightarrow> bool" where
  "pages_ok parse settings root es st \<longleftrightarrow>
     mset (map pg_url (ws_pages st)) + mset (map fst (ws_open st)) = mset (ws_seen st) \<and> distinct (ws_seen st)
     \<and> list_all (page_from parse settings root es) (ws_pages st)
     \<and> list_all (\<lambda>(v, l). Loaded l \<in> set es \<and> load_checked parse settings root l v) (ws_open st)"

definition links_ok :: "crawler_settings \<Rightarrow> website_state \<Rightarrow> bool" where
  "links_ok settings st \<longleftrightarrow> distinct (ws_observed st) \<and> distinct (ws_accepted st)
     \<and> set (ws_accepted st) \<subseteq> set (ws_observed st)
     \<and> int (length (ws_accepted st)) \<le> max 0 (cs_max_pages settings)"

definition counts_ok :: "website_state \<Rightarrow> bool" where
  "counts_ok st \<longleftrightarrow> 0 \<le> ws_skipped st \<and> 0 \<le> ws_omitted st \<and> length (ws_diagnostics st) \<le> 200
     \<and> distinct (ws_failed st) \<and> distinct (ws_redirected st)"

lemmas website_ok_defs = pages_ok_def links_ok_def counts_ok_def

text \<open>Adding a diagnostic or a skip changes the counts only.\<close>

lemma add_diagnostic_fields [simp]:
  "ws_pages (add_diagnostic d st) = ws_pages st" "ws_seen (add_diagnostic d st) = ws_seen st" "ws_open (add_diagnostic d st) = ws_open st"
  "ws_observed (add_diagnostic d st) = ws_observed st" "ws_accepted (add_diagnostic d st) = ws_accepted st"
  "ws_failed (add_diagnostic d st) = ws_failed st" "ws_redirected (add_diagnostic d st) = ws_redirected st"
  "ws_skipped (add_diagnostic d st) = ws_skipped st"
  by (simp_all add: add_diagnostic_def)

lemma skip_page_fields [simp]:
  "ws_pages (skip_page d st) = ws_pages st" "ws_seen (skip_page d st) = ws_seen st" "ws_open (skip_page d st) = ws_open st"
  "ws_observed (skip_page d st) = ws_observed st" "ws_accepted (skip_page d st) = ws_accepted st"
  "ws_failed (skip_page d st) = ws_failed st" "ws_redirected (skip_page d st) = ws_redirected st"
  "ws_skipped (skip_page d st) = ws_skipped st + 1"
  by (simp_all add: skip_page_def)

lemma counts_ok_add [intro]: "counts_ok st \<Longrightarrow> counts_ok (add_diagnostic d st)"
  by (auto simp: counts_ok_def add_diagnostic_def)

lemma counts_ok_skip [intro]: "counts_ok st \<Longrightarrow> counts_ok (skip_page d st)"
  unfolding skip_page_def by (rule counts_ok_add) (auto simp: counts_ok_def)

lemma set_add_simps [simp]: "set (set_add x xs) = insert x (set xs)" "distinct (set_add x xs) = distinct xs"
  by (auto simp: set_add_def)

lemma length_set_add: "length (set_add x xs) \<le> length xs + 1"
  by (simp add: set_add_def)

lemma link_filter_ok:
  assumes "link_filter parse settings root c st = (kept, st')"
  shows "pages_ok parse settings root es st \<Longrightarrow> pages_ok parse settings root es st'"
    and "links_ok settings st \<Longrightarrow> links_ok settings st'"
    and "counts_ok st \<Longrightarrow> counts_ok st'"
proof -
  note split = option.splits if_splits
  show "pages_ok parse settings root es st \<Longrightarrow> pages_ok parse settings root es st'"
    using assms by (auto simp: link_filter_def pages_ok_def Let_def split: split)
  show "links_ok settings st \<Longrightarrow> links_ok settings st'"
    using assms length_set_add [of _ "ws_accepted st"]
    by (auto simp: link_filter_def links_ok_def Let_def set_add_def split: split)
  have upd: "counts_ok (st\<lparr>ws_observed := xs\<rparr>) = counts_ok st" "counts_ok (st\<lparr>ws_observed := xs, ws_accepted := ys\<rparr>) = counts_ok st" for xs ys
    by (simp_all add: counts_ok_def)
  show "counts_ok st \<Longrightarrow> counts_ok st'"
    using assms by (auto simp: link_filter_def Let_def upd split: split)
qed

lemma check_final_checked:
  "check_final parse settings root l = Inr (final_url, requested) \<Longrightarrow> check_response settings l = Inr u
     \<Longrightarrow> load_checked parse settings root l final_url"
  by (auto simp: check_final_def load_checked_def check_response_def throw_def split: option.splits if_splits)

lemma rendered_page_bounded:
  "rendered_page browse parse resolver settings o' v = Some (html, t, title) \<Longrightarrow>
     length html \<le> nat (cs_max_bytes settings) \<and> length t \<le> nat (cs_max_bytes settings)"
  by (auto simp: rendered_page_def split: sum.splits)

lemma page_of_fields [simp]: "pg_url (page_of parse settings root u l) = u" "pg_status (page_of parse settings root u l) = pl_status l"
  by (simp_all add: page_of_def split: prod.splits)

lemma page_of_bounded:
  "length (pg_text (page_of parse settings root u l)) \<le> nat (cs_max_bytes settings)
   \<and> length (pg_html (page_of parse settings root u l)) \<le> nat (cs_max_bytes settings)"
proof -
  obtain t html title r where c: "page_content parse settings root u l = (t, html, title, r)"
    by (metis prod_cases4)
  then have "length t \<le> nat (cs_max_bytes settings) \<and> length html \<le> nat (cs_max_bytes settings)"
    using rendered_page_bounded by (fastforce simp: page_content_def Let_def split: if_splits option.splits prod.splits)
  then show ?thesis using c by (simp add: page_of_def)
qed

lemma page_from_bounded:
  assumes "page_from parse settings root es p"
  shows "length (pg_text p) \<le> nat (cs_max_bytes settings) \<and> length (pg_html p) \<le> nat (cs_max_bytes settings)
    \<and> 200 \<le> pg_status p \<and> pg_status p < 400"
proof -
  obtain l where l: "load_checked parse settings root l (pg_url p)" "p = page_of parse settings root (pg_url p) l"
    using assms by (auto simp: page_from_def)
  then have "pg_status p = pl_status l" by (metis page_of_fields(2))
  then show ?thesis
    using l(1) page_of_bounded [of parse settings root "pg_url p" l] by (simp add: l(2) [symmetric] load_checked_def)
qed

lemma note_redirect_fields [simp]:
  "ws_pages (note_redirect r f st) = ws_pages st" "ws_seen (note_redirect r f st) = ws_seen st" "ws_open (note_redirect r f st) = ws_open st"
  "ws_observed (note_redirect r f st) = ws_observed st" "ws_accepted (note_redirect r f st) = ws_accepted st"
  "ws_failed (note_redirect r f st) = ws_failed st" "ws_skipped (note_redirect r f st) = ws_skipped st"
  by (simp_all add: note_redirect_def)

lemma note_redirect_counts [intro]: "counts_ok st \<Longrightarrow> counts_ok (note_redirect r f st)"
  unfolding note_redirect_def by (auto intro!: counts_ok_add) (auto simp: counts_ok_def)

lemma visit_page_ok:
  assumes ok: "pages_ok parse settings root es st" "links_ok settings st" "counts_ok st" and load: "Loaded l \<in> set es"
  shows "pages_ok parse settings root es (snd (visit_page parse settings root l st))
    \<and> links_ok settings (snd (visit_page parse settings root l st)) \<and> counts_ok (snd (visit_page parse settings root l st))"
proof (cases "bind_result (check_response settings l) (\<lambda>_. check_final parse settings root l)")
  case (Inl f)
  then show ?thesis using ok by (simp add: visit_page_def del: bind_result_Inl)
next
  case (Inr p)
  then obtain final_url requested u where p: "check_final parse settings root l = Inr (final_url, requested)" "p = (final_url, requested)"
      "check_response settings l = Inr u"
    by (cases p) auto
  define st1 where "st1 = note_redirect requested final_url st"
  have st1: "pages_ok parse settings root es st1" "links_ok settings st1" "counts_ok st1"
    using ok by (auto simp: st1_def pages_ok_def links_ok_def)
  define dup where "dup = diagnose ''website_duplicate_page_skipped'' Warning
    ''A discovered URL resolved to content already acquired through another URL.'' (Some requested) (Some final_url)"
  have step: "snd (visit_page parse settings root l st) = (if final_url \<in> set (ws_seen st1) then skip_page dup st1
      else st1\<lparr>ws_seen := ws_seen st1 @ [final_url], ws_open := ws_open st1 @ [(final_url, l)]\<rparr>)"
    using Inr p(2) by (simp add: visit_page_def st1_def dup_def Let_def del: bind_result_Inr)
  show ?thesis
    unfolding step using st1 load check_final_checked [OF p(1,3)]
    by (auto simp: pages_ok_def links_ok_def counts_ok_def [of "ws_seen_update _ _"] counts_ok_def [of "ws_open_update _ _"])
      (auto simp: counts_ok_def)
qed

lemma acquire_page_ok:
  assumes ok: "pages_ok parse settings root es st"
  shows "pages_ok parse settings root es (acquire_page parse settings root i st)"
proof (cases "i < length (ws_open st)")
  case True
  obtain v l where vl: "ws_open st ! i = (v, l)" by fastforce
  have split: "ws_open st = take i (ws_open st) @ (v, l) # drop (Suc i) (ws_open st)"
    using id_take_nth_drop [OF True] vl by simp
  have "list_all (\<lambda>(v, l). Loaded l \<in> set es \<and> load_checked parse settings root l v)
      (take i (ws_open st) @ (v, l) # drop (Suc i) (ws_open st))"
    using ok unfolding pages_ok_def split [symmetric] by blast
  then have load: "Loaded l \<in> set es \<and> load_checked parse settings root l v"
    and rest: "list_all (\<lambda>(v, l). Loaded l \<in> set es \<and> load_checked parse settings root l v) (take i (ws_open st) @ drop (Suc i) (ws_open st))"
    by simp_all
  have "mset (map fst (ws_open st)) = add_mset v (mset (map fst (take i (ws_open st) @ drop (Suc i) (ws_open st))))"
    by (subst split) simp
  then show ?thesis
    using ok load rest True by (auto simp: acquire_page_def vl pages_ok_def page_from_def)
qed (use ok in \<open>simp add: acquire_page_def\<close>)

lemma website_step_ok:
  assumes "pages_ok parse settings root es st" "links_ok settings st" "counts_ok st" "e \<in> set es"
  shows "pages_ok parse settings root es (website_step parse settings root e st)
    \<and> links_ok settings (website_step parse settings root e st) \<and> counts_ok (website_step parse settings root e st)"
proof (cases e)
  case (Loaded l)
  then show ?thesis using visit_page_ok [OF assms(1-3)] assms(4) by simp
next
  case (Acquired i)
  then show ?thesis
    using acquire_page_ok [OF assms(1)] assms(2,3)
    by (auto simp: acquire_page_def links_ok_def counts_ok_def split: prod.split)
next
  case (Linked v)
  obtain kept st' where "link_filter parse settings root v st = (kept, st')" by fastforce
  then show ?thesis using Linked link_filter_ok assms(1-3) by simp
next
  case (Failed_Page v f)
  then show ?thesis
    using assms by (auto simp: handle_failure_def Let_def pages_ok_def links_ok_def intro!: counts_ok_add) (auto simp: counts_ok_def)
qed

lemma website_run_ok:
  "pages_ok parse settings root es st \<and> links_ok settings st \<and> counts_ok st \<Longrightarrow> set fs \<subseteq> set es \<Longrightarrow>
     pages_ok parse settings root es (fold (website_step parse settings root) fs st)
     \<and> links_ok settings (fold (website_step parse settings root) fs st)
     \<and> counts_ok (fold (website_step parse settings root) fs st)"
proof (induction fs arbitrary: st)
  case (Cons f fs)
  have "f \<in> set es" "set fs \<subseteq> set es" using Cons.prems(2) by simp_all
  then show ?case
    using website_step_ok [of parse settings root es st f] Cons.prems(1) Cons.IH [of "website_step parse settings root f st"] by simp
qed simp

text \<open>An uninterrupted handler is the sequence of its steps.\<close>

lemma filter_links_steps:
  "snd (filter_links parse settings root cs st) = fold (website_step parse settings root) (map Linked cs) st"
proof (induction cs arbitrary: st)
  case (Cons c cs)
  obtain kept st1 where "link_filter parse settings root c st = (kept, st1)" by fastforce
  then show ?case using Cons.IH [of st1] by (simp add: split_beta)
qed simp

lemma handler_steps:
  "\<exists>es. snd (handle_page parse settings root l st) = fold (website_step parse settings root) (Loaded l # es) st
     \<and> (es = [] \<or> (\<exists>i. es = Acquired i # map Linked (pl_links l)))"
proof -
  obtain r st1 where v: "visit_page parse settings root l st = (r, st1)" by fastforce
  show ?thesis
  proof (cases "r = Inr True")
    case True
    define i where "i = length (ws_open st1) - 1"
    have "snd (handle_page parse settings root l st) = fold (website_step parse settings root) (Loaded l # Acquired i # map Linked (pl_links l)) st"
      by (simp add: handle_page_def v True filter_links_steps i_def)
    then show ?thesis by blast
  next
    case False
    then have "snd (handle_page parse settings root l st) = fold (website_step parse settings root) [Loaded l] st"
      by (cases r) (simp_all add: handle_page_def v)
    then show ?thesis by blast
  qed
qed

section \<open>What a run reports\<close>

lemma skip_entry_skipped [simp]: "sm_skipped (skip_entry target message sm) = sm_skipped sm + 1"
  by (simp add: skip_entry_def)

lemma sitemap_fold_skipped: "0 \<le> sm_skipped sm \<Longrightarrow> 0 \<le> sm_skipped (fold (sitemap_entry parse settings root target) es sm)"
proof (induction es arbitrary: sm)
  case (Cons e es)
  have "0 \<le> sm_skipped (sitemap_entry parse settings root target e sm)"
    using Cons.prems by (auto simp: sitemap_entry_def split: sum.splits option.splits)
  then show ?case using Cons.IH by simp
qed simp

lemma sitemap_skipped: "0 \<le> sm_skipped (sitemap_seeds_of env resolvers with_path decode root settings)"
  unfolding sitemap_seeds_of_def Let_def
  by (auto split: sum.splits prod.splits simp: no_seeds_def sitemap_start_def Let_def intro!: sitemap_fold_skipped)

lemma website_start_ok:
  assumes "0 \<le> sm_skipped sm"
  shows "pages_ok parse settings root es (website_start (website_seeds settings c sm) sm)
    \<and> links_ok settings (website_start (website_seeds settings c sm) sm)
    \<and> counts_ok (website_start (website_seeds settings c sm) sm)"
proof -
  have "distinct (website_seeds settings c sm)"
    unfolding website_seeds_def by (intro distinct_take distinct_dedup)
  moreover have "int (length (website_seeds settings c sm)) \<le> max 0 (cs_max_pages settings)"
    unfolding website_seeds_def length_take by linarith
  ultimately show ?thesis
    using assms by (simp add: pages_ok_def links_ok_def counts_ok_def website_start_def)
qed

lemma settle_pending_ok:
  assumes "pages_ok parse settings root es st" "links_ok settings st" "counts_ok st"
  shows "pages_ok parse settings root es (settle_pending pending st) \<and> links_ok settings (settle_pending pending st)
    \<and> counts_ok (settle_pending pending st)"
  using assms by (auto simp: settle_pending_def pages_ok_def links_ok_def intro!: counts_ok_add) (auto simp: counts_ok_def)

text \<open>The result that a run reports, also when it fails.\<close>

fun reported :: "fault + ingestion_result \<Rightarrow> ingestion_result option" where
  "reported (Inr r) = Some r"
| "reported (Inl (RunFault c r)) = Some r"
| "reported _ = None"

lemma reported_outcome: "reported (website_outcome crash r) = Some r"
  by (simp add: website_outcome_def split: option.splits)

lemma website_run:
  assumes "reported (ingest_website env job settings) = Some r"
  shows "\<exists>root c sm st. assert_safe_url (fe_parse (we_fetch env)) (we_root env) settings (j_location job) = Inr root
    \<and> canonicalize (fe_parse (we_fetch env)) (href root) = Some c
    \<and> sm = sitemap_seeds_of (we_fetch env) (we_entries env) (we_with_path env) (we_decode env) root settings
    \<and> r = website_result sm st \<and> 0 \<le> sm_skipped sm
    \<and> pages_ok (fe_parse (we_fetch env)) settings root (fst (we_crawl env (website_seeds settings c sm))) st \<and> links_ok settings st \<and> counts_ok st"
proof (cases "assert_safe_url (fe_parse (we_fetch env)) (we_root env) settings (j_location job)")
  case (Inl e)
  then show ?thesis using assms by (simp add: ingest_website_def Let_def)
next
  case (Inr root)
  let ?parse = "fe_parse (we_fetch env)"
  obtain c where c: "canonicalize ?parse (href root) = Some c"
    using assms Inr by (cases "canonicalize ?parse (href root)") (auto simp: ingest_website_def Let_def)
  define sm where "sm = sitemap_seeds_of (we_fetch env) (we_entries env) (we_with_path env) (we_decode env) root settings"
  obtain events pending crash where crawl: "we_crawl env (website_seeds settings c sm) = (events, pending, crash)"
    by (metis prod_cases3)
  define st where "st = fold (website_step ?parse settings root) events (website_start (website_seeds settings c sm) sm)"
  have sm: "0 \<le> sm_skipped sm" by (simp add: sm_def sitemap_skipped)
  have "ingest_website env job settings = website_outcome crash (website_result sm (settle_pending pending st))"
    using Inr c crawl by (simp add: ingest_website_def Let_def st_def sm_def [symmetric])
  then have "r = website_result sm (settle_pending pending st)"
    using assms by (simp add: reported_outcome)
  moreover have "pages_ok ?parse settings root events st \<and> links_ok settings st \<and> counts_ok st"
    unfolding st_def by (rule website_run_ok [OF website_start_ok [OF sm] subset_refl])
  ultimately show ?thesis
    using Inr c sm settle_pending_ok [of ?parse settings root events st pending] crawl
    by (intro exI [of _ root] exI [of _ c] exI [of _ sm] exI [of _ "settle_pending pending st"]) (simp add: sm_def)
qed

text \<open>
  Property C16. Whatever steps of handlers the crawling engine runs, in whatever order and with whatever handlers given
  up halfway, the pages that a website run reports have distinct URLs; each is what the handler makes of one of the
  loads of the run that was answered with a success or redirect status, under the canonical form of the URL where that load
  ended, which passed the URL check with the answer that DNS gave to this very handler and lies in the scope of the checked
  root; and no text or HTML is longer than the byte limit.
\<close>

theorem website_pages_confined:
  assumes "reported (ingest_website env job settings) = Some r"
  shows "distinct (map pg_url (ir_pages r))
    \<and> (\<exists>root c. assert_safe_url (fe_parse (we_fetch env)) (we_root env) settings (j_location job) = Inr root
         \<and> canonicalize (fe_parse (we_fetch env)) (href root) = Some c
         \<and> (let seeds = website_seeds settings c
                 (sitemap_seeds_of (we_fetch env) (we_entries env) (we_with_path env) (we_decode env) root settings)
            in list_all (page_from (fe_parse (we_fetch env)) settings root (fst (we_crawl env seeds))) (ir_pages r)))
    \<and> list_all (\<lambda>p. length (pg_text p) \<le> nat (cs_max_bytes settings) \<and> length (pg_html p) \<le> nat (cs_max_bytes settings)
         \<and> 200 \<le> pg_status p \<and> pg_status p < 400) (ir_pages r)"
proof -
  obtain root c sm st where run: "assert_safe_url (fe_parse (we_fetch env)) (we_root env) settings (j_location job) = Inr root"
      "canonicalize (fe_parse (we_fetch env)) (href root) = Some c"
      "sm = sitemap_seeds_of (we_fetch env) (we_entries env) (we_with_path env) (we_decode env) root settings"
      "r = website_result sm st" "pages_ok (fe_parse (we_fetch env)) settings root (fst (we_crawl env (website_seeds settings c sm))) st"
    using website_run [OF assms] by blast
  have "ir_pages r = ws_pages st" by (simp add: run(4) website_result_def Let_def)
  moreover have "distinct (map pg_url (ws_pages st) @ map fst (ws_open st))"
    using run(5) mset_eq_imp_distinct_iff [of "map pg_url (ws_pages st) @ map fst (ws_open st)" "ws_seen st"] by (simp add: pages_ok_def)
  moreover have "list_all (\<lambda>p. length (pg_text p) \<le> nat (cs_max_bytes settings) \<and> length (pg_html p) \<le> nat (cs_max_bytes settings)
         \<and> 200 \<le> pg_status p \<and> pg_status p < 400) (ws_pages st)"
    using run(5) page_from_bounded unfolding pages_ok_def list_all_iff by blast
  ultimately show ?thesis
    using run by (simp add: pages_ok_def Let_def)
qed

lemma push_when_simps [simp]: "set (push_when b d ds) = set ds \<union> (if b then {d} else {})"
  "length (push_when b d ds) = length ds + (if b then 1 else 0)"
  by (simp_all add: push_when_def)

lemma sorted_diagnostics_simps [simp]: "set (sorted_diagnostics ds) = set ds" "length (sorted_diagnostics ds) = length ds"
  by (simp_all add: sorted_diagnostics_def)

text \<open>
  The counts of a website run are consistent: none is negative, every fetched, failed or skipped
  page is among the discovered ones, at most 202 diagnostics are kept, and a run that failed or skipped
  a page says so in its diagnostics.
\<close>

theorem website_report:
  assumes "reported (ingest_website env job settings) = Some r"
  shows "0 \<le> ir_failed r \<and> 0 \<le> ir_skipped r \<and> 0 \<le> ir_redirected r
    \<and> int (length (ir_pages r)) + ir_failed r + ir_skipped r \<le> ir_discovered r
    \<and> length (ir_diagnostics r) \<le> 202
    \<and> (incomplete r \<longrightarrow> (\<exists>d\<in>set (ir_diagnostics r). dg_code d = ''website_partial_coverage'' \<and> dg_severity d = Warning))"
proof -
  obtain sm st where r: "r = website_result sm st" and st: "counts_ok st"
    using website_run [OF assms] by blast
  have "0 \<le> ir_failed r \<and> 0 \<le> ir_skipped r \<and> 0 \<le> ir_redirected r"
    and "int (length (ir_pages r)) + ir_failed r + ir_skipped r \<le> ir_discovered r"
    using st by (simp_all add: r website_result_def Let_def counts_ok_def)
  moreover have "length (ir_diagnostics r) \<le> 202"
    using st by (simp add: r website_result_def Let_def counts_ok_def)
  moreover have "\<exists>d\<in>set (ir_diagnostics r). dg_code d = ''website_partial_coverage'' \<and> dg_severity d = Warning"
    if "incomplete r"
  proof -
    have "0 < int (length (ws_failed st)) \<or> 0 < ws_skipped st"
      using that by (simp add: r website_result_def Let_def incomplete_def)
    then show ?thesis
      by (simp add: r website_result_def Let_def diagnose_def)
  qed
  ultimately show ?thesis by blast
qed

text \<open>
  A link that was refused for the page limit is enqueued the second time it is met: the check of the
  observed URLs comes before the check of the limit.
\<close>

lemma refused_link_enqueued_later:
  assumes "canonicalize parse v = Some c" "parse None c = Some u" "website_url_within_scope root u"
    and "c \<notin> set (ws_observed st)" "cs_max_pages settings \<le> int (length (ws_accepted st))"
  shows "\<exists>st'. link_filter parse settings root v st = (None, st') \<and> link_filter parse settings root v st' = (Some c, st')
    \<and> (c \<notin> set (ws_accepted st) \<longrightarrow> c \<notin> set (ws_accepted st'))"
  using assms by (simp add: link_filter_def Let_def)

section \<open>A sample run\<close>

definition sample_load :: page_load where
  "sample_load = \<lparr>pl_url = href sample_url, pl_loaded = None, pl_status = 200, pl_length = None, pl_type = None, pl_bytes = 2,
     pl_raw = ''hi'', pl_hidden = [], pl_main = ''hi'', pl_body = [], pl_html = ''hi'', pl_title = ''Guide'', pl_heading = [],
     pl_links = [href sample_url], pl_resolve = sample_resolver, pl_render = sample_resolver, pl_browser = (\<lambda>_ _. None)\<rparr>"

text \<open>A parser of one URL and of its canonical form.\<close>

definition plain_url :: url where
  "plain_url = canonical_url sample_url"

definition site_parse :: url_parser where
  "site_parse base v = (if v = href sample_url then Some sample_url else if v = href plain_url then Some plain_url else None)"

definition sample_site :: website_env where
  "sample_site = \<lparr>we_fetch = sample_fetch\<lparr>fe_parse := site_parse\<rparr>, we_root = sample_resolver, we_entries = (\<lambda>_. sample_resolver),
     we_with_path = (\<lambda>o' p. o' @ p), we_decode = Some, we_crawl = (\<lambda>seeds. ([Loaded sample_load, Acquired 0, Linked (href sample_url), Loaded sample_load], 0, None))\<rparr>"

definition site_job :: job where
  "site_job = sample_job\<lparr>j_source_kind := ''website'', j_location := href sample_url\<rparr>"

lemma site_resolves:
  assumes "check_form parse v = Inr u" "u_hostname u = ''docs.example''" "u_port u = []"
  shows "assert_safe_url parse sample_resolver sample_settings v = Inr u"
proof -
  have "check_port sample_settings (is_localhost_subdomain (strip_brackets (to_lower (u_hostname u)))) u = Inr ()"
  proof -
    have "\<not> is_localhost_subdomain (strip_brackets (to_lower ''docs.example''))" by code_simp
    then show ?thesis using assms by (simp add: check_port_def)
  qed
  moreover have "\<exists>es. resolve_addresses sample_resolver (strip_brackets (to_lower (u_hostname u))) = Inr es
      \<and> check_network (is_localhost_subdomain (strip_brackets (to_lower (u_hostname u)))) es = Inr ()"
  proof -
    have "strip_brackets (to_lower (u_hostname u)) = strip_brackets (to_lower (u_hostname sample_url))"
      using assms by (simp add: sample_url_def)
    moreover have "check_form sample_parse (href sample_url) = Inr sample_url" by code_simp
    ultimately show ?thesis
      using sample_resolves by (auto simp: resolve_safe_url_def Let_def)
  qed
  ultimately show ?thesis
    using assms(1) by (auto simp: assert_safe_url_def resolve_safe_url_def Let_def)
qed

lemma site_urls:
  "href plain_url \<noteq> href sample_url" "canonical_url plain_url = plain_url"
  "check_form site_parse (href sample_url) = Inr sample_url" "check_form site_parse (href plain_url) = Inr plain_url"
  "website_url_within_scope sample_url plain_url"
  "site_parse None (website_sitemap_url (\<lambda>o' p. o' @ p) sample_url) = None"
  by code_simp+

lemma site_hosts: "u_hostname sample_url = ''docs.example''" "u_port sample_url = []"
  "u_hostname plain_url = ''docs.example''" "u_port plain_url = []"
  by code_simp+

lemma site_canonical:
  "canonicalize site_parse (href sample_url) = Some (href plain_url)" "canonicalize site_parse (href plain_url) = Some (href plain_url)"
  "site_parse None (href plain_url) = Some plain_url"
  using site_urls(1,2) by (simp_all add: canonicalize_def site_parse_def plain_url_def [symmetric])

lemma site_check_final: "check_final site_parse sample_settings sample_url sample_load = Inr (href plain_url, href plain_url)"
  using site_resolves [OF site_urls(4) site_hosts(3,4)]
  by (simp add: check_final_def sample_load_def site_canonical site_urls)

lemma site_check_response: "check_response sample_settings sample_load = Inr ()"
  by code_simp

lemma site_links:
  "href plain_url \<in> set (ws_observed st) \<Longrightarrow>
     link_filter site_parse sample_settings sample_url (href sample_url) st = (Some (href plain_url), st)"
  by (simp add: link_filter_def site_canonical site_urls)

lemma site_run:
  assumes "href plain_url \<in> set (ws_observed st)" "ws_seen st = []" "ws_open st = []"
  shows "\<exists>st'. fold (website_step site_parse sample_settings sample_url) [Loaded sample_load, Acquired 0, Linked (href sample_url), Loaded sample_load] st = st'
    \<and> ws_pages st' = ws_pages st @ [page_of site_parse sample_settings sample_url (href plain_url) sample_load]
    \<and> ws_skipped st' = ws_skipped st + 1 \<and> ws_failed st' = ws_failed st"
  using assms by (simp add: visit_page_def acquire_page_def site_check_response site_check_final note_redirect_def site_links)

lemma site_seeds: "sitemap_seeds_of (we_fetch sample_site) resolvers (\<lambda>o' p. o' @ p) decode sample_url sample_settings = no_seeds"
proof -
  have "fst (secure_fetch (we_fetch sample_site) settings accept opts 0 (website_sitemap_url (\<lambda>o' p. o' @ p) sample_url) [])
      = Inl (job_error ''source_location_invalid'' ''Source location must be a valid HTTP(S) URL.'')" for settings accept opts
  proof -
    have "fe_parse (we_fetch sample_site) = site_parse" by (simp add: sample_site_def)
    moreover have "website_sitemap_url (\<lambda>o' p. o' @ p) sample_url = trim (website_sitemap_url (\<lambda>o' p. o' @ p) sample_url)
        \<and> website_sitemap_url (\<lambda>o' p. o' @ p) sample_url \<noteq> []"
      by code_simp
    ultimately show ?thesis
      using site_urls(6) by (simp add: secure_fetch.simps resolve_safe_url_def check_form_def)
  qed
  then show ?thesis by (simp add: sitemap_seeds_of_def Let_def)
qed

lemma site_parser: "fe_parse (we_fetch sample_site) = site_parse"
  by (simp add: sample_site_def)

lemma site_reported:
  "\<exists>r. reported (ingest_website sample_site site_job sample_settings) = Some r
     \<and> map pg_url (ir_pages r) = [href plain_url] \<and> ir_failed r = 0 \<and> ir_skipped r = 1"
proof -
  let ?seeds = "website_seeds sample_settings (href plain_url) no_seeds"
  have seeds: "?seeds = [href plain_url]"
    by (simp add: website_seeds_def no_seeds_def sample_settings_def)
  define st where "st = website_start ?seeds no_seeds"
  have "href plain_url \<in> set (ws_observed st)" "ws_seen st = []" "ws_open st = []" "ws_pages st = []" "ws_skipped st = 0" "ws_failed st = []"
    unfolding st_def website_start_def seeds by (simp_all add: no_seeds_def)
  then obtain st' where st': "fold (website_step site_parse sample_settings sample_url) [Loaded sample_load, Acquired 0, Linked (href sample_url), Loaded sample_load] st = st'"
      "map pg_url (ws_pages st') = [href plain_url]" "ws_skipped st' = 1" "ws_failed st' = []"
    using site_run [of st] by auto
  have env: "fe_parse (we_fetch sample_site) = site_parse" "we_root sample_site = sample_resolver"
      "we_with_path sample_site = (\<lambda>o' p. o' @ p)" "we_crawl sample_site seeds = ([Loaded sample_load, Acquired 0, Linked (href sample_url), Loaded sample_load], 0, None)"
      "j_location site_job = href sample_url" for seeds
    by (simp_all add: sample_site_def site_job_def)
  have "reported (ingest_website sample_site site_job sample_settings) = Some (website_result no_seeds st')"
    unfolding ingest_website_def Let_def env
    using site_resolves [OF site_urls(3) site_hosts(1,2)] st'(1)
    by (simp add: site_canonical site_seeds st_def [symmetric] reported_outcome settle_pending_def)
  then show ?thesis
    using st' by (simp add: website_result_def Let_def)
qed

theorem website_pages_confined_witness:
  "\<exists>r. reported (ingest_website sample_site site_job sample_settings) = Some r
     \<and> map pg_url (ir_pages r) = [href plain_url] \<and> distinct (map pg_url (ir_pages r))
     \<and> list_all (\<lambda>p. pg_status p < 400) (ir_pages r)"
proof -
  obtain r where r: "reported (ingest_website sample_site site_job sample_settings) = Some r" "map pg_url (ir_pages r) = [href plain_url]"
    by (rule exE [OF site_reported]) (elim conjE, rule that)
  note c = website_pages_confined [OF r(1)]
  have "list_all (\<lambda>p. pg_status p < 400) (ir_pages r)"
    using conjunct2 [OF conjunct2 [OF c]] by (rule list.pred_mono_strong) (elim conjE)
  then show ?thesis
    by (intro exI [of _ r] conjI r conjunct1 [OF c])
qed

theorem website_report_witness:
  "\<exists>r. reported (ingest_website sample_site site_job sample_settings) = Some r \<and> ir_skipped r = 1
     \<and> 2 \<le> ir_discovered r \<and> (\<exists>d\<in>set (ir_diagnostics r). dg_code d = ''website_partial_coverage'' \<and> dg_severity d = Warning)"
proof -
  obtain r where r: "reported (ingest_website sample_site site_job sample_settings) = Some r"
      "map pg_url (ir_pages r) = [href plain_url]" "ir_failed r = 0" "ir_skipped r = 1"
    by (rule exE [OF site_reported]) (elim conjE, rule that)
  have one: "length (ir_pages r) = 1" using arg_cong [OF r(2), of length] by simp
  have inc: "incomplete r" using r(4) by (simp add: incomplete_def)
  note c = website_report [OF r(1)]
  have disc: "2 \<le> ir_discovered r" using c r(3,4) one by simp
  have cover: "\<exists>d\<in>set (ir_diagnostics r). dg_code d = ''website_partial_coverage'' \<and> dg_severity d = Warning"
    using c inc by (elim conjE) (erule mp)
  show ?thesis
    by (rule exI [of _ r]) (intro conjI r disc cover)
qed

end
