(* ===== verification/OpenApi.thy ===== *)
theory OpenApi
  imports PinnedClient Sources
begin

text \<open>
  \<^verbatim>\<open>crawler/ingestion/openapi-candidate.ts\<close>: the index of operations, schemas and examples of an OpenAPI
  document, the map of the contract and its Markdown. The parsed document is a JSON object. The em
  dash U+2014, which no code unit below 256 stands for, is the argument \<open>dash\<close>.
\<close>

section \<open>Reading values\<close>

definition http_methods :: "string list" where
  "http_methods = [''get'', ''post'', ''put'', ''patch'', ''delete'', ''head'', ''options'', ''trace'']"

type_synonym json_object = "(string \<times> json) list"

fun object_value :: "json \<Rightarrow> json_object option" where
  "object_value (JObj kvs) = Some kvs"
| "object_value _ = None"

definition contract_text :: "json \<Rightarrow> string" where
  "contract_text v = (case v of JStr s \<Rightarrow> trim s | _ \<Rightarrow> [])"

definition unique_map_strings :: "string list \<Rightarrow> string list" where
  "unique_map_strings vs = js_sort compare_text (dedup (filter (\<lambda>v. v \<noteq> []) (map trim vs)))"

definition string_array :: "json \<Rightarrow> string list" where
  "string_array v = (case v of
     JArr vs \<Rightarrow> unique_map_strings (concat (map (\<lambda>v. case v of JStr s \<Rightarrow> [s] | _ \<Rightarrow> []) vs))
   | _ \<Rightarrow> [])"

definition own_ref :: "json_object \<Rightarrow> string list" where
  "own_ref kvs = (let r = contract_text (member kvs ''$ref'') in if r = [] then [] else [r])"

fun refs_of :: "json \<Rightarrow> string list" where
  "refs_of (JArr vs) = concat (map refs_of vs)"
| "refs_of (JObj kvs) = own_ref kvs @ concat (map (\<lambda>kv. refs_of (snd kv)) kvs)"
| "refs_of _ = []"

definition schema_refs :: "json \<Rightarrow> string list" where
  "schema_refs v = js_sort compare_text (dedup (refs_of v))"

definition sorted_entries :: "json_object \<Rightarrow> json_object" where
  "sorted_entries kvs = js_sort by_key kvs"

definition entries_of :: "json \<Rightarrow> json_object" where
  "entries_of v = sorted_entries (nullish (object_value v) [])"

definition to_upper :: "string \<Rightarrow> string" where
  "to_upper s = map upper_char s"

section \<open>Operations, schemas and examples\<close>

record contract_operation =
  op_logical :: string
  op_key :: string
  op_id :: string
  op_method :: string
  op_path :: string
  op_tags :: "string list"
  op_summary :: string
  op_description :: string
  op_security :: "json list"
  op_request_refs :: "string list"
  op_response_refs :: "string list"
  op_hash :: string
  op_ordinal :: nat

record contract_schema =
  sc_logical :: string
  sc_key :: string
  sc_document :: json_object
  sc_hash :: string

datatype example_kind = RequestExample | ResponseExample | WebhookExample

fun example_kind_text :: "example_kind \<Rightarrow> string" where
  "example_kind_text RequestExample = ''request''"
| "example_kind_text ResponseExample = ''response''"
| "example_kind_text WebhookExample = ''webhook''"

record contract_example =
  ex_logical :: string
  ex_operation :: "string option"
  ex_name :: string
  ex_kind :: example_kind
  ex_media :: string
  ex_status :: string
  ex_value :: json
  ex_hash :: string

text \<open>The examples of one media type: the unnamed one, then the named ones, unwrapped from \<^verbatim>\<open>value\<close>.\<close>

definition example_value :: "json \<Rightarrow> json" where
  "example_value v = (case object_value v of
     Some w \<Rightarrow> (case jm_get w ''value'' of Some x \<Rightarrow> x | None \<Rightarrow> v)
   | None \<Rightarrow> v)"

definition media_examples :: "json_object \<Rightarrow> json_object" where
  "media_examples media =
     (case jm_get media ''example'' of Some v \<Rightarrow> [(''default'', v)] | None \<Rightarrow> [])
     @ map (\<lambda>(name, v). (name, example_value v)) (entries_of (member media ''examples''))"

definition example_of :: "string \<Rightarrow> string \<Rightarrow> example_kind \<Rightarrow> string \<Rightarrow> string \<Rightarrow> string \<times> json \<Rightarrow> contract_example" where
  "example_of logical key kind status media nv =
     \<lparr>ex_logical = join '':'' [''example'', logical, example_kind_text kind, status, media, fst nv],
      ex_operation = Some logical,
      ex_name = join '' '' [key, example_kind_text kind, or_else status ''default'', media, fst nv],
      ex_kind = kind, ex_media = media, ex_status = status, ex_value = snd nv, ex_hash = sha256 (canonical_json (snd nv))\<rparr>"

definition examples_from_content ::
    "string \<Rightarrow> string \<Rightarrow> example_kind \<Rightarrow> string \<Rightarrow> json \<Rightarrow> contract_example list" where
  "examples_from_content logical key kind status content =
     concat (map (\<lambda>(media, v). case object_value v of
         None \<Rightarrow> []
       | Some m \<Rightarrow> map (example_of logical key kind status media) (media_examples m)) (entries_of content))"

definition optional_member :: "json \<Rightarrow> string \<Rightarrow> json" where
  "optional_member v k = (case object_value v of Some kvs \<Rightarrow> member kvs k | None \<Rightarrow> JUndef)"

definition operation_examples :: "string \<Rightarrow> string \<Rightarrow> json_object \<Rightarrow> contract_example list" where
  "operation_examples logical key operation =
     examples_from_content logical key RequestExample [] (optional_member (member operation ''requestBody'') ''content'')
     @ concat (map (\<lambda>(status, v). examples_from_content logical key ResponseExample status (optional_member v ''content''))
         (entries_of (member operation ''responses'')))"

text \<open>The state of the loop over the paths and methods.\<close>

record contract_index =
  ix_operations :: "contract_operation list"
  ix_examples :: "contract_example list"
  ix_ids :: "string list"
  ix_diagnostics :: "json_object list"

definition operation_security :: "json_object \<Rightarrow> json_object \<Rightarrow> json list" where
  "operation_security root operation =
     (case member operation ''security'' of
        JArr vs \<Rightarrow> vs
      | _ \<Rightarrow> (case member root ''security'' of JArr vs \<Rightarrow> vs | _ \<Rightarrow> []))"

definition short_id :: "string \<Rightarrow> string \<Rightarrow> string" where
  "short_id prefix v = prefix @ take 24 (sha256 v)"

definition duplicate_id :: "string \<Rightarrow> string \<Rightarrow> json_object" where
  "duplicate_id key i =
     [(''code'', JStr ''openapi_operation_id_duplicate''), (''severity'', JStr ''error''), (''operation_key'', JStr key),
      (''operation_id'', JStr i),
      (''message'', JStr ''A duplicate operationId was omitted from the extracted index; the normalized contract remains unchanged for review.'')]"

definition operation_of :: "json_object \<Rightarrow> string \<Rightarrow> string \<Rightarrow> string \<Rightarrow> json_object \<Rightarrow> string \<Rightarrow> nat \<Rightarrow> contract_operation" where
  "operation_of root hash path verb operation i ordinal =
     (let key = to_upper verb @ '' '' @ path in
      \<lparr>op_logical = short_id ''operation_'' (hash @ [nul] @ key), op_key = key, op_id = i, op_method = to_upper verb,
       op_path = path, op_tags = string_array (member operation ''tags''),
       op_summary = contract_text (member operation ''summary''), op_description = contract_text (member operation ''description''),
       op_security = operation_security root operation,
       op_request_refs = schema_refs (JObj [(''parameters'', member operation ''parameters''), (''requestBody'', member operation ''requestBody'')]),
       op_response_refs = schema_refs (member operation ''responses''),
       op_hash = sha256 (canonical_json (JObj operation)), op_ordinal = ordinal\<rparr>)"

definition add_operation :: "json_object \<Rightarrow> string \<Rightarrow> string \<Rightarrow> string \<times> json \<Rightarrow> contract_index \<Rightarrow> contract_index" where
  "add_operation root hash path entry ix =
     (let verb = to_lower (fst entry) in
      if verb \<notin> set http_methods then ix
      else (case object_value (snd entry) of
          None \<Rightarrow> ix
        | Some operation \<Rightarrow>
            let stated = contract_text (member operation ''operationId'');
                duplicate = stated \<noteq> [] \<and> stated \<in> set (ix_ids ix);
                op = operation_of root hash path verb operation (if duplicate then [] else stated) (length (ix_operations ix))
            in ix\<lparr>ix_operations := ix_operations ix @ [op],
                 ix_examples := ix_examples ix @ operation_examples (op_logical op) (op_key op) operation,
                 ix_ids := (if stated \<noteq> [] \<and> \<not> duplicate then ix_ids ix @ [stated] else ix_ids ix),
                 ix_diagnostics := ix_diagnostics ix @ (if duplicate then [duplicate_id (op_key op) stated] else [])\<rparr>))"

definition add_path :: "json_object \<Rightarrow> string \<Rightarrow> string \<times> json \<Rightarrow> contract_index \<Rightarrow> contract_index" where
  "add_path root hash entry ix =
     (if \<not> starts_with (fst entry) ''/'' then ix
      else fold (add_operation root hash (fst entry)) (entries_of (snd entry)) ix)"

definition contract_index_of :: "json_object \<Rightarrow> string \<Rightarrow> json \<Rightarrow> contract_index" where
  "contract_index_of root hash paths =
     fold (add_path root hash) (entries_of paths) \<lparr>ix_operations = [], ix_examples = [], ix_ids = [], ix_diagnostics = []\<rparr>"

definition schemas_root :: "json_object \<Rightarrow> json" where
  "schemas_root root =
     (let schemas = optional_member (member root ''components'') ''schemas''
      in if is_object schemas then schemas else member root ''definitions'')"

definition add_schema :: "string \<Rightarrow> string \<times> json \<Rightarrow> contract_schema list \<times> json_object list \<Rightarrow> contract_schema list \<times> json_object list" where
  "add_schema hash entry acc =
     (case object_value (snd entry) of
        None \<Rightarrow> (fst acc, snd acc @ [[(''code'', JStr ''openapi_schema_skipped''), (''severity'', JStr ''warning''),
          (''schema_key'', JStr (fst entry)), (''message'', JStr ''The schema value is not an object.'')]])
      | Some doc \<Rightarrow> (fst acc @ [\<lparr>sc_logical = short_id ''schema_'' (hash @ [nul] @ fst entry), sc_key = fst entry,
          sc_document = doc, sc_hash = sha256 (canonical_json (JObj doc))\<rparr>], snd acc))"

section \<open>The map of the contract\<close>

datatype map_entry =
  MapEntry (me_id: string) (me_kind: string) (me_title: string) (me_summary: string)
    (me_aliases: "string list option") (me_children: "map_entry list option")

record map_gap =
  gp_kind :: string
  gp_description :: string
  gp_evidence :: "string list option"

record contract_map =
  cm_overview :: string
  cm_servers :: "string list option"
  cm_authentication :: "map_entry list option"
  cm_capabilities :: "map_entry list"
  cm_operations :: "map_entry list"
  cm_schemas :: "map_entry list option"
  cm_errors :: "map_entry list option"
  cm_pagination :: "map_entry list option"
  cm_webhooks :: "map_entry list option"
  cm_gaps :: "map_gap list option"
  cm_warnings :: "string list option"

definition when_any :: "'a list \<Rightarrow> 'a list option" where
  "when_any xs = (if xs = [] then None else Some xs)"

definition operation_map_entry :: "contract_operation \<Rightarrow> map_entry" where
  "operation_map_entry op =
     MapEntry (''operation:'' @ op_logical op) ''operation'' (or_else (op_id op) (op_key op))
       (or_else (op_summary op) (or_else (op_description op) (op_method op @ '' operation at '' @ op_path op @ ''.'')))
       (when_any (unique_map_strings ([op_id op, op_key op, op_method op, op_path op] @ op_tags op))) None"

definition error_status :: "string \<Rightarrow> bool" where
  "error_status s \<longleftrightarrow> length s = 3 \<and> s ! 0 \<in> set ''45''
     \<and> (is_digit (s ! 1) \<and> is_digit (s ! 2) \<or> to_lower (drop 1 s) = ''xx'')"

definition error_entry ::
    "string \<Rightarrow> (string \<times> contract_operation) list \<Rightarrow> string \<Rightarrow> string \<Rightarrow> string \<times> json \<Rightarrow> map_entry list" where
  "error_entry dash by_operation path verb entry =
     (let status = to_upper (fst entry); key = to_upper verb @ '' '' @ path; operation = jm_get by_operation key;
          evidence = (case operation of Some op \<Rightarrow> ''operation:'' @ op_logical op | None \<Rightarrow> key)
      in if \<not> error_status (fst entry) then []
         else [MapEntry (evidence @ '':response:'' @ status) ''error_response'' (key @ '' '' @ dash @ '' '' @ status)
           (or_else (contract_text (optional_member (snd entry) ''description'')) (''Documented '' @ status @ '' error response.''))
           (Some (unique_map_strings [status, case operation of Some op \<Rightarrow> op_id op | None \<Rightarrow> [],
              case operation of Some op \<Rightarrow> op_key op | None \<Rightarrow> []])) None])"

definition contract_error_entries :: "string \<Rightarrow> json_object \<Rightarrow> contract_operation list \<Rightarrow> map_entry list" where
  "contract_error_entries dash root operations =
     (let by_operation = jm_of_list (map (\<lambda>op. (op_key op, op)) operations) in
      concat (map (\<lambda>(path, item). concat (map (\<lambda>(raw, v).
        let verb = to_lower raw in
        if verb \<notin> set http_methods then []
        else concat (map (error_entry dash by_operation path verb) (entries_of (optional_member v ''responses''))))
          (entries_of item))) (entries_of (member root ''paths''))))"

definition tags_or_general :: "contract_operation \<Rightarrow> string list" where
  "tags_or_general op = (if op_tags op \<noteq> [] then op_tags op else [''General''])"

definition by_tag :: "contract_operation list \<Rightarrow> (string \<times> map_entry list) list" where
  "by_tag operations =
     fold (\<lambda>op m. fold (\<lambda>tag m. jm_set tag (nullish (jm_get m tag) [] @ [operation_map_entry op]) m) (tags_or_general op) m)
       operations []"

definition capability_entry :: "string \<times> map_entry list \<Rightarrow> map_entry" where
  "capability_entry tc =
     MapEntry (short_id ''capability_'' (to_lower (fst tc))) ''capability'' (fst tc)
       (nat_str (length (snd tc)) @ '' operation(s) grouped under the '' @ fst tc @ '' capability.'')
       (Some [fst tc]) (Some (snd tc))"

definition security_names :: "contract_operation list \<Rightarrow> string list" where
  "security_names operations =
     concat (map (\<lambda>op. concat (map (\<lambda>r. map fst (nullish (object_value r) [])) (op_security op))) operations)"

definition authentication_entry :: "json_object \<Rightarrow> string \<Rightarrow> map_entry" where
  "authentication_entry schemes name =
     (let scheme = member schemes name; kind = contract_text (optional_member scheme ''type'');
          verb = contract_text (optional_member scheme ''scheme'');
          detail = join '' / '' (unique_map_strings [kind, verb, contract_text (optional_member scheme ''bearerFormat'')])
      in MapEntry (short_id ''security_scheme_'' name) ''authentication'' name
        (if is_object scheme then or_else detail ''OpenAPI'' @ '' security scheme defined by the contract.''
         else ''Security scheme referenced by an operation but missing from components.securitySchemes.'')
        (Some (unique_map_strings [name, kind, verb])) None)"

definition schema_entry :: "contract_schema \<Rightarrow> map_entry" where
  "schema_entry s =
     MapEntry (''schema:'' @ sc_logical s) ''schema'' (sc_key s)
       (or_else (contract_text (member (sc_document s) ''description''))
         (or_else (contract_text (member (sc_document s) ''type'')) ''OpenAPI'' @ '' schema named '' @ sc_key s @ ''.''))
       (Some (unique_map_strings [sc_key s, ''#/components/schemas/'' @ sc_key s])) None"

definition pagination_rx :: rx where
  "pagination_rx = seqs [WordEdge, words_i [''page'', ''pagination'', ''cursor'', ''offset'', ''limit'', ''continuation''], WordEdge]"

definition paginated :: "contract_operation \<Rightarrow> bool" where
  "paginated op = rx_test pagination_rx (join '' '' ([op_key op, op_id op, op_summary op, op_description op]
     @ op_request_refs op @ op_response_refs op))"

definition with_kind :: "string \<Rightarrow> map_entry \<Rightarrow> map_entry" where
  "with_kind k e = MapEntry (me_id e) k (me_title e) (me_summary e) (me_aliases e) (me_children e)"

definition webhook_entry :: "string \<times> json \<Rightarrow> map_entry" where
  "webhook_entry nv =
     MapEntry (short_id ''webhook_'' (fst nv)) ''webhook'' (fst nv)
       (or_else (contract_text (optional_member (snd nv) ''description''))
         (''Webhook '' @ fst nv @ '' declared by the OpenAPI contract.'')) (Some [fst nv]) None"

definition string_member :: "json_object \<Rightarrow> string \<Rightarrow> string \<Rightarrow> string" where
  "string_member d k fallback = (case member d k of JStr s \<Rightarrow> s | _ \<Rightarrow> fallback)"

definition gap_of :: "json_object \<Rightarrow> map_gap" where
  "gap_of d =
     \<lparr>gp_kind = string_member d ''code'' ''contract_quality'',
      gp_description = string_member d ''message'' ''Contract quality diagnostic requires review.'',
      gp_evidence = when_any (unique_map_strings [string_member d ''operation_key'' [], string_member d ''schema_key'' []])\<rparr>"

definition warning_of :: "json_object \<Rightarrow> string" where
  "warning_of d = string_member d ''code'' ''contract_quality'' @ '': '' @ string_member d ''message'' ''Review required.''"

definition server_urls :: "json_object \<Rightarrow> string list" where
  "server_urls root = (case member root ''servers'' of
     JArr vs \<Rightarrow> unique_map_strings (map (\<lambda>v. contract_text (optional_member v ''url'')) vs)
   | _ \<Rightarrow> [])"

definition contract_map_body ::
    "string \<Rightarrow> json_object \<Rightarrow> string \<Rightarrow> contract_operation list \<Rightarrow> contract_schema list \<Rightarrow> contract_example list
      \<Rightarrow> json_object list \<Rightarrow> contract_map" where
  "contract_map_body dash root version operations schemas examples diagnostics =
     (let schemes = nullish (object_value (optional_member (member root ''components'') ''securitySchemes'')) [] in
      \<lparr>cm_overview = ''OpenAPI '' @ version @ '' contract with '' @ nat_str (length operations) @ '' operation(s), ''
         @ nat_str (length schemas) @ '' schema(s), and '' @ nat_str (length examples) @ '' extracted example(s).'',
       cm_servers = when_any (server_urls root),
       cm_authentication = when_any (map (authentication_entry schemes) (unique_map_strings (map fst schemes @ security_names operations))),
       cm_capabilities = map capability_entry (js_sort by_key (by_tag operations)),
       cm_operations = map operation_map_entry operations,
       cm_schemas = when_any (map schema_entry schemas),
       cm_errors = when_any (contract_error_entries dash root operations),
       cm_pagination = when_any (map (\<lambda>op. with_kind ''pagination'' (operation_map_entry op)) (filter paginated operations)),
       cm_webhooks = when_any (map webhook_entry (entries_of (member root ''webhooks''))),
       cm_gaps = when_any (map gap_of diagnostics),
       cm_warnings = when_any (unique_map_strings (map warning_of diagnostics))\<rparr>)"

definition operation_line :: "string \<Rightarrow> contract_operation \<Rightarrow> string" where
  "operation_line dash op =
     ''- '' @ op_method op @ '' '' @ op_path op @ '' '' @ dash @ '' evidence `operation:'' @ op_logical op @ ''`''
       @ (if op_summary op = [] then [] else '' '' @ dash @ '' '' @ replace_runs is_ws '' '' (op_summary op))"

definition map_markdown :: "string \<Rightarrow> string \<Rightarrow> contract_operation list \<Rightarrow> contract_schema list \<Rightarrow> string" where
  "map_markdown dash version operations schemas =
     trim (join [newline]
       ([''# API Contract Map'', [], ''OpenAPI version: '' @ version, ''Operations: '' @ nat_str (length operations),
         ''Schemas: '' @ nat_str (length schemas), [], ''## Operations'', []]
        @ (if operations = [] then [''- None''] else []) @ map (operation_line dash) operations
        @ [[], ''## Schemas'', []] @ (if schemas = [] then [''- None''] else [])
        @ map (\<lambda>s. ''- '' @ sc_key s @ '' '' @ dash @ '' evidence `schema:'' @ sc_logical s @ ''`'') schemas)) @ [newline]"

section \<open>The map as JSON\<close>

definition json_optional :: "('a \<Rightarrow> json) \<Rightarrow> 'a list option \<Rightarrow> json" where
  "json_optional f v = (case v of None \<Rightarrow> JUndef | Some xs \<Rightarrow> JArr (map f xs))"

fun json_entry :: "map_entry \<Rightarrow> json" where
  "json_entry (MapEntry i k t s aliases children) =
     JObj [(''id'', JStr i), (''kind'', JStr k), (''title'', JStr t), (''summary'', JStr s),
       (''aliases'', json_optional JStr aliases),
       (''children'', case children of None \<Rightarrow> JUndef | Some es \<Rightarrow> JArr (map json_entry es))]"

definition json_gap :: "map_gap \<Rightarrow> json" where
  "json_gap g = JObj [(''kind'', JStr (gp_kind g)), (''description'', JStr (gp_description g)),
     (''evidence_ids'', json_optional JStr (gp_evidence g))]"

definition json_contract_map :: "contract_map \<Rightarrow> json" where
  "json_contract_map m = JObj [(''overview'', JStr (cm_overview m)), (''servers'', json_optional JStr (cm_servers m)),
     (''authentication'', json_optional json_entry (cm_authentication m)),
     (''capabilities'', JArr (map json_entry (cm_capabilities m))), (''operations'', JArr (map json_entry (cm_operations m))),
     (''schemas'', json_optional json_entry (cm_schemas m)), (''errors'', json_optional json_entry (cm_errors m)),
     (''pagination'', json_optional json_entry (cm_pagination m)), (''webhooks'', json_optional json_entry (cm_webhooks m)),
     (''gaps'', json_optional json_gap (cm_gaps m)), (''quality_warnings'', json_optional JStr (cm_warnings m))]"

section \<open>The candidate\<close>

record openapi_candidate =
  oc_logical :: string
  oc_format :: openapi_format
  oc_version :: string
  oc_contract :: json
  oc_source_hash :: string
  oc_hash :: string
  oc_operations :: "contract_operation list"
  oc_schemas :: "contract_schema list"
  oc_examples :: "contract_example list"
  oc_map :: contract_map
  oc_markdown :: string
  oc_map_hash :: string
  oc_diagnostics :: "json_object list"

text \<open>\<^verbatim>\<open>JSON.parse(canonicalJSON(root))\<close> is the canonical value of the document.\<close>

definition candidate_of :: "string \<Rightarrow> string \<Rightarrow> openapi_format \<Rightarrow> string \<Rightarrow> json_object \<Rightarrow> openapi_candidate" where
  "candidate_of dash content format version root =
     (let contract = canonical_value (JObj root); hash = sha256 (canonical_json contract);
          ix = contract_index_of root hash (member root ''paths'');
          schemas_diagnostics = fold (add_schema hash) (entries_of (schemas_root root)) ([], ix_diagnostics ix);
          schemas = fst schemas_diagnostics; diagnostics = snd schemas_diagnostics;
          body = contract_map_body dash root version (ix_operations ix) schemas (ix_examples ix) diagnostics;
          markdown = map_markdown dash version (ix_operations ix) schemas
      in \<lparr>oc_logical = short_id ''contract_candidate_'' (canonical_json contract), oc_format = format, oc_version = version,
          oc_contract = contract, oc_source_hash = sha256 content, oc_hash = hash, oc_operations = ix_operations ix,
          oc_schemas = schemas, oc_examples = ix_examples ix, oc_map = body, oc_markdown = markdown,
          oc_map_hash = sha256 (canonical_json (JObj [(''structuredMap'', json_contract_map body), (''agentMarkdown'', JStr markdown)])),
          oc_diagnostics = diagnostics\<rparr>)"

definition build_openapi_candidate ::
    "(string \<Rightarrow> openapi_format \<Rightarrow> js_error + json) \<Rightarrow> string \<Rightarrow> string \<Rightarrow> openapi_format \<Rightarrow> js_error + openapi_candidate" where
  "build_openapi_candidate parse dash content format =
     bind_result (parse content format) (\<lambda>parsed.
     case object_value parsed of
       None \<Rightarrow> Inl (TypeError ''The OpenAPI source must parse to an object.'')
     | Some root \<Rightarrow>
         let version = or_else (contract_text (member root ''openapi'')) (contract_text (member root ''swagger'')) in
         if version = [] \<or> \<not> is_object (member root ''paths'')
         then Inl (TypeError ''The OpenAPI source is missing its version or paths object.'')
         else Inr (candidate_of dash content format version root))"

section \<open>References\<close>

text \<open>A value refers to \<open>r\<close> when \<open>r\<close> is the trimmed text of a \<^verbatim>\<open>$ref\<close> member somewhere in it.\<close>

inductive refers :: "json \<Rightarrow> string \<Rightarrow> bool" where
  refers_here: "contract_text (member kvs ''$ref'') = r \<Longrightarrow> r \<noteq> [] \<Longrightarrow> refers (JObj kvs) r"
| refers_item: "v \<in> set vs \<Longrightarrow> refers v r \<Longrightarrow> refers (JArr vs) r"
| refers_field: "(k, v) \<in> set kvs \<Longrightarrow> refers v r \<Longrightarrow> refers (JObj kvs) r"

inductive_cases refers_objE: "refers (JObj kvs) r"
inductive_cases refers_arrE: "refers (JArr vs) r"
inductive_simps refers_leaf [simp]: "refers JUndef r" "refers JNull r" "refers (JBool b) r" "refers (JNum n) r" "refers (JDec m w ds) r" "refers (JStr s) r"

lemma own_ref_set: "set (own_ref kvs) = {r. r = contract_text (member kvs ''$ref'') \<and> r \<noteq> []}"
  by (auto simp: own_ref_def Let_def)

lemma refs_of_refers: "r \<in> set (refs_of v) \<longleftrightarrow> refers v r"
proof (induction v)
  case (JArr vs)
  then show ?case by (auto intro: refers_item elim: refers_arrE)
next
  case (JObj kvs)
  have "(\<exists>kv\<in>set kvs. r \<in> set (refs_of (snd kv))) \<longleftrightarrow> (\<exists>k v. (k, v) \<in> set kvs \<and> refers v r)"
  proof -
    have "r \<in> set (refs_of (snd kv)) \<longleftrightarrow> refers (snd kv) r" if "kv \<in> set kvs" for kv
      using JObj [OF that, of "snd kv"] by (cases kv) auto
    then show ?thesis by (metis prod.collapse snd_conv)
  qed
  then have "r \<in> set (refs_of (JObj kvs)) \<longleftrightarrow>
      r = contract_text (member kvs ''$ref'') \<and> r \<noteq> [] \<or> (\<exists>k v. (k, v) \<in> set kvs \<and> refers v r)"
    by (simp only: refs_of.simps set_append Un_iff set_concat own_ref_set mem_Collect_eq UN_iff set_map) auto
  then show ?case by (metis refers_field refers_here refers_objE)
qed simp_all

lemma sorted_compare_text: "sorted (js_sort compare_text xs)"
proof -
  have eq: "compare_text = (cmp_by (\<lambda>s. s) :: string \<Rightarrow> string \<Rightarrow> int)"
    by (intro ext) (simp add: compare_text_def cmp_by_def)
  show ?thesis
    using comparator.sort_sorted [OF comparator_cmp_by, of "\<lambda>s :: string. s" xs] by (simp add: eq cmp_by_le)
qed

lemma unique_map_strings_set: "set (unique_map_strings vs) = {v \<in> trim ` set vs. v \<noteq> []}"
  by (auto simp: unique_map_strings_def)

lemma unique_map_strings_sorted: "sorted (unique_map_strings vs)" "distinct (unique_map_strings vs)"
  by (simp_all add: unique_map_strings_def sorted_compare_text)

text \<open>
  The schema references of an operation are exactly the texts of the \<^verbatim>\<open>$ref\<close> members at any depth of
  its parameters and body or of its responses, each once and in order.
\<close>

theorem schema_refs_exact:
  "(r \<in> set (schema_refs v) \<longleftrightarrow> refers v r) \<and> sorted (schema_refs v) \<and> distinct (schema_refs v)"
  by (simp add: schema_refs_def refs_of_refers sorted_compare_text)

section \<open>The index of operations\<close>

text \<open>The operations that a document states, in the order of the paths and of the methods.\<close>

definition stated_methods :: "string \<times> json \<Rightarrow> (string \<times> string \<times> json_object) list" where
  "stated_methods entry =
     concat (map (\<lambda>(raw, v). if to_lower raw \<notin> set http_methods then []
       else (case object_value v of None \<Rightarrow> [] | Some operation \<Rightarrow> [(fst entry, to_lower raw, operation)])) (entries_of (snd entry)))"

definition stated_operations :: "json \<Rightarrow> (string \<times> string \<times> json_object) list" where
  "stated_operations paths =
     concat (map (\<lambda>entry. if starts_with (fst entry) ''/'' then stated_methods entry else []) (entries_of paths))"

definition stated_id :: "string \<times> string \<times> json_object \<Rightarrow> string" where
  "stated_id p = contract_text (member (snd (snd p)) ''operationId'')"

definition add_stated :: "json_object \<Rightarrow> string \<Rightarrow> string \<times> string \<times> json_object \<Rightarrow> contract_index \<Rightarrow> contract_index" where
  "add_stated root hash p ix = add_operation root hash (fst p) (fst (snd p), JObj (snd (snd p))) ix"

lemma lower_methods: "m \<in> set http_methods \<Longrightarrow> to_lower m = m"
proof -
  have "list_all (\<lambda>m. to_lower m = m) http_methods" by code_simp
  then show "m \<in> set http_methods \<Longrightarrow> to_lower m = m" by (simp add: list_all_iff)
qed

lemma fold_stated_methods:
  "fold (add_operation root hash path) es ix =
     fold (add_stated root hash) (concat (map (\<lambda>(raw, v). if to_lower raw \<notin> set http_methods then []
       else (case object_value v of None \<Rightarrow> [] | Some operation \<Rightarrow> [(path, to_lower raw, operation)])) es)) ix"
proof (induction es arbitrary: ix)
  case (Cons e es)
  have "add_operation root hash path e ix = fold (add_stated root hash)
     (case e of (raw, v) \<Rightarrow> if to_lower raw \<notin> set http_methods then []
       else (case object_value v of None \<Rightarrow> [] | Some operation \<Rightarrow> [(path, to_lower raw, operation)])) ix"
    by (cases e) (simp add: add_operation_def add_stated_def Let_def split: option.split)
  with Cons show ?case by simp
qed simp

lemma contract_index_stated:
  "contract_index_of root hash paths =
     fold (add_stated root hash) (stated_operations paths) \<lparr>ix_operations = [], ix_examples = [], ix_ids = [], ix_diagnostics = []\<rparr>"
proof -
  have "fold (add_path root hash) es ix = fold (add_stated root hash)
      (concat (map (\<lambda>entry. if starts_with (fst entry) ''/'' then stated_methods entry else []) es)) ix" for es ix
    by (induction es arbitrary: ix) (auto simp: add_path_def stated_methods_def fold_stated_methods)
  then show ?thesis by (simp add: contract_index_of_def stated_operations_def)
qed

lemma stated_method: "p \<in> set (stated_operations paths) \<Longrightarrow> fst (snd p) \<in> set http_methods"
  by (auto simp: stated_operations_def stated_methods_def split: if_splits option.splits)

text \<open>The index after a prefix of the stated operations.\<close>

definition kept_id :: "(string \<times> string \<times> json_object) list \<Rightarrow> nat \<Rightarrow> string" where
  "kept_id ps i = (if stated_id (ps ! i) \<in> stated_id ` set (take i ps) then [] else stated_id (ps ! i))"

definition indexed :: "json_object \<Rightarrow> string \<Rightarrow> (string \<times> string \<times> json_object) list \<Rightarrow> nat \<Rightarrow> contract_operation" where
  "indexed root hash ps i =
     (case ps ! i of (path, verb, operation) \<Rightarrow> operation_of root hash path verb operation (kept_id ps i) i)"

lemma kept_id_append: "i < length ps \<Longrightarrow> kept_id (ps @ qs) i = kept_id ps i"
  by (simp add: kept_id_def nth_append)

lemma indexed_append: "i < length ps \<Longrightarrow> indexed root hash (ps @ qs) i = indexed root hash ps i"
  by (simp add: indexed_def kept_id_append nth_append)

lemma index_prefix:
  assumes "list_all (\<lambda>p. fst (snd p) \<in> set http_methods) ps"
  shows "let ix = fold (add_stated root hash) ps \<lparr>ix_operations = [], ix_examples = [], ix_ids = [], ix_diagnostics = []\<rparr>
    in ix_operations ix = map (indexed root hash ps) [0..<length ps] \<and> set (ix_ids ix) = stated_id ` set ps - {[]}
      \<and> ix_diagnostics ix = map (\<lambda>i. duplicate_id (op_key (indexed root hash ps i)) (stated_id (ps ! i)))
          (filter (\<lambda>i. stated_id (ps ! i) \<noteq> [] \<and> kept_id ps i = []) [0..<length ps])"
  using assms
proof (induction ps rule: rev_induct)
  case (snoc p ps)
  define ix where "ix = fold (add_stated root hash) ps \<lparr>ix_operations = [], ix_examples = [], ix_ids = [], ix_diagnostics = []\<rparr>"
  define n where "n = length ps"
  have IH: "ix_operations ix = map (indexed root hash ps) [0..<n]" "set (ix_ids ix) = stated_id ` set ps - {[]}"
      "ix_diagnostics ix = map (\<lambda>i. duplicate_id (op_key (indexed root hash ps i)) (stated_id (ps ! i)))
          (filter (\<lambda>i. stated_id (ps ! i) \<noteq> [] \<and> kept_id ps i = []) [0..<n])"
    using snoc by (simp_all add: ix_def n_def Let_def)
  obtain path verb operation where p: "p = (path, verb, operation)" by (cases p)
  have verb: "verb \<in> set http_methods" "to_lower verb = verb"
    using snoc.prems lower_methods by (simp_all add: p)
  have kept: "kept_id (ps @ [p]) n = (if stated_id p \<noteq> [] \<and> stated_id p \<in> set (ix_ids ix) then [] else stated_id p)"
    by (simp add: kept_id_def n_def IH(2))
  have last: "indexed root hash (ps @ [p]) n = operation_of root hash path verb operation (kept_id (ps @ [p]) n) n"
    by (simp add: indexed_def n_def p)
  have old: "map (indexed root hash (ps @ [p])) [0..<n] = map (indexed root hash ps) [0..<n]"
    by (simp add: indexed_append n_def)
  have old_diagnostics: "map (\<lambda>i. duplicate_id (op_key (indexed root hash (ps @ [p]) i)) (stated_id ((ps @ [p]) ! i)))
        (filter (\<lambda>i. stated_id ((ps @ [p]) ! i) \<noteq> [] \<and> kept_id (ps @ [p]) i = []) [0..<n])
      = ix_diagnostics ix"
    unfolding IH(3)
    by (rule map_cong [OF filter_cong [OF refl]]) (auto simp: indexed_append kept_id_append n_def nth_append)
  define dup where "dup \<longleftrightarrow> stated_id p \<noteq> [] \<and> stated_id p \<in> set (ix_ids ix)"
  define op where "op = operation_of root hash path verb operation (if dup then [] else stated_id p) n"
  have len: "length (ix_operations ix) = n" by (simp add: IH(1))
  have step: "add_stated root hash p ix = ix\<lparr>ix_operations := ix_operations ix @ [op],
      ix_examples := ix_examples ix @ operation_examples (op_logical op) (op_key op) operation,
      ix_ids := (if stated_id p \<noteq> [] \<and> \<not> dup then ix_ids ix @ [stated_id p] else ix_ids ix),
      ix_diagnostics := ix_diagnostics ix @ (if dup then [duplicate_id (op_key op) (stated_id p)] else [])\<rparr>"
    using verb by (simp add: add_stated_def add_operation_def Let_def p stated_id_def op_def dup_def len)
  have op: "op = indexed root hash (ps @ [p]) n"
    unfolding last kept dup_def op_def ..
  have new: "[0..<length (ps @ [p])] = [0..<n] @ [n]" "(ps @ [p]) ! n = p"
    by (simp_all add: n_def)
  have dup: "dup \<longleftrightarrow> stated_id p \<noteq> [] \<and> kept_id (ps @ [p]) n = []"
    by (auto simp: kept dup_def)
  have ids: "set (if stated_id p \<noteq> [] \<and> \<not> dup then ix_ids ix @ [stated_id p] else ix_ids ix) = stated_id ` set (ps @ [p]) - {[]}"
    using IH(2) by (auto simp: dup_def)
  have folded: "fold (add_stated root hash) (ps @ [p]) \<lparr>ix_operations = [], ix_examples = [], ix_ids = [], ix_diagnostics = []\<rparr>
      = add_stated root hash p ix"
    by (simp add: ix_def)
  show ?case
    unfolding folded step Let_def new(1) map_append filter_append old_diagnostics old
    using ids by (simp add: IH(1) op [symmetric] new(2) dup)
qed (simp add: Let_def)

text \<open>
  Property C18. The index has one operation for each that the document states under a path that begins with a
  slash and a known method, in the order of paths and methods, numbered from zero; it keeps an
  operation's identifier the first time it is used, and reports and drops it every later time.
\<close>

theorem contract_index_exact:
  "let ps = stated_operations paths; ix = contract_index_of root hash paths in
     ix_operations ix = map (indexed root hash ps) [0..<length ps]
     \<and> ix_diagnostics ix = map (\<lambda>i. duplicate_id (op_key (indexed root hash ps i)) (stated_id (ps ! i)))
         (filter (\<lambda>i. stated_id (ps ! i) \<noteq> [] \<and> kept_id ps i = []) [0..<length ps])"
  using index_prefix [of "stated_operations paths" root hash] stated_method [of _ paths]
  by (simp add: contract_index_stated list_all_iff Let_def)

lemma index_operations: "ix_operations (contract_index_of root hash paths)
    = map (indexed root hash (stated_operations paths)) [0..<length (stated_operations paths)]"
  using index_prefix [of "stated_operations paths" root hash] stated_method [of _ paths]
  by (simp add: contract_index_stated list_all_iff Let_def)

lemma indexed_id [simp]: "op_id (indexed root hash ps i) = kept_id ps i"
  by (simp add: indexed_def operation_of_def Let_def split: prod.split)

lemma kept_ids_distinct: "distinct (filter (\<lambda>i. i \<noteq> []) (map (kept_id ps) [0..<length ps]))"
proof -
  have inj: "i = j" if "i < length ps" "j < length ps" "kept_id ps i \<noteq> []" "kept_id ps i = kept_id ps j" for i j
  proof -
    have *: "\<not> i < j" if "i < length ps" "j < length ps" "kept_id ps i \<noteq> []" "kept_id ps i = kept_id ps j" for i j
    proof
      assume "i < j"
      then have "ps ! i \<in> set (take j ps)" using that by (auto simp: in_set_conv_nth intro!: exI [of _ i])
      then have "stated_id (ps ! i) \<in> stated_id ` set (take j ps)" by (rule imageI)
      moreover have "kept_id ps k = stated_id (ps ! k) \<and> stated_id (ps ! k) \<notin> stated_id ` set (take k ps)"
        if "kept_id ps k \<noteq> []" for k
        using that by (simp add: kept_id_def split: if_splits)
      ultimately show False using that by metis
    qed
    show ?thesis using * [of i j] * [of j i] that by (metis linorder_neqE_nat)
  qed
  have "distinct (map (kept_id ps) (filter (\<lambda>i. kept_id ps i \<noteq> []) [0..<length ps]))"
    by (simp add: distinct_map) (auto intro!: inj_onI inj)
  then show ?thesis by (simp add: filter_map comp_def)
qed

section \<open>The capabilities\<close>

lemma by_tag_get:
  assumes "list_all (\<lambda>op. distinct (tags_or_general op)) ops"
  shows "jm_get (by_tag ops) t = (let es = map operation_map_entry (filter (\<lambda>op. t \<in> set (tags_or_general op)) ops)
    in if es = [] then None else Some es) \<and> distinct (map fst (by_tag ops))"
  using assms
proof (induction ops rule: rev_induct)
  case Nil
  then show ?case by (simp add: by_tag_def)
next
  case (snoc op ops)
  have one: "jm_get (fold (\<lambda>tag m. jm_set tag (nullish (jm_get m tag) [] @ [e]) m) tags m) t
      = (if t \<in> set tags then Some (nullish (jm_get m t) [] @ [e]) else jm_get m t)
    \<and> (distinct (map fst m) \<longrightarrow> distinct (map fst (fold (\<lambda>tag m. jm_set tag (nullish (jm_get m tag) [] @ [e]) m) tags m)))"
    if "distinct tags" for tags m and e :: map_entry
    using that by (induction tags arbitrary: m) (auto simp: update_conv' distinct_update)
  have "by_tag (ops @ [op]) = fold (\<lambda>tag m. jm_set tag (nullish (jm_get m tag) [] @ [operation_map_entry op]) m)
      (tags_or_general op) (by_tag ops)"
    by (simp add: by_tag_def)
  then show ?case
    using snoc one [of "tags_or_general op" "operation_map_entry op" "by_tag ops"] by (auto simp: Let_def)
qed

lemma string_array_distinct: "distinct (string_array v)"
  by (simp add: string_array_def unique_map_strings_sorted split: json.split)

lemma indexed_tags: "distinct (tags_or_general (indexed root hash ps i))"
  by (simp add: tags_or_general_def indexed_def operation_of_def Let_def string_array_distinct split: prod.split)

lemma by_tag_members:
  assumes "list_all (\<lambda>op. distinct (tags_or_general op)) ops"
  shows "(t, es) \<in> set (by_tag ops) \<longleftrightarrow> es = map operation_map_entry (filter (\<lambda>op. t \<in> set (tags_or_general op)) ops) \<and> es \<noteq> []"
proof -
  have "(t, es) \<in> set (by_tag ops) \<longleftrightarrow> jm_get (by_tag ops) t = Some es"
    using by_tag_get [OF assms, of t] map_of_eq_Some_iff [of "by_tag ops" t es] by blast
  then show ?thesis using by_tag_get [OF assms, of t] by (auto simp: Let_def)
qed

text \<open>
  The capabilities of a contract map are the tags of its operations in alphabetical order, each with
  exactly the operations that bear it, in the order of the index; an operation without tags is under
  General, so every operation is found under some capability.
\<close>

theorem capabilities_exact:
  assumes "build_openapi_candidate parse dash content format = Inr c"
  shows "sorted (map me_title (cm_capabilities (oc_map c))) \<and> distinct (map me_title (cm_capabilities (oc_map c)))
    \<and> (\<forall>t es. (\<exists>e\<in>set (cm_capabilities (oc_map c)). me_title e = t \<and> me_children e = Some es) \<longleftrightarrow>
         es = map operation_map_entry (filter (\<lambda>op. t \<in> set (tags_or_general op)) (oc_operations c)) \<and> es \<noteq> [])"
proof -
  obtain version root where c: "c = candidate_of dash content format version root"
    using assms by (auto simp: build_openapi_candidate_def Let_def split: option.splits if_splits)
  let ?ops = "oc_operations c"
  have tags: "list_all (\<lambda>op. distinct (tags_or_general op)) ?ops"
    by (simp add: c candidate_of_def Let_def index_operations list_all_iff indexed_tags)
  have caps: "cm_capabilities (oc_map c) = map capability_entry (js_sort by_key (by_tag ?ops))"
    by (simp add: c candidate_of_def Let_def contract_map_body_def)
  then have titles: "map me_title (cm_capabilities (oc_map c)) = map fst (js_sort by_key (by_tag ?ops))"
    by (simp add: capability_entry_def)
  have "compare_text (fst x) (fst y) \<le> 0 \<longleftrightarrow> fst x \<le> fst y" for x y :: "string \<times> map_entry list"
    by (auto simp: compare_text_def)
  then have "sorted (map fst (js_sort by_key (by_tag ?ops)))"
    using by_key.sort_sorted [of "by_tag ?ops"] by (simp add: sorted_map)
  moreover have "distinct (map fst (js_sort by_key (by_tag ?ops)))"
    using by_tag_get [OF tags] by simp
  moreover have "(\<exists>e\<in>set (cm_capabilities (oc_map c)). me_title e = t \<and> me_children e = Some es) \<longleftrightarrow> (t, es) \<in> set (by_tag ?ops)" for t es
    by (auto simp: caps capability_entry_def image_iff intro: bexI [of _ "(t, es)"])
  ultimately show ?thesis
    unfolding titles using by_tag_members [OF tags] by simp
qed

section \<open>The identity of a contract\<close>

lemma candidate_parts:
  assumes "build_openapi_candidate parse dash content format = Inr c"
  shows "\<exists>root. parse content format = Inr (JObj root) \<and> is_object (member root ''paths'') \<and> oc_version c \<noteq> []
    \<and> oc_contract c = canonical_value (JObj root)
    \<and> oc_hash c = sha256 (canonical_json (oc_contract c)) \<and> oc_logical c = ''contract_candidate_'' @ take 24 (oc_hash c)"
proof -
  obtain v where v: "parse content format = Inr v"
    using assms by (auto simp: build_openapi_candidate_def)
  then obtain root where "v = JObj root"
    using assms by (cases v) (auto simp: build_openapi_candidate_def)
  then show ?thesis
    using assms v by (auto simp: build_openapi_candidate_def candidate_of_def Let_def short_id_def split: if_splits)
qed

lemma candidate_contract:
  assumes "build_openapi_candidate parse dash content format = Inr c" "parse content format = Inr v"
  shows "oc_contract c = canonical_value v" "oc_hash c = sha256 (canonical_json (oc_contract c))"
    "oc_logical c = ''contract_candidate_'' @ take 24 (oc_hash c)"
  using candidate_parts [OF assms(1)] assms(2) by auto

text \<open>
  Property C19. The normalised contract of a candidate identifies its data: two documents, in whatever format and member
  order, give the same contract exactly when they parse to the same data, and then also the same content
  hash and the same candidate identifier.
\<close>

theorem candidate_identity:
  assumes "build_openapi_candidate parse dash content format = Inr a" "build_openapi_candidate parse dash content' format' = Inr b"
    and "parse content format = Inr v" "parse content' format' = Inr w" "plain_data v" "plain_data w"
  shows "(oc_contract a = oc_contract b \<longleftrightarrow> json_eqv v w)
    \<and> (json_eqv v w \<longrightarrow> oc_hash a = oc_hash b \<and> oc_logical a = oc_logical b)"
proof -
  have "oc_contract a = oc_contract b \<longleftrightarrow> json_eqv v w"
    unfolding candidate_contract(1) [OF assms(1,3)] candidate_contract(1) [OF assms(2,4)]
    using canonical_eq_imp_eqv [OF assms(5,6)] eqv_imp_canonical_eq [of v w] assms(5,6) by blast
  then show ?thesis
    unfolding candidate_contract(2,3) [OF assms(1,3)] candidate_contract(2,3) [OF assms(2,4)] by metis
qed

text \<open>A document with two operations, and the same document written in another order.\<close>

definition sample_operation :: json_object where
  "sample_operation = [(''operationId'', JStr ''list''), (''tags'', JArr [JStr ''Pets''])]"

definition sample_contract :: json_object where
  "sample_contract = [(''openapi'', JStr ''3.1.0''),
     (''paths'', JObj [(''/pets'', JObj [(''post'', JObj []), (''get'', JObj sample_operation)])])]"

definition sample_reordered :: json_object where
  "sample_reordered = rev sample_contract"

definition sample_parser :: "string \<Rightarrow> openapi_format \<Rightarrow> js_error + json" where
  "sample_parser content format = Inr (JObj (if format = JsonFormat then sample_contract else sample_reordered))"

lemma sample_versions:
  "or_else (contract_text (member sample_contract ''openapi'')) (contract_text (member sample_contract ''swagger'')) = ''3.1.0''"
  "is_object (member sample_contract ''paths'')"
  "or_else (contract_text (member sample_reordered ''openapi'')) (contract_text (member sample_reordered ''swagger'')) = ''3.1.0''"
  "is_object (member sample_reordered ''paths'')"
  by code_simp+

lemma sample_builds:
  "build_openapi_candidate sample_parser dash content JsonFormat = Inr (candidate_of dash content JsonFormat ''3.1.0'' sample_contract)"
  "build_openapi_candidate sample_parser dash content YamlFormat = Inr (candidate_of dash content YamlFormat ''3.1.0'' sample_reordered)"
  by (simp_all add: build_openapi_candidate_def sample_parser_def sample_versions)

theorem candidate_identity_witness:
  "oc_logical (candidate_of ''-'' ''a'' JsonFormat ''3.1.0'' sample_contract)
     = oc_logical (candidate_of ''-'' ''b'' YamlFormat ''3.1.0'' sample_reordered)"
proof -
  have plain: "plain_data (JObj sample_contract)" "plain_data (JObj sample_reordered)"
    and same: "canonical_value (JObj sample_contract) = canonical_value (JObj sample_reordered)"
    by code_simp+
  then have "json_eqv (JObj sample_contract) (JObj sample_reordered)"
    by (metis canonical_eq_imp_eqv)
  moreover have "sample_parser ''a'' JsonFormat = Inr (JObj sample_contract)" "sample_parser ''b'' YamlFormat = Inr (JObj sample_reordered)"
    by (simp_all add: sample_parser_def)
  ultimately show ?thesis
    using candidate_identity [OF sample_builds(1) sample_builds(2) _ _ plain] by blast
qed

lemma sample_stated: "stated_operations (member sample_contract ''paths'') = [(''/pets'', ''get'', sample_operation), (''/pets'', ''post'', [])]"
  by code_simp

theorem capabilities_exact_witness:
  "\<exists>e\<in>set (cm_capabilities (oc_map (candidate_of ''-'' ''a'' JsonFormat ''3.1.0'' sample_contract))).
     me_title e = ''Pets'' \<and> (\<exists>op. me_children e = Some [operation_map_entry op] \<and> op_id op = ''list'')"
proof -
  define c where "c = candidate_of ''-'' ''a'' JsonFormat ''3.1.0'' sample_contract"
  define ps where "ps = stated_operations (member sample_contract ''paths'')"
  have ps: "ps = [(''/pets'', ''get'', sample_operation), (''/pets'', ''post'', [])]"
    unfolding ps_def by (rule sample_stated)
  define hash where "hash = sha256 (canonical_json (canonical_value (JObj sample_contract)))"
  have ops: "oc_operations c = map (indexed sample_contract hash ps) [0..<length ps]"
    unfolding c_def candidate_of_def Let_def ps_def hash_def by (simp only: openapi_candidate.select_convs index_operations)
  have n: "[0..<length ps] = [0, Suc 0]" by (simp add: ps upt_rec)
  have tags: "tags_or_general (indexed sample_contract hash ps 0) = [''Pets'']"
    "tags_or_general (indexed sample_contract hash ps (Suc 0)) = [''General'']"
  proof -
    have "string_array (member sample_operation ''tags'') = [''Pets'']" "string_array (member [] ''tags'') = []"
      by code_simp+
    then show "tags_or_general (indexed sample_contract hash ps 0) = [''Pets'']"
      "tags_or_general (indexed sample_contract hash ps (Suc 0)) = [''General'']"
      by (simp_all add: tags_or_general_def indexed_def operation_of_def Let_def ps)
  qed
  have "filter (\<lambda>op. ''Pets'' \<in> set (tags_or_general op)) (oc_operations c) = [indexed sample_contract hash ps 0]"
    unfolding ops n using tags by simp
  moreover note exact = capabilities_exact [OF sample_builds(1), of "''-''" "''a''", folded c_def]
  ultimately have "\<exists>e\<in>set (cm_capabilities (oc_map c)). me_title e = ''Pets''
      \<and> me_children e = Some [operation_map_entry (indexed sample_contract hash ps 0)]"
    by simp
  moreover have "op_id (indexed sample_contract hash ps 0) = ''list''"
  proof -
    have "contract_text (member sample_operation ''operationId'') = ''list''" by code_simp
    then show ?thesis by (simp add: kept_id_def stated_id_def ps)
  qed
  ultimately show ?thesis unfolding c_def by blast
qed

text \<open>
  Two spellings of a method are two operations of one key: the keys of the extracted operations, and with them
  their logical identifiers, repeat when a path states a method twice in different case.
\<close>

lemma method_case_collides:
  "map op_key (ix_operations (contract_index_of [] hash (JObj [(''/pets'', JObj [(''get'', JObj []), (''GET'', JObj [])])])))
     = [''GET /pets'', ''GET /pets'']
   \<and> map op_logical (ix_operations (contract_index_of [] hash (JObj [(''/pets'', JObj [(''get'', JObj []), (''GET'', JObj [])])])))
     = replicate 2 (short_id ''operation_'' (hash @ [nul] @ ''GET /pets''))"
proof -
  define ps where "ps = stated_operations (JObj [(''/pets'', JObj [(''get'', JObj []), (''GET'', JObj [])])])"
  have ps: "ps = [(''/pets'', ''get'', []), (''/pets'', ''get'', [])]"
    unfolding ps_def by code_simp
  have "to_upper ''get'' @ '' '' @ ''/pets'' = ''GET /pets''" by code_simp
  then have "op_key (indexed [] hash ps i) = ''GET /pets''" "op_logical (indexed [] hash ps i) = short_id ''operation_'' (hash @ [nul] @ ''GET /pets'')"
    if "i < 2" for i
    using that by (auto simp: indexed_def operation_of_def Let_def ps less_2_cases_iff)
  moreover have "[0..<length ps] = [0, 1]" by (simp add: ps upt_rec)
  ultimately show ?thesis
    unfolding index_operations ps_def [symmetric] by (simp add: numeral_2_eq_2)
qed

end
