(* ===== verification/Normalize.thy ===== *)
theory Normalize
  imports Quality DocMap Segment Uri
begin

text \<open>
  \<^verbatim>\<open>crawler/ingestion/normalize.ts\<close> and \<^verbatim>\<open>crawler/ingestion/pipeline.ts\<close>: from a fetched page to a normalised document,
  and from a set of pages to the documentation corpus; and \<^verbatim>\<open>resolveLink\<close> of \<^verbatim>\<open>canonical.ts\<close>. The parsers of
  HTML, Markdown and structured documents are arguments.
\<close>

section \<open>Links\<close>

definition strip_angles :: "string \<Rightarrow> string" where
  "strip_angles s =
     (let t = (if s \<noteq> [] \<and> hd s = CHR ''<'' then tl s else s)
      in if t \<noteq> [] \<and> last t = CHR ''>'' then butlast t else t)"

text \<open>\<open>resolve\<close> gives the protocol and the text of a URL against a base.\<close>

definition resolve_link :: "(string \<Rightarrow> string \<Rightarrow> (string \<times> string) option) \<Rightarrow> string \<Rightarrow> string \<Rightarrow> string option" where
  "resolve_link resolve target canonical =
     (let cleaned = strip_angles (trim target); lower = to_lower cleaned in
      if cleaned = [] \<or> starts_with lower ''javascript:'' \<or> starts_with lower ''data:'' \<or> starts_with lower ''vbscript:'' then None
      else (case resolve canonical cleaned of
          None \<Rightarrow> None
        | Some (protocol, u) \<Rightarrow> if protocol \<in> set [''http:'', ''https:'', ''mailto:''] then Some u else None))"

section \<open>Formats\<close>

definition content_type_of :: "string \<Rightarrow> string" where
  "content_type_of v = to_lower (trim (hd (split_on (CHR '';'') v)))"

definition detect_format :: "url_parser \<Rightarrow> normalization_input \<Rightarrow> document_format" where
  "detect_format parse input =
     (case ni_format input of
        Some f \<Rightarrow> f
      | None \<Rightarrow>
          let content_type = content_type_of (li_content_type (ni_source input));
              pathname = to_lower (case parse None (li_url (ni_source input)) of Some u \<Rightarrow> u_path u | None \<Rightarrow> li_url (ni_source input));
              contract = ni_kind input = Some OpenapiKind
          in if content_type = ''text/html'' \<or> content_type = ''application/xhtml+xml''
                \<or> ends_with pathname ''.htm'' \<or> ends_with pathname ''.html'' then Html
             else if ends_with pathname ''.mdx'' then Mdx
             else if content_type = ''text/markdown'' \<or> ends_with pathname ''.md'' then Markdown
             else if str_includes content_type ''json'' \<or> ends_with pathname ''.json'' then (if contract then OpenapiJson else Json)
             else if str_includes content_type ''yaml'' \<or> ends_with pathname ''.yml'' \<or> ends_with pathname ''.yaml''
             then (if contract then OpenapiYaml else Yaml)
             else PlainText)"

section \<open>Plain text\<close>

text \<open>The runs that \<^verbatim>\<open>/\S[\s\S]*?(?=\n\s*\n|$)/g\<close> matches, with their offsets.\<close>

definition at_break :: "string \<Rightarrow> bool" where
  "at_break s \<longleftrightarrow> s = [] \<or> hd s = newline \<and> newline \<in> set (takeWhile is_ws (tl s))"

fun text_run :: "string \<Rightarrow> string" where
  "text_run [] = []"
| "text_run (c # s) = (if at_break (c # s) then [] else c # text_run s)"

lemma length_text_run: "length (text_run s) \<le> length s"
  by (induction s) auto

function text_matches :: "nat \<Rightarrow> string \<Rightarrow> (nat \<times> string) list" where
  "text_matches i s =
     (case dropWhile is_ws s of
        [] \<Rightarrow> []
      | c # t \<Rightarrow>
          let start = i + length (takeWhile is_ws s); m = c # text_run t
          in (start, m) # text_matches (start + length m) (drop (length (text_run t)) t))"
  by pat_completeness auto
termination
proof (relation "measure (\<lambda>(i, s). length s)", goal_cases)
  case (2 i s c t)
  then have "length (c # t) \<le> length s" by (metis length_dropWhile_le)
  then show ?case by simp
qed simp

declare text_matches.simps [simp del]

definition parse_text :: "string \<Rightarrow> parse_result" where
  "parse_text content =
     \<lparr>pr_title = [],
      pr_blocks = concat (map (\<lambda>(i, m). let t = normalize_prose m in
        if t = [] then [] else [\<lparr>df_range = source_range content (int i) (int (i + length m)), df_body = Paragraph t []\<rparr>])
          (text_matches 0 content)),
      pr_diagnostics = []\<rparr>"

section \<open>Parsing\<close>

record parsers =
  ps_html :: "string \<Rightarrow> string \<Rightarrow> parse_result"
  ps_markdown :: "string \<Rightarrow> string \<Rightarrow> bool \<Rightarrow> parse_result"
  ps_structured :: "string \<Rightarrow> bool \<Rightarrow> document_kind \<Rightarrow> string \<Rightarrow> parse_result \<times> document_kind"

definition requested_kind :: "normalization_input \<Rightarrow> document_format \<Rightarrow> document_kind" where
  "requested_kind input format =
     nullish (ni_kind input) (if format \<in> set [OpenapiJson, OpenapiYaml] then OpenapiKind else DocumentationKind)"

definition parsed_document :: "parsers \<Rightarrow> normalization_input \<Rightarrow> document_format \<Rightarrow> parse_result \<times> document_kind" where
  "parsed_document ps input format =
     (let kind = requested_kind input format; content = ni_content input; u = li_url (ni_source input) in
      case format of
        Html \<Rightarrow> (ps_html ps content u, kind)
      | Markdown \<Rightarrow> (ps_markdown ps content u False, kind)
      | Mdx \<Rightarrow> (ps_markdown ps content u True, kind)
      | Json \<Rightarrow> ps_structured ps content True kind u
      | OpenapiJson \<Rightarrow> ps_structured ps content True kind u
      | Yaml \<Rightarrow> ps_structured ps content False kind u
      | OpenapiYaml \<Rightarrow> ps_structured ps content False kind u
      | PlainText \<Rightarrow> (parse_text content, kind))"

definition text_or :: "string \<Rightarrow> string \<Rightarrow> string" where
  "text_or s d = (if s = [] then d else s)"

text \<open>\<^verbatim>\<open>path.basename\<close>: trailing slashes do not count.\<close>

definition base_name :: "string \<Rightarrow> string" where
  "base_name p = last (split_on (CHR ''/'') (strip_right (\<lambda>c. c = CHR ''/'') p))"

definition fallback_title :: "url_parser \<Rightarrow> string \<Rightarrow> string" where
  "fallback_title parse canonical =
     (let untitled = ''Untitled document''; other = text_or (base_name canonical) untitled in
      case parse None canonical of
        None \<Rightarrow> other
      | Some u \<Rightarrow> (case decode_uri_text (text_or (base_name (u_path u)) (u_hostname u)) of
          None \<Rightarrow> other
        | Some t \<Rightarrow> text_or t untitled))"

section \<open>Blocks\<close>

definition json_links :: "link list \<Rightarrow> json" where
  "json_links ls = JArr (map (\<lambda>l. JObj [(''label'', JStr (lk_label l)), (''target'', JStr (lk_target l))]) ls)"

definition json_items :: "list_item list \<Rightarrow> json" where
  "json_items is = JArr (map (\<lambda>i. JObj [(''text'', JStr (it_text i)), (''depth'', json_nat (it_depth i)),
     (''links'', json_links (it_links i))]) is)"

fun block_payload :: "('a \<Rightarrow> json) \<Rightarrow> 'a block_body \<Rightarrow> json" where
  "block_payload f (Heading level t anchor links) = JObj [(''type'', JStr ''heading''), (''level'', json_nat level),
     (''text'', JStr t), (''anchor'', f anchor), (''links'', json_links links)]"
| "block_payload f (Paragraph t links) = JObj [(''type'', JStr ''paragraph''), (''text'', JStr t), (''links'', json_links links)]"
| "block_payload f (Quotation t links) = JObj [(''type'', JStr ''quote''), (''text'', JStr t), (''links'', json_links links)]"
| "block_payload f (Listing ordered is) = JObj [(''type'', JStr ''list''), (''ordered'', JBool ordered), (''items'', json_items is)]"
| "block_payload f (Table headers rows links) = JObj [(''type'', JStr ''table''), (''headers'', json_strings headers),
     (''rows'', JArr (map json_strings rows)), (''links'', json_links links)]"
| "block_payload f (Code language code) = JObj [(''type'', JStr ''code''),
     (''language'', case language of None \<Rightarrow> JNull | Some l \<Rightarrow> JStr l), (''code'', JStr code)]"

definition draft_anchor :: "string option \<Rightarrow> json" where
  "draft_anchor a = (case a of None \<Rightarrow> JNull | Some s \<Rightarrow> JStr s)"

fun has_content :: "'a block_body \<Rightarrow> bool" where
  "has_content (Heading _ t _ _) = (t \<noteq> [])"
| "has_content (Paragraph t _) = (t \<noteq> [])"
| "has_content (Quotation t _) = (t \<noteq> [])"
| "has_content (Listing _ is) = list_ex (\<lambda>i. it_text i \<noteq> []) is"
| "has_content (Table headers rows _) = (list_ex (\<lambda>h. h \<noteq> []) headers \<or> list_ex (list_ex (\<lambda>c. c \<noteq> [])) rows)"
| "has_content (Code _ code) = (code \<noteq> [])"

definition json_range :: "source_range \<Rightarrow> json" where
  "json_range r = JObj [(''startOffset'', JNum (sr_start r)), (''endOffset'', JNum (sr_end r)),
     (''startLine'', json_nat (sr_start_line r)), (''endLine'', json_nat (sr_end_line r))]"

text \<open>The body of a block, with the anchor of a heading made unique, and the counts after it.\<close>

fun final_body :: "string option block_body \<Rightarrow> (string \<times> nat) list \<Rightarrow> string block_body \<times> (string \<times> nat) list" where
  "final_body (Heading level t anchor links) counts =
     (case unique_slug (text_or (nullish anchor []) t) counts of (s, counts') \<Rightarrow> (Heading level t s links, counts'))"
| "final_body (Paragraph t links) counts = (Paragraph t links, counts)"
| "final_body (Quotation t links) counts = (Quotation t links, counts)"
| "final_body (Listing ordered is) counts = (Listing ordered is, counts)"
| "final_body (Table headers rows links) counts = (Table headers rows links, counts)"
| "final_body (Code language code) counts = (Code language code, counts)"

definition final_block :: "string \<Rightarrow> nat \<Rightarrow> draft_block \<Rightarrow> (string \<times> nat) list \<Rightarrow> normalized_block \<times> (string \<times> nat) list" where
  "final_block identity ordinal draft counts =
     (let sha = sha256 (canonical_json (block_payload draft_anchor (df_body draft)));
          bid = ''block_'' @ take 24 (sha256 (canonical_json (JObj [(''documentIdentity'', JStr identity), (''ordinal'', json_nat ordinal),
            (''contentSha256'', JStr sha), (''range'', json_range (df_range draft))])))
      in case final_body (df_body draft) counts of
          (body, counts') \<Rightarrow> (\<lparr>nb_id = bid, nb_ordinal = ordinal, nb_range = df_range draft, nb_sha = sha, nb_body = body\<rparr>, counts'))"

fun final_blocks :: "string \<Rightarrow> nat \<Rightarrow> draft_block list \<Rightarrow> (string \<times> nat) list \<Rightarrow> normalized_block list" where
  "final_blocks identity n [] counts = []"
| "final_blocks identity n (d # ds) counts =
     (case final_block identity n d counts of (b, counts') \<Rightarrow> b # final_blocks identity (Suc n) ds counts')"

definition finalize_blocks :: "string \<Rightarrow> draft_block list \<Rightarrow> normalized_block list" where
  "finalize_blocks identity drafts = final_blocks identity 0 (filter (\<lambda>d. has_content (df_body d)) drafts) []"

section \<open>Documents\<close>

definition document_note :: "string \<Rightarrow> diagnostic_code \<Rightarrow> severity \<Rightarrow> string \<Rightarrow> diagnostic" where
  "document_note i code sev message =
     \<lparr>dg_code = code, dg_severity = sev, dg_scope = DocumentScope, dg_message = message, dg_document = Some i,
      dg_section = None, dg_evidence = None, dg_details = None\<rparr>"

definition final_format :: "document_kind \<Rightarrow> document_format \<Rightarrow> document_format" where
  "final_format kind format =
     (if kind = OpenapiKind \<and> format = Json then OpenapiJson else if kind = OpenapiKind \<and> format = Yaml then OpenapiYaml else format)"

definition normalize_document :: "url_parser \<Rightarrow> parsers \<Rightarrow> normalization_input \<Rightarrow> document" where
  "normalize_document parse ps input =
     (let format = detect_format parse input; source = ni_source input; raw = sha256 (ni_content input);
          identity = canonical_json (JObj [(''sourceId'', JStr (li_source_id source)), (''canonicalUrl'', JStr (li_url source)),
            (''rawSha256'', JStr raw)]);
          i = ''document_'' @ take 24 (sha256 identity);
          parsed = parsed_document ps input format; kind = snd parsed;
          supplied = normalize_prose (nullish (ni_title input) []); title = normalize_prose (pr_title (fst parsed));
          missing = supplied = [] \<and> title = [];
          final_title = text_or supplied (text_or title (fallback_title parse (li_url source)));
          blocks = finalize_blocks identity (pr_blocks (fst parsed))
      in \<lparr>doc_id = i, doc_title = final_title, doc_format = final_format kind format, doc_kind = kind,
          doc_source = lineage_input.extend source \<lparr>ln_raw_sha = raw\<rparr>,
          doc_sha = sha256 (canonical_json (JObj [(''title'', JStr final_title), (''format'', JStr (format_text format)),
            (''kind'', JStr (kind_text kind)), (''blocks'', JArr (map (\<lambda>b. block_payload JStr (nb_body b)) blocks))])),
          doc_blocks = blocks,
          doc_diagnostics = map (\<lambda>g. g\<lparr>dg_document := Some i\<rparr>) (pr_diagnostics (fst parsed))
            @ (if missing then [document_note i DocumentMissingTitle Warning
                ''The source has no explicit document title; a filename or host fallback is being used.''] else [])
            @ (if list_all (\<lambda>b. trim (block_plain_text b) = []) blocks then [document_note i DocumentEmpty Error
                ''The source produced no reviewable normalized content.''] else [])\<rparr>)"

section \<open>The corpus\<close>

record documentation_corpus =
  co_documents :: "document list"
  co_sections :: "doc_section list"
  co_diagnostics :: "diagnostic list"
  co_map :: documentation_map
  co_enrichment :: enrichment_input

definition build_documentation_corpus ::
    "url_parser \<Rightarrow> parsers \<Rightarrow> normalization_input list \<Rightarrow> segmentation_options \<Rightarrow> js_error + documentation_corpus" where
  "build_documentation_corpus parse ps inputs options =
     (let documents = js_sort document_order (map (normalize_document parse ps) inputs) in
      bind_result (map_result (\<lambda>d. segment_document d options) documents) (\<lambda>segmented.
      let sections = concat (map sg_sections segmented);
          diagnostics = assess_corpus_quality documents sections (concat (map sg_diagnostics segmented));
          m = build_documentation_map documents sections diagnostics
      in bind_result (documentation_map_enrichment_input m documents sections) (\<lambda>e.
        Inr \<lparr>co_documents = documents, co_sections = sections, co_diagnostics = diagnostics, co_map = m, co_enrichment = e\<rparr>)))"

section \<open>Well-formed documents\<close>

lemma has_content_final: "has_content (fst (final_body b counts)) = has_content b"
  by (cases b) (auto split: prod.splits)

definition payload_sha :: "draft_block \<Rightarrow> string" where
  "payload_sha d = sha256 (canonical_json (block_payload draft_anchor (df_body d)))"

abbreviation kept_drafts :: "draft_block list \<Rightarrow> draft_block list" where
  "kept_drafts \<equiv> filter (\<lambda>d. has_content (df_body d))"

abbreviation unanchored :: "'a block_body \<Rightarrow> unit block_body" where
  "unanchored \<equiv> map_block_body (\<lambda>_. ())"

lemma unanchored_final: "unanchored (fst (final_body b counts)) = unanchored b"
  by (cases b) (auto split: prod.splits)

lemma final_blocks_fields:
  "map nb_ordinal (final_blocks i n ds counts) = [n..<n + length ds]
   \<and> map nb_sha (final_blocks i n ds counts) = map payload_sha ds
   \<and> map nb_range (final_blocks i n ds counts) = map df_range ds
   \<and> map (unanchored \<circ> nb_body) (final_blocks i n ds counts) = map (unanchored \<circ> df_body) ds
   \<and> map (has_content \<circ> nb_body) (final_blocks i n ds counts) = map (has_content \<circ> df_body) ds
   \<and> list_all (\<lambda>b. length (nb_id b) = 30) (final_blocks i n ds counts)"
proof (induction ds arbitrary: n counts)
  case (Cons d ds)
  obtain b counts' where b: "final_block i n d counts = (b, counts')"
    by (cases "final_block i n d counts")
  obtain body where body: "final_body (df_body d) counts = (body, counts')" and fields:
    "nb_ordinal b = n" "nb_sha b = payload_sha d" "nb_range b = df_range d" "nb_body b = body" "length (nb_id b) = 30"
    using b sha.short_id_length [of 24 "''block_''"]
    by (auto simp: final_block_def payload_sha_def Let_def split: prod.splits)
  have "unanchored body = unanchored (df_body d)" "has_content body = has_content (df_body d)"
    using unanchored_final [of "df_body d" counts] has_content_final [of "df_body d" counts] by (simp_all add: body)
  then show ?case
    using Cons.IH [of "Suc n" counts'] fields by (simp add: b upt_rec)
qed simp

lemma finalize_blocks_fields:
  "map nb_ordinal (finalize_blocks i ds) = [0..<length (finalize_blocks i ds)]
   \<and> map nb_sha (finalize_blocks i ds) = map payload_sha (kept_drafts ds)
   \<and> map nb_range (finalize_blocks i ds) = map df_range (kept_drafts ds)
   \<and> map (unanchored \<circ> nb_body) (finalize_blocks i ds) = map (unanchored \<circ> df_body) (kept_drafts ds)
   \<and> list_all (\<lambda>b. has_content (nb_body b) \<and> length (nb_id b) = 30) (finalize_blocks i ds)"
proof -
  note f = final_blocks_fields [of i 0 "kept_drafts ds" "[]", folded finalize_blocks_def]
  have "length (finalize_blocks i ds) = length (kept_drafts ds)"
    using f by (metis length_map)
  moreover have "list_all (\<lambda>b. has_content (nb_body b)) (finalize_blocks i ds)"
  proof -
    have "list_all id (map (has_content \<circ> nb_body) (finalize_blocks i ds))"
      using f by (auto simp: list_all_iff)
    then show ?thesis by (simp add: list_all_iff)
  qed
  ultimately show ?thesis
    using f by (simp add: list_all_iff)
qed

lemma fallback_title_nonempty: "fallback_title parse u \<noteq> []"
  by (auto simp: fallback_title_def text_or_def Let_def split: option.splits)

text \<open>
  Property C20. A normalised document is well formed whatever the parsers answer: it has a title
  and an identifier of fixed length; its blocks are the drafts with content, in their order, numbered
  from zero, each with its range, the hash of its draft and an identifier of fixed length, and changed in
  the anchors only; every diagnostic names the document; a document without readable content is reported;
  and the format of an OpenAPI document is an OpenAPI format.
\<close>

theorem normalized_well_formed:
  "let d = normalize_document parse ps input;
       drafts = kept_drafts (pr_blocks (fst (parsed_document ps input (detect_format parse input)))) in
     doc_title d \<noteq> [] \<and> length (doc_id d) = 33 \<and> length (doc_sha d) = 64
     \<and> ln_raw_sha (doc_source d) = sha256 (ni_content input)
     \<and> map nb_ordinal (doc_blocks d) = [0..<length (doc_blocks d)]
     \<and> map nb_range (doc_blocks d) = map df_range drafts
     \<and> map nb_sha (doc_blocks d) = map payload_sha drafts
     \<and> map (unanchored \<circ> nb_body) (doc_blocks d) = map (unanchored \<circ> df_body) drafts
     \<and> list_all (\<lambda>b. has_content (nb_body b) \<and> length (nb_id b) = 30) (doc_blocks d)
     \<and> list_all (\<lambda>g. dg_document g = Some (doc_id d)) (doc_diagnostics d)
     \<and> (if list_ex (\<lambda>b. trim (block_plain_text b) \<noteq> []) (doc_blocks d) then True
        else DocumentEmpty \<in> dg_code ` set (doc_diagnostics d))
     \<and> (if doc_kind d = OpenapiKind then doc_format d \<noteq> Json \<and> doc_format d \<noteq> Yaml else True)"
proof -
  define format where "format = detect_format parse input"
  define parsed where "parsed = parsed_document ps input format"
  define i where "i = canonical_json (JObj [(''sourceId'', JStr (li_source_id (ni_source input))),
    (''canonicalUrl'', JStr (li_url (ni_source input))), (''rawSha256'', JStr (sha256 (ni_content input)))])"
  note defs = normalize_document_def Let_def format_def [symmetric] parsed_def [symmetric] i_def [symmetric]
  have "doc_title (normalize_document parse ps input) \<noteq> []"
    by (auto simp: defs text_or_def fallback_title_nonempty)
  moreover have "length (doc_id (normalize_document parse ps input)) = 33" "length (doc_sha (normalize_document parse ps input)) = 64"
    using sha.short_id_length [of 24 "''document_''" i] by (simp_all add: defs sha.H_length)
  moreover have "doc_blocks (normalize_document parse ps input) = finalize_blocks i (pr_blocks (fst parsed))"
    by (simp add: defs)
  moreover have "list_all (\<lambda>g. dg_document g = Some (doc_id (normalize_document parse ps input))) (doc_diagnostics (normalize_document parse ps input))"
    by (auto simp: defs list_all_iff document_note_def)
  moreover have "if list_ex (\<lambda>b. trim (block_plain_text b) \<noteq> []) (doc_blocks (normalize_document parse ps input)) then True
        else DocumentEmpty \<in> dg_code ` set (doc_diagnostics (normalize_document parse ps input))"
    by (auto simp: defs list_all_iff list_ex_iff document_note_def)
  moreover have "if doc_kind (normalize_document parse ps input) = OpenapiKind then doc_format (normalize_document parse ps input) \<noteq> Json
      \<and> doc_format (normalize_document parse ps input) \<noteq> Yaml else True"
    by (auto simp: defs final_format_def)
  moreover have "ln_raw_sha (doc_source (normalize_document parse ps input)) = sha256 (ni_content input)"
    by (simp add: defs lineage_input.defs lineage.defs)
  ultimately show ?thesis
    using finalize_blocks_fields [of i "pr_blocks (fst parsed)"]
    unfolding format_def [symmetric] parsed_def [symmetric] Let_def by simp
qed

section \<open>Plain text\<close>

abbreviation readable :: "string \<Rightarrow> string" where
  "readable \<equiv> filter (\<lambda>c. \<not> is_ws c \<and> c \<noteq> nul)"

definition body_text :: "'a block_body \<Rightarrow> string" where
  "body_text b = (case b of Paragraph t ls \<Rightarrow> t | _ \<Rightarrow> [])"

lemma text_run_append: "s = text_run s @ drop (length (text_run s)) s"
  by (induction s) auto

lemma at_break_rest: "at_break (drop (length (text_run s)) s)"
  by (induction s) (auto simp: at_break_def)

lemma takeWhile_unreadable: "readable (takeWhile is_ws s) = []"
  by (auto simp: filter_empty_conv dest: set_takeWhileD)

lemma readable_dropWhile: "readable (dropWhile is_ws s) = readable s"
proof -
  have "readable s = readable (takeWhile is_ws s @ dropWhile is_ws s)" by (simp only: takeWhile_dropWhile_id)
  then show ?thesis by (simp only: filter_append takeWhile_unreadable append_Nil)
qed

lemma text_run_unbroken: "k < length (text_run s) \<Longrightarrow> \<not> at_break (drop k s)"
proof (induction s arbitrary: k)
  case (Cons c s)
  then show ?case by (cases k) (auto split: if_splits)
qed simp

text \<open>A match is a slice of the text that ends at the first break after its start.\<close>

definition match_ok :: "string \<Rightarrow> nat \<Rightarrow> string \<Rightarrow> bool" where
  "match_ok s j m \<longleftrightarrow> m \<noteq> [] \<and> m = take (length m) (drop j s) \<and> at_break (drop (j + length m) s)
     \<and> (\<forall>k. 0 < k \<and> k < length m \<longrightarrow> \<not> at_break (drop (j + k) s))"

lemma match_ok_append: "match_ok r j m \<Longrightarrow> match_ok (w @ r) (length w + j) m"
  by (simp add: match_ok_def add.assoc)

lemma match_ok_first: "match_ok (w @ c # t) (length w) (c # text_run t)"
proof -
  have "\<not> at_break (drop k (c # t))" if "0 < k" "k < length (c # text_run t)" for k
    using that text_run_unbroken [of "k - 1" t] by (cases k) auto
  moreover have "text_run t = take (length (text_run t)) t"
    using text_run_append [of t] by (metis append_eq_conv_conj)
  ultimately show ?thesis
    using at_break_rest [of t] by (simp add: match_ok_def)
qed

text \<open>The matches lie in order, and miss only white space.\<close>

lemma text_matches_effect:
  "readable (concat (map snd (text_matches i s))) = readable s
   \<and> list_all (\<lambda>(j, m). i \<le> j \<and> j + length m \<le> i + length s \<and> match_ok s (j - i) m) (text_matches i s)
   \<and> sorted_wrt (\<lambda>(j, m) (k, _). j + length m \<le> k) (text_matches i s)"
proof (induction i s rule: text_matches.induct)
  case (1 i s)
  show ?case
  proof (cases "dropWhile is_ws s")
    case Nil
    then have "readable s = []" using readable_dropWhile [of s] by simp
    then show ?thesis by (simp add: text_matches.simps [of i s] Nil)
  next
    case (Cons c t)
    define w where "w = takeWhile is_ws s"
    define m where "m = c # text_run t"
    define r where "r = drop (length (text_run t)) t"
    define n where "n = i + length w + length m"
    have split: "s = w @ m @ r" and first: "match_ok s (length w) m"
      using takeWhile_dropWhile_id [of is_ws s] text_run_append [of t] match_ok_first [of w c t]
      by (simp_all add: w_def m_def r_def Cons)
    have step: "text_matches i s = (i + length w, m) # text_matches n r"
      by (simp add: text_matches.simps [of i s] Cons n_def w_def m_def r_def Let_def)
    have IH: "readable (concat (map snd (text_matches n r))) = readable r"
      "list_all (\<lambda>(j, m). n \<le> j \<and> j + length m \<le> n + length r \<and> match_ok r (j - n) m) (text_matches n r)"
      "sorted_wrt (\<lambda>(j, m) (k, _). j + length m \<le> k) (text_matches n r)"
      using "1.IH" [OF Cons refl refl] by (simp_all add: n_def w_def m_def r_def)
    have "readable s = readable w @ readable m @ readable r" by (subst split) simp
    then have "readable (concat (map snd (text_matches i s))) = readable s"
      using IH(1) takeWhile_unreadable [of s] by (simp add: step w_def)
    moreover have "list_all (\<lambda>(j, m). i \<le> j \<and> j + length m \<le> i + length s \<and> match_ok s (j - i) m) (text_matches i s)"
    proof -
      have "i \<le> j \<and> j + length m' \<le> i + length s \<and> match_ok s (j - i) m'" if "(j, m') \<in> set (text_matches n r)" for j m'
        using IH(2) that match_ok_append [of r "j - n" m' "w @ m"]
        by (auto simp: list_all_iff split n_def algebra_simps)
      moreover have "i + length w + length m \<le> i + length s" by (simp add: split)
      ultimately show ?thesis unfolding step list_all_iff using first by auto
    qed
    moreover have "sorted_wrt (\<lambda>(j, m) (k, _). j + length m \<le> k) (text_matches i s)"
      using IH(2,3) by (auto simp: step list_all_iff n_def)
    ultimately show ?thesis by blast
  qed
qed

definition paragraph_ok :: "string \<Rightarrow> draft_block \<Rightarrow> bool" where
  "paragraph_ok content d \<longleftrightarrow>
     (let a = nat (sr_start (df_range d)); b = nat (sr_end (df_range d)) in
      a < b \<and> b \<le> length content \<and> df_body d = Paragraph (normalize_prose (str_slice a b content)) []
      \<and> at_break (drop b content) \<and> list_all (\<lambda>k. \<not> at_break (drop k content)) [Suc a..<b])"

definition paragraph_of :: "string \<Rightarrow> nat \<times> string \<Rightarrow> draft_block list" where
  "paragraph_of content = (\<lambda>(i, m). let t = normalize_prose m in
     if t = [] then [] else [\<lparr>df_range = source_range content (int i) (int (i + length m)), df_body = Paragraph t []\<rparr>])"

lemma parse_text_blocks: "pr_blocks (parse_text content) = concat (map (paragraph_of content) (text_matches 0 content))"
  by (simp add: parse_text_def paragraph_of_def)

lemma normalize_prose_keeps: "filter (\<lambda>c. \<not> is_ws c) (normalize_prose s) = readable s"
  by (simp add: normalize_prose_def replace_runs_keeps conj_commute)

lemma normalize_prose_readable: "readable (normalize_prose s) = readable s"
proof -
  have "readable (normalize_prose s) = filter (\<lambda>c. c \<noteq> nul) (filter (\<lambda>c. \<not> is_ws c) (normalize_prose s))"
    by (simp add: conj_commute)
  then show ?thesis by (simp add: normalize_prose_keeps)
qed

lemma paragraph_of_text: "readable (concat (map (body_text \<circ> df_body) (paragraph_of content x))) = readable (snd x)"
proof -
  have "readable (snd x) = []" if "normalize_prose (snd x) = []"
    using normalize_prose_readable [of "snd x"] by (simp add: that)
  then show ?thesis
    by (auto simp: paragraph_of_def body_text_def normalize_prose_readable Let_def split: prod.splits)
qed

lemma paragraph_of_range:
  assumes "d \<in> set (paragraph_of content (j, m))" "j + length m \<le> length content"
  shows "sr_start (df_range d) = int j \<and> sr_end (df_range d) = int (j + length m) \<and> df_body d = Paragraph (normalize_prose m) []"
  using assms by (auto simp: paragraph_of_def source_range_def Let_def split: if_splits)

lemma paragraph_of_ok:
  assumes "d \<in> set (paragraph_of content (j, m))" "j + length m \<le> length content" "match_ok content j m"
  shows "paragraph_ok content d"
proof -
  note r = paragraph_of_range [OF assms(1,2)]
  have "\<not> at_break (drop k content)" if "k \<in> set [Suc j..<j + length m]" for k
  proof -
    have "0 < k - j \<and> k - j < length m" "j + (k - j) = k" using that by auto
    then show ?thesis using assms(3) unfolding match_ok_def by metis
  qed
  moreover have "str_slice j (j + length m) content = m"
    using assms(3) by (simp add: match_ok_def str_slice_def take_drop add.commute)
  ultimately show ?thesis
    using r assms(2,3) by (simp add: paragraph_ok_def Let_def nat_add_distrib list_all_iff match_ok_def)
qed

text \<open>
  The paragraphs of a plain text are its parts between blank lines: each starts at a
  character that is not white space, ends at the first blank line after it or at the end, and holds the normalised text
  of its range; together they keep every character but white space and NUL, in order.
\<close>

theorem parse_text_paragraphs:
  "readable (concat (map (body_text \<circ> df_body) (pr_blocks (parse_text content)))) = readable content
   \<and> list_all (paragraph_ok content) (pr_blocks (parse_text content))"
proof
  note eff = text_matches_effect [of 0 content]
  have "readable (concat (map (body_text \<circ> df_body) (concat (map (paragraph_of content) xs)))) = readable (concat (map snd xs))" for xs
    by (induction xs) (simp_all add: paragraph_of_text [unfolded comp_def] comp_def)
  then show "readable (concat (map (body_text \<circ> df_body) (pr_blocks (parse_text content)))) = readable content"
    unfolding parse_text_blocks using eff by (simp only:)
  show "list_all (paragraph_ok content) (pr_blocks (parse_text content))"
    using eff unfolding parse_text_blocks by (auto simp: list_all_iff intro: paragraph_of_ok)
qed

section \<open>The corpus\<close>

abbreviation corpus_documents :: "url_parser \<Rightarrow> parsers \<Rightarrow> normalization_input list \<Rightarrow> document list" where
  "corpus_documents parse ps inputs \<equiv> js_sort document_order (map (normalize_document parse ps) inputs)"

lemma segment_owner:
  assumes "segment_document d options = Inr r" "s \<in> set (sg_sections r)"
  shows "se_document s = doc_id d"
proof -
  obtain target where "sg_sections r = document_sections d target"
    using assms(1) by (rule segment_document_Inr)
  then show ?thesis
    using assms(2) by (auto elim!: document_sections_mem simp: make_section_def Let_def)
qed

lemma segmented_owners:
  assumes "map_result (\<lambda>d. segment_document d options) ds = Inr rs"
  shows "se_document ` set (concat (map sg_sections rs)) \<subseteq> doc_id ` set ds"
  using assms
proof (induction ds arbitrary: rs)
  case (Cons d ds)
  then obtain r rs' where "segment_document d options = Inr r" "map_result (\<lambda>d. segment_document d options) ds = Inr rs'" "rs = r # rs'"
    by (cases "segment_document d options"; cases "map_result (\<lambda>d. segment_document d options) ds") auto
  moreover have "se_document ` set (concat (map sg_sections rs')) \<subseteq> doc_id ` set ds"
    using calculation(2) by (rule Cons.IH)
  ultimately show ?case by (simp add: image_Un subset_iff image_iff) (use segment_owner in blast)
qed simp

lemma segmented_text:
  assumes "map_result (\<lambda>d. segment_document d options) ds = Inr rs"
  shows "nonws (concat (map se_content (concat (map sg_sections rs)))) = nonws (concat (map render_block (concat (map doc_blocks ds))))"
  using assms
proof (induction ds arbitrary: rs)
  case (Cons d ds)
  then obtain r rs' where "segment_document d options = Inr r" "map_result (\<lambda>d. segment_document d options) ds = Inr rs'" "rs = r # rs'"
    by (cases "segment_document d options"; cases "map_result (\<lambda>d. segment_document d options) ds") auto
  then show ?case using Cons.IH segment_text by simp
qed simp

definition corpus_of :: "document list \<Rightarrow> segmentation_result list \<Rightarrow> enrichment_input \<Rightarrow> documentation_corpus" where
  "corpus_of documents segmented e =
     (let sections = concat (map sg_sections segmented);
          diagnostics = assess_corpus_quality documents sections (concat (map sg_diagnostics segmented))
      in \<lparr>co_documents = documents, co_sections = sections, co_diagnostics = diagnostics,
          co_map = build_documentation_map documents sections diagnostics, co_enrichment = e\<rparr>)"

lemma corpus_segmented:
  assumes "map_result (\<lambda>d. segment_document d options) (corpus_documents parse ps inputs) = Inr rs"
  shows "\<exists>e. build_documentation_corpus parse ps inputs options = Inr (corpus_of (corpus_documents parse ps inputs) rs e)"
proof -
  define ds where "ds = corpus_documents parse ps inputs"
  define m where "m = co_map (corpus_of ds rs undefined)"
  have "\<nexists>e. documentation_map_enrichment_input m ds (concat (map sg_sections rs)) = Inl e"
    unfolding enrichment_fails using segmented_owners [OF assms] by (simp add: ds_def)
  then obtain e where "documentation_map_enrichment_input m ds (concat (map sg_sections rs)) = Inr e"
    by (cases "documentation_map_enrichment_input m ds (concat (map sg_sections rs))") auto
  then have "build_documentation_corpus parse ps inputs options = Inr (corpus_of ds rs e)"
    using assms by (simp add: build_documentation_corpus_def ds_def [symmetric] corpus_of_def m_def Let_def)
  then show ?thesis unfolding ds_def by blast
qed

lemma corpus_refused:
  assumes "map_result (\<lambda>d. segment_document d options) (corpus_documents parse ps inputs) = Inl e"
  shows "build_documentation_corpus parse ps inputs options = Inl e"
  using assms by (simp add: build_documentation_corpus_def)

definition options_valid :: "segmentation_options \<Rightarrow> bool" where
  "options_valid options \<longleftrightarrow>
     (let t = nullish (so_target options) 4000; m = nullish (so_oversized options) 8000 in 1 \<le> t \<and> t \<le> m \<and> m < 2 ^ 53)"

lemma segment_options:
  "if options_valid options then \<exists>r. segment_document d options = Inr r else \<exists>e. segment_document d options = Inl (TypeError e)"
  by (auto simp: segment_document_def options_valid_def default_target_def default_oversized_def safe_integer_def Let_def)

lemma map_result_total: "(\<And>x. \<exists>y. f x = Inr y) \<Longrightarrow> \<exists>ys. map_result f xs = Inr ys"
proof (induction xs)
  case (Cons x xs)
  then obtain y ys where "f x = Inr y" "map_result f xs = Inr ys" by meson
  then show ?case by simp
qed simp

lemma corpus_exists:
  assumes "options_valid options"
  shows "\<exists>c. build_documentation_corpus parse ps inputs options = Inr c"
proof -
  have "\<exists>rs. map_result (\<lambda>d. segment_document d options) (corpus_documents parse ps inputs) = Inr rs"
    using segment_options assms by (intro map_result_total) metis
  then show ?thesis using corpus_segmented by blast
qed

text \<open>
  Property C21. Building a corpus ends with a corpus, whatever the pages hold, when the segmentation
  options are valid (or there is no page), and fails with a type error otherwise: no section can name a
  document that is not there.
\<close>

theorem corpus_total:
  "if options_valid options \<or> inputs = [] then \<exists>c. build_documentation_corpus parse ps inputs options = Inr c
   else \<exists>e. build_documentation_corpus parse ps inputs options = Inl (TypeError e)"
proof (cases "options_valid options \<or> inputs = []")
  case True
  then show ?thesis
  proof
    assume "options_valid options"
    then show ?thesis using corpus_exists by simp
  next
    assume "inputs = []"
    then show ?thesis using corpus_segmented [where inputs = "[]"] by fastforce
  qed
next
  case False
  then obtain d ds where ds: "corpus_documents parse ps inputs = d # ds"
    by (metis length_0_conv length_js_sort length_map neq_Nil_conv)
  obtain e where "segment_document d options = Inl (TypeError e)"
    using segment_options [of options d] False by auto
  then have "map_result (\<lambda>d. segment_document d options) (corpus_documents parse ps inputs) = Inl (TypeError e)"
    by (simp add: ds)
  then show ?thesis using False by (simp add: corpus_refused)
qed

lemma corpus_facts:
  assumes "build_documentation_corpus parse ps inputs options = Inr c"
  shows "mset (co_documents c) = mset (map (normalize_document parse ps) inputs)
    \<and> sorted_wrt (\<lambda>l r. document_key l \<le> document_key r) (co_documents c)
    \<and> se_document ` set (co_sections c) \<subseteq> doc_id ` set (co_documents c)
    \<and> nonws (concat (map se_content (co_sections c))) = nonws (concat (map render_block (concat (map doc_blocks (co_documents c)))))
    \<and> co_map c = build_documentation_map (co_documents c) (co_sections c) (co_diagnostics c)"
proof -
  obtain rs where rs: "map_result (\<lambda>d. segment_document d options) (corpus_documents parse ps inputs) = Inr rs"
    using assms corpus_refused by (cases "map_result (\<lambda>d. segment_document d options) (corpus_documents parse ps inputs)") fastforce+
  then obtain e where "c = corpus_of (corpus_documents parse ps inputs) rs e"
    using corpus_segmented assms by fastforce
  then have c: "co_documents c = corpus_documents parse ps inputs" "co_sections c = concat (map sg_sections rs)"
    "co_map c = build_documentation_map (co_documents c) (co_sections c) (co_diagnostics c)"
    by (simp_all add: corpus_of_def Let_def)
  have "sorted_wrt (\<lambda>l r. document_key l \<le> document_key r) (co_documents c)"
    unfolding c using doc_order.sort_sorted by (simp add: document_order_by cmp_by_le)
  then show ?thesis
    using c segmented_owners [OF rs] segmented_text [OF rs] by simp
qed

text \<open>
  A corpus is the normalised pages in the order of their URLs with all their text: the documents
  are sorted, no page is lost or added, every section belongs to a document of the corpus, and read in order
  the sections hold exactly the rendered text of the documents, up to white space.
\<close>

theorem corpus_complete:
  assumes "build_documentation_corpus parse ps inputs options = Inr c"
  shows "mset (co_documents c) = mset (map (normalize_document parse ps) inputs)
    \<and> sorted_wrt (\<lambda>l r. document_key l \<le> document_key r) (co_documents c)
    \<and> se_document ` set (co_sections c) \<subseteq> doc_id ` set (co_documents c)
    \<and> nonws (concat (map se_content (co_sections c))) = nonws (concat (map render_block (concat (map doc_blocks (co_documents c)))))
    \<and> co_map c = build_documentation_map (co_documents c) (co_sections c) (co_diagnostics c)"
  by (rule corpus_facts [OF assms])

text \<open>
  The corpus does not depend on the order in which the pages were fetched, as long as
  the normalised documents differ in URL or identity.
\<close>

theorem corpus_order_independent:
  assumes "mset inputs = mset inputs'" "distinct (map (document_key \<circ> normalize_document parse ps) inputs)"
  shows "build_documentation_corpus parse ps inputs options = build_documentation_corpus parse ps inputs' options"
proof -
  have "corpus_documents parse ps inputs = corpus_documents parse ps inputs'"
    using assms by (intro sorted_documents_determined) (simp_all add: comp_assoc)
  then show ?thesis unfolding build_documentation_corpus_def by (simp only:)
qed

section \<open>Instances\<close>

lemma normalized_url: "li_url (doc_source (normalize_document parse ps input)) = li_url (ni_source input)"
  by (simp add: normalize_document_def lineage_input.defs Let_def)

definition sample_input :: "string \<Rightarrow> normalization_input" where
  "sample_input u = \<lparr>ni_content = ''Hello'',
     ni_source = \<lparr>li_source_id = ''source'', li_url = u, li_content_type = ''text/plain'', li_source_kind = Some ''website'',
       li_snapshot = None, li_fetched_at = None\<rparr>,
     ni_title = None, ni_kind = None, ni_format = None\<rparr>"

definition no_parse :: parse_result where
  "no_parse = \<lparr>pr_title = [], pr_blocks = [], pr_diagnostics = []\<rparr>"

definition no_parsers :: parsers where
  "no_parsers = \<lparr>ps_html = \<lambda>_ _. no_parse, ps_markdown = \<lambda>_ _ _. no_parse, ps_structured = \<lambda>_ _ k _. (no_parse, k)\<rparr>"

lemma corpus_complete_witness:
  "\<exists>c. build_documentation_corpus (\<lambda>_ _. None) no_parsers [sample_input ''https://docs.example/a''] sample_options = Inr c
     \<and> length (co_documents c) = 1 \<and> se_document ` set (co_sections c) \<subseteq> doc_id ` set (co_documents c)"
proof -
  have "options_valid sample_options" by (simp add: options_valid_def sample_options_def)
  then obtain c where c: "build_documentation_corpus (\<lambda>_ _. None) no_parsers [sample_input ''https://docs.example/a''] sample_options = Inr c"
    using corpus_exists by blast
  have "size (mset (co_documents c)) = 1" "se_document ` set (co_sections c) \<subseteq> doc_id ` set (co_documents c)"
    using corpus_complete [OF c] by (simp, blast)
  then show ?thesis using c by (intro exI [of _ c] conjI) simp_all
qed

lemma corpus_order_independent_witness:
  "build_documentation_corpus (\<lambda>_ _. None) no_parsers [sample_input ''https://docs.example/a'', sample_input ''https://docs.example/b''] sample_options =
     build_documentation_corpus (\<lambda>_ _. None) no_parsers [sample_input ''https://docs.example/b'', sample_input ''https://docs.example/a''] sample_options"
  by (rule corpus_order_independent) (simp_all add: normalized_url sample_input_def)

end
