(* ===== verification/PersistMap.thy ===== *)
theory PersistMap
  imports OpenApi Normalize
begin

text \<open>
  The pure part of \<^verbatim>\<open>crawler/candidate-persistence.ts\<close>: deterministic identifiers, the persisted form of
  the documentation map, the manifest of the acquired pages, the kinds of documents and sections, the
  Markdown for agents and the stages of a run. The em dash is the argument \<open>dash\<close>.
\<close>

section \<open>Versions\<close>

record processor_versions =
  pv_pipeline :: string
  pv_parser :: string
  pv_normalizer :: string
  pv_mapper :: string

definition normalized_document_version :: string where
  "normalized_document_version = ''2026-08-26''"

definition documentation_map_version :: string where
  "documentation_map_version = ''2026-08-26'' @ ''+persisted-identities.2''"

definition api_contract_map_version :: string where
  "api_contract_map_version = ''2026-08-26''"

definition documentation_processor_versions :: processor_versions where
  "documentation_processor_versions =
     \<lparr>pv_pipeline = ''crawler-documentation-candidate/1'',
      pv_parser = ''crawler-static-parser/'' @ normalized_document_version,
      pv_normalizer = ''normalized-document/'' @ normalized_document_version,
      pv_mapper = ''documentation-map/'' @ documentation_map_version\<rparr>"

definition openapi_processor_versions :: processor_versions where
  "openapi_processor_versions =
     \<lparr>pv_pipeline = ''crawler-openapi-candidate/1'', pv_parser = ''crawler-static-openapi-parser/1'',
      pv_normalizer = ''canonical-openapi-json/1'', pv_mapper = ''api-contract-map/2026-08-26''\<rparr>"

definition json_versions :: "processor_versions \<Rightarrow> json" where
  "json_versions v = JObj [(''pipeline'', JStr (pv_pipeline v)), (''parser'', JStr (pv_parser v)),
     (''normalizer'', JStr (pv_normalizer v)), (''mapper'', JStr (pv_mapper v))]"

section \<open>Identifiers\<close>

fun bytes_of_hex :: "string \<Rightarrow> byte list option" where
  "bytes_of_hex [] = Some []"
| "bytes_of_hex [c] = None"
| "bytes_of_hex (c # d # cs) =
     (if is_hex c \<and> is_hex d
      then map_option ((#) (of_nat (16 * hex_value c + hex_value d))) (bytes_of_hex cs)
      else None)"

definition uuid_bytes :: "string \<Rightarrow> js_error + byte list" where
  "uuid_bytes v =
     (let compact = to_lower (filter (\<lambda>c. c \<noteq> CHR ''-'') v) in
      if length compact \<noteq> 32 then Inl (TypeError (''Invalid UUID namespace: '' @ v))
      else (case bytes_of_hex compact of
          None \<Rightarrow> Inl (TypeError (''Invalid UUID namespace: '' @ v))
        | Some bs \<Rightarrow> Inr bs))"

definition uuid_url_namespace :: string where
  "uuid_url_namespace = ''6ba7b811-9dad-11d1-80b4-00c04fd430c8''"

definition uuid_text :: "byte list \<Rightarrow> string" where
  "uuid_text bs =
     (let v = hex_of_bytes bs
      in str_slice 0 8 v @ ''-'' @ str_slice 8 12 v @ ''-'' @ str_slice 12 16 v @ ''-'' @ str_slice 16 20 v @ ''-'' @ drop 20 v)"

text \<open>The version and the variant are set in bytes 6 and 8 of the digest.\<close>

definition stamp_uuid :: "byte list \<Rightarrow> byte list" where
  "stamp_uuid raw =
     raw[6 := (raw ! 6 AND 0x0f) OR 0x50, 8 := (raw ! 8 AND 0x3f) OR 0x80]"

text \<open>The namespace is a valid one, so the first branch is never taken.\<close>

definition deterministic_ingestion_uuid :: "string \<Rightarrow> string \<Rightarrow> string" where
  "deterministic_ingestion_uuid kind logical =
     (let name = ''https://dokosoko.dev/developer-assets/'' @ kind @ ''/'' @ logical
      in case uuid_bytes uuid_url_namespace of
           Inl _ \<Rightarrow> []
         | Inr ns \<Rightarrow> uuid_text (stamp_uuid (take 16 (sha1_bytes (ns @ utf8 name)))))"

definition prefixed_hash :: "string \<Rightarrow> string" where
  "prefixed_hash v = ''sha256:'' @ v"

definition hash_json :: "json \<Rightarrow> string" where
  "hash_json v = prefixed_hash (sha256 (canonical_json v))"

definition unique_sorted :: "string list \<Rightarrow> string list" where
  "unique_sorted vs = js_sort compare_text (dedup (filter (\<lambda>v. v \<noteq> []) (map trim vs)))"

section \<open>Persisted identities\<close>

record persistence_ids =
  pi_documents :: "(string \<times> string) list"
  pi_sections :: "(string \<times> string) list"

text \<open>An empty identity counts as none.\<close>

definition get_text :: "(string \<times> string) list \<Rightarrow> string \<Rightarrow> string option" where
  "get_text m k = (case jm_get m k of Some v \<Rightarrow> if v = [] then None else Some v | None \<Rightarrow> None)"

definition direct_id :: "persistence_ids \<Rightarrow> string \<Rightarrow> string option" where
  "direct_id ids v =
     (case (case jm_get (pi_documents ids) v of Some i \<Rightarrow> Some i | None \<Rightarrow> jm_get (pi_sections ids) v) of
        Some i \<Rightarrow> if i = [] then None else Some i
      | None \<Rightarrow> None)"

definition persisted_evidence_id :: "string \<Rightarrow> persistence_ids option \<Rightarrow> string" where
  "persisted_evidence_id v identities =
     (case identities of
        None \<Rightarrow> v
      | Some ids \<Rightarrow>
          if starts_with v ''document:'' then
            (case get_text (pi_documents ids) (drop 9 v) of Some i \<Rightarrow> ''document:'' @ i | None \<Rightarrow> v)
          else if starts_with v ''section:'' then
            (case get_text (pi_sections ids) (drop 8 v) of Some i \<Rightarrow> ''section:'' @ i | None \<Rightarrow> v)
          else (case direct_id ids v of
              Some i \<Rightarrow> i
            | None \<Rightarrow>
                let anchor = index_of v ''#'' in
                if 0 < anchor then
                  (case get_text (pi_documents ids) (take (nat anchor) v) of
                     Some i \<Rightarrow> i @ drop (nat anchor) v
                   | None \<Rightarrow> v)
                else v))"

section \<open>The persisted map\<close>

fun documentation_outline_entry :: "string \<Rightarrow> persistence_ids option \<Rightarrow> outline_node \<Rightarrow> map_entry" where
  "documentation_outline_entry d ids (OutlineNode title anchor level sections children) =
     MapEntry (persisted_evidence_id (case sections of [] \<Rightarrow> d @ ''#'' @ anchor | s # _ \<Rightarrow> s) ids) ''section'' title
       (''Level '' @ nat_str level @ '' documentation heading in '' @ persisted_evidence_id d ids @ ''.'')
       (when_any (unique_sorted [anchor])) (when_any (map (documentation_outline_entry d ids) children))"

abbreviation documentation_outline_entries :: "string \<Rightarrow> persistence_ids option \<Rightarrow> outline_node list \<Rightarrow> map_entry list" where
  "documentation_outline_entries d ids nodes \<equiv> map (documentation_outline_entry d ids) nodes"

definition documentation_entry_point :: "persistence_ids option \<Rightarrow> entry_point \<Rightarrow> map_entry" where
  "documentation_entry_point ids e =
     MapEntry (persisted_evidence_id (ep_section e) ids) (entry_kind_text (ep_kind e)) (ep_title e)
       (entry_kind_text (ep_kind e) @ '' entry point in documentation document '' @ persisted_evidence_id (ep_document e) ids @ ''.'')
       (Some (unique_sorted [entry_kind_text (ep_kind e)])) None"

record persisted_map_body =
  pd_overview :: string
  pd_documents :: "map_entry list"
  pd_topics :: "map_entry list"
  pd_workflows :: "map_entry list"
  pd_authentication :: "map_entry list option"
  pd_errors :: "map_entry list option"
  pd_examples :: "map_entry list option"
  pd_languages :: "string list option"
  pd_gaps :: "map_gap list option"
  pd_warnings :: "string list option"
  pd_excluded :: "string list option"

definition document_entry :: "persistence_ids option \<Rightarrow> map_document \<Rightarrow> map_entry" where
  "document_entry ids m =
     MapEntry (persisted_evidence_id (md_document m) ids) ''document'' (md_title m)
       (format_text (md_format m) @ '' documentation with '' @ nat_str (md_section_count m) @ '' normalized section(s) at '' @ md_url m @ ''.'')
       (when_any (unique_sorted (md_url m # md_topics m)))
       (when_any (documentation_outline_entries (md_document m) ids (md_outline m)))"

text \<open>The documents of each topic, in the order of their first mention.\<close>

definition own_topic :: "string \<Rightarrow> string \<Rightarrow> (string \<times> string list) list \<Rightarrow> (string \<times> string list) list" where
  "own_topic d topic m =
     (let t = trim topic; owners = nullish (jm_get m t) []
      in if t = [] then m else jm_set t (if d \<in> set owners then owners else owners @ [d]) m)"

definition topic_owners :: "map_document list \<Rightarrow> (string \<times> string list) list" where
  "topic_owners ms = fold (\<lambda>m. fold (own_topic (md_document m)) (md_topics m)) ms []"

definition topic_entry :: "persistence_ids option \<Rightarrow> string \<times> string list \<Rightarrow> map_entry" where
  "topic_entry ids entry =
     MapEntry (''topic_'' @ take 24 (sha256 (to_lower (fst entry)))) ''topic'' (fst entry)
       (''Documentation topic present in '' @ nat_str (length (snd entry)) @ '' normalized document(s).'')
       (Some (js_sort compare_text (map (\<lambda>d. persisted_evidence_id d ids) (snd entry)))) None"

definition noteworthy :: "diagnostic list \<Rightarrow> diagnostic list" where
  "noteworthy gs = filter (\<lambda>g. diagnostic.dg_severity g \<noteq> Info) gs"

definition quality_gap :: "persistence_ids option \<Rightarrow> diagnostic \<Rightarrow> map_gap" where
  "quality_gap ids g =
     \<lparr>gp_kind = code_text (diagnostic.dg_code g), gp_description = diagnostic.dg_message g,
      gp_evidence = when_any (unique_sorted (map (\<lambda>v. persisted_evidence_id v ids)
        (nullish (dg_evidence g) [] @ [nullish (dg_section g) [], nullish (dg_document g) []])))\<rparr>"

definition map_overview_text :: "map_overview \<Rightarrow> string" where
  "map_overview_text o' =
     join ''; '' (filter (\<lambda>v. v \<noteq> [])
       [nat_str (mo_documents o') @ '' normalized documentation document(s)'',
        nat_str (mo_sections o') @ '' section(s)'',
        (if mo_formats o' \<noteq> [] then ''formats: '' @ join '', '' (map format_text (mo_formats o')) else []),
        (if mo_languages o' \<noteq> [] then ''languages: '' @ join '', '' (mo_languages o') else [])]) @ ''.''"

definition entries_of_kind :: "persistence_ids option \<Rightarrow> entry_kind list \<Rightarrow> entry_point list \<Rightarrow> map_entry list" where
  "entries_of_kind ids kinds es = map (documentation_entry_point ids) (filter (\<lambda>e. ep_kind e \<in> set kinds) es)"

definition persisted_documentation_map_body ::
    "documentation_map \<Rightarrow> diagnostic list \<Rightarrow> persistence_ids option \<Rightarrow> persisted_map_body" where
  "persisted_documentation_map_body m diagnostics ids =
     (let es = mp_entry_points m; bad = noteworthy diagnostics in
      \<lparr>pd_overview = map_overview_text (mp_overview m),
       pd_documents = map (document_entry ids) (mp_documents m),
       pd_topics = map (topic_entry ids) (js_sort by_key (topic_owners (mp_documents m))),
       pd_workflows = entries_of_kind ids [Setup, Reference, Concepts] es,
       pd_authentication = when_any (entries_of_kind ids [Authentication] es),
       pd_errors = when_any (entries_of_kind ids [Errors] es),
       pd_examples = when_any (entries_of_kind ids [Examples] es),
       pd_languages = (if mo_languages (mp_overview m) \<noteq> [] then Some (unique_sorted (mo_languages (mp_overview m))) else None),
       pd_gaps = when_any (map (quality_gap ids) bad),
       pd_warnings = when_any (unique_sorted (map (\<lambda>g. code_text (diagnostic.dg_code g) @ '': '' @ diagnostic.dg_message g) bad)),
       pd_excluded = when_any (unique_sorted (map (\<lambda>g. persisted_evidence_id (nullish (dg_document g) []) ids)
         (filter (\<lambda>g. diagnostic.dg_code g = DocumentDuplicate) diagnostics)))\<rparr>)"

definition json_map_body :: "persisted_map_body \<Rightarrow> json" where
  "json_map_body b = JObj [(''overview'', JStr (pd_overview b)), (''documents'', JArr (map json_entry (pd_documents b))),
     (''topics'', JArr (map json_entry (pd_topics b))), (''workflows'', JArr (map json_entry (pd_workflows b))),
     (''authentication'', json_optional json_entry (pd_authentication b)), (''errors'', json_optional json_entry (pd_errors b)),
     (''examples'', json_optional json_entry (pd_examples b)), (''languages'', json_optional JStr (pd_languages b)),
     (''gaps'', json_optional json_gap (pd_gaps b)), (''quality_warnings'', json_optional JStr (pd_warnings b)),
     (''excluded_source_ids'', json_optional JStr (pd_excluded b))]"

section \<open>The manifest\<close>

record legacy_reference =
  lg_document :: string
  lg_snapshot :: string

record manifest_entry =
  mf_url :: string
  mf_title :: string
  mf_media :: string
  mf_bytes :: nat
  mf_status :: nat
  mf_rendered :: bool
  mf_sha :: string
  mf_indicators :: "string list"
  mf_document :: "string option"
  mf_snapshot :: "string option"

definition manifest_entry_of :: "(string \<times> legacy_reference) list \<Rightarrow> page_record \<Rightarrow> manifest_entry" where
  "manifest_entry_of legacy page =
     \<lparr>mf_url = pg_url page, mf_title = pg_title page, mf_media = pg_content_type page, mf_bytes = length (utf8 (pg_html page)),
      mf_status = pg_status page, mf_rendered = pg_rendered page, mf_sha = prefixed_hash (sha256 (pg_html page)),
      mf_indicators = js_sort compare_text (pg_indicators page),
      mf_document = map_option lg_document (jm_get legacy (pg_url page)),
      mf_snapshot = map_option lg_snapshot (jm_get legacy (pg_url page))\<rparr>"

definition raw_manifest :: "ingestion_result \<Rightarrow> (string \<times> legacy_reference) list \<Rightarrow> manifest_entry list" where
  "raw_manifest result legacy =
     map (manifest_entry_of legacy) (js_sort (\<lambda>l r. compare_text (pg_url l) (pg_url r)) (ir_pages result))"

definition json_or_null :: "string option \<Rightarrow> json" where
  "json_or_null v = (case v of None \<Rightarrow> JNull | Some s \<Rightarrow> JStr s)"

definition json_manifest :: "manifest_entry list \<Rightarrow> json" where
  "json_manifest es = JArr (map (\<lambda>e. JObj
     [(''canonical_url'', JStr (mf_url e)), (''title'', JStr (mf_title e)), (''media_type'', JStr (mf_media e)),
      (''byte_size'', json_nat (mf_bytes e)), (''response_status'', json_nat (mf_status e)), (''rendered'', JBool (mf_rendered e)),
      (''raw_sha256'', JStr (mf_sha e)), (''injection_indicators'', json_strings (mf_indicators e)),
      (''legacy_knowledge_document_id'', json_or_null (mf_document e)), (''legacy_snapshot_id'', json_or_null (mf_snapshot e))]) es)"

definition quarantined :: "manifest_entry list \<Rightarrow> nat" where
  "quarantined es = length (filter (\<lambda>e. mf_indicators e \<noteq> []) es)"

section \<open>Kinds\<close>

datatype persisted_kind = Guide | ReferenceDoc | Tutorial | Concept | Changelog | ExampleDoc | OtherDoc

abbreviation edge_first :: "string \<Rightarrow> rx" where
  "edge_first w \<equiv> Seq WordEdge (lit_i w)"

abbreviation edge_last :: "string \<Rightarrow> rx" where
  "edge_last w \<equiv> Seq (lit_i w) WordEdge"

text \<open>
  A pattern such as \<^verbatim>\<open>/\ba|b|c\b/\<close> is an alternation of \<^verbatim>\<open>\ba\<close>, \<^verbatim>\<open>b\<close> and \<^verbatim>\<open>c\b\<close>.
\<close>

definition changelog_rx :: rx where
  "changelog_rx = Alt (edge_first ''changelog'') (seqs [lit_i ''release note'', maybe (lit_i ''s''), WordEdge])"

definition tutorial_rx :: rx where
  "tutorial_rx = alts [edge_first ''tutorial'', lit_i ''walkthrough'',
     seqs [lit_i ''quick'', maybe (lit_i '' ''), lit_i ''start'', WordEdge]]"

definition example_rx :: rx where
  "example_rx = alts [edge_first ''example'', lit_i ''sample'', edge_last ''recipe'']"

definition reference_rx :: rx where
  "reference_rx = alts [edge_first ''reference'', lit_i ''api'', lit_i ''endpoint'', lit_i ''method'', lit_i ''class'', edge_last ''function'']"

definition concept_rx :: rx where
  "concept_rx = alts [edge_first ''concept'', lit_i ''architecture'', edge_last ''overview'']"

definition documentation_kind :: "document \<Rightarrow> persisted_kind" where
  "documentation_kind d =
     (let v = doc_title d @ '' '' @ li_url (doc_source d) in
      if rx_test changelog_rx v then Changelog
      else if rx_test tutorial_rx v then Tutorial
      else if rx_test example_rx v then ExampleDoc
      else if rx_test reference_rx v then ReferenceDoc
      else if rx_test concept_rx v then Concept
      else if doc_blocks d \<noteq> [] then Guide else OtherDoc)"

text \<open>A block named more than once by the slices is taken again; a later block of an identifier wins.\<close>

definition referenced_blocks :: "document \<Rightarrow> doc_section \<Rightarrow> normalized_block list" where
  "referenced_blocks d s =
     (let by_id = jm_of_list (map (\<lambda>b. (nb_id b, b)) (doc_blocks d))
      in List.map_filter (\<lambda>sl. jm_get by_id (sl_block sl)) (se_slices s))"

datatype content_kind = Prose | CodeContent | TableContent | SchemaContent | OperationContent | ExampleContent | WarningContent | Mixed

definition warning_rx :: rx where
  "warning_rx = alts [edge_first ''warning'', lit_i ''caution'', lit_i ''danger'', edge_last ''important'']"

definition sample_rx :: rx where
  "sample_rx = Alt (edge_first ''example'') (edge_last ''sample'')"

definition schema_rx :: rx where
  "schema_rx = Alt (edge_first ''schema'') (edge_last ''model'')"

definition operation_rx :: rx where
  "operation_rx = seqs [WordEdge, words [''GET'', ''POST'', ''PUT'', ''PATCH'', ''DELETE'', ''HEAD'', ''OPTIONS'', ''TRACE''],
     some_rx space, lit ''/'']"

definition section_content_kind :: "normalized_block list \<Rightarrow> string \<Rightarrow> content_kind" where
  "section_content_kind blocks title =
     (if rx_test warning_rx title then WarningContent
      else if rx_test sample_rx title then ExampleContent
      else if rx_test schema_rx title then SchemaContent
      else if rx_test operation_rx title then OperationContent
      else
        let types = dedup (filter (\<lambda>t. t \<noteq> ''heading'') (map (body_type \<circ> nb_body) blocks)) in
        if types = [''code''] then CodeContent
        else if types = [''table''] then TableContent
        else if ''code'' \<in> set types \<or> ''table'' \<in> set types then Mixed
        else Prose)"

definition section_source_range :: "normalized_block list \<Rightarrow> (int \<times> int) option" where
  "section_source_range blocks =
     (case blocks of
        [] \<Rightarrow> None
      | b # bs \<Rightarrow> Some (fold min (map (sr_start \<circ> nb_range) bs) (sr_start (nb_range b)),
                       fold max (map (sr_end \<circ> nb_range) bs) (sr_end (nb_range b))))"

section \<open>The Markdown for agents\<close>

abbreviation collapse :: "string \<Rightarrow> string" where
  "collapse \<equiv> replace_runs is_ws '' ''"

definition section_line :: "string \<Rightarrow> persistence_ids option \<Rightarrow> doc_section \<Rightarrow> string" where
  "section_line dash ids s =
     (let breadcrumb = or_else (join '' > '' (map hp_text (se_path s))) (se_title s)
      in ''  - '' @ collapse breadcrumb @ '' '' @ dash @ '' evidence `section:'' @ persisted_evidence_id (se_id s) ids @ ''`'')"

definition document_lines :: "string \<Rightarrow> persistence_ids option \<Rightarrow> doc_section list \<Rightarrow> document \<Rightarrow> string list" where
  "document_lines dash ids sections d =
     (''- '' @ collapse (doc_title d) @ '' '' @ dash @ '' '' @ li_url (doc_source d) @ '' '' @ dash
        @ '' evidence `document:'' @ persisted_evidence_id (doc_id d) ids @ ''`'')
     # map (section_line dash ids) (filter (\<lambda>s. se_document s = doc_id d) sections)"

definition documentation_agent_markdown ::
    "string \<Rightarrow> document list \<Rightarrow> doc_section list \<Rightarrow> persistence_ids option \<Rightarrow> string" where
  "documentation_agent_markdown dash documents sections ids =
     trim (join [newline]
       ([''# Documentation Map'', [], ''Documents: '' @ nat_str (length documents), ''Sections: '' @ nat_str (length sections),
         [], ''## Table of contents'', []]
        @ concat (map (document_lines dash ids sections) documents))) @ [newline]"

section \<open>Stages\<close>

datatype stage_name =
    Acquire | Validate | Parse | Normalise | SegmentStage | Extract | MapStage | AiEnrich | QualityCheck | BuildIndex | ReviewStage

fun stage_text :: "stage_name \<Rightarrow> string" where
  "stage_text Acquire = ''acquire''"
| "stage_text Validate = ''validate''"
| "stage_text Parse = ''parse''"
| "stage_text Normalise = ''normalize''"
| "stage_text SegmentStage = ''segment''"
| "stage_text Extract = ''extract''"
| "stage_text MapStage = ''map''"
| "stage_text AiEnrich = ''ai_enrich''"
| "stage_text QualityCheck = ''quality_check''"
| "stage_text BuildIndex = ''build_index''"
| "stage_text ReviewStage = ''review''"

datatype stage_state = StageQueued | StageSucceeded | StageSkipped

record stage =
  st_name :: stage_name
  st_state :: stage_state
  st_input :: string
  st_output :: string
  st_checkpoint :: json
  st_diagnostics :: json

definition done_stage :: "stage_name \<Rightarrow> string \<Rightarrow> string \<Rightarrow> (string \<times> json) list \<Rightarrow> (string \<times> json) list \<Rightarrow> stage" where
  "done_stage name input output checkpoint diagnostics =
     \<lparr>st_name = name, st_state = StageSucceeded, st_input = input, st_output = output, st_checkpoint = JObj checkpoint,
      st_diagnostics = JObj diagnostics\<rparr>"

definition skip_stage :: "stage_name \<Rightarrow> string \<Rightarrow> string \<Rightarrow> stage" where
  "skip_stage name reason input =
     \<lparr>st_name = name, st_state = StageSkipped, st_input = input, st_output = [], st_checkpoint = JObj [],
      st_diagnostics = JObj [(''reason'', JStr reason)]\<rparr>"

definition enrich_stage :: "string \<Rightarrow> stage" where
  "enrich_stage input =
     \<lparr>st_name = AiEnrich, st_state = StageQueued, st_input = input, st_output = [],
      st_checkpoint = JObj [(''reason'', JStr ''AI processing is required before publication'')], st_diagnostics = JObj []\<rparr>"

fun scope_text :: "scope \<Rightarrow> string" where
  "scope_text DocumentScope = ''document''"
| "scope_text SectionScope = ''section''"
| "scope_text CorpusScope = ''corpus''"

definition json_text_option :: "string option \<Rightarrow> json" where
  "json_text_option v = (case v of None \<Rightarrow> JUndef | Some s \<Rightarrow> JStr s)"

definition json_quality :: "diagnostic list \<Rightarrow> json" where
  "json_quality gs = JArr (map (\<lambda>g. JObj
     [(''code'', JStr (code_text (diagnostic.dg_code g))), (''severity'', JStr (severity_text (diagnostic.dg_severity g))),
      (''scope'', JStr (scope_text (dg_scope g))), (''message'', JStr (diagnostic.dg_message g)),
      (''documentId'', json_text_option (dg_document g)), (''sectionId'', json_text_option (dg_section g)),
      (''evidenceIds'', json_optional JStr (dg_evidence g)),
      (''details'', case dg_details g of None \<Rightarrow> JUndef | Some kvs \<Rightarrow> JObj kvs)]) gs)"

definition source_hash :: "job \<Rightarrow> string" where
  "source_hash job = hash_json (JObj [(''source_id'', JStr (j_source job)), (''location'', JStr (j_location job))])"

definition pairs_hash :: "string \<Rightarrow> (string \<times> string) list \<Rightarrow> string" where
  "pairs_hash key ps = hash_json (JArr (map (\<lambda>(i, h). JObj [(''id'', JStr i), (key, JStr h)]) ps))"

definition documentation_stages :: "job \<Rightarrow> string \<Rightarrow> documentation_corpus \<Rightarrow> string \<Rightarrow> stage list" where
  "documentation_stages job manifest c map_hash =
     (let parsed = pairs_hash ''raw'' (map (\<lambda>d. (doc_id d, ln_raw_sha (doc_source d))) (co_documents c));
          normalized = pairs_hash ''normalized'' (map (\<lambda>d. (doc_id d, doc_sha d)) (co_documents c));
          sections = pairs_hash ''content'' (map (\<lambda>s. (se_id s, se_sha s)) (co_sections c));
          quality = hash_json (json_quality (co_diagnostics c))
      in [done_stage Acquire (source_hash job) manifest [(''acquired_count'', json_nat (length (co_documents c)))] [],
          done_stage Validate manifest manifest [] [],
          done_stage Parse manifest parsed [(''document_logical_ids'', json_strings (map doc_id (co_documents c)))] [],
          done_stage Normalise parsed normalized [(''schema_version'', JStr normalized_document_version)] [],
          done_stage SegmentStage normalized sections [(''section_logical_ids'', json_strings (map se_id (co_sections c)))] [],
          skip_stage Extract ''Documentation extraction is represented by the normalized document and section records.'' sections,
          done_stage MapStage sections map_hash [(''map_logical_id'', JStr (dm_id (co_map c)))] [],
          enrich_stage map_hash,
          done_stage QualityCheck sections quality [(''diagnostic_count'', json_nat (length (co_diagnostics c)))]
            [(''items'', json_quality (co_diagnostics c))],
          skip_stage BuildIndex ''Published retrieval indexes are built from an approved Go-side publication.'' map_hash,
          done_stage ReviewStage map_hash map_hash [(''state'', JStr ''review_ready'')] []])"

definition contract_stages :: "job \<Rightarrow> string \<Rightarrow> openapi_candidate \<Rightarrow> stage list" where
  "contract_stages job manifest c =
     (let normalized = prefixed_hash (oc_hash c);
          extracted = hash_json (JObj [(''operations'', json_strings (map op_hash (oc_operations c))),
            (''schemas'', json_strings (map sc_hash (oc_schemas c))), (''examples'', json_strings (map ex_hash (oc_examples c)))]);
          map_hash = prefixed_hash (oc_map_hash c); diagnostics = JArr (map JObj (oc_diagnostics c))
      in [done_stage Acquire (source_hash job) manifest [(''acquired_count'', JNum 1)] [],
          done_stage Validate manifest (prefixed_hash (oc_source_hash c)) [(''openapi_version'', JStr (oc_version c))] [],
          done_stage Parse manifest normalized [(''candidate_logical_id'', JStr (oc_logical c))] [],
          done_stage Normalise normalized normalized [(''format'', JStr (case oc_format c of JsonFormat \<Rightarrow> ''json'' | YamlFormat \<Rightarrow> ''yaml''))] [],
          skip_stage SegmentStage
            ''OpenAPI candidates are segmented into typed operations, schemas, and examples during extraction.'' normalized,
          done_stage Extract normalized extracted [(''operation_count'', json_nat (length (oc_operations c))),
            (''schema_count'', json_nat (length (oc_schemas c))), (''example_count'', json_nat (length (oc_examples c)))] [],
          done_stage MapStage extracted map_hash [(''map_version'', JStr api_contract_map_version)] [],
          enrich_stage map_hash,
          done_stage QualityCheck extracted (hash_json diagnostics) [(''diagnostic_count'', json_nat (length (oc_diagnostics c)))]
            [(''items'', diagnostics)],
          skip_stage BuildIndex ''Published retrieval indexes are built from an approved Go-side publication.'' map_hash,
          done_stage ReviewStage map_hash map_hash [(''state'', JStr ''review_ready'')] []])"

section \<open>Deterministic identifiers\<close>

lemma hex_digit_plain: "d < 16 \<Longrightarrow> hex_digit d \<noteq> CHR ''-''"
proof -
  have "list_all (\<lambda>d. hex_digit d \<noteq> CHR ''-'') [0..<16]" by code_simp
  then show "d < 16 \<Longrightarrow> ?thesis" by (simp add: list_all_iff)
qed

lemma byte_digits: "unat (b :: byte) div 16 < 16" "unat b mod 16 < 16"
  using unat_byte_less [of b] by (simp_all add: div_less_iff_less_mult)

lemma bytes_of_hex_of_bytes: "bytes_of_hex (hex_of_bytes bs) = Some bs"
proof (induction bs)
  case (Cons b bs)
  have "of_nat (16 * (unat b div 16) + unat b mod 16) = b" by simp
  then show ?case
    using Cons byte_digits [of b] by (simp add: hex_of_bytes_def hex_byte_def)
qed (simp add: hex_of_bytes_def)

lemma hex_text_plain: "to_lower (hex_of_bytes bs) = hex_of_bytes bs \<and> CHR ''-'' \<notin> set (hex_of_bytes bs)"
proof (induction bs)
  case (Cons b bs)
  then show ?case
    using byte_digits [of b] hex_digit_plain [of "unat b div 16"] hex_digit_plain [of "unat b mod 16"]
      hex_digit_not [of "unat b div 16"] hex_digit_not [of "unat b mod 16"]
    by (simp add: hex_of_bytes_def hex_byte_def to_lower_def eq_commute)
qed (simp add: hex_of_bytes_def to_lower_def)

lemma uuid_slices: "filter (\<lambda>c. c \<noteq> CHR ''-'') (uuid_text bs) = hex_of_bytes bs"
proof -
  define v where "v = hex_of_bytes bs"
  have plain: "filter (\<lambda>c. c \<noteq> CHR ''-'') (take n (drop m v)) = take n (drop m v)" for n m
    using hex_text_plain [of bs] by (auto simp: v_def filter_id_conv dest: in_set_takeD in_set_dropD)
  have "v = take 8 v @ take 4 (drop 8 v) @ take 4 (drop 12 v) @ take 4 (drop 16 v) @ drop 20 v"
    using append_take_drop_id [of 8 v] append_take_drop_id [of 4 "drop 8 v"] append_take_drop_id [of 4 "drop 12 v"]
      append_take_drop_id [of 4 "drop 16 v"] by simp
  then show ?thesis
    using plain [of 8 0] plain [of 4 8] plain [of 4 12] plain [of 4 16] plain [of "length v" 20]
    by (simp add: uuid_text_def str_slice_def v_def [symmetric] Let_def)
qed

lemma uuid_roundtrip: "length bs = 16 \<Longrightarrow> uuid_bytes (uuid_text bs) = Inr bs"
  using hex_text_plain [of bs] by (simp add: uuid_bytes_def uuid_slices bytes_of_hex_of_bytes)

lemma uuid_namespace_valid: "\<exists>ns. uuid_bytes uuid_url_namespace = Inr ns \<and> length ns = 16"
proof -
  have "uuid_bytes uuid_url_namespace = Inr [0x6b, 0xa7, 0xb8, 0x11, 0x9d, 0xad, 0x11, 0xd1, 0x80, 0xb4, 0x00, 0xc0, 0x4f, 0xd4, 0x30, 0xc8]"
    by code_simp
  then show ?thesis by simp
qed

lemma stamped_bits: "drop_bit 4 ((x AND 0x0f) OR 0x50 :: byte) = 5" "drop_bit 6 ((x AND 0x3f) OR 0x80 :: byte) = 2"
  by (rule bit_word_eqI; auto simp: bit_simps)+

lemma length_uuid_text: "length bs = 16 \<Longrightarrow> length (uuid_text bs) = 36"
  by (simp add: uuid_text_def str_slice_def Let_def)

lemma uuid_nonempty [simp]: "deterministic_ingestion_uuid kind i \<noteq> []"
proof -
  obtain ns where "uuid_bytes uuid_url_namespace = Inr ns" using uuid_namespace_valid by blast
  then show ?thesis by (simp add: deterministic_ingestion_uuid_def uuid_text_def Let_def)
qed

lemma stamped_rest: "((x AND 0x0f) OR 0x50 :: byte) AND 0x0f = x AND 0x0f" "((x AND 0x3f) OR 0x80 :: byte) AND 0x3f = x AND 0x3f"
  by (simp_all add: bit.conj_disj_distrib2 and.assoc)

lemma uuid_groups:
  assumes "length bs = 16"
  obtains a b c d e where "uuid_text bs = a @ ''-'' @ b @ ''-'' @ c @ ''-'' @ d @ ''-'' @ e" "hex_of_bytes bs = a @ b @ c @ d @ e"
    "length a = 8" "length b = 4" "length c = 4" "length d = 4" "length e = 12"
proof -
  define v where "v = hex_of_bytes bs"
  have "v = take 8 v @ take 4 (drop 8 v) @ take 4 (drop 12 v) @ take 4 (drop 16 v) @ drop 20 v"
    using append_take_drop_id [of 8 v] append_take_drop_id [of 4 "drop 8 v"] append_take_drop_id [of 4 "drop 12 v"]
      append_take_drop_id [of 4 "drop 16 v"] by simp
  then show thesis
    using assms by (intro that [of "take 8 v" "take 4 (drop 8 v)" "take 4 (drop 12 v)" "take 4 (drop 16 v)" "drop 20 v"])
      (simp_all add: uuid_text_def str_slice_def v_def [symmetric] Let_def length_hex_of_bytes [of bs, folded v_def])
qed

lemma uuid_dashes:
  assumes "length bs = 16"
  shows "list_all (\<lambda>i. (uuid_text bs ! i = CHR ''-'') = (i \<in> set [8, 13, 18, 23])) [0..<36]"
    and "to_lower (uuid_text bs) = uuid_text bs"
proof -
  obtain a b c d e where u: "uuid_text bs = a @ ''-'' @ b @ ''-'' @ c @ ''-'' @ d @ ''-'' @ e"
    and v: "hex_of_bytes bs = a @ b @ c @ d @ e"
    and len: "length a = 8" "length b = 4" "length c = 4" "length d = 4" "length e = 12"
    using assms by (rule uuid_groups)
  have plain: "CHR ''-'' \<notin> set (a @ b @ c @ d @ e)" using conjunct2 [OF hex_text_plain [of bs]] unfolding v .
  then have "\<And>i. i < 8 \<Longrightarrow> a ! i \<noteq> CHR ''-''" "\<And>i. i < 4 \<Longrightarrow> b ! i \<noteq> CHR ''-''" "\<And>i. i < 4 \<Longrightarrow> c ! i \<noteq> CHR ''-''"
    "\<And>i. i < 4 \<Longrightarrow> d ! i \<noteq> CHR ''-''" "\<And>i. i < 12 \<Longrightarrow> e ! i \<noteq> CHR ''-''"
    using len by (auto simp: in_set_conv_nth)
  then show "list_all (\<lambda>i. (uuid_text bs ! i = CHR ''-'') = (i \<in> set [8, 13, 18, 23])) [0..<36]"
    by (auto simp: list_all_iff u nth_append nth_Cons' len)
  have "to_lower a = a" "to_lower b = b" "to_lower c = c" "to_lower d = d" "to_lower e = e"
    using hex_text_plain [of bs] len by (auto simp: v to_lower_def)
  then show "to_lower (uuid_text bs) = uuid_text bs"
    by (simp add: u to_lower_def lower_char_def is_upper_def char_in_def)
qed

text \<open>
  Property C26. An ingestion identifier is a well-formed UUID of version 5 of its name: 36 characters in lower
  case, with dashes between the groups of 8, 4, 4, 4 and 12 digits and nowhere else; read back, it is the first 16
  bytes of the SHA-1 of the URL namespace and the name, but for the version 5 and the variant of RFC 4122.
\<close>

theorem uuid_roundtrips:
  "\<exists>ns bs. uuid_bytes ''6ba7b811-9dad-11d1-80b4-00c04fd430c8'' = Inr ns \<and> length bs = 16
     \<and> (let raw = sha1_bytes (ns @ utf8 (''https://dokosoko.dev/developer-assets/'' @ kind @ ''/'' @ logical));
            u = deterministic_ingestion_uuid kind logical in
        uuid_bytes u = Inr bs \<and> length u = 36 \<and> to_lower u = u
        \<and> list_all (\<lambda>i. (u ! i = CHR ''-'') = (i \<in> set [8, 13, 18, 23])) [0..<36]
        \<and> list_all (\<lambda>i. if i \<in> set [6, 8] then True else bs ! i = raw ! i) [0..<16]
        \<and> drop_bit 4 (bs ! 6) = 5 \<and> bs ! 6 AND 0x0f = raw ! 6 AND 0x0f
        \<and> drop_bit 6 (bs ! 8) = 2 \<and> bs ! 8 AND 0x3f = raw ! 8 AND 0x3f)"
proof -
  obtain ns where ns: "uuid_bytes uuid_url_namespace = Inr ns"
    using uuid_namespace_valid by blast
  define name where "name = ''https://dokosoko.dev/developer-assets/'' @ kind @ ''/'' @ logical"
  define raw where "raw = sha1_bytes (ns @ utf8 name)"
  define bs where "bs = stamp_uuid (take 16 raw)"
  have len: "length bs = 16" by (simp add: bs_def stamp_uuid_def raw_def)
  have u: "deterministic_ingestion_uuid kind logical = uuid_text bs"
    by (simp add: deterministic_ingestion_uuid_def ns bs_def raw_def name_def Let_def)
  have long: "length raw = 20" by (simp add: raw_def)
  have "drop_bit 4 (bs ! 6) = 5" "drop_bit 6 (bs ! 8) = 2" "bs ! 6 AND 0x0f = raw ! 6 AND 0x0f" "bs ! 8 AND 0x3f = raw ! 8 AND 0x3f"
    using long unfolding bs_def stamp_uuid_def by (simp_all add: stamped_bits stamped_rest)
  moreover have "list_all (\<lambda>i. if i \<in> set [6, 8] then True else bs ! i = raw ! i) [0..<16]"
    using long unfolding list_all_iff bs_def stamp_uuid_def by auto
  ultimately show ?thesis
    unfolding name_def [symmetric] uuid_url_namespace_def [symmetric] Let_def u
    using ns uuid_roundtrip [OF len] length_uuid_text [OF len] uuid_dashes [OF len] len
    unfolding raw_def by (intro exI [of _ ns] exI [of _ bs] conjI)
qed

end
