(* ===== verification/Persist.thy ===== *)
theory Persist
  imports PersistMap JobStore
begin

text \<open>
  The transactions of \<^verbatim>\<open>crawler/candidate-persistence.ts\<close>: the run of an ingestion and its states, the
  rows of a documentation candidate and of a contract candidate, and the transaction around them.  A
  statement that violates a unique index fails with \<open>OtherFault\<close>; every failure rolls back.
\<close>

section \<open>Tables\<close>

datatype asset_kind = DocumentationAsset | ContractAsset | SdkAsset

datatype run_state = RunQueued | RunRunning | RunReviewReady | RunFailed | RunCancelled | RunPublished

record asset_run =
  rn_id :: string
  rn_deployment :: string
  rn_organisation :: string
  rn_kind :: asset_kind
  rn_target :: "string option"
  rn_key :: string
  rn_source :: "string option"
  rn_uri :: string
  rn_source_hash :: string
  rn_state :: run_state
  rn_attempt :: int
  rn_versions :: processor_versions
  rn_manifest :: "manifest_entry list"
  rn_manifest_hash :: string
  rn_diagnostics :: json
  rn_discovered :: int
  rn_acquired :: int
  rn_failed :: int
  rn_skipped :: int
  rn_quarantined :: int
  rn_owner :: string
  rn_expires :: "int option"
  rn_heartbeat :: "int option"
  rn_error :: "string \<times> string"
  rn_queued :: int
  rn_started :: "int option"
  rn_finished :: "int option"

record stage_row =
  sw_id :: string
  sw_run :: string
  sw_attempt :: int
  sw_stage :: stage
  sw_error :: "string \<times> string"
  sw_started :: "int option"
  sw_finished :: "int option"

record asset_document =
  dd_id :: string
  dd_deployment :: string
  dd_run :: string
  dd_legacy :: "string option"
  dd_path :: string
  dd_url :: string
  dd_title :: string
  dd_kind :: persisted_kind
  dd_media :: string
  dd_markdown :: string
  dd_hash :: string
  dd_visibility :: visibility
  dd_ordinal :: nat
  dd_metadata :: json

record asset_section =
  dx_id :: string
  dx_deployment :: string
  dx_document :: string
  dx_parent :: "string option"
  dx_ordinal :: nat
  dx_level :: nat
  dx_heading :: string
  dx_anchor :: string
  dx_breadcrumb :: "string list"
  dx_kind :: content_kind
  dx_text :: string
  dx_language :: string
  dx_tokens :: nat
  dx_range :: "(int \<times> int) option"
  dx_hash :: string
  dx_metadata :: json

record asset_map =
  dz_id :: string
  dz_deployment :: string
  dz_run :: string
  dz_version :: string
  dz_map :: persisted_map_body
  dz_markdown :: string
  dz_hash :: string
  dz_visibility :: visibility

record contract_binding =
  kb_deployment :: string
  kb_source :: string
  kb_contract :: string
  kb_attached :: bool

record contract_row =
  ka_id :: string
  ka_deployment :: string
  ka_active :: bool
  ka_visibility :: visibility

record candidate_row =
  kc_id :: string
  kc_deployment :: string
  kc_contract :: string
  kc_run :: string
  kc_version :: string
  kc_format :: openapi_format
  kc_normalized :: json
  kc_source_hash :: string
  kc_hash :: string
  kc_validation :: json
  kc_parser :: string
  kc_visibility :: visibility
  kc_diagnostics :: json

record operation_row =
  ko_id :: string
  ko_deployment :: string
  ko_candidate :: string
  ko_operation :: contract_operation
  ko_hash :: string

record schema_row =
  ks_id :: string
  ks_deployment :: string
  ks_candidate :: string
  ks_key :: string
  ks_document :: json_object
  ks_hash :: string

record example_row =
  ke_id :: string
  ke_deployment :: string
  ke_candidate :: string
  ke_operation :: "string option"
  ke_name :: string
  ke_kind :: example_kind
  ke_media :: string
  ke_status :: string
  ke_value :: json
  ke_hash :: string

record contract_map_row =
  km_id :: string
  km_deployment :: string
  km_candidate :: string
  km_version :: string
  km_map :: contract_map
  km_markdown :: string
  km_hash :: string

record asset_db =
  ab_core :: database
  ab_runs :: "asset_run list"
  ab_stages :: "stage_row list"
  ab_documents :: "asset_document list"
  ab_sections :: "asset_section list"
  ab_maps :: "asset_map list"
  ab_bindings :: "contract_binding list"
  ab_contracts :: "contract_row list"
  ab_candidates :: "candidate_row list"
  ab_operations :: "operation_row list"
  ab_schemas :: "schema_row list"
  ab_examples :: "example_row list"
  ab_contract_maps :: "contract_map_row list"

abbreviation ab_now :: "asset_db \<Rightarrow> int" where
  "ab_now db \<equiv> db_now (ab_core db)"

text \<open>An \<^verbatim>\<open>INSERT\<close> fails when a row of the table has the same value under a unique index.\<close>

definition insert_unique :: "('r \<Rightarrow> 'r \<Rightarrow> bool) \<Rightarrow> 'r \<Rightarrow> 'r list \<Rightarrow> fault + 'r list" where
  "insert_unique clash r rows = (if list_ex (clash r) rows then Inl OtherFault else Inr (rows @ [r]))"

fun insert_all :: "('r \<Rightarrow> 'r \<Rightarrow> bool) \<Rightarrow> 'r list \<Rightarrow> 'r list \<Rightarrow> fault + 'r list" where
  "insert_all clash [] rows = Inr rows"
| "insert_all clash (r # rs) rows = bind_result (insert_unique clash r rows) (insert_all clash rs)"

section \<open>The lease\<close>

definition lock_current_crawl_lease :: "asset_db \<Rightarrow> job \<Rightarrow> fault + unit" where
  "lock_current_crawl_lease db job =
     (if owned (ab_core db) job then Inr ()
      else throw ''crawler_lease_lost'' ''The crawler no longer owns this job lease; typed candidates were not committed.'')"

definition assert_current_crawl_lease :: "asset_db \<Rightarrow> job \<Rightarrow> fault + unit" where
  "assert_current_crawl_lease db job =
     (if owned (ab_core db) job then Inr ()
      else throw ''crawler_lease_lost'' ''The crawler lease expired before typed candidates could be committed.'')"

section \<open>The run\<close>

record run_shape =
  sh_kind :: asset_kind
  sh_target :: string
  sh_key :: string
  sh_versions :: processor_versions
  sh_manifest :: "manifest_entry list"
  sh_hash :: string
  sh_diagnostics :: "(string \<times> json) list"

definition conflict :: "string \<Rightarrow> fault + 'a" where
  "conflict message = throw ''developer_asset_run_conflict'' message"

definition run_identity_matches :: "asset_run \<Rightarrow> job \<Rightarrow> run_shape \<Rightarrow> bool" where
  "run_identity_matches r job shape \<longleftrightarrow>
     rn_deployment r = j_product job \<and> rn_organisation r = j_organisation job \<and> rn_kind r = sh_kind shape
     \<and> rn_target r = Some (sh_target shape) \<and> rn_key r = sh_key shape \<and> rn_source r = Some (j_source job)
     \<and> rn_versions r = sh_versions shape"

definition count_of :: "(string \<times> json) list \<Rightarrow> string \<Rightarrow> int" where
  "count_of diagnostics key = (case optional_member (member diagnostics ''counts'') key of JNum n \<Rightarrow> n | _ \<Rightarrow> 0)"

definition new_run :: "database \<Rightarrow> job \<Rightarrow> run_shape \<Rightarrow> job_row \<Rightarrow> asset_run" where
  "new_run db job shape r =
     \<lparr>rn_id = j_id job, rn_deployment = j_product job, rn_organisation = j_organisation job, rn_kind = sh_kind shape,
      rn_target = Some (sh_target shape), rn_key = sh_key shape, rn_source = Some (j_source job), rn_uri = j_location job,
      rn_source_hash = sh_hash shape, rn_state = RunRunning, rn_attempt = j_attempt job, rn_versions = sh_versions shape,
      rn_manifest = sh_manifest shape, rn_manifest_hash = sh_hash shape, rn_diagnostics = JObj (sh_diagnostics shape),
      rn_discovered = count_of (sh_diagnostics shape) ''discovered'', rn_acquired = int (length (sh_manifest shape)),
      rn_failed = count_of (sh_diagnostics shape) ''failed'', rn_skipped = count_of (sh_diagnostics shape) ''skipped'',
      rn_quarantined = int (quarantined (sh_manifest shape)), rn_owner = jr_owner r, rn_expires = jr_expires r,
      rn_heartbeat = jr_heartbeat r, rn_error = ([], []), rn_queued = db_now db, rn_started = Some (db_now db), rn_finished = None\<rparr>"

definition active_run :: "asset_run \<Rightarrow> bool" where
  "active_run r \<longleftrightarrow> rn_state r = RunQueued \<or> rn_state r = RunRunning"

text \<open>\<^verbatim>\<open>ON CONFLICT (id) DO NOTHING\<close>; another active run of the target violates its unique index.\<close>

definition insert_run :: "job \<Rightarrow> run_shape \<Rightarrow> asset_db \<Rightarrow> fault + asset_db" where
  "insert_run job shape db =
     (case find (holds_lease (ab_now db) (j_id job) (j_lease_owner job)) (db_jobs (ab_core db)) of
        None \<Rightarrow> Inr db
      | Some r \<Rightarrow>
          if list_ex (\<lambda>x. rn_id x = j_id job) (ab_runs db) then Inr db
          else if list_ex (\<lambda>x. active_run x \<and> rn_deployment x = j_product job \<and> rn_kind x = sh_kind shape \<and> rn_key x = sh_key shape) (ab_runs db)
          then Inl OtherFault
          else Inr (db\<lparr>ab_runs := ab_runs db @ [new_run (ab_core db) job shape r]\<rparr>))"

definition job_expiry :: "asset_db \<Rightarrow> job \<Rightarrow> int option" where
  "job_expiry db job = (case find (\<lambda>r. jr_id r = j_id job) (db_jobs (ab_core db)) of Some r \<Rightarrow> jr_expires r | None \<Rightarrow> None)"

definition acquire_run :: "asset_db \<Rightarrow> job \<Rightarrow> run_shape \<Rightarrow> asset_run \<Rightarrow> asset_run" where
  "acquire_run db job shape r =
     r\<lparr>rn_manifest := sh_manifest shape, rn_manifest_hash := sh_hash shape, rn_uri := j_location job,
       rn_source_hash := sh_hash shape, rn_diagnostics := JObj (sh_diagnostics shape), rn_owner := j_lease_owner job,
       rn_expires := job_expiry db job, rn_heartbeat := Some (ab_now db)\<rparr>"

definition start_run :: "asset_db \<Rightarrow> job \<Rightarrow> run_shape \<Rightarrow> asset_run \<Rightarrow> asset_run" where
  "start_run db job shape r =
     (acquire_run db job shape r)\<lparr>rn_state := RunRunning,
       rn_started := Some (nullish (rn_started r) (ab_now db)), rn_finished := None\<rparr>"

text \<open>
  The trigger on the table refuses other input once a candidate of the run exists; its other
  rules cannot be broken by the statements here.
\<close>

definition input_frozen :: "asset_db \<Rightarrow> asset_run \<Rightarrow> asset_run \<Rightarrow> bool" where
  "input_frozen db old new \<longleftrightarrow>
     (rn_uri new, rn_source_hash new, rn_manifest new, rn_manifest_hash new)
       \<noteq> (rn_uri old, rn_source_hash old, rn_manifest old, rn_manifest_hash old)
     \<and> (list_ex (\<lambda>d. dd_run d = rn_id old) (ab_documents db) \<or> list_ex (\<lambda>c. kc_run c = rn_id old) (ab_candidates db))"

definition update_run :: "asset_run \<Rightarrow> (asset_run \<Rightarrow> asset_run) \<Rightarrow> asset_db \<Rightarrow> fault + asset_db" where
  "update_run r f db =
     (if input_frozen db r (f r) then Inl OtherFault
      else Inr (db\<lparr>ab_runs := update_where (\<lambda>x. rn_id x = rn_id r) f (ab_runs db)\<rparr>))"

datatype run_progress = RunStarted | RunComplete

fun run_state_text :: "run_state \<Rightarrow> string" where
  "run_state_text RunQueued = ''queued''"
| "run_state_text RunRunning = ''running''"
| "run_state_text RunReviewReady = ''review_ready''"
| "run_state_text RunFailed = ''failed''"
| "run_state_text RunCancelled = ''cancelled''"
| "run_state_text RunPublished = ''published''"

definition advance_run :: "job \<Rightarrow> run_shape \<Rightarrow> asset_db \<Rightarrow> asset_run \<Rightarrow> fault + run_progress \<times> asset_db" where
  "advance_run job shape db r =
     (if \<not> run_identity_matches r job shape
      then conflict ''The crawl job UUID is already bound to a different immutable developer-asset ingestion identity.''
      else if rn_state r = RunReviewReady \<or> rn_state r = RunPublished then
        (if rn_manifest_hash r \<noteq> sh_hash shape \<or> rn_source_hash r \<noteq> sh_hash shape
         then conflict ''An immutable completed ingestion run has a different acquired-source hash.''
         else Inr (RunComplete, db))
      else if rn_state r = RunQueued then
        (if rn_attempt r \<noteq> j_attempt job then conflict ''The queued ingestion run belongs to a different crawl attempt.''
         else bind_result (update_run r (start_run db job shape) db) (\<lambda>db. Inr (RunStarted, db)))
      else if rn_state r \<noteq> RunRunning \<or> rn_attempt r \<noteq> j_attempt job
      then conflict (''The immutable ingestion run is already '' @ run_state_text (rn_state r) @ ''.'')
      else bind_result (update_run r (acquire_run db job shape) db) (\<lambda>db. Inr (RunStarted, db)))"

definition ensure_running_run :: "job \<Rightarrow> run_shape \<Rightarrow> asset_db \<Rightarrow> fault + run_progress \<times> asset_db" where
  "ensure_running_run job shape db =
     bind_result (insert_run job shape db) (\<lambda>db.
     case find (\<lambda>r. rn_id r = j_id job) (ab_runs db) of
       None \<Rightarrow> conflict ''The crawl job UUID is already bound to a different immutable developer-asset ingestion identity.''
     | Some r \<Rightarrow> advance_run job shape db r)"

section \<open>Stages\<close>

definition stage_row_of :: "asset_db \<Rightarrow> job \<Rightarrow> stage \<Rightarrow> stage_row" where
  "stage_row_of db job st =
     (let at = (if st_state st = StageQueued then None else Some (ab_now db)) in
      \<lparr>sw_id = deterministic_ingestion_uuid ''stage'' (j_id job @ '':'' @ stage_text (st_name st) @ '':'' @ int_str (j_attempt job)),
       sw_run = j_id job, sw_attempt = j_attempt job, sw_stage = st, sw_error = ([], []), sw_started = at, sw_finished = at\<rparr>)"

definition same_stage :: "stage_row \<Rightarrow> stage_row \<Rightarrow> bool" where
  "same_stage a b \<longleftrightarrow> sw_run a = sw_run b \<and> st_name (sw_stage a) = st_name (sw_stage b) \<and> sw_attempt a = sw_attempt b"

definition merge_stage :: "stage_row \<Rightarrow> stage_row \<Rightarrow> stage_row" where
  "merge_stage new old =
     old\<lparr>sw_stage := sw_stage new, sw_error := ([], []),
       sw_started := (case sw_started old of None \<Rightarrow> sw_started new | Some t \<Rightarrow> Some t), sw_finished := sw_finished new\<rparr>"

text \<open>\<^verbatim>\<open>ON CONFLICT (ingestion_run_id, stage_name, attempt) DO UPDATE\<close>\<close>

definition upsert_stage :: "stage_row \<Rightarrow> stage_row list \<Rightarrow> fault + stage_row list" where
  "upsert_stage new rows =
     (if list_ex (same_stage new) rows then Inr (update_where (same_stage new) (merge_stage new) rows)
      else insert_unique (\<lambda>a b. sw_id a = sw_id b) new rows)"

fun upsert_stages :: "stage_row list \<Rightarrow> stage_row list \<Rightarrow> fault + stage_row list" where
  "upsert_stages [] rows = Inr rows"
| "upsert_stages (s # ss) rows = bind_result (upsert_stage s rows) (upsert_stages ss)"

definition insert_stages :: "job \<Rightarrow> stage list \<Rightarrow> asset_db \<Rightarrow> fault + asset_db" where
  "insert_stages job sts db =
     bind_result (upsert_stages (map (stage_row_of db job) sts) (ab_stages db)) (\<lambda>rows. Inr (db\<lparr>ab_stages := rows\<rparr>))"

definition finished_run :: "asset_db \<Rightarrow> (string \<times> json) list \<Rightarrow> asset_run \<Rightarrow> asset_run" where
  "finished_run db diagnostics r =
     r\<lparr>rn_state := RunReviewReady, rn_diagnostics := JObj diagnostics, rn_owner := [], rn_expires := None,
       rn_heartbeat := Some (ab_now db), rn_error := ([], []), rn_finished := Some (ab_now db)\<rparr>"

definition mark_review_ready :: "job \<Rightarrow> (string \<times> json) list \<Rightarrow> asset_db \<Rightarrow> fault + asset_db" where
  "mark_review_ready job diagnostics db =
     bind_result (assert_current_crawl_lease db job) (\<lambda>_.
     let held = (\<lambda>r. rn_id r = j_id job \<and> rn_state r = RunRunning \<and> rn_owner r = j_lease_owner job) in
     if length (filter held (ab_runs db)) \<noteq> 1
     then throw ''crawler_lease_lost'' ''The typed ingestion run could not be finalized by the current lease owner.''
     else Inr (db\<lparr>ab_runs := update_where held (finished_run db diagnostics) (ab_runs db)\<rparr>))"

section \<open>The documentation candidate\<close>

definition json_lineage :: "('a lineage_scheme) \<Rightarrow> (string \<times> json) list" where
  "json_lineage l =
     [(''sourceId'', JStr (li_source_id l)), (''canonicalUrl'', JStr (li_url l)), (''contentType'', JStr (li_content_type l)),
      (''sourceKind'', json_text_option (li_source_kind l)), (''snapshotId'', json_text_option (li_snapshot l)),
      (''fetchedAt'', json_text_option (li_fetched_at l)), (''rawSha256'', JStr (prefixed_hash (ln_raw_sha l)))]"

definition page_input :: "job \<Rightarrow> (string \<times> legacy_reference) list \<Rightarrow> page_record \<Rightarrow> normalization_input" where
  "page_input job legacy page =
     \<lparr>ni_content = pg_html page,
      ni_source = \<lparr>li_source_id = j_source job, li_url = pg_url page, li_content_type = pg_content_type page,
        li_source_kind = Some (j_source_kind job), li_snapshot = map_option lg_snapshot (jm_get legacy (pg_url page)),
        li_fetched_at = None\<rparr>,
      ni_title = None, ni_kind = Some DocumentationKind, ni_format = None\<rparr>"

definition document_uuids :: "job \<Rightarrow> documentation_corpus \<Rightarrow> (string \<times> string) list" where
  "document_uuids job c =
     jm_of_list (map (\<lambda>d. (doc_id d, deterministic_ingestion_uuid ''documentation-document'' (j_id job @ '':'' @ doc_id d))) (co_documents c))"

definition section_uuids :: "job \<Rightarrow> documentation_corpus \<Rightarrow> (string \<times> string) list" where
  "section_uuids job c =
     jm_of_list (map (\<lambda>s. (se_id s, deterministic_ingestion_uuid ''documentation-section'' (j_id job @ '':'' @ se_id s))) (co_sections c))"

definition run_counts :: "ingestion_result \<Rightarrow> manifest_entry list \<Rightarrow> json" where
  "run_counts result manifest = JObj
     [(''discovered'', JNum (ir_discovered result)), (''acquired'', json_nat (length (ir_pages result))),
      (''failed'', JNum (ir_failed result)), (''skipped'', JNum (ir_skipped result)),
      (''redirected'', JNum (ir_redirected result)), (''quarantined'', json_nat (quarantined manifest))]"

definition json_acquisition :: "ingestion_diagnostic list \<Rightarrow> json" where
  "json_acquisition gs = JArr (map (\<lambda>g. JObj
     [(''code'', JStr (ingestion_diagnostic.dg_code g)), (''severity'', JStr (severity_text (ingestion_diagnostic.dg_severity g))),
      (''message'', JStr (ingestion_diagnostic.dg_message g)), (''url'', json_text_option (dg_url g)),
      (''redirectedTo'', json_text_option (dg_redirected g))]) gs)"

definition candidate_diagnostics ::
    "ingestion_result \<Rightarrow> manifest_entry list \<Rightarrow> json \<Rightarrow> processor_versions \<Rightarrow> (string \<times> json) list \<Rightarrow> (string \<times> json) list" where
  "candidate_diagnostics result manifest quality versions identity =
     [(''partial'', JBool (0 < ir_failed result \<or> 0 < ir_skipped result)), (''counts'', run_counts result manifest),
      (''acquisition'', json_acquisition (ir_diagnostics result)), (''quality'', quality),
      (''processor_versions'', json_versions versions)] @ identity"

text \<open>What a documentation run works on: the manifest, the corpus and what is derived from them.\<close>

record documentation_work =
  dw_manifest :: "manifest_entry list"
  dw_corpus :: documentation_corpus
  dw_documents :: "(string \<times> string) list"
  dw_sections :: "(string \<times> string) list"
  dw_markdown :: string
  dw_map :: persisted_map_body
  dw_map_hash :: string
  dw_diagnostics :: "(string \<times> json) list"
  dw_shape :: run_shape

definition work_of ::
    "string \<Rightarrow> job \<Rightarrow> ingestion_result \<Rightarrow> (string \<times> legacy_reference) list \<Rightarrow> documentation_corpus \<Rightarrow> documentation_work" where
  "work_of dash job result legacy c =
     (let manifest = raw_manifest result legacy; ds = document_uuids job c; ss = section_uuids job c;
          ids = Some \<lparr>pi_documents = ds, pi_sections = ss\<rparr>;
          markdown = documentation_agent_markdown dash (co_documents c) (co_sections c) ids;
          body = persisted_documentation_map_body (co_map c) (co_diagnostics c) ids;
          diagnostics = candidate_diagnostics result manifest (json_quality (co_diagnostics c)) documentation_processor_versions
            [(''map_logical_id'', JStr (dm_id (co_map c)))]
      in \<lparr>dw_manifest = manifest, dw_corpus = c, dw_documents = ds, dw_sections = ss, dw_markdown = markdown, dw_map = body,
          dw_map_hash = hash_json (JObj [(''structuredMap'', json_map_body body), (''agentMarkdown'', JStr markdown)]),
          dw_diagnostics = diagnostics,
          dw_shape = \<lparr>sh_kind = DocumentationAsset, sh_target = j_source job, sh_key = ''source:'' @ j_source job,
            sh_versions = documentation_processor_versions, sh_manifest = manifest, sh_hash = hash_json (json_manifest manifest),
            sh_diagnostics = diagnostics\<rparr>\<rparr>)"

definition documentation_output_exists :: "asset_db \<Rightarrow> job \<Rightarrow> nat \<Rightarrow> nat \<Rightarrow> bool" where
  "documentation_output_exists db job documents sections \<longleftrightarrow>
     length (filter (\<lambda>d. dd_run d = j_id job) (ab_documents db)) = documents
     \<and> length (concat (map (\<lambda>s. filter (\<lambda>d. dd_id d = dx_document s \<and> dd_run d = j_id job) (ab_documents db)) (ab_sections db))) = sections
     \<and> length (filter (\<lambda>m. dz_run m = j_id job \<and> dz_version m = documentation_map_version) (ab_maps db)) = 1"

definition or_undefined :: "string option \<Rightarrow> string" where
  "or_undefined v = nullish v ''undefined''"

definition document_row_of ::
    "job \<Rightarrow> ingestion_result \<Rightarrow> (string \<times> legacy_reference) list \<Rightarrow> documentation_work \<Rightarrow> nat \<Rightarrow> document \<Rightarrow> asset_document" where
  "document_row_of job result legacy w ordinal d =
     (let uuid = jm_get (dw_documents w) (doc_id d); u = li_url (doc_source d);
          page = jm_get (jm_of_list (map (\<lambda>p. (pg_url p, p)) (ir_pages result))) u;
          markdown = join [newline, newline] (map render_block (doc_blocks d))
      in \<lparr>dd_id = or_undefined uuid, dd_deployment = j_product job, dd_run = j_id job,
          dd_legacy = map_option lg_document (jm_get legacy u), dd_path = u, dd_url = u, dd_title = doc_title d,
          dd_kind = documentation_kind d,
          dd_media = (case page of Some p \<Rightarrow> pg_content_type p | None \<Rightarrow> li_content_type (doc_source d)),
          dd_markdown = markdown, dd_hash = prefixed_hash (sha256 markdown), dd_visibility = j_visibility job, dd_ordinal = ordinal,
          dd_metadata = JObj [(''logical_id'', JStr (doc_id d)), (''logical_evidence_id'', JStr (''document:'' @ doc_id d)),
            (''evidence_id'', JStr (''document:'' @ or_undefined uuid)),
            (''schema_version'', JStr normalized_document_version), (''format'', JStr (format_text (doc_format d))),
            (''source_lineage'', JObj (json_lineage (doc_source d) @ [(''normalizedSha256'', JStr (prefixed_hash (doc_sha d)))])),
            (''block_logical_ids'', json_strings (map nb_id (doc_blocks d))),
            (''diagnostic_codes'', json_strings (map (\<lambda>g. code_text (diagnostic.dg_code g))
               (filter (\<lambda>g. dg_document g = Some (doc_id d)) (co_diagnostics (dw_corpus w)))))]\<rparr>)"

definition path_key :: "heading_path_item list \<Rightarrow> string" where
  "path_key path = canonical_json (JArr (map (\<lambda>i. JObj [(''level'', json_nat (hp_level i)), (''anchor'', JStr (hp_anchor i))]) path))"

definition section_key_of :: "document \<Rightarrow> heading_path_item list \<Rightarrow> string" where
  "section_key_of d path = doc_id d @ [nul] @ path_key path"

definition code_languages :: "normalized_block list \<Rightarrow> string list" where
  "code_languages blocks = dedup (concat (map (\<lambda>b. case nb_body b of
     Code (Some l) _ \<Rightarrow> if l = [] then [] else [l] | _ \<Rightarrow> []) blocks))"

definition section_row_of ::
    "job \<Rightarrow> documentation_work \<Rightarrow> document \<Rightarrow> (string \<times> string) list \<Rightarrow> doc_section \<Rightarrow> string \<Rightarrow> asset_section" where
  "section_row_of job w d first s uuid =
     (let blocks = referenced_blocks d s; languages = code_languages blocks in
      \<lparr>dx_id = uuid, dx_deployment = j_product job, dx_document = or_undefined (jm_get (dw_documents w) (doc_id d)),
       dx_parent = (if 1 < length (se_path s) then jm_get first (section_key_of d (butlast (se_path s))) else None),
       dx_ordinal = se_ordinal s, dx_level = (if se_path s = [] then 0 else hp_level (last (se_path s))),
       dx_heading = se_title s, dx_anchor = se_anchor s, dx_breadcrumb = map hp_text (se_path s),
       dx_kind = section_content_kind blocks (se_title s), dx_text = se_content s,
       dx_language = (case languages of [l] \<Rightarrow> l | _ \<Rightarrow> []), dx_tokens = se_tokens s,
       dx_range = section_source_range blocks, dx_hash = prefixed_hash (se_sha s),
       dx_metadata = JObj [(''logical_id'', JStr (se_id s)), (''logical_evidence_id'', JStr (''section:'' @ se_id s)),
         (''evidence_id'', JStr (''section:'' @ uuid)), (''document_logical_id'', JStr (se_document s)),
         (''heading_path'', json_path (se_path s)),
         (''block_slices'', JArr (map (\<lambda>sl. JObj [(''blockId'', JStr (sl_block sl)), (''start'', json_nat (sl_start sl)),
            (''end'', json_nat (sl_end sl))]) (se_slices s))),
         (''source_lineage'', JObj (json_lineage (se_source s)
            @ [(''documentNormalizedSha256'', JStr (prefixed_hash (ss_document_sha (se_source s))))]))]\<rparr>)"

text \<open>The rows so far and the first section of each heading path.\<close>

type_synonym section_rows = "asset_section list \<times> (string \<times> string) list"

definition add_section_row ::
    "job \<Rightarrow> documentation_work \<Rightarrow> document \<Rightarrow> doc_section \<Rightarrow> section_rows \<Rightarrow> fault + section_rows" where
  "add_section_row job w d s acc =
     (case acc of (rows, first) \<Rightarrow>
        (case get_text (dw_sections w) (se_id s) of
           None \<Rightarrow> throw ''developer_asset_run_incomplete'' (''Missing persisted identity for section '' @ se_id s @ ''.'')
         | Some uuid \<Rightarrow>
             bind_result (insert_unique (\<lambda>a b. dx_id a = dx_id b \<or> dx_document a = dx_document b \<and> dx_ordinal a = dx_ordinal b)
               (section_row_of job w d first s uuid) rows) (\<lambda>rows.
             Inr (rows, if jm_get first (section_key_of d (se_path s)) = None
                        then jm_set (section_key_of d (se_path s)) uuid first else first))))"

fun add_section_rows ::
    "job \<Rightarrow> documentation_work \<Rightarrow> (document \<times> doc_section) list \<Rightarrow> section_rows \<Rightarrow> fault + section_rows" where
  "add_section_rows job w [] acc = Inr acc"
| "add_section_rows job w ((d, s) # ss) acc = bind_result (add_section_row job w d s acc) (add_section_rows job w ss)"

definition owned_sections :: "documentation_corpus \<Rightarrow> (document \<times> doc_section) list" where
  "owned_sections c = concat (map (\<lambda>d. map (Pair d) (filter (\<lambda>s. se_document s = doc_id d) (co_sections c))) (co_documents c))"

definition map_row_of :: "job \<Rightarrow> documentation_work \<Rightarrow> asset_map" where
  "map_row_of job w =
     \<lparr>dz_id = deterministic_ingestion_uuid ''documentation-map'' (j_id job @ '':'' @ dm_id (co_map (dw_corpus w))),
      dz_deployment = j_product job, dz_run = j_id job, dz_version = documentation_map_version, dz_map = dw_map w,
      dz_markdown = dw_markdown w, dz_hash = dw_map_hash w, dz_visibility = j_visibility job\<rparr>"

datatype persistence_state = Persisted | AlreadyPersisted | PendingContractTarget | UnchangedContract

record persistence_result =
  px_state :: persistence_state
  px_diagnostics :: "ingestion_diagnostic list"

definition clash_document :: "asset_document \<Rightarrow> asset_document \<Rightarrow> bool" where
  "clash_document a b \<longleftrightarrow> dd_id a = dd_id b \<or> dd_run a = dd_run b \<and> (dd_path a = dd_path b \<or> dd_ordinal a = dd_ordinal b)"

definition clash_map :: "asset_map \<Rightarrow> asset_map \<Rightarrow> bool" where
  "clash_map a b \<longleftrightarrow> dz_id a = dz_id b \<or> dz_run a = dz_run b \<and> dz_version a = dz_version b"

definition write_documentation ::
    "job \<Rightarrow> ingestion_result \<Rightarrow> (string \<times> legacy_reference) list \<Rightarrow> documentation_work \<Rightarrow> asset_db \<Rightarrow> fault + persistence_result \<times> asset_db" where
  "write_documentation job result legacy w db =
     (let c = dw_corpus w in
      bind_result (insert_all clash_document (map (\<lambda>(i, d). document_row_of job result legacy w i d) (enumerate 0 (co_documents c)))
        (ab_documents db)) (\<lambda>documents.
      bind_result (add_section_rows job w (owned_sections c) (ab_sections db, [])) (\<lambda>(sections, _).
      bind_result (insert_unique clash_map (map_row_of job w) (ab_maps db)) (\<lambda>maps.
      bind_result (insert_stages job (documentation_stages job (sh_hash (dw_shape w)) c (dw_map_hash w))
        (db\<lparr>ab_documents := documents, ab_sections := sections, ab_maps := maps\<rparr>)) (\<lambda>db.
      bind_result (mark_review_ready job (dw_diagnostics w) db) (\<lambda>db.
      Inr (\<lparr>px_state = Persisted, px_diagnostics = []\<rparr>, db)))))))"

definition default_segmentation :: segmentation_options where
  "default_segmentation = \<lparr>so_target = None, so_oversized = None\<rparr>"

definition persist_documentation ::
    "url_parser \<Rightarrow> parsers \<Rightarrow> string \<Rightarrow> job \<Rightarrow> ingestion_result \<Rightarrow> (string \<times> legacy_reference) list \<Rightarrow> asset_db
      \<Rightarrow> fault + persistence_result \<times> asset_db" where
  "persist_documentation parse ps dash job result legacy db =
     (case build_documentation_corpus parse ps (map (page_input job legacy) (ir_pages result)) default_segmentation of
        Inl _ \<Rightarrow> Inl OtherFault
      | Inr c \<Rightarrow>
          let w = work_of dash job result legacy c in
          bind_result (ensure_running_run job (dw_shape w) db) (\<lambda>(progress, db).
          case progress of
            RunComplete \<Rightarrow>
              if documentation_output_exists db job (length (co_documents c)) (length (co_sections c))
              then Inr (\<lparr>px_state = AlreadyPersisted, px_diagnostics = []\<rparr>, db)
              else throw ''developer_asset_run_incomplete''
                ''The immutable review-ready documentation run is missing one or more typed outputs.''
          | RunStarted \<Rightarrow> write_documentation job result legacy w db))"

section \<open>The contract candidate\<close>

definition openapi_format_of :: "page_record \<Rightarrow> openapi_format" where
  "openapi_format_of page = (if starts_with (dropWhile is_ws (pg_html page)) ''{'' then JsonFormat else YamlFormat)"

definition contract_targets :: "asset_db \<Rightarrow> job \<Rightarrow> contract_row list" where
  "contract_targets db job =
     concat (map (\<lambda>b. if kb_deployment b = j_product job \<and> kb_source b = j_source job \<and> kb_attached b
       then filter (\<lambda>k. ka_id k = kb_contract b \<and> ka_deployment k = kb_deployment b \<and> ka_active k) (ab_contracts db)
       else []) (ab_bindings db))"

definition resolve_contract_target :: "asset_db \<Rightarrow> job \<Rightarrow> fault + (string \<times> visibility) option" where
  "resolve_contract_target db job =
     (case contract_targets db job of
        [] \<Rightarrow> Inr None
      | [k] \<Rightarrow> Inr (Some (ka_id k, ka_visibility k))
      | _ \<Rightarrow> throw ''contract_catalog_binding_ambiguous'' ''The OpenAPI source is bound to more than one active API contract.'')"

definition contract_note :: "string \<Rightarrow> severity \<Rightarrow> string \<Rightarrow> string option \<Rightarrow> ingestion_diagnostic" where
  "contract_note code sev message u = ingestion_diagnostic.make code sev message u None"

definition target_pending :: "ingestion_result \<Rightarrow> persistence_result" where
  "target_pending result =
     \<lparr>px_state = PendingContractTarget, px_diagnostics = [contract_note ''contract_catalog_target_pending'' Warning
       ''The OpenAPI source was acquired and kept in legacy review storage, but it must be bound to an API contract before a typed contract candidate can be created.''
       (case ir_pages result of [] \<Rightarrow> None | p # _ \<Rightarrow> Some (pg_url p))]\<rparr>"

definition contract_unchanged :: "page_record \<Rightarrow> persistence_result" where
  "contract_unchanged page =
     \<lparr>px_state = UnchangedContract, px_diagnostics = [contract_note ''contract_candidate_unchanged'' Info
       ''The normalized OpenAPI contract is unchanged from an existing immutable candidate.'' (Some (pg_url page))]\<rparr>"

definition contract_shape ::
    "ingestion_result \<Rightarrow> (string \<times> legacy_reference) list \<Rightarrow> string \<Rightarrow> openapi_candidate \<Rightarrow> run_shape" where
  "contract_shape result legacy target c =
     (let manifest = raw_manifest result legacy in
      \<lparr>sh_kind = ContractAsset, sh_target = target, sh_key = ''contract:'' @ target, sh_versions = openapi_processor_versions,
       sh_manifest = manifest, sh_hash = hash_json (json_manifest manifest),
       sh_diagnostics = candidate_diagnostics result manifest (JArr (map JObj (oc_diagnostics c))) openapi_processor_versions
         [(''contract_target_id'', JStr target), (''candidate_logical_id'', JStr (oc_logical c))]\<rparr>)"

definition candidate_uuid :: "string \<Rightarrow> openapi_candidate \<Rightarrow> string" where
  "candidate_uuid target c = deterministic_ingestion_uuid ''api-contract-candidate'' (target @ '':'' @ oc_logical c)"

definition candidate_row_of ::
    "job \<Rightarrow> string \<times> visibility \<Rightarrow> page_record \<Rightarrow> openapi_candidate \<Rightarrow> candidate_row" where
  "candidate_row_of job target page c =
     \<lparr>kc_id = candidate_uuid (fst target) c, kc_deployment = j_product job, kc_contract = fst target, kc_run = j_id job,
      kc_version = oc_version c, kc_format = oc_format c, kc_normalized = oc_contract c,
      kc_source_hash = prefixed_hash (oc_source_hash c), kc_hash = prefixed_hash (oc_hash c),
      kc_validation = JObj [(''valid'', JBool (\<not> list_ex (\<lambda>g. member g ''severity'' = JStr ''error'') (oc_diagnostics c))),
        (''validator'', JStr ''crawler-static-openapi-parser/1''), (''diagnostics'', JArr (map JObj (oc_diagnostics c)))],
      kc_parser = pv_parser openapi_processor_versions,
      kc_visibility = (if j_visibility job = Public \<and> snd target = Public then Public else Private),
      kc_diagnostics = JObj [(''logical_id'', JStr (oc_logical c)), (''source_url'', JStr (pg_url page)),
        (''items'', JArr (map JObj (oc_diagnostics c)))]\<rparr>"

definition operation_uuid :: "string \<Rightarrow> contract_operation \<Rightarrow> string" where
  "operation_uuid target op = deterministic_ingestion_uuid ''api-contract-operation'' (target @ '':'' @ op_logical op)"

definition operation_row_of :: "job \<Rightarrow> string \<Rightarrow> openapi_candidate \<Rightarrow> contract_operation \<Rightarrow> operation_row" where
  "operation_row_of job target c op =
     \<lparr>ko_id = operation_uuid target op, ko_deployment = j_product job, ko_candidate = candidate_uuid target c,
      ko_operation = op, ko_hash = prefixed_hash (op_hash op)\<rparr>"

definition clash_candidate :: "candidate_row \<Rightarrow> candidate_row \<Rightarrow> bool" where
  "clash_candidate a b \<longleftrightarrow> kc_id a = kc_id b \<or> kc_contract a = kc_contract b \<and> (kc_run a = kc_run b \<or> kc_hash a = kc_hash b)"

definition clash_operation :: "operation_row \<Rightarrow> operation_row \<Rightarrow> bool" where
  "clash_operation a b \<longleftrightarrow> ko_id a = ko_id b \<or> ko_candidate a = ko_candidate b
     \<and> (op_key (ko_operation a) = op_key (ko_operation b)
       \<or> op_method (ko_operation a) = op_method (ko_operation b) \<and> op_path (ko_operation a) = op_path (ko_operation b)
       \<or> op_ordinal (ko_operation a) = op_ordinal (ko_operation b)
       \<or> op_id (ko_operation a) \<noteq> [] \<and> op_id (ko_operation a) = op_id (ko_operation b))"

definition schema_row_of :: "job \<Rightarrow> string \<Rightarrow> openapi_candidate \<Rightarrow> contract_schema \<Rightarrow> schema_row" where
  "schema_row_of job target c sc =
     \<lparr>ks_id = deterministic_ingestion_uuid ''api-contract-schema'' (target @ '':'' @ sc_logical sc), ks_deployment = j_product job,
      ks_candidate = candidate_uuid target c, ks_key = sc_key sc, ks_document = sc_document sc, ks_hash = prefixed_hash (sc_hash sc)\<rparr>"

definition clash_schema :: "schema_row \<Rightarrow> schema_row \<Rightarrow> bool" where
  "clash_schema a b \<longleftrightarrow> ks_id a = ks_id b \<or> ks_candidate a = ks_candidate b \<and> ks_key a = ks_key b"

definition operation_uuids :: "string \<Rightarrow> openapi_candidate \<Rightarrow> (string \<times> string) list" where
  "operation_uuids target c = jm_of_list (map (\<lambda>op. (op_logical op, operation_uuid target op)) (oc_operations c))"

definition example_row_of :: "job \<Rightarrow> string \<Rightarrow> openapi_candidate \<Rightarrow> contract_example \<Rightarrow> example_row" where
  "example_row_of job target c ex =
     \<lparr>ke_id = deterministic_ingestion_uuid ''api-contract-example'' (target @ '':'' @ ex_logical ex), ke_deployment = j_product job,
      ke_candidate = candidate_uuid target c,
      ke_operation = (case ex_operation ex of
          Some l \<Rightarrow> if l = [] then None else jm_get (operation_uuids target c) l
        | None \<Rightarrow> None),
      ke_name = ex_name ex, ke_kind = ex_kind ex, ke_media = ex_media ex, ke_status = ex_status ex, ke_value = ex_value ex,
      ke_hash = prefixed_hash (ex_hash ex)\<rparr>"

definition clash_example :: "example_row \<Rightarrow> example_row \<Rightarrow> bool" where
  "clash_example a b \<longleftrightarrow> ke_id a = ke_id b
     \<or> ke_candidate a = ke_candidate b \<and> ke_name a = ke_name b \<and> ke_kind a = ke_kind b \<and> ke_status a = ke_status b"

definition contract_map_row_of :: "job \<Rightarrow> string \<Rightarrow> openapi_candidate \<Rightarrow> contract_map_row" where
  "contract_map_row_of job target c =
     \<lparr>km_id = deterministic_ingestion_uuid ''api-contract-map'' (target @ '':'' @ oc_logical c @ '':'' @ api_contract_map_version),
      km_deployment = j_product job, km_candidate = candidate_uuid target c, km_version = api_contract_map_version,
      km_map = oc_map c, km_markdown = oc_markdown c, km_hash = prefixed_hash (oc_map_hash c)\<rparr>"

definition clash_contract_map :: "contract_map_row \<Rightarrow> contract_map_row \<Rightarrow> bool" where
  "clash_contract_map a b \<longleftrightarrow> km_id a = km_id b \<or> km_candidate a = km_candidate b \<and> km_version a = km_version b"

definition write_contract ::
    "job \<Rightarrow> string \<times> visibility \<Rightarrow> page_record \<Rightarrow> run_shape \<Rightarrow> openapi_candidate \<Rightarrow> asset_db \<Rightarrow> fault + persistence_result \<times> asset_db" where
  "write_contract job target page shape c db =
     (let t = fst target in
      bind_result (insert_unique clash_candidate (candidate_row_of job target page c) (ab_candidates db)) (\<lambda>candidates.
      bind_result (insert_all clash_operation (map (operation_row_of job t c) (oc_operations c)) (ab_operations db)) (\<lambda>operations.
      bind_result (insert_all clash_schema (map (schema_row_of job t c) (oc_schemas c)) (ab_schemas db)) (\<lambda>schemas.
      bind_result (insert_all clash_example (map (example_row_of job t c) (oc_examples c)) (ab_examples db)) (\<lambda>examples.
      bind_result (insert_unique clash_contract_map (contract_map_row_of job t c) (ab_contract_maps db)) (\<lambda>maps.
      bind_result (insert_stages job (contract_stages job (sh_hash shape) c)
        (db\<lparr>ab_candidates := candidates, ab_operations := operations, ab_schemas := schemas, ab_examples := examples,
           ab_contract_maps := maps\<rparr>)) (\<lambda>db.
      bind_result (mark_review_ready job (sh_diagnostics shape) db) (\<lambda>db.
      Inr (\<lparr>px_state = Persisted, px_diagnostics = []\<rparr>, db)))))))))"

definition persist_contract ::
    "job \<Rightarrow> ingestion_result \<Rightarrow> (string \<times> legacy_reference) list \<Rightarrow> string \<times> visibility \<Rightarrow> page_record \<Rightarrow> openapi_candidate \<Rightarrow> asset_db
      \<Rightarrow> fault + persistence_result \<times> asset_db" where
  "persist_contract job result legacy target page c db =
     (if list_ex (\<lambda>k. kc_contract k = fst target \<and> kc_hash k = prefixed_hash (oc_hash c)) (ab_candidates db)
      then Inr (contract_unchanged page, db)
      else
        let shape = contract_shape result legacy (fst target) c in
        bind_result (ensure_running_run job shape db) (\<lambda>(progress, db).
        case progress of
          RunComplete \<Rightarrow>
            if length (filter (\<lambda>k. kc_run k = j_id job \<and> kc_contract k = fst target) (ab_candidates db)) = 1
            then Inr (\<lparr>px_state = AlreadyPersisted, px_diagnostics = []\<rparr>, db)
            else throw ''developer_asset_run_incomplete'' ''The immutable review-ready contract run is missing its typed candidate.''
        | RunStarted \<Rightarrow> write_contract job target page shape c db))"

definition persist_openapi ::
    "(string \<Rightarrow> openapi_format \<Rightarrow> js_error + json) \<Rightarrow> string \<Rightarrow> job \<Rightarrow> ingestion_result \<Rightarrow> (string \<times> legacy_reference) list
      \<Rightarrow> (string \<times> visibility) option \<Rightarrow> asset_db \<Rightarrow> fault + persistence_result \<times> asset_db" where
  "persist_openapi decode dash job result legacy target db =
     (case target of
        None \<Rightarrow> Inr (target_pending result, db)
      | Some t \<Rightarrow>
          (case ir_pages result of
             [] \<Rightarrow> throw ''openapi_document_invalid'' ''The OpenAPI run has no acquired document.''
           | page # _ \<Rightarrow>
               (case build_openapi_candidate decode dash (pg_html page) (openapi_format_of page) of
                  Inl _ \<Rightarrow> throw ''openapi_document_invalid'' ''The OpenAPI document could not be normalized into a typed candidate.''
                | Inr c \<Rightarrow> persist_contract job result legacy t page c db)))"

section \<open>The transaction\<close>

definition persist_body ::
    "url_parser \<Rightarrow> parsers \<Rightarrow> (string \<Rightarrow> openapi_format \<Rightarrow> js_error + json) \<Rightarrow> string \<Rightarrow> job \<Rightarrow> ingestion_result
      \<Rightarrow> (string \<times> legacy_reference) list \<Rightarrow> asset_db \<Rightarrow> fault + persistence_result \<times> asset_db" where
  "persist_body parse ps decode dash job result legacy db =
     bind_result (lock_current_crawl_lease db job) (\<lambda>_.
     bind_result
       (if j_source_kind job = ''openapi'' then
          bind_result (resolve_contract_target db job) (\<lambda>t. persist_openapi decode dash job result legacy t db)
        else if j_source_kind job = ''upload'' then
          bind_result (resolve_contract_target db job) (\<lambda>t.
            if t \<noteq> None then persist_openapi decode dash job result legacy t db
            else persist_documentation parse ps dash job result legacy db)
        else persist_documentation parse ps dash job result legacy db) (\<lambda>(persisted, db).
     bind_result (assert_current_crawl_lease db job) (\<lambda>_. Inr (persisted, db))))"

definition persist_developer_asset_candidates ::
    "url_parser \<Rightarrow> parsers \<Rightarrow> (string \<Rightarrow> openapi_format \<Rightarrow> js_error + json) \<Rightarrow> string \<Rightarrow> job \<Rightarrow> ingestion_result
      \<Rightarrow> (string \<times> legacy_reference) list \<Rightarrow> asset_db \<Rightarrow> (fault + persistence_result) \<times> asset_db" where
  "persist_developer_asset_candidates parse ps decode dash job result legacy db =
     (if j_source_kind job \<notin> set [''website'', ''upload'', ''openapi'']
      then (Inr \<lparr>px_state = PendingContractTarget, px_diagnostics = []\<rparr>, db)
      else (case persist_body parse ps decode dash job result legacy db of
          Inl e \<Rightarrow> (Inl e, db)
        | Inr (r, db') \<Rightarrow> (Inr r, db')))"

end
