(* ===== verification/PersistIds.thy ===== *)
theory PersistIds
  imports Persist
begin

text \<open>
  The identities of the persisted documentation map: every document, heading and entry point of the map is
  named by the UUID of the row that stands for it.
\<close>

section \<open>The shape of logical identifiers\<close>

definition shaped :: "string \<Rightarrow> string \<Rightarrow> bool" where
  "shaped p i \<longleftrightarrow> (\<exists>h. i = p @ h \<and> length h = 24 \<and> set h \<subseteq> hex_digits)"

lemma shaped_sha: "shaped p (p @ take 24 (sha256 x))"
  using sha.short_id_hex [of 24 x] sha.H_length [of x] by (simp add: shaped_def)

lemma document_shaped: "shaped ''document_'' (doc_id (normalize_document parse ps input))"
  using shaped_sha [of "''document_''"] by (simp add: normalize_document_def Let_def)

lemma section_shaped:
  assumes "segment_document d options = Inr r" "s \<in> set (sg_sections r)"
  shows "shaped ''section_'' (se_id s)"
proof -
  obtain target where "sg_sections r = document_sections d target"
    using assms(1) by (rule segment_document_Inr)
  then show ?thesis
    using assms(2) shaped_sha [of "''section_''"] by (auto elim!: document_sections_mem simp: make_section_def Let_def)
qed

lemma corpus_shaped:
  assumes "build_documentation_corpus parse ps inputs options = Inr c"
  shows "d \<in> set (co_documents c) \<Longrightarrow> shaped ''document_'' (doc_id d)"
    and "s \<in> set (co_sections c) \<Longrightarrow> shaped ''section_'' (se_id s)"
proof -
  obtain rs where rs: "map_result (\<lambda>d. segment_document d options) (corpus_documents parse ps inputs) = Inr rs"
    using assms corpus_refused by (cases "map_result (\<lambda>d. segment_document d options) (corpus_documents parse ps inputs)") fastforce+
  then obtain e where c: "c = corpus_of (corpus_documents parse ps inputs) rs e"
    using corpus_segmented assms by fastforce
  show "d \<in> set (co_documents c) \<Longrightarrow> shaped ''document_'' (doc_id d)"
    by (auto simp: c corpus_of_def document_shaped Let_def)
  show "s \<in> set (co_sections c) \<Longrightarrow> shaped ''section_'' (se_id s)"
    using map_result_Inr_set [OF rs] section_shaped by (fastforce simp: c corpus_of_def Let_def)
qed

lemma hash_not_hex: "CHR ''#'' \<notin> hex_digits"
  unfolding hex_digits_def by code_simp

lemma shaped_document:
  assumes "shaped ''document_'' i"
  shows "length i = 33" "\<not> starts_with (i @ t) ''document:''" "\<not> starts_with (i @ t) ''section:''" "CHR ''#'' \<notin> set i"
  using assms hash_not_hex by (auto simp: shaped_def starts_with_def)

lemma shaped_section:
  assumes "shaped ''section_'' i"
  shows "length i = 32" "\<not> starts_with i ''document:''" "\<not> starts_with i ''section:''"
  using assms by (auto simp: shaped_def starts_with_def)

lemma index_of_char: "c \<notin> set i \<Longrightarrow> index_of (i @ c # t) [c] = int (length i)"
proof -
  assume c: "c \<notin> set i"
  have hit: "starts_with (drop k xs) [c] \<longleftrightarrow> k < length xs \<and> xs ! k = c" for k xs
    by (cases "k < length xs") (simp_all add: starts_with_def Cons_nth_drop_Suc [symmetric])
  have "[0..<length i + Suc (Suc (length t))] = [0..<length i] @ [length i..<length i + Suc (Suc (length t))]"
    by (rule upt_add_eq_append) simp
  then have "[0..<length (i @ c # t) + 1] = [0..<length i] @ length i # [Suc (length i)..<length (i @ c # t) + 1]"
    by (simp add: upt_conv_Cons del: upt_Suc)
  moreover have "filter (\<lambda>k. starts_with (drop k (i @ c # t)) [c]) [0..<length i] = []"
    using c by (simp add: filter_empty_conv hit nth_append in_set_conv_nth del: drop_append)
  moreover have "starts_with (drop (length i) (i @ c # t)) [c]" by (simp add: starts_with_def)
  ultimately show ?thesis by (simp add: index_of_def occurrences_def del: drop_append)
qed

section \<open>Lookups\<close>

definition document_uuid :: "job \<Rightarrow> string \<Rightarrow> string" where
  "document_uuid job i = deterministic_ingestion_uuid ''documentation-document'' (j_id job @ '':'' @ i)"

definition section_uuid :: "job \<Rightarrow> string \<Rightarrow> string" where
  "section_uuid job i = deterministic_ingestion_uuid ''documentation-section'' (j_id job @ '':'' @ i)"

lemma jm_of_function: "jm_get (jm_of_list (map (\<lambda>x. (k x, f (k x))) xs)) i = (if i \<in> k ` set xs then Some (f i) else None)"
proof -
  have "map_of (map (\<lambda>x. (k x, f (k x))) ys) i = (if i \<in> k ` set ys then Some (f i) else None)" for ys
    by (induction ys) auto
  from this [of "rev xs"] show ?thesis by (simp add: jm_of_list_get rev_map)
qed

definition work_ids :: "job \<Rightarrow> documentation_corpus \<Rightarrow> persistence_ids" where
  "work_ids job c = \<lparr>pi_documents = document_uuids job c, pi_sections = section_uuids job c\<rparr>"

lemma document_lookup: "jm_get (document_uuids job c) i = (if i \<in> doc_id ` set (co_documents c) then Some (document_uuid job i) else None)"
  unfolding document_uuids_def document_uuid_def by (rule jm_of_function)

lemma section_lookup: "jm_get (section_uuids job c) i = (if i \<in> se_id ` set (co_sections c) then Some (section_uuid job i) else None)"
  unfolding section_uuids_def section_uuid_def by (rule jm_of_function)

text \<open>The logical identifiers of a corpus, and what they are persisted as.\<close>

lemma persisted_document:
  assumes "build_documentation_corpus parse ps inputs options = Inr c" "d \<in> set (co_documents c)"
  shows "persisted_evidence_id (doc_id d) (Some (work_ids job c)) = document_uuid job (doc_id d)"
  using shaped_document(2,3) [OF corpus_shaped(1) [OF assms], of "[]"] assms(2)
  by (simp add: persisted_evidence_id_def direct_id_def work_ids_def document_lookup document_uuid_def)

lemma persisted_document_id:
  assumes "build_documentation_corpus parse ps inputs options = Inr c" "v \<in> doc_id ` set (co_documents c)"
  shows "persisted_evidence_id v (Some (work_ids job c)) = document_uuid job v"
  using assms(2) persisted_document [OF assms(1)] by auto

lemma persisted_section:
  assumes c: "build_documentation_corpus parse ps inputs options = Inr c" and s: "s \<in> set (co_sections c)"
  shows "persisted_evidence_id (se_id s) (Some (work_ids job c)) = section_uuid job (se_id s)"
proof -
  note shape = shaped_section [OF corpus_shaped(2) [OF c s]]
  have "se_id s \<notin> doc_id ` set (co_documents c)"
    using shaped_document(1) [OF corpus_shaped(1) [OF c]] shape(1) by fastforce
  then show ?thesis
    using shape(2,3) s
    by (simp add: persisted_evidence_id_def direct_id_def work_ids_def document_lookup section_lookup section_uuid_def)
qed

lemma persisted_anchor:
  assumes c: "build_documentation_corpus parse ps inputs options = Inr c" and d: "d \<in> set (co_documents c)"
  shows "persisted_evidence_id (doc_id d @ ''#'' @ a) (Some (work_ids job c)) = document_uuid job (doc_id d) @ ''#'' @ a"
proof -
  define v where "v = doc_id d @ ''#'' @ a"
  note shape = shaped_document [OF corpus_shaped(1) [OF c d]]
  have len: "length i \<le> 33" if "i \<in> doc_id ` set (co_documents c) \<or> i \<in> se_id ` set (co_sections c)" for i
    using that shaped_document(1) [OF corpus_shaped(1) [OF c]] shaped_section(1) [OF corpus_shaped(2) [OF c]] by fastforce
  have "33 < length v" using shape(1) by (simp add: v_def)
  then have "v \<notin> doc_id ` set (co_documents c)" "v \<notin> se_id ` set (co_sections c)"
    using len [of v] by (meson leD)+
  then have direct: "direct_id (work_ids job c) v = None"
    by (simp add: direct_id_def work_ids_def document_lookup section_lookup)
  have at: "index_of v ''#'' = 33" "take 33 v = doc_id d" "drop 33 v = ''#'' @ a"
    using index_of_char [OF shape(4), of a] shape(1) by (simp_all add: v_def)
  have "get_text (pi_documents (work_ids job c)) (doc_id d) = Some (document_uuid job (doc_id d))"
    using d by (simp add: get_text_def work_ids_def document_lookup document_uuid_def)
  then have "persisted_evidence_id v (Some (work_ids job c)) = document_uuid job (doc_id d) @ ''#'' @ a"
    using shape(2,3) [of "''#'' @ a", folded v_def] direct at by (simp add: persisted_evidence_id_def v_def [symmetric] Let_def)
  then show ?thesis by (simp only: v_def)
qed

section \<open>The map\<close>

text \<open>The identities and the summaries of an entry and all below it.\<close>

fun entry_lines :: "map_entry \<Rightarrow> (string \<times> string) list" where
  "entry_lines (MapEntry i k t s aliases children) =
     (i, s) # (case children of None \<Rightarrow> [] | Some es \<Rightarrow> concat (map entry_lines es))"

text \<open>What a heading is named by: the first section under its anchor, or else the document and the anchor.\<close>

definition heading_id :: "string \<Rightarrow> string \<times> string \<times> nat \<times> string list \<Rightarrow> string" where
  "heading_id d h = (case h of (t, a, l, sections) \<Rightarrow> (case sections of [] \<Rightarrow> d @ ''#'' @ a | s # _ \<Rightarrow> s))"

definition heading_summary :: "string \<Rightarrow> string \<times> string \<times> nat \<times> string list \<Rightarrow> string" where
  "heading_summary u h = ''Level '' @ nat_str (entry_level h) @ '' documentation heading in '' @ u @ ''.''"

lemma entry_lines_children: "(case when_any es of None \<Rightarrow> [] | Some es \<Rightarrow> concat (map entry_lines es)) = concat (map entry_lines es)"
  by (simp add: when_any_def)

lemma outline_entry_lines:
  "entry_lines (documentation_outline_entry d ids n) =
     map (\<lambda>h. (persisted_evidence_id (heading_id d h) ids, heading_summary (persisted_evidence_id d ids) h)) (preorder n)"
proof (induction n)
  case (OutlineNode t a l ss cs)
  have "concat (map (entry_lines \<circ> documentation_outline_entry d ids) cs) =
      map (\<lambda>h. (persisted_evidence_id (heading_id d h) ids, heading_summary (persisted_evidence_id d ids) h)) (concat (map preorder cs))"
    using OutlineNode by (induction cs) simp_all
  then show ?case by (cases ss) (simp_all add: heading_id_def heading_summary_def entry_lines_children)
qed

lemma document_entry_lines:
  "me_id (document_entry ids m) = persisted_evidence_id (md_document m) ids"
  "tl (entry_lines (document_entry ids m)) =
     map (\<lambda>h. (persisted_evidence_id (heading_id (md_document m) h) ids,
       heading_summary (persisted_evidence_id (md_document m) ids) h)) (concat (map preorder (md_outline m)))"
proof -
  have "concat (map (entry_lines \<circ> documentation_outline_entry d ids) ns) =
      map (\<lambda>h. (persisted_evidence_id (heading_id d h) ids, heading_summary (persisted_evidence_id d ids) h)) (concat (map preorder ns))" for d ns
    by (induction ns) (simp_all add: outline_entry_lines)
  then show "me_id (document_entry ids m) = persisted_evidence_id (md_document m) ids"
    "tl (entry_lines (document_entry ids m)) =
     map (\<lambda>h. (persisted_evidence_id (heading_id (md_document m) h) ids,
       heading_summary (persisted_evidence_id (md_document m) ids) h)) (concat (map preorder (md_outline m)))"
    by (simp_all add: document_entry_def entry_lines_children)
qed

lemma outline_preorder_entries:
  "concat (map preorder (outline d sections)) = heading_entries (DocMap.section_ids d sections) (doc_blocks d)"
  using outline_fold_inv [of "([], [])" "DocMap.section_ids d sections" "doc_blocks d"]
  by (simp add: outline_def outline_inv_def case_prod_beta)

lemma own_section_ids: "DocMap.section_ids d (filter (\<lambda>s. se_document s = doc_id d) sections) = DocMap.section_ids d sections"
  by (intro ext) (auto simp: DocMap.section_ids_def intro!: arg_cong [of _ _ "map se_id"] filter_cong)

lemma corpus_map_documents:
  assumes "build_documentation_corpus parse ps inputs options = Inr c"
  obtains sections where "set sections = set (co_sections c)"
    "mp_documents (co_map c) = map (\<lambda>d. map_document_of d sections (co_diagnostics c)) (js_sort document_order (co_documents c))"
    "mp_entry_points (co_map c) = List.map_filter entry_point_of sections"
proof -
  have "co_map c = build_documentation_map (co_documents c) (co_sections c) (co_diagnostics c)"
    using corpus_facts [OF assms] by blast
  then show thesis
    by (intro that [of "js_sort (section_order (js_sort document_order (co_documents c))) (co_sections c)"])
      (simp_all add: build_documentation_map_def map_payload_of_def map_payload.defs Let_def)
qed

text \<open>The UUID that names a heading.\<close>

definition persisted_heading :: "job \<Rightarrow> string \<Rightarrow> string \<times> string \<times> nat \<times> string list \<Rightarrow> string" where
  "persisted_heading job d h = (case h of (t, a, l, sections) \<Rightarrow>
     (case sections of [] \<Rightarrow> document_uuid job d @ ''#'' @ a | s # _ \<Rightarrow> section_uuid job s))"

lemma persisted_heading_id:
  assumes c: "build_documentation_corpus parse ps inputs options = Inr c" and d: "d \<in> set (co_documents c)"
    and h: "h \<in> set (heading_entries (DocMap.section_ids d sections) (doc_blocks d))" and s: "set sections = set (co_sections c)"
  shows "persisted_evidence_id (heading_id (doc_id d) h) (Some (work_ids job c)) = persisted_heading job (doc_id d) h"
proof -
  obtain t a l where h: "h = (t, a, l, DocMap.section_ids d sections a)"
    using h by (auto simp: heading_entries_def split: block_body.splits)
  show ?thesis
  proof (cases "DocMap.section_ids d sections a")
    case Nil
    then show ?thesis using persisted_anchor [OF c d] by (simp add: h heading_id_def persisted_heading_def)
  next
    case (Cons i js)
    then have "i \<in> set (DocMap.section_ids d sections a)" by simp
    then obtain x where "x \<in> set (co_sections c)" "i = se_id x" using s by (auto simp: DocMap.section_ids_def)
    then show ?thesis using persisted_section [OF c] Cons by (simp add: h heading_id_def persisted_heading_def)
  qed
qed

section \<open>The identities of the diagnostics\<close>

text \<open>The notes of the parsers name neither a section nor evidence.\<close>

definition plain_note :: "diagnostic \<Rightarrow> bool" where
  "plain_note g \<longleftrightarrow> dg_section g = None \<and> dg_evidence g = None"

definition plain_notes :: "url_parser \<Rightarrow> parsers \<Rightarrow> normalization_input list \<Rightarrow> bool" where
  "plain_notes parse ps inputs \<longleftrightarrow>
     list_all (\<lambda>i. list_all plain_note (pr_diagnostics (fst (parsed_document ps i (detect_format parse i))))) inputs"

text \<open>What a diagnostic points at: its evidence, its section and its document.\<close>

definition pointed_at :: "diagnostic \<Rightarrow> string list" where
  "pointed_at g = nullish (dg_evidence g) [] @ [nullish (dg_section g) [], nullish (dg_document g) []]"

abbreviation document_ids :: "documentation_corpus \<Rightarrow> string set" where
  "document_ids c \<equiv> doc_id ` set (co_documents c)"

abbreviation sections_ids :: "documentation_corpus \<Rightarrow> string set" where
  "sections_ids c \<equiv> se_id ` set (co_sections c)"

lemma corpus_pointers:
  assumes c: "build_documentation_corpus parse ps inputs options = Inr c" and plain: "plain_notes parse ps inputs"
    and g: "g \<in> set (co_diagnostics c)"
  shows "set (pointed_at g) \<subseteq> insert [] (document_ids c \<union> sections_ids c)" and "dg_document g \<in> Some ` document_ids c"
proof -
  obtain rs where rs: "map_result (\<lambda>d. segment_document d options) (corpus_documents parse ps inputs) = Inr rs"
    using c corpus_refused by (cases "map_result (\<lambda>d. segment_document d options) (corpus_documents parse ps inputs)") fastforce+
  then obtain e where eq: "c = corpus_of (corpus_documents parse ps inputs) rs e"
    using corpus_segmented c by fastforce
  have parts: "co_documents c = corpus_documents parse ps inputs" "co_sections c = concat (map sg_sections rs)"
    by (simp_all add: eq corpus_of_def Let_def)
  have "g \<in> set (collected_diagnostics (co_documents c) (concat (map sg_diagnostics rs)))"
    using g by (simp add: eq corpus_of_def assess_corpus_quality_def Let_def)
  then consider (own) d where "d \<in> set (co_documents c)" "g \<in> set (doc_diagnostics d)"
    | (segment) r where "r \<in> set rs" "g \<in> set (sg_diagnostics r)"
    | (duplicate) d e where "(d, e) \<in> set (duplicates (co_documents c))" "g = duplicate_diagnostic d e"
    | (boilerplate) d where "d \<in> set (co_documents c)" "g = boilerplate_diagnostic (co_documents c) d"
    by (auto simp: collected_diagnostics_def split: if_splits)
  then have "set (pointed_at g) \<subseteq> insert [] (document_ids c \<union> sections_ids c) \<and> dg_document g \<in> Some ` document_ids c"
  proof cases
    case own
    then obtain i where i: "i \<in> set inputs" "d = normalize_document parse ps i" by (auto simp: parts)
    then have "list_all plain_note (pr_diagnostics (fst (parsed_document ps i (detect_format parse i))))"
      using plain by (simp add: plain_notes_def list_all_iff)
    then have "plain_note g \<and> dg_document g = Some (doc_id d)"
      using own(2) by (auto simp: i(2) normalize_document_def document_note_def plain_note_def list_all_iff Let_def split: if_splits)
    then show ?thesis using own(1) by (auto simp: pointed_at_def plain_note_def)
  next
    case segment
    obtain d where d: "d \<in> set (co_documents c)" "segment_document d options = Inr r"
      using map_result_Inr_set [OF rs segment(1)] by (auto simp: parts)
    then obtain s oversized where s: "s \<in> set (sg_sections r)" "g = oversized_diagnostic d oversized s"
      using segment(2) by (auto simp: segment_document_def Let_def split: if_splits)
    then have "s \<in> set (co_sections c)" using segment(1) by (auto simp: parts)
    then show ?thesis using d(1) s(2) by (auto simp: pointed_at_def oversized_diagnostic_def)
  next
    case duplicate
    then obtain k gr where "(k, gr) \<in> set (group_by document_fingerprint (js_sort document_order (co_documents c)))" "(d, e) \<in> set (group_duplicates gr)"
      by (auto simp: duplicates_def)
    moreover from this have "set gr \<subseteq> set (co_documents c)"
      by (auto simp: group_by_members)
    ultimately have "d \<in> set (co_documents c)" "e \<in> set (co_documents c)"
      by (cases gr; auto)+
    then show ?thesis by (simp add: duplicate pointed_at_def duplicate_diagnostic_def)
  qed (auto simp: pointed_at_def boilerplate_diagnostic_def)
  then show "set (pointed_at g) \<subseteq> insert [] (document_ids c \<union> sections_ids c)" and "dg_document g \<in> Some ` document_ids c" by blast+
qed

text \<open>The UUID of the row that a logical identity stands for.\<close>

definition row_uuid :: "job \<Rightarrow> documentation_corpus \<Rightarrow> string \<Rightarrow> string" where
  "row_uuid job c v = (if v \<in> document_ids c then document_uuid job v else if v \<in> sections_ids c then section_uuid job v else v)"

lemma persisted_pointer:
  assumes c: "build_documentation_corpus parse ps inputs options = Inr c" and v: "v \<in> insert [] (document_ids c \<union> sections_ids c)"
  shows "persisted_evidence_id v (Some (work_ids job c)) = row_uuid job c v"
proof -
  have lengths: "length i = 33" if "i \<in> document_ids c" for i
    using that shaped_document(1) [OF corpus_shaped(1) [OF c]] by auto
  have lengths': "length i = 32" if "i \<in> sections_ids c" for i
    using that shaped_section(1) [OF corpus_shaped(2) [OF c]] by auto
  consider (none) "v = []" | (doc) "v \<in> document_ids c" | (sec) "v \<in> sections_ids c" "v \<notin> document_ids c" using v by blast
  then show ?thesis
  proof cases
    case none
    have "[] \<notin> document_ids c" "[] \<notin> sections_ids c" using lengths [of "[]"] lengths' [of "[]"] by auto
    moreover have "\<not> starts_with [] ''document:''" "\<not> starts_with [] ''section:''" "index_of [] ''#'' = - 1" by code_simp+
    ultimately show ?thesis
      by (simp add: none persisted_evidence_id_def row_uuid_def direct_id_def work_ids_def document_lookup section_lookup)
  qed (auto simp: row_uuid_def persisted_document [OF c] persisted_section [OF c])
qed

lemma update_members: "x \<in> set (jm_set k v m) \<Longrightarrow> x = (k, v) \<or> x \<in> set m"
  by (induction m) (auto split: if_splits)

lemma topic_owners_known: "(t, ds) \<in> set (topic_owners ms) \<Longrightarrow> set ds \<subseteq> md_document ` set ms"
proof -
  have own: "\<forall>(t, ds) \<in> set (own_topic d topic m). set ds \<subseteq> insert d A" if m: "\<forall>(t, ds) \<in> set m. set ds \<subseteq> insert d A" for d topic m A
  proof -
    define owners where "owners = nullish (jm_get m (trim topic)) []"
    have "set owners \<subseteq> insert d A"
      using m by (cases "jm_get m (trim topic)") (auto simp: owners_def dest!: map_of_SomeD)
    then have "set (if d \<in> set owners then owners else owners @ [d]) \<subseteq> insert d A" by auto
    then have "\<forall>(t, ds) \<in> set (jm_set (trim topic) (if d \<in> set owners then owners else owners @ [d]) m). set ds \<subseteq> insert d A"
      using m by (intro ballI) (drule update_members, elim disjE, simp_all)
    then show ?thesis
      using m unfolding own_topic_def Let_def owners_def by (cases "trim topic = []") (simp_all only: if_True if_False simp_thms)
  qed
  have topics: "\<forall>(t, ds) \<in> set (fold (own_topic d) topics m). set ds \<subseteq> insert d A" if "\<forall>(t, ds) \<in> set m. set ds \<subseteq> insert d A" for d topics m A
    using that
  proof (induction topics arbitrary: m)
    case (Cons topic topics)
    from Cons.IH [OF own [OF Cons.prems]] show ?case by simp
  qed simp
  have "\<forall>(t, ds) \<in> set (fold (\<lambda>m. fold (own_topic (md_document m)) (md_topics m)) ms m). set ds \<subseteq> A \<union> md_document ` set ms"
    if "\<forall>(t, ds) \<in> set m. set ds \<subseteq> A" for m A
    using that
  proof (induction ms arbitrary: m A)
    case (Cons x ms)
    have "\<forall>(t, ds) \<in> set (fold (own_topic (md_document x)) (md_topics x) m). set ds \<subseteq> insert (md_document x) A"
      using Cons.prems by (intro topics) fastforce
    from Cons.IH [OF this] show ?case by simp
  qed auto
  from this [of "[]" "{}"] show "(t, ds) \<in> set (topic_owners ms) \<Longrightarrow> ?thesis" by (fastforce simp: topic_owners_def)
qed

section \<open>The persisted map\<close>

text \<open>The lines that stand for the entry points of some kinds.\<close>

definition point_lines :: "job \<Rightarrow> entry_kind list \<Rightarrow> entry_point list \<Rightarrow> (string \<times> string) list" where
  "point_lines job kinds points =
     map (\<lambda>e. (section_uuid job (ep_section e),
         entry_kind_text (ep_kind e) @ '' entry point in documentation document '' @ document_uuid job (ep_document e) @ ''.''))
       (filter (\<lambda>e. ep_kind e \<in> set kinds) points)"

lemma persisted_points:
  assumes c: "build_documentation_corpus parse ps inputs options = Inr c"
    and points: "set points \<subseteq> {e. \<exists>s \<in> set (co_sections c). entry_point_of s = Some e}"
  shows "map (\<lambda>e. (me_id e, me_summary e)) (entries_of_kind (Some (work_ids job c)) kinds points) = point_lines job kinds points"
proof -
  have "persisted_evidence_id (ep_section e) (Some (work_ids job c)) = section_uuid job (ep_section e)
      \<and> persisted_evidence_id (ep_document e) (Some (work_ids job c)) = document_uuid job (ep_document e)" if e: "e \<in> set points" for e
  proof -
    obtain s where s: "s \<in> set (co_sections c)" "entry_point_of s = Some e" using points e by blast
    then have "se_document s \<in> doc_id ` set (co_documents c)" using corpus_facts [OF c] by blast
    then show ?thesis
      using s persisted_section [OF c s(1)] persisted_document [OF c] by (auto simp: entry_point_of_def Let_def)
  qed
  then show ?thesis
    by (simp add: entries_of_kind_def point_lines_def documentation_entry_point_def)
qed

lemma nullish_when_any [simp]: "nullish (when_any xs) [] = xs"
  by (simp add: when_any_def)

lemma persisted_topics:
  assumes c: "build_documentation_corpus parse ps inputs options = Inr c"
    and ms: "md_document ` set ms \<subseteq> document_ids c"
  shows "map me_aliases (map (topic_entry (Some (work_ids job c))) (js_sort by_key (topic_owners ms))) =
    map (\<lambda>(t, ds). Some (js_sort compare_text (map (document_uuid job) ds))) (js_sort by_key (topic_owners ms))"
proof -
  have owners: "map (\<lambda>d. persisted_evidence_id d (Some (work_ids job c))) ds = map (document_uuid job) ds"
    if "(t, ds) \<in> set (topic_owners ms)" for t ds
    using subset_trans [OF topic_owners_known [OF that] ms] by (intro map_cong refl persisted_document_id [OF c]) (rule subsetD)
  have "me_aliases (topic_entry (Some (work_ids job c)) (t, ds)) = Some (js_sort compare_text (map (document_uuid job) ds))"
    if "(t, ds) \<in> set (topic_owners ms)" for t ds
    unfolding topic_entry_def map_entry.sel snd_conv option.inject using arg_cong [OF owners [OF that]] .
  then have "me_aliases (topic_entry (Some (work_ids job c)) x) = (case x of (t, ds) \<Rightarrow> Some (js_sort compare_text (map (document_uuid job) ds)))"
    if "x \<in> set (js_sort by_key (topic_owners ms))" for x
    using that unfolding set_js_sort by (cases x) (simp only: prod.case)
  then show ?thesis unfolding map_map comp_def by (rule map_cong [OF refl])
qed

lemma persisted_gaps:
  assumes c: "build_documentation_corpus parse ps inputs options = Inr c" and plain: "plain_notes parse ps inputs"
    and gs: "set gs \<subseteq> set (co_diagnostics c)"
  shows "map gp_evidence (map (quality_gap (Some (work_ids job c))) gs) = map (\<lambda>g. when_any (unique_sorted (map (row_uuid job c) (pointed_at g)))) gs"
proof -
  have "map (\<lambda>v. persisted_evidence_id v (Some (work_ids job c))) (pointed_at g) = map (row_uuid job c) (pointed_at g)" if "g \<in> set gs" for g
    using corpus_pointers(1) [OF c plain] gs that persisted_pointer [OF c] by (intro map_cong refl) blast
  moreover have "gp_evidence (quality_gap ids g) = when_any (unique_sorted (map (\<lambda>v. persisted_evidence_id v ids) (pointed_at g)))" for ids g
    by (simp only: quality_gap_def pointed_at_def map_gap.simps)
  ultimately show ?thesis unfolding map_map comp_def by (intro map_cong refl) (simp only:)
qed

text \<open>
  Property C25. No logical identity of the crawler is left in the persisted documentation map. Each document names
  itself by its UUID, and below it every heading, in document order, by the UUID of the first section under its anchor, or
  else by the UUID of the document and the anchor, with the UUID of the document in its summary; an entry point is named
  by the UUID of its section, with that of its document in the summary, in each of the four lists; the aliases of a
  topic are the UUIDs of its documents; the evidence of a gap is what the diagnostic points at and the excluded sources are
  the duplicated documents, by their UUIDs.  What the diagnostics of the corpus point at are its own documents and sections,
  provided that the notes of the parsers name no section and no evidence, as those of the crawler do not.
\<close>

theorem persisted_map_identities:
  assumes c: "build_documentation_corpus parse ps inputs options = Inr c" and plain: "plain_notes parse ps inputs"
  shows "\<exists>sections. set sections = set (co_sections c)
    \<and> (let body = persisted_documentation_map_body (co_map c) (co_diagnostics c) (Some (work_ids job c));
           documents = js_sort document_order (co_documents c); points = List.map_filter entry_point_of sections;
           line = (\<lambda>e. (me_id e, me_summary e)) in
       map (\<lambda>e. (me_id e, tl (entry_lines e))) (pd_documents body) =
         map (\<lambda>d. (document_uuid job (doc_id d), map (\<lambda>h. (persisted_heading job (doc_id d) h, heading_summary (document_uuid job (doc_id d)) h))
             (heading_entries (DocMap.section_ids d sections) (doc_blocks d)))) documents
       \<and> map line (pd_workflows body) = point_lines job [Setup, Reference, Concepts] points
       \<and> map line (nullish (pd_authentication body) []) = point_lines job [Authentication] points
       \<and> map line (nullish (pd_errors body) []) = point_lines job [Errors] points
       \<and> map line (nullish (pd_examples body) []) = point_lines job [Examples] points
       \<and> map me_aliases (pd_topics body) =
           map (\<lambda>(t, ds). Some (js_sort compare_text (map (document_uuid job) ds))) (js_sort by_key (topic_owners (mp_documents (co_map c))))
       \<and> map gp_evidence (nullish (pd_gaps body) []) =
           map (\<lambda>g. when_any (unique_sorted (map (row_uuid job c) (pointed_at g)))) (noteworthy (co_diagnostics c))
       \<and> nullish (pd_excluded body) [] =
           unique_sorted (map (\<lambda>g. document_uuid job (nullish (dg_document g) []))
             (filter (\<lambda>g. diagnostic.dg_code g = DocumentDuplicate) (co_diagnostics c)))
       \<and> (\<forall>g \<in> set (co_diagnostics c). set (pointed_at g) \<subseteq> insert [] (document_ids c \<union> sections_ids c)))"
proof -
  obtain sections where s: "set sections = set (co_sections c)"
    and docs: "mp_documents (co_map c) = map (\<lambda>d. map_document_of d sections (co_diagnostics c)) (js_sort document_order (co_documents c))"
    and entries: "mp_entry_points (co_map c) = List.map_filter entry_point_of sections"
    using c by (rule corpus_map_documents)
  define ids where "ids = Some (work_ids job c)"
  define points where "points = List.map_filter entry_point_of sections"
  define body where "body = persisted_documentation_map_body (co_map c) (co_diagnostics c) ids"
  have one: "(me_id e, tl (entry_lines e)) = (document_uuid job (doc_id d),
      map (\<lambda>h. (persisted_heading job (doc_id d) h, heading_summary (document_uuid job (doc_id d)) h))
        (heading_entries (DocMap.section_ids d sections) (doc_blocks d)))"
    if d: "d \<in> set (co_documents c)" "e = document_entry ids (map_document_of d sections (co_diagnostics c))" for d e
    using persisted_document [OF c d(1)] persisted_heading_id [OF c d(1) _ s]
    by (simp add: d(2) document_entry_lines map_document_of_def outline_preorder_entries own_section_ids ids_def Let_def)
  have known: "set points \<subseteq> {e. \<exists>s \<in> set (co_sections c). entry_point_of s = Some e}"
    using s by (auto simp: points_def List.map_filter_def)
  have "md_document ` set (mp_documents (co_map c)) \<subseteq> document_ids c"
    by (auto simp: docs map_document_of_def Let_def)
  note topics = persisted_topics [OF c this, where job = job, folded ids_def]
  have "map (\<lambda>g. persisted_evidence_id (nullish (dg_document g) []) ids) gs = map (\<lambda>g. document_uuid job (nullish (dg_document g) [])) gs"
    if "set gs \<subseteq> set (co_diagnostics c)" for gs
    using corpus_pointers(2) [OF c plain] that persisted_document [OF c] unfolding ids_def by (intro map_cong refl) fastforce
  note excluded = this [of "filter (\<lambda>g. diagnostic.dg_code g = DocumentDuplicate) (co_diagnostics c)"]
  have "set (noteworthy (co_diagnostics c)) \<subseteq> set (co_diagnostics c)" by (auto simp: noteworthy_def)
  note gaps = persisted_gaps [OF c plain this, where job = job, folded ids_def]
  note pts = persisted_points [OF c known, where job = job, folded ids_def]
  have parts: "pd_documents body = map (document_entry ids) (mp_documents (co_map c))"
    "pd_workflows body = entries_of_kind ids [Setup, Reference, Concepts] points"
    "nullish (pd_authentication body) [] = entries_of_kind ids [Authentication] points"
    "nullish (pd_errors body) [] = entries_of_kind ids [Errors] points"
    "nullish (pd_examples body) [] = entries_of_kind ids [Examples] points"
    "pd_topics body = map (topic_entry ids) (js_sort by_key (topic_owners (mp_documents (co_map c))))"
    "nullish (pd_gaps body) [] = map (quality_gap ids) (noteworthy (co_diagnostics c))"
    "nullish (pd_excluded body) [] = unique_sorted (map (\<lambda>g. persisted_evidence_id (nullish (dg_document g) []) ids)
        (filter (\<lambda>g. diagnostic.dg_code g = DocumentDuplicate) (co_diagnostics c)))"
    by (simp_all add: body_def persisted_documentation_map_body_def entries points_def Let_def)
  have "map (\<lambda>e. (me_id e, tl (entry_lines e))) (pd_documents body) =
      map (\<lambda>d. (document_uuid job (doc_id d), map (\<lambda>h. (persisted_heading job (doc_id d) h, heading_summary (document_uuid job (doc_id d)) h))
        (heading_entries (DocMap.section_ids d sections) (doc_blocks d)))) (js_sort document_order (co_documents c))"
    unfolding parts docs map_map comp_def using one by (intro map_cong refl) simp
  then show ?thesis
    unfolding Let_def ids_def [symmetric] body_def [symmetric] points_def [symmetric]
    using s topics [folded parts(6)] gaps [folded parts(7)] corpus_pointers(1) [OF c plain]
      trans [OF parts(8) arg_cong [OF excluded, of unique_sorted]]
      pts [of "[Setup, Reference, Concepts]", folded parts(2)] pts [of "[Authentication]", folded parts(3)]
      pts [of "[Errors]", folded parts(4)] pts [of "[Examples]", folded parts(5)]
    by (intro exI [of _ sections] conjI ballI) (simp_all only: filter_is_subset points_def)
qed

lemma persisted_map_identities_witness:
  "\<exists>c. build_documentation_corpus (\<lambda>_ _. None) no_parsers [sample_input ''https://docs.example/a''] sample_options = Inr c
     \<and> map me_id (pd_documents (persisted_documentation_map_body (co_map c) (co_diagnostics c) (Some (work_ids sample_job c))))
       = [document_uuid sample_job (doc_id (normalize_document (\<lambda>_ _. None) no_parsers (sample_input ''https://docs.example/a'')))]"
proof -
  let ?inputs = "[sample_input ''https://docs.example/a'']"
  have "options_valid sample_options" by (simp add: options_valid_def sample_options_def)
  then obtain c where c: "build_documentation_corpus (\<lambda>_ _. None) no_parsers ?inputs sample_options = Inr c"
    using corpus_exists by blast
  then have docs: "co_documents c = [normalize_document (\<lambda>_ _. None) no_parsers (sample_input ''https://docs.example/a'')]"
    using corpus_facts [OF c] by simp
  have "plain_notes (\<lambda>_ _. None) no_parsers ?inputs"
    by (simp add: plain_notes_def parsed_document_def no_parsers_def no_parse_def parse_text_def Let_def split: document_format.split)
  note ids = persisted_map_identities [OF c this, of sample_job, unfolded Let_def]
  have "map me_id es = map fst (map (\<lambda>e. (me_id e, tl (entry_lines e))) es)" for es by simp
  then show ?thesis using c ids docs by auto
qed

end
