(* ===== verification/Markup.thy ===== *)
theory Markup
  imports Normalize JsRegex
begin

text \<open>
  What the parsers of \<^verbatim>\<open>markdown.ts\<close>, \<^verbatim>\<open>structured.ts\<close> and \<^verbatim>\<open>html.ts\<close> share: the lines of a source with their
  offsets, replacement by regular expressions, the collection of links, and ranges of the source.
\<close>

section \<open>Regular expressions\<close>

definition rx_replace_all :: "rx \<Rightarrow> (rx_match \<Rightarrow> string) \<Rightarrow> string \<Rightarrow> string" where
  "rx_replace_all r f s = rx_replace r f [] s"

text \<open>\<^verbatim>\<open>replace\<close> without the flag \<^verbatim>\<open>g\<close>\<close>

definition rx_replace_first :: "rx \<Rightarrow> (rx_match \<Rightarrow> string) \<Rightarrow> string \<Rightarrow> string" where
  "rx_replace_first r f s =
     (case rx_exec r s of None \<Rightarrow> s | Some m \<Rightarrow> rev (rm_before m) @ f m @ rm_after m)"

definition match_group :: "nat \<Rightarrow> rx_match \<Rightarrow> string" where
  "match_group k m = nullish (rx_group k m) []"

abbreviation but :: "string \<Rightarrow> rx" where
  "but cs \<equiv> Cls (\<lambda>c. c \<notin> set cs)"

abbreviation one :: "string \<Rightarrow> rx" where
  "one cs \<equiv> Cls (\<lambda>c. c \<in> set cs)"

definition is_letter :: "char \<Rightarrow> bool" where
  "is_letter c \<longleftrightarrow> is_lower c \<or> is_upper c"

section \<open>Lines\<close>

record source_line =
  sl_text :: string
  sl_from :: nat
  sl_to :: nat

text \<open>
  \<^verbatim>\<open>/.*(?:\n|$)/g\<close>: the dot does not match a carriage return either. The offsets are the sums of the
  lengths of the matches, and a line loses its line feed and one carriage return before it.
\<close>

definition line_rx :: rx where
  "line_rx = Seq (many any_char) (Alt (lit [newline]) TextEnd)"

definition raw_lines :: "string \<Rightarrow> string list" where
  "raw_lines content = filter (\<lambda>raw. raw \<noteq> []) (map rm_text (rx_all line_rx [] content))"

definition without_end :: "char \<Rightarrow> string \<Rightarrow> string" where
  "without_end c s = (if s \<noteq> [] \<and> last s = c then butlast s else s)"

fun lines_from :: "nat \<Rightarrow> string list \<Rightarrow> source_line list" where
  "lines_from start [] = []"
| "lines_from start (raw # raws) =
     \<lparr>sl_text = without_end (CHR 0x0D) (without_end newline raw), sl_from = start, sl_to = start + length raw\<rparr>
     # lines_from (start + length raw) raws"

definition source_lines :: "string \<Rightarrow> source_line list" where
  "source_lines content = lines_from 0 (raw_lines content)"

definition blank_text :: "string \<Rightarrow> bool" where
  "blank_text s \<longleftrightarrow> trim s = []"

section \<open>Links\<close>

type_synonym link_resolver = "string \<Rightarrow> string \<Rightarrow> (string \<times> string) option"

definition link_key :: "link \<Rightarrow> string" where
  "link_key l = lk_label l @ [nul] @ lk_target l"

fun unique_links :: "string list \<Rightarrow> link list \<Rightarrow> link list" where
  "unique_links seen [] = []"
| "unique_links seen (l # ls) =
     (if link_key l \<in> set seen then unique_links seen ls else l # unique_links (link_key l # seen) ls)"

definition present :: "string option \<Rightarrow> string option" where
  "present v = (if v = Some [] then None else v)"

section \<open>Blocks\<close>

definition draft :: "string \<Rightarrow> nat \<Rightarrow> nat \<Rightarrow> string option block_body \<Rightarrow> draft_block" where
  "draft content a b body = \<lparr>df_range = source_range content (int a) (int b), df_body = body\<rparr>"

definition parse_note :: "diagnostic_code \<Rightarrow> severity \<Rightarrow> string \<Rightarrow> diagnostic" where
  "parse_note code sev message =
     \<lparr>dg_code = code, dg_severity = sev, dg_scope = DocumentScope, dg_message = message, dg_document = None,
      dg_section = None, dg_evidence = None, dg_details = None\<rparr>"

text \<open>Blocks in the order of the source, each over a part of it of its own.\<close>

definition laid_out :: "nat \<Rightarrow> nat \<Rightarrow> draft_block list \<Rightarrow> bool" where
  "laid_out start n bs \<longleftrightarrow>
     sorted_wrt (\<lambda>a b. sr_end (df_range a) \<le> sr_start (df_range b)) bs
     \<and> list_all (\<lambda>b. int start \<le> sr_start (df_range b) \<and> sr_start (df_range b) < sr_end (df_range b) \<and> sr_end (df_range b) \<le> int n) bs"

lemma laid_out_Nil [simp]: "laid_out start n []"
  by (simp add: laid_out_def)

lemma laid_out_weaken: "laid_out start n bs \<Longrightarrow> start' \<le> start \<Longrightarrow> laid_out start' n bs"
  by (fastforce simp: laid_out_def list_all_iff)

lemma laid_out_Cons:
  "int start \<le> sr_start (df_range b) \<Longrightarrow> sr_start (df_range b) < sr_end (df_range b) \<Longrightarrow> sr_end (df_range b) \<le> int n
     \<Longrightarrow> sr_end (df_range b) = int e \<Longrightarrow> laid_out e n bs \<Longrightarrow> laid_out start n (b # bs)"
  by (fastforce simp: laid_out_def list_all_iff)

section \<open>Greedy and lazy repetition of a class\<close>

text \<open>A greedy repetition of a class tries the longest run first and then ever shorter ones.\<close>

fun runs_down :: "(char \<Rightarrow> bool) \<Rightarrow> rx_state \<Rightarrow> rx_state list" where
  "runs_down P (b, [], g) = [(b, [], g)]"
| "runs_down P (b, c # s, g) = (if P c then runs_down P (c # b, s, g) else []) @ [(b, c # s, g)]"

lemma star_run_cls:
  "length (rest st) \<le> n \<Longrightarrow> star_run (rx_run (Cls P)) True n st = runs_down P st"
proof (induction P st arbitrary: n rule: runs_down.induct)
  case (1 P b g)
  then show ?case by (cases n) simp_all
next
  case (2 P b c s g)
  then show ?case by (cases n) (simp_all add: Let_def)
qed

lemma rx_run_many_cls: "rx_run (many (Cls P)) st = runs_down P st"
  by (simp add: many_def star_run_cls del: rx_run.simps(1))

lemma hd_runs_down: "hd (runs_down P (b, s, g)) = (rev (takeWhile P s) @ b, dropWhile P s, g)"
  and runs_down_nonempty [simp]: "runs_down P (b, s, g) \<noteq> []"
  by (induction s arbitrary: b) (auto simp: hd_append)

lemma runs_down_Cons:
  "\<exists>ts. runs_down P (b, s, g) = (rev (takeWhile P s) @ b, dropWhile P s, g) # ts"
  by (metis hd_runs_down runs_down_nonempty list.exhaust_sel)

section \<open>The lines of a text without carriage returns\<close>

lemma rx_run_line:
  assumes "list_all (\<lambda>c. \<not> line_break c) u" "v = [] \<or> hd v = newline"
  shows "\<exists>ts. rx_run line_rx (b, u @ v, g) = (if v = [] then (rev u @ b, [], g) else (newline # rev u @ b, tl v, g)) # ts"
proof -
  have brk: "line_break newline" by (simp add: line_break_def)
  have tw: "takeWhile (\<lambda>c. \<not> line_break c) (u @ v) = u" "dropWhile (\<lambda>c. \<not> line_break c) (u @ v) = v"
    using assms brk by (cases v; auto simp: list_all_iff takeWhile_append dropWhile_append2)+
  obtain ts where "runs_down (\<lambda>c. \<not> line_break c) (b, u @ v, g) = (rev u @ b, v, g) # ts"
    using runs_down_Cons [of "\<lambda>c. \<not> line_break c" b "u @ v" g] tw by auto
  then show ?thesis
    using assms(2) by (cases v) (auto simp: line_rx_def rx_run_many_cls lit_def)
qed

lemma rx_search_length:
  assumes "rx_search r before s = Some m"
  shows "length (rm_text m) + length (rm_after m) \<le> length s"
proof -
  obtain p where "s = p @ rm_text m @ rm_after m" using rx_search_Some [OF assms] by blast
  then show ?thesis by simp
qed

lemma rx_all_length: "sum_list (map (\<lambda>m. length (rm_text m)) (rx_all r before s)) \<le> length s"
proof (induction r before s rule: rx_all.induct)
  case (1 r before s)
  show ?case
  proof (cases "rx_search r before s")
    case None
    then show ?thesis by (subst rx_all.simps) simp
  next
    case (Some m)
    note len = rx_search_length [OF Some]
    show ?thesis
    proof (cases "length (rm_after m) < length s")
      case True
      then show ?thesis using "1.IH"(1) [OF Some True] Some len by (subst rx_all.simps) simp
    next
      case False
      then have "length (rm_text m) = 0" using len by linarith
      then have empty: "rm_text m = []" by simp
      show ?thesis
      proof (cases s)
        case Nil
        then show ?thesis using Some False empty by (subst rx_all.simps) simp
      next
        case (Cons c cs)
        then show ?thesis using "1.IH"(2) [OF Some False Cons] Some False empty by (subst rx_all.simps) simp
      qed
    qed
  qed
qed

text \<open>The lines cover at most the content, one after the other.\<close>

lemma raw_lines_length: "sum_list (map length (raw_lines content)) \<le> length content"
proof -
  have "sum_list (map length (filter (\<lambda>raw. raw \<noteq> []) xs)) = sum_list (map length xs)" for xs :: "string list"
    by (induction xs) auto
  then show ?thesis
    using rx_all_length [of line_rx "[]" content] by (simp add: raw_lines_def comp_def)
qed

definition chained :: "nat \<Rightarrow> source_line list \<Rightarrow> bool" where
  "chained n ls \<longleftrightarrow> sorted_wrt (\<lambda>l k. sl_to l \<le> sl_from k) ls \<and> (\<forall>l\<in>set ls. sl_from l < sl_to l \<and> sl_to l \<le> n)"

lemma lines_from_chained:
  "[] \<notin> set raws \<Longrightarrow> start + sum_list (map length raws) \<le> n \<Longrightarrow>
     chained n (lines_from start raws) \<and> (\<forall>l\<in>set (lines_from start raws). start \<le> sl_from l)"
proof (induction raws arbitrary: start)
  case Nil
  then show ?case by (simp add: chained_def)
next
  case (Cons raw raws)
  then have "chained n (lines_from (start + length raw) raws) \<and> (\<forall>l\<in>set (lines_from (start + length raw) raws). start + length raw \<le> sl_from l)"
    by (intro Cons.IH) auto
  moreover have "0 < length raw" using Cons.prems(1) by (cases raw) auto
  ultimately show ?case using Cons.prems(2) by (fastforce simp: chained_def)
qed

lemma source_lines_chained: "chained (length content) (source_lines content)"
  using lines_from_chained [of "raw_lines content" 0 "length content"] raw_lines_length [of content]
  by (simp add: source_lines_def raw_lines_def)

lemma chained_append: "chained n (us @ vs) \<longleftrightarrow> chained n us \<and> chained n vs \<and> (\<forall>u\<in>set us. \<forall>v\<in>set vs. sl_to u \<le> sl_from v)"
  by (auto simp: chained_def sorted_wrt_append)

lemma chained_Cons: "chained n (l # ls) \<longleftrightarrow> sl_from l < sl_to l \<and> sl_to l \<le> n \<and> (\<forall>k\<in>set ls. sl_to l \<le> sl_from k) \<and> chained n ls"
  by (auto simp: chained_def)

text \<open>Without a carriage return, the lines are the parts between line feeds.\<close>

lemma rx_all_lines:
  assumes "list_all (\<lambda>c. \<not> line_break c) u"
  shows "map rm_text (rx_all line_rx b (u @ newline # v)) = (u @ [newline]) # map rm_text (rx_all line_rx (newline # rev u @ b) v)"
proof -
  obtain ts where run: "rx_run line_rx (b, u @ newline # v, []) = (newline # rev u @ b, v, []) # ts"
    using rx_run_line [OF assms, of "newline # v" b "[]"] by auto
  define m where "m = \<lparr>rm_before = b, rm_text = u @ [newline], rm_groups = [], rm_after = v\<rparr>"
  have "rx_search line_rx b (u @ newline # v) = Some m"
    using run by (subst rx_search.simps) (simp add: m_def)
  then show ?thesis
    by (subst rx_all.simps) (simp add: m_def)
qed

lemma rx_all_last_line:
  assumes "list_all (\<lambda>c. \<not> line_break c) u"
  shows "filter (\<lambda>raw. raw \<noteq> []) (map rm_text (rx_all line_rx b u)) = (if u = [] then [] else [u])"
proof -
  have run: "\<exists>ts. rx_run line_rx (b, w, []) = (rev w @ b, [], []) # ts" if "list_all (\<lambda>c. \<not> line_break c) w" for w b
    using rx_run_line [OF that, of "[]" b "[]"] by simp
  define m where "m w b = \<lparr>rm_before = b, rm_text = w, rm_groups = [], rm_after = []\<rparr>" for w b :: string
  have search: "rx_search line_rx b w = Some (m w b)" if "list_all (\<lambda>c. \<not> line_break c) w" for w b
    using run [OF that, of b] by (subst rx_search.simps) (auto simp: m_def)
  have nil: "map rm_text (rx_all line_rx b []) = [[]]" for b
    using search [of "[]" b] by (subst rx_all.simps) (simp add: m_def)
  show ?thesis
  proof (cases u)
    case Nil
    then show ?thesis using nil by simp
  next
    case (Cons c cs)
    then have "rx_all line_rx b u = m u b # rx_all line_rx (rev u @ b) []"
      using search [OF assms, of b] by (subst rx_all.simps) (simp add: m_def)
    then show ?thesis using nil Cons by (simp add: m_def)
  qed
qed

fun text_lines :: "string \<Rightarrow> string list \<Rightarrow> string list" where
  "text_lines l [] = (if l = [] then [] else [l])"
| "text_lines l (k # ks) = (l @ [newline]) # text_lines k ks"

lemma raw_lines_join:
  assumes "list_all (list_all (\<lambda>c. \<not> line_break c)) (l # ls)"
  shows "raw_lines (join [newline] (l # ls)) = text_lines l ls"
proof -
  have "filter (\<lambda>raw. raw \<noteq> []) (map rm_text (rx_all line_rx b (join [newline] (l # ls)))) = text_lines l ls" for b
    using assms
  proof (induction ls arbitrary: l b)
    case Nil
    then show ?case by (simp add: rx_all_last_line)
  next
    case (Cons k ks)
    then show ?case by (simp add: rx_all_lines)
  qed
  then show ?thesis by (simp add: raw_lines_def)
qed

end
