(* ===== verification/Markdown.thy ===== *)
theory Markdown
  imports Markup Render
begin

text \<open>
  The Markdown parser of \<^verbatim>\<open>markdown.ts\<close>. The index into the array of lines is the list of the lines from
  there on: a step reads one block off its front and leaves the rest.
\<close>

section \<open>Inline text\<close>

definition image_rx :: rx where
  "image_rx = seqs [lit ''!['', Cap 1 (many (but '']'')), lit ''](''  , many (but '')''), lit '')'']"

definition anchor_text_rx :: rx where
  "anchor_text_rx = seqs [lit ''['', Cap 1 (some_rx (but '']'')), lit ''](''  , many (but '')''), lit '')'']"

definition link_scheme_rx :: rx where
  "link_scheme_rx = Alt (seqs [lit_i ''http'', maybe (lit_i ''s''), lit ''://'']) (lit_i ''mailto:'')"

definition autolink_rx :: rx where
  "autolink_rx = seqs [lit ''<'', Cap 1 (Seq link_scheme_rx (some_rx (but ''>''))), lit ''>'']"

definition code_span_rx :: rx where
  "code_span_rx = seqs [lit [back_quote], Cap 1 (some_rx (but [back_quote])), lit [back_quote]]"

definition anchor_name_rx :: rx where
  "anchor_name_rx = Seq (Cls is_letter) (many (Cls (\<lambda>c. rx_word c \<or> c \<in> set '':.-'')))"

definition trailing_anchor_rx :: rx where
  "trailing_anchor_rx = seqs [lit ''{#'', anchor_name_rx, lit ''}'', spaces, TextEnd]"

definition markup_tag_rx :: rx where
  "markup_tag_rx = seqs [lit ''<'', maybe (lit ''/''), Cls is_letter, many (but ''>''), lit ''>'']"

definition before_emphasis_rx :: rx where
  "before_emphasis_rx = Cap 1 (Alt TextStart (Cls (\<lambda>c. \<not> rx_word c)))"

definition after_emphasis_rx :: rx where
  "after_emphasis_rx = Look (\<lambda>b s. s = [] \<or> \<not> rx_word (hd s))"

definition lazy_text_rx :: rx where
  "lazy_text_rx = Cap 2 (Seq any_char (Star False any_char))"

definition strong_rx :: rx where
  "strong_rx = seqs [before_emphasis_rx, words [''**'', ''__''], lazy_text_rx, words [''**'', ''__''], after_emphasis_rx]"

definition emphasis_rx :: rx where
  "emphasis_rx = seqs [before_emphasis_rx, one ''*_'', lazy_text_rx, one ''*_'', after_emphasis_rx]"

definition backslash :: char where
  "backslash = CHR 0x5C"

definition escaped_rx :: rx where
  "escaped_rx = Seq (lit [backslash]) (Cap 1 (one (backslash # back_quote # ''*{}[]()#+.!_>-'')))"

definition inline_text :: "string \<Rightarrow> string" where
  "inline_text s = normalize_prose (fold (\<lambda>f. f)
     [rx_replace_all image_rx (match_group 1), rx_replace_all anchor_text_rx (match_group 1),
      rx_replace_all autolink_rx (match_group 1), rx_replace_all code_span_rx (match_group 1),
      rx_replace_first trailing_anchor_rx (\<lambda>_. []), rx_replace_all markup_tag_rx (\<lambda>_. '' ''),
      rx_replace_all strong_rx (\<lambda>m. match_group 1 m @ match_group 2 m),
      rx_replace_all emphasis_rx (\<lambda>m. match_group 1 m @ match_group 2 m),
      rx_replace_all escaped_rx (match_group 1)] s)"

definition quotes :: string where
  "quotes = [CHR 0x22, CHR 0x27]"

definition inline_link_rx :: rx where
  "inline_link_rx = seqs [Look (\<lambda>b s. \<not> head_is (\<lambda>c. c = CHR ''!'') b), lit ''['', Cap 1 (some_rx (but '']'')), lit ''](''  , spaces,
     Cap 2 (some_rx (Cls (\<lambda>c. \<not> is_ws c \<and> c \<noteq> CHR '')''))),
     maybe (seqs [some_rx space, one quotes, many (but quotes), one quotes]), spaces, lit '')'']"

definition link_of :: "link_resolver \<Rightarrow> string \<Rightarrow> string \<times> string \<Rightarrow> link list" where
  "link_of resolve u = (\<lambda>(label, target).
     case present (resolve_link resolve target u) of
       None \<Rightarrow> []
     | Some resolved \<Rightarrow> if normalize_prose label = [] then [] else [\<lparr>lk_label = normalize_prose label, lk_target = resolved\<rparr>])"

definition markdown_links :: "link_resolver \<Rightarrow> string \<Rightarrow> string \<Rightarrow> link list" where
  "markdown_links resolve u s = unique_links [] (concat (map (link_of resolve u)
     (map (\<lambda>m. (match_group 1 m, match_group 2 m)) (rx_all inline_link_rx [] s)
      @ map (\<lambda>m. (match_group 1 m, match_group 1 m)) (rx_all autolink_rx [] s))))"

section \<open>Tables\<close>

fun table_cells :: "string \<Rightarrow> bool \<Rightarrow> string \<Rightarrow> string list" where
  "table_cells current escaped [] = [inline_text current]"
| "table_cells current escaped (c # cs) =
     (if escaped then table_cells (current @ [c]) False cs
      else if c = backslash then table_cells current True cs
      else if c = CHR ''|'' then inline_text current # table_cells [] False cs
      else table_cells (current @ [c]) False cs)"

definition outer_bars_rx :: rx where
  "outer_bars_rx = Alt (Seq TextStart (lit ''|'')) (Seq (lit ''|'') TextEnd)"

definition split_table_row :: "string \<Rightarrow> string list" where
  "split_table_row s = table_cells [] False (rx_replace_all outer_bars_rx (\<lambda>_. []) (trim s))"

definition delimiter_cell_rx :: rx where
  "delimiter_cell_rx = seqs [TextStart, maybe (lit '':''), lit ''---'', many (lit ''-''), maybe (lit '':''), TextEnd]"

definition is_table_delimiter :: "string \<Rightarrow> bool" where
  "is_table_delimiter s =
     (let cells = split_table_row s
      in cells \<noteq> [] \<and> list_all (\<lambda>cell. rx_test delimiter_cell_rx (filter (\<lambda>c. \<not> is_ws c) cell)) cells)"

section \<open>Kinds of lines\<close>

definition fence_rx :: rx where
  "fence_rx = seqs [TextStart, upto_rx 3 space,
     Cap 1 (Alt (Seq (lit (replicate 3 back_quote)) (many (lit [back_quote]))) (Seq (lit ''~~~'') (many (lit ''~'')))),
     Cap 2 (many any_char), TextEnd]"

definition is_fence :: "string \<Rightarrow> (string \<times> string) option" where
  "is_fence s = map_option (\<lambda>m. (match_group 1 m, match_group 2 m)) (rx_exec fence_rx s)"

definition heading_rx :: rx where
  "heading_rx = seqs [TextStart, upto_rx 3 space, Cap 1 (Seq (lit ''#'') (upto_rx 5 (lit ''#''))), some_rx space,
     Cap 2 (Seq any_char (Star False any_char)), spaces, many (lit ''#''), spaces, TextEnd]"

definition is_heading_line :: "string \<Rightarrow> (string \<times> string) option" where
  "is_heading_line s = map_option (\<lambda>m. (match_group 1 m, match_group 2 m)) (rx_exec heading_rx s)"

definition list_item_rx :: rx where
  "list_item_rx = seqs [TextStart, Cap 1 spaces, Cap 2 (Alt (one ''-+*'') (Seq (some_rx (Cls is_digit)) (one ''.)''))),
     some_rx space, Cap 3 (some_rx any_char), TextEnd]"

definition is_list_item :: "string \<Rightarrow> (string \<times> string \<times> string) option" where
  "is_list_item s = map_option (\<lambda>m. (match_group 1 m, match_group 2 m, match_group 3 m)) (rx_exec list_item_rx s)"

definition quote_line :: "string \<Rightarrow> bool" where
  "quote_line s = rx_test (seqs [TextStart, spaces, lit ''>'']) s"

definition module_line :: "string \<Rightarrow> bool" where
  "module_line s = rx_test (seqs [TextStart, spaces, words [''import'', ''export''], space]) s"

definition first_text :: "source_line list \<Rightarrow> string" where
  "first_text ls = (case ls of [] \<Rightarrow> [] | l # _ \<Rightarrow> sl_text l)"

definition starts_table :: "source_line list \<Rightarrow> bool" where
  "starts_table ls \<longleftrightarrow> CHR ''|'' \<in> set (first_text ls) \<and> is_table_delimiter (first_text (tl ls))"

definition is_block_start :: "source_line list \<Rightarrow> bool" where
  "is_block_start ls \<longleftrightarrow>
     (let s = first_text ls
      in blank_text s \<or> is_fence s \<noteq> None \<or> is_heading_line s \<noteq> None \<or> is_list_item s \<noteq> None \<or> quote_line s
         \<or> module_line s \<or> starts_table ls)"

section \<open>Front matter\<close>

definition title_line_rx :: rx where
  "title_line_rx = seqs [TextStart, lit_i ''title'', spaces, lit '':'']"

definition outer_quotes_rx :: rx where
  "outer_quotes_rx = Alt (Seq TextStart (one quotes)) (Seq (one quotes) TextEnd)"

definition title_of_lines :: "source_line list \<Rightarrow> string" where
  "title_of_lines ls =
     (case find (rx_test title_line_rx) (map sl_text ls) of
        None \<Rightarrow> []
      | Some line \<Rightarrow> trim (rx_replace_all outer_quotes_rx (\<lambda>_. []) (rx_replace_first (Seq title_line_rx spaces) (\<lambda>_. []) line)))"

definition frontmatter :: "source_line list \<Rightarrow> source_line list \<times> string" where
  "frontmatter ls =
     (let marker = (\<lambda>l. trim (sl_text l) = ''---''); inner = takeWhile (\<lambda>l. \<not> marker l) (tl ls); after = dropWhile (\<lambda>l. \<not> marker l) (tl ls)
      in if ls = [] \<or> \<not> marker (hd ls) \<or> after = [] then (ls, []) else (tl after, title_of_lines inner))"

section \<open>Blocks\<close>

text \<open>A step leaves the title, the blocks and diagnostics it adds, and the lines it has not read.\<close>

type_synonym markdown_step = "string \<times> draft_block list \<times> diagnostic list \<times> source_line list"

definition fence_language_rx :: rx where
  "fence_language_rx = Alt (seqs [TextStart, lit ''{'', maybe (lit ''.'')]) (seqs [lit ''}'', many any_char, TextEnd])"

definition fence_language :: "string \<Rightarrow> string option" where
  "fence_language info = present (Some (takeWhile (\<lambda>c. \<not> is_ws c) (rx_replace_all fence_language_rx (\<lambda>_. []) (trim info))))"

definition closes_fence :: "string \<Rightarrow> string \<Rightarrow> bool" where
  "closes_fence fence s =
     (let marker = (if hd fence = back_quote then back_quote else CHR ''~'')
      in rx_test (seqs [TextStart, upto_rx 3 space, lit (replicate (length fence) marker), many (lit [marker]), spaces, TextEnd]) s)"

definition read_fence :: "string \<Rightarrow> string \<Rightarrow> string \<Rightarrow> source_line \<Rightarrow> source_line list \<Rightarrow> draft_block \<times> source_line list" where
  "read_fence content fence info l ls =
     (let code = takeWhile (\<lambda>k. \<not> closes_fence fence (sl_text k)) ls; after = dropWhile (\<lambda>k. \<not> closes_fence fence (sl_text k)) ls;
          end_at = (case after of k # _ \<Rightarrow> sl_to k | [] \<Rightarrow> sl_to (last (l # ls)))
      in (draft content (sl_from l) end_at (Code (fence_language info) (normalize_code (join [newline] (map sl_text code)))), tl after))"

definition explicit_anchor :: "string \<Rightarrow> string option" where
  "explicit_anchor raw =
     present (Option.bind (rx_exec (seqs [spaces, lit ''{#'', Cap 1 anchor_name_rx, lit ''}'', spaces, TextEnd]) raw) (rx_group 1))"

definition title_from :: "string \<Rightarrow> nat \<Rightarrow> string \<Rightarrow> string" where
  "title_from title level text = (if title = [] \<and> level = 1 then text else title)"

definition read_heading ::
    "string \<Rightarrow> link_resolver \<Rightarrow> string \<Rightarrow> string \<Rightarrow> string \<times> string \<Rightarrow> source_line \<Rightarrow> source_line list \<Rightarrow> markdown_step" where
  "read_heading content resolve u title found l ls =
     (let level = length (fst found); raw = snd found; text = inline_text raw
      in (title_from title level text,
          [draft content (sl_from l) (sl_to l) (Heading level text (explicit_anchor raw) (markdown_links resolve u raw))], [], ls))"

definition underline :: "string \<Rightarrow> bool" where
  "underline s = rx_test (seqs [TextStart, spaces, Alt (some_rx (lit ''='')) (some_rx (lit ''-'')), spaces, TextEnd]) s"

definition read_underlined ::
    "string \<Rightarrow> link_resolver \<Rightarrow> string \<Rightarrow> string \<Rightarrow> source_line \<Rightarrow> source_line list \<Rightarrow> markdown_step" where
  "read_underlined content resolve u title l ls =
     (let text = inline_text (sl_text l); level = (if CHR ''='' \<in> set (first_text ls) then 1 else 2)
      in (title_from title level text,
          [draft content (sl_from l) (sl_to (hd ls)) (Heading level text None (markdown_links resolve u (sl_text l)))], [], tl ls))"

definition table_line :: "source_line \<Rightarrow> bool" where
  "table_line l \<longleftrightarrow> CHR ''|'' \<in> set (sl_text l) \<and> \<not> blank_text (sl_text l)"

definition read_table ::
    "string \<Rightarrow> link_resolver \<Rightarrow> string \<Rightarrow> source_line \<Rightarrow> source_line list \<Rightarrow> draft_block \<times> source_line list" where
  "read_table content resolve u l ls =
     (let rows = takeWhile table_line (tl ls)
      in (draft content (sl_from l) (sl_to (last (hd ls # rows)))
            (Table (split_table_row (sl_text l)) (map (split_table_row \<circ> sl_text) rows)
              (markdown_links resolve u (join [newline] (map sl_text (l # rows))))),
          dropWhile table_line (tl ls)))"

definition leading_space :: "string \<Rightarrow> bool" where
  "leading_space s \<longleftrightarrow> s \<noteq> [] \<and> is_ws (hd s)"

definition continues_item :: "source_line list \<Rightarrow> bool" where
  "continues_item ls \<longleftrightarrow> ls \<noteq> [] \<and> \<not> blank_text (first_text ls) \<and> \<not> is_block_start ls \<and> leading_space (first_text ls)"

text \<open>The lines at the front that satisfy a condition on the lines from there on, and the others.\<close>

fun span_lines :: "(source_line list \<Rightarrow> bool) \<Rightarrow> source_line list \<Rightarrow> source_line list \<times> source_line list" where
  "span_lines p [] = ([], [])"
| "span_lines p (l # ls) = (if p (l # ls) then (case span_lines p ls of (us, vs) \<Rightarrow> (l # us, vs)) else ([], l # ls))"

lemma span_lines_append: "fst (span_lines p ls) @ snd (span_lines p ls) = ls"
  by (induction ls) (auto split: prod.splits)

lemma span_lines_le [simp]: "length (snd (span_lines p ls)) \<le> length ls"
  using span_lines_append [of p ls] by (metis length_append le_add2)

definition ordered_marker :: "string \<Rightarrow> bool" where
  "ordered_marker marker \<longleftrightarrow> marker \<noteq> [] \<and> is_digit (hd marker)"

definition item_depth :: "string \<Rightarrow> nat" where
  "item_depth indent = length (concat (map (\<lambda>c. if c = CHR 0x09 then ''    '' else [c]) indent)) div 2"

definition item_of :: "link_resolver \<Rightarrow> string \<Rightarrow> string \<Rightarrow> string \<Rightarrow> list_item" where
  "item_of resolve u indent raw = \<lparr>it_text = inline_text raw, it_depth = item_depth indent, it_links = markdown_links resolve u raw\<rparr>"

text \<open>The items of a list, the end of the last of them and the lines after it.\<close>

fun read_items ::
    "link_resolver \<Rightarrow> string \<Rightarrow> bool \<Rightarrow> nat \<Rightarrow> source_line list \<Rightarrow> list_item list \<times> nat \<times> source_line list" where
  "read_items resolve u ordered end_at [] = ([], end_at, [])"
| "read_items resolve u ordered end_at (l # ls) =
     (case is_list_item (sl_text l) of
        None \<Rightarrow> ([], end_at, l # ls)
      | Some (indent, marker, raw) \<Rightarrow>
          if ordered_marker marker \<noteq> ordered then ([], end_at, l # ls)
          else
            let more = fst (span_lines continues_item ls); below = snd (span_lines continues_item ls);
                found = read_items resolve u ordered (sl_to (last (l # more))) below
            in (item_of resolve u indent (join '' '' (raw # map (trim \<circ> sl_text) more)) # fst found, snd found))"

definition read_list ::
    "string \<Rightarrow> link_resolver \<Rightarrow> string \<Rightarrow> string \<Rightarrow> source_line \<Rightarrow> source_line list \<Rightarrow> draft_block \<times> source_line list" where
  "read_list content resolve u marker l ls =
     (case read_items resolve u (ordered_marker marker) (sl_to l) (l # ls) of
        (items, end_at, below) \<Rightarrow> (draft content (sl_from l) end_at (Listing (ordered_marker marker) items), below))"

definition unquoted :: "string \<Rightarrow> string" where
  "unquoted s = rx_replace_first (seqs [TextStart, spaces, lit ''>'', maybe space]) (\<lambda>_. []) s"

definition read_quote ::
    "string \<Rightarrow> link_resolver \<Rightarrow> string \<Rightarrow> source_line \<Rightarrow> source_line list \<Rightarrow> draft_block \<times> source_line list" where
  "read_quote content resolve u l ls =
     (let quoted = l # takeWhile (quote_line \<circ> sl_text) ls; joined = join '' '' (map (unquoted \<circ> sl_text) quoted)
      in (draft content (sl_from l) (sl_to (last quoted)) (Quotation (inline_text joined) (markdown_links resolve u joined)),
          dropWhile (quote_line \<circ> sl_text) ls))"

definition mdx_note :: diagnostic where
  "mdx_note = parse_note MdxExecutableSyntaxPreserved Info ''MDX import/export syntax was preserved as inert code and was not executed.''"

definition read_module :: "string \<Rightarrow> source_line \<Rightarrow> source_line list \<Rightarrow> draft_block \<times> source_line list" where
  "read_module content l ls =
     (let block = l # takeWhile (\<lambda>k. \<not> blank_text (sl_text k)) ls
      in (draft content (sl_from l) (sl_to (last block)) (Code (Some ''tsx'') (normalize_code (join [newline] (map sl_text block)))),
          dropWhile (\<lambda>k. \<not> blank_text (sl_text k)) ls))"

definition continues_paragraph :: "source_line list \<Rightarrow> bool" where
  "continues_paragraph ls \<longleftrightarrow> ls \<noteq> [] \<and> \<not> blank_text (first_text ls) \<and> \<not> is_block_start ls"

text \<open>After a paragraph whose text is empty, the code goes one line further.\<close>

definition read_paragraph ::
    "string \<Rightarrow> link_resolver \<Rightarrow> string \<Rightarrow> source_line \<Rightarrow> source_line list \<Rightarrow> draft_block list \<times> source_line list" where
  "read_paragraph content resolve u l ls =
     (let more = fst (span_lines continues_paragraph ls); below = snd (span_lines continues_paragraph ls);
          joined = join '' '' (map (trim \<circ> sl_text) (l # more)); text = inline_text joined
      in if text \<noteq> []
         then ([draft content (sl_from l) (sl_to (last (l # more))) (Paragraph text (markdown_links resolve u joined))], below)
         else ([], tl below))"

definition one_block :: "string \<Rightarrow> diagnostic list \<Rightarrow> draft_block \<times> source_line list \<Rightarrow> markdown_step" where
  "one_block title gs = (\<lambda>(b, below). (title, [b], gs, below))"

definition markdown_step ::
    "string \<Rightarrow> link_resolver \<Rightarrow> string \<Rightarrow> bool \<Rightarrow> string \<Rightarrow> source_line \<Rightarrow> source_line list \<Rightarrow> markdown_step" where
  "markdown_step content resolve u mdx title l ls =
     (let s = sl_text l in
      if blank_text s then (title, [], [], ls)
      else case is_fence s of
        Some (fence, info) \<Rightarrow> one_block title [] (read_fence content fence info l ls)
      | None \<Rightarrow> (case is_heading_line s of
        Some found \<Rightarrow> read_heading content resolve u title found l ls
      | None \<Rightarrow>
        if ls \<noteq> [] \<and> underline (first_text ls) then read_underlined content resolve u title l ls
        else if starts_table (l # ls) then one_block title [] (read_table content resolve u l ls)
        else case is_list_item s of
          Some (indent, marker, raw) \<Rightarrow> one_block title [] (read_list content resolve u marker l ls)
        | None \<Rightarrow>
          if quote_line s then one_block title [] (read_quote content resolve u l ls)
          else if mdx \<and> module_line s then one_block title [mdx_note] (read_module content l ls)
          else (case read_paragraph content resolve u l ls of (bs, below) \<Rightarrow> (title, bs, [], below))))"

section \<open>The document\<close>

text \<open>
  A step reads the lines from the first to some line, and the block it adds, if any, ranges exactly over them.
\<close>

definition spanned :: "string \<Rightarrow> source_line list \<Rightarrow> source_range" where
  "spanned content ls = source_range content (int (sl_from (hd ls))) (int (sl_to (last ls)))"

definition reads :: "string \<Rightarrow> source_line \<Rightarrow> source_line list \<Rightarrow> draft_block \<Rightarrow> source_line list \<Rightarrow> bool" where
  "reads content l ls b below \<longleftrightarrow> (\<exists>us. ls = us @ below \<and> df_range b = spanned content (l # us))"

lemma readsI: "ls = us @ below \<Longrightarrow> df_range b = spanned content (l # us) \<Longrightarrow> reads content l ls b below"
  unfolding reads_def by blast

lemma draft_range: "df_range (draft content (sl_from l) (sl_to k) body) = spanned content us" if "hd us = l" "last us = k"
  using that by (simp add: draft_def spanned_def)

lemma read_fence_reads: "reads content l ls (fst (read_fence content fence info l ls)) (snd (read_fence content fence info l ls))"
proof -
  let ?p = "\<lambda>k. \<not> closes_fence fence (sl_text k)"
  have split: "ls = takeWhile ?p ls @ dropWhile ?p ls" by simp
  show ?thesis
  proof (cases "dropWhile ?p ls")
    case Nil
    show ?thesis
    proof (rule readsI)
      show "ls = ls @ snd (read_fence content fence info l ls)"
        using Nil by (simp add: read_fence_def Let_def del: dropWhile_eq_Nil_conv)
      show "df_range (fst (read_fence content fence info l ls)) = spanned content (l # ls)"
        using Nil unfolding read_fence_def Let_def by (simp add: draft_range del: last.simps dropWhile_eq_Nil_conv)
    qed
  next
    case (Cons k ks)
    show ?thesis
    proof (rule readsI)
      show "ls = (takeWhile ?p ls @ [k]) @ snd (read_fence content fence info l ls)"
        using Cons split by (simp add: read_fence_def Let_def)
      show "df_range (fst (read_fence content fence info l ls)) = spanned content (l # takeWhile ?p ls @ [k])"
        using Cons unfolding read_fence_def Let_def by (simp add: draft_def spanned_def)
    qed
  qed
qed

lemma read_table_reads: "ls \<noteq> [] \<Longrightarrow> reads content l ls (fst (read_table content resolve u l ls)) (snd (read_table content resolve u l ls))"
  by (rule readsI [where us = "hd ls # takeWhile table_line (tl ls)"])
    (simp_all add: read_table_def Let_def draft_def spanned_def)

lemma read_items_reads:
  "\<exists>us. ls = us @ snd (snd (read_items resolve u ordered e ls))
     \<and> fst (snd (read_items resolve u ordered e ls)) = (if us = [] then e else sl_to (last us))"
proof (induction resolve u ordered e ls rule: read_items.induct)
  case (2 resolve u ordered e l ls)
  show ?case
  proof (cases "\<exists>i m r. is_list_item (sl_text l) = Some (i, m, r) \<and> ordered_marker m = ordered")
    case False
    then have "snd (read_items resolve u ordered e (l # ls)) = (e, l # ls)" by (auto split: option.splits)
    then show ?thesis by simp
  next
    case True
    then obtain i m r where item: "is_list_item (sl_text l) = Some (i, m, r)" "ordered_marker m = ordered" by blast
    define more where "more = fst (span_lines continues_item ls)"
    define below where "below = snd (span_lines continues_item ls)"
    have ls: "ls = more @ below" by (simp add: more_def below_def span_lines_append)
    obtain us where us: "below = us @ snd (snd (read_items resolve u ordered (sl_to (last (l # more))) below))"
        "fst (snd (read_items resolve u ordered (sl_to (last (l # more))) below)) = (if us = [] then sl_to (last (l # more)) else sl_to (last us))"
      using 2 [OF item(1) refl refl _ more_def below_def] item(2) by auto
    have "snd (read_items resolve u ordered e (l # ls)) = snd (read_items resolve u ordered (sl_to (last (l # more))) below)"
      using item by (simp add: more_def below_def Let_def)
    moreover have "l # ls = ((l # more) @ us) @ snd (snd (read_items resolve u ordered (sl_to (last (l # more))) below))"
      using us(1) ls by simp
    ultimately show ?thesis using us(2) by (intro exI [of _ "(l # more) @ us"]) auto
  qed
qed simp

lemma read_list_reads:
  assumes "is_list_item (sl_text l) = Some (i, marker, raw)"
  shows "reads content l ls (fst (read_list content resolve u marker l ls)) (snd (read_list content resolve u marker l ls))"
proof -
  let ?f = "read_items resolve u (ordered_marker marker) (sl_to l) (l # ls)"
  obtain us where us: "l # ls = us @ snd (snd ?f)" "fst (snd ?f) = (if us = [] then sl_to l else sl_to (last us))"
    using read_items_reads by blast
  have "length (snd (snd ?f)) \<le> length ls"
  proof -
    let ?more = "fst (span_lines continues_item ls)" and ?below = "snd (span_lines continues_item ls)"
    obtain vs where "?below = vs @ snd (snd (read_items resolve u (ordered_marker marker) (sl_to (last (l # ?more))) ?below))"
      using read_items_reads by blast
    then have "length (snd (snd (read_items resolve u (ordered_marker marker) (sl_to (last (l # ?more))) ?below))) \<le> length ?below"
      by (metis length_append le_add2)
    also have "\<dots> \<le> length ls" by simp
    finally show ?thesis using assms by (simp add: Let_def del: last.simps)
  qed
  then obtain vs where vs: "us = l # vs" "ls = vs @ snd (snd ?f)" using us(1) by (cases us) auto
  show ?thesis
  proof (rule readsI)
    show "ls = vs @ snd (read_list content resolve u marker l ls)"
      using vs(2) by (simp add: read_list_def split_beta del: read_items.simps)
    show "df_range (fst (read_list content resolve u marker l ls)) = spanned content (l # vs)"
      using vs(1) us(2) by (simp add: read_list_def split_beta draft_range del: read_items.simps last.simps)
  qed
qed

lemma read_quote_reads: "reads content l ls (fst (read_quote content resolve u l ls)) (snd (read_quote content resolve u l ls))"
  by (rule readsI [where us = "takeWhile (quote_line \<circ> sl_text) ls"]) (simp_all add: read_quote_def Let_def draft_range del: last.simps)

lemma read_module_reads: "reads content l ls (fst (read_module content l ls)) (snd (read_module content l ls))"
  by (rule readsI [where us = "takeWhile (\<lambda>k. \<not> blank_text (sl_text k)) ls"])
    (simp_all add: read_module_def Let_def draft_range del: last.simps)

text \<open>A paragraph reads the lines that continue it; when its text is empty, one more line is lost.\<close>

definition paragraph_text :: "source_line list \<Rightarrow> string" where
  "paragraph_text ls = inline_text (join '' '' (map (trim \<circ> sl_text) ls))"

lemma read_paragraph_reads:
  "\<exists>us below. ls = us @ below \<and>
     (if paragraph_text (l # us) \<noteq> []
      then (\<exists>b. read_paragraph content resolve u l ls = ([b], below) \<and> df_range b = spanned content (l # us))
      else read_paragraph content resolve u l ls = ([], tl below))"
proof (intro exI conjI)
  show "ls = fst (span_lines continues_paragraph ls) @ snd (span_lines continues_paragraph ls)"
    by (simp add: span_lines_append)
qed (auto simp: read_paragraph_def paragraph_text_def Let_def draft_range simp del: last.simps)

text \<open>
  A step: a blank line, a block over the lines it reads, or a paragraph without text, after which one more
  line is lost.
\<close>

inductive step_kind :: "string \<Rightarrow> source_line \<Rightarrow> source_line list \<Rightarrow> draft_block list \<Rightarrow> source_line list \<Rightarrow> bool" where
  Blank: "blank_text (sl_text l) \<Longrightarrow> step_kind content l ls [] ls"
| Block: "df_range b = spanned content (l # us) \<Longrightarrow> step_kind content l (us @ below) [b] below"
| Textless: "paragraph_text (l # us) = [] \<Longrightarrow> step_kind content l (us @ below) [] (tl below)"

lemma reads_step: "reads content l ls b below \<Longrightarrow> step_kind content l ls [b] below"
  by (auto simp: reads_def intro: step_kind.Block)

lemma paragraph_step: "step_kind content l ls (fst (read_paragraph content resolve u l ls)) (snd (read_paragraph content resolve u l ls))"
proof -
  obtain us below where *: "ls = us @ below"
    "if paragraph_text (l # us) \<noteq> []
      then (\<exists>b. read_paragraph content resolve u l ls = ([b], below) \<and> df_range b = spanned content (l # us))
      else read_paragraph content resolve u l ls = ([], tl below)"
    using read_paragraph_reads by blast
  then show ?thesis by (auto split: if_splits intro: step_kind.intros)
qed

definition step_blocks :: "markdown_step \<Rightarrow> draft_block list" where
  "step_blocks st = fst (snd st)"

definition step_below :: "markdown_step \<Rightarrow> source_line list" where
  "step_below st = snd (snd (snd st))"

lemma heading_step:
  "step_kind content l ls (step_blocks (read_heading content resolve u title found l ls)) (step_below (read_heading content resolve u title found l ls))"
  by (simp add: read_heading_def Let_def step_blocks_def step_below_def reads_step readsI [where us = "[]"] draft_range)

lemma one_block_step:
  "reads content l ls (fst r) (snd r) \<Longrightarrow> step_kind content l ls (step_blocks (one_block title gs r)) (step_below (one_block title gs r))"
  by (simp add: one_block_def split_beta step_blocks_def step_below_def reads_step)

lemma underlined_step:
  "ls \<noteq> [] \<Longrightarrow> step_kind content l ls (step_blocks (read_underlined content resolve u title l ls)) (step_below (read_underlined content resolve u title l ls))"
  by (simp add: read_underlined_def Let_def step_blocks_def step_below_def reads_step readsI [where us = "[hd ls]"] draft_range)

lemma starts_table_next: "starts_table (l # ls) \<Longrightarrow> ls \<noteq> []"
proof
  have "\<not> is_table_delimiter []" by code_simp
  moreover assume "starts_table (l # ls)" "ls = []"
  ultimately show False by (simp add: starts_table_def first_text_def)
qed

definition tiled :: "string \<Rightarrow> source_line \<Rightarrow> source_line list \<Rightarrow> markdown_step \<Rightarrow> bool" where
  "tiled content l ls st \<longleftrightarrow> step_kind content l ls (step_blocks st) (step_below st)"

lemma tiled_paragraph:
  "tiled content l ls (case read_paragraph content resolve u l ls of (bs, below) \<Rightarrow> (title, bs, [], below))"
  using paragraph_step [of content l ls resolve u] by (simp add: tiled_def split_beta step_blocks_def step_below_def)

lemma tiled_blank: "blank_text (sl_text l) \<Longrightarrow> tiled content l ls (title, [], [], ls)"
  by (simp add: tiled_def step_blocks_def step_below_def step_kind.Blank)

lemmas tiled_readers = tiled_paragraph tiled_blank one_block_step [OF read_fence_reads, folded tiled_def] heading_step [folded tiled_def]
  underlined_step [folded tiled_def] one_block_step [OF read_table_reads, folded tiled_def]
  one_block_step [OF read_list_reads, folded tiled_def] one_block_step [OF read_quote_reads, folded tiled_def]
  one_block_step [OF read_module_reads, folded tiled_def]

lemma tiled_if: "(c \<Longrightarrow> tiled content l ls a) \<Longrightarrow> (\<not> c \<Longrightarrow> tiled content l ls b) \<Longrightarrow> tiled content l ls (if c then a else b)"
  by simp

lemma tiled_option:
  "(x = None \<Longrightarrow> tiled content l ls a) \<Longrightarrow> (\<And>y. x = Some y \<Longrightarrow> tiled content l ls (f y))
     \<Longrightarrow> tiled content l ls (case x of None \<Rightarrow> a | Some y \<Rightarrow> f y)"
  by (cases x) simp_all

lemma tiled_prod:
  "(\<And>a b. x = (a, b) \<Longrightarrow> tiled content l ls (f a b)) \<Longrightarrow> tiled content l ls (case x of (a, b) \<Rightarrow> f a b)"
  by (cases x) simp_all

lemma markdown_step_tiled: "tiled content l ls (markdown_step content resolve u mdx title l ls)"
  unfolding markdown_step_def Let_def
  by (rule tiled_if tiled_option tiled_readers tiled_prod | assumption | erule starts_table_next | drule conjunct1 | simp)+

lemmas markdown_step_kind = markdown_step_tiled [unfolded tiled_def]

lemma step_kind_shorter: "step_kind content l ls bs below \<Longrightarrow> length below \<le> length ls"
  by (induction rule: step_kind.induct) auto

lemma markdown_step_shorter [simp]: "length (step_below (markdown_step content resolve u mdx title l ls)) \<le> length ls"
  by (rule step_kind_shorter [OF markdown_step_kind])

function markdown_loop ::
    "string \<Rightarrow> link_resolver \<Rightarrow> string \<Rightarrow> bool \<Rightarrow> string \<Rightarrow> source_line list \<Rightarrow> string \<times> draft_block list \<times> diagnostic list" where
  "markdown_loop content resolve u mdx title [] = (title, [], [])"
| "markdown_loop content resolve u mdx title (l # ls) =
     (let step = markdown_step content resolve u mdx title l ls;
          more = markdown_loop content resolve u mdx (fst step) (step_below step)
      in (fst more, step_blocks step @ fst (snd more), fst (snd (snd step)) @ snd (snd more)))"
  by pat_completeness auto
termination
  by (relation "measure (\<lambda>(content, resolve, u, mdx, title, ls). length ls)") (simp_all add: less_Suc_eq_le)

definition parse_markdown :: "link_resolver \<Rightarrow> string \<Rightarrow> string \<Rightarrow> bool \<Rightarrow> parse_result" where
  "parse_markdown resolve content u mdx =
     (let meta = frontmatter (source_lines content); found = markdown_loop content resolve u mdx (snd meta) (fst meta)
      in \<lparr>pr_title = fst found, pr_blocks = fst (snd found), pr_diagnostics = snd (snd found)\<rparr>)"

section \<open>Every line counts\<close>

lemma spanned_within:
  assumes "chained n us" "us \<noteq> []" "n \<le> length content"
  shows "sr_start (spanned content us) = int (sl_from (hd us))" "sr_end (spanned content us) = int (sl_to (last us))"
    "sl_from (hd us) < sl_to (last us)" "sl_to (last us) \<le> n"
proof -
  obtain l ls where us: "us = l # ls" using assms(2) by (cases us) auto
  have last: "sl_to (last us) \<le> n" "sl_from (last us) < sl_to (last us)"
    using assms by (auto simp: chained_def)
  moreover have le: "sl_from (hd us) < sl_to (last us)"
  proof (cases ls)
    case (Cons k ks)
    then have "last us \<in> set ls" using us by simp
    then have "sl_to l \<le> sl_from (last us)" "sl_from l < sl_to l" using assms(1) us by (auto simp: chained_Cons)
    then show ?thesis using last(2) us by simp
  qed (use us last in simp)
  ultimately show "sr_start (spanned content us) = int (sl_from (hd us))" "sr_end (spanned content us) = int (sl_to (last us))"
    "sl_from (hd us) < sl_to (last us)" "sl_to (last us) \<le> n"
    using assms(3) by (auto simp: spanned_def source_range_def)
qed

lemma chained_drop: "chained n (us @ vs) \<Longrightarrow> chained n vs"
  by (simp add: chained_append)

lemma set_tl_subset: "set (tl xs) \<subseteq> set xs"
  by (cases xs) auto

lemma chained_tl: "chained n ls \<Longrightarrow> chained n (tl ls)"
  by (cases ls) (simp_all add: chained_Cons)

lemma markdown_loop_laid_out:
  "chained (length content) ls \<Longrightarrow> \<forall>l\<in>set ls. start \<le> sl_from l \<Longrightarrow>
     laid_out start (length content) (fst (snd (markdown_loop content resolve u mdx title ls)))"
proof (induction content resolve u mdx title ls arbitrary: start rule: markdown_loop.induct)
  case (2 content resolve u mdx title l ls)
  define step where "step = markdown_step content resolve u mdx title l ls"
  define more where "more = markdown_loop content resolve u mdx (fst step) (step_below step)"
  have eq: "fst (snd (markdown_loop content resolve u mdx title (l # ls))) = step_blocks step @ fst (snd more)"
    by (simp add: step_def more_def Let_def)
  have IH: "laid_out s (length content) (fst (snd more))"
    if "chained (length content) (step_below step)" "\<forall>k\<in>set (step_below step). s \<le> sl_from k" for s
    using 2(1) [OF step_def that] by (simp add: more_def)
  have "step_kind content l ls (step_blocks step) (step_below step)"
    unfolding step_def by (rule markdown_step_kind)
  then show ?case unfolding eq
  proof (cases rule: step_kind.cases)
    case Blank
    then show "laid_out start (length content) (step_blocks step @ fst (snd more))"
      using IH [of start] 2(2,3) by (simp add: chained_Cons)
  next
    case (Block b us)
    have ch: "chained (length content) ((l # us) @ step_below step)" using 2(2) Block by simp
    then have "chained (length content) (l # us)" "chained (length content) (step_below step)"
      and after: "\<forall>k\<in>set (step_below step). sl_to (last (l # us)) \<le> sl_from k"
      using last_in_set [of "l # us"] by (auto simp only: chained_append list.distinct)
    note w = spanned_within [OF this(1), of content, simplified]
    show "laid_out start (length content) (step_blocks step @ fst (snd more))"
      using Block(2,3) w 2(3) IH [OF \<open>chained _ (step_below step)\<close> after] by (simp del: last.simps) (rule laid_out_Cons [where e = "sl_to (last (l # us))"]; simp)
  next
    case (Textless us below)
    have "chained (length content) (step_below step)" "\<forall>k\<in>set (step_below step). start \<le> sl_from k"
      using 2(2,3) Textless by (auto simp: chained_Cons chained_append chained_tl dest: subsetD [OF set_tl_subset])
    then show "laid_out start (length content) (step_blocks step @ fst (snd more))"
      using IH [of start] Textless by simp
  qed
qed simp

lemma frontmatter_suffix: "\<exists>us. ls = us @ fst (frontmatter ls)"
proof (cases "frontmatter ls = (ls, [])")
  case True
  then show ?thesis by (intro exI [of _ "[]"]) simp
next
  case False
  let ?m = "\<lambda>l. trim (sl_text l) \<noteq> ''---''"
  from False have ne: "ls \<noteq> []" "dropWhile ?m (tl ls) \<noteq> []"
    and fm: "fst (frontmatter ls) = tl (dropWhile ?m (tl ls))"
    by (auto simp: frontmatter_def Let_def split: if_splits)
  have "ls = hd ls # takeWhile ?m (tl ls) @ dropWhile ?m (tl ls)" using ne by simp
  also have "\<dots> = (hd ls # takeWhile ?m (tl ls) @ [hd (dropWhile ?m (tl ls))]) @ tl (dropWhile ?m (tl ls))"
    using ne by simp
  finally show ?thesis using fm by metis
qed

text \<open>
  Property C27. The blocks of a Markdown source stand in the order of the source: each ranges over a part of it
  that is not empty and lies within it, and no two of them overlap.
\<close>

theorem markdown_blocks_laid_out: "laid_out 0 (length content) (pr_blocks (parse_markdown resolve content u mdx))"
proof -
  obtain us where "source_lines content = us @ fst (frontmatter (source_lines content))"
    using frontmatter_suffix by blast
  then have "chained (length content) (fst (frontmatter (source_lines content)))"
    using source_lines_chained [of content] chained_drop by metis
  then show ?thesis by (simp add: parse_markdown_def Let_def markdown_loop_laid_out)
qed

lemma crlf_lines_lost:
  "parse_markdown resolve (''# Title'' @ [CHR 0x0D, newline] @ ''Text.'' @ [CHR 0x0D, newline]) u mdx = \<lparr>pr_title = [], pr_blocks = [], pr_diagnostics = []\<rparr>"
  by code_simp

lemma heading_after_markup_lost:
  "pr_blocks (parse_markdown resolve (''<br>'' @ [newline] @ ''# Setup'') u False) = []"
  by code_simp

end
