(* ===== verification/Yaml.thy ===== *)
theory Yaml
  imports OpenApi Markdown
begin

text \<open>
  The reader of the YAML subset in \<^verbatim>\<open>structured.ts\<close>: tokens of lines, scalars, and the recursive descent by
  indentation. A thrown \<^verbatim>\<open>Error\<close> is \<open>Inl\<close> of its message. \<^verbatim>\<open>JSON.parse\<close> is an argument, \<open>None\<close> where it throws.
  An assignment to the member \<^verbatim>\<open>__proto__\<close> of an object makes no own member; prototypes are not modelled.
\<close>

section \<open>Comments and keys\<close>

text \<open>The arguments are whether a quote is open, whether the last character escapes, and the last character.\<close>

fun uncommented :: "bool \<Rightarrow> bool \<Rightarrow> bool \<Rightarrow> char option \<Rightarrow> string \<Rightarrow> string" where
  "uncommented single double escaped prior [] = []"
| "uncommented single double escaped prior (c # cs) =
     (if escaped then c # uncommented single double False (Some c) cs
      else if c = backslash \<and> double then c # uncommented single double True (Some c) cs
      else if c = CHR 0x27 \<and> \<not> double then c # uncommented (\<not> single) double False (Some c) cs
      else if c = CHR 0x22 \<and> \<not> single then c # uncommented single (\<not> double) False (Some c) cs
      else if c = CHR ''#'' \<and> \<not> single \<and> \<not> double \<and> (case prior of None \<Rightarrow> True | Some b \<Rightarrow> is_ws b) then []
      else c # uncommented single double False (Some c) cs)"

definition strip_yaml_comment :: "string \<Rightarrow> string" where
  "strip_yaml_comment s = trim_end (uncommented False False False None s)"

text \<open>The text before the colon (reversed while it is read) and after it.\<close>

fun split_at_colon :: "bool \<Rightarrow> bool \<Rightarrow> int \<Rightarrow> int \<Rightarrow> string \<Rightarrow> string \<Rightarrow> (string \<times> string) option" where
  "split_at_colon single double square curly prior [] = None"
| "split_at_colon single double square curly prior (c # cs) =
     (if c = CHR 0x27 \<and> \<not> double then split_at_colon (\<not> single) double square curly (c # prior) cs
      else if c = CHR 0x22 \<and> \<not> single \<and> \<not> head_is (\<lambda>b. b = backslash) prior
        then split_at_colon single (\<not> double) square curly (c # prior) cs
      else if single \<or> double then split_at_colon single double square curly (c # prior) cs
      else if c = CHR ''['' then split_at_colon single double (square + 1) curly (c # prior) cs
      else if c = CHR '']'' then split_at_colon single double (square - 1) curly (c # prior) cs
      else if c = CHR ''{'' then split_at_colon single double square (curly + 1) (c # prior) cs
      else if c = CHR ''}'' then split_at_colon single double square (curly - 1) (c # prior) cs
      else if c = CHR '':'' \<and> square = 0 \<and> curly = 0 \<and> (cs = [] \<or> is_ws (hd cs)) then Some (rev prior, cs)
      else split_at_colon single double square curly (c # prior) cs)"

definition key_value :: "string \<Rightarrow> (string \<times> string) option" where
  "key_value s = (case split_at_colon False False 0 0 [] s of
     None \<Rightarrow> None
   | Some (k, v) \<Rightarrow> if trim k = [] then None else Some (rx_replace_all outer_quotes_rx (\<lambda>_. []) (trim k), trim v))"

section \<open>Tokens\<close>

record yaml_token =
  yt_indent :: nat
  yt_sequence :: bool
  yt_key :: "string option"
  yt_value :: "string option"
  yt_literal :: bool
  yt_start :: nat
  yt_end :: nat

definition comment_line_rx :: rx where
  "comment_line_rx = seqs [TextStart, spaces, lit ''#'']"

definition marker_line_rx :: rx where
  "marker_line_rx = seqs [TextStart, spaces, words [''---'', ''...''], spaces, TextEnd]"

definition tab_indent_rx :: rx where
  "tab_indent_rx = seqs [TextStart, spaces, lit [CHR 0x09]]"

definition skipped_line :: "string \<Rightarrow> bool" where
  "skipped_line s \<longleftrightarrow> blank_text s \<or> rx_test comment_line_rx s \<or> rx_test marker_line_rx s"

definition leading_spaces :: "string \<Rightarrow> nat" where
  "leading_spaces s = length (takeWhile (\<lambda>c. c = CHR '' '') s)"

definition item_rx :: rx where
  "item_rx = seqs [TextStart, lit ''-'', spaces, many any_char, TextEnd]"

definition dash_rx :: rx where
  "dash_rx = seqs [TextStart, lit ''-'', spaces]"

definition literal_rx :: rx where
  "literal_rx = seqs [TextStart, one ''|>'', maybe (one ''+-''), TextEnd]"

text \<open>The lines of a block scalar: blank ones and those indented more than its key.\<close>

definition in_literal :: "nat \<Rightarrow> source_line \<Rightarrow> bool" where
  "in_literal indent l \<longleftrightarrow> blank_text (sl_text l) \<or> indent < leading_spaces (sl_text l)"

definition literal_indent :: "nat \<Rightarrow> source_line list \<Rightarrow> nat" where
  "literal_indent indent ls =
     (let indents = map (\<lambda>l. leading_spaces (sl_text l)) (filter (\<lambda>l. \<not> blank_text (sl_text l)) ls)
      in if indents = [] then indent + 1 else foldr min (tl indents) (hd indents))"

definition literal_text :: "string \<Rightarrow> nat \<Rightarrow> source_line list \<Rightarrow> string" where
  "literal_text marker indent ls =
     (let values = map (\<lambda>l. drop (literal_indent indent ls) (sl_text l)) ls
      in if starts_with marker ''>'' then normalize_prose (join '' '' values) else normalize_code (join [newline] values))"

definition last_end :: "source_line \<Rightarrow> source_line list \<Rightarrow> nat" where
  "last_end l ls = sl_to (last (l # ls))"

definition read_token :: "source_line \<Rightarrow> source_line list \<Rightarrow> yaml_token \<times> source_line list" where
  "read_token line below =
     (let indent = leading_spaces (sl_text line);
          whole = strip_yaml_comment (drop indent (sl_text line));
          sequence = rx_test item_rx whole;
          entry = (if sequence then rx_replace_first dash_rx (\<lambda>_. []) whole else whole);
          raw = (case key_value entry of None \<Rightarrow> entry | Some (k, v) \<Rightarrow> v);
          literal = rx_test literal_rx raw;
          held = (if literal then takeWhile (in_literal indent) below else [])
      in (\<lparr>yt_indent = indent, yt_sequence = sequence, yt_key = map_option fst (key_value entry),
           yt_value = (if literal then Some (literal_text raw indent held) else present (Some raw)),
           yt_literal = literal, yt_start = sl_from line, yt_end = last_end line held\<rparr>,
          drop (length held) below))"

function yaml_tokens_of :: "source_line list \<Rightarrow> string + yaml_token list" where
  "yaml_tokens_of [] = Inr []"
| "yaml_tokens_of (line # below) =
     (if skipped_line (sl_text line) then yaml_tokens_of below
      else if rx_test tab_indent_rx (sl_text line) then Inl ''YAML indentation must use spaces.''
      else bind_result (yaml_tokens_of (snd (read_token line below)))
             (\<lambda>ts. Inr (fst (read_token line below) # ts)))"
  by pat_completeness auto
termination
  by (relation "measure length") (auto simp: read_token_def Let_def)

definition yaml_tokens :: "string \<Rightarrow> string + yaml_token list" where
  "yaml_tokens content = yaml_tokens_of (source_lines content)"

section \<open>Scalars\<close>

definition null_rx :: rx where
  "null_rx = seqs [TextStart, Alt (lit_i ''null'') (lit ''~''), TextEnd]"

definition boolean_rx :: rx where
  "boolean_rx = seqs [TextStart, words_i [''true'', ''false''], TextEnd]"

definition number_rx :: rx where
  "number_rx = seqs [TextStart, maybe (lit ''-''), Alt (lit ''0'') (Seq (Cls (char_in 49 57)) (many (Cls is_digit))),
     maybe (Seq (lit ''.'') (some_rx (Cls is_digit))),
     maybe (seqs [lit_i ''e'', maybe (one ''+-''), some_rx (Cls is_digit)]), TextEnd]"

definition digit_of :: "nat \<Rightarrow> digit" where
  "digit_of n = [D0, D1, D2, D3, D4, D5, D6, D7, D8, D9] ! (n mod 10)"

fun fraction_digits :: "nat \<Rightarrow> nat \<Rightarrow> digit list" where
  "fraction_digits 0 n = []"
| "fraction_digits (Suc k) n = fraction_digits k (n div 10) @ [digit_of n]"

text \<open>A number that is not whole, from its digits and the power of ten of the last one.\<close>

definition decimal_value :: "string \<Rightarrow> json" where
  "decimal_value s =
     (let negative = starts_with s ''-''; unsigned = (if negative then tl s else s);
          mantissa = takeWhile (\<lambda>c. c \<notin> set ''eE'') unsigned; tail = dropWhile (\<lambda>c. c \<notin> set ''eE'') unsigned;
          digits = filter (\<lambda>c. c \<noteq> CHR ''.'') mantissa;
          places = length (drop 1 (dropWhile (\<lambda>c. c \<noteq> CHR ''.'') mantissa));
          k = nat (int places - (if tail = [] then 0 else nullish (exponent_value (tl tail)) 0));
          n = nat_of_digits digits
      in JDec negative (n div 10 ^ k) (rev (dropWhile (\<lambda>d. d = D0) (rev (fraction_digits k (n mod 10 ^ k))))))"

definition yaml_number :: "string \<Rightarrow> json" where
  "yaml_number s = (case js_number s of Some i \<Rightarrow> JNum i | None \<Rightarrow> decimal_value s)"

fun single_quoted :: "string \<Rightarrow> string" where
  "single_quoted (a # b # cs) =
     (if a = CHR 0x27 \<and> b = CHR 0x27 then CHR 0x27 # single_quoted cs else a # single_quoted (b # cs))"
| "single_quoted s = s"

definition enclosed :: "string \<Rightarrow> string \<Rightarrow> string \<Rightarrow> bool" where
  "enclosed opening closing s \<longleftrightarrow> starts_with s opening \<and> ends_with s closing"

definition inner :: "string \<Rightarrow> string" where
  "inner s = butlast (tl s)"

lemma split_on_length: "item \<in> set (split_on d s) \<Longrightarrow> length item \<le> length s"
proof (induction s arbitrary: item)
  case Nil
  then show ?case by simp
next
  case (Cons c cs)
  obtain q qs where "split_on d cs = q # qs" by (cases "split_on d cs") auto
  with Cons show ?case by (fastforce split: if_splits)
qed

function yaml_scalar :: "(string \<Rightarrow> json option) \<Rightarrow> string \<Rightarrow> json" where
  "yaml_scalar json_parse raw =
     (let v = trim raw
      in if rx_test null_rx v then JNull
         else if rx_test boolean_rx v then JBool (to_lower v = ''true'')
         else if rx_test number_rx v then yaml_number v
         else if enclosed [CHR 0x22] [CHR 0x22] v then nullish (json_parse v) (JStr (inner v))
         else if enclosed [CHR 0x27] [CHR 0x27] v then JStr (single_quoted (inner v))
         else if enclosed ''['' '']'' v
           then (case json_parse v of
               Some w \<Rightarrow> w
             | None \<Rightarrow> JArr (map (\<lambda>item. yaml_scalar json_parse (trim item)) (split_on (CHR '','') (inner v))))
         else if enclosed ''{'' ''}'' v then nullish (json_parse v) (JStr v)
         else JStr v)"
  by pat_completeness auto
termination
proof (relation "measure (\<lambda>(p, raw). length raw)", goal_cases)
  case (2 p raw v item)
  then have "v \<noteq> []" by (auto simp: enclosed_def ends_with_def)
  moreover have "length (trim item) \<le> length (inner v)"
    using 2 split_on_length length_trim_le le_trans by blast
  moreover have "length (inner v) < length v" using \<open>v \<noteq> []\<close> by (cases v) (auto simp: inner_def)
  moreover have "length v \<le> length raw" using 2 length_trim_le by blast
  ultimately show ?case by simp
qed simp

declare yaml_scalar.simps [simp del] yaml_tokens_of.simps [simp del]

section \<open>The descent\<close>

definition token_value :: "(string \<Rightarrow> json option) \<Rightarrow> yaml_token \<Rightarrow> string \<Rightarrow> json" where
  "token_value json_parse t raw = (if yt_literal t then JStr raw else yaml_scalar json_parse raw)"

definition deeper :: "nat \<Rightarrow> yaml_token list \<Rightarrow> bool" where
  "deeper indent ts \<longleftrightarrow> ts \<noteq> [] \<and> indent < yt_indent (hd ts)"

definition assign :: "string \<Rightarrow> json \<Rightarrow> json_object \<Rightarrow> json_object" where
  "assign k v obj = (if k = ''__proto__'' then obj else jm_set k v obj)"

text \<open>\<^verbatim>\<open>Object.assign\<close> for a mapping, the member \<^verbatim>\<open>value\<close> for anything else.\<close>

fun extend_item :: "json \<Rightarrow> json_object \<Rightarrow> json_object" where
  "extend_item (JObj kvs) obj = foldl (\<lambda>o' kv. assign (fst kv) (snd kv) o') obj kvs"
| "extend_item v obj = assign ''value'' v obj"

type_synonym 'a reading = "string + 'a \<times> yaml_token list"

lemma bind_result_cong [fundef_cong]:
  "r = r' \<Longrightarrow> (\<And>a. r' = Inr a \<Longrightarrow> f a = g a) \<Longrightarrow> bind_result r f = bind_result r' g"
  by (cases r') auto

function parse_block :: "(string \<Rightarrow> json option) \<Rightarrow> nat \<Rightarrow> yaml_token list \<Rightarrow> json reading"
  and parse_sequence :: "(string \<Rightarrow> json option) \<Rightarrow> nat \<Rightarrow> yaml_token list \<Rightarrow> json list reading"
  and parse_item :: "(string \<Rightarrow> json option) \<Rightarrow> nat \<Rightarrow> yaml_token \<Rightarrow> yaml_token list \<Rightarrow> json list reading"
  and parse_field :: "(string \<Rightarrow> json option) \<Rightarrow> nat \<Rightarrow> yaml_token \<Rightarrow> yaml_token list \<Rightarrow> json reading"
  and parse_mapping :: "(string \<Rightarrow> json option) \<Rightarrow> nat \<Rightarrow> json_object \<Rightarrow> yaml_token list \<Rightarrow> json reading"
where
  "parse_block json_parse indent ts =
     (if ts \<noteq> [] \<and> yt_sequence (hd ts)
      then bind_result (parse_sequence json_parse indent ts) (\<lambda>(vs, below). Inr (JArr vs, below))
      else parse_mapping json_parse indent [] ts)"
| "parse_sequence json_parse indent [] = Inr ([], [])"
| "parse_sequence json_parse indent (t # ts) =
     (if yt_indent t \<noteq> indent \<or> \<not> yt_sequence t then Inr ([], t # ts)
      else bind_result (parse_item json_parse indent t ts)
        (\<lambda>(vs, below). bind_result (parse_sequence json_parse indent below)
          (\<lambda>(ws, below'). Inr (vs @ ws, below'))))"
| "parse_item json_parse indent t ts =
     (case yt_key t of
        Some k \<Rightarrow> bind_result (parse_field json_parse indent t ts)
          (\<lambda>(v, below). if deeper indent below
             then bind_result (parse_block json_parse (yt_indent (hd below)) below)
               (\<lambda>(w, below'). Inr ([JObj (own_order (extend_item w (assign k v [])))], below'))
             else Inr ([JObj (assign k v [])], below))
      | None \<Rightarrow> (case yt_value t of
          Some raw \<Rightarrow> if deeper indent ts
            then bind_result (parse_block json_parse (yt_indent (hd ts)) ts)
              (\<lambda>(w, below). Inr ([token_value json_parse t raw, w], below))
            else Inr ([token_value json_parse t raw], ts)
        | None \<Rightarrow> if deeper indent ts
            then bind_result (parse_block json_parse (yt_indent (hd ts)) ts) (\<lambda>(w, below). Inr ([w], below))
            else Inr ([JNull], ts)))"
| "parse_field json_parse indent t ts =
     (case yt_value t of
        Some raw \<Rightarrow> Inr (token_value json_parse t raw, ts)
      | None \<Rightarrow> if deeper indent ts then parse_block json_parse (yt_indent (hd ts)) ts else Inr (JNull, ts))"
| "parse_mapping json_parse indent obj [] = Inr (JObj (own_order obj), [])"
| "parse_mapping json_parse indent obj (t # ts) =
     (if yt_indent t \<noteq> indent \<or> yt_sequence t then Inr (JObj (own_order obj), t # ts)
      else (case yt_key t of
          None \<Rightarrow> Inl ''Expected a YAML mapping key.''
        | Some k \<Rightarrow> bind_result (parse_field json_parse indent t ts)
            (\<lambda>(v, below). parse_mapping json_parse indent (assign k v obj) below)))"
  by pat_completeness auto

text \<open>What is left of the tokens is never longer than what was there, which is why the descent ends.\<close>

lemma reading_shrinks:
  "parse_block_parse_sequence_parse_item_parse_field_parse_mapping_dom (Inl (Inl (json_parse, indent, ts))) \<Longrightarrow> parse_block json_parse indent ts = Inr (v, below) \<Longrightarrow> length below \<le> length ts"
  "parse_block_parse_sequence_parse_item_parse_field_parse_mapping_dom (Inl (Inr (json_parse, indent, ts))) \<Longrightarrow> parse_sequence json_parse indent ts = Inr (vs, below) \<Longrightarrow> length below \<le> length ts"
  "parse_block_parse_sequence_parse_item_parse_field_parse_mapping_dom (Inr (Inl (json_parse, indent, t, ts))) \<Longrightarrow> parse_item json_parse indent t ts = Inr (vs, below) \<Longrightarrow> length below \<le> length ts"
  "parse_block_parse_sequence_parse_item_parse_field_parse_mapping_dom (Inr (Inr (Inl (json_parse, indent, t, ts)))) \<Longrightarrow> parse_field json_parse indent t ts = Inr (v, below) \<Longrightarrow> length below \<le> length ts"
  "parse_block_parse_sequence_parse_item_parse_field_parse_mapping_dom (Inr (Inr (Inr (json_parse, indent, obj, ts)))) \<Longrightarrow> parse_mapping json_parse indent obj ts = Inr (v, below) \<Longrightarrow> length below \<le> length ts"
proof (induction json_parse indent ts and json_parse indent ts and json_parse indent t ts and json_parse indent t ts and json_parse indent obj ts
    arbitrary: v below and vs below and vs below and v below and v below rule: parse_block_parse_sequence_parse_item_parse_field_parse_mapping.pinduct)
  case (1 p indent ts)
  then show ?case by (auto simp: parse_block.psimps parse_sequence.psimps parse_item.psimps parse_field.psimps parse_mapping.psimps split: if_splits)
next
  case (2 p indent)
  then show ?case by (simp add: parse_block.psimps parse_sequence.psimps parse_item.psimps parse_field.psimps parse_mapping.psimps)
next
  case (3 p indent t ts)
  then show ?case by (fastforce simp: parse_block.psimps parse_sequence.psimps parse_item.psimps parse_field.psimps parse_mapping.psimps split: if_splits)
next
  case (4 p indent t ts)
  then show ?case by (fastforce simp: parse_block.psimps parse_sequence.psimps parse_item.psimps parse_field.psimps parse_mapping.psimps split: if_splits option.splits)
next
  case (5 p indent t ts)
  then show ?case by (auto simp: parse_block.psimps parse_sequence.psimps parse_item.psimps parse_field.psimps parse_mapping.psimps split: if_splits option.splits)
next
  case (6 p indent obj)
  then show ?case by (simp add: parse_block.psimps parse_sequence.psimps parse_item.psimps parse_field.psimps parse_mapping.psimps)
next
  case (7 p indent obj t ts)
  then show ?case by (fastforce simp: parse_block.psimps parse_sequence.psimps parse_item.psimps parse_field.psimps parse_mapping.psimps split: if_splits option.splits)
qed


fun reading_size :: "((('p \<times> nat \<times> yaml_token list) + ('p \<times> nat \<times> yaml_token list))
    + (('p \<times> nat \<times> yaml_token \<times> yaml_token list) + (('p \<times> nat \<times> yaml_token \<times> yaml_token list)
       + ('p \<times> nat \<times> 'o \<times> yaml_token list)))) \<Rightarrow> nat \<times> nat" where
  "reading_size (Inl (Inl (p, indent, ts))) = (length ts, 1)"
| "reading_size (Inl (Inr (p, indent, ts))) = (length ts, 0)"
| "reading_size (Inr (Inl (p, indent, t, ts))) = (length ts, 3)"
| "reading_size (Inr (Inr (Inl (p, indent, t, ts)))) = (length ts, 2)"
| "reading_size (Inr (Inr (Inr (p, indent, obj, ts)))) = (length ts, 0)"

termination parse_block
  by (relation "inv_image (less_than <*lex*> less_than) reading_size") (auto dest!: reading_shrinks)


declare parse_block.simps [simp del] parse_item.simps [simp del] parse_field.simps [simp del]

definition parse_yaml :: "(string \<Rightarrow> json option) \<Rightarrow> string \<Rightarrow> string + json" where
  "parse_yaml json_parse content =
     bind_result (yaml_tokens content) (\<lambda>ts.
       if ts = [] then Inr (JObj [])
       else bind_result (parse_block json_parse (yt_indent (hd ts)) ts) (\<lambda>(v, below).
         if below \<noteq> [] then Inl ''YAML structure contains inconsistent indentation.'' else Inr v))"

definition parse_structured_value :: "(string \<Rightarrow> json option) \<Rightarrow> string \<Rightarrow> bool \<Rightarrow> string + json" where
  "parse_structured_value json_parse content is_json =
     (if is_json then (case json_parse content of Some v \<Rightarrow> Inr v | None \<Rightarrow> Inl ''SyntaxError'')
      else parse_yaml json_parse content)"

end
