(* ===== verification/YamlLayout.thy ===== *)
theory YamlLayout
  imports Yaml
begin

text \<open>
  What the descent of Yaml means: a grammar of token lists, as an inductive relation between an indentation, a
  node and its tokens, and the theorem that the descent reads every token list of the grammar as the value
  of its node and stops at the first token that is not indented further.
\<close>

section \<open>Nodes and their layouts\<close>

datatype yaml_node =
    Leaf bool string
  | Blank
  | Items "yaml_node list"
  | Fields "(string \<times> yaml_node) list"

fun node_value :: "(string \<Rightarrow> json option) \<Rightarrow> yaml_node \<Rightarrow> json" where
  "node_value json_parse (Leaf literal raw) = (if literal then JStr raw else yaml_scalar json_parse raw)"
| "node_value json_parse Blank = JNull"
| "node_value json_parse (Items ns) = JArr (map (node_value json_parse) ns)"
| "node_value json_parse (Fields kns) = JObj (own_order (map (\<lambda>(k, n). (k, node_value json_parse n)) kns))"

text \<open>
  A block sequence or mapping stands at one indentation; a field has its value on its line, none at all, or
  a deeper block below it; an item may start with the first field of a mapping whose other fields are
  deeper than the item, and less deep than what belongs to the first field.
\<close>

definition is_field :: "nat \<Rightarrow> bool \<Rightarrow> yaml_token \<Rightarrow> string option \<Rightarrow> bool" where
  "is_field indent sequence t k \<longleftrightarrow>
     yt_indent t = indent \<and> yt_sequence t = sequence \<and> yt_key t = k \<and> k \<noteq> Some ''__proto__''"

definition below_first :: "nat \<Rightarrow> yaml_token \<Rightarrow> yaml_token list \<Rightarrow> bool" where
  "below_first j t ts \<longleftrightarrow> (if yt_value t = None then ts \<noteq> [] \<and> j < yt_indent (hd ts) else True)"

inductive block_at :: "nat \<Rightarrow> yaml_node \<Rightarrow> yaml_token list \<Rightarrow> bool"
  and items_at :: "nat \<Rightarrow> yaml_node list \<Rightarrow> yaml_token list \<Rightarrow> bool"
  and item_at :: "nat \<Rightarrow> yaml_node \<Rightarrow> yaml_token list \<Rightarrow> bool"
  and fields_at :: "nat \<Rightarrow> (string \<times> yaml_node) list \<Rightarrow> yaml_token list \<Rightarrow> bool"
  and field_at :: "nat \<Rightarrow> yaml_token \<Rightarrow> yaml_node \<Rightarrow> yaml_token list \<Rightarrow> bool"
where
  block_items: "items_at i ns ts \<Longrightarrow> ns \<noteq> [] \<Longrightarrow> block_at i (Items ns) ts"
| block_fields: "fields_at i kns ts \<Longrightarrow> kns \<noteq> [] \<Longrightarrow> distinct (map fst kns) \<Longrightarrow> block_at i (Fields kns) ts"
| no_items: "items_at i [] []"
| more_items: "item_at i n ts \<Longrightarrow> items_at i ns us \<Longrightarrow> items_at i (n # ns) (ts @ us)"
| item_node: "is_field i True t None \<Longrightarrow> field_at i t n ts \<Longrightarrow> item_at i n (t # ts)"
| item_field: "is_field i True t (Some k) \<Longrightarrow> field_at i t n ts \<Longrightarrow> item_at i (Fields [(k, n)]) (t # ts)"
| item_fields:
    "is_field i True t (Some k) \<Longrightarrow> field_at i t n ts \<Longrightarrow> i < j \<Longrightarrow> below_first j t ts \<Longrightarrow> block_at j (Fields kns) us
       \<Longrightarrow> k \<notin> fst ` set kns \<Longrightarrow> item_at i (Fields ((k, n) # kns)) (t # ts @ us)"
| no_fields: "fields_at i [] []"
| more_fields:
    "is_field i False t (Some k) \<Longrightarrow> field_at i t n ts \<Longrightarrow> fields_at i kns us \<Longrightarrow> fields_at i ((k, n) # kns) (t # ts @ us)"
| field_leaf: "yt_value t = Some raw \<Longrightarrow> field_at i t (Leaf (yt_literal t) raw) []"
| field_blank: "yt_value t = None \<Longrightarrow> field_at i t Blank []"
| field_block: "yt_value t = None \<Longrightarrow> i < j \<Longrightarrow> block_at j n ts \<Longrightarrow> field_at i t n ts"

definition dedented :: "nat \<Rightarrow> yaml_token list \<Rightarrow> bool" where
  "dedented i ts \<longleftrightarrow> ts = [] \<or> yt_indent (hd ts) < i"

lemma first_tokens:
  "block_at i n ts \<Longrightarrow> ts \<noteq> [] \<and> yt_indent (hd ts) = i \<and> (yt_sequence (hd ts) \<longleftrightarrow> (\<exists>ns. n = Items ns))"
  "items_at i ns ts \<Longrightarrow> (if ns = [] then ts = [] else ts \<noteq> [] \<and> yt_indent (hd ts) = i \<and> yt_sequence (hd ts))"
  "item_at i n ts \<Longrightarrow> ts \<noteq> [] \<and> yt_indent (hd ts) = i \<and> yt_sequence (hd ts)"
  "fields_at i kns ts \<Longrightarrow> (if kns = [] then ts = [] else ts \<noteq> [] \<and> yt_indent (hd ts) = i \<and> \<not> yt_sequence (hd ts))"
  "field_at i t n ts \<Longrightarrow> (if ts = [] then True else yt_value t = None \<and> i < yt_indent (hd ts) \<and> block_at (yt_indent (hd ts)) n ts)"
  by (induction rule: block_at_items_at_item_at_fields_at_field_at.inducts) (auto simp: is_field_def)


section \<open>The order of the members\<close>

lemma js_sort_of_sorted: "sorted_wrt (\<lambda>x y. cmp x y \<le> 0) xs \<Longrightarrow> js_sort cmp xs = xs"
proof (induction xs)
  case (Cons x xs)
  then show ?case by (cases xs) auto
qed simp

lemma own_order_again:
  fixes kvs :: "(string \<times> 'v) list"
  shows "own_order (kv # own_order kvs) = own_order (kv # kvs)"
proof -
  define c where "c = cmp_by (\<lambda>kv :: string \<times> 'v. case array_index (fst kv) of Some n \<Rightarrow> n | None \<Rightarrow> 0)"
  define indexed where "indexed = (\<lambda>kv :: string \<times> 'v. array_index (fst kv) \<noteq> None)"
  have eq: "own_order xs = js_sort c (filter indexed xs) @ filter (\<lambda>kv. \<not> indexed kv) xs" for xs
    by (simp add: own_order_def c_def indexed_def)
  have "js_sort c (js_sort c xs) = js_sort c xs" for xs
    unfolding c_def by (rule js_sort_of_sorted) (rule comparator.sort_sorted [OF comparator_cmp_by])
  moreover have "filter indexed (own_order kvs) = js_sort c (filter indexed kvs)"
    "filter (\<lambda>kv. \<not> indexed kv) (own_order kvs) = filter (\<lambda>kv. \<not> indexed kv) kvs"
    by (auto simp: eq filter_id_conv filter_empty_conv)
  ultimately show ?thesis by (simp add: eq [of "kv # _"])
qed

lemma own_order_single [simp]: "own_order [kv] = [kv]"
  by (simp add: own_order_def)

lemma assign_fresh: "k \<noteq> ''__proto__'' \<Longrightarrow> k \<notin> fst ` set obj \<Longrightarrow> assign k v obj = obj @ [(k, v)]"
  by (induction obj) (auto simp: assign_def)

lemma assign_all_fresh:
  "distinct (map fst obj @ map fst kvs) \<Longrightarrow> ''__proto__'' \<notin> fst ` set kvs
     \<Longrightarrow> foldl (\<lambda>o' kv. assign (fst kv) (snd kv) o') obj kvs = obj @ kvs"
proof (induction kvs arbitrary: obj)
  case (Cons kv kvs)
  then have "assign (fst kv) (snd kv) obj = obj @ [kv]" by (subst assign_fresh) auto
  moreover have "foldl (\<lambda>o' kv. assign (fst kv) (snd kv) o') (obj @ [kv]) kvs = (obj @ [kv]) @ kvs"
    using Cons.prems by (intro Cons.IH) auto
  ultimately show ?case by simp
qed simp


section \<open>The descent reads every layout\<close>

lemma dedented_not_deeper: "dedented i ts \<Longrightarrow> \<not> deeper i ts"
  by (auto simp: dedented_def deeper_def)

lemma not_deeper_dedented: "\<not> deeper i ts \<Longrightarrow> i < j \<Longrightarrow> dedented j ts"
  by (auto simp: dedented_def deeper_def)

lemma no_proto: "fields_at i kns ts \<Longrightarrow> ''__proto__'' \<notin> fst ` set kns"
  by (induction kns arbitrary: ts) (auto simp: is_field_def elim: fields_at.cases)

lemma field_names: "block_at j (Fields kns) us \<Longrightarrow> distinct (map fst kns) \<and> ''__proto__'' \<notin> fst ` set kns"
  by (auto elim!: block_at.cases dest: no_proto)

lemma extend_first:
  assumes "block_at j (Fields kns) us" "k \<notin> fst ` set kns" "k \<noteq> ''__proto__''"
  shows "own_order (extend_item (node_value p (Fields kns)) (assign k v [])) = own_order ((k, v) # map (\<lambda>(k, n). (k, node_value p n)) kns)"
proof -
  define kvs where "kvs = own_order (map (\<lambda>(k, n). (k, node_value p n)) kns)"
  have names: "fst ` set kvs = fst ` set kns" by (force simp: kvs_def)
  have "distinct (map fst kvs)" using field_names [OF assms(1)] by (simp add: kvs_def comp_def case_prod_beta)
  then have "foldl (\<lambda>o' kv. assign (fst kv) (snd kv) o') [(k, v)] kvs = [(k, v)] @ kvs"
    using assms(2) field_names [OF assms(1)] by (intro assign_all_fresh) (auto simp: names)
  then have "extend_item (node_value p (Fields kns)) (assign k v []) = (k, v) # kvs"
    using assms(3) by (simp add: kvs_def assign_def [of k v "[]"])
  then show ?thesis by (simp add: kvs_def own_order_again)
qed

lemma field_stops:
  "field_at i t n ts \<Longrightarrow> \<not> deeper i rst \<Longrightarrow>
     (if ts = [] then yt_value t = None \<longrightarrow> \<not> deeper i rst else dedented (yt_indent (hd ts)) rst)"
  using first_tokens(5) [of i t n ts] not_deeper_dedented [of i rst] by (auto split: if_splits)

lemma descent:
  "block_at i n ts \<Longrightarrow> dedented i rst \<Longrightarrow> parse_block p i (ts @ rst) = Inr (node_value p n, rst)"
  "items_at i ns ts \<Longrightarrow> dedented i rst \<Longrightarrow> parse_sequence p i (ts @ rst) = Inr (map (node_value p) ns, rst)"
  "item_at i n ts \<Longrightarrow> \<not> deeper i rst \<Longrightarrow> parse_item p i (hd ts) (tl ts @ rst) = Inr ([node_value p n], rst)"
  "fields_at i kns ts \<Longrightarrow> dedented i rst \<Longrightarrow> distinct (map fst obj @ map fst kns)
     \<Longrightarrow> parse_mapping p i obj (ts @ rst) = Inr (JObj (own_order (obj @ map (\<lambda>(k, n). (k, node_value p n)) kns)), rst)"
  "field_at i t n ts \<Longrightarrow> (if ts = [] then yt_value t = None \<longrightarrow> \<not> deeper i rst else dedented (yt_indent (hd ts)) rst)
     \<Longrightarrow> parse_field p i t (ts @ rst) = Inr (node_value p n, rst)"
proof (induction arbitrary: rst and rst and rst and rst obj and rst
    rule: block_at_items_at_item_at_fields_at_field_at.inducts)
  case (block_items i ns ts)
  then show ?case using first_tokens(2) [OF block_items.hyps(1)] by (simp add: parse_block.simps)
next
  case (block_fields i kns ts)
  then show ?case using first_tokens(4) [OF block_fields.hyps(1)] by (simp add: parse_block.simps)
next
  case (no_items i)
  then show ?case by (cases rst) (auto simp: dedented_def)
next
  case (more_items i n ts ns us)
  obtain t ts' where t: "ts = t # ts'" "yt_indent t = i" "yt_sequence t"
    using first_tokens(3) [OF more_items.hyps(1)] by (cases ts) auto
  have "\<not> deeper i (us @ rst)"
    using first_tokens(2) [OF more_items.hyps(2)] dedented_not_deeper [OF more_items.prems]
    by (cases us) (auto simp: deeper_def split: if_splits)
  then show ?case using more_items.IH t more_items.prems by simp
next
  case (item_node i t n ts)
  have "parse_field p i t (ts @ rst) = Inr (node_value p n, rst)"
    by (rule item_node.IH) (rule field_stops [OF item_node.hyps(2) item_node.prems])
  moreover have "yt_value t \<noteq> None \<Longrightarrow> \<not> deeper i (ts @ rst)"
    using first_tokens(5) [OF item_node.hyps(2)] item_node.prems by (auto split: if_splits)
  ultimately show ?case
    using item_node.hyps(1) by (auto simp: parse_item.simps parse_field.simps is_field_def split: option.splits if_splits)
next
  case (item_field i t k n ts)
  have "parse_field p i t (ts @ rst) = Inr (node_value p n, rst)"
    by (rule item_field.IH) (rule field_stops [OF item_field.hyps(2) item_field.prems])
  then show ?case
    using item_field by (simp add: parse_item.simps is_field_def assign_def)
next
  case (item_fields i t k n ts j kns us)
  have us: "us \<noteq> []" "yt_indent (hd us) = j" using first_tokens(1) [OF item_fields.hyps(5)] by auto
  have "parse_field p i t (ts @ us @ rst) = Inr (node_value p n, us @ rst)"
    using item_fields.hyps(4) us first_tokens(5) [OF item_fields.hyps(2)]
    by (intro item_fields.IH(1)) (auto simp: below_first_def dedented_def split: if_splits)
  moreover have "parse_block p j (us @ rst) = Inr (node_value p (Fields kns), rst)"
    by (rule item_fields.IH(2)) (rule not_deeper_dedented [OF item_fields.prems item_fields.hyps(3)])
  moreover have "deeper i (us @ rst)" using us item_fields.hyps(3) by (simp add: deeper_def)
  ultimately show ?case
    using item_fields.hyps us extend_first [OF item_fields.hyps(5,6)]
    by (auto simp: parse_item.simps is_field_def simp del: extend_item.simps)
next
  case (no_fields i)
  then show ?case by (cases rst) (auto simp: dedented_def)
next
  case (more_fields i t k n ts kns us)
  have below: "\<not> deeper i (us @ rst)"
    using first_tokens(4) [OF more_fields.hyps(3)] dedented_not_deeper [OF more_fields.prems(1)]
    by (cases us) (auto simp: deeper_def split: if_splits)
  have "parse_field p i t (ts @ us @ rst) = Inr (node_value p n, us @ rst)"
    by (rule more_fields.IH(1)) (rule field_stops [OF more_fields.hyps(2) below])
  moreover have "parse_mapping p i (obj @ [(k, node_value p n)]) (us @ rst)
      = Inr (JObj (own_order ((obj @ [(k, node_value p n)]) @ map (\<lambda>(k, n). (k, node_value p n)) kns)), rst)"
    using more_fields.prems by (intro more_fields.IH(2)) auto
  moreover have "assign k (node_value p n) obj = obj @ [(k, node_value p n)]"
    using more_fields.prems(2) more_fields.hyps(1) by (intro assign_fresh) (auto simp: is_field_def)
  ultimately show ?case
    using more_fields.hyps(1) by (simp add: is_field_def)
next
  case (field_leaf t raw i)
  then show ?case by (simp add: parse_field.simps token_value_def)
next
  case (field_blank t i)
  then show ?case by (simp add: parse_field.simps)
next
  case (field_block t i j n ts)
  then show ?case using first_tokens(1) [OF field_block.hyps(3)] by (simp add: parse_field.simps deeper_def)
qed


text \<open>
  Property C31. A content whose tokens are a layout of a node is read as the value of that node, whatever the
  indentation steps are and wherever the tokens stand in the source.
\<close>

theorem yaml_layout_read:
  assumes "yaml_tokens content = Inr ts" and "block_at i n ts"
  shows "parse_yaml json_parse content = Inr (node_value json_parse n)"
  using assms(1) descent(1) [OF assms(2), of "[]" json_parse] first_tokens(1) [OF assms(2)]
  by (simp add: parse_yaml_def dedented_def)

definition no_json :: "string \<Rightarrow> json option" where
  "no_json s = None"

definition sample_yaml :: string where
  "sample_yaml = join [newline] [''info:'', ''  title: Pets'', ''tags:'', ''  - name: a'', ''    x: 1'', ''  - b'']"

definition sample_node :: yaml_node where
  "sample_node = Fields [(''info'', Fields [(''title'', Leaf False ''Pets'')]),
     (''tags'', Items [Fields [(''name'', Leaf False ''a''), (''x'', Leaf False ''1'')], Leaf False ''b''])]"

definition sample_token :: "nat \<Rightarrow> bool \<Rightarrow> string option \<Rightarrow> string option \<Rightarrow> nat \<Rightarrow> nat \<Rightarrow> yaml_token" where
  "sample_token i s k v a b =
     \<lparr>yt_indent = i, yt_sequence = s, yt_key = k, yt_value = v, yt_literal = False, yt_start = a, yt_end = b\<rparr>"

definition sample_tokens :: "yaml_token list" where
  "sample_tokens =
     [sample_token 0 False (Some ''info'') None 0 6, sample_token 2 False (Some ''title'') (Some ''Pets'') 6 20,
      sample_token 0 False (Some ''tags'') None 20 26, sample_token 2 True (Some ''name'') (Some ''a'') 26 38,
      sample_token 4 False (Some ''x'') (Some ''1'') 38 47, sample_token 2 True None (Some ''b'') 47 52]"

lemma sample_yaml_tokens: "yaml_tokens sample_yaml = Inr sample_tokens"
  by code_simp

lemma leaf_line:
  "yt_value t = Some raw \<Longrightarrow> \<not> yt_literal t \<Longrightarrow> field_at i t (Leaf False raw) []"
  using field_leaf [of t raw i] by simp

lemma sample_layout: "block_at 0 sample_node sample_tokens"
proof -
  obtain t1 t2 t3 t4 t5 t6 where ts: "sample_tokens = [t1, t2, t3, t4, t5, t6]"
    and t: "t1 = sample_token 0 False (Some ''info'') None 0 6" "t2 = sample_token 2 False (Some ''title'') (Some ''Pets'') 6 20"
      "t3 = sample_token 0 False (Some ''tags'') None 20 26" "t4 = sample_token 2 True (Some ''name'') (Some ''a'') 26 38"
      "t5 = sample_token 4 False (Some ''x'') (Some ''1'') 38 47" "t6 = sample_token 2 True None (Some ''b'') 47 52"
    by (simp add: sample_tokens_def)
  note d = t is_field_def sample_token_def below_first_def
  have "fields_at 2 [(''title'', Leaf False ''Pets'')] [t2]"
    using more_fields [of 2 t2 "''title''" "Leaf False ''Pets''" "[]" "[]" "[]"] by (simp add: d leaf_line no_fields)
  then have info: "field_at 0 t1 (Fields [(''title'', Leaf False ''Pets'')]) [t2]"
    by (intro field_block [of t1 0 2] block_fields) (simp_all add: d)
  have "fields_at 4 [(''x'', Leaf False ''1'')] [t5]"
    using more_fields [of 4 t5 "''x''" "Leaf False ''1''" "[]" "[]" "[]"] by (simp add: d leaf_line no_fields)
  then have x: "block_at 4 (Fields [(''x'', Leaf False ''1'')]) [t5]" by (intro block_fields) simp_all
  have first: "item_at 2 (Fields [(''name'', Leaf False ''a''), (''x'', Leaf False ''1'')]) [t4, t5]"
    using item_fields [OF _ _ _ _ x, of 2 t4 "''name''" "Leaf False ''a''" "[]"] by (simp add: d leaf_line)
  have second: "item_at 2 (Leaf False ''b'') [t6]"
    by (intro item_node leaf_line) (simp_all add: d)
  have "items_at 2 [Fields [(''name'', Leaf False ''a''), (''x'', Leaf False ''1'')], Leaf False ''b''] [t4, t5, t6]"
    using more_items [OF first more_items [OF second no_items]] by simp
  then have tags: "field_at 0 t3 (Items [Fields [(''name'', Leaf False ''a''), (''x'', Leaf False ''1'')], Leaf False ''b'']) [t4, t5, t6]"
    by (intro field_block [of t3 0 2] block_items) (simp_all add: d)
  have "is_field 0 False t1 (Some ''info'')" "is_field 0 False t3 (Some ''tags'')" by (simp_all add: d)
  from block_fields [OF more_fields [OF this(1) info more_fields [OF this(2) tags no_fields]]]
  show ?thesis by (simp add: ts sample_node_def)
qed

theorem yaml_layout_read_witness:
  "parse_yaml no_json sample_yaml = Inr (JObj [(''info'', JObj [(''title'', JStr ''Pets'')]),
     (''tags'', JArr [JObj [(''name'', JStr ''a''), (''x'', JNum 1)], JStr ''b''])])"
proof -
  have "node_value no_json sample_node = JObj [(''info'', JObj [(''title'', JStr ''Pets'')]),
     (''tags'', JArr [JObj [(''name'', JStr ''a''), (''x'', JNum 1)], JStr ''b''])]"
    by code_simp
  then show ?thesis
    using yaml_layout_read [OF sample_yaml_tokens sample_layout, of no_json] by simp
qed

text \<open>
  A key without a value that starts an item takes the following fields of the item as its value.
\<close>

lemma null_first_key_swallows:
  "parse_yaml no_json (join [newline] [''- a:'', ''  b: 2'']) = Inr (JArr [JObj [(''a'', JObj [(''b'', JNum 2)])]])"
  by code_simp


text \<open>An apostrophe inside a word counts as an opening quote, so a comment after it is kept as text.\<close>

lemma apostrophe_keeps_comment:
  "parse_yaml no_json (''a: don'' @ [CHR 0x27] @ ''t # note'') = Inr (JObj [(''a'', JStr (''don'' @ [CHR 0x27] @ ''t # note''))])"
  by code_simp

section \<open>What is read is data\<close>

definition pure_data :: "json \<Rightarrow> bool" where
  "pure_data v \<longleftrightarrow> plain_data v \<and> defined v"

definition pure_object :: "json_object \<Rightarrow> bool" where
  "pure_object obj \<longleftrightarrow> distinct (map fst obj) \<and> list_all (\<lambda>kv. pure_data (snd kv)) obj"

lemma pure_simps [simp]:
  "pure_data JNull" "pure_data (JBool b)" "pure_data (JNum i)" "pure_data (JDec n w ds)" "pure_data (JStr s)"
  "pure_data (JArr vs) \<longleftrightarrow> list_all pure_data vs"
  "pure_data (JObj kvs) \<longleftrightarrow> pure_object kvs"
  by (force simp: pure_data_def pure_object_def list_all_iff)+

lemma list_all_update: "list_all (\<lambda>kv. P (snd kv)) obj \<Longrightarrow> P v \<Longrightarrow> list_all (\<lambda>kv. P (snd kv)) (jm_set k v obj)"
  by (induction obj) auto

lemma pure_assign: "pure_object obj \<Longrightarrow> pure_data v \<Longrightarrow> pure_object (assign k v obj)"
  by (simp add: pure_object_def assign_def distinct_update list_all_update)

lemma pure_own_order [simp]: "pure_object (own_order obj) = pure_object obj"
  by (simp add: pure_object_def list_all_iff)

lemma pure_extend: "pure_object obj \<Longrightarrow> pure_data v \<Longrightarrow> pure_object (extend_item v obj)"
proof (cases v)
  case (JObj kvs)
  have "pure_object obj \<Longrightarrow> list_all (\<lambda>kv. pure_data (snd kv)) kvs \<Longrightarrow> pure_object (foldl (\<lambda>o' kv. assign (fst kv) (snd kv) o') obj kvs)" for obj
    by (induction kvs arbitrary: obj) (auto intro: pure_assign)
  then show "pure_object obj \<Longrightarrow> pure_data v \<Longrightarrow> ?thesis" using JObj by (simp add: pure_object_def)
qed (auto intro: pure_assign)

lemma pure_nullish: "(\<And>v. r = Some v \<Longrightarrow> pure_data v) \<Longrightarrow> pure_data d \<Longrightarrow> pure_data (nullish r d)"
  by (cases r) auto

lemma pure_scalar:
  assumes "\<And>s v. json_parse s = Some v \<Longrightarrow> pure_data v"
  shows "pure_data (yaml_scalar json_parse raw)"
  using assms
proof (induction json_parse raw rule: yaml_scalar.induct)
  case (1 json_parse raw)
  have items: "pure_data (yaml_scalar json_parse (trim item))"
    if "\<not> rx_test null_rx (trim raw)" "\<not> rx_test boolean_rx (trim raw)" "\<not> rx_test number_rx (trim raw)"
      "\<not> enclosed [CHR 0x22] [CHR 0x22] (trim raw)" "\<not> enclosed [CHR 0x27] [CHR 0x27] (trim raw)"
      "enclosed ''['' '']'' (trim raw)" "json_parse (trim raw) = None" "item \<in> set (split_on (CHR '','') (inner (trim raw)))" for item
    using 1 that by blast
  have number: "pure_data (yaml_number v)" for v
    by (cases "js_number v") (simp_all add: yaml_number_def decimal_value_def Let_def)
  have bracket: "pure_data (case json_parse (trim raw) of Some w \<Rightarrow> w
      | None \<Rightarrow> JArr (map (\<lambda>item. yaml_scalar json_parse (trim item)) (split_on (CHR '','') (inner (trim raw)))))"
    if "\<not> rx_test null_rx (trim raw)" "\<not> rx_test boolean_rx (trim raw)" "\<not> rx_test number_rx (trim raw)"
      "\<not> enclosed [CHR 0x22] [CHR 0x22] (trim raw)" "\<not> enclosed [CHR 0x27] [CHR 0x27] (trim raw)"
      "enclosed ''['' '']'' (trim raw)"
    using items [OF that] "1.prems" by (cases "json_parse (trim raw)") (simp_all add: list_all_iff)
  show ?case
    by (subst yaml_scalar.simps)
      (simp add: Let_def number bracket pure_nullish "1.prems")
qed


lemma pure_value: "(\<And>s v. json_parse s = Some v \<Longrightarrow> pure_data v) \<Longrightarrow> pure_data (token_value json_parse t raw)"
  by (simp add: token_value_def pure_scalar)

lemma pure_reading:
  assumes "\<And>s v. p s = Some v \<Longrightarrow> pure_data v"
  shows "parse_block p indent ts = Inr (v, below) \<Longrightarrow> pure_data v"
    "parse_sequence p indent ts = Inr (vs, below) \<Longrightarrow> list_all pure_data vs"
    "parse_item p indent t ts = Inr (vs, below) \<Longrightarrow> list_all pure_data vs"
    "parse_field p indent t ts = Inr (v, below) \<Longrightarrow> pure_data v"
    "parse_mapping p indent obj ts = Inr (v, below) \<Longrightarrow> pure_object obj \<Longrightarrow> pure_data v"
  using assms
proof (induction p indent ts and p indent ts and p indent t ts and p indent t ts and p indent obj ts
    arbitrary: v below and vs below and vs below and v below and v below rule: parse_block_parse_sequence_parse_item_parse_field_parse_mapping.induct)
  case (1 p indent ts)
  then show ?case by (auto simp: parse_block.simps pure_object_def split: if_splits)
next
  case (2 p indent)
  then show ?case by simp
next
  case (3 p indent t ts)
  then show ?case by (fastforce split: if_splits)
next
  case (4 p indent t ts)
  have obj: "pure_data w \<Longrightarrow> pure_object (assign k w [])" for k w
    by (rule pure_assign) (simp_all add: pure_object_def)
  show ?case
  proof (cases "yt_key t")
    case None
    then show ?thesis using 4 pure_value [OF "4.prems"(2)]
      by (fastforce simp: parse_item.simps split: if_splits option.splits)
  next
    case (Some k)
    with "4.prems"(1) obtain w below' where field: "parse_field p indent t ts = Inr (w, below')"
      and more: "(if deeper indent below'
         then bind_result (parse_block p (yt_indent (hd below')) below')
           (\<lambda>(w', b). Inr ([JObj (own_order (extend_item w' (assign k w [])))], b))
         else Inr ([JObj (assign k w [])], below')) = Inr (vs, below)"
      by (auto simp: parse_item.simps)
    have w: "pure_data w" using "4.IH"(3) [OF Some field "4.prems"(2)] .
    show ?thesis
    proof (cases "deeper indent below'")
      case True
      then obtain w' where nested: "parse_block p (yt_indent (hd below')) below' = Inr (w', below)"
        and vs: "vs = [JObj (own_order (extend_item w' (assign k w [])))]" using more by auto
      have "pure_data w'" using "4.IH"(4) [OF Some field refl True nested "4.prems"(2)] .
      then have "pure_object (extend_item w' (assign k w []))" by (rule pure_extend [OF obj [OF w]])
      then show ?thesis by (simp add: vs)
    next
      case False
      then have "vs = [JObj (assign k w [])]" using more by simp
      then show ?thesis using obj [OF w] by simp
    qed
  qed
next
  case (5 p indent t ts)
  show ?case
  proof (cases "yt_value t")
    case None
    then show ?thesis using "5.IH" [OF None _ _ "5.prems"(2)] "5.prems"(1)
      by (auto simp: parse_field.simps split: if_splits)
  next
    case (Some raw)
    then show ?thesis using "5.prems"(1) pure_value [OF "5.prems"(2)] by (auto simp: parse_field.simps)
  qed
next
  case (6 p indent obj)
  then have "v = JObj (own_order obj)" by simp
  with "6.prems"(2) show ?case by simp
next
  case (7 p indent obj t ts)
  show ?case
  proof (cases "yt_indent t \<noteq> indent \<or> yt_sequence t")
    case True
    then show ?thesis using "7.prems" by auto
  next
    case False
    then obtain k w below' where "yt_key t = Some k" and field: "parse_field p indent t ts = Inr (w, below')"
      and more: "parse_mapping p indent (assign k w obj) below' = Inr (v, below)"
      using "7.prems"(1) by (cases "yt_key t") auto
    have "pure_object (assign k w obj)"
      using "7.IH"(1) [OF False \<open>yt_key t = Some k\<close> field "7.prems"(3)] "7.prems"(2) by (rule pure_assign [rotated])
    then show ?thesis
      using "7.IH"(2) [OF False \<open>yt_key t = Some k\<close> field refl more _ "7.prems"(3)] by simp
  qed
qed


text \<open>
  What the YAML reader returns is data as \<^verbatim>\<open>JSON.parse\<close> returns it: no \<^verbatim>\<open>undefined\<close> anywhere and no
  object with two members of the same name.
\<close>

theorem yaml_value_pure:
  assumes "\<And>s v. json_parse s = Some v \<Longrightarrow> pure_data v" and "parse_yaml json_parse content = Inr v"
  shows "pure_data v"
proof -
  obtain ts where "ts = [] \<and> v = JObj [] \<or> (\<exists>below. parse_block json_parse (yt_indent (hd ts)) ts = Inr (v, below))"
    using assms(2) by (auto simp: parse_yaml_def split: if_splits)
  then show ?thesis
    using pure_reading(1) [OF assms(1)] by (auto simp: pure_object_def)
qed


theorem yaml_value_pure_witness:
  "pure_data (JObj [(''info'', JObj [(''title'', JStr ''Pets'')]),
     (''tags'', JArr [JObj [(''name'', JStr ''a''), (''x'', JNum 1)], JStr ''b''])])"
proof -
  have "node_value no_json sample_node = JObj [(''info'', JObj [(''title'', JStr ''Pets'')]),
     (''tags'', JArr [JObj [(''name'', JStr ''a''), (''x'', JNum 1)], JStr ''b''])]"
    by code_simp
  moreover have "parse_yaml no_json sample_yaml = Inr (node_value no_json sample_node)"
    using sample_yaml_tokens descent(1) [OF sample_layout, of "[]" no_json] first_tokens(1) [OF sample_layout]
    by (simp add: parse_yaml_def dedented_def)
  ultimately show ?thesis using yaml_value_pure [of no_json sample_yaml] by (simp add: no_json_def)
qed

end
