(* ===== verification/HtmlDoc.thy ===== *)
theory HtmlDoc
  imports Markup
begin

text \<open>
  The HTML parser of \<^verbatim>\<open>html.ts\<close>: tokens, the tree of elements and the blocks of a document. \<open>wide n\<close> is the text
  of a code point above 255, an argument since no code unit below 256 stands for it.
\<close>

section \<open>Entities and attributes\<close>

definition is_hex_digit :: "char \<Rightarrow> bool" where
  "is_hex_digit c \<longleftrightarrow> is_digit c \<or> char_in 97 102 c \<or> char_in 65 70 c"

definition hex_digit_value :: "char \<Rightarrow> nat" where
  "hex_digit_value c = (if is_digit c then of_char c - 48 else of_char (lower_char c) - 87)"

definition hex_number :: "string \<Rightarrow> nat" where
  "hex_number s = foldl (\<lambda>n c. 16 * n + hex_digit_value c) 0 s"

text \<open>\<^verbatim>\<open>String.fromCodePoint\<close>; a number that is no code point is thrown and becomes U+FFFD.\<close>

definition code_point :: "(nat \<Rightarrow> string) \<Rightarrow> nat \<Rightarrow> string" where
  "code_point wide n = (if n < 256 then [char_of n] else if n \<le> 1114111 then wide n else wide 65533)"

text \<open>
  The members of the object of named entities, and \<^verbatim>\<open>constructor\<close>, which it inherits: a function, which
  \<^verbatim>\<open>replace\<close> turns into its text.
\<close>

definition named_entity :: "string \<Rightarrow> string option" where
  "named_entity = map_of
     [(''amp'', ''&''), (''apos'', [CHR 0x27]), (''gt'', ''>''), (''lt'', ''<''), (''nbsp'', '' ''), (''quot'', [CHR 0x22]),
      (''constructor'', ''function Object() { [native code] }'')]"

definition entity_rx :: rx where
  "entity_rx = seqs [lit ''&'', alts
     [Seq (lit ''#'') (Cap 1 (some_rx (Cls is_digit))), Seq (lit_i ''#x'') (Cap 2 (some_rx (Cls is_hex_digit))),
      Cap 3 (Seq (Cls is_letter) (some_rx (Cls (\<lambda>c. is_digit c \<or> is_letter c))))], lit '';'']"

definition decoded_entity :: "(nat \<Rightarrow> string) \<Rightarrow> rx_match \<Rightarrow> string" where
  "decoded_entity wide m =
     (case (rx_group 1 m, rx_group 2 m) of
        (Some decimal, _) \<Rightarrow> code_point wide (nat_of_digits decimal)
      | (None, Some hex) \<Rightarrow> code_point wide (hex_number hex)
      | (None, None) \<Rightarrow> nullish (named_entity (to_lower (match_group 3 m))) (rm_text m))"

definition decode_entities :: "(nat \<Rightarrow> string) \<Rightarrow> string \<Rightarrow> string" where
  "decode_entities wide s = rx_replace_all entity_rx (decoded_entity wide) s"

definition tag_name_rx :: rx where
  "tag_name_rx = Seq (Cls is_letter) (many (Cls (\<lambda>c. rx_word c \<or> c \<in> set '':-'')))"

definition attribute_rx :: rx where
  "attribute_rx = Seq (Cap 1 (some_rx (Cls (\<lambda>c. \<not> is_ws c \<and> c \<notin> set ''=/>''))))
     (maybe (seqs [spaces, lit ''='', spaces, alts
       [seqs [lit [CHR 0x22], Cap 2 (many (but [CHR 0x22])), lit [CHR 0x22]],
        seqs [lit [CHR 0x27], Cap 3 (many (but [CHR 0x27])), lit [CHR 0x27]],
        Cap 4 (some_rx (Cls (\<lambda>c. \<not> is_ws c \<and> c \<notin> set ([CHR 0x22, CHR 0x27, CHR 0x60] @ ''=<>''))))]]))"

definition attribute_of :: "(nat \<Rightarrow> string) \<Rightarrow> rx_match \<Rightarrow> string \<times> string" where
  "attribute_of wide m =
     (to_lower (match_group 1 m),
      decode_entities wide (nullish (rx_group 2 m) (nullish (rx_group 3 m) (match_group 4 m))))"

text \<open>Assigning a string to \<^verbatim>\<open>__proto__\<close> does nothing.\<close>

definition parse_attributes :: "(nat \<Rightarrow> string) \<Rightarrow> string \<Rightarrow> (string \<times> string) list" where
  "parse_attributes wide raw =
     (let named = rx_replace_first (seqs [TextStart, lit ''<'', maybe (lit ''/''), spaces, tag_name_rx]) (\<lambda>_. []) raw;
          inner = rx_replace_first (seqs [maybe (lit ''/''), lit ''>'', spaces, TextEnd]) (\<lambda>_. []) named
      in jm_of_list (filter (\<lambda>kv. fst kv \<noteq> ''__proto__'') (map (attribute_of wide) (rx_all attribute_rx [] inner))))"

section \<open>The tree\<close>

datatype html_node =
    Root "html_node list" nat nat
  | Element string "(string \<times> string) list" "html_node list" nat nat
  | TextNode string nat nat

fun node_children :: "html_node \<Rightarrow> html_node list" where
  "node_children (Root ns _ _) = ns"
| "node_children (Element _ _ ns _ _) = ns"
| "node_children (TextNode _ _ _) = []"

fun node_start :: "html_node \<Rightarrow> nat" where
  "node_start (Root _ a _) = a"
| "node_start (Element _ _ _ a _) = a"
| "node_start (TextNode _ a _) = a"

fun node_end :: "html_node \<Rightarrow> nat" where
  "node_end (Root _ _ b) = b"
| "node_end (Element _ _ _ _ b) = b"
| "node_end (TextNode _ _ b) = b"

fun node_tag :: "html_node \<Rightarrow> string option" where
  "node_tag (Element tag _ _ _ _) = Some tag"
| "node_tag _ = None"

fun attribute :: "html_node \<Rightarrow> string \<Rightarrow> string option" where
  "attribute (Element _ as _ _ _) name = map_of as name"
| "attribute _ name = None"

definition void_elements :: "string list" where
  "void_elements = [''area'', ''base'', ''br'', ''col'', ''embed'', ''hr'', ''img'', ''input'', ''link'', ''meta'', ''param'', ''source'',
     ''track'', ''wbr'']"

definition excluded_elements :: "string list" where
  "excluded_elements = [''script'', ''style'', ''noscript'', ''svg'', ''canvas'', ''iframe'', ''template'', ''nav'', ''footer'', ''aside'',
     ''form'', ''dialog'']"

definition block_elements :: "string list" where
  "block_elements = [''address'', ''article'', ''aside'', ''blockquote'', ''details'', ''div'', ''dl'', ''fieldset'', ''figcaption'', ''figure'',
     ''footer'', ''form'', ''h1'', ''h2'', ''h3'', ''h4'', ''h5'', ''h6'', ''header'', ''hr'', ''main'', ''nav'', ''ol'', ''p'', ''pre'',
     ''section'', ''summary'', ''table'', ''ul'']"

text \<open>An element that is still open: its children so far, the latest first. The last of the stack is the root.\<close>

record open_node =
  fr_tag :: string
  fr_attributes :: "(string \<times> string) list"
  fr_children :: "html_node list"
  fr_start :: nat

definition token_rx :: rx where
  "token_rx = alts
     [seqs [lit ''<!--'', Star False (Cls (\<lambda>_. True)), lit ''-->''], seqs [lit ''<!'', many (but ''>''), lit ''>''],
      seqs [lit ''<'', maybe (lit ''/''), Cls is_letter, many (but ''>''), lit ''>''], some_rx (but ''<''), lit ''<'']"

record html_token =
  tk_text :: string
  tk_start :: nat
  tk_end :: nat

definition html_token_of :: "rx_match \<Rightarrow> html_token" where
  "html_token_of m =
     \<lparr>tk_text = rm_text m, tk_start = length (rm_before m), tk_end = length (rm_before m) + length (rm_text m)\<rparr>"

definition html_tokens :: "string \<Rightarrow> html_token list" where
  "html_tokens content = map html_token_of (rx_all token_rx [] content)"

definition skipped_token :: "string \<Rightarrow> bool" where
  "skipped_token s \<longleftrightarrow> starts_with s ''<!--'' \<or> rx_test (seqs [TextStart, lit ''<!'', but ''-'']) s"

definition closing_tag :: "string \<Rightarrow> string option" where
  "closing_tag s = map_option (\<lambda>m. to_lower (match_group 1 m))
     (rx_exec (seqs [TextStart, lit ''</'', spaces, Cap 1 tag_name_rx, many (but ''>''), lit ''>'']) s)"

definition opening_tag :: "string \<Rightarrow> string option" where
  "opening_tag s = map_option (\<lambda>m. to_lower (match_group 1 m)) (rx_exec (seqs [TextStart, lit ''<'', spaces, Cap 1 tag_name_rx]) s)"

definition closes_itself :: "string \<Rightarrow> bool" where
  "closes_itself s = rx_test (seqs [lit ''/'', spaces, lit ''>'', TextEnd]) s"

definition add_child :: "html_node \<Rightarrow> open_node \<Rightarrow> open_node" where
  "add_child n f = f\<lparr>fr_children := n # fr_children f\<rparr>"

definition add_to_top :: "html_node \<Rightarrow> open_node list \<Rightarrow> open_node list" where
  "add_to_top n stack = (case stack of [] \<Rightarrow> [] | f # fs \<Rightarrow> add_child n f # fs)"

definition finished :: "nat \<Rightarrow> open_node \<Rightarrow> html_node" where
  "finished at f = Element (fr_tag f) (fr_attributes f) (rev (fr_children f)) (fr_start f) at"

text \<open>A closing tag ends the open elements down to the one of its name, or all of them when there is none.\<close>

fun close_until :: "string \<Rightarrow> nat \<Rightarrow> open_node list \<Rightarrow> open_node list" where
  "close_until tag at (f # g # fs) =
     (if fr_tag f = tag then add_child (finished at f) g # fs else close_until tag at (add_child (finished at f) g # fs))"
| "close_until tag at stack = stack"

fun close_all :: "nat \<Rightarrow> open_node list \<Rightarrow> html_node" where
  "close_all at (f # g # fs) = close_all at (add_child (finished at f) g # fs)"
| "close_all at [f] = Root (rev (fr_children f)) 0 at"
| "close_all at [] = Root [] 0 at"

definition html_step :: "(nat \<Rightarrow> string) \<Rightarrow> html_token \<Rightarrow> open_node list \<Rightarrow> open_node list" where
  "html_step wide t stack =
     (let s = tk_text t in
      if skipped_token s then stack
      else case closing_tag s of
        Some tag \<Rightarrow> close_until tag (tk_end t) stack
      | None \<Rightarrow> (case opening_tag s of
        Some tag \<Rightarrow>
          let f = \<lparr>fr_tag = tag, fr_attributes = parse_attributes wide s, fr_children = [], fr_start = tk_start t\<rparr>
          in if tag \<notin> set void_elements \<and> \<not> closes_itself s then f # stack else add_to_top (finished (tk_end t) f) stack
      | None \<Rightarrow> add_to_top (TextNode (decode_entities wide s) (tk_start t) (tk_end t)) stack))"

definition root_node :: open_node where
  "root_node = \<lparr>fr_tag = [], fr_attributes = [], fr_children = [], fr_start = 0\<rparr>"

definition parse_html :: "(nat \<Rightarrow> string) \<Rightarrow> string \<Rightarrow> html_node" where
  "parse_html wide content = close_all (length content) (fold (html_step wide) (html_tokens content) [root_node])"

section \<open>Visible nodes\<close>

definition has_tag :: "string list \<Rightarrow> html_node \<Rightarrow> bool" where
  "has_tag tags n \<longleftrightarrow> (case node_tag n of None \<Rightarrow> False | Some tag \<Rightarrow> tag \<in> set tags)"

definition hiding_style_rx :: rx where
  "hiding_style_rx = Alt (seqs [lit_i ''display'', spaces, lit '':'', spaces, lit_i ''none''])
     (seqs [lit_i ''visibility'', spaces, lit '':'', spaces, lit_i ''hidden''])"

definition hidden :: "html_node \<Rightarrow> bool" where
  "hidden n \<longleftrightarrow> attribute n ''hidden'' \<noteq> None \<or> map_option to_lower (attribute n ''aria-hidden'') = Some ''true''
     \<or> rx_test hiding_style_rx (nullish (attribute n ''style'') [])"

text \<open>\<^verbatim>\<open>excluded\<close> where it is asked: of elements.\<close>

definition excluded :: "html_node \<Rightarrow> bool" where
  "excluded n \<longleftrightarrow> node_tag n \<noteq> None
     \<and> (has_tag excluded_elements n \<or> hidden n \<or> nullish (attribute n ''role'') [] \<in> set [''navigation'', ''complementary''])"

lemma child_size [termination_simp]: "n \<in> set (node_children m) \<Longrightarrow> size n < size m"
  by (cases m) (auto simp: size_list_estimation' less_Suc_eq_le)

text \<open>The first element with one of the tags, in the order of the source.\<close>

fun first_some :: "('a \<Rightarrow> 'b option) \<Rightarrow> 'a list \<Rightarrow> 'b option" where
  "first_some f [] = None"
| "first_some f (x # xs) = (case f x of None \<Rightarrow> first_some f xs | Some y \<Rightarrow> Some y)"

lemma first_some_cong [fundef_cong]:
  "xs = ys \<Longrightarrow> (\<And>x. x \<in> set ys \<Longrightarrow> f x = g x) \<Longrightarrow> first_some f xs = first_some g ys"
  by (induction xs arbitrary: ys) (auto split: option.splits)

fun find_first :: "string list \<Rightarrow> html_node \<Rightarrow> html_node option" where
  "find_first tags n =
     (if excluded n then None else if has_tag tags n then Some n else first_some (find_first tags) (node_children n))"

declare find_first.simps [simp del]

lemma first_some_Some: "first_some f xs = Some y \<Longrightarrow> \<exists>x\<in>set xs. f x = Some y"
  by (induction xs) (auto split: option.splits)

text \<open>An element found is the node itself or is found in one of its children.\<close>

lemma find_first_induct [consumes 1, case_names Here Below]:
  assumes found: "find_first tags n = Some m"
    and here: "\<not> excluded m \<Longrightarrow> P m"
    and below: "\<And>n c. c \<in> set (node_children n) \<Longrightarrow> find_first tags c = Some m \<Longrightarrow> P c \<Longrightarrow> P n"
  shows "P n"
  using found
proof (induction "size n" arbitrary: n rule: less_induct)
  case less
  show ?case
  proof (cases "excluded n \<or> has_tag tags n")
    case True
    then have "find_first tags n = (if excluded n then None else Some n)" by (subst find_first.simps) auto
    then show ?thesis using less.prems here by (simp split: if_splits)
  next
    case False
    have "find_first tags n = first_some (find_first tags) (node_children n)"
      using False by (subst find_first.simps) auto
    then have "first_some (find_first tags) (node_children n) = Some m" using less.prems by (rule trans [OF sym])
    from bexE [OF first_some_Some [OF this]] obtain c where c: "c \<in> set (node_children n)" "find_first tags c = Some m" .
    show ?thesis by (rule below [OF c less.hyps [OF child_size [OF c(1)] c(2)]])
  qed
qed

function descendants :: "string \<Rightarrow> bool \<Rightarrow> html_node list \<Rightarrow> html_node list" where
  "descendants tag stop [] = []"
| "descendants tag stop (n # ns) =
     (if node_tag n = None \<or> excluded n then descendants tag stop ns
      else if has_tag [tag] n then n # (if stop then [] else descendants tag stop (node_children n)) @ descendants tag stop ns
      else descendants tag stop (node_children n) @ descendants tag stop ns)"
  by pat_completeness auto

lemma children_size: "size_list size (node_children n) < Suc (size n + size_list size ns)"
  by (cases n) auto

termination descendants
  by (relation "measure (\<lambda>(tag, stop, ns). size_list size ns)") (auto simp: children_size)

section \<open>Text and links\<close>

fun node_text :: "string list \<Rightarrow> html_node \<Rightarrow> string" where
  "node_text omit (TextNode value a b) = value"
| "node_text omit (Root ns a b) = join '' '' (map (node_text omit) ns)"
| "node_text omit (Element tag as ns a b) =
     (if excluded (Element tag as ns a b) \<or> tag \<in> set omit then []
      else join (if tag \<in> set block_elements \<or> tag = ''br'' then [newline] else '' '') (map (node_text omit) ns))"

definition prose_of :: "html_node \<Rightarrow> string" where
  "prose_of n = normalize_prose (node_text [] n)"

definition anchor_link :: "link_resolver \<Rightarrow> string \<Rightarrow> html_node \<Rightarrow> link list" where
  "anchor_link resolve u n =
     (case present (resolve_link resolve (nullish (attribute n ''href'') []) u) of
        None \<Rightarrow> []
      | Some target \<Rightarrow> if prose_of n = [] then [] else [\<lparr>lk_label = prose_of n, lk_target = target\<rparr>])"

function anchor_links :: "link_resolver \<Rightarrow> string \<Rightarrow> html_node list \<Rightarrow> link list" where
  "anchor_links resolve u [] = []"
| "anchor_links resolve u (n # ns) =
     (if node_tag n = None \<or> excluded n then []
      else (if has_tag [''a''] n then anchor_link resolve u n else []) @ anchor_links resolve u (node_children n))
     @ anchor_links resolve u ns"
  by pat_completeness auto

termination anchor_links
  by (relation "measure (\<lambda>(resolve, u, ns). size_list size ns)") (auto simp: children_size)

definition node_links :: "link_resolver \<Rightarrow> string \<Rightarrow> html_node \<Rightarrow> link list" where
  "node_links resolve u n = unique_links [] (anchor_links resolve u [n])"

section \<open>Blocks\<close>

definition element_block :: "string \<Rightarrow> html_node \<Rightarrow> string option block_body \<Rightarrow> draft_block" where
  "element_block content n body = draft content (node_start n) (node_end n) body"

definition visible_children :: "string list \<Rightarrow> html_node \<Rightarrow> html_node list" where
  "visible_children tags n = filter (\<lambda>m. has_tag tags m \<and> \<not> excluded m) (node_children n)"

definition table_rows :: "html_node \<Rightarrow> string list list" where
  "table_rows n = filter (list_ex (\<lambda>cell. cell \<noteq> []))
     (map (\<lambda>row. map prose_of (visible_children [''th'', ''td''] row)) (descendants ''tr'' True (node_children n)))"

definition first_is_header :: "html_node \<Rightarrow> bool" where
  "first_is_header n =
     (case descendants ''tr'' True (node_children n) of [] \<Rightarrow> False | row # _ \<Rightarrow> list_ex (has_tag [''th'']) (node_children row))"

definition table_block :: "string \<Rightarrow> link_resolver \<Rightarrow> string \<Rightarrow> html_node \<Rightarrow> draft_block list" where
  "table_block content resolve u n =
     (case table_rows n of
        [] \<Rightarrow> []
      | row # rows \<Rightarrow>
          [element_block content n
            (if first_is_header n then Table row rows (node_links resolve u n) else Table [] (row # rows) (node_links resolve u n))])"

definition item_of_node :: "link_resolver \<Rightarrow> string \<Rightarrow> nat \<Rightarrow> html_node \<Rightarrow> list_item list" where
  "item_of_node resolve u depth n =
     (let text = normalize_prose (node_text [''ol'', ''ul''] n)
      in if text = [] then [] else [\<lparr>it_text = text, it_depth = depth, it_links = node_links resolve u n\<rparr>])"

text \<open>The items below the visible children \<^verbatim>\<open>li\<close> of a list, with those of the lists directly in them.\<close>

function collect_items :: "link_resolver \<Rightarrow> string \<Rightarrow> nat \<Rightarrow> html_node \<Rightarrow> list_item list" where
  "collect_items resolve u depth n =
     concat (map (\<lambda>item. item_of_node resolve u depth item
         @ concat (map (collect_items resolve u (depth + 1)) (filter (has_tag [''ol'', ''ul'']) (node_children item))))
       (visible_children [''li''] n))"
  by pat_completeness auto

termination collect_items
proof (relation "measure (\<lambda>(resolve, u, depth, n). size n)", simp, clarsimp)
  fix n item m assume "item \<in> set (visible_children [''li''] n)" "m \<in> set (node_children item)"
  then have "size item < size n" "size m < size item" by (auto simp: visible_children_def child_size)
  then show "size m < size n" by simp
qed

declare collect_items.simps [simp del]

definition list_block :: "string \<Rightarrow> link_resolver \<Rightarrow> string \<Rightarrow> html_node \<Rightarrow> draft_block list" where
  "list_block content resolve u n =
     (case collect_items resolve u 0 n of
        [] \<Rightarrow> []
      | items \<Rightarrow> [element_block content n (Listing (has_tag [''ol''] n) items)])"

definition text_block :: "string \<Rightarrow> html_node \<Rightarrow> (string \<Rightarrow> string option block_body) \<Rightarrow> draft_block list" where
  "text_block content n body = (if prose_of n = [] then [] else [element_block content n (body (prose_of n))])"

definition class_language :: "html_node option \<Rightarrow> string option" where
  "class_language code =
     Option.bind (Option.bind code (\<lambda>n. attribute n ''class'')) (\<lambda>c.
       Option.bind (rx_exec (seqs [Alt TextStart space, lit_i ''language-'', Cap 1 (some_rx (Cls (\<lambda>c. rx_word c \<or> c \<in> set ''.+#-'')))]) c)
         (rx_group 1))"

definition code_block :: "string \<Rightarrow> html_node \<Rightarrow> draft_block" where
  "code_block content n =
     (let code = find_first [''code''] n
      in element_block content n (Code (class_language code) (normalize_code (node_text [] (nullish code n)))))"

text \<open>What a block element adds to the blocks, or \<open>None\<close> for a container, which is walked.\<close>

definition block_of_element :: "string \<Rightarrow> link_resolver \<Rightarrow> string \<Rightarrow> html_node \<Rightarrow> draft_block list option" where
  "block_of_element content resolve u n =
     (let links = node_links resolve u n in
      case node_tag n of
        None \<Rightarrow> None
      | Some tag \<Rightarrow>
          if tag \<in> set [''h1'', ''h2'', ''h3'', ''h4'', ''h5'', ''h6'']
          then Some (text_block content n (\<lambda>text. Heading (digit_value (tag ! 1)) text (present (attribute n ''id'')) links))
          else if tag \<in> set [''p'', ''summary'', ''figcaption''] then Some (text_block content n (\<lambda>text. Paragraph text links))
          else if tag = ''blockquote'' then Some (text_block content n (\<lambda>text. Quotation text links))
          else if tag = ''pre'' then Some [code_block content n]
          else if tag = ''table'' then Some (table_block content resolve u n)
          else if tag \<in> set [''ul'', ''ol''] then Some (list_block content resolve u n)
          else if tag = ''hr'' then Some []
          else None)"

definition inline_run :: "string \<Rightarrow> link_resolver \<Rightarrow> string \<Rightarrow> html_node list \<Rightarrow> draft_block list" where
  "inline_run content resolve u nodes =
     (case nodes of
        [] \<Rightarrow> []
      | n # ns \<Rightarrow>
          let text = normalize_prose (join '' '' (map (node_text []) nodes))
          in if text = [] then []
             else [draft content (fold min (map node_start ns) (node_start n)) (fold max (map node_end ns) (node_end n))
                    (Paragraph text (concat (map (node_links resolve u) nodes)))])"

text \<open>\<^verbatim>\<open>walkContainer\<close> over the rest of the children, with the inline nodes that are not flushed yet.\<close>

function walk_nodes ::
    "string \<Rightarrow> link_resolver \<Rightarrow> string \<Rightarrow> html_node list \<Rightarrow> html_node list \<Rightarrow> draft_block list \<times> nat" where
  "walk_nodes content resolve u inline [] = (inline_run content resolve u inline, 0)"
| "walk_nodes content resolve u inline (n # ns) =
     (if node_tag n = None then walk_nodes content resolve u (if prose_of n = [] then inline else inline @ [n]) ns
      else if excluded n then (case walk_nodes content resolve u inline ns of (bs, removed) \<Rightarrow> (bs, removed + 1))
      else if \<not> has_tag block_elements n then walk_nodes content resolve u (inline @ [n]) ns
      else
        let here = (case block_of_element content resolve u n of
              Some bs \<Rightarrow> (bs, 0)
            | None \<Rightarrow> walk_nodes content resolve u [] (node_children n));
            after = walk_nodes content resolve u [] ns
        in (inline_run content resolve u inline @ fst here @ fst after, snd here + snd after))"
  by pat_completeness auto

termination walk_nodes
  by (relation "measure (\<lambda>(content, resolve, u, inline, ns). size_list size ns)") (auto simp: children_size)

definition main_element :: "html_node \<Rightarrow> html_node" where
  "main_element root =
     nullish (find_first [''main''] root) (nullish (find_first [''article''] root) (nullish (find_first [''body''] root) root))"

definition removed_note :: "nat \<Rightarrow> diagnostic list" where
  "removed_note removed =
     (if removed = 0 then []
      else [(parse_note BoilerplateRemoved Info ''Navigation, hidden, or active HTML elements were excluded from normalized content.'')
              \<lparr>dg_details := Some [(''removedElements'', JNum (int removed))]\<rparr>])"

definition first_title :: "draft_block list \<Rightarrow> string" where
  "first_title bs =
     (case find (\<lambda>b. case df_body b of Heading level _ _ _ \<Rightarrow> level = 1 | _ \<Rightarrow> False) bs of
        None \<Rightarrow> []
      | Some b \<Rightarrow> (case df_body b of Heading _ text _ _ \<Rightarrow> text | _ \<Rightarrow> []))"

definition document_of_tree :: "string \<Rightarrow> link_resolver \<Rightarrow> string \<Rightarrow> html_node \<Rightarrow> parse_result" where
  "document_of_tree content resolve u root =
     (let found = walk_nodes content resolve u [] (node_children (main_element root));
          title = (case find_first [''title''] root of None \<Rightarrow> [] | Some n \<Rightarrow> prose_of n)
      in \<lparr>pr_title = (if title = [] then first_title (fst found) else title), pr_blocks = fst found,
          pr_diagnostics = removed_note (snd found)\<rparr>)"

definition parse_html_document :: "(nat \<Rightarrow> string) \<Rightarrow> link_resolver \<Rightarrow> string \<Rightarrow> string \<Rightarrow> parse_result" where
  "parse_html_document wide resolve content u = document_of_tree content resolve u (parse_html wide content)"

end
