(* ===== verification/Structured.thy ===== *)
theory Structured
  imports YamlLayout HtmlDoc
begin

text \<open>
  Structured documents (\<^verbatim>\<open>structured.ts\<close>): from a JSON value to blocks, for any value and for an OpenAPI
  document. The bodies of the blocks are computed first; each block then spans the whole content. A
  member that is not there is \<open>JUndef\<close>; \<open>wide\<close> is the text of a code point above 255.
\<close>

section \<open>Texts of values and keys\<close>

fun is_scalar :: "json \<Rightarrow> bool" where
  "is_scalar JUndef = False"
| "is_scalar (JArr vs) = False"
| "is_scalar (JObj kvs) = False"
| "is_scalar _ = True"

fun is_container :: "json \<Rightarrow> bool" where
  "is_container (JArr vs) = True"
| "is_container (JObj kvs) = True"
| "is_container _ = False"

fun scalar_text :: "json \<Rightarrow> string" where
  "scalar_text (JStr s) = normalize_prose s"
| "scalar_text (JArr vs) = normalize_prose (stringify (JArr vs))"
| "scalar_text (JObj kvs) = normalize_prose (stringify (JObj kvs))"
| "scalar_text v = stringify v"

text \<open>\<^verbatim>\<open>a ?? b ?? c\<close>\<close>

fun coalesce :: "json list \<Rightarrow> json \<Rightarrow> json" where
  "coalesce [] d = d"
| "coalesce (v # vs) d = (if v = JUndef \<or> v = JNull then coalesce vs d else v)"

text \<open>\<^verbatim>\<open>toUpperCase\<close> of one character below 256.\<close>

definition upper_letter :: "(nat \<Rightarrow> string) \<Rightarrow> char \<Rightarrow> string" where
  "upper_letter wide c =
     (let n = of_char c :: nat
      in if is_lower c \<or> (224 \<le> n \<and> n \<le> 254 \<and> n \<noteq> 247) then [char_of (n - 32)]
         else if n = 223 then ''SS'' else if n = 255 then wide 376 else if n = 181 then wide 924 else [c])"

definition word_break_rx :: rx where
  "word_break_rx = some_rx (one ''_-'')"

definition hump_rx :: rx where
  "hump_rx = Seq (Cap 1 (Cls (\<lambda>c. is_lower c \<or> is_digit c))) (Cap 2 (Cls is_upper))"

definition display_key :: "(nat \<Rightarrow> string) \<Rightarrow> string \<Rightarrow> string" where
  "display_key wide s =
     (case rx_replace_all hump_rx (\<lambda>m. match_group 1 m @ '' '' @ match_group 2 m)
             (rx_replace_all word_break_rx (\<lambda>_. '' '') s) of
        [] \<Rightarrow> ''Section''
      | c # cs \<Rightarrow> upper_letter wide c @ cs)"

section \<open>Links\<close>

definition value_link_rx :: rx where
  "value_link_rx = Alt
     (seqs [lit ''['', Cap 1 (some_rx (but '']'')), lit ''](''  , Cap 2 (some_rx (Cls (\<lambda>c. \<not> is_ws c \<and> c \<noteq> CHR '')''))), lit '')''])
     (Seq WordEdge (Cap 3 (Seq link_scheme_rx (some_rx (Cls (\<lambda>c. \<not> is_ws c \<and> c \<notin> set (''<>'' @ quotes)))))))"

definition link_field_rx :: rx where
  "link_field_rx = seqs [TextStart, words_i [''url'', ''href'', ''externalDocs'', ''documentation''], TextEnd]"

fun link_pairs :: "(nat \<Rightarrow> string) \<Rightarrow> string \<Rightarrow> json \<Rightarrow> (string \<times> string) list" where
  "link_pairs wide field (JStr s) =
     map (\<lambda>m. (nullish (rx_group 1 m) field, nullish (rx_group 2 m) (match_group 3 m))) (rx_all value_link_rx [] s)
     @ (if rx_test link_field_rx field then [(display_key wide field, s)] else [])"
| "link_pairs wide field (JArr vs) = concat (map (link_pairs wide field) vs)"
| "link_pairs wide field (JObj kvs) = concat (map (\<lambda>(k, v). link_pairs wide k v) kvs)"
| "link_pairs wide field _ = []"

definition value_link :: "link_resolver \<Rightarrow> string \<Rightarrow> string \<times> string \<Rightarrow> link list" where
  "value_link resolve u = (\<lambda>(label, target).
     case present (resolve_link resolve target u) of
       None \<Rightarrow> []
     | Some resolved \<Rightarrow> [\<lparr>lk_label = or_else (normalize_prose label) target, lk_target = resolved\<rparr>])"

definition structured_links :: "(nat \<Rightarrow> string) \<Rightarrow> link_resolver \<Rightarrow> string \<Rightarrow> json \<Rightarrow> link list" where
  "structured_links wide resolve u v =
     unique_links [] (concat (map (value_link resolve u) (link_pairs wide ''link'' v)))"

section \<open>Blocks of a value\<close>

type_synonym draft_body = "string option block_body"

definition prose_field_rx :: rx where
  "prose_field_rx = seqs [TextStart, words_i [''description'', ''summary''], TextEnd]"

definition sample_field_rx :: rx where
  "sample_field_rx = words_i [''code'', ''example'', ''schema'', ''request'', ''response'']"

definition prose_field :: "string \<times> json \<Rightarrow> bool" where
  "prose_field kv \<longleftrightarrow> is_scalar (snd kv) \<and> rx_test prose_field_rx (fst kv) \<and> scalar_text (snd kv) \<noteq> []"

definition row_field :: "string \<times> json \<Rightarrow> bool" where
  "row_field kv \<longleftrightarrow> is_scalar (snd kv) \<and> \<not> prose_field kv"

definition simple_heading :: "nat \<Rightarrow> string \<Rightarrow> draft_body" where
  "simple_heading level s = Heading level s None []"

definition field_table :: "string list list \<Rightarrow> link list \<Rightarrow> draft_body" where
  "field_table rows links = Table [''Field'', ''Value''] rows links"

definition scalar_bodies :: "(nat \<Rightarrow> string) \<Rightarrow> (json \<Rightarrow> link list) \<Rightarrow> json_object \<Rightarrow> draft_body list" where
  "scalar_bodies wide links kvs =
     map (\<lambda>kv. Paragraph (scalar_text (snd kv)) (links (snd kv))) (filter prose_field kvs)
     @ (let rows = map (\<lambda>kv. [display_key wide (fst kv), scalar_text (snd kv)]) (filter row_field kvs)
        in if rows = [] then [] else [field_table rows (links (JObj kvs))])"

definition sample_bodies :: "string \<Rightarrow> string \<Rightarrow> json \<Rightarrow> draft_body list" where
  "sample_bodies key field v = (case v of
     JStr s \<Rightarrow> if newline \<in> set s \<and> rx_test sample_field_rx (or_else field key) then [Code None (normalize_code s)] else []
   | _ \<Rightarrow> [])"

definition item_label :: "nat \<Rightarrow> json \<Rightarrow> string" where
  "item_label i v =
     (let kvs = nullish (object_value v) []
      in scalar_text (coalesce [member kvs ''name'', member kvs ''title'', member kvs ''operationId'']
           (JStr (''Item '' @ nat_str (i + 1)))))"

function value_bodies :: "(nat \<Rightarrow> string) \<Rightarrow> (json \<Rightarrow> link list) \<Rightarrow> nat \<Rightarrow> string \<Rightarrow> json \<Rightarrow> draft_body list" where
  "value_bodies wide links level key v = (case v of
     JArr vs \<Rightarrow>
       if list_all is_scalar vs
       then [Listing False (map (\<lambda>v. \<lparr>it_text = scalar_text v, it_depth = 0, it_links = []\<rparr>) vs)]
       else concat (map (\<lambda>(i, item).
         simple_heading (min 6 level) (item_label i item) # value_bodies wide links (level + 1) [] item) (enumerate 0 vs))
   | JObj kvs \<Rightarrow>
       scalar_bodies wide links kvs
       @ concat (map (\<lambda>(field, item).
           if is_container item
           then simple_heading (min 6 level) (display_key wide field) # value_bodies wide links (level + 1) field item
           else sample_bodies key field item) kvs)
   | _ \<Rightarrow> if scalar_text v = [] then [] else [Paragraph (scalar_text v) []])"
  by pat_completeness auto
termination
  by (relation "measure (\<lambda>(wide, links, level, key, v). size v)")
    (auto dest!: in_set_enumerate_eq [THEN iffD1] simp: less_Suc_eq_le intro!: size_list_estimation')

declare value_bodies.simps [simp del]

definition over_content :: "string \<Rightarrow> draft_body \<Rightarrow> draft_block" where
  "over_content content = draft content 0 (length content)"

definition structured_bodies :: "(nat \<Rightarrow> string) \<Rightarrow> link_resolver \<Rightarrow> string \<Rightarrow> json \<Rightarrow> draft_body list" where
  "structured_bodies wide resolve u v = value_bodies wide (structured_links wide resolve u) 2 [] v"

definition structured_blocks ::
    "(nat \<Rightarrow> string) \<Rightarrow> link_resolver \<Rightarrow> json \<Rightarrow> string \<Rightarrow> string \<Rightarrow> draft_block list" where
  "structured_blocks wide resolve v content u = map (over_content content) (structured_bodies wide resolve u v)"

section \<open>Blocks of an OpenAPI document\<close>

text \<open>\<^verbatim>\<open>JSON.stringify(v, null, 2)\<close>\<close>

fun stringify_indented :: "string \<Rightarrow> json \<Rightarrow> string" where
  "stringify_indented gap (JArr vs) =
     (if vs = [] then ''[]''
      else ''['' @ newline # join ('','' @ [newline]) (map (\<lambda>v. gap @ ''  '' @ stringify_indented (gap @ ''  '') v) vs)
        @ newline # gap @ '']'')"
| "stringify_indented gap (JObj kvs) =
     (if list_all (\<lambda>kv. snd kv = JUndef) kvs then ''{}''
      else ''{'' @ newline # join ('','' @ [newline])
             (map (\<lambda>(k, v). gap @ ''  '' @ quote k @ '': '' @ stringify_indented (gap @ ''  '') v)
               (filter (\<lambda>(k, v). v \<noteq> JUndef) kvs))
        @ newline # gap @ ''}'')"
| "stringify_indented gap v = stringify v"

definition json_code :: "json \<Rightarrow> draft_body" where
  "json_code v = Code (Some ''json'') (stringify_indented [] v)"

definition filled_rows :: "string list list \<Rightarrow> string list list" where
  "filled_rows rows = filter (\<lambda>row. row ! 1 \<noteq> []) rows"

definition overview_bodies :: "(json \<Rightarrow> link list) \<Rightarrow> json_object \<Rightarrow> draft_body list" where
  "overview_bodies links root =
     (let info = nullish (object_value (member root ''info'')) [];
          description = scalar_text (coalesce [member info ''description''] (JStr []))
      in simple_heading 2 ''Overview''
         # (if description = [] then [] else [Paragraph description (links (member info ''description''))])
         @ [field_table (filled_rows
              [[''OpenAPI version'', scalar_text (coalesce [member root ''openapi'', member root ''swagger''] (JStr []))],
               [''API version'', scalar_text (coalesce [member info ''version''] (JStr []))]])
              (links (JObj root))])"

definition named_parts :: "json_object \<Rightarrow> string \<Rightarrow> json_object" where
  "named_parts root part = nullish (object_value (optional_member (member root ''components'') part)) []"

definition authentication_bodies :: "(nat \<Rightarrow> string) \<Rightarrow> (json \<Rightarrow> link list) \<Rightarrow> json_object \<Rightarrow> draft_body list" where
  "authentication_bodies wide links root =
     (let schemes = named_parts root ''securitySchemes''
      in if schemes = [] then []
         else simple_heading 2 ''Authentication'' # concat (map (\<lambda>(name, scheme).
           simple_heading 3 name # filter (\<lambda>b. \<not> is_heading b) (value_bodies wide links 2 [] scheme)) schemes))"

definition listed_operations :: "json_object \<Rightarrow> (string \<times> string \<times> json) list" where
  "listed_operations root =
     concat (map (\<lambda>(path, item). map (\<lambda>(verb, v). (verb, path, v))
       (filter (\<lambda>(verb, v). to_lower verb \<in> set http_methods) (nullish (object_value item) [])))
       (nullish (object_value (member root ''paths'')) []))"

definition operation_rows :: "json_object \<Rightarrow> string list list" where
  "operation_rows operation = filled_rows
     [[''Operation ID'', scalar_text (coalesce [member operation ''operationId''] (JStr []))],
      [''Tags'', case member operation ''tags'' of JArr vs \<Rightarrow> join '', '' (map scalar_text vs) | _ \<Rightarrow> []],
      [''Deprecated'', if member operation ''deprecated'' = JBool True then ''true'' else []]]"

definition operation_bodies :: "(nat \<Rightarrow> string) \<Rightarrow> string \<times> string \<times> json \<Rightarrow> draft_body list" where
  "operation_bodies wide = (\<lambda>(verb, path, v).
     let operation = nullish (object_value v) [];
         summary = scalar_text (coalesce [member operation ''summary'', member operation ''description''] (JStr []));
         rows = operation_rows operation
     in simple_heading 3 (to_upper verb @ '' '' @ path)
        # (if summary = [] then [] else [Paragraph summary []])
        @ (if rows = [] then [] else [field_table rows []])
        @ concat (map (\<lambda>field. case jm_get operation field of
              None \<Rightarrow> []
            | Some part \<Rightarrow> [simple_heading 4 (display_key wide field), json_code part])
            [''parameters'', ''requestBody'', ''responses'', ''callbacks'']))"

definition schema_bodies :: "json_object \<Rightarrow> draft_body list" where
  "schema_bodies root =
     (let schemas = named_parts root ''schemas''
      in if schemas = [] then []
         else simple_heading 2 ''Schemas'' # concat (map (\<lambda>(name, schema). [simple_heading 3 name, json_code schema]) schemas))"

definition openapi_bodies :: "(nat \<Rightarrow> string) \<Rightarrow> link_resolver \<Rightarrow> string \<Rightarrow> json_object \<Rightarrow> draft_body list" where
  "openapi_bodies wide resolve u root =
     (let links = structured_links wide resolve u
      in overview_bodies links root @ authentication_bodies wide links root
         @ simple_heading 2 ''Operations'' # concat (map (operation_bodies wide) (listed_operations root))
         @ schema_bodies root)"

definition openapi_blocks ::
    "(nat \<Rightarrow> string) \<Rightarrow> link_resolver \<Rightarrow> json_object \<Rightarrow> string \<Rightarrow> string \<Rightarrow> draft_block list" where
  "openapi_blocks wide resolve root content u = map (over_content content) (openapi_bodies wide resolve u root)"

section \<open>Documents\<close>

definition openapi_root :: "json \<Rightarrow> json_object option" where
  "openapi_root v = (case object_value v of
     None \<Rightarrow> None
   | Some root \<Rightarrow>
       if (is_text (member root ''openapi'') \<or> is_text (member root ''swagger'')) \<and> object_value (member root ''paths'') \<noteq> None
       then Some root else None)"

definition structured_title :: "json \<Rightarrow> string" where
  "structured_title v = scalar_text (coalesce
     [optional_member (optional_member v ''info'') ''title'', optional_member v ''title''] (JStr []))"

definition parse_failed :: "bool \<Rightarrow> diagnostic" where
  "parse_failed is_json = parse_note StructuredParseFailed Error
     (''The '' @ (if is_json then ''JSON'' else ''YAML'')
       @ '' source could not be parsed structurally and was preserved as inert text.'')"

definition parse_structured_document ::
    "(nat \<Rightarrow> string) \<Rightarrow> (string \<Rightarrow> json option) \<Rightarrow> link_resolver \<Rightarrow> string \<Rightarrow> bool \<Rightarrow> document_kind \<Rightarrow> string
      \<Rightarrow> parse_result \<times> document_kind" where
  "parse_structured_document wide json_parse resolve content is_json requested u =
     (case parse_structured_value json_parse content is_json of
        Inl e \<Rightarrow>
          (\<lparr>pr_title = [],
             pr_blocks = [over_content content (Code (Some (if is_json then ''json'' else ''yaml'')) (normalize_code content))],
             pr_diagnostics = [parse_failed is_json]\<rparr>, requested)
      | Inr v \<Rightarrow>
          (\<lparr>pr_title = structured_title v,
             pr_blocks = (case openapi_root v of
                 Some root \<Rightarrow> openapi_blocks wide resolve root content u
               | None \<Rightarrow> structured_blocks wide resolve v content u),
             pr_diagnostics = []\<rparr>,
           if openapi_root v = None then requested else OpenapiKind))"

section \<open>The parsers of the crawler\<close>

definition crawler_parsers :: "(nat \<Rightarrow> string) \<Rightarrow> (string \<Rightarrow> json option) \<Rightarrow> link_resolver \<Rightarrow> parsers" where
  "crawler_parsers wide json_parse resolve =
     \<lparr>ps_html = parse_html_document wide resolve,
      ps_markdown = parse_markdown resolve,
      ps_structured = parse_structured_document wide json_parse resolve\<rparr>"

end
