(* ===== verification/CrawlerCorpus.thy ===== *)
theory CrawlerCorpus
  imports PersistIds Structured
begin

text \<open>The notes of the crawler's own parsers: they name no section and no evidence.\<close>

lemma plain_parse_note [simp]: "plain_note (parse_note code sev message)"
  by (simp add: plain_note_def parse_note_def)

lemma html_notes: "list_all plain_note (pr_diagnostics (parse_html_document wide resolve content u))"
  by (simp add: parse_html_document_def document_of_tree_def removed_note_def Let_def) (simp add: plain_note_def parse_note_def)

definition noted :: "markdown_step \<Rightarrow> bool" where
  "noted st \<longleftrightarrow> list_all plain_note (fst (snd (snd st)))"

lemma noted_simps [simp]:
  "noted (title, bs, gs, below) \<longleftrightarrow> list_all plain_note gs" "noted (one_block title gs r) \<longleftrightarrow> list_all plain_note gs"
  "noted (read_heading content resolve u title found l ls)" "noted (read_underlined content resolve u title l ls)"
  by (simp_all add: noted_def one_block_def read_heading_def read_underlined_def Let_def split_beta)

lemma step_noted: "noted (markdown_step content resolve u mdx title l ls)"
  unfolding markdown_step_def Let_def by (auto simp: mdx_note_def split: if_split option.split prod.split)

lemma loop_noted: "list_all plain_note (snd (snd (markdown_loop content resolve u mdx title ls)))"
proof (induction content resolve u mdx title ls rule: markdown_loop.induct)
  case (2 content resolve u mdx title l ls)
  then show ?case using step_noted [of content resolve u mdx title l ls] by (simp add: noted_def Let_def)
qed simp

lemma crawler_notes: "plain_notes parse (crawler_parsers wide json_parse resolve) inputs"
proof -
  have "list_all plain_note (pr_diagnostics (fst (parsed_document (crawler_parsers wide json_parse resolve) i f)))" for i f
  proof -
    have "list_all plain_note (pr_diagnostics (parse_markdown resolve content u mdx))" for content u mdx
      by (simp add: parse_markdown_def loop_noted Let_def)
    moreover have "list_all plain_note (pr_diagnostics (fst (parse_structured_document wide json_parse resolve content is_json kind u)))"
      for content is_json kind u
      by (simp add: parse_structured_document_def parse_failed_def split: sum.split)
    ultimately show ?thesis
      by (cases f) (simp_all add: parsed_document_def crawler_parsers_def html_notes parse_text_def Let_def)
  qed
  then show ?thesis by (simp add: plain_notes_def list_all_iff)
qed

end
