(* ===== verification/PersistSafe.thy ===== *)
theory PersistSafe
  imports Persist "HOL-Library.Sublist"
begin

text \<open>
  What the transactions of \<^verbatim>\<open>crawler/candidate-persistence.ts\<close> guarantee: which rows each step leaves alone, what a
  successful attempt has written, and that attempts are fenced by the lease and idempotent.
\<close>

section \<open>Inserts\<close>

lemma insert_unique_Inr: "insert_unique clash r rows = Inr rows' \<longleftrightarrow> \<not> list_ex (clash r) rows \<and> rows' = rows @ [r]"
  by (auto simp: insert_unique_def)

lemma insert_all_Inr:
  "insert_all clash rs rows = Inr rows' \<Longrightarrow> rows' = rows @ rs \<and> sorted_wrt (\<lambda>a b. \<not> clash b a) rs
     \<and> (\<forall>r\<in>set rs. \<not> list_ex (clash r) rows)"
proof (induction rs arbitrary: rows)
  case (Cons r rs)
  then have new: "\<not> list_ex (clash r) rows" and more: "insert_all clash rs (rows @ [r]) = Inr rows'"
    by (auto simp: insert_unique_def split: if_splits)
  show ?case using Cons.IH [OF more] new by auto
qed simp

lemma update_where_where: "x \<in> set (update_where p f rows) \<longleftrightarrow> (\<exists>r\<in>set rows. x = (if p r then f r else r))"
  by (auto simp: update_where_def)

section \<open>What each step leaves alone\<close>

text \<open>The rows of the candidates: a transaction only adds to them.\<close>

definition only_adds :: "asset_db \<Rightarrow> asset_db \<Rightarrow> bool" where
  "only_adds db db' \<longleftrightarrow>
     prefix (ab_documents db) (ab_documents db') \<and> prefix (ab_sections db) (ab_sections db') \<and> prefix (ab_maps db) (ab_maps db')
     \<and> prefix (ab_candidates db) (ab_candidates db') \<and> prefix (ab_operations db) (ab_operations db')
     \<and> prefix (ab_schemas db) (ab_schemas db') \<and> prefix (ab_examples db) (ab_examples db')
     \<and> prefix (ab_contract_maps db) (ab_contract_maps db')"

text \<open>The jobs, the bindings and the runs of other jobs are left alone.\<close>

definition other_runs :: "job \<Rightarrow> asset_db \<Rightarrow> asset_run list" where
  "other_runs job db = filter (\<lambda>r. rn_id r \<noteq> j_id job) (ab_runs db)"

definition keeps_rest :: "job \<Rightarrow> asset_db \<Rightarrow> asset_db \<Rightarrow> bool" where
  "keeps_rest job db db' \<longleftrightarrow>
     ab_core db' = ab_core db \<and> ab_bindings db' = ab_bindings db \<and> ab_contracts db' = ab_contracts db
     \<and> other_runs job db' = other_runs job db \<and> only_adds db db'"

lemma only_adds_refl [simp]: "only_adds db db"
  by (simp add: only_adds_def)

lemma keeps_rest_refl [simp]: "keeps_rest job db db"
  by (simp add: keeps_rest_def)

lemma keeps_rest_trans: "keeps_rest job db db' \<Longrightarrow> keeps_rest job db' db'' \<Longrightarrow> keeps_rest job db db''"
  by (auto simp: keeps_rest_def only_adds_def intro: prefix_order.trans)

lemma other_runs_update:
  assumes "\<And>r. rn_id (f r) = rn_id r" "\<And>r. p r \<Longrightarrow> rn_id r = j_id job"
  shows "filter (\<lambda>r. rn_id r \<noteq> j_id job) (update_where p f rs) = filter (\<lambda>r. rn_id r \<noteq> j_id job) rs"
  using assms by (induction rs) (auto simp: update_where_def)

lemma insert_run_rest: "insert_run job shape db = Inr db' \<Longrightarrow> keeps_rest job db db'"
  by (auto simp: insert_run_def keeps_rest_def only_adds_def other_runs_def new_run_def split: option.splits if_splits)

lemma update_run_rest:
  assumes "update_run r f db = Inr db'" "rn_id r = j_id job" "\<And>x. rn_id (f x) = rn_id x"
  shows "keeps_rest job db db'"
  using assms by (auto simp: update_run_def keeps_rest_def only_adds_def other_runs_def other_runs_update split: if_splits)

lemma acquire_run_id [simp]: "rn_id (acquire_run db job shape r) = rn_id r" "rn_id (start_run db job shape r) = rn_id r"
  "rn_id (finished_run db ds r) = rn_id r"
  by (simp_all add: acquire_run_def start_run_def finished_run_def)

lemma advance_run_rest:
  assumes "advance_run job shape db r = Inr (p, db')" "rn_id r = j_id job"
  shows "keeps_rest job db db'"
proof (cases "rn_state r = RunQueued")
  case True
  then obtain db1 where "update_run r (start_run db job shape) db = Inr db1" "db' = db1"
    using assms(1) by (auto simp: advance_run_def conflict_def throw_def split: if_splits)
  then show ?thesis using update_run_rest assms(2) by fastforce
next
  case False
  then have "db' = db \<or> update_run r (acquire_run db job shape) db = Inr db'"
    using assms(1) by (auto simp: advance_run_def conflict_def throw_def split: if_splits)
  then show ?thesis using update_run_rest assms(2) by fastforce
qed

lemma ensure_running_run_rest:
  assumes "ensure_running_run job shape db = Inr (p, db')"
  shows "keeps_rest job db db'"
proof -
  obtain db1 r where "insert_run job shape db = Inr db1" "find (\<lambda>r. rn_id r = j_id job) (ab_runs db1) = Some r"
    "advance_run job shape db1 r = Inr (p, db')"
    using assms by (auto simp: ensure_running_run_def conflict_def throw_def split: option.splits)
  then show ?thesis
    by (metis (mono_tags, lifting) advance_run_rest find_Some_iff insert_run_rest keeps_rest_trans)
qed

lemma insert_stages_rest: "insert_stages job sts db = Inr db' \<Longrightarrow> keeps_rest job db db'"
  by (auto simp: insert_stages_def keeps_rest_def only_adds_def other_runs_def)

lemma mark_review_ready_rest:
  assumes "mark_review_ready job ds db = Inr db'"
  shows "keeps_rest job db db'"
proof -
  have "filter (\<lambda>r. rn_id r \<noteq> j_id job) (update_where (\<lambda>r. rn_id r = j_id job \<and> rn_state r = RunRunning \<and> rn_owner r = j_lease_owner job)
      (finished_run db ds) (ab_runs db)) = filter (\<lambda>r. rn_id r \<noteq> j_id job) (ab_runs db)"
    by (rule other_runs_update) simp_all
  then show ?thesis
    using assms by (auto simp: mark_review_ready_def Let_def throw_def keeps_rest_def only_adds_def other_runs_def split: if_splits)
qed

section \<open>The run of a job\<close>

definition run_of :: "job \<Rightarrow> asset_db \<Rightarrow> asset_run option" where
  "run_of job db = find (\<lambda>r. rn_id r = j_id job) (ab_runs db)"

text \<open>The run holds the identity and the input that a shape describes.\<close>

definition run_holds :: "job \<Rightarrow> run_shape \<Rightarrow> asset_run \<Rightarrow> bool" where
  "run_holds job shape r \<longleftrightarrow>
     run_identity_matches r job shape \<and> rn_manifest_hash r = sh_hash shape \<and> rn_source_hash r = sh_hash shape"

lemma find_update:
  assumes "\<And>x. rn_id (f x) = rn_id x"
  shows "find (\<lambda>r. rn_id r = i) (update_where p f rs) = map_option (\<lambda>r. if p r then f r else r) (find (\<lambda>r. rn_id r = i) rs)"
  using assms by (induction rs) (auto simp: update_where_def)

lemma update_run_of:
  assumes "update_run r f db = Inr db'" "run_of job db = Some r" "\<And>x. rn_id (f x) = rn_id x"
  shows "run_of job db' = Some (f r)"
proof -
  have "rn_id r = j_id job"
    using assms(2) by (auto simp: run_of_def find_Some_iff)
  then show ?thesis
    using assms find_update [OF assms(3)] by (auto simp: update_run_def run_of_def split: if_splits)
qed

lemma advance_run_started:
  assumes "advance_run job shape db r = Inr (RunStarted, db')" "run_of job db = Some r"
  shows "\<exists>r'. run_of job db' = Some r' \<and> run_holds job shape r' \<and> rn_state r' = RunRunning \<and> rn_attempt r' = j_attempt job
    \<and> rn_owner r' = j_lease_owner job"
proof (cases "rn_state r = RunQueued")
  case True
  then have "update_run r (start_run db job shape) db = Inr db'" "run_identity_matches r job shape" "rn_attempt r = j_attempt job"
    using assms(1) by (auto simp: advance_run_def conflict_def throw_def split: if_splits)
  then show ?thesis
    using update_run_of [of r _ db db' job] assms(2)
    by (auto simp: run_holds_def run_identity_matches_def start_run_def acquire_run_def)
next
  case False
  then have "update_run r (acquire_run db job shape) db = Inr db'" "run_identity_matches r job shape" "rn_attempt r = j_attempt job"
    "rn_state r = RunRunning"
    using assms(1) by (auto simp: advance_run_def conflict_def throw_def split: if_splits)
  then show ?thesis
    using update_run_of [of r _ db db' job] assms(2)
    by (auto simp: run_holds_def run_identity_matches_def acquire_run_def)
qed

lemma ensure_started:
  assumes "ensure_running_run job shape db = Inr (RunStarted, db')"
  shows "\<exists>r. run_of job db' = Some r \<and> run_holds job shape r \<and> rn_state r = RunRunning \<and> rn_attempt r = j_attempt job
    \<and> rn_owner r = j_lease_owner job"
  using assms advance_run_started
  by (auto simp: ensure_running_run_def run_of_def conflict_def throw_def split: option.splits)

lemma advance_run_complete:
  "advance_run job shape db r = Inr (RunComplete, db') \<longleftrightarrow>
     db' = db \<and> (rn_state r = RunReviewReady \<or> rn_state r = RunPublished) \<and> run_holds job shape r"
  by (auto simp: advance_run_def conflict_def throw_def run_holds_def)

lemma insert_run_present:
  assumes "run_of job db = Some r"
  shows "insert_run job shape db = Inr db"
  using assms by (auto simp: insert_run_def run_of_def find_Some_iff list_ex_iff split: option.splits)

lemma find_snoc_absent: "find P rs = None \<Longrightarrow> find P (rs @ [x]) = (if P x then Some x else None)"
  by (induction rs) (auto split: if_splits)

lemma new_run_fields [simp]: "rn_id (new_run cdb job shape r) = j_id job" "rn_state (new_run cdb job shape r) = RunRunning"
  by (simp_all add: new_run_def)

lemma insert_run_absent:
  assumes "insert_run job shape db = Inr db'" "run_of job db = None" "run_of job db' = Some r"
  shows "rn_state r = RunRunning"
  using assms by (auto simp: insert_run_def run_of_def find_snoc_absent split: option.splits if_splits)

lemma ensure_complete:
  "ensure_running_run job shape db = Inr (RunComplete, db') \<longleftrightarrow>
     db' = db \<and> (\<exists>r. run_of job db = Some r \<and> (rn_state r = RunReviewReady \<or> rn_state r = RunPublished) \<and> run_holds job shape r)"
proof (cases "run_of job db")
  case (Some r)
  then show ?thesis
    by (auto simp: ensure_running_run_def insert_run_present [OF Some] run_of_def [symmetric] advance_run_complete)
next
  case None
  have "\<nexists>db'. ensure_running_run job shape db = Inr (RunComplete, db')"
  proof
    assume "\<exists>db'. ensure_running_run job shape db = Inr (RunComplete, db')"
    then obtain db1 db2 r where "insert_run job shape db = Inr db1" "run_of job db1 = Some r"
      "advance_run job shape db1 r = Inr (RunComplete, db2)"
      by (auto simp: ensure_running_run_def run_of_def conflict_def throw_def split: option.splits)
    then show False using insert_run_absent None by (fastforce simp: advance_run_complete)
  qed
  then show ?thesis using None by auto
qed

lemma mark_review_ready_run:
  assumes "mark_review_ready job ds db = Inr db'" "run_of job db = Some r" "rn_state r = RunRunning" "rn_owner r = j_lease_owner job"
  shows "run_of job db' = Some (finished_run db ds r)"
proof -
  have "rn_id r = j_id job"
    using assms(2) by (auto simp: run_of_def find_Some_iff)
  then show ?thesis
    using assms by (auto simp: mark_review_ready_def Let_def throw_def run_of_def find_update split: if_splits)
qed

lemma insert_stages_fields:
  "insert_stages job sts db = Inr db' \<Longrightarrow> \<exists>rows. db' = db\<lparr>ab_stages := rows\<rparr> \<and> upsert_stages (map (stage_row_of db job) sts) (ab_stages db) = Inr rows"
  by (auto simp: insert_stages_def)

text \<open>The run after a successful transaction.\<close>

definition ready_run :: "job \<Rightarrow> run_shape \<Rightarrow> asset_run \<Rightarrow> bool" where
  "ready_run job shape r \<longleftrightarrow> run_holds job shape r \<and> rn_state r = RunReviewReady \<and> rn_attempt r = j_attempt job
     \<and> rn_owner r = [] \<and> rn_expires r = None \<and> rn_finished r \<noteq> None"

lemma finished_ready:
  "run_holds job shape r \<Longrightarrow> rn_attempt r = j_attempt job \<Longrightarrow> ready_run job shape (finished_run db ds r)"
  by (simp add: ready_run_def run_holds_def run_identity_matches_def finished_run_def)

section \<open>Writing a candidate\<close>

lemma mark_review_ready_fields:
  "mark_review_ready job ds db = Inr db' \<Longrightarrow> \<exists>runs. db' = db\<lparr>ab_runs := runs\<rparr>"
  by (auto simp: mark_review_ready_def Let_def throw_def split: if_splits)

text \<open>The last two steps: the stages are written and the run is handed to the review.\<close>

lemma finish_run:
  assumes "insert_stages job sts db = Inr db1" "mark_review_ready job ds db1 = Inr db2"
    and "run_of job db = Some r" "run_holds job shape r" "rn_state r = RunRunning" "rn_attempt r = j_attempt job" "rn_owner r = j_lease_owner job"
  shows "(\<exists>rows runs. db2 = db\<lparr>ab_stages := rows, ab_runs := runs\<rparr> \<and> upsert_stages (map (stage_row_of db job) sts) (ab_stages db) = Inr rows)
    \<and> (\<exists>r. run_of job db2 = Some r \<and> ready_run job shape r)"
proof -
  obtain rows where rows: "db1 = db\<lparr>ab_stages := rows\<rparr>" "upsert_stages (map (stage_row_of db job) sts) (ab_stages db) = Inr rows"
    using insert_stages_fields [OF assms(1)] by blast
  then have "run_of job db1 = Some r" using assms(3) by (simp add: run_of_def)
  then have "run_of job db2 = Some (finished_run db1 ds r)"
    using mark_review_ready_run [OF assms(2)] assms(5,7) by blast
  moreover have "ready_run job shape (finished_run db1 ds r)"
    using assms(4,6) by (rule finished_ready)
  moreover obtain runs where "db2 = db1\<lparr>ab_runs := runs\<rparr>"
    using mark_review_ready_fields [OF assms(2)] by blast
  ultimately show ?thesis using rows by auto
qed

lemma conflict_not_Inr [simp]: "conflict m \<noteq> Inr x"
  by (simp_all add: throw_def conflict_def)

lemma add_section_rows_adds: "add_section_rows job w ss (rows, first) = Inr (rows', first') \<Longrightarrow> prefix rows rows'"
proof (induction ss arbitrary: rows first)
  case (Cons x ss)
  obtain d s where x: "x = (d, s)" by (cases x)
  obtain rows1 first1 where step: "add_section_row job w d s (rows, first) = Inr (rows1, first1)"
    and more: "add_section_rows job w ss (rows1, first1) = Inr (rows', first')"
    using Cons.prems by (auto simp: x)
  have "prefix rows rows1"
    using step by (auto simp: add_section_row_def insert_unique_Inr split: option.splits)
  then show ?case using Cons.IH [OF more] by (rule prefix_order.trans)
qed simp

definition document_rows :: "job \<Rightarrow> ingestion_result \<Rightarrow> (string \<times> legacy_reference) list \<Rightarrow> documentation_work \<Rightarrow> asset_document list" where
  "document_rows job result legacy w = map (\<lambda>(i, d). document_row_of job result legacy w i d) (enumerate 0 (co_documents (dw_corpus w)))"

lemma write_documentation_steps:
  assumes "write_documentation job result legacy w db = Inr (res, db')"
  obtains sections first db1 db2 where "res = \<lparr>px_state = Persisted, px_diagnostics = []\<rparr>"
    "insert_all clash_document (document_rows job result legacy w) (ab_documents db) = Inr (ab_documents db @ document_rows job result legacy w)"
    "add_section_rows job w (owned_sections (dw_corpus w)) (ab_sections db, []) = Inr (sections, first)"
    "\<not> list_ex (clash_map (map_row_of job w)) (ab_maps db)"
    "db1 = db\<lparr>ab_documents := ab_documents db @ document_rows job result legacy w, ab_sections := sections, ab_maps := ab_maps db @ [map_row_of job w]\<rparr>"
    "insert_stages job (documentation_stages job (sh_hash (dw_shape w)) (dw_corpus w) (dw_map_hash w)) db1 = Inr db2"
    "mark_review_ready job (dw_diagnostics w) db2 = Inr db'"
proof -
  obtain docs sections first maps db2 where docs: "insert_all clash_document (document_rows job result legacy w) (ab_documents db) = Inr docs"
    and secs: "add_section_rows job w (owned_sections (dw_corpus w)) (ab_sections db, []) = Inr (sections, first)"
    and maps: "insert_unique clash_map (map_row_of job w) (ab_maps db) = Inr maps"
    and st: "insert_stages job (documentation_stages job (sh_hash (dw_shape w)) (dw_corpus w) (dw_map_hash w))
        (db\<lparr>ab_documents := docs, ab_sections := sections, ab_maps := maps\<rparr>) = Inr db2"
    and ready: "mark_review_ready job (dw_diagnostics w) db2 = Inr db'" "res = \<lparr>px_state = Persisted, px_diagnostics = []\<rparr>"
    using assms unfolding write_documentation_def document_rows_def Let_def
    by (auto split: prod.splits simp del: insert_all.simps)
  have "docs = ab_documents db @ document_rows job result legacy w" using insert_all_Inr [OF docs] by simp
  moreover have "maps = ab_maps db @ [map_row_of job w]" "\<not> list_ex (clash_map (map_row_of job w)) (ab_maps db)"
    using maps by (simp_all add: insert_unique_Inr)
  ultimately show thesis using that docs secs st ready by blast
qed

lemma write_documentation_rest:
  assumes "write_documentation job result legacy w db = Inr (res, db')"
  shows "keeps_rest job db db'"
proof -
  obtain sections first db1 db2 where
    secs: "add_section_rows job w (owned_sections (dw_corpus w)) (ab_sections db, []) = Inr (sections, first)"
    and db1: "db1 = db\<lparr>ab_documents := ab_documents db @ document_rows job result legacy w, ab_sections := sections, ab_maps := ab_maps db @ [map_row_of job w]\<rparr>"
    and st: "insert_stages job (documentation_stages job (sh_hash (dw_shape w)) (dw_corpus w) (dw_map_hash w)) db1 = Inr db2"
    and ready: "mark_review_ready job (dw_diagnostics w) db2 = Inr db'"
    using assms by (rule write_documentation_steps)
  have "keeps_rest job db db1"
    using add_section_rows_adds [OF secs] by (simp add: db1 keeps_rest_def only_adds_def other_runs_def)
  then show ?thesis
    using insert_stages_rest [OF st] mark_review_ready_rest [OF ready] keeps_rest_trans by blast
qed

definition contract_db :: "job \<Rightarrow> string \<times> visibility \<Rightarrow> page_record \<Rightarrow> openapi_candidate \<Rightarrow> asset_db \<Rightarrow> asset_db" where
  "contract_db job target page c db =
     db\<lparr>ab_candidates := ab_candidates db @ [candidate_row_of job target page c],
        ab_operations := ab_operations db @ map (operation_row_of job (fst target) c) (oc_operations c),
        ab_schemas := ab_schemas db @ map (schema_row_of job (fst target) c) (oc_schemas c),
        ab_examples := ab_examples db @ map (example_row_of job (fst target) c) (oc_examples c),
        ab_contract_maps := ab_contract_maps db @ [contract_map_row_of job (fst target) c]\<rparr>"

lemma write_contract_steps:
  assumes "write_contract job target page shape c db = Inr (res, db')"
  shows "res = \<lparr>px_state = Persisted, px_diagnostics = []\<rparr>
    \<and> sorted_wrt (\<lambda>a b. \<not> clash_operation b a) (map (operation_row_of job (fst target) c) (oc_operations c))
    \<and> (\<exists>db2. insert_stages job (contract_stages job (sh_hash shape) c) (contract_db job target page c db) = Inr db2
      \<and> mark_review_ready job (sh_diagnostics shape) db2 = Inr db')"
proof -
  obtain ops schemas examples db2 where ops: "insert_all clash_operation (map (operation_row_of job (fst target) c) (oc_operations c)) (ab_operations db) = Inr ops"
    and rows: "insert_all clash_schema (map (schema_row_of job (fst target) c) (oc_schemas c)) (ab_schemas db) = Inr schemas"
    "insert_all clash_example (map (example_row_of job (fst target) c) (oc_examples c)) (ab_examples db) = Inr examples"
    and st: "insert_stages job (contract_stages job (sh_hash shape) c)
        (db\<lparr>ab_candidates := ab_candidates db @ [candidate_row_of job target page c], ab_operations := ops, ab_schemas := schemas,
          ab_examples := examples, ab_contract_maps := ab_contract_maps db @ [contract_map_row_of job (fst target) c]\<rparr>) = Inr db2"
      "mark_review_ready job (sh_diagnostics shape) db2 = Inr db'" "res = \<lparr>px_state = Persisted, px_diagnostics = []\<rparr>"
    using assms unfolding write_contract_def Let_def by (auto simp: insert_unique_Inr simp del: insert_all.simps)
  show ?thesis
    using insert_all_Inr [OF ops] insert_all_Inr [OF rows(1)] insert_all_Inr [OF rows(2)] st unfolding contract_db_def by blast
qed

lemma contract_db_rest: "keeps_rest job db (contract_db job target page c db)"
  by (simp add: contract_db_def keeps_rest_def only_adds_def other_runs_def)

lemma write_contract_rest:
  assumes "write_contract job target page shape c db = Inr (res, db')"
  shows "keeps_rest job db db'"
  using write_contract_steps [OF assms] insert_stages_rest mark_review_ready_rest contract_db_rest keeps_rest_trans by metis

section \<open>The transaction\<close>

abbreviation manifest_hash :: "ingestion_result \<Rightarrow> (string \<times> legacy_reference) list \<Rightarrow> string" where
  "manifest_hash result legacy \<equiv> hash_json (json_manifest (raw_manifest result legacy))"

text \<open>
  What a successful attempt has done: nothing, as its state says, or it has written a candidate for a run that it
  holds and handed over.
\<close>

definition handed_over :: "job \<Rightarrow> ingestion_result \<Rightarrow> (string \<times> legacy_reference) list \<Rightarrow> asset_db \<Rightarrow> bool" where
  "handed_over job result legacy db \<longleftrightarrow> (\<exists>r. run_of job db = Some r \<and> rn_state r = RunReviewReady
     \<and> rn_attempt r = j_attempt job \<and> rn_source r = Some (j_source job) \<and> rn_owner r = [] \<and> rn_expires r = None \<and> rn_finished r \<noteq> None
     \<and> rn_manifest_hash r = manifest_hash result legacy)"

definition settles :: "job \<Rightarrow> ingestion_result \<Rightarrow> (string \<times> legacy_reference) list \<Rightarrow> asset_db \<Rightarrow> persistence_result \<Rightarrow> asset_db \<Rightarrow> bool" where
  "settles job result legacy db res db' \<longleftrightarrow>
     (if px_state res = Persisted then keeps_rest job db db' \<and> handed_over job result legacy db' else db' = db)"

lemma ready_handed_over:
  "run_of job db = Some r \<Longrightarrow> ready_run job shape r \<Longrightarrow> sh_hash shape = manifest_hash result legacy \<Longrightarrow> handed_over job result legacy db"
  by (auto simp: handed_over_def ready_run_def run_holds_def run_identity_matches_def)

lemma persist_documentation_cases:
  assumes "persist_documentation parse ps dash job result legacy db = Inr (res, db')"
  obtains (again) c where "build_documentation_corpus parse ps (map (page_input job legacy) (ir_pages result)) default_segmentation = Inr c"
      "ensure_running_run job (dw_shape (work_of dash job result legacy c)) db = Inr (RunComplete, db)" "db' = db" "px_state res = AlreadyPersisted"
    | (first) c db1 where "build_documentation_corpus parse ps (map (page_input job legacy) (ir_pages result)) default_segmentation = Inr c"
      "ensure_running_run job (dw_shape (work_of dash job result legacy c)) db = Inr (RunStarted, db1)"
      "write_documentation job result legacy (work_of dash job result legacy c) db1 = Inr (res, db')"
proof -
  obtain c where c: "build_documentation_corpus parse ps (map (page_input job legacy) (ir_pages result)) default_segmentation = Inr c"
    using assms by (auto simp: persist_documentation_def split: sum.splits)
  define w where "w = work_of dash job result legacy c"
  obtain p db1 where run: "ensure_running_run job (dw_shape w) db = Inr (p, db1)"
    using assms by (auto simp: persist_documentation_def c w_def Let_def)
  show thesis
  proof (cases p)
    case RunStarted
    then have "write_documentation job result legacy w db1 = Inr (res, db')"
      using assms run by (simp add: persist_documentation_def c w_def [symmetric] Let_def)
    then show thesis using first c run RunStarted unfolding w_def by blast
  next
    case RunComplete
    then have "db1 = db" using run by (simp add: ensure_complete)
    then have "db' = db" "px_state res = AlreadyPersisted"
      using assms run RunComplete by (auto simp: persist_documentation_def c w_def [symmetric] Let_def split: if_splits)
    then show thesis using again c run RunComplete \<open>db1 = db\<close> unfolding w_def by blast
  qed
qed

lemma work_of_hash [simp]: "sh_hash (dw_shape (work_of dash job result legacy c)) = manifest_hash result legacy"
  by (simp add: work_of_def Let_def)

lemma persist_documentation_settles:
  assumes "persist_documentation parse ps dash job result legacy db = Inr (res, db')"
  shows "settles job result legacy db res db'"
  using assms
proof (cases rule: persist_documentation_cases)
  case (first c db1)
  define w where "w = work_of dash job result legacy c"
  obtain r where r: "run_of job db1 = Some r" "run_holds job (dw_shape w) r" "rn_state r = RunRunning" "rn_attempt r = j_attempt job"
    "rn_owner r = j_lease_owner job"
    using ensure_started first(2) unfolding w_def by blast
  obtain sections db2 db3 where res: "res = \<lparr>px_state = Persisted, px_diagnostics = []\<rparr>"
    and db2: "db2 = db1\<lparr>ab_documents := ab_documents db1 @ document_rows job result legacy w, ab_sections := sections, ab_maps := ab_maps db1 @ [map_row_of job w]\<rparr>"
    and st: "insert_stages job (documentation_stages job (sh_hash (dw_shape w)) (dw_corpus w) (dw_map_hash w)) db2 = Inr db3"
    and ready: "mark_review_ready job (dw_diagnostics w) db3 = Inr db'"
    using first(3) [folded w_def] by (rule write_documentation_steps)
  have "run_of job db2 = Some r" using r(1) by (simp add: db2 run_of_def)
  then obtain r' where "run_of job db' = Some r'" "ready_run job (dw_shape w) r'"
    using finish_run [OF st ready] r by blast
  then have "handed_over job result legacy db'"
    by (rule ready_handed_over) (simp add: w_def)
  moreover have "keeps_rest job db db'"
    using ensure_running_run_rest [OF first(2)] write_documentation_rest [OF first(3)] by (rule keeps_rest_trans)
  ultimately show ?thesis by (simp add: settles_def res)
qed (simp add: settles_def)

lemma persist_contract_settles:
  assumes "persist_contract job result legacy target page c db = Inr (res, db')"
  shows "settles job result legacy db res db'"
proof (cases "list_ex (\<lambda>k. kc_contract k = fst target \<and> kc_hash k = prefixed_hash (oc_hash c)) (ab_candidates db)")
  case True
  then show ?thesis using assms by (auto simp: persist_contract_def settles_def contract_unchanged_def)
next
  case new: False
  define shape where "shape = contract_shape result legacy (fst target) c"
  have hash: "sh_hash shape = manifest_hash result legacy" by (simp add: shape_def contract_shape_def Let_def)
  obtain p db1 where run: "ensure_running_run job shape db = Inr (p, db1)"
    using assms new by (auto simp: persist_contract_def shape_def Let_def)
  show ?thesis
  proof (cases p)
    case RunComplete
    then have "db1 = db" using run by (simp add: ensure_complete)
    then show ?thesis
      using assms run RunComplete new
      by (auto simp: persist_contract_def shape_def [symmetric] settles_def Let_def split: if_splits)
  next
    case RunStarted
    then have wr: "write_contract job target page shape c db1 = Inr (res, db')"
      using assms run new by (simp add: persist_contract_def shape_def [symmetric] Let_def)
    obtain r where r: "run_of job db1 = Some r" "run_holds job shape r" "rn_state r = RunRunning" "rn_attempt r = j_attempt job"
      "rn_owner r = j_lease_owner job"
      using ensure_started run RunStarted by blast
    obtain db2 where res: "res = \<lparr>px_state = Persisted, px_diagnostics = []\<rparr>"
      and st: "insert_stages job (contract_stages job (sh_hash shape) c) (contract_db job target page c db1) = Inr db2"
        "mark_review_ready job (sh_diagnostics shape) db2 = Inr db'"
      using write_contract_steps [OF wr] by blast
    have "run_of job (contract_db job target page c db1) = Some r" using r(1) by (simp add: contract_db_def run_of_def)
    then obtain r' where "run_of job db' = Some r'" "ready_run job shape r'"
      using finish_run [OF st] r by blast
    then have "handed_over job result legacy db'" using hash by (rule ready_handed_over)
    moreover have "keeps_rest job db db'"
      using ensure_running_run_rest [OF run] write_contract_rest [OF wr] by (rule keeps_rest_trans)
    ultimately show ?thesis by (simp add: settles_def res)
  qed
qed

lemma persist_openapi_settles:
  assumes "persist_openapi decode dash job result legacy target db = Inr (res, db')"
  shows "settles job result legacy db res db'"
  using assms persist_contract_settles
  by (auto simp: persist_openapi_def settles_def target_pending_def split: option.splits list.splits sum.splits)

lemma persist_body_settles:
  assumes "persist_body parse ps decode dash job result legacy db = Inr (res, db')"
  shows "owned (ab_core db) job \<and> settles job result legacy db res db'"
  using assms persist_openapi_settles persist_documentation_settles
  by (auto simp: persist_body_def lock_current_crawl_lease_def split: if_splits)

text \<open>
  Property C22. The transaction is fenced and all or nothing. It commits a candidate only for a worker that holds
  the lease of the job, then hands its run to the review with the hash of the acquired pages and no lease, leaves
  the jobs, the contracts and every other run alone, and only adds rows; in every other case the database is unchanged,
  and a worker that lost the lease is told so.
\<close>

theorem persist_fenced:
  assumes "persist_developer_asset_candidates parse ps decode dash job result legacy db = (out, db')"
  shows "(case out of
      Inl e \<Rightarrow> db' = db
    | Inr res \<Rightarrow> (if px_state res = Persisted then owned (ab_core db) job \<and> keeps_rest job db db' \<and> handed_over job result legacy db'
        else db' = db))
    \<and> (if owned (ab_core db) job \<or> j_source_kind job \<notin> set [''website'', ''upload'', ''openapi''] then True
      else out = Inl (JobFault (job_error ''crawler_lease_lost''
        ''The crawler no longer owns this job lease; typed candidates were not committed.'')))"
proof
  show "case out of Inl e \<Rightarrow> db' = db
    | Inr res \<Rightarrow> (if px_state res = Persisted then owned (ab_core db) job \<and> keeps_rest job db db' \<and> handed_over job result legacy db'
        else db' = db)"
    using assms persist_body_settles [of parse ps decode dash job result legacy db]
    by (auto simp: persist_developer_asset_candidates_def settles_def split: sum.splits if_splits)
  show "if owned (ab_core db) job \<or> j_source_kind job \<notin> set [''website'', ''upload'', ''openapi''] then True
      else out = Inl (JobFault (job_error ''crawler_lease_lost''
        ''The crawler no longer owns this job lease; typed candidates were not committed.''))"
    using assms by (auto simp: persist_developer_asset_candidates_def persist_body_def lock_current_crawl_lease_def throw_def)
qed

section \<open>The rows of a documentation candidate\<close>

lemma ensure_running_run_fields: "ensure_running_run job shape db = Inr (p, db') \<Longrightarrow> \<exists>runs. db' = db\<lparr>ab_runs := runs\<rparr>"
proof -
  assume run: "ensure_running_run job shape db = Inr (p, db')"
  then obtain db1 r where "insert_run job shape db = Inr db1" "advance_run job shape db1 r = Inr (p, db')"
    by (auto simp: ensure_running_run_def split: option.splits)
  moreover have "insert_run job shape db = Inr db1 \<Longrightarrow> \<exists>runs. db1 = db\<lparr>ab_runs := runs\<rparr>"
    by (auto simp: insert_run_def split: option.splits if_splits) (metis asset_db.surjective asset_db.update_convs(2))+
  moreover have "advance_run job shape db1 r = Inr (p, db') \<Longrightarrow> \<exists>runs. db' = db1\<lparr>ab_runs := runs\<rparr>"
    by (auto simp: advance_run_def update_run_def split: if_splits) (metis asset_db.surjective asset_db.update_convs(2))+
  ultimately show ?thesis by auto
qed

text \<open>A section row and the section it stands for.\<close>

definition section_row_for :: "documentation_work \<Rightarrow> document \<times> doc_section \<Rightarrow> asset_section \<Rightarrow> bool" where
  "section_row_for w ds x \<longleftrightarrow>
     dx_document x = or_undefined (jm_get (dw_documents w) (doc_id (fst ds))) \<and> get_text (dw_sections w) (se_id (snd ds)) = Some (dx_id x)
     \<and> dx_text x = se_content (snd ds) \<and> dx_ordinal x = se_ordinal (snd ds) \<and> dx_hash x = prefixed_hash (se_sha (snd ds))"

lemma add_section_rows_new:
  "add_section_rows job w ss (rows, first) = Inr (rows', first') \<Longrightarrow> \<exists>new. rows' = rows @ new \<and> list_all2 (section_row_for w) ss new"
proof (induction ss arbitrary: rows first)
  case (Cons x ss)
  obtain d s where x: "x = (d, s)" by (cases x)
  obtain rows1 first1 where step: "add_section_row job w d s (rows, first) = Inr (rows1, first1)"
    and more: "add_section_rows job w ss (rows1, first1) = Inr (rows', first')"
    using Cons.prems by (auto simp: x)
  obtain uuid where "get_text (dw_sections w) (se_id s) = Some uuid" "rows1 = rows @ [section_row_of job w d first s uuid]"
    using step by (auto simp: add_section_row_def insert_unique_Inr split: option.splits)
  moreover have "section_row_for w (d, s) (section_row_of job w d first s uuid)"
    using calculation(1) by (simp add: section_row_for_def section_row_of_def Let_def)
  ultimately show ?case using Cons.IH [OF more] by (auto simp: x)
qed simp

lemma length_owned:
  fixes ds :: "document list"
  assumes "distinct (map doc_id ds)" "se_document ` set ss \<subseteq> doc_id ` set ds"
  shows "length (concat (map (\<lambda>d. map (Pair d) (filter (\<lambda>s. se_document s = doc_id d) ss)) ds)) = length ss"
  using assms(2)
proof (induction ss)
  case (Cons s ss)
  have "length (filter (\<lambda>d. doc_id d = se_document s) ds) = 1"
  proof -
    obtain d where d: "d \<in> set ds" "doc_id d = se_document s" using Cons.prems by auto
    have "filter (\<lambda>d. doc_id d = se_document s) ds = [d]"
      using assms(1) d
    proof (induction ds)
      case (Cons e ds)
      then show ?case by (cases "e = d") (auto simp: filter_empty_conv image_iff)
    qed simp
    then show ?thesis by simp
  qed
  moreover have "length (concat (map (\<lambda>d. map (Pair d) (filter (\<lambda>x. se_document x = doc_id d) (s # ss))) es)) =
      length (concat (map (\<lambda>d. map (Pair d) (filter (\<lambda>x. se_document x = doc_id d) ss)) es)) + length (filter (\<lambda>d. doc_id d = se_document s) es)" for es :: "document list"
    by (induction es) auto
  moreover have "length (concat (map (\<lambda>d. map (Pair d) (filter (\<lambda>x. se_document x = doc_id d) ss)) ds)) = length ss"
    using Cons by simp
  ultimately show ?case by (simp only: list.size One_nat_def)
qed (induction ds, simp_all)

lemma document_rows_fields:
  "map dd_id (document_rows job result legacy w) = map (\<lambda>d. or_undefined (jm_get (dw_documents w) (doc_id d))) (co_documents (dw_corpus w))
   \<and> list_all (\<lambda>x. dd_run x = j_id job) (document_rows job result legacy w)
   \<and> length (document_rows job result legacy w) = length (co_documents (dw_corpus w))"
proof -
  have fst: "dd_id (document_row_of job result legacy w i d) = or_undefined (jm_get (dw_documents w) (doc_id d))"
    "dd_run (document_row_of job result legacy w i d) = j_id job" for i d
    by (simp_all add: document_row_of_def Let_def)
  have "map dd_id (document_rows job result legacy w) = map (\<lambda>d. or_undefined (jm_get (dw_documents w) (doc_id d))) (map snd (enumerate 0 (co_documents (dw_corpus w))))"
    unfolding document_rows_def map_map by (intro map_cong refl) (auto simp: fst)
  then show ?thesis by (auto simp: document_rows_def list_all_iff fst)
qed

lemma sorted_wrt_distinct: "sorted_wrt (\<lambda>a b. f a \<noteq> f b) xs \<Longrightarrow> distinct (map f xs)"
  by (induction xs) auto

lemma unclashed_documents:
  assumes "sorted_wrt (\<lambda>a b. \<not> clash_document b a) (document_rows job result legacy w)"
  shows "distinct (map dd_id (document_rows job result legacy w)) \<and> distinct (map doc_id (co_documents (dw_corpus w)))"
proof -
  have "sorted_wrt (\<lambda>a b. dd_id a \<noteq> dd_id b) (document_rows job result legacy w)"
    using assms by (rule sorted_wrt_mono_rel [rotated]) (auto simp: clash_document_def)
  then have d: "distinct (map dd_id (document_rows job result legacy w))"
    by (rule sorted_wrt_distinct)
  have "map dd_id (document_rows job result legacy w) = map (\<lambda>i. or_undefined (jm_get (dw_documents w) i)) (map doc_id (co_documents (dw_corpus w)))"
    using document_rows_fields by simp
  then show ?thesis using d distinct_map by metis
qed

section \<open>Persisting again\<close>

text \<open>The run has no output yet, and every section belongs to a document.\<close>

definition no_output :: "job \<Rightarrow> asset_db \<Rightarrow> bool" where
  "no_output job db \<longleftrightarrow> list_all (\<lambda>d. dd_run d \<noteq> j_id job) (ab_documents db) \<and> list_all (\<lambda>m. dz_run m \<noteq> j_id job) (ab_maps db)"

definition sections_linked :: "asset_db \<Rightarrow> bool" where
  "sections_linked db \<longleftrightarrow> list_all (\<lambda>x. dx_document x \<in> dd_id ` set (ab_documents db)) (ab_sections db)"

lemma filter_unique:
  assumes "distinct (map f xs)" "x \<in> set xs"
  shows "filter (\<lambda>y. f y = f x) xs = [x]"
  using assms
proof (induction xs)
  case (Cons y xs)
  then show ?case by (cases "y = x") (auto simp: filter_empty_conv image_iff)
qed simp

lemma length_concat_const:
  "list_all (\<lambda>x. length (f x) = k) xs \<Longrightarrow> length (concat (map f xs)) = k * length xs"
  by (induction xs) auto

text \<open>The document of a new section row is the one new row of that identifier.\<close>

lemma new_section_document:
  assumes new: "list_all2 (section_row_for w) (owned_sections (dw_corpus w)) xs"
    and dist: "distinct (map dd_id (document_rows job result legacy w))"
    and x: "x \<in> set xs"
  shows "\<exists>y\<in>set (document_rows job result legacy w). filter (\<lambda>d. dd_id d = dx_document x) (document_rows job result legacy w) = [y]"
proof -
  obtain d s where "(d, s) \<in> set (owned_sections (dw_corpus w))" "section_row_for w (d, s) x"
    using new x by (metis in_set_conv_nth list_all2_conv_all_nth prod.exhaust)
  then have "d \<in> set (co_documents (dw_corpus w))" "dx_document x = or_undefined (jm_get (dw_documents w) (doc_id d))"
    by (auto simp: owned_sections_def section_row_for_def)
  then have "dx_document x \<in> set (map dd_id (document_rows job result legacy w))"
    using document_rows_fields by (auto simp: image_iff)
  then obtain y where "y \<in> set (document_rows job result legacy w)" "dd_id y = dx_document x" by auto
  then show ?thesis using filter_unique [OF dist] by metis
qed

lemma output_exists:
  assumes docs: "ab_documents db' = ab_documents db @ document_rows job result legacy w"
    and clash: "sorted_wrt (\<lambda>a b. \<not> clash_document b a) (document_rows job result legacy w)"
      "\<forall>r\<in>set (document_rows job result legacy w). \<not> list_ex (clash_document r) (ab_documents db)"
    and secs: "ab_sections db' = ab_sections db @ xs" "list_all2 (section_row_for w) (owned_sections (dw_corpus w)) xs"
    and maps: "ab_maps db' = ab_maps db @ [map_row_of job w]"
    and clean: "no_output job db" "sections_linked db"
    and owners: "se_document ` set (co_sections (dw_corpus w)) \<subseteq> doc_id ` set (co_documents (dw_corpus w))"
  shows "documentation_output_exists db' job (length (co_documents (dw_corpus w))) (length (co_sections (dw_corpus w)))"
proof -
  define rows where "rows = document_rows job result legacy w"
  have dist: "distinct (map dd_id rows)" "distinct (map doc_id (co_documents (dw_corpus w)))"
    using unclashed_documents [OF clash(1)] by (simp_all add: rows_def)
  have own: "list_all (\<lambda>d. dd_run d = j_id job) rows" "length rows = length (co_documents (dw_corpus w))"
    using document_rows_fields by (simp_all add: rows_def)
  have old: "list_all (\<lambda>d. dd_run d \<noteq> j_id job) (ab_documents db)" "list_all (\<lambda>m. dz_run m \<noteq> j_id job) (ab_maps db)"
    using clean(1) by (simp_all add: no_output_def)
  have count: "length (filter (\<lambda>d. dd_run d = j_id job) (ab_documents db')) = length (co_documents (dw_corpus w))"
    using own old(1) by (simp add: docs rows_def [symmetric] list_all_iff)
  have maps': "length (filter (\<lambda>m. dz_run m = j_id job \<and> dz_version m = documentation_map_version) (ab_maps db')) = 1"
    using old(2) by (simp add: maps map_row_of_def list_all_iff)
  define f where "f = (\<lambda>s :: asset_section. filter (\<lambda>d. dd_id d = dx_document s \<and> dd_run d = j_id job) (ab_documents db'))"
  have f: "f s = filter (\<lambda>d. dd_id d = dx_document s) rows" for s
    using old(1) own(1) unfolding f_def docs rows_def [symmetric] by (auto simp: list_all_iff intro: filter_cong)
  have none: "length (f s) = 0" if s: "s \<in> set (ab_sections db)" for s
  proof -
    obtain d where "d \<in> set (ab_documents db)" "dd_id d = dx_document s"
      using s clean(2) by (auto simp: sections_linked_def list_all_iff)
    then have "dd_id r \<noteq> dx_document s" if "r \<in> set rows" for r
      using clash(2) that \<open>d \<in> set (ab_documents db)\<close> \<open>dd_id d = dx_document s\<close>
      by (simp add: rows_def list_ex_iff clash_document_def) metis
    then show ?thesis unfolding f by simp
  qed
  have one: "length (f s) = 1" if "s \<in> set xs" for s
    using new_section_document [OF secs(2), of job result legacy s] dist(1) that unfolding f rows_def by auto
  have "length (concat (map f (ab_sections db'))) = length xs"
    using length_concat_const [of f 0 "ab_sections db"] length_concat_const [of f 1 xs] none one
    by (simp add: secs(1) list_all_iff)
  also have "\<dots> = length (co_sections (dw_corpus w))"
    using list_all2_lengthD [OF secs(2)] length_owned [OF dist(2) owners] by (simp add: owned_sections_def)
  finally show ?thesis
    using count maps' unfolding documentation_output_exists_def f_def by blast
qed

text \<open>A written documentation candidate is found complete by the next attempt.\<close>

lemma documentation_again:
  assumes first: "persist_documentation parse ps dash job result legacy db = Inr (res, db')" "px_state res = Persisted"
    and clean: "no_output job db" "sections_linked db"
  shows "persist_documentation parse ps dash job result legacy db' = Inr (\<lparr>px_state = AlreadyPersisted, px_diagnostics = []\<rparr>, db')"
  using first(1)
proof (cases rule: persist_documentation_cases)
  case (first c db1)
  define w where "w = work_of dash job result legacy c"
  have corpus: "dw_corpus w = c" by (simp add: w_def work_of_def Let_def)
  obtain r where r: "run_of job db1 = Some r" "run_holds job (dw_shape w) r" "rn_state r = RunRunning" "rn_attempt r = j_attempt job"
    "rn_owner r = j_lease_owner job"
    using ensure_started first(2) unfolding w_def by blast
  obtain sections first' db2 db3 where docs: "insert_all clash_document (document_rows job result legacy w) (ab_documents db1) = Inr (ab_documents db1 @ document_rows job result legacy w)"
    and secs: "add_section_rows job w (owned_sections (dw_corpus w)) (ab_sections db1, []) = Inr (sections, first')"
    and db2: "db2 = db1\<lparr>ab_documents := ab_documents db1 @ document_rows job result legacy w, ab_sections := sections, ab_maps := ab_maps db1 @ [map_row_of job w]\<rparr>"
    and st: "insert_stages job (documentation_stages job (sh_hash (dw_shape w)) (dw_corpus w) (dw_map_hash w)) db2 = Inr db3"
    and ready: "mark_review_ready job (dw_diagnostics w) db3 = Inr db'"
    using first(3) [folded w_def] by (rule write_documentation_steps)
  obtain new where new: "sections = ab_sections db1 @ new" "list_all2 (section_row_for w) (owned_sections (dw_corpus w)) new"
    using add_section_rows_new [OF secs] by blast
  have "run_of job db2 = Some r" using r(1) by (simp add: db2 run_of_def)
  then obtain rows runs r' where db': "db' = db2\<lparr>ab_stages := rows, ab_runs := runs\<rparr>" and r': "run_of job db' = Some r'" "ready_run job (dw_shape w) r'"
    using finish_run [OF st ready] r by blast
  obtain runs0 where db1: "db1 = db\<lparr>ab_runs := runs0\<rparr>"
    using ensure_running_run_fields [OF first(2)] by blast
  have "se_document ` set (co_sections c) \<subseteq> doc_id ` set (co_documents c)"
    using corpus_facts [OF first(1)] by blast
  then have "documentation_output_exists db' job (length (co_documents c)) (length (co_sections c))"
    using insert_all_Inr [OF docs] new new(2) [unfolded corpus] clean
    by (intro output_exists [of db' db job result legacy w new, unfolded corpus]) (simp_all add: db' db2 db1)
  moreover have "ensure_running_run job (dw_shape w) db' = Inr (RunComplete, db')"
    using r' by (auto simp: ensure_complete ready_run_def)
  ultimately show ?thesis
    by (simp add: persist_documentation_def first(1) w_def [symmetric] Let_def del: bind_result_Inr)
qed (use first(2) in simp)

lemma contract_again:
  assumes first: "persist_contract job result legacy target page c db = Inr (res, db')" "px_state res = Persisted"
  shows "persist_contract job result legacy target page c db' = Inr (contract_unchanged page, db')"
proof -
  define shape where "shape = contract_shape result legacy (fst target) c"
  obtain db1 where "write_contract job target page shape c db1 = Inr (res, db')"
  proof -
    obtain p db1 where "ensure_running_run job shape db = Inr (p, db1)" "p = RunStarted" "write_contract job target page shape c db1 = Inr (res, db')"
      using first by (auto simp: persist_contract_def shape_def [symmetric] contract_unchanged_def Let_def
        split: if_splits run_progress.splits)
    then show thesis using that by blast
  qed
  then obtain db2 where st: "insert_stages job (contract_stages job (sh_hash shape) c) (contract_db job target page c db1) = Inr db2"
      "mark_review_ready job (sh_diagnostics shape) db2 = Inr db'"
    using write_contract_steps by blast
  have "ab_candidates db' = ab_candidates db1 @ [candidate_row_of job target page c]"
    using insert_stages_fields [OF st(1)] mark_review_ready_fields [OF st(2)] by (auto simp: contract_db_def)
  then show ?thesis
    by (simp add: persist_contract_def candidate_row_of_def)
qed

lemma openapi_again:
  assumes "persist_openapi decode dash job result legacy target db = Inr (res, db')" "px_state res = Persisted"
  shows "\<exists>res'. persist_openapi decode dash job result legacy target db' = Inr (res', db') \<and> px_state res' = UnchangedContract"
proof -
  obtain t page ps c where "target = Some t" "ir_pages result = page # ps"
    and c: "build_openapi_candidate decode dash (pg_html page) (openapi_format_of page) = Inr c" "persist_contract job result legacy t page c db = Inr (res, db')"
    using assms by (auto simp: persist_openapi_def target_pending_def split: option.splits list.splits sum.splits)
  moreover have "persist_contract job result legacy t page c db' = Inr (contract_unchanged page, db')"
    using contract_again [OF c(2) assms(2)] .
  ultimately show ?thesis by (simp add: persist_openapi_def contract_unchanged_def)
qed

lemma same_targets:
  "keeps_rest job db db' \<Longrightarrow> resolve_contract_target db' job = resolve_contract_target db job"
  unfolding resolve_contract_target_def contract_targets_def keeps_rest_def by (elim conjE) (simp only:)

text \<open>
  Property C23. Persisting is idempotent: when a result has been persisted, persisting it again under the same lease
  changes nothing and says so, whatever the kind of the source.
\<close>

theorem persist_idempotent:
  assumes first: "persist_developer_asset_candidates parse ps decode dash job result legacy db = (Inr res, db')" "px_state res = Persisted"
    and clean: "no_output job db" "sections_linked db"
  shows "\<exists>res'. persist_developer_asset_candidates parse ps decode dash job result legacy db' = (Inr res', db')
    \<and> px_state res' \<in> {AlreadyPersisted, UnchangedContract}"
proof -
  have kind: "j_source_kind job \<in> set [''website'', ''upload'', ''openapi'']"
    using first by (auto simp: persist_developer_asset_candidates_def split: if_splits)
  then have body: "persist_body parse ps decode dash job result legacy db = Inr (res, db')"
    using first(1) by (auto simp: persist_developer_asset_candidates_def split: sum.splits if_splits)
  then have own: "owned (ab_core db) job" and rest: "keeps_rest job db db'"
    using persist_body_settles [OF body] first(2) by (simp_all add: settles_def)
  then have own': "owned (ab_core db') job" by (simp add: keeps_rest_def)
  have same: "resolve_contract_target db' job = resolve_contract_target db job" using rest by (rule same_targets)
  have "\<exists>res'. persist_body parse ps decode dash job result legacy db' = Inr (res', db') \<and> px_state res' \<in> {AlreadyPersisted, UnchangedContract}"
  proof (cases "j_source_kind job = ''openapi'' \<or> j_source_kind job = ''upload'' \<and> (\<exists>t. resolve_contract_target db job = Inr (Some t))")
    case True
    then obtain t where t: "resolve_contract_target db job = Inr t" "persist_openapi decode dash job result legacy t db = Inr (res, db')"
      "j_source_kind job = ''openapi'' \<or> j_source_kind job = ''upload'' \<and> t \<noteq> None"
      using body by (auto simp: persist_body_def split: if_splits)
    then obtain res' where "persist_openapi decode dash job result legacy t db' = Inr (res', db')" "px_state res' = UnchangedContract"
      using openapi_again first(2) by blast
    then show ?thesis
      using t own' same by (auto simp: persist_body_def lock_current_crawl_lease_def assert_current_crawl_lease_def)
  next
    case False
    then have d: "persist_documentation parse ps dash job result legacy db = Inr (res, db')"
      "j_source_kind job = ''upload'' \<Longrightarrow> resolve_contract_target db job = Inr None" "j_source_kind job \<noteq> ''openapi''"
      using body by (auto simp: persist_body_def split: if_splits) (metis option.exhaust prod.exhaust)+
    show ?thesis
      using documentation_again [OF d(1) first(2) clean] d(2,3) own' same
      by (auto simp: persist_body_def lock_current_crawl_lease_def assert_current_crawl_lease_def)
  qed
  then show ?thesis
    using kind by (auto simp: persist_developer_asset_candidates_def)
qed

section \<open>An instance\<close>

definition web_page :: page_record where
  "web_page = \<lparr>pg_url = ''https://docs.example/a'', pg_title = ''A'', pg_text = ''Hello'', pg_html = ''Hello'', pg_content_type = ''text/plain'',
     pg_status = 200, pg_indicators = [], pg_rendered = False\<rparr>"

definition web_job :: job where
  "web_job = sample_job\<lparr>j_source_kind := ''website'', j_attempt := 1, j_lease_owner := ''w1''\<rparr>"

definition web_row :: job_row where
  "web_row = \<lparr>jr_id = ''job1'', jr_organisation = ''org'', jr_product = ''product'', jr_source = ''source'', jr_state = Running,
     jr_attempt = 1, jr_counts = no_counts, jr_diagnostics = JObj [], jr_owner = ''w1'', jr_expires = Some 60000, jr_heartbeat = Some 0,
     jr_queued = 0, jr_started = Some 0, jr_finished = None, jr_error = None\<rparr>"

text \<open>The stages of the attempt are already queued.\<close>

definition waiting_stages :: "stage_row list" where
  "waiting_stages = map (\<lambda>n. \<lparr>sw_id = stage_text n, sw_run = ''job1'', sw_attempt = 1,
     sw_stage = \<lparr>st_name = n, st_state = StageQueued, st_input = [], st_output = [], st_checkpoint = JObj [], st_diagnostics = JObj []\<rparr>,
     sw_error = ([], []), sw_started = None, sw_finished = None\<rparr>)
     [Acquire, Validate, Parse, Normalise, SegmentStage, Extract, MapStage, AiEnrich, QualityCheck, BuildIndex, ReviewStage]"

definition web_db :: asset_db where
  "web_db = \<lparr>ab_core = \<lparr>db_now = 0, db_jobs = [web_row], db_sources = [], db_snapshots = [], db_documents = [], db_links = []\<rparr>,
     ab_runs = [], ab_stages = waiting_stages, ab_documents = [], ab_sections = [], ab_maps = [], ab_bindings = [], ab_contracts = [],
     ab_candidates = [], ab_operations = [], ab_schemas = [], ab_examples = [], ab_contract_maps = []\<rparr>"

lemma waiting_for_all: "sw_run s = ''job1'' \<Longrightarrow> sw_attempt s = 1 \<Longrightarrow> list_ex (same_stage s) waiting_stages"
  by (cases "st_name (sw_stage s)") (simp_all add: waiting_stages_def same_stage_def)

lemma upsert_present:
  assumes "\<And>s. s \<in> set ss \<Longrightarrow> list_ex (same_stage s) rows"
  shows "\<exists>rows'. upsert_stages ss rows = Inr rows'"
  using assms
proof (induction ss arbitrary: rows)
  case (Cons s ss)
  have "list_ex (same_stage t) (update_where (same_stage s) (merge_stage s) rows)" if "t \<in> set ss" for t
  proof -
    have "list_ex (same_stage t) rows" using Cons.prems that by simp
    moreover have "same_stage t (merge_stage s x) = same_stage t x" if "same_stage s x" for x
      using that by (simp add: same_stage_def merge_stage_def)
    ultimately show ?thesis by (auto simp: list_ex_iff update_where_def)
  qed
  then show ?case using Cons by (simp add: upsert_stage_def)
qed simp

lemma web_format: "detect_format (\<lambda>_ _. None) (page_input web_job [] web_page) = PlainText"
proof -
  define u where "u = ''https://docs.example/a''"
  have "content_type_of ''text/plain'' = ''text/plain''" "to_lower u = u" unfolding u_def by code_simp+
  moreover have "\<not> ends_with u ''.htm''" "\<not> ends_with u ''.html''" "\<not> ends_with u ''.mdx''" "\<not> ends_with u ''.md''" "\<not> ends_with u ''.json''"
    "\<not> ends_with u ''.yml''" "\<not> ends_with u ''.yaml''" "\<not> str_includes ''text/plain'' ''json''" "\<not> str_includes ''text/plain'' ''yaml''"
    unfolding u_def by code_simp+
  ultimately show ?thesis
    by (simp add: detect_format_def page_input_def web_page_def Let_def flip: u_def)
qed

lemma web_blocks:
  "\<exists>b. doc_blocks (normalize_document (\<lambda>_ _. None) no_parsers (page_input web_job [] web_page)) = [b] \<and> nb_body b = Paragraph ''Hello'' []"
proof -
  have "ni_content (page_input web_job [] web_page) = ''Hello''" by (simp add: page_input_def web_page_def)
  then have parsed: "fst (parsed_document no_parsers (page_input web_job [] web_page)
      (detect_format (\<lambda>_ _. None) (page_input web_job [] web_page))) = parse_text ''Hello''"
    by (simp add: parsed_document_def web_format Let_def)
  have "map df_body (pr_blocks (parse_text ''Hello'')) = [Paragraph ''Hello'' []]" by code_simp
  then obtain b where "pr_blocks (parse_text ''Hello'') = [b]" "df_body b = Paragraph ''Hello'' []"
    by (auto simp del: parse_text_def)
  then have "\<exists>b'. finalize_blocks i (pr_blocks (parse_text ''Hello'')) = [b'] \<and> nb_body b' = Paragraph ''Hello'' []" for i
    by (simp add: finalize_blocks_def final_block_def Let_def)
  then show ?thesis
    unfolding normalize_document_def Let_def document.simps parsed by blast
qed

text \<open>A document of one short paragraph has one section.\<close>

lemma one_section:
  assumes "doc_blocks d = [b]" "nb_body b = Paragraph ''Hello'' []"
  shows "\<exists>s. document_sections d 4000 = [s] \<and> se_document s = doc_id d \<and> se_characters s = 5"
proof -
  have b: "block_piece b = \<lparr>pc_block = nb_id b, pc_start = 0, pc_end = 5, pc_text = ''Hello'', pc_atomic = False\<rparr>"
    using assms(2) by (simp add: block_piece_def render_block_def)
  have "logical_sections d = [\<lparr>lg_title = doc_title d, lg_anchor = ''document'', lg_path = [], lg_pieces = [block_piece b]\<rparr>]"
    using assms by (simp add: logical_sections_def logical_step_def flush_logical_def)
  moreover have "cut_round 4000 (block_piece b) 0 \<lparr>pk_result = [], pk_current = [], pk_chars = 0\<rparr> =
      (5, \<lparr>pk_result = [], pk_current = [block_piece b], pk_chars = 5\<rparr>)"
  proof -
    have "cut_raw (block_piece b) 0 4000 = ''Hello''"
      by (simp add: cut_raw_def b boundary_def str_slice_def)
    moreover have "trimmed_piece (block_piece b) 0 ''Hello'' = block_piece b"
    proof -
      have "\<not> is_ws (CHR ''H'')" "\<not> is_ws (CHR ''o'')" by code_simp+
      then show ?thesis by (simp add: trimmed_piece_def b str_slice_def Let_def)
    qed
    moreover have "next_offset (block_piece b) 0 ''Hello'' = 5" by (simp add: next_offset_def b Let_def)
    ultimately show ?thesis
      by (simp add: cut_round_def make_room_def push_piece_def flush_pack_def Let_def) (simp add: b)
  qed
  ultimately have "section_pieces d 4000 = [(\<lparr>lg_title = doc_title d, lg_anchor = ''document'', lg_path = [], lg_pieces = [block_piece b]\<rparr>, [block_piece b])]"
    by (simp add: section_pieces_def pack_logical_section_def pack_piece_def cut_loop.simps flush_pack_def) (simp add: b cut_loop.simps)
  then show ?thesis by (simp add: document_sections_def make_section_def b Let_def)
qed

lemma web_corpus:
  "\<exists>c d s. build_documentation_corpus (\<lambda>_ _. None) no_parsers (map (page_input web_job []) [web_page]) default_segmentation = Inr c
     \<and> co_documents c = [d] \<and> co_sections c = [s] \<and> se_document s = doc_id d"
proof -
  define d where "d = normalize_document (\<lambda>_ _. None) no_parsers (page_input web_job [] web_page)"
  obtain s where s: "document_sections d 4000 = [s]" "se_document s = doc_id d" "se_characters s = 5"
    using web_blocks one_section [of d] d_def by blast
  then have "segment_document d default_segmentation = Inr \<lparr>sg_sections = [s], sg_diagnostics = []\<rparr>"
    by (simp add: segment_document_def default_segmentation_def default_target_def make_section_def
      default_oversized_def safe_integer_def Let_def)
  then have "map_result (\<lambda>d. segment_document d default_segmentation) (corpus_documents (\<lambda>_ _. None) no_parsers (map (page_input web_job []) [web_page])) =
      Inr [\<lparr>sg_sections = [s], sg_diagnostics = []\<rparr>]"
    by (simp add: d_def)
  from corpus_segmented [OF this] show ?thesis
    using s by (auto simp: corpus_of_def d_def Let_def)
qed

lemma web_documentation:
  "\<exists>db'. persist_documentation (\<lambda>_ _. None) no_parsers dash web_job (single_page_result web_page) [] web_db =
       Inr (\<lparr>px_state = Persisted, px_diagnostics = []\<rparr>, db')
     \<and> ab_core db' = ab_core web_db \<and> owned (ab_core web_db) web_job"
proof -
  define result where "result = single_page_result web_page"
  obtain c d s where c: "build_documentation_corpus (\<lambda>_ _. None) no_parsers (map (page_input web_job []) (ir_pages result)) default_segmentation = Inr c"
    and docs: "co_documents c = [d]" "co_sections c = [s]" "se_document s = doc_id d"
    using web_corpus by (auto simp: result_def single_page_result_def)
  define w where "w = work_of dash web_job result [] c"
  have w: "dw_corpus w = c" "sh_kind (dw_shape w) = DocumentationAsset"
    by (simp_all add: w_def work_of_def Let_def)
  define run where "run = new_run (ab_core web_db) web_job (dw_shape w) web_row"
  define db1 where "db1 = web_db\<lparr>ab_runs := [acquire_run web_db web_job (dw_shape w) run]\<rparr>"
  have held: "holds_lease 0 (j_id web_job) (j_lease_owner web_job) web_row"
    by (simp add: holds_lease_def web_row_def web_job_def sample_job_def)
  have ins: "insert_run web_job (dw_shape w) web_db = Inr (web_db\<lparr>ab_runs := [run]\<rparr>)"
    using held by (simp add: insert_run_def web_db_def run_def)
  have ident: "run_identity_matches run web_job (dw_shape w)" "rn_state run = RunRunning" "rn_attempt run = j_attempt web_job" "rn_id run = j_id web_job"
    by (simp_all add: run_def new_run_def run_identity_matches_def)
  have upd: "update_run run (acquire_run (web_db\<lparr>ab_runs := [run]\<rparr>) web_job (dw_shape w)) (web_db\<lparr>ab_runs := [run]\<rparr>) = Inr db1"
    by (simp add: update_run_def input_frozen_def db1_def web_db_def update_where_def acquire_run_def job_expiry_def)
  have ens: "ensure_running_run web_job (dw_shape w) web_db = Inr (RunStarted, db1)"
    using ins ident upd by (simp add: ensure_running_run_def advance_run_def)
  define u where "u = deterministic_ingestion_uuid ''documentation-section'' (j_id web_job @ '':'' @ se_id s)"
  have "get_text (dw_sections w) (se_id s) = Some u"
    using docs(2) by (simp add: w_def work_of_def get_text_def section_uuids_def jm_of_list_def u_def Let_def uuid_nonempty)
  then obtain first where secs: "add_section_rows web_job w (owned_sections c) ([], []) = Inr ([section_row_of web_job w d [] s u], first)"
    using docs by (simp add: owned_sections_def add_section_row_def insert_unique_def)
  define db2 where "db2 = db1\<lparr>ab_documents := document_rows web_job result [] w,
    ab_sections := [section_row_of web_job w d [] s u], ab_maps := [map_row_of web_job w]\<rparr>"
  have "list_ex (same_stage s) (ab_stages db2)"
    if "s \<in> set (map (stage_row_of db2 web_job) (documentation_stages web_job (sh_hash (dw_shape w)) (dw_corpus w) (dw_map_hash w)))" for s
  proof -
    have "sw_run s = ''job1''" "sw_attempt s = 1"
      using that by (auto simp: stage_row_of_def web_job_def sample_job_def Let_def)
    then show ?thesis by (simp add: waiting_for_all db2_def db1_def web_db_def)
  qed
  then obtain rows where "upsert_stages (map (stage_row_of db2 web_job) (documentation_stages web_job (sh_hash (dw_shape w)) (dw_corpus w) (dw_map_hash w))) (ab_stages db2) = Inr rows"
    using upsert_present by blast
  then have st: "insert_stages web_job (documentation_stages web_job (sh_hash (dw_shape w)) (dw_corpus w) (dw_map_hash w)) db2 = Inr (db2\<lparr>ab_stages := rows\<rparr>)"
    by (simp add: insert_stages_def)
  have own: "owned (ab_core web_db) web_job"
    using held by (simp add: owned_def web_db_def)
  obtain db3 where ready: "mark_review_ready web_job (dw_diagnostics w) (db2\<lparr>ab_stages := rows\<rparr>) = Inr db3"
    using own by (simp add: mark_review_ready_def assert_current_crawl_lease_def db2_def db1_def acquire_run_def ident Let_def)
  have core: "ab_core db3 = ab_core web_db"
    using mark_review_ready_fields [OF ready] by (auto simp: db2_def db1_def)
  have "write_documentation web_job result [] w db1 = Inr (\<lparr>px_state = Persisted, px_diagnostics = []\<rparr>, db3)"
    using st ready docs(1) w secs unfolding db2_def
    by (simp add: write_documentation_def insert_unique_def document_rows_def db1_def web_db_def Let_def)
  then have "persist_documentation (\<lambda>_ _. None) no_parsers dash web_job result [] web_db = Inr (\<lparr>px_state = Persisted, px_diagnostics = []\<rparr>, db3)"
    using c ens by (simp add: persist_documentation_def w_def [symmetric] Let_def)
  then show ?thesis using core own unfolding result_def by blast
qed

lemma web_persisted:
  "\<exists>res db'. persist_developer_asset_candidates (\<lambda>_ _. None) no_parsers decode dash web_job (single_page_result web_page) [] web_db = (Inr res, db')
     \<and> px_state res = Persisted"
proof -
  obtain db' where "persist_documentation (\<lambda>_ _. None) no_parsers dash web_job (single_page_result web_page) [] web_db =
       Inr (\<lparr>px_state = Persisted, px_diagnostics = []\<rparr>, db')" "ab_core db' = ab_core web_db" "owned (ab_core web_db) web_job"
    using web_documentation by blast
  moreover have "j_source_kind web_job = ''website''" by (simp add: web_job_def)
  ultimately show ?thesis
    by (simp add: persist_developer_asset_candidates_def persist_body_def lock_current_crawl_lease_def assert_current_crawl_lease_def)
qed

lemma persist_fenced_witness:
  "\<exists>out db'. persist_developer_asset_candidates (\<lambda>_ _. None) no_parsers (\<lambda>_ _. Inl (TypeError [])) ''-'' web_job (single_page_result web_page) [] web_db = (out, db')
     \<and> owned (ab_core web_db) web_job \<and> handed_over web_job (single_page_result web_page) [] db'"
proof -
  obtain res db' where p: "persist_developer_asset_candidates (\<lambda>_ _. None) no_parsers (\<lambda>_ _. Inl (TypeError [])) ''-'' web_job (single_page_result web_page) [] web_db = (Inr res, db')"
    "px_state res = Persisted"
    using web_persisted by blast
  then show ?thesis using persist_fenced [OF p(1)] by auto
qed

lemma persist_idempotent_witness:
  "\<exists>res db' res'. persist_developer_asset_candidates (\<lambda>_ _. None) no_parsers (\<lambda>_ _. Inl (TypeError [])) ''-'' web_job (single_page_result web_page) [] web_db = (Inr res, db')
     \<and> persist_developer_asset_candidates (\<lambda>_ _. None) no_parsers (\<lambda>_ _. Inl (TypeError [])) ''-'' web_job (single_page_result web_page) [] db' = (Inr res', db')
     \<and> px_state res = Persisted \<and> px_state res' \<in> {AlreadyPersisted, UnchangedContract}"
proof -
  obtain res db' where p: "persist_developer_asset_candidates (\<lambda>_ _. None) no_parsers (\<lambda>_ _. Inl (TypeError [])) ''-'' web_job (single_page_result web_page) [] web_db = (Inr res, db')"
    "px_state res = Persisted"
    using web_persisted by blast
  moreover have "no_output web_job web_db" "sections_linked web_db"
    by (simp_all add: no_output_def sections_linked_def web_db_def)
  ultimately show ?thesis using persist_idempotent [OF p] by blast
qed

end
