(* ===== verification/PersistRows.thy ===== *)
theory PersistRows
  imports PersistSafe
begin

text \<open>
  The rows of a documentation candidate against the acquired pages: no text is lost, every section row hangs below
  its heading; and the second check of the lease, which never fails.
\<close>

section \<open>The text of a documentation candidate\<close>

lemma map_result_pairs: "map_result f xs = Inr ys \<Longrightarrow> list_all2 (\<lambda>x y. f x = Inr y) xs ys"
  by (induction xs arbitrary: ys) auto

lemma corpus_groups:
  assumes "build_documentation_corpus parse ps inputs options = Inr c"
  shows "\<exists>gs. co_sections c = concat gs \<and> list_all2 (\<lambda>d g. \<forall>s\<in>set g. se_document s = doc_id d) (co_documents c) gs"
proof -
  obtain rs where rs: "map_result (\<lambda>d. segment_document d options) (corpus_documents parse ps inputs) = Inr rs"
    using assms corpus_refused by (cases "map_result (\<lambda>d. segment_document d options) (corpus_documents parse ps inputs)") fastforce+
  then obtain e where c: "c = corpus_of (corpus_documents parse ps inputs) rs e"
    using corpus_segmented assms by fastforce
  have "list_all2 (\<lambda>d g. \<forall>s\<in>set g. se_document s = doc_id d) (corpus_documents parse ps inputs) (map sg_sections rs)"
    unfolding list_all2_map2 by (rule list_all2_mono [OF map_result_pairs [OF rs]]) (auto intro: segment_owner)
  then show ?thesis by (auto simp: c corpus_of_def Let_def)
qed

lemma grouped_sections:
  fixes ds :: "document list" and gs :: "doc_section list list"
  assumes "list_all2 (\<lambda>d g. \<forall>s\<in>set g. se_document s = doc_id d) ds gs" "distinct (map doc_id ds)"
  shows "concat (map (\<lambda>d. filter (\<lambda>s. se_document s = doc_id d) (concat gs)) ds) = concat gs"
  using assms
proof (induction ds gs rule: list_all2_induct)
  case (Cons d ds g gs)
  have own: "filter (\<lambda>s. se_document s = doc_id d) g = g" using Cons.hyps(1) by (simp add: filter_id_conv)
  have other: "filter (\<lambda>s. se_document s = doc_id e) g = []" if "e \<in> set ds" for e
    using Cons.hyps(1) Cons.prems that by (auto simp: filter_empty_conv image_iff)
  have "se_document s \<in> doc_id ` set ds" if "s \<in> set (concat gs)" for s
    using Cons.hyps(2) that by (induction ds gs rule: list_all2_induct) auto
  then have rest: "filter (\<lambda>s. se_document s = doc_id d) (concat gs) = []"
    unfolding filter_empty_conv using Cons.prems by (metis distinct.simps(2) image_set list.simps(9))
  have "map (\<lambda>e. filter (\<lambda>s. se_document s = doc_id e) (g @ concat gs)) ds = map (\<lambda>e. filter (\<lambda>s. se_document s = doc_id e) (concat gs)) ds"
    using other by simp
  moreover have "filter (\<lambda>s. se_document s = doc_id d) (g @ concat gs) = g"
    using own rest by (simp only: filter_append append_Nil2)
  moreover have "distinct (map doc_id ds)" using Cons.prems by simp
  ultimately show ?case using Cons.IH by (simp only: list.map concat.simps)
qed simp

lemma owned_in_order:
  assumes "build_documentation_corpus parse ps inputs options = Inr c" "distinct (map doc_id (co_documents c))"
  shows "map snd (owned_sections c) = co_sections c"
proof -
  obtain gs where "co_sections c = concat gs" "list_all2 (\<lambda>d g. \<forall>s\<in>set g. se_document s = doc_id d) (co_documents c) gs"
    using corpus_groups [OF assms(1)] by blast
  then show ?thesis
    using grouped_sections [of "co_documents c" gs] assms(2) by (simp add: owned_sections_def map_concat comp_def)
qed

lemma document_rows_content:
  "map dd_markdown (document_rows job result legacy w) = map (\<lambda>d. join [newline, newline] (map render_block (doc_blocks d))) (co_documents (dw_corpus w))"
  "map dd_url (document_rows job result legacy w) = map (\<lambda>d. li_url (doc_source d)) (co_documents (dw_corpus w))"
  "map dd_ordinal (document_rows job result legacy w) = [0..<length (co_documents (dw_corpus w))]"
proof -
  have row: "dd_markdown (document_row_of job result legacy w i d) = join [newline, newline] (map render_block (doc_blocks d))"
    "dd_url (document_row_of job result legacy w i d) = li_url (doc_source d)" "dd_ordinal (document_row_of job result legacy w i d) = i" for i d
    by (simp_all add: document_row_of_def Let_def)
  have "map f (document_rows job result legacy w) = map g (map snd (enumerate 0 (co_documents (dw_corpus w))))"
    if "\<And>i d. f (document_row_of job result legacy w i d) = g d" for f :: "asset_document \<Rightarrow> string" and g
    unfolding document_rows_def map_map by (intro map_cong refl) (auto simp: that)
  note by_document = this [unfolded map_snd_enumerate]
  show "map dd_markdown (document_rows job result legacy w) = map (\<lambda>d. join [newline, newline] (map render_block (doc_blocks d))) (co_documents (dw_corpus w))"
    "map dd_url (document_rows job result legacy w) = map (\<lambda>d. li_url (doc_source d)) (co_documents (dw_corpus w))"
    by (rule by_document, rule row)+
  have "map dd_ordinal (document_rows job result legacy w) = map fst (enumerate 0 (co_documents (dw_corpus w)))"
    unfolding document_rows_def map_map by (intro map_cong refl) (auto simp: row)
  then show "map dd_ordinal (document_rows job result legacy w) = [0..<length (co_documents (dw_corpus w))]" by simp
qed

lemma document_texts: "nonws (concat (map (\<lambda>d. join [newline, newline] (map render_block (doc_blocks d))) ds)) = nonws (concat (map render_block (concat (map doc_blocks ds))))"
  by (induction ds) (simp_all add: filter_join_ws)

text \<open>
  What a page means, from its content, URL and content type alone: the blocks that the parser of its format finds in
  the content.
\<close>

definition page_source :: "page_record \<Rightarrow> normalization_input" where
  "page_source page =
     \<lparr>ni_content = pg_html page,
      ni_source = \<lparr>li_source_id = [], li_url = pg_url page, li_content_type = pg_content_type page,
        li_source_kind = None, li_snapshot = None, li_fetched_at = None\<rparr>,
      ni_title = None, ni_kind = Some DocumentationKind, ni_format = None\<rparr>"

definition page_format :: "url_parser \<Rightarrow> page_record \<Rightarrow> document_format" where
  "page_format parse page = detect_format parse (page_source page)"

definition page_blocks :: "url_parser \<Rightarrow> parsers \<Rightarrow> page_record \<Rightarrow> draft_block list" where
  "page_blocks parse ps page =
     kept_drafts (pr_blocks (fst (parsed_document ps (page_source page) (page_format parse page))))"

lemma render_unanchored: "render_body (unanchored b) = render_body b"
  by (cases b) simp_all

lemma page_format_input: "detect_format parse (page_input job legacy page) = page_format parse page"
  unfolding detect_format_def page_format_def page_input_def page_source_def
    normalization_input.simps lineage_input.simps ..

lemma normalized_page:
  "map render_block (doc_blocks (normalize_document parse ps (page_input job legacy page))) = map (render_body \<circ> df_body) (page_blocks parse ps page)"
proof -
  define input where "input = page_input job legacy page"
  define drafts where "drafts = pr_blocks (fst (parsed_document ps (page_source page) (page_format parse page)))"
  have "parsed_document ps input g = parsed_document ps (page_source page) g" for g
    by (cases g) (simp_all add: parsed_document_def requested_kind_def input_def page_input_def page_source_def Let_def)
  then have parsed: "pr_blocks (fst (parsed_document ps input (detect_format parse input))) = drafts"
    by (simp add: input_def page_format_input drafts_def)
  have same: "map (render_body \<circ> nb_body) bs = map (render_body \<circ> df_body) ds"
    if "map (unanchored \<circ> nb_body) bs = map (unanchored \<circ> df_body) ds" for bs :: "normalized_block list" and ds
    using arg_cong [OF that, of "map render_body"] by (simp add: render_unanchored comp_def)
  have "map (render_body \<circ> nb_body) (finalize_blocks i drafts) = map (render_body \<circ> df_body) (kept_drafts drafts)" for i
    using finalize_blocks_fields [of i drafts] by (intro same) blast
  then show ?thesis
    unfolding input_def [symmetric] normalize_document_def Let_def document.simps parsed page_blocks_def drafts_def [symmetric]
    by (simp only: render_block_def [abs_def] comp_def)
qed

text \<open>Of a plain text every character but white space and NUL is in the blocks.\<close>

lemma nonws_paragraphs: "nonws (join [newline, newline] ts) = nonws (concat ts)"
  by (simp add: filter_join_ws)

lemma plain_page_text:
  assumes "page_format parse page = PlainText"
  shows "nonws (join [newline, newline] (map (render_body \<circ> df_body) (page_blocks parse ps page))) = readable (pg_html page)"
proof -
  have kept: "kept_drafts (pr_blocks (parse_text v)) = pr_blocks (parse_text v)" for v
    unfolding filter_id_conv parse_text_blocks by (auto simp: paragraph_of_def Let_def split: if_splits)
  have blocks: "page_blocks parse ps page = pr_blocks (parse_text (pg_html page))"
    using assms by (simp add: page_blocks_def parsed_document_def page_source_def kept Let_def)
  have "nonws (concat (map (render_body \<circ> df_body) (concat (map (paragraph_of v) xs)))) = readable (concat (map snd xs))" for v xs
  proof (induction xs)
    case (Cons x xs)
    have "normalize_prose (snd x) = [] \<Longrightarrow> readable (snd x) = []" using normalize_prose_keeps [of "snd x"] by simp
    then have "nonws (concat (map (render_body \<circ> df_body) (paragraph_of v x))) = readable (snd x)"
      by (auto simp: paragraph_of_def normalize_prose_keeps Let_def split: prod.splits)
    then show ?case using Cons.IH by (simp only: list.map concat.simps map_append filter_append concat_append)
  qed simp
  then show ?thesis
    using text_matches_effect [of 0 "pg_html page"] unfolding blocks parse_text_blocks by (simp only: nonws_paragraphs)
qed

lemma mset_of_map: "mset ys = mset (map f xs) \<Longrightarrow> \<exists>xs'. mset xs' = mset xs \<and> map f xs' = ys"
proof (induction ys arbitrary: xs)
  case (Cons y ys)
  then obtain x where x: "x \<in> set xs" "f x = y" by (metis imageE list.set_intros(1) set_map set_mset_mset)
  then have "mset ys = mset (map f (remove1 x xs))" using Cons.prems by (simp add: image_mset_Diff) (metis add_mset_remove_trivial)
  then obtain xs' where "mset xs' = mset (remove1 x xs)" "map f xs' = ys" using Cons.IH by blast
  then show ?case using x by (intro exI [of _ "x # xs'"]) simp
qed simp

text \<open>The row of a page: its URL, and the rendering of its blocks; of a plain text that is the text itself.\<close>

definition row_of_page :: "url_parser \<Rightarrow> parsers \<Rightarrow> page_record \<Rightarrow> asset_document \<Rightarrow> bool" where
  "row_of_page parse ps page r \<longleftrightarrow>
     dd_url r = pg_url page
     \<and> dd_markdown r = join [newline, newline] (map (render_body \<circ> df_body) (page_blocks parse ps page))
     \<and> (page_format parse page = PlainText \<longrightarrow> nonws (dd_markdown r) = readable (pg_html page))"

lemma document_rows_of_pages:
  assumes "map (normalize_document parse ps \<circ> page_input job legacy) pages = co_documents (dw_corpus w)"
  shows "list_all2 (row_of_page parse ps) pages (document_rows job result legacy w)"
proof -
  let ?doc = "normalize_document parse ps \<circ> page_input job legacy"
  have "map dd_url (document_rows job result legacy w) = map pg_url pages"
    "map dd_markdown (document_rows job result legacy w) = map (\<lambda>p. join [newline, newline] (map render_block (doc_blocks (?doc p)))) pages"
    by (simp_all add: document_rows_content assms [symmetric] normalized_url page_input_def comp_def)
  then have "list_all2 (\<lambda>p r. dd_url r = pg_url p \<and> dd_markdown r = join [newline, newline] (map render_block (doc_blocks (?doc p))))
      pages (document_rows job result legacy w)"
    unfolding list_all2_conv_all_nth by (metis (no_types, lifting) length_map nth_map)
  then show ?thesis
    by (rule list_all2_mono) (simp add: row_of_page_def normalized_page plain_page_text)
qed

text \<open>
  Property C24. A persisted documentation candidate holds every acquired page, in the order of the URLs: the document row
  of a page has its URL, its number and the rendering of the blocks that the parser of its format finds in its content,
  which for a plain text is all of the text but white space and NUL; and read in order the section rows hold exactly
  the characters of the document rows, up to white space.
\<close>

theorem persisted_text_complete:
  assumes "persist_documentation parse ps dash job result legacy db = Inr (res, db')" "px_state res = Persisted"
  shows "\<exists>pages docs secs. ab_documents db' = ab_documents db @ docs \<and> ab_sections db' = ab_sections db @ secs
    \<and> mset pages = mset (ir_pages result) \<and> sorted (map pg_url pages) \<and> list_all2 (row_of_page parse ps) pages docs
    \<and> map dd_ordinal docs = [0..<length docs]
    \<and> nonws (concat (map dx_text secs)) = nonws (concat (map dd_markdown docs))"
  using assms(1)
proof (cases rule: persist_documentation_cases)
  case (first c db1)
  define w where "w = work_of dash job result legacy c"
  have corpus: "dw_corpus w = c" by (simp add: w_def work_of_def Let_def)
  obtain sections first' db2 db3 where docs: "insert_all clash_document (document_rows job result legacy w) (ab_documents db1) = Inr (ab_documents db1 @ document_rows job result legacy w)"
    and secs: "add_section_rows job w (owned_sections (dw_corpus w)) (ab_sections db1, []) = Inr (sections, first')"
    and db2: "db2 = db1\<lparr>ab_documents := ab_documents db1 @ document_rows job result legacy w, ab_sections := sections, ab_maps := ab_maps db1 @ [map_row_of job w]\<rparr>"
    and st: "insert_stages job (documentation_stages job (sh_hash (dw_shape w)) (dw_corpus w) (dw_map_hash w)) db2 = Inr db3"
    and ready: "mark_review_ready job (dw_diagnostics w) db3 = Inr db'"
    using first(3) [folded w_def] by (rule write_documentation_steps)
  obtain new where new: "sections = ab_sections db1 @ new" "list_all2 (section_row_for w) (owned_sections c) new"
    using add_section_rows_new [OF secs] by (auto simp: corpus)
  obtain runs rows runs' where "db1 = db\<lparr>ab_runs := runs\<rparr>" "db3 = db2\<lparr>ab_stages := rows\<rparr>" "db' = db3\<lparr>ab_runs := runs'\<rparr>"
    using ensure_running_run_fields [OF first(2)] insert_stages_fields [OF st] mark_review_ready_fields [OF ready] by blast
  then have db': "ab_documents db' = ab_documents db @ document_rows job result legacy w" "ab_sections db' = ab_sections db @ new"
    by (simp_all add: db2 new)
  have ids: "distinct (map doc_id (co_documents c))"
    using unclashed_documents [of job result legacy w] insert_all_Inr [OF docs] by (simp add: corpus)
  have "map dx_text new = map (se_content \<circ> snd) (owned_sections c)"
    using new(2) by (induction rule: list_all2_induct) (simp_all add: section_row_for_def)
  also have "\<dots> = map se_content (co_sections c)"
    using owned_in_order [OF first(1) ids] by (metis map_map)
  finally have texts: "nonws (concat (map dx_text new)) = nonws (concat (map dd_markdown (document_rows job result legacy w)))"
    using corpus_facts [OF first(1)] document_texts [of "co_documents c"] by (simp add: document_rows_content corpus)
  have "mset (co_documents c) = mset (map (normalize_document parse ps \<circ> page_input job legacy) (ir_pages result))"
    using corpus_facts [OF first(1)] by (simp add: comp_def multiset.map_comp)
  then obtain pages where pages: "mset pages = mset (ir_pages result)"
      "map (normalize_document parse ps \<circ> page_input job legacy) pages = co_documents c"
    using mset_of_map by blast
  have "sorted (map pg_url pages)"
  proof -
    have "sorted_wrt (\<lambda>l r. document_key l \<le> document_key r) (co_documents c)" using corpus_facts [OF first(1)] by blast
    then have "sorted_wrt (\<lambda>l r. li_url (doc_source l) \<le> li_url (doc_source r)) (co_documents c)"
      by (rule sorted_wrt_mono_rel [rotated]) (auto simp: less_eq_prod_def less_imp_le)
    then show ?thesis by (simp add: pages(2) [symmetric] sorted_wrt_map normalized_url page_input_def)
  qed
  moreover have "list_all2 (row_of_page parse ps) pages (document_rows job result legacy w)"
    using pages(2) by (intro document_rows_of_pages) (simp add: corpus)
  moreover have "map dd_ordinal (document_rows job result legacy w) = [0..<length (document_rows job result legacy w)]"
    by (simp add: document_rows_content document_rows_fields corpus)
  ultimately show ?thesis
    using db' texts pages(1) by (intro exI [of _ pages] exI [of _ "document_rows job result legacy w"] exI [of _ new]) simp
qed (use assms(2) in simp)

text \<open>The sample page is a plain text; it is in its row and in the rows of its sections.\<close>

lemma persisted_text_complete_witness:
  "\<exists>res db' doc secs. persist_documentation (\<lambda>_ _. None) no_parsers ''-'' web_job (single_page_result web_page) [] web_db = Inr (res, db')
     \<and> ab_documents db' = ab_documents web_db @ [doc] \<and> ab_sections db' = ab_sections web_db @ secs
     \<and> dd_url doc = pg_url web_page \<and> nonws (dd_markdown doc) = ''Hello'' \<and> nonws (concat (map dx_text secs)) = ''Hello''"
proof -
  obtain db' where p: "persist_documentation (\<lambda>_ _. None) no_parsers ''-'' web_job (single_page_result web_page) [] web_db =
       Inr (\<lparr>px_state = Persisted, px_diagnostics = []\<rparr>, db')"
    using web_documentation by blast
  moreover have "px_state \<lparr>px_state = Persisted, px_diagnostics = []\<rparr> = Persisted" by simp
  ultimately obtain pages docs secs where rows: "ab_documents db' = ab_documents web_db @ docs" "ab_sections db' = ab_sections web_db @ secs"
      "mset pages = mset (ir_pages (single_page_result web_page))" "list_all2 (row_of_page (\<lambda>_ _. None) no_parsers) pages docs"
      "nonws (concat (map dx_text secs)) = nonws (concat (map dd_markdown docs))"
    using persisted_text_complete by blast
  have "pages = [web_page]" using rows(3) by (simp add: single_page_result_def)
  then obtain doc where doc: "docs = [doc]" "row_of_page (\<lambda>_ _. None) no_parsers web_page doc"
    using rows(4) by (auto simp: list_all2_Cons1)
  have "readable (pg_html web_page) = ''Hello''" by code_simp
  then have "nonws (dd_markdown doc) = ''Hello''"
    using doc(2) web_format [unfolded page_format_input] unfolding row_of_page_def by (elim conjE) (rule trans, erule mp)
  then show ?thesis
    using p rows(1,2,5) doc by (auto simp: row_of_page_def)
qed

section \<open>Parents\<close>

abbreviation level_anchors :: "heading_path_item list \<Rightarrow> (nat \<times> string) list" where
  "level_anchors \<equiv> map (\<lambda>i. (hp_level i, hp_anchor i))"

lemma canonical_level_anchor:
  "canonical_value (JObj [(''level'', json_nat n), (''anchor'', JStr a)]) = JObj [(''anchor'', JStr a), (''level'', json_nat n)]"
  by (simp add: compare_text_def from_entries_def own_order_def array_index_def jm_of_list_def is_digit_def char_in_def)

lemma path_key_inject: "path_key p = path_key q \<Longrightarrow> level_anchors p = level_anchors q"
proof -
  define f where "f = (\<lambda>i :: heading_path_item. JObj [(''level'', json_nat (hp_level i)), (''anchor'', JStr (hp_anchor i))])"
  define g where "g = (\<lambda>i :: heading_path_item. JObj [(''anchor'', JStr (hp_anchor i)), (''level'', json_nat (hp_level i))])"
  have vals: "canonical_value (JArr (map f p)) = JArr (map g p)" for p
    using canonical_level_anchor by (simp add: f_def g_def comp_def)
  assume "path_key p = path_key q"
  then have "stringify (JArr (map g p)) = stringify (JArr (map g q))"
    unfolding path_key_def canonical_json_def f_def [symmetric] by (simp only: vals)
  moreover have "defined (JArr (map g p))" for p
    by (induction p) (simp_all add: g_def)
  ultimately have "map g p = map g q"
    using stringify_inj by blast
  then show ?thesis
    by (induction p q rule: list_induct2') (auto simp: g_def)
qed

lemma section_key_inject:
  assumes "length (doc_id d) = length (doc_id e)" "section_key_of d p = section_key_of e q"
  shows "doc_id d = doc_id e" "level_anchors p = level_anchors q"
proof -
  have "doc_id d = doc_id e \<and> path_key p = path_key q"
    using assms by (simp add: section_key_of_def)
  then show "doc_id d = doc_id e" "level_anchors p = level_anchors q"
    using path_key_inject by blast+
qed

text \<open>The key of a section, and the place of the first section of a key among those written before.\<close>

definition own_key :: "document \<times> doc_section \<Rightarrow> string" where
  "own_key ds = section_key_of (fst ds) (se_path (snd ds))"

definition first_with :: "(document \<times> doc_section) list \<Rightarrow> nat \<Rightarrow> string \<Rightarrow> nat option" where
  "first_with ps n k = find (\<lambda>j. own_key (ps ! j) = k) [0..<n]"

definition parent_place :: "(document \<times> doc_section) list \<Rightarrow> nat \<Rightarrow> nat option" where
  "parent_place ps i = (let (d, s) = ps ! i in
     if 1 < length (se_path s) then first_with ps i (section_key_of d (butlast (se_path s))) else None)"

definition rows_placed :: "(document \<times> doc_section) list \<Rightarrow> asset_section list \<Rightarrow> (string \<times> string) list \<Rightarrow> bool" where
  "rows_placed ps rows first \<longleftrightarrow> length rows = length ps
     \<and> (\<forall>i < length ps. dx_parent (rows ! i) = map_option (\<lambda>j. dx_id (rows ! j)) (parent_place ps i))
     \<and> (\<forall>k. jm_get first k = map_option (\<lambda>j. dx_id (rows ! j)) (first_with ps (length ps) k))"

lemma first_with_less: "first_with ps n k = Some j \<Longrightarrow> j < n \<and> own_key (ps ! j) = k"
  by (auto simp: first_with_def find_Some_iff)

lemma first_with_append: "n \<le> length ps \<Longrightarrow> first_with (ps @ qs) n k = first_with ps n k"
  unfolding first_with_def by (intro find_cong refl) (simp add: nth_append)

lemma first_with_snoc:
  "first_with (ps @ [x]) (Suc (length ps)) k =
     (case first_with ps (length ps) k of Some j \<Rightarrow> Some j | None \<Rightarrow> if own_key x = k then Some (length ps) else None)"
proof -
  have "find P (xs @ [y]) = (case find P xs of Some j \<Rightarrow> Some j | None \<Rightarrow> if P y then Some y else None)" for P and y :: nat and xs
    by (induction xs) auto
  then have "first_with (ps @ [x]) (Suc (length ps)) k =
      (case first_with (ps @ [x]) (length ps) k of Some j \<Rightarrow> Some j | None \<Rightarrow> if own_key x = k then Some (length ps) else None)"
    by (simp add: first_with_def)
  then show ?thesis by (simp add: first_with_append)
qed

lemma parent_place_append: "i < length ps \<Longrightarrow> parent_place (ps @ qs) i = parent_place ps i"
  by (simp add: parent_place_def nth_append first_with_append split: prod.split)

lemma parent_place_less: "parent_place ps i = Some j \<Longrightarrow> j < i"
  by (auto simp: parent_place_def first_with_less split: prod.splits if_splits)

lemma add_section_row_placed:
  assumes step: "add_section_row job w d s (old @ rows, first) = Inr (all, first')" and placed: "rows_placed ps rows first"
  shows "\<exists>r. all = old @ rows @ [r] \<and> rows_placed (ps @ [(d, s)]) (rows @ [r]) first'"
proof -
  obtain uuid where u: "get_text (dw_sections w) (se_id s) = Some uuid" and all: "all = old @ rows @ [section_row_of job w d first s uuid]"
    and first': "first' = (if jm_get first (section_key_of d (se_path s)) = None then jm_set (section_key_of d (se_path s)) uuid first else first)"
    using step by (auto simp: add_section_row_def insert_unique_Inr split: option.splits)
  define r where "r = section_row_of job w d first s uuid"
  have r: "dx_parent r = (if 1 < length (se_path s) then jm_get first (section_key_of d (butlast (se_path s))) else None)" "dx_id r = uuid"
    by (simp_all add: r_def section_row_of_def Let_def)
  have len: "length rows = length ps" and get: "jm_get first k = map_option (\<lambda>j. dx_id (rows ! j)) (first_with ps (length ps) k)" for k
    using placed by (simp_all add: rows_placed_def)
  have last: "(rows @ [r]) ! length ps = r" by (simp add: nth_append len)
  have keep: "map_option (\<lambda>j. dx_id ((rows @ [r]) ! j)) o' = map_option (\<lambda>j. dx_id (rows ! j)) o'"
    if "\<And>j. o' = Some j \<Longrightarrow> j < length ps" for o'
    using that by (cases o') (simp_all add: nth_append len)
  have old: "dx_parent ((rows @ [r]) ! i) = map_option (\<lambda>j. dx_id ((rows @ [r]) ! j)) (parent_place (ps @ [(d, s)]) i)" if i: "i < length ps" for i
  proof -
    have "dx_parent (rows ! i) = map_option (\<lambda>j. dx_id (rows ! j)) (parent_place ps i)"
      using placed i by (simp add: rows_placed_def)
    moreover have "map_option (\<lambda>j. dx_id ((rows @ [r]) ! j)) (parent_place ps i) = map_option (\<lambda>j. dx_id (rows ! j)) (parent_place ps i)"
      by (rule keep) (use parent_place_less i in fastforce)
    ultimately show ?thesis using i by (simp add: parent_place_append nth_append len)
  qed
  have new: "dx_parent r = map_option (\<lambda>j. dx_id ((rows @ [r]) ! j)) (parent_place (ps @ [(d, s)]) (length ps))"
  proof -
    have "map_option (\<lambda>j. dx_id ((rows @ [r]) ! j)) (first_with ps (length ps) k) = jm_get first k" for k
      unfolding get by (rule keep) (use first_with_less in blast)
    then show ?thesis
      by (simp add: r parent_place_def first_with_append)
  qed
  have "jm_get first' k = map_option (\<lambda>j. dx_id ((rows @ [r]) ! j)) (first_with (ps @ [(d, s)]) (Suc (length ps)) k)" for k
  proof (cases "first_with ps (length ps) k")
    case None
    then show ?thesis
      using get [of k] by (auto simp: first' first_with_snoc own_key_def r last update_conv')
  next
    case (Some j)
    then have "j < length ps" using first_with_less by blast
    then show ?thesis
      using get [of k] Some by (auto simp: first' first_with_snoc nth_append len update_conv')
  qed
  then have "rows_placed (ps @ [(d, s)]) (rows @ [r]) first'"
    using old new by (auto simp: rows_placed_def len less_Suc_eq nth_append)
  then show ?thesis using all by (auto simp: r_def)
qed

lemma add_section_rows_placed:
  "add_section_rows job w qs (old @ rows, first) = Inr (all, first') \<Longrightarrow> rows_placed ps rows first
    \<Longrightarrow> \<exists>rows'. all = old @ rows' \<and> rows_placed (ps @ qs) rows' first'"
proof (induction qs arbitrary: ps rows first)
  case (Cons x qs)
  obtain d s where x: "x = (d, s)" by (cases x)
  obtain all1 first1 where step: "add_section_row job w d s (old @ rows, first) = Inr (all1, first1)"
    and more: "add_section_rows job w qs (all1, first1) = Inr (all, first')"
    using Cons.prems(1) by (auto simp: x)
  obtain r where r: "all1 = old @ rows @ [r]" "rows_placed (ps @ [(d, s)]) (rows @ [r]) first1"
    using add_section_row_placed [OF step Cons.prems(2)] by blast
  then show ?case using Cons.IH [of "rows @ [r]" first1 "ps @ [(d, s)]"] more by (simp add: x)
qed auto

text \<open>The sections of the corpus in the order of their rows, and the parent of each row.\<close>

lemma documents_same_length:
  assumes "build_documentation_corpus parse ps inputs options = Inr c" "d \<in> set (co_documents c)"
  shows "length (doc_id d) = 33"
proof -
  have "mset (co_documents c) = mset (map (normalize_document parse ps) inputs)"
    using corpus_facts [OF assms(1)] by blast
  then obtain i where "d = normalize_document parse ps i"
    using assms(2) by (metis image_iff image_set set_mset_mset)
  then show ?thesis
    using sha.short_id_length [of 24 "''document_''"] by (simp add: normalize_document_def Let_def)
qed

text \<open>What the parent of a row says of its section: an earlier section of the document whose path is one shorter.\<close>

definition parent_ok :: "(document \<times> doc_section) list \<Rightarrow> asset_section list \<Rightarrow> nat \<Rightarrow> bool" where
  "parent_ok ps rows i \<longleftrightarrow>
     (case dx_parent (rows ! i) of
        None \<Rightarrow> list_all (\<lambda>j. 1 < length (se_path (snd (ps ! i)))
            \<longrightarrow> own_key (ps ! j) \<noteq> section_key_of (fst (ps ! i)) (butlast (se_path (snd (ps ! i))))) [0..<i]
      | Some u \<Rightarrow> \<exists>j < i. dx_id (rows ! j) = u \<and> doc_id (fst (ps ! j)) = doc_id (fst (ps ! i))
          \<and> level_anchors (se_path (snd (ps ! j))) = level_anchors (butlast (se_path (snd (ps ! i)))))"

lemma placed_parent_ok:
  assumes placed: "rows_placed ps rows first" and i: "i < length ps"
    and same: "\<And>d s. (d, s) \<in> set ps \<Longrightarrow> length (doc_id d) = 33"
  shows "parent_ok ps rows i"
proof -
  obtain d s where ds: "ps ! i = (d, s)" by (cases "ps ! i")
  have p: "dx_parent (rows ! i) = map_option (\<lambda>j. dx_id (rows ! j)) (parent_place ps i)"
    using placed i by (simp add: rows_placed_def)
  show ?thesis
  proof (cases "parent_place ps i")
    case None
    then show ?thesis
      using p by (auto simp: parent_ok_def parent_place_def ds first_with_def find_None_iff list_all_iff)
  next
    case (Some j)
    then have j: "j < i" "own_key (ps ! j) = section_key_of d (butlast (se_path s))"
      using first_with_less by (auto simp: parent_place_def ds split: if_splits)
    obtain e t where et: "ps ! j = (e, t)" by (cases "ps ! j")
    have "length (doc_id e) = length (doc_id d)"
      using same nth_mem [OF i] nth_mem [of j ps] i j(1) ds et by (metis dual_order.strict_trans)
    then show ?thesis
      using section_key_inject [of e d "se_path t" "butlast (se_path s)"] j p Some
      by (auto simp: parent_ok_def ds et own_key_def)
  qed
qed

text \<open>
  The section rows of a persisted candidate stand for the sections of its corpus, document by
  document, and form a forest: the parent of a row is an earlier row of the same document whose heading path is the
  path of the row without its last heading, and a row without a parent has no such row before it.
\<close>

theorem section_rows_nested:
  assumes "persist_documentation parse ps dash job result legacy db = Inr (res, db')" "px_state res = Persisted"
  shows "\<exists>c secs. build_documentation_corpus parse ps (map (page_input job legacy) (ir_pages result)) default_segmentation = Inr c
    \<and> ab_sections db' = ab_sections db @ secs \<and> list_all2 (section_row_for (work_of dash job result legacy c)) (owned_sections c) secs
    \<and> list_all (parent_ok (owned_sections c) secs) [0..<length secs]"
  using assms(1)
proof (cases rule: persist_documentation_cases)
  case (first c db1)
  define w where "w = work_of dash job result legacy c"
  have corpus: "dw_corpus w = c" by (simp add: w_def work_of_def Let_def)
  obtain sections first' db2 db3 where secs: "add_section_rows job w (owned_sections (dw_corpus w)) (ab_sections db1, []) = Inr (sections, first')"
    and db2: "db2 = db1\<lparr>ab_documents := ab_documents db1 @ document_rows job result legacy w, ab_sections := sections, ab_maps := ab_maps db1 @ [map_row_of job w]\<rparr>"
    and st: "insert_stages job (documentation_stages job (sh_hash (dw_shape w)) (dw_corpus w) (dw_map_hash w)) db2 = Inr db3"
    and ready: "mark_review_ready job (dw_diagnostics w) db3 = Inr db'"
    using first(3) [folded w_def] by (rule write_documentation_steps)
  obtain runs rows runs' where "db1 = db\<lparr>ab_runs := runs\<rparr>" "db3 = db2\<lparr>ab_stages := rows\<rparr>" "db' = db3\<lparr>ab_runs := runs'\<rparr>"
    using ensure_running_run_fields [OF first(2)] insert_stages_fields [OF st] mark_review_ready_fields [OF ready] by blast
  then have db': "ab_sections db' = sections" "ab_sections db1 = ab_sections db" by (simp_all add: db2)
  obtain new where new: "sections = ab_sections db @ new" "list_all2 (section_row_for w) (owned_sections c) new"
    using add_section_rows_new [OF secs] db'(2) by (auto simp: corpus)
  obtain new' where placed: "sections = ab_sections db @ new'" "rows_placed (owned_sections c) new' first'"
    using add_section_rows_placed [of job w "owned_sections c" "ab_sections db" "[]" "[]" sections first' "[]"] secs
    by (auto simp: corpus db'(2) rows_placed_def first_with_def)
  have "parent_ok (owned_sections c) new i" if "i < length new" for i
    using placed_parent_ok [OF placed(2), of i] placed(1) new list_all2_lengthD [OF new(2)] that documents_same_length [OF first(1)]
    by (auto simp: owned_sections_def)
  then have "list_all (parent_ok (owned_sections c) new) [0..<length new]" by (simp add: list_all_iff)
  then show ?thesis
    using first(1) db'(1) new unfolding w_def by blast
qed (use assms(2) in simp)

lemma section_rows_nested_witness:
  "\<exists>res db' c secs. persist_documentation (\<lambda>_ _. None) no_parsers ''-'' web_job (single_page_result web_page) [] web_db = Inr (res, db')
     \<and> ab_sections db' = ab_sections web_db @ secs \<and> list_all (parent_ok (owned_sections c) secs) [0..<length secs]"
proof -
  obtain db' where p: "persist_documentation (\<lambda>_ _. None) no_parsers ''-'' web_job (single_page_result web_page) [] web_db =
       Inr (\<lparr>px_state = Persisted, px_diagnostics = []\<rparr>, db')"
    using web_documentation by blast
  then show ?thesis using section_rows_nested [OF p] by auto
qed

section \<open>The second check of the lease\<close>

definition stale_fault :: fault where
  "stale_fault = JobFault (job_error ''crawler_lease_lost'' ''The crawler lease expired before typed candidates could be committed.'')"

named_theorems fault_simps \<open>no step but the second check raises its fault\<close>

lemma stale_distinct [fault_simps]:
  "OtherFault \<noteq> stale_fault"
  "throw ''developer_asset_run_conflict'' m \<noteq> Inl stale_fault" "throw ''developer_asset_run_incomplete'' m \<noteq> Inl stale_fault"
  "throw ''openapi_document_invalid'' m \<noteq> Inl stale_fault" "throw ''contract_catalog_binding_ambiguous'' m \<noteq> Inl stale_fault"
  "conflict m \<noteq> Inl stale_fault"
  "throw ''crawler_lease_lost'' ''The typed ingestion run could not be finalized by the current lease owner.'' \<noteq> Inl stale_fault"
  "throw ''crawler_lease_lost'' ''The crawler no longer owns this job lease; typed candidates were not committed.'' \<noteq> Inl stale_fault"
  by (simp_all add: stale_fault_def throw_def conflict_def job_error_def)

lemma insert_fault [fault_simps]: "insert_unique cl r rows \<noteq> Inl stale_fault" "insert_all cl rs rows \<noteq> Inl stale_fault"
proof -
  show one: "insert_unique cl r rows \<noteq> Inl stale_fault" for r rows
    by (simp add: insert_unique_def fault_simps)
  show "insert_all cl rs rows \<noteq> Inl stale_fault"
    by (induction rs arbitrary: rows) (simp_all add: one)
qed

lemma upsert_fault [fault_simps]: "upsert_stages ss rows \<noteq> Inl stale_fault"
  by (induction ss arbitrary: rows) (simp_all add: upsert_stage_def fault_simps)

lemma stages_fault [fault_simps]: "insert_stages job sts db \<noteq> Inl stale_fault"
  by (simp add: insert_stages_def fault_simps)

lemma sections_fault [fault_simps]: "add_section_rows job w ss acc \<noteq> Inl stale_fault"
  by (induction job w ss acc rule: add_section_rows.induct)
    (auto simp: add_section_row_def fault_simps split: option.splits prod.splits)

lemma insert_run_fault [fault_simps]: "insert_run job shape db \<noteq> Inl stale_fault"
  by (auto simp: insert_run_def fault_simps split: option.splits)

lemma update_run_fault [fault_simps]: "update_run r f db \<noteq> Inl stale_fault"
  by (simp add: update_run_def fault_simps)

lemma advance_run_fault [fault_simps]: "advance_run job shape db r \<noteq> Inl stale_fault"
  unfolding advance_run_def by (simp add: fault_simps)

lemma run_fault [fault_simps]: "ensure_running_run job shape db \<noteq> Inl stale_fault"
  unfolding ensure_running_run_def by (simp add: fault_simps split: option.split)

lemma mark_fault: "owned (ab_core db) job \<Longrightarrow> mark_review_ready job ds db \<noteq> Inl stale_fault"
  by (simp add: mark_review_ready_def assert_current_crawl_lease_def fault_simps Let_def)

lemma stages_core: "insert_stages job sts db = Inr db' \<Longrightarrow> ab_core db' = ab_core db"
  using insert_stages_rest by (simp add: keeps_rest_def)

lemma write_documentation_fault:
  assumes "owned (ab_core db) job"
  shows "write_documentation job result legacy w db \<noteq> Inl stale_fault"
  using assms by (auto simp: write_documentation_def fault_simps mark_fault stages_core Let_def split: prod.splits)

lemma write_contract_fault:
  assumes "owned (ab_core db) job"
  shows "write_contract job target page shape c db \<noteq> Inl stale_fault"
  using assms by (auto simp: write_contract_def fault_simps mark_fault stages_core Let_def)

lemma ensure_core: "ensure_running_run job shape db = Inr (p, db') \<Longrightarrow> ab_core db' = ab_core db"
  using ensure_running_run_rest by (simp add: keeps_rest_def)

lemma persist_documentation_fault:
  assumes "owned (ab_core db) job"
  shows "persist_documentation parse ps dash job result legacy db \<noteq> Inl stale_fault"
  using assms by (auto simp: persist_documentation_def fault_simps write_documentation_fault ensure_core Let_def
    split: sum.splits run_progress.splits if_splits)

lemma persist_contract_fault:
  assumes "owned (ab_core db) job"
  shows "persist_contract job result legacy target page c db \<noteq> Inl stale_fault"
  using assms by (auto simp: persist_contract_def fault_simps write_contract_fault ensure_core Let_def
    split: run_progress.splits if_splits)

lemma persist_openapi_fault:
  assumes "owned (ab_core db) job"
  shows "persist_openapi decode dash job result legacy target db \<noteq> Inl stale_fault"
  using assms by (auto simp: persist_openapi_def fault_simps persist_contract_fault split: option.splits list.splits sum.splits)

lemma target_fault [fault_simps]: "resolve_contract_target db job \<noteq> Inl stale_fault"
  by (auto simp: resolve_contract_target_def fault_simps split: list.splits)

text \<open>
  The second check of the lease never fails: the transaction does not touch the jobs, and its clock stands still.
\<close>

lemma second_lease_check_vacuous:
  "persist_developer_asset_candidates parse ps decode dash job result legacy db \<noteq> (Inl stale_fault, db')"
proof -
  have own: "owned (ab_core db) job \<Longrightarrow> owned (ab_core db2) job" if "settles job result legacy db res db2" for res db2
    using that by (auto simp: settles_def keeps_rest_def split: if_splits)
  have "persist_body parse ps decode dash job result legacy db \<noteq> Inl stale_fault"
    by (auto simp: persist_body_def lock_current_crawl_lease_def assert_current_crawl_lease_def fault_simps persist_openapi_fault
      persist_documentation_fault split: if_splits dest: own [OF persist_openapi_settles] own [OF persist_documentation_settles])
  then show ?thesis
    by (auto simp: persist_developer_asset_candidates_def split: sum.splits)
qed

section \<open>Two deviations\<close>

text \<open>Two operations of one key, as a path item with two spellings of a method yields, keep a contract from being stored.\<close>

lemma repeated_key_refused:
  assumes "i < j" "j < length (oc_operations c)" "op_key (oc_operations c ! i) = op_key (oc_operations c ! j)"
  shows "write_contract job target page shape c db \<noteq> Inr (res, db')"
proof
  assume "write_contract job target page shape c db = Inr (res, db')"
  then have "sorted_wrt (\<lambda>a b. \<not> clash_operation b a) (map (operation_row_of job (fst target) c) (oc_operations c))"
    using write_contract_steps by blast
  then have "\<not> clash_operation (operation_row_of job (fst target) c (oc_operations c ! j)) (operation_row_of job (fst target) c (oc_operations c ! i))"
    using assms by (simp add: sorted_wrt_iff_nth_less)
  then show False using assms(3) by (simp add: clash_operation_def operation_row_of_def)
qed

text \<open>A word that contains one of the middle alternatives of a pattern decides the kind of a document.\<close>

lemma kind_inside_words: "section_content_kind bs ''Precautions'' = WarningContent"
proof -
  have "rx_test warning_rx ''Precautions''" by code_simp
  then show ?thesis by (simp add: section_content_kind_def)
qed

end
