(* ===== verification/MarkdownCode.thy ===== *)
theory MarkdownCode
  imports Markdown
begin

text \<open>
  A code block that \<^verbatim>\<open>renderBlock\<close> writes is read back by \<^verbatim>\<open>parseMarkdown\<close> as the same code block.
\<close>

section \<open>The first result of an expression\<close>

definition rx_first :: "rx \<Rightarrow> rx_state \<Rightarrow> rx_state \<Rightarrow> bool" where
  "rx_first r st t \<longleftrightarrow> (\<exists>ts. rx_run r st = t # ts)"

lemma first_Seq: "rx_first r st t \<Longrightarrow> rx_first q t v \<Longrightarrow> rx_first (Seq r q) st v"
  by (auto simp: rx_first_def)

lemma first_AltL: "rx_first r st t \<Longrightarrow> rx_first (Alt r q) st t"
  by (auto simp: rx_first_def)

lemma first_AltR: "rx_run r st = [] \<Longrightarrow> rx_first q st t \<Longrightarrow> rx_first (Alt r q) st t"
  by (auto simp: rx_first_def)

lemma first_Empty: "rx_first Empty st st"
  by (simp add: rx_first_def)

lemma first_TextStart: "rx_first TextStart ([], s, g) ([], s, g)"
  by (simp add: rx_first_def)

lemma first_TextEnd: "rx_first TextEnd (b, [], g) (b, [], g)"
  by (simp add: rx_first_def)

lemma first_many: "rx_first (many (Cls P)) (b, s, g) (rev (takeWhile P s) @ b, dropWhile P s, g)"
  using runs_down_Cons by (simp add: rx_first_def rx_run_many_cls)

lemma first_Cap:
  "rx_first r (b, u @ v, g) (b', v, g') \<Longrightarrow> rx_first (Cap k r) (b, u @ v, g) (b', v, (k, u) # g')"
  by (auto simp: rx_first_def)

lemma lit_Cons: "rx_run (lit (c # w)) (b, s, g) = (case s of [] \<Rightarrow> [] | d # s' \<Rightarrow> if d = c then rx_run (lit w) (c # b, s', g) else [])"
  by (cases w) (auto simp: lit_def split: list.splits)

lemma first_lit: "rx_first (lit w) (b, w @ s, g) (rev w @ b, s, g)"
proof (induction w arbitrary: b)
  case Nil
  then show ?case by (simp add: lit_def rx_first_def)
next
  case (Cons c w)
  then show ?case by (simp add: rx_first_def lit_Cons)
qed

lemma first_upto_none: "rx_run r st = [] \<Longrightarrow> rx_first (upto_rx n r) st st"
  by (cases n) (simp_all add: rx_first_def maybe_def)

lemma exec_first:
  assumes "rx_first r ([], s, []) (b, v, g)"
  shows "rx_exec r s = Some \<lparr>rm_before = [], rm_text = take (length s - length v) s, rm_groups = g, rm_after = v\<rparr>"
proof -
  obtain ts where "rx_run r ([], s, []) = (b, v, g) # ts" using assms by (auto simp: rx_first_def)
  then show ?thesis unfolding rx_exec_def by (subst rx_search.simps) simp
qed

section \<open>Fences\<close>

lemma back_quote_not_ws [simp]: "\<not> is_ws back_quote" "\<not> line_break back_quote"
  by (simp_all add: back_quote_def is_ws_def ws_chars_def line_break_def newline_def)

lemma not_ws_not_break: "\<not> is_ws c \<Longrightarrow> \<not> line_break c"
  by (auto simp: is_ws_def ws_chars_def line_break_def newline_def)

text \<open>A language as the code of a fence names it: one word without the characters the parser takes off.\<close>

definition plain_language :: "string option \<Rightarrow> bool" where
  "plain_language language \<longleftrightarrow>
     (case language of
        None \<Rightarrow> True
      | Some w \<Rightarrow> w \<noteq> [] \<and> hd w \<noteq> back_quote \<and> list_all (\<lambda>c. \<not> is_ws c \<and> c \<notin> set ''{}'') w)"

lemma code_fence_replicate: "code_fence code = replicate (length (code_fence code)) back_quote"
  by (simp add: code_fence_def)

lemma fence_opens:
  assumes "3 \<le> n" "w = [] \<or> hd w \<noteq> back_quote" "list_all (\<lambda>c. \<not> is_ws c) w"
  shows "is_fence (replicate n back_quote @ w) = Some (replicate n back_quote, w)"
proof -
  let ?bq = "replicate n back_quote"
  have bq: "?bq = replicate 3 back_quote @ replicate (n - 3) back_quote"
    using assms(1) by (metis le_add_diff_inverse replicate_add)
  have nw: "rx_run space ([], ?bq @ w, []) = []"
    using assms(1) by (cases n) simp_all
  have more: "rx_first (many (lit [back_quote])) (b, replicate (n - 3) back_quote @ w, []) (replicate (n - 3) back_quote @ b, w, [])" for b
  proof -
    have lit: "lit [back_quote] = Cls (\<lambda>d. d = back_quote)" by (simp add: lit_def)
    have "takeWhile (\<lambda>d. d = back_quote) (replicate (n - 3) back_quote @ w) = replicate (n - 3) back_quote"
      "dropWhile (\<lambda>d. d = back_quote) (replicate (n - 3) back_quote @ w) = w"
      using assms(2) by (cases w; simp add: takeWhile_append dropWhile_append)+
    then show ?thesis unfolding lit using first_many [of "\<lambda>d. d = back_quote" b "replicate (n - 3) back_quote @ w" "[]"] by simp
  qed
  have fence: "rx_first (Alt (Seq (lit (replicate 3 back_quote)) (many (lit [back_quote]))) (Seq (lit ''~~~'') (many (lit ''~''))))
      ([], ?bq @ w, []) (rev ?bq, w, [])"
    unfolding bq append_assoc
    by (rule first_AltL, rule first_Seq [OF first_lit]) (use more in simp)
  have info: "rx_first (Cap 2 (many any_char)) (b, w, g) (rev w @ b, [], (2, w) # g)" for b g
  proof -
    have all: "\<forall>c\<in>set w. \<not> line_break c" using assms(3) not_ws_not_break by (auto simp: list_all_iff)
    then have tw: "takeWhile (\<lambda>c. \<not> line_break c) w = w" "dropWhile (\<lambda>c. \<not> line_break c) w = []"
      by (simp_all add: takeWhile_eq_all_conv dropWhile_eq_Nil_conv)
    have "rx_first (many any_char) (b, w @ [], g) (rev w @ b, [], g)"
      using first_many [of "\<lambda>c. \<not> line_break c" b w g] unfolding tw append_Nil2 .
    then show ?thesis using first_Cap by fastforce
  qed
  have "rx_first fence_rx ([], ?bq @ w, []) (rev w @ rev ?bq, [], [(2, w), (1, ?bq)])"
    unfolding fence_rx_def seqs.simps
    by (rule first_Seq [OF first_TextStart], rule first_Seq [OF first_upto_none [OF nw]], rule first_Seq [OF first_Cap [OF fence]],
        rule first_Seq [OF info first_TextEnd])
  from exec_first [OF this] show ?thesis
    by (simp add: is_fence_def match_group_def rx_group_def)
qed

lemma fence_closes: "closes_fence (replicate (Suc n) back_quote) (replicate (Suc n) back_quote)"
proof -
  let ?bq = "replicate (Suc n) back_quote"
  have nw: "rx_run space ([], ?bq, []) = []" by simp
  have none: "rx_first (many (Cls P)) (b, [], g) (b, [], g)" for P b g
    using first_many [of P b "[]" g] by simp
  have "rx_first (seqs [TextStart, upto_rx 3 space, lit ?bq, many (lit [back_quote]), spaces, TextEnd]) ([], ?bq, []) (rev ?bq, [], [])"
    unfolding seqs.simps
  proof (rule first_Seq [OF first_TextStart], rule first_Seq [OF first_upto_none [OF nw]], rule first_Seq)
    show "rx_first (lit ?bq) ([], ?bq, []) (rev ?bq, [], [])" using first_lit [of ?bq "[]" "[]" "[]"] by simp
    have "rx_first (Seq (many (lit [back_quote])) (Seq spaces TextEnd)) (b, [], []) (b, [], [])" for b
      using first_Seq [OF none first_Seq [OF none first_TextEnd]] by (simp add: lit_def)
    then show "rx_first (Seq (many (lit [back_quote])) (Seq spaces TextEnd)) (rev ?bq, [], []) (rev ?bq, [], [])" .
  qed
  from exec_first [OF this] show ?thesis by (simp add: closes_fence_def rx_test_def)
qed

lemma closing_line_holds_fence:
  assumes "closes_fence (replicate (Suc n) back_quote) s"
  shows "\<exists>u w. s = u @ replicate (Suc n) back_quote @ w"
proof -
  define f where "f = replicate (Suc n) back_quote"
  have "rx_test (seqs [TextStart, upto_rx 3 space, lit f, many (lit [back_quote]), spaces, TextEnd]) s"
    using assms by (simp add: closes_fence_def f_def Let_def)
  then obtain p q t where "s = p @ q" "rx_rel (seqs [TextStart, upto_rx 3 space, lit f, many (lit [back_quote]), spaces, TextEnd]) (rev p, q, []) t"
    unfolding rx_test_iff by blast
  then obtain x y where up: "rx_rel (upto_rx 3 space) ([], s, []) x" and lit: "rx_rel (lit f) x y"
    unfolding seqs.simps by (auto elim!: rx_rel_cases)
  obtain u where q: "s = u @ rest x" using rx_rel_forward [OF up] by auto
  obtain b v g where x: "x = (b, v, g)" by (cases x)
  obtain w where "v = f @ w" using lit unfolding x rx_rel_lit_eq by blast
  then show ?thesis using q x unfolding f_def by auto
qed

section \<open>The lines of a rendered code block\<close>

fun line_texts :: "string list \<Rightarrow> string list" where
  "line_texts [] = []"
| "line_texts [l] = (if l = [] then [] else [l])"
| "line_texts (l # ls) = l # line_texts ls"

lemma line_texts_full: "ls \<noteq> [] \<Longrightarrow> last ls \<noteq> [] \<Longrightarrow> line_texts ls = ls"
  by (induction ls rule: line_texts.induct) auto

lemma without_end_other: "s = [] \<or> last s \<noteq> c \<Longrightarrow> without_end c s = s"
  by (auto simp: without_end_def)

lemma without_end_snoc [simp]: "without_end c (s @ [c]) = s"
  by (simp add: without_end_def)

lemma line_end_kept:
  assumes "list_all (\<lambda>c. \<not> line_break c) l"
  shows "without_end newline l = l" "without_end (CHR 0x0D) l = l"
proof -
  have "l = [] \<or> \<not> line_break (last l)" using assms by (auto simp: list_all_iff)
  then show "without_end newline l = l" "without_end (CHR 0x0D) l = l"
    unfolding line_break_def by (metis without_end_other)+
qed

lemma sl_text_lines_from:
  assumes "list_all (list_all (\<lambda>c. \<not> line_break c)) (l # ls)"
  shows "map sl_text (lines_from start (text_lines l ls)) = line_texts (l # ls)"
  using assms by (induction ls arbitrary: l start) (simp_all add: line_end_kept)

lemma sl_to_last: "raws \<noteq> [] \<Longrightarrow> sl_to (last (lines_from start raws)) = start + sum_list (map length raws)"
proof (induction raws arbitrary: start)
  case (Cons raw raws)
  then show ?case by (cases raws) (simp_all add: Cons.IH)
qed simp

lemma length_text_lines: "sum_list (map length (text_lines l ls)) = length (join [newline] (l # ls))"
  by (induction ls arbitrary: l) simp_all

lemma text_lines_not_Nil: "l \<noteq> [] \<Longrightarrow> text_lines l ls \<noteq> []"
  by (cases ls) simp_all

text \<open>A text whose first and last lines are not empty has exactly its lines, from its start to its end.\<close>

lemma source_lines_join:
  assumes "list_all (list_all (\<lambda>c. \<not> line_break c)) ls" "ls \<noteq> []" "hd ls \<noteq> []" "last ls \<noteq> []"
  shows "map sl_text (source_lines (join [newline] ls)) = ls"
    "sl_from (hd (source_lines (join [newline] ls))) = 0"
    "sl_to (last (source_lines (join [newline] ls))) = length (join [newline] ls)"
proof -
  obtain k ks where ls: "ls = k # ks" using assms(2) by (cases ls) auto
  have raw: "raw_lines (join [newline] ls) = text_lines k ks" unfolding ls using assms(1) ls by (intro raw_lines_join) simp
  show "map sl_text (source_lines (join [newline] ls)) = ls"
    unfolding source_lines_def raw using sl_text_lines_from [of k ks 0] assms line_texts_full [OF assms(2,4)] by (simp add: ls)
  have ne: "text_lines k ks \<noteq> []" using assms(3) ls by (simp add: text_lines_not_Nil)
  then show "sl_from (hd (source_lines (join [newline] ls))) = 0"
    by (cases "text_lines k ks") (simp_all add: source_lines_def raw)
  show "sl_to (last (source_lines (join [newline] ls))) = length (join [newline] ls)"
    unfolding source_lines_def raw using sl_to_last [OF ne, of 0] length_text_lines [of k ks] by (simp add: ls)
qed

lemma rx_replace_none:
  assumes "rx_search r b s = None"
  shows "rx_replace r f b s = s"
  using assms by (subst rx_replace.simps) simp

lemma fence_language_plain:
  assumes "plain_language language"
  shows "fence_language (nullish language []) = language"
proof (cases language)
  case None
  have "fence_language [] = None" by code_simp
  then show ?thesis using None by simp
next
  case (Some w)
  then have w: "w \<noteq> []" "list_all (\<lambda>c. \<not> is_ws c \<and> c \<notin> set ''{}'') w" using assms by (auto simp: plain_language_def)
  have t: "trim w = w" using w hd_in_set [OF w(1)] last_in_set [OF w(1)] by (intro trim_fixpoint) (simp add: list_all_iff)
  have "rx_search fence_language_rx [] w = None"
    unfolding rx_search_None
  proof (intro allI impI notI, elim exE)
    fix p q st assume pq: "w = p @ q" "rx_rel fence_language_rx (rev p @ [], q, []) st"
    have brace: "c \<in> set q" if "rx_rel (lit [c]) (b, q, g) st'" for b g c st'
      using that unfolding rx_rel_lit_eq by auto
    have "\<exists>c\<in>set ''{}''. \<exists>b g st'. rx_rel (lit [c]) (b, q, g) st'"
      using pq(2) unfolding fence_language_rx_def seqs.simps rx_rel_simps by auto
    then show False using w(2) pq(1) brace by (fastforce simp: list_all_iff)
  qed
  then have r: "rx_replace_all fence_language_rx (\<lambda>_. []) w = w" by (simp add: rx_replace_all_def rx_replace_none)
  have tw: "takeWhile (\<lambda>c. \<not> is_ws c) w = w" using w(2) by (simp add: takeWhile_eq_all_conv list_all_iff)
  show ?thesis unfolding fence_language_def Some nullish.simps t r tw using w(1) by (simp add: present_def)
qed

section \<open>The round trip\<close>

lemma join_middle: "\<exists>a b. join sep (xs @ l # ys) = a @ l @ b"
proof (induction xs)
  case Nil
  show ?case by (cases ys) (auto intro: exI [of _ "[]"])
next
  case (Cons x xs)
  then obtain a b where "join sep (xs @ l # ys) = a @ l @ b" by blast
  then have "join sep ((x # xs) @ l # ys) = (x @ sep @ a) @ l @ b" by (simp add: join_Cons)
  then show ?case by blast
qed

definition code_lines :: "string option \<Rightarrow> string \<Rightarrow> string list" where
  "code_lines language code = (code_fence code @ nullish language []) # split_on newline code @ [code_fence code]"

lemma rendered_code: "render_body (Code language code :: 'a block_body) = join [newline] (code_lines language code)"
proof -
  have "join [newline] (split_on newline code @ [code_fence code]) = code @ [newline] @ code_fence code"
    by (simp add: join_snoc join_split_on)
  then show ?thesis by (simp add: code_lines_def join_Cons)
qed

lemma code_fence_facts:
  obtains n where "code_fence code = replicate (Suc n) back_quote" "3 \<le> Suc n"
  using code_fence_replicate [of code] code_fence_length [of code] by (cases "length (code_fence code)") auto

lemma fence_not_in_code:
  assumes "l \<in> set (split_on newline code)"
  shows "\<not> closes_fence (code_fence code) l"
proof
  assume closes: "closes_fence (code_fence code) l"
  obtain n where n: "code_fence code = replicate (Suc n) back_quote" by (rule code_fence_facts)
  obtain u w where l: "l = u @ code_fence code @ w"
    using closing_line_holds_fence [of n l] closes unfolding n by blast
  obtain xs ys where "split_on newline code = xs @ l # ys" using assms by (meson split_list)
  then have "code = join [newline] (xs @ l # ys)" by (metis join_split_on)
  then obtain a b where "code = a @ l @ b" using join_middle by blast
  then have "code = (a @ u) @ code_fence code @ (w @ b)" using l by simp
  then have "length (code_fence code) < length (code_fence code)"
    by (rule code_fence_longer [rotated]) (simp add: n list_all_iff)
  then show False by simp
qed

lemma code_lines_unbroken:
  assumes "CHR 0x0D \<notin> set code" "plain_language language"
  shows "list_all (list_all (\<lambda>c. \<not> line_break c)) (code_lines language code)"
proof -
  obtain n where n: "code_fence code = replicate (Suc n) back_quote" by (rule code_fence_facts)
  have "\<not> line_break c" if "l \<in> set (split_on newline code)" "c \<in> set l" for l c
  proof -
    have "newline \<notin> set l" using that(1) by (rule split_on_no_sep)
    moreover have "c \<in> set code" using that set_split_on [of l newline code] by blast
    ultimately show ?thesis using that(2) assms(1) unfolding line_break_def by metis
  qed
  moreover have "list_all (\<lambda>c. \<not> line_break c) (nullish language [])"
    using assms(2) not_ws_not_break by (cases language) (auto simp: plain_language_def list_all_iff)
  ultimately show ?thesis unfolding code_lines_def n by (auto simp: list_all_iff)
qed

lemma opening_line:
  assumes "plain_language language"
  shows "is_fence (code_fence code @ nullish language []) = Some (code_fence code, nullish language [])"
    "trim (code_fence code @ nullish language []) = code_fence code @ nullish language []"
    "hd (code_fence code @ nullish language []) = back_quote"
proof -
  obtain n where n: "code_fence code = replicate (Suc n) back_quote" "3 \<le> Suc n" by (rule code_fence_facts)
  have lang: "nullish language [] = [] \<or> hd (nullish language []) \<noteq> back_quote" "list_all (\<lambda>c. \<not> is_ws c) (nullish language [])"
    using assms by (cases language; auto simp: plain_language_def list_all_iff)+
  show "is_fence (code_fence code @ nullish language []) = Some (code_fence code, nullish language [])"
    unfolding n(1) by (rule fence_opens [OF n(2) lang])
  have "\<not> is_ws (last (code_fence code @ nullish language []))"
    using lang(2) last_in_set [of "nullish language []"] by (cases "nullish language [] = []") (auto simp: n(1) list_all_iff)
  then show "trim (code_fence code @ nullish language []) = code_fence code @ nullish language []"
    by (intro trim_fixpoint) (simp add: n(1))
  show "hd (code_fence code @ nullish language []) = back_quote" by (simp add: n(1))
qed

lemma read_rendered_fence:
  assumes "map sl_text ks = split_on newline code" "sl_text k = code_fence code" "plain_language language" "normalize_code code = code"
  shows "read_fence content (code_fence code) (nullish language []) l (ks @ [k]) =
    (draft content (sl_from l) (sl_to k) (Code language code), [])"
proof -
  let ?p = "\<lambda>k. \<not> closes_fence (code_fence code) (sl_text k)"
  have open_lines: "\<forall>x\<in>set ks. ?p x"
    using fence_not_in_code [of _ code] assms(1) by (metis image_eqI list.set_map)
  have "closes_fence (code_fence code) (sl_text k)"
    using assms(2) fence_closes code_fence_facts [of code] by metis
  then have "takeWhile ?p (ks @ [k]) = ks" "dropWhile ?p (ks @ [k]) = [k]"
    using open_lines by (simp_all add: takeWhile_append dropWhile_append)
  then show ?thesis
    using assms by (simp add: read_fence_def join_split_on fence_language_plain)
qed

text \<open>
  Property C28. A rendered code block is read back: for normalised code and a language of one plain word, parsing
  what \<^verbatim>\<open>renderBlock\<close> writes gives one code block, over the whole text, of the same language and the same
  code, whatever back quotes or Markdown the code contains.
\<close>

theorem code_block_roundtrip:
  assumes "normalize_code code = code" "plain_language language"
  shows "parse_markdown resolve (render_body (Code language code :: 'a block_body)) u mdx =
    (let content = render_body (Code language code :: 'a block_body)
     in \<lparr>pr_title = [], pr_blocks = [draft content 0 (length content) (Code language code)], pr_diagnostics = []\<rparr>)"
proof -
  let ?ls = "code_lines language code" and ?open = "code_fence code @ nullish language []"
  define content where "content = join [newline] ?ls"
  have cr: "CHR 0x0D \<notin> set code" using normalized_code_no_cr [of code] assms(1) by simp
  have ne: "code_fence code \<noteq> []" using code_fence_length [of code] by auto
  have lines: "map sl_text (source_lines content) = ?ls" "sl_from (hd (source_lines content)) = 0"
    "sl_to (last (source_lines content)) = length content"
    unfolding content_def
    using source_lines_join [OF code_lines_unbroken [OF cr assms(2)]] ne by (simp_all add: code_lines_def)
  obtain l ks k where src: "source_lines content = l # ks @ [k]"
    and texts: "sl_text l = ?open" "map sl_text ks = split_on newline code" "sl_text k = code_fence code"
  proof -
    obtain l zs where l: "source_lines content = l # zs" "sl_text l = ?open" "map sl_text zs = split_on newline code @ [code_fence code]"
      using lines(1) by (cases "source_lines content") (simp_all add: code_lines_def)
    obtain ks k where "zs = ks @ [k]" using l(3) by (cases zs rule: rev_cases) simp_all
    then show thesis using l by (intro that [of l ks k]) simp_all
  qed
  have "trim (sl_text l) \<noteq> ''---''"
  proof
    assume "trim (sl_text l) = ''---''"
    then have "back_quote = CHR ''-''" using opening_line(2,3) [OF assms(2), of code] unfolding texts(1) by (metis list.sel(1))
    then show False by (simp add: back_quote_def)
  qed
  then have meta: "frontmatter (source_lines content) = (l # ks @ [k], [])"
    by (simp add: frontmatter_def src)
  have "\<not> blank_text (sl_text l)" using opening_line(2) [OF assms(2), of code] ne by (simp add: blank_text_def texts(1))
  then have "markdown_step content resolve u mdx [] l (ks @ [k]) = ([], [draft content (sl_from l) (sl_to k) (Code language code)], [], [])"
    using opening_line(1) [OF assms(2), of code] read_rendered_fence [OF texts(2,3) assms(2,1)]
    by (simp add: markdown_step_def texts(1) one_block_def)
  moreover have "sl_from l = 0" "sl_to k = length content" using lines(2,3) src by simp_all
  ultimately show ?thesis
    unfolding rendered_code content_def [symmetric]
    by (simp add: parse_markdown_def meta step_blocks_def step_below_def)
qed

lemma code_block_roundtrip_witness:
  "pr_blocks (parse_markdown (\<lambda>_ _. None) (render_body (Code (Some ''ts'') (''# '' @ [back_quote] @ ''a'') :: string block_body)) [] False)
     = [draft (render_body (Code (Some ''ts'') (''# '' @ [back_quote] @ ''a'') :: string block_body)) 0 14
         (Code (Some ''ts'') (''# '' @ [back_quote] @ ''a''))]"
proof -
  have n: "normalize_code (''# '' @ [back_quote] @ ''a'') = ''# '' @ [back_quote] @ ''a''" by code_simp
  have l: "plain_language (Some ''ts'')" by code_simp
  have len: "length (render_body (Code (Some ''ts'') (''# '' @ [back_quote] @ ''a'') :: string block_body)) = 14" by code_simp
  show ?thesis unfolding code_block_roundtrip [OF n l] Let_def len by simp
qed

end
