(* ===== verification/HtmlLayout.thy ===== *)
theory HtmlLayout
  imports HtmlDoc
begin

text \<open>
  Where the nodes and the blocks of an HTML source lie: the tokens cut the source, the children of a node lie
  one after the other within it, and so do the blocks within the document.
\<close>

section \<open>Tokens\<close>

lemma some_rx_consumes: "rx_rel (Seq (Cls P) r) st t \<Longrightarrow> length (rest t) < length (rest st)"
proof -
  assume "rx_rel (Seq (Cls P) r) st t"
  then obtain c b s g where "st = (b, c # s, g)" "rx_rel r (c # b, s, g) t"
    by (cases st) (auto elim!: rx_rel_cases)
  then show ?thesis using rx_rel_forward [of r "(c # b, s, g)" t] by auto
qed

lemma token_consumes:
  assumes "rx_rel token_rx (b, s, g) t"
  shows "length (rest t) < length s"
proof -
  have lt: "length (rest t) < length s" if seq: "rx_rel (Seq (lit w) r) (b, s, g) t" and "w \<noteq> []" for w r
  proof -
    obtain m where m: "rx_rel (lit w) (b, s, g) m" "rx_rel r m t" using seq by (rule rx_rel_cases(3))
    then obtain v where "s = w @ v" "rest m = v" unfolding rx_rel_lit_eq by auto
    then show ?thesis using rx_rel_forward [OF m(2)] \<open>w \<noteq> []\<close> by (cases w) auto
  qed
  have one: "length (rest t) < length s" if "rx_rel (lit ''<'') (b, s, g) t"
    using that unfolding rx_rel_lit_eq by auto
  have run: "length (rest t) < length s" if "rx_rel (some_rx (but ''<'')) (b, s, g) t"
    using some_rx_consumes [of "\<lambda>c. c \<notin> set ''<''" "Star True (but ''<'')" "(b, s, g)" t] that by (simp add: some_rx_def)
  consider r where "rx_rel (Seq (lit ''<!--'') r) (b, s, g) t" | r where "rx_rel (Seq (lit ''<!'') r) (b, s, g) t"
    | r where "rx_rel (Seq (lit ''<'') r) (b, s, g) t" | "rx_rel (some_rx (but ''<'')) (b, s, g) t" | "rx_rel (lit ''<'') (b, s, g) t"
    using assms unfolding token_rx_def alts.simps seqs.simps by (elim rx_rel_cases(4)) blast+
  then show ?thesis using lt one run by cases auto
qed

lemma token_matches:
  assumes "s \<noteq> []"
  shows "\<exists>t. rx_rel token_rx (b, s, g) t"
proof -
  obtain c cs where s: "s = c # cs" using assms by (cases s) auto
  show ?thesis
  proof (cases "c = CHR ''<''")
    case True
    then have "rx_rel (lit ''<'') (b, s, g) (c # b, cs, g)" by (simp add: s rx_rel_lit_eq)
    then show ?thesis unfolding token_rx_def alts.simps by (blast intro: rx_rel.AltL rx_rel.AltR)
  next
    case False
    then have "rx_rel (some_rx (but ''<'')) (b, s, g) (c # b, cs, g)"
      unfolding some_rx_def s by (intro rx_rel.Seq [OF rx_rel.Cls rx_rel.Stop]) simp
    then show ?thesis unfolding token_rx_def alts.simps by (blast intro: rx_rel.AltL rx_rel.AltR)
  qed
qed

text \<open>Matches that follow each other without a gap, from the position with the text \<open>b\<close> (reversed) before it.\<close>

fun gapless :: "string \<Rightarrow> string \<Rightarrow> rx_match list \<Rightarrow> bool" where
  "gapless b s [] \<longleftrightarrow> s = []"
| "gapless b s (m # ms) \<longleftrightarrow> rm_before m = b \<and> rm_text m \<noteq> [] \<and> s = rm_text m @ rm_after m \<and> gapless (rev (rm_text m) @ b) (rm_after m) ms"

lemma token_search:
  assumes "s \<noteq> []"
  obtains m where "rx_search token_rx b s = Some m" "rm_before m = b" "rm_text m \<noteq> []" "s = rm_text m @ rm_after m"
proof -
  have "rx_search token_rx b s \<noteq> None"
    using token_matches [OF assms, of b "[]"] unfolding rx_search_None by (metis append_Nil rev.simps(1))
  then obtain m where m: "rx_search token_rx b s = Some m" by blast
  obtain p where p: "s = p @ rm_text m @ rm_after m" "rm_before m = rev p @ b"
      "rx_rel token_rx (rm_before m, rm_text m @ rm_after m, []) (rev (rm_text m) @ rm_before m, rm_after m, rm_groups m)"
      "\<And>q c u. s = q @ c # u \<Longrightarrow> length q < length p \<Longrightarrow> \<nexists>t. rx_rel token_rx (rev q @ b, c # u, []) t"
    using rx_search_Some [OF m] by blast
  have "p = []"
  proof (rule ccontr)
    assume "p \<noteq> []"
    moreover obtain c u where "s = c # u" using assms by (cases s) auto
    ultimately show False using p(4) [of "[]" c u] token_matches [of "c # u" b "[]"] by auto
  qed
  moreover have "rm_text m \<noteq> []" using token_consumes [OF p(3)] by auto
  ultimately show ?thesis using p m by (intro that [of m]) auto
qed

lemma token_search_end: "rx_search token_rx b [] = None"
  unfolding rx_search_None using token_consumes by fastforce

lemma tokens_gapless: "gapless b s (rx_all token_rx b s)"
proof (induction "length s" arbitrary: b s rule: less_induct)
  case less
  show ?case
  proof (cases "s = []")
    case True
    then show ?thesis by (subst rx_all.simps) (simp add: token_search_end)
  next
    case False
    obtain m where m: "rx_search token_rx b s = Some m" "rm_before m = b" "rm_text m \<noteq> []" "s = rm_text m @ rm_after m"
      by (rule token_search [OF False])
    have shorter: "length (rm_after m) < length s" using m(3,4) by (metis length_append length_greater_0_conv less_add_same_cancel2)
    then have "rx_all token_rx b s = m # rx_all token_rx (rev (rm_text m) @ b) (rm_after m)"
      using m(1,2) by (subst rx_all.simps) simp
    then show ?thesis using m less [OF shorter] by simp
  qed
qed

fun tokens_from :: "nat \<Rightarrow> nat \<Rightarrow> html_token list \<Rightarrow> bool" where
  "tokens_from at n [] \<longleftrightarrow> at = n"
| "tokens_from at n (t # ts) \<longleftrightarrow> tk_start t = at \<and> at < tk_end t \<and> tokens_from (tk_end t) n ts"

lemma gapless_tokens: "gapless b s ms \<Longrightarrow> tokens_from (length b) (length b + length s) (map html_token_of ms)"
proof (induction ms arbitrary: b s)
  case (Cons m ms)
  then show ?case using Cons.IH [of "rev (rm_text m) @ b" "rm_after m"] by (auto simp: html_token_of_def add.commute add.left_commute)
qed simp

lemma html_tokens_from: "tokens_from 0 (length content) (html_tokens content)"
  using gapless_tokens [OF tokens_gapless [of "[]" content]] by (simp add: html_tokens_def)

text \<open>Nothing of the source is lost between the tokens.\<close>

lemma html_tokens_text: "concat (map tk_text (html_tokens content)) = content"
proof -
  have "gapless b s ms \<Longrightarrow> concat (map rm_text ms) = s" for b s ms
    by (induction ms arbitrary: b s) auto
  then show ?thesis
    using tokens_gapless [of "[]" content] by (simp add: html_tokens_def html_token_of_def comp_def)
qed

section \<open>The tree\<close>

function nodes_in :: "nat \<Rightarrow> nat \<Rightarrow> html_node list \<Rightarrow> bool" where
  "nodes_in lo hi [] \<longleftrightarrow> lo \<le> hi"
| "nodes_in lo hi (n # ns) \<longleftrightarrow>
     lo \<le> node_start n \<and> node_start n < node_end n \<and> nodes_in (node_start n) (node_end n) (node_children n) \<and> nodes_in (node_end n) hi ns"
  by pat_completeness auto

termination nodes_in
  by (relation "measure (\<lambda>(lo, hi, ns). size_list size ns)") (auto simp: children_size)

lemma nodes_in_le: "nodes_in lo hi ns \<Longrightarrow> lo \<le> hi"
  by (induction ns arbitrary: lo) force+

lemma nodes_in_weaken: "nodes_in lo hi ns \<Longrightarrow> lo' \<le> lo \<Longrightarrow> hi \<le> hi' \<Longrightarrow> nodes_in lo' hi' ns"
proof (induction ns arbitrary: lo lo')
  case (Cons n ns)
  then show ?case using Cons.IH [of "node_end n" "node_end n"] by auto
qed simp

lemma nodes_in_append: "nodes_in lo hi (xs @ ys) \<longleftrightarrow> (\<exists>m. nodes_in lo m xs \<and> nodes_in m hi ys)"
proof (induction xs arbitrary: lo)
  case Nil
  then show ?case using nodes_in_weaken [of _ hi ys lo hi] by (auto intro: exI [of _ lo])
qed auto

lemma nodes_in_snoc:
  "nodes_in lo m xs \<Longrightarrow> m \<le> node_start n \<Longrightarrow> node_start n < node_end n \<Longrightarrow> nodes_in (node_start n) (node_end n) (node_children n)
     \<Longrightarrow> node_end n \<le> hi \<Longrightarrow> nodes_in lo hi (xs @ [n])"
  unfolding nodes_in_append by (intro exI [of _ m]) simp

lemma nodes_in_remove: "nodes_in lo hi (xs @ n # ys) \<Longrightarrow> nodes_in lo hi (xs @ ys)"
  unfolding nodes_in_append
proof (elim exE conjE)
  fix m assume "nodes_in lo m xs" "nodes_in m hi (n # ys)"
  moreover from this have "nodes_in m hi ys" using nodes_in_weaken [of "node_end n" hi ys m hi] by auto
  ultimately show "\<exists>m. nodes_in lo m xs \<and> nodes_in m hi ys" by blast
qed

text \<open>The stack: an open element starts where the children of the one below it end, at the latest.\<close>

fun open_in :: "nat \<Rightarrow> open_node list \<Rightarrow> bool" where
  "open_in at [] \<longleftrightarrow> True"
| "open_in at (f # fs) \<longleftrightarrow>
     (fs \<noteq> [] \<longrightarrow> fr_start f < at) \<and> nodes_in (fr_start f) at (rev (fr_children f)) \<and> open_in (fr_start f) fs"

lemma open_in_later: "open_in at stack \<Longrightarrow> at \<le> at' \<Longrightarrow> open_in at' stack"
  by (cases stack) (auto intro: nodes_in_weaken)

lemma open_in_add:
  assumes "open_in m (f # fs)" "m \<le> node_start n" "node_start n < node_end n" "nodes_in (node_start n) (node_end n) (node_children n)" "node_end n \<le> at"
  shows "open_in at (add_child n f # fs)"
  using assms nodes_in_snoc [of "fr_start f" m "rev (fr_children f)" n at] by (auto simp: add_child_def)

lemma open_in_finish:
  assumes "open_in at (f # g # fs)" "at \<le> e"
  shows "open_in e (add_child (finished e f) g # fs)"
proof (rule open_in_add)
  show "open_in (fr_start f) (g # fs)" using assms by simp
qed (use assms in \<open>auto simp: finished_def intro: nodes_in_weaken\<close>)

lemma close_until_in: "open_in at stack \<Longrightarrow> at \<le> e \<Longrightarrow> open_in e (close_until tag e stack)"
proof (induction tag e stack arbitrary: at rule: close_until.induct)
  case (1 tag e f g fs)
  then show ?case using open_in_finish [of at f g fs e] by auto
qed (auto intro: open_in_later nodes_in_weaken)

lemma close_until_ne: "stack \<noteq> [] \<Longrightarrow> close_until tag e stack \<noteq> []"
  by (induction tag e stack rule: close_until.induct) auto

lemma last_close_until: "stack \<noteq> [] \<Longrightarrow> fr_start (last (close_until tag e stack)) = fr_start (last stack)"
  by (induction tag e stack rule: close_until.induct) (auto simp: add_child_def)

lemma close_all_in: "open_in at stack \<Longrightarrow> at \<le> e \<Longrightarrow> stack \<noteq> [] \<Longrightarrow> nodes_in (fr_start (last stack)) e (node_children (close_all e stack))"
proof (induction e stack arbitrary: at rule: close_all.induct)
  case (1 e f g fs)
  from 1(1) [OF open_in_finish [OF 1(2,3)] order.refl] show ?case by (auto simp: add_child_def)
qed (auto intro: nodes_in_weaken)

lemma html_step_in:
  assumes "open_in (tk_start t) stack" "tk_start t < tk_end t" "stack \<noteq> []"
  shows "open_in (tk_end t) (html_step wide t stack) \<and> html_step wide t stack \<noteq> [] \<and> fr_start (last (html_step wide t stack)) = fr_start (last stack)"
proof -
  obtain f fs where stack: "stack = f # fs" using assms(3) by (cases stack) auto
  have add: "open_in (tk_end t) (add_to_top n stack) \<and> add_to_top n stack \<noteq> [] \<and> fr_start (last (add_to_top n stack)) = fr_start (last stack)"
    if "node_start n = tk_start t" "node_end n = tk_end t" "node_children n = []" for n
    using open_in_add [of "tk_start t" f fs n "tk_end t"] assms that by (auto simp: stack add_to_top_def add_child_def)
  have same: "open_in (tk_end t) stack" using assms by (auto intro: open_in_later)
  show ?thesis
    using assms same add close_until_in [OF assms(1)] close_until_ne [OF assms(3)] last_close_until [OF assms(3)]
    by (auto simp: html_step_def Let_def finished_def split: option.splits)
qed

lemma parse_html_in: "nodes_in 0 (length content) (node_children (parse_html wide content))"
proof -
  have "open_in n (fold (html_step wide) ts stack) \<and> fold (html_step wide) ts stack \<noteq> [] \<and> fr_start (last (fold (html_step wide) ts stack)) = fr_start (last stack)"
    if "tokens_from at n ts" "open_in at stack" "stack \<noteq> []" for at n ts stack
    using that
  proof (induction ts arbitrary: at stack)
    case (Cons t ts)
    then show ?case using html_step_in [of t stack wide] by fastforce
  qed simp
  from this [OF html_tokens_from [of content], of "[root_node]"] show ?thesis
    using close_all_in [of "length content" "fold (html_step wide) (html_tokens content) [root_node]" "length content"]
    by (auto simp: parse_html_def root_node_def)
qed

section \<open>The blocks\<close>

lemma laid_out_append:
  assumes "laid_out a b xs" "laid_out b c ys" "a \<le> b" "b \<le> c"
  shows "laid_out a c (xs @ ys)"
  using assms unfolding laid_out_def sorted_wrt_append list_all_append by (fastforce simp: list_all_iff)

lemma laid_out_wider: "laid_out a b xs \<Longrightarrow> a' \<le> a \<Longrightarrow> b \<le> b' \<Longrightarrow> laid_out a' b' xs"
  by (fastforce simp: laid_out_def list_all_iff)

lemma laid_out_draft:
  "a \<le> i \<Longrightarrow> i < j \<Longrightarrow> j \<le> b \<Longrightarrow> b \<le> length content \<Longrightarrow> laid_out a b [draft content i j body]"
  by (simp add: laid_out_def draft_def source_range_def)

lemma laid_out_element:
  "node_start n < node_end n \<Longrightarrow> node_end n \<le> length content \<Longrightarrow> laid_out (node_start n) (node_end n) [element_block content n body]"
  unfolding element_block_def by (rule laid_out_draft) simp_all

definition over_element :: "string \<Rightarrow> html_node \<Rightarrow> draft_block list \<Rightarrow> bool" where
  "over_element content n bs \<longleftrightarrow> bs = [] \<or> (\<exists>body. bs = [element_block content n body])"

lemma over_element_blocks:
  "over_element content n (text_block content n f)" "over_element content n [code_block content n]"
  "over_element content n (table_block content resolve u n)" "over_element content n (list_block content resolve u n)"
  "over_element content n []"
  by (auto simp: over_element_def text_block_def code_block_def table_block_def list_block_def Let_def split: list.splits)

lemma over_element_if: "(if c then Some xs else r) = Some bs \<Longrightarrow> over_element content n xs \<Longrightarrow>
    (r = Some bs \<Longrightarrow> over_element content n bs) \<Longrightarrow> over_element content n bs"
  by (cases c) simp_all

lemma block_of_element_over: "block_of_element content resolve u n = Some bs \<Longrightarrow> over_element content n bs"
  unfolding block_of_element_def Let_def
  by (cases "node_tag n"; simp only: option.simps; ((erule over_element_if, rule over_element_blocks)+)?; simp)

lemma block_of_element_laid_out:
  assumes "block_of_element content resolve u n = Some bs" "node_start n < node_end n" "node_end n \<le> length content"
  shows "laid_out (node_start n) (node_end n) bs"
  using block_of_element_over [OF assms(1)] laid_out_element [OF assms(2,3)] by (auto simp: over_element_def)

lemma fold_min_le: "fold min ns (k :: nat) \<le> k"
proof (induction ns arbitrary: k)
  case (Cons n ns)
  show ?case using Cons [of "min n k"] by simp
qed simp

lemma fold_max_le: "(\<forall>n\<in>set (k # ns). n \<le> (hi :: nat)) \<Longrightarrow> fold max ns k \<le> hi"
  by (induction ns arbitrary: k) auto

lemma fold_min_ge: "(\<forall>n\<in>set (k # ns). (lo :: nat) \<le> n) \<Longrightarrow> lo \<le> fold min ns k"
  by (induction ns arbitrary: k) auto

lemma nodes_in_bounds: "nodes_in lo hi ns \<Longrightarrow> n \<in> set ns \<Longrightarrow> lo \<le> node_start n \<and> node_start n < node_end n \<and> node_end n \<le> hi"
proof (induction ns arbitrary: lo)
  case (Cons m ns)
  then show ?case using nodes_in_le [of "node_end m" hi ns] by fastforce
qed simp

lemma inline_run_laid_out:
  assumes "nodes_in lo hi nodes" "hi \<le> length content"
  shows "laid_out lo hi (inline_run content resolve u nodes)"
proof (cases nodes)
  case (Cons n ns)
  have b: "\<forall>m\<in>set nodes. lo \<le> node_start m \<and> node_start m < node_end m \<and> node_end m \<le> hi"
    using nodes_in_bounds [OF assms(1)] by blast
  have "lo \<le> fold min (map node_start ns) (node_start n)" "fold max (map node_end ns) (node_end n) \<le> hi"
    using b Cons by (intro fold_min_ge fold_max_le; auto)+
  moreover have "fold min (map node_start ns) (node_start n) < fold max (map node_end ns) (node_end n)"
    using fold_min_le [of "map node_start ns" "node_start n"] fold_max_ge(1) [of "node_end n" "map node_end ns"] b Cons by fastforce
  ultimately show ?thesis using assms(2) Cons by (auto simp: inline_run_def Let_def intro: laid_out_draft)
qed (simp add: inline_run_def)

lemma walk_nodes_laid_out:
  "nodes_in lo hi (inline @ ns) \<Longrightarrow> hi \<le> length content \<Longrightarrow> laid_out lo hi (fst (walk_nodes content resolve u inline ns))"
proof (induction content resolve u inline ns arbitrary: lo hi rule: walk_nodes.induct)
  case (1 content resolve u inline)
  then show ?case by (simp add: inline_run_laid_out)
next
  case (2 content resolve u inline n ns)
  have skip: "nodes_in lo hi (inline @ ns)" using "2.prems"(1) by (rule nodes_in_remove)
  consider (plain) "node_tag n = None" | (excluded) "node_tag n \<noteq> None" "excluded n"
    | (inline) "node_tag n \<noteq> None" "\<not> excluded n" "\<not> has_tag block_elements n"
    | (block) "node_tag n \<noteq> None" "\<not> excluded n" "has_tag block_elements n" by blast
  then show ?case
  proof cases
    case plain
    then show ?thesis using "2.IH"(1) [OF plain] "2.prems" skip by (cases "prose_of n = []") simp_all
  next
    case excluded
    then show ?thesis using "2.IH"(2) [OF excluded skip "2.prems"(2)] excluded by (auto simp: split_beta)
  next
    case inline
    then show ?thesis using "2.IH"(3) [OF inline(1,2) inline(3)] "2.prems" by auto
  next
    case block
    obtain m where m: "nodes_in lo m inline" "nodes_in m hi (n # ns)" using "2.prems"(1) unfolding nodes_in_append by blast
    then have n: "m \<le> node_start n" "node_start n < node_end n" "nodes_in (node_start n) (node_end n) (node_children n)" "nodes_in (node_end n) hi ns"
      by simp_all
    have le: "lo \<le> m" "node_end n \<le> hi" using nodes_in_le m(1) n(4) by blast+
    define here where "here = (case block_of_element content resolve u n of
        Some bs \<Rightarrow> (bs, 0) | None \<Rightarrow> walk_nodes content resolve u [] (node_children n))"
    have "laid_out (node_start n) (node_end n) (fst here)"
    proof (cases "block_of_element content resolve u n")
      case None
      then show ?thesis using "2.IH"(4) [OF block(1,2) _ None, of "node_start n" "node_end n"] block(3) n(3) le(2) "2.prems"(2) by (simp add: here_def)
    next
      case (Some bs)
      then show ?thesis using block_of_element_laid_out [OF Some n(2)] le(2) "2.prems"(2) by (simp add: here_def)
    qed
    moreover have "laid_out (node_end n) hi (fst (walk_nodes content resolve u [] ns))"
      using "2.IH"(5) [OF block(1,2) _ here_def, of "node_end n" hi] block(3) n(4) "2.prems"(2) by simp
    moreover have "laid_out lo m (inline_run content resolve u inline)"
      using inline_run_laid_out m(1) n(1,2) le(2) "2.prems"(2) by simp
    ultimately have "laid_out lo hi (inline_run content resolve u inline @ fst here @ fst (walk_nodes content resolve u [] ns))"
      using n(1,2) le by (intro laid_out_append [of lo "node_start n"] laid_out_append [of "node_start n" "node_end n"])
        (auto intro: laid_out_wider)
    moreover have "fst (walk_nodes content resolve u inline (n # ns))
        = inline_run content resolve u inline @ fst here @ fst (walk_nodes content resolve u [] ns)"
      using block by (auto simp: here_def Let_def)
    ultimately show ?thesis by simp
  qed
qed

lemma nodes_in_child: "nodes_in lo hi ns \<Longrightarrow> n \<in> set ns \<Longrightarrow> nodes_in (node_start n) (node_end n) (node_children n)"
  by (induction ns arbitrary: lo) auto

lemma parse_html_bounds: "node_start (parse_html wide content) = 0" "node_end (parse_html wide content) = length content"
proof -
  have "node_start (close_all n stack) = 0 \<and> node_end (close_all n stack) = n" for n stack
    by (induction n stack rule: close_all.induct) auto
  then show "node_start (parse_html wide content) = 0" "node_end (parse_html wide content) = length content"
    by (simp_all add: parse_html_def)
qed

lemma find_first_in:
  "find_first tags n = Some m \<Longrightarrow> nodes_in (node_start n) (node_end n) (node_children n) \<Longrightarrow>
     nodes_in (node_start m) (node_end m) (node_children m) \<and> node_start n \<le> node_start m \<and> node_end m \<le> node_end n"
proof (induction n rule: find_first_induct)
  case (Below n c)
  then show ?case using nodes_in_bounds [OF Below(4) Below(1)] nodes_in_child [OF Below(4) Below(1)] by auto
qed simp

lemma main_element_in:
  assumes "nodes_in (node_start n) (node_end n) (node_children n)"
  shows "nodes_in (node_start n) (node_end n) (node_children (main_element n))"
proof -
  have step: "nodes_in (node_start n) (node_end n) (node_children (nullish (find_first tags n) m))"
    if other: "nodes_in (node_start n) (node_end n) (node_children m)" for tags m
  proof (cases "find_first tags n")
    case (Some k)
    note in_n = find_first_in [OF Some assms]
    have "nodes_in (node_start n) (node_end n) (node_children k)"
      by (rule nodes_in_weaken [of "node_start k" "node_end k"]) (use in_n in simp_all)
    then show ?thesis using Some by simp
  qed (simp add: other)
  show ?thesis unfolding main_element_def by (intro step assms)
qed

text \<open>
  Property C29. The blocks of an HTML source stand in its order: each ranges over a part of it that is not empty
  and lies within it, and no two of them overlap, however badly its tags are nested.
\<close>

theorem html_blocks_laid_out: "laid_out 0 (length content) (pr_blocks (parse_html_document wide resolve content u))"
proof -
  let ?t = "parse_html wide content"
  have bounds: "node_start ?t = 0" "node_end ?t = length content" using parse_html_bounds by blast+
  then have "nodes_in 0 (length content) (node_children (main_element ?t))"
    using main_element_in [of ?t] parse_html_in [of content wide] by simp
  then show ?thesis
    using walk_nodes_laid_out [of 0 "length content" "[]" "node_children (main_element ?t)" content resolve u]
    by (simp add: parse_html_document_def document_of_tree_def Let_def)
qed

end
