(* ===== verification/HtmlSafe.thy ===== *)
theory HtmlSafe
  imports HtmlDoc
begin

text \<open>
  What is excluded from an HTML document does not show: the result depends on an excluded element only by its
  tag, its attributes and its place, not by what is in it nor by how long it is. The one hole is a list that is itself
  excluded but stands directly in an item of a list: its items are read.
\<close>

section \<open>Skeletons\<close>

lemmas deep_cong = if_cong option.case_cong list.case_cong

text \<open>
  The skeleton of a tree has no offsets, and nothing inside an excluded element unless that is a list directly in an
  item; \<open>item\<close> tells whether the node stands directly in an item.
\<close>

fun skeleton :: "bool \<Rightarrow> html_node \<Rightarrow> html_node" where
  "skeleton item (TextNode value a b) = TextNode value 0 0"
| "skeleton item (Root ns a b) = Root (map (skeleton False) ns) 0 0"
| "skeleton item (Element tag as ns a b) =
     Element tag as
       (if excluded (Element tag as [] 0 0) \<and> \<not> (item \<and> tag \<in> set [''ol'', ''ul'']) then [] else map (skeleton (tag = ''li'')) ns) 0 0"

lemma excluded_content: "excluded (Element tag as ns a b) = excluded (Element tag as ms c d)"
  by (simp add: excluded_def hidden_def has_tag_def)

lemma skeleton_head [simp]: "node_tag (skeleton i n) = node_tag n" "attribute (skeleton i n) = attribute n"
  by (cases n; auto)+

lemma skeleton_tests [simp]: "has_tag tags (skeleton i n) = has_tag tags n" "excluded (skeleton i n) = excluded n"
  by (simp_all add: has_tag_def hidden_def excluded_def)

lemma skeleton_children:
  "node_children (skeleton i n) =
     (if excluded n \<and> \<not> (i \<and> has_tag [''ol'', ''ul''] n) then [] else map (skeleton (has_tag [''li''] n)) (node_children n))"
proof (cases n)
  case (Element tag as ns a b)
  then show ?thesis using excluded_content [of tag as ns a b "[]" 0 0] by (auto simp: has_tag_def)
qed (simp_all add: excluded_def has_tag_def)

lemma skeleton_shown: "\<not> excluded n \<Longrightarrow> node_children (skeleton i n) = map (skeleton (has_tag [''li''] n)) (node_children n)"
  by (simp add: skeleton_children)

text \<open>Only for a list does it matter whether it stands in an item.\<close>

lemma skeleton_place: "\<not> has_tag [''ol'', ''ul''] n \<Longrightarrow> skeleton i n = skeleton False n"
  by (cases n) (auto simp: has_tag_def)

lemma skeleton_text [simp]: "node_text omit (skeleton i n) = node_text omit n"
proof (induction n arbitrary: i)
  case (Element tag as ns a b)
  show ?case
  proof (cases "excluded (Element tag as ns a b) \<or> tag \<in> set omit")
    case True
    then show ?thesis using excluded_content [of tag as _ 0 0 ns a b] by auto
  next
    case False
    then have "\<not> excluded (Element tag as ms 0 0)" for ms using excluded_content [of tag as ms 0 0 ns a b] by simp
    then show ?thesis using Element False by (simp add: comp_def cong: map_cong)
  qed
qed (simp_all add: comp_def cong: map_cong)

lemma skeleton_prose [simp]: "prose_of (skeleton i n) = prose_of n"
  by (simp add: prose_of_def)

lemma skeleton_anchor [simp]: "anchor_link resolve u (skeleton i n) = anchor_link resolve u n"
  by (simp add: anchor_link_def cong: deep_cong)

lemma skeleton_anchor_links: "anchor_links resolve u (map (skeleton i) ns) = anchor_links resolve u ns"
proof (induction resolve u ns arbitrary: i rule: anchor_links.induct)
  case (2 resolve u n ns)
  then show ?case by (auto simp: skeleton_shown)
qed simp

lemma skeleton_links [simp]: "node_links resolve u (skeleton i n) = node_links resolve u n"
  using skeleton_anchor_links [of resolve u i "[n]"] by (simp add: node_links_def)

lemma skeleton_find:
  assumes "set tags \<inter> {''ol'', ''ul''} = {}"
  shows "find_first tags (skeleton i n) = map_option (skeleton False) (find_first tags n)"
  using assms
proof (induction tags n arbitrary: i rule: find_first.induct)
  case (1 tags n)
  have some: "first_some (find_first tags) (map (skeleton k) ns) = map_option (skeleton False) (first_some (find_first tags) ns)"
    if "\<forall>m\<in>set ns. \<forall>k. find_first tags (skeleton k m) = map_option (skeleton False) (find_first tags m)" for ns k
    using that by (induction ns) (auto split: option.splits)
  show ?case
  proof (cases "excluded n \<or> has_tag tags n")
    case False
    then have "\<forall>m\<in>set (node_children n). \<forall>k. find_first tags (skeleton k m) = map_option (skeleton False) (find_first tags m)"
      using 1 by blast
    from some [OF this] False show ?thesis
      by (subst (1 2) find_first.simps) (auto simp: skeleton_shown)
  next
    case True
    have "skeleton i n = skeleton False n" if "has_tag tags n"
      using that "1.prems" by (intro skeleton_place) (auto simp: has_tag_def split: option.splits)
    with True show ?thesis by (subst (1 2) find_first.simps) auto
  qed
qed

lemma skeleton_descendants:
  assumes "tag \<noteq> ''ol''" "tag \<noteq> ''ul''"
  shows "descendants tag stop (map (skeleton i) ns) = map (skeleton False) (descendants tag stop ns)"
  using assms
proof (induction tag stop ns arbitrary: i rule: descendants.induct)
  case (2 tag stop n ns)
  have "skeleton i n = skeleton False n" if "has_tag [tag] n"
    using that "2.prems" by (intro skeleton_place) (auto simp: has_tag_def split: option.splits)
  with 2 show ?case by (auto simp: skeleton_shown)
qed simp

lemma descendants_shown: "m \<in> set (descendants tag stop ns) \<Longrightarrow> \<not> excluded m"
  by (induction tag stop ns rule: descendants.induct) (auto split: if_splits)

lemma skeleton_visible_children:
  "\<not> excluded n \<or> i \<and> has_tag [''ol'', ''ul''] n \<Longrightarrow>
     visible_children tags (skeleton i n) = map (skeleton (has_tag [''li''] n)) (visible_children tags n)"
  by (auto simp: visible_children_def skeleton_children filter_map comp_def)

section \<open>The bodies of the blocks\<close>

abbreviation bodies :: "draft_block list \<Rightarrow> string option block_body list" where
  "bodies \<equiv> map df_body"

lemma body_of_element [simp]: "df_body (element_block content n body) = body"
  by (simp add: element_block_def draft_def)

lemma skeleton_text_block: "bodies (text_block c' (skeleton i n) f) = bodies (text_block c n f)"
  by (simp add: text_block_def)

lemma skeleton_table:
  assumes "\<not> excluded n"
  shows "bodies (table_block c' resolve u (skeleton i n)) = bodies (table_block c resolve u n)"
proof -
  let ?rows = "descendants ''tr'' True (node_children n)"
  have rows: "descendants ''tr'' True (node_children (skeleton i n)) = map (skeleton False) ?rows"
    using assms by (simp add: skeleton_shown skeleton_descendants)
  have "map (\<lambda>row. map prose_of (visible_children [''th'', ''td''] row)) (map (skeleton False) ?rows)
      = map (\<lambda>row. map prose_of (visible_children [''th'', ''td''] row)) ?rows"
    using descendants_shown by (auto simp: skeleton_visible_children comp_def)
  then have "table_rows (skeleton i n) = table_rows n" by (simp only: table_rows_def rows)
  moreover have "first_is_header (skeleton i n) = first_is_header n"
    using descendants_shown [of "hd ?rows" "''tr''" True "node_children n"]
    unfolding first_is_header_def rows by (cases ?rows) (simp_all add: skeleton_shown list_ex_iff)
  ultimately show ?thesis by (simp add: table_block_def cong: deep_cong split: list.split)
qed

lemma skeleton_item [simp]: "item_of_node resolve u depth (skeleton i n) = item_of_node resolve u depth n"
  by (simp add: item_of_node_def cong: deep_cong)

lemma skeleton_items:
  "\<not> excluded n \<or> i \<and> has_tag [''ol'', ''ul''] n \<Longrightarrow> collect_items resolve u depth (skeleton i n) = collect_items resolve u depth n"
proof (induction resolve u depth n arbitrary: i rule: collect_items.induct)
  case (1 resolve u depth n)
  let ?lists = "\<lambda>item. filter (has_tag [''ol'', ''ul'']) (node_children item)"
  let ?f = "\<lambda>item. item_of_node resolve u depth item @ concat (map (collect_items resolve u (depth + 1)) (?lists item))"
  have "?f (skeleton k item) = ?f item" if item: "item \<in> set (visible_children [''li''] n)" for item k
  proof -
    have "collect_items resolve u (depth + 1) (skeleton True m) = collect_items resolve u (depth + 1) m" if "m \<in> set (?lists item)" for m
      using "1.IH" [OF item that] that by simp
    moreover have "?lists (skeleton k item) = map (skeleton True) (?lists item)"
      using item by (simp add: visible_children_def skeleton_shown filter_map comp_def)
    ultimately have "map (collect_items resolve u (depth + 1)) (?lists (skeleton k item)) = map (collect_items resolve u (depth + 1)) (?lists item)"
      by simp
    then show ?thesis by (simp only: skeleton_item)
  qed
  then have "map ?f (map (skeleton k) (visible_children [''li''] n)) = map ?f (visible_children [''li''] n)" for k
    unfolding map_map by (intro map_cong refl) simp
  then show ?case
    by (subst (1 2) collect_items.simps) (simp only: skeleton_visible_children [OF "1.prems"])
qed

lemma skeleton_code:
  assumes "\<not> excluded n"
  shows "df_body (code_block c' (skeleton i n)) = df_body (code_block c n)"
  by (cases "find_first [''code''] n") (simp_all add: code_block_def skeleton_find class_language_def Let_def)

lemma skeleton_block:
  assumes "\<not> excluded n"
  shows "map_option bodies (block_of_element c' resolve u (skeleton i n)) = map_option bodies (block_of_element c resolve u n)"
proof -
  have "bodies (list_block c' resolve u (skeleton i n)) = bodies (list_block c resolve u n)"
    using skeleton_items [of n i resolve u 0] assms by (simp add: list_block_def split: list.split)
  then show ?thesis
    using assms unfolding block_of_element_def Let_def
    by (cases "node_tag n") (simp_all add: skeleton_table skeleton_text_block skeleton_code [OF assms] cong: if_cong)
qed

lemma skeleton_inline: "bodies (inline_run c' resolve u (map (skeleton i) nodes)) = bodies (inline_run c resolve u nodes)"
  by (cases nodes) (simp_all add: inline_run_def draft_def Let_def comp_def)

definition found_bodies :: "draft_block list \<times> nat \<Rightarrow> string option block_body list \<times> nat" where
  "found_bodies found = (bodies (fst found), snd found)"

lemma skeleton_walk:
  "found_bodies (walk_nodes c' resolve u (map (skeleton i) inline) (map (skeleton i) ns)) = found_bodies (walk_nodes c resolve u inline ns)"
proof (induction c resolve u inline ns arbitrary: i rule: walk_nodes.induct)
  case (1 c resolve u inline)
  then show ?case by (simp add: found_bodies_def skeleton_inline)
next
  case (2 c resolve u inline n ns)
  consider (plain) "node_tag n = None" | (excluded) "node_tag n \<noteq> None" "excluded n"
    | (inline) "node_tag n \<noteq> None" "\<not> excluded n" "\<not> has_tag block_elements n"
    | (block) "node_tag n \<noteq> None" "\<not> excluded n" "has_tag block_elements n" by blast
  then show ?case
  proof cases
    case plain
    then show ?thesis using "2.IH"(1) [OF plain, of i] plain by (cases "prose_of n = []") simp_all
  next
    case excluded
    obtain tag where "node_tag n = Some tag" using excluded(1) by blast
    moreover obtain bs k bs' k' where "walk_nodes c' resolve u (map (skeleton i) inline) (map (skeleton i) ns) = (bs', k')"
        "walk_nodes c resolve u inline ns = (bs, k)" by fastforce
    ultimately show ?thesis using "2.IH"(2) [OF excluded, of i] excluded(2) by (simp add: found_bodies_def)
  next
    case inline
    then show ?thesis using "2.IH"(3) [OF inline(1,2) inline(3), of i] inline by auto
  next
    case block
    have after: "found_bodies (walk_nodes c' resolve u [] (map (skeleton i) ns)) = found_bodies (walk_nodes c resolve u [] ns)"
      using "2.IH"(5) [OF block(1,2), of _ i] block(3) by simp
    have here: "block_of_element c resolve u n = None \<Longrightarrow>
        found_bodies (walk_nodes c' resolve u [] (map (skeleton (has_tag [''li''] n)) (node_children n)))
        = found_bodies (walk_nodes c resolve u [] (node_children n))"
      using "2.IH"(4) [OF block(1,2), of "has_tag [''li''] n"] block(3) by simp
    show ?thesis
      using block here after skeleton_block [OF block(2), of c' resolve u i c] skeleton_inline [of c' resolve u i inline c]
      by (cases "block_of_element c resolve u n")
        (auto simp: found_bodies_def skeleton_shown Let_def map_option_case split: option.splits)
  qed
qed

section \<open>Non-interference\<close>

lemma find_first_shown: "find_first tags n = Some m \<Longrightarrow> \<not> excluded m"
  by (induction n rule: find_first_induct) auto

lemma skeleton_main:
  assumes "\<not> excluded n"
  shows "main_element (skeleton False n) = skeleton False (main_element n)" "\<not> excluded (main_element n)"
proof -
  have step: "nullish (find_first tags (skeleton False n)) (skeleton False m) = skeleton False (nullish (find_first tags n) m)
      \<and> \<not> excluded (nullish (find_first tags n) m)"
    if "\<not> excluded m" "set tags \<inter> {''ol'', ''ul''} = {}" for tags m
    using that find_first_shown [of tags n] by (cases "find_first tags n") (simp_all add: skeleton_find)
  show "main_element (skeleton False n) = skeleton False (main_element n)" "\<not> excluded (main_element n)"
    unfolding main_element_def using step assms by simp_all
qed

lemma first_title_bodies: "bodies xs = bodies ys \<Longrightarrow> first_title xs = first_title ys"
proof -
  assume "bodies xs = bodies ys"
  then have "map_option df_body (find (P \<circ> df_body) xs) = map_option df_body (find (P \<circ> df_body) ys)" for P
    by (induction xs ys rule: list_induct2') auto
  from this [of "\<lambda>b. case b of Heading level _ _ _ \<Rightarrow> level = 1 | _ \<Rightarrow> False"] show ?thesis
    by (auto simp: first_title_def comp_def split: option.splits)
qed

text \<open>What a reader of the document sees: its title, the bodies of its blocks and the notes on it.\<close>

definition shown_document :: "parse_result \<Rightarrow> string \<times> string option block_body list \<times> diagnostic list" where
  "shown_document r = (pr_title r, bodies (pr_blocks r), pr_diagnostics r)"

lemma skeleton_document:
  assumes "\<not> excluded t"
  shows "shown_document (document_of_tree c' resolve u (skeleton False t)) = shown_document (document_of_tree c resolve u t)"
proof -
  define found where "found = walk_nodes c resolve u [] (node_children (main_element t))"
  define found' where "found' = walk_nodes c' resolve u [] (node_children (main_element (skeleton False t)))"
  have "found_bodies found' = found_bodies found"
    using skeleton_walk [of c' resolve u "has_tag [''li''] (main_element t)" "[]" "node_children (main_element t)" c]
    by (simp add: found_def found'_def skeleton_main [OF assms] skeleton_shown)
  then have "bodies (fst found') = bodies (fst found)" "snd found' = snd found" by (simp_all add: found_bodies_def)
  moreover have "(case find_first [''title''] (skeleton False t) of None \<Rightarrow> [] | Some n \<Rightarrow> prose_of n)
      = (case find_first [''title''] t of None \<Rightarrow> [] | Some n \<Rightarrow> prose_of n)"
    by (cases "find_first [''title''] t") (simp_all add: skeleton_find)
  ultimately show ?thesis
    using first_title_bodies [of "fst found'" "fst found"]
    by (simp add: shown_document_def document_of_tree_def found_def [symmetric] found'_def [symmetric] Let_def)
qed

lemma parse_html_root: "\<not> excluded (parse_html wide content)"
proof -
  have "node_tag (close_all n stack) = None" for n stack
    by (induction n stack rule: close_all.induct) auto
  then show ?thesis by (simp add: excluded_def parse_html_def)
qed

text \<open>
  Property C30. Excluded content does not reach the document: two HTML texts whose trees differ only in offsets and inside
  excluded elements (scripts, styles, navigation, forms, hidden elements and the like) give the same title, the
  same blocks up to their ranges, with the same links, and the same diagnostics.  What counts is the tree that the
  parser reads, so a less-than sign in a script can end it early; and the skeleton keeps the content of an
  excluded list that stands directly in an item of a list, which the code reads.
\<close>

theorem excluded_content_invisible:
  assumes "skeleton False (parse_html wide a) = skeleton False (parse_html wide b)"
  shows "pr_title (parse_html_document wide resolve a u) = pr_title (parse_html_document wide resolve b u)
    \<and> map df_body (pr_blocks (parse_html_document wide resolve a u)) = map df_body (pr_blocks (parse_html_document wide resolve b u))
    \<and> pr_diagnostics (parse_html_document wide resolve a u) = pr_diagnostics (parse_html_document wide resolve b u)"
proof -
  have "shown_document (parse_html_document wide resolve a u) = shown_document (parse_html_document wide resolve b u)"
    using skeleton_document [OF parse_html_root, of a resolve u wide a a] skeleton_document [OF parse_html_root, of a resolve u wide b b]
    by (simp add: parse_html_document_def assms)
  then show ?thesis by (simp add: shown_document_def)
qed

text \<open>The navigation of the second text is longer, so that what follows lies elsewhere.\<close>

lemma excluded_content_invisible_witness:
  "map df_body (pr_blocks (parse_html_document (\<lambda>_. []) (\<lambda>_ _. None) ''<nav>x</nav><p>A</p>'' []))
     = map df_body (pr_blocks (parse_html_document (\<lambda>_. []) (\<lambda>_ _. None) ''<nav><p>yes</p></nav><p>A</p>'' []))"
proof -
  have "skeleton False (parse_html (\<lambda>_. []) ''<nav>x</nav><p>A</p>'') = skeleton False (parse_html (\<lambda>_. []) ''<nav><p>yes</p></nav><p>A</p>'')"
    by code_simp
  from excluded_content_invisible [OF this] show ?thesis by blast
qed

section \<open>Holes\<close>

text \<open>
  The items of a hidden list in a visible item are read; an end tag that ends nothing closes all open elements, so
  what follows is no longer in the main element; a less-than sign before a letter in a script opens an element
  that swallows the end of the script; and the entity named after the member that every object inherits becomes
  the text of a function.
\<close>

lemma hidden_list_leaks:
  "map it_text (collect_items (\<lambda>_ _. None) [] 0
     (Element ''ul'' [] [Element ''li'' [] [Element ''ol'' [(''hidden'', [])] [Element ''li'' [] [TextNode ''B'' 0 1] 0 1] 0 1] 0 1] 0 1)) = [''B'']"
  by code_simp

lemma stray_end_tag_closes_all:
  "pr_blocks (parse_html_document (\<lambda>_. []) (\<lambda>_ _. None) ''<main></i>B'' []) = []"
  by code_simp

lemma less_than_in_script:
  "pr_blocks (parse_html_document (\<lambda>_. []) (\<lambda>_ _. None) ''<script>a<b</script>B'' []) = []"
  by code_simp

lemma constructor_entity: "decode_entities wide ''&constructor;'' = ''function Object() { [native code] }''"
  by code_simp

end
