(* ===== verification/StructuredText.thy ===== *)
theory StructuredText
  imports Structured
begin

text \<open>
  What the blocks of a structured document hold: every scalar and the name of every nested member of the value,
  and for an OpenAPI document a heading for every operation of the contract index.
\<close>

section \<open>Nothing of a value is lost\<close>

fun body_texts :: "'a block_body \<Rightarrow> string list" where
  "body_texts (Heading level s anchor links) = [s]"
| "body_texts (Paragraph s links) = [s]"
| "body_texts (Quotation s links) = [s]"
| "body_texts (Listing ordered items) = map it_text items"
| "body_texts (Table headers rows links) = headers @ concat rows"
| "body_texts (Code language s) = [s]"

fun value_texts :: "(nat \<Rightarrow> string) \<Rightarrow> json \<Rightarrow> string list" where
  "value_texts wide JUndef = []"
| "value_texts wide (JArr vs) = concat (map (value_texts wide) vs)"
| "value_texts wide (JObj kvs) =
     concat (map (\<lambda>(k, v). if is_container v then display_key wide k # value_texts wide v else value_texts wide v) kvs)"
| "value_texts wide v = [scalar_text v]"

definition shown :: "'a block_body list \<Rightarrow> string \<Rightarrow> bool" where
  "shown bodies s \<longleftrightarrow> s = [] \<or> (\<exists>b\<in>set bodies. s \<in> set (body_texts b))"

lemma shown_append: "shown (as @ bs) s \<longleftrightarrow> shown as s \<or> shown bs s"
  by (auto simp: shown_def)

lemma shown_concat: "bs \<in> set bss \<Longrightarrow> shown bs s \<Longrightarrow> shown (concat bss) s"
  by (auto simp: shown_def)

lemma shown_Cons: "shown (b # bs) s \<longleftrightarrow> s \<in> set (body_texts b) \<or> shown bs s"
  by (auto simp: shown_def)

lemma scalar_texts: "is_scalar v \<Longrightarrow> value_texts wide v = [scalar_text v]"
  by (cases v) auto

lemma scalar_shown:
  assumes "(k, v) \<in> set kvs" "is_scalar v"
  shows "shown (scalar_bodies wide links kvs) (scalar_text v)"
proof (cases "prose_field (k, v)")
  case True
  then have "Paragraph (scalar_text v) (links v) \<in> set (scalar_bodies wide links kvs)"
    using assms(1) by (force simp: scalar_bodies_def)
  then show ?thesis by (force simp: shown_def)
next
  case False
  then have "(k, v) \<in> set (filter row_field kvs)" using assms by (simp add: row_field_def)
  define rows where "rows = map (\<lambda>kv. [display_key wide (fst kv), scalar_text (snd kv)]) (filter row_field kvs)"
  have row: "[display_key wide k, scalar_text v] \<in> set rows"
    using \<open>(k, v) \<in> set (filter row_field kvs)\<close> unfolding rows_def by force
  then have "field_table rows (links (JObj kvs)) \<in> set (scalar_bodies wide links kvs)"
    unfolding scalar_bodies_def rows_def [symmetric] Let_def by auto
  moreover have "scalar_text v \<in> set (body_texts (field_table rows (links (JObj kvs))))"
    using row by (force simp: field_table_def)
  ultimately show ?thesis unfolding shown_def by blast
qed

lemma value_shown: "s \<in> set (value_texts wide v) \<Longrightarrow> shown (value_bodies wide links level key v) s"
proof (induction wide links level key v rule: value_bodies.induct)
  case (1 wide links level key v)
  note bodies = value_bodies.simps [of wide links level key v]
  show ?case
  proof (cases v)
    case (JArr vs)
    then obtain item where item: "item \<in> set vs" "s \<in> set (value_texts wide item)" using "1.prems" by auto
    show ?thesis
    proof (cases "list_all is_scalar vs")
      case True
      then have "s = scalar_text item" using item by (auto simp: list_all_iff scalar_texts)
      then show ?thesis using True item(1) JArr by (unfold bodies) (simp add: shown_def)
    next
      case False
      obtain i where i: "(i, item) \<in> set (enumerate 0 vs)"
        using item(1) by (metis in_set_conv_nth length_enumerate nth_enumerate_eq add_0)
      have "shown (value_bodies wide links (level + 1) [] item) s"
        using "1.IH"(1) [OF JArr False i refl item(2)] .
      then have "shown (simple_heading (min 6 level) (item_label i item) # value_bodies wide links (level + 1) [] item) s"
        by (simp add: shown_Cons)
      then have "shown (concat (map (\<lambda>(i, item). simple_heading (min 6 level) (item_label i item)
          # value_bodies wide links (level + 1) [] item) (enumerate 0 vs))) s"
        using i by (intro shown_concat) force+
      then show ?thesis using False JArr by (unfold bodies) simp
    qed
  next
    case (JObj kvs)
    then obtain k item where item: "(k, item) \<in> set kvs"
      "s \<in> set (if is_container item then display_key wide k # value_texts wide item else value_texts wide item)"
      using "1.prems" by fastforce
    show ?thesis
    proof (cases "is_container item")
      case True
      have "s = display_key wide k \<or> shown (value_bodies wide links (level + 1) k item) s"
        using "1.IH"(2) [OF JObj item(1) refl True] item(2) True by auto
      then have "shown (simple_heading (min 6 level) (display_key wide k) # value_bodies wide links (level + 1) k item) s"
        by (auto simp: shown_Cons simple_heading_def)
      then have "shown (concat (map (\<lambda>(field, item). if is_container item
           then simple_heading (min 6 level) (display_key wide field) # value_bodies wide links (level + 1) field item
           else sample_bodies key field item) kvs)) s"
        using item(1) True by (intro shown_concat) force+
      then show ?thesis using JObj by (unfold bodies) (simp add: shown_append)
    next
      case False
      then have "is_scalar item \<and> s = scalar_text item" using item(2) by (cases item) auto
      then have "shown (scalar_bodies wide links kvs) s" using scalar_shown [OF item(1)] by simp
      then show ?thesis using JObj by (unfold bodies) (simp add: shown_append)
    qed
  qed (use "1.prems" in \<open>unfold bodies, simp_all add: shown_def\<close>)
qed


definition page_shows :: "parse_result \<Rightarrow> string \<Rightarrow> bool" where
  "page_shows r = shown (map df_body (pr_blocks r))"

lemma bodies_over_content [simp]: "df_body \<circ> over_content content = (\<lambda>b. b)"
  by (simp add: over_content_def draft_def fun_eq_iff)

text \<open>
  The blocks of a structured document that is no OpenAPI document show the text of every scalar of its
  value and the name of every member that holds an object or an array, however deeply they are nested.
\<close>

theorem structured_text_complete:
  assumes "parse_structured_value json_parse content is_json = Inr v" and "openapi_root v = None"
  shows "list_all (page_shows (fst (parse_structured_document wide json_parse resolve content is_json kind u))) (value_texts wide v)"
  using assms value_shown [of _ wide v]
  by (simp add: parse_structured_document_def page_shows_def structured_blocks_def structured_bodies_def list_all_iff)

definition sample_value :: json where
  "sample_value = JObj [(''name'', JStr ''Pets''), (''tags'', JArr [JStr ''a'', JNull]),
     (''limits'', JArr [JObj [(''max'', JNum 5), (''summary'', JStr ''Most'')]])]"

theorem structured_text_complete_witness:
  "list_all (page_shows (fst (parse_structured_document (\<lambda>_. []) (\<lambda>_. Some sample_value) (\<lambda>_ _. None) ''{}'' True DocumentationKind [])))
     [''Pets'', ''Tags'', ''a'', ''null'', ''Limits'', ''5'', ''Most'']"
proof -
  have "parse_structured_value (\<lambda>_. Some sample_value) ''{}'' True = Inr sample_value"
    by (simp add: parse_structured_value_def)
  moreover have "openapi_root sample_value = None" by code_simp
  moreover have "value_texts (\<lambda>_. []) sample_value = [''Pets'', ''Tags'', ''a'', ''null'', ''Limits'', ''5'', ''Most'']"
    by code_simp
  ultimately show ?thesis
    using structured_text_complete [of "\<lambda>_. Some sample_value" "''{}''" True sample_value "\<lambda>_. []"] by simp
qed

section \<open>The operations of an OpenAPI document\<close>

lemma upper_of_lower: "is_lower (lower_char c) \<Longrightarrow> upper_char (lower_char c) = upper_char c"
proof -
  assume low: "is_lower (lower_char c)"
  have "(of_char c :: nat) < 256" by (rule nat_of_char_less_256)
  with low show ?thesis
    by (auto simp: upper_char_def lower_char_def is_lower_def char_in_def Let_def split: if_splits)
qed

lemma to_upper_of_lower: "list_all is_lower (to_lower m) \<Longrightarrow> to_upper (to_lower m) = to_upper m"
  by (induction m) (simp_all add: to_upper_def to_lower_def upper_of_lower)

lemma upper_method: "to_lower m \<in> set http_methods \<Longrightarrow> to_upper (to_lower m) = to_upper m"
proof (rule to_upper_of_lower)
  have "list_all (list_all is_lower) http_methods" by code_simp
  then show "to_lower m \<in> set http_methods \<Longrightarrow> list_all is_lower (to_lower m)" by (simp add: list_all_iff [of _ http_methods])
qed

lemma in_concat_map: "x \<in> set xs \<Longrightarrow> y \<in> set (f x) \<Longrightarrow> y \<in> set (concat (map f xs))"
  by auto

lemma listed_of_stated:
  assumes "(path, verb, operation) \<in> set (stated_operations (member root ''paths''))"
  shows "\<exists>m v. (m, path, v) \<in> set (listed_operations root) \<and> to_upper m = to_upper verb"
proof -
  obtain entry where entry: "entry \<in> set (entries_of (member root ''paths''))"
    and "(path, verb, operation) \<in> set (stated_methods entry)"
    using assms by (auto simp: stated_operations_def split: if_splits)
  then obtain m v where m: "(m, v) \<in> set (entries_of (snd entry))" "to_lower m \<in> set http_methods"
    "path = fst entry" "verb = to_lower m"
    by (auto simp: stated_methods_def split: if_splits option.splits)
  obtain item where e: "entry = (path, item)" using m(3) by (cases entry) simp
  have item: "(path, item) \<in> set (nullish (object_value (member root ''paths'')) [])"
    using entry by (simp add: entries_of_def sorted_entries_def e)
  have "(m, v) \<in> set (filter (\<lambda>(verb, v). to_lower verb \<in> set http_methods) (nullish (object_value item) []))"
    using m(1,2) by (simp add: entries_of_def sorted_entries_def e)
  then have inner: "(m, path, v) \<in> set (map (\<lambda>(verb, v). (verb, path, v))
      (filter (\<lambda>(verb, v). to_lower verb \<in> set http_methods) (nullish (object_value item) [])))"
    unfolding set_map by (rule rev_image_eqI) simp
  have "(m, path, v) \<in> set (listed_operations root)"
    unfolding listed_operations_def by (rule in_concat_map [OF item]) (unfold prod.case, rule inner)
  then show ?thesis using m(2,4) upper_method by metis
qed

text \<open>
  Every operation of the contract index that the crawler extracts from an OpenAPI document has a heading with
  its key among the blocks of the page of the same document.
\<close>

theorem openapi_operations_headed:
  "list_all (\<lambda>op. simple_heading 3 (op_key op) \<in> set (openapi_bodies wide resolve u root))
     (ix_operations (contract_index_of root hash (member root ''paths'')))"
proof -
  have "simple_heading 3 (op_key op) \<in> set (openapi_bodies wide resolve u root)"
    if op: "op \<in> set (ix_operations (contract_index_of root hash (member root ''paths'')))" for op
  proof -
    let ?ps = "stated_operations (member root ''paths'')"
    obtain i where i: "i < length ?ps" "op = indexed root hash ?ps i"
      using op by (auto simp: index_operations)
    obtain path verb operation where p: "?ps ! i = (path, verb, operation)" by (cases "?ps ! i") auto
    then obtain m v where m: "(m, path, v) \<in> set (listed_operations root)" "to_upper m = to_upper verb"
      using listed_of_stated i(1) nth_mem by metis
    have key: "op_key op = to_upper m @ '' '' @ path" using i p m(2) by (simp add: indexed_def operation_of_def Let_def)
    have "simple_heading 3 (op_key op) \<in> set (operation_bodies wide (m, path, v))"
      by (simp add: operation_bodies_def key Let_def)
    with m(1) show ?thesis unfolding openapi_bodies_def Let_def by auto
  qed
  then show ?thesis by (simp add: list_all_iff)
qed

end
