(* ===== verification/ToolCredential.thy ===== *)
theory ToolCredential
  imports Canonical SafeUrl
begin

text \<open>
  The binding of a credential that the browser holds to the destination and the authentication it was entered
  for (\<^verbatim>\<open>app/lib/tool-builder-safety.ts\<close>).
\<close>

section \<open>A stable text of a value\<close>

lemma member_size: "kv \<in> set kvs \<Longrightarrow> size (snd kv) < size (JObj kvs)"
proof -
  assume kv: "kv \<in> set kvs"
  have "size (snd kv) \<le> size_prod (\<lambda>_. 0) size kv"
    by (cases kv) simp
  then have "size (snd kv) \<le> size_list (size_prod (\<lambda>_. 0) size) kvs"
    using kv by (simp add: size_list_estimation')
  then show ?thesis by simp
qed

lemma item_size: "v \<in> set vs \<Longrightarrow> size v < size (JArr vs)"
  by (simp add: size_list_estimation' less_Suc_eq_le)

text \<open>
  \<^verbatim>\<open>stableValue\<close>: nothing is JavaScript's \<^verbatim>\<open>undefined\<close>, which a template prints and \<^verbatim>\<open>join\<close> leaves empty.
\<close>

function stable_value :: "json \<Rightarrow> string option" where
  "stable_value (JArr vs) = Some (''['' @ join '','' (map (\<lambda>v. nullish (stable_value v) []) vs) @ '']'')"
| "stable_value (JObj kvs) = Some (''{'' @ join '',''
     (map (\<lambda>kv. quote (fst kv) @ '':'' @ nullish (stable_value (snd kv)) ''undefined'')
       (js_sort (\<lambda>l r. compare_text (fst l) (fst r)) kvs)) @ ''}'')"
| "stable_value JUndef = None"
| "stable_value JNull = Some (stringify JNull)"
| "stable_value (JBool b) = Some (stringify (JBool b))"
| "stable_value (JNum i) = Some (stringify (JNum i))"
| "stable_value (JDec n w ds) = Some (stringify (JDec n w ds))"
| "stable_value (JStr s) = Some (stringify (JStr s))"
  by pat_completeness auto

termination
  by (relation "measure size") (auto simp del: json.size intro: member_size item_size)

text \<open>The same with the members of every object sorted first: what the text shows.\<close>

function sort_value :: "json \<Rightarrow> json" where
  "sort_value (JArr vs) = JArr (map sort_value vs)"
| "sort_value (JObj kvs) = JObj (map (\<lambda>kv. (fst kv, sort_value (snd kv))) (js_sort by_key kvs))"
| "sort_value JUndef = JUndef"
| "sort_value JNull = JNull"
| "sort_value (JBool b) = JBool b"
| "sort_value (JNum i) = JNum i"
| "sort_value (JDec n w ds) = JDec n w ds"
| "sort_value (JStr s) = JStr s"
  by pat_completeness auto
termination
  by (relation "measure size") (auto simp del: json.size intro: member_size item_size)

lemma sort_value_defined: "defined v \<Longrightarrow> defined (sort_value v)"
  by (induction v rule: sort_value.induct) (auto simp: list_all_iff)

lemma defined_not_undef: "defined v \<Longrightarrow> v \<noteq> JUndef"
  by (cases v) auto

lemma stable_value_text: "defined v \<Longrightarrow> stable_value v = Some (stringify (sort_value v))"
proof (induction v rule: stable_value.induct)
  case (1 vs)
  then show ?case by (simp add: comp_def list_all_iff cong: map_cong)
next
  case (2 kvs)
  let ?sorted = "js_sort by_key kvs"
  have d: "defined (snd kv)" if "kv \<in> set kvs" for kv
    using "2.prems" that by (auto simp: list_all_iff)
  have "filter (\<lambda>(k, v). v \<noteq> JUndef) (map (\<lambda>kv. (fst kv, sort_value (snd kv))) ?sorted)
      = map (\<lambda>kv. (fst kv, sort_value (snd kv))) ?sorted"
    using d sort_value_defined defined_not_undef by (auto simp: filter_id_conv)
  moreover have "map (\<lambda>kv. quote (fst kv) @ '':'' @ nullish (stable_value (snd kv)) ''undefined'') ?sorted
      = map (\<lambda>kv. quote (fst kv) @ '':'' @ stringify (sort_value (snd kv))) ?sorted"
    using d "2.IH" by (intro map_cong) auto
  ultimately show ?case
    by (simp only: stable_value.simps sort_value.simps stringify.simps map_map comp_def case_prod_beta fst_conv snd_conv)
qed auto

subsection \<open>The text stands for the data\<close>

lemma sorted_members_eq:
  assumes "distinct (map fst xs)" "mset xs = mset ys"
  shows "map (\<lambda>kv. (fst kv, f (snd kv))) (js_sort by_key xs) = map (\<lambda>kv. (fst kv, f (snd kv))) (js_sort by_key ys)"
  using assms by (intro arg_cong [where f = "map (\<lambda>kv. (fst kv, f (snd kv)))"] by_key.sort_determined) (auto simp: distinct_map)

lemma members_of_defined: "defined (JObj kvs) \<Longrightarrow> members kvs = map (\<lambda>kv. (fst kv, canonical_value (snd kv))) kvs"
proof -
  assume "defined (JObj kvs)"
  then have "filter (\<lambda>kv. snd kv \<noteq> JUndef) kvs = kvs"
    by (auto simp: filter_id_conv list_all_iff)
  then show ?thesis by (simp add: members_def)
qed

lemma data_members:
  "plain_data (JObj kvs) \<Longrightarrow> defined (JObj kvs) \<Longrightarrow> kv \<in> set kvs \<Longrightarrow> plain_data (snd kv) \<and> defined (snd kv)"
  using defined_not_undef by (fastforce simp: list_all_iff)

lemma sort_of_canonical: "plain_data v \<Longrightarrow> defined v \<Longrightarrow> sort_value (canonical_value v) = sort_value v"
proof (induction v rule: canonical_value.induct)
  case (2 kvs)
  have sub: "plain_data (snd kv)" "defined (snd kv)" if "kv \<in> set kvs" for kv
    using data_members [OF 2(2,3) that] by blast+
  have d: "distinct (map fst kvs)" using 2 by simp
  have "mset (from_entries (js_sort by_key (members kvs))) = mset (map (\<lambda>kv. (fst kv, canonical_value (snd kv))) kvs)"
    using d distinct_members [OF d] by (subst mset_from_entries) (simp_all add: members_of_defined [OF 2(3)] comp_def)
  then have "sort_value (canonical_value (JObj kvs))
      = JObj (map (\<lambda>kv. (fst kv, sort_value (snd kv)))
          (js_sort by_key (map (\<lambda>kv. (fst kv, canonical_value (snd kv))) kvs)))"
    unfolding canonical_value_obj using d by (simp add: sorted_members_eq)
  also have "\<dots> = JObj (map (\<lambda>kv. (fst kv, sort_value (canonical_value (snd kv)))) (js_sort by_key kvs))"
    by (simp add: js_sort_map [where d = by_key] comp_def)
  also have "\<dots> = sort_value (JObj kvs)"
    using "2.IH" sub defined_not_undef by (auto simp: list_all_iff)
  finally show ?case .
qed (auto simp: list_all_iff)

lemma canonical_of_sort: "plain_data v \<Longrightarrow> defined v \<Longrightarrow> canonical_value (sort_value v) = canonical_value v"
proof (induction v rule: canonical_value.induct)
  case (2 kvs)
  have sub: "plain_data (snd kv)" "defined (snd kv)" if "kv \<in> set kvs" for kv
    using data_members [OF 2(2,3) that] by blast+
  let ?sorted = "map (\<lambda>kv. (fst kv, sort_value (snd kv))) (js_sort by_key kvs)"
  have "defined (JObj ?sorted)"
    using sub sort_value_defined by (auto simp: list_all_iff)
  then have "members ?sorted = map (\<lambda>kv. (fst kv, canonical_value (sort_value (snd kv)))) (js_sort by_key kvs)"
    by (simp add: members_of_defined comp_def)
  also have "\<dots> = map (\<lambda>kv. (fst kv, canonical_value (snd kv))) (js_sort by_key kvs)"
    using 2 sub defined_not_undef by (auto simp: list_all_iff)
  finally have "set (members ?sorted) = set (members kvs)"
    by (simp add: members_of_defined [OF 2(3)])
  moreover have "distinct (map fst (members ?sorted))" "distinct (map fst (members kvs))"
    using 2 by (auto intro!: distinct_members simp: comp_def)
  ultimately have "from_entries (js_sort by_key (members ?sorted)) = from_entries (js_sort by_key (members kvs))"
    by (simp add: canonical_order_determined)
  then show ?case by (simp only: sort_value.simps canonical_value_obj)
qed (auto simp: list_all_iff)

lemma stable_value_iff:
  assumes "plain_data v" "plain_data w" "defined v" "defined w"
  shows "stable_value v = stable_value w \<longleftrightarrow> json_eqv v w"
proof -
  have "stable_value v = stable_value w \<longleftrightarrow> sort_value v = sort_value w"
    using assms by (simp add: stable_value_text stringify_inj sort_value_defined)
  also have "\<dots> \<longleftrightarrow> canonical_value v = canonical_value w"
    using assms sort_of_canonical canonical_of_sort by metis
  also have "\<dots> \<longleftrightarrow> json_eqv v w"
    using assms canonical_eq_imp_eqv eqv_imp_canonical_eq by blast
  finally show ?thesis .
qed

lemma hex_digit_no_nul: "n < 16 \<Longrightarrow> hex_digit n \<noteq> nul"
proof -
  assume n: "n < 16"
  have "list_all (\<lambda>n. hex_digit n \<noteq> nul) [0..<16]" by code_simp
  then show ?thesis using n by (auto simp: list_all_iff)
qed

lemma escape_no_nul: "nul \<notin> set (escape_char c)"
proof (cases "(of_char c :: nat) < 32")
  case True
  then have "hex_digit (of_char c div 16) \<noteq> nul" "hex_digit (of_char c mod 16) \<noteq> nul"
    by (auto intro!: hex_digit_no_nul)
  with True show ?thesis by (auto simp: escape_char_def)
next
  case False
  then have "c \<noteq> nul" by auto
  with False show ?thesis by (simp add: escape_char_def)
qed

lemma number_no_nul: "list_all number_char s \<Longrightarrow> nul \<notin> set s"
  by (auto simp: list_all_iff number_char_def is_digit_def char_in_def)

lemma quote_no_nul: "nul \<notin> set (quote s)"
  using escape_no_nul by (auto simp: quote_def)

lemma join_no_nul: "nul \<notin> set sep \<Longrightarrow> list_all (\<lambda>s. nul \<notin> set s) xs \<Longrightarrow> nul \<notin> set (join sep xs)"
  using set_join [of sep xs] by (auto simp: list_all_iff)

lemma stable_value_no_nul: "stable_value v = Some s \<Longrightarrow> nul \<notin> set s"
proof (induction v arbitrary: s rule: stable_value.induct)
  case (1 vs)
  have "nul \<notin> set (nullish (stable_value v) [])" if "v \<in> set vs" for v
    using 1 that by (cases "stable_value v") auto
  then have "nul \<notin> set (join '','' (map (\<lambda>v. nullish (stable_value v) []) vs))"
    by (intro join_no_nul) (auto simp: list_all_iff)
  then show ?case using 1 by auto
next
  case (2 kvs)
  have "nul \<notin> set (nullish (stable_value (snd kv)) ''undefined'')" if "kv \<in> set kvs" for kv
    using 2 that by (cases "stable_value (snd kv)") auto
  then have "nul \<notin> set (join '','' (map (\<lambda>kv. quote (fst kv) @ '':'' @ nullish (stable_value (snd kv)) ''undefined'')
      (js_sort by_key kvs)))"
    by (intro join_no_nul) (auto simp: list_all_iff quote_no_nul)
  then show ?case using 2 by auto
qed (auto simp: quote_no_nul number_no_nul int_str_chars dec_str_chars split: if_splits)

section \<open>Authentication and bindings\<close>

datatype auth_type =
    DelegatedOauth | NoAuth | Bearer | AuthorizationScheme | ApiKeyHeader | ApiKeyQuery | BasicAuth
  | OauthClientCredentials | CustomHeader

definition auth_type_name :: "auth_type \<Rightarrow> string" where
  "auth_type_name a = (case a of
     DelegatedOauth \<Rightarrow> ''delegated_oauth'' | NoAuth \<Rightarrow> ''none'' | Bearer \<Rightarrow> ''bearer''
   | AuthorizationScheme \<Rightarrow> ''authorization_scheme'' | ApiKeyHeader \<Rightarrow> ''api_key_header''
   | ApiKeyQuery \<Rightarrow> ''api_key_query'' | BasicAuth \<Rightarrow> ''basic''
   | OauthClientCredentials \<Rightarrow> ''oauth_client_credentials'' | CustomHeader \<Rightarrow> ''custom_header'')"

datatype client_secret_method = SecretBasic | SecretPost

definition secret_method_name :: "client_secret_method \<Rightarrow> string" where
  "secret_method_name m = (case m of SecretBasic \<Rightarrow> ''client_secret_basic'' | SecretPost \<Rightarrow> ''client_secret_post'')"

record upstream_auth =
  ua_type :: auth_type
  ua_scheme :: "string option"
  ua_header_name :: "string option"
  ua_query_name :: "string option"
  ua_prefix :: "string option"
  ua_username :: "string option"
  ua_client_id :: "string option"
  ua_token_url :: "string option"
  ua_token_endpoint_auth_method :: "client_secret_method option"
  ua_scopes :: "string list option"
  ua_audience :: "string option"
  ua_resource :: "string option"

text \<open>The object that the record stands for, its absent members left out.\<close>

definition option_member :: "string \<Rightarrow> ('a \<Rightarrow> json) \<Rightarrow> 'a option \<Rightarrow> (string \<times> json) list" where
  "option_member name f v = (case v of None \<Rightarrow> [] | Some x \<Rightarrow> [(name, f x)])"

definition auth_members :: "upstream_auth \<Rightarrow> (string \<times> json) list" where
  "auth_members a =
     (''type'', JStr (auth_type_name (ua_type a)))
     # option_member ''scheme'' JStr (ua_scheme a)
     @ option_member ''header_name'' JStr (ua_header_name a)
     @ option_member ''query_name'' JStr (ua_query_name a)
     @ option_member ''prefix'' JStr (ua_prefix a)
     @ option_member ''username'' JStr (ua_username a)
     @ option_member ''client_id'' JStr (ua_client_id a)
     @ option_member ''token_url'' JStr (ua_token_url a)
     @ option_member ''token_endpoint_auth_method'' (\<lambda>m. JStr (secret_method_name m)) (ua_token_endpoint_auth_method a)
     @ option_member ''scopes'' (\<lambda>xs. JArr (map JStr xs)) (ua_scopes a)
     @ option_member ''audience'' JStr (ua_audience a)
     @ option_member ''resource'' JStr (ua_resource a)"

definition auth_value :: "upstream_auth \<Rightarrow> json" where
  "auth_value a = JObj (auth_members a)"

text \<open>
  \<^verbatim>\<open>URL.origin\<close>: a \<^verbatim>\<open>blob\<close> URL has the origin of the HTTP URL that is its path; any other scheme that is not
  special has the opaque origin, which reads \<^verbatim>\<open>null\<close>.
\<close>

definition url_origin :: "url_parser \<Rightarrow> url \<Rightarrow> string" where
  "url_origin parse u =
     (if u_scheme u \<in> set [''http'', ''https'', ''ws'', ''wss'', ''ftp''] then origin u
      else if u_scheme u = ''blob'' then (case parse None (u_path u) of
          Some v \<Rightarrow> if u_scheme v \<in> set [''http'', ''https''] then origin v else ''null''
        | None \<Rightarrow> ''null'')
      else ''null'')"

definition endpoint_origin :: "url_parser \<Rightarrow> string \<Rightarrow> string" where
  "endpoint_origin parse endpoint = (case parse None endpoint of
     Some u \<Rightarrow> to_lower (url_origin parse u)
   | None \<Rightarrow> [])"

definition tool_credential_binding :: "url_parser \<Rightarrow> string \<Rightarrow> json \<Rightarrow> string" where
  "tool_credential_binding parse endpoint auth =
     endpoint_origin parse endpoint @ [nul] @ nullish (stable_value auth) ''undefined''"

definition tool_credential_binding_matches :: "url_parser \<Rightarrow> string \<Rightarrow> string \<Rightarrow> json \<Rightarrow> bool" where
  "tool_credential_binding_matches parse binding endpoint auth \<longleftrightarrow>
     binding \<noteq> [] \<and> binding = tool_credential_binding parse endpoint auth"

definition versioned_response_is_current :: "nat \<Rightarrow> nat \<Rightarrow> bool" where
  "versioned_response_is_current started_at current \<longleftrightarrow> started_at = current"

lemma option_member_keys: "map fst (option_member k f v) = (if v = None then [] else [k])"
  by (cases v) (simp_all add: option_member_def)

lemma map_of_optional: "map_of (option_member k f v) j = (if j = k then map_option f v else None)"
  by (cases v) (simp_all add: option_member_def)

lemma optional_all [simp]: "(\<And>x. P (f x)) \<Longrightarrow> list_all (\<lambda>kv. P (snd kv)) (option_member k f v)"
  by (cases v) (simp_all add: option_member_def)

lemma absent_key:
  "j \<noteq> k \<Longrightarrow> j \<notin> fst ` set kvs \<Longrightarrow> j \<notin> fst ` set (option_member k f v @ kvs)"
  "j \<noteq> k \<Longrightarrow> j \<notin> fst ` set (option_member k f v)"
  by (cases v; auto simp: option_member_def)+

lemma optional_distinct:
  "k \<notin> fst ` set kvs \<Longrightarrow> distinct (map fst kvs) \<Longrightarrow> distinct (map fst (option_member k f v @ kvs))"
  "distinct (map fst (option_member k f v))"
  by (cases v; auto simp: option_member_def)+

lemma auth_keys_distinct: "distinct (map fst (auth_members a))"
  unfolding auth_members_def list.map fst_conv distinct.simps set_map
  by (intro conjI optional_distinct absent_key) simp_all

lemma all_auth_members:
  assumes "\<And>s. P (JStr s)" "\<And>xs. P (JArr (map JStr xs))"
  shows "list_all (\<lambda>kv. P (snd kv)) (auth_members a)"
  unfolding auth_members_def by (simp add: assms)

lemma auth_data: "plain_data (auth_value a)" "defined (auth_value a)"
proof -
  have "list_all (\<lambda>kv. plain_data (snd kv)) (auth_members a)" "list_all (\<lambda>kv. defined (snd kv)) (auth_members a)"
    by (rule all_auth_members; simp add: list_all_iff)+
  then show "plain_data (auth_value a)" "defined (auth_value a)"
    using auth_keys_distinct by (auto simp: auth_value_def list_all_iff)
qed

lemma map_of_auth:
  "map_of (auth_members a) ''type'' = Some (JStr (auth_type_name (ua_type a)))"
  "map_of (auth_members a) ''scheme'' = map_option JStr (ua_scheme a)"
  "map_of (auth_members a) ''header_name'' = map_option JStr (ua_header_name a)"
  "map_of (auth_members a) ''query_name'' = map_option JStr (ua_query_name a)"
  "map_of (auth_members a) ''prefix'' = map_option JStr (ua_prefix a)"
  "map_of (auth_members a) ''username'' = map_option JStr (ua_username a)"
  "map_of (auth_members a) ''client_id'' = map_option JStr (ua_client_id a)"
  "map_of (auth_members a) ''token_url'' = map_option JStr (ua_token_url a)"
  "map_of (auth_members a) ''token_endpoint_auth_method''
     = map_option (\<lambda>m. JStr (secret_method_name m)) (ua_token_endpoint_auth_method a)"
  "map_of (auth_members a) ''scopes'' = map_option (\<lambda>xs. JArr (map JStr xs)) (ua_scopes a)"
  "map_of (auth_members a) ''audience'' = map_option JStr (ua_audience a)"
  "map_of (auth_members a) ''resource'' = map_option JStr (ua_resource a)"
  by (simp_all add: auth_members_def map_of_optional map_add_def option.case_eq_if)

inductive_cases eqv_strE: "json_eqv (JStr s) w"

lemma eqv_members:
  assumes "json_eqv (JObj kvs) (JObj lvs)" "defined (JObj kvs)" "defined (JObj lvs)"
  shows "rel_option json_eqv (map_of kvs k) (map_of lvs k)"
proof -
  have D: "{k. \<exists>v. (k, v) \<in> set kvs \<and> v \<noteq> JUndef} = {k. \<exists>w. (k, w) \<in> set lvs \<and> w \<noteq> JUndef}"
    and V: "\<And>k v w. (k, v) \<in> set kvs \<Longrightarrow> (k, w) \<in> set lvs \<Longrightarrow> v \<noteq> JUndef \<Longrightarrow> w \<noteq> JUndef \<Longrightarrow> json_eqv v w"
    using assms(1) by (auto elim!: eqv_objE)
  have nu: "v \<noteq> JUndef" if "(k, v) \<in> set kvs \<or> (k, v) \<in> set lvs" for k v
    using that assms(2,3) by (auto simp: list_all_iff)
  have dom: "k \<in> fst ` set kvs \<longleftrightarrow> k \<in> fst ` set lvs"
  proof -
    have "k \<in> fst ` set xs \<longleftrightarrow> k \<in> {k. \<exists>v. (k, v) \<in> set xs \<and> v \<noteq> JUndef}" if "\<And>v. (k, v) \<in> set xs \<Longrightarrow> v \<noteq> JUndef" for xs
      using that by force
    note key = this
    have "k \<in> fst ` set kvs \<longleftrightarrow> k \<in> {k. \<exists>v. (k, v) \<in> set kvs \<and> v \<noteq> JUndef}"
      by (rule key) (use nu in blast)
    moreover have "k \<in> fst ` set lvs \<longleftrightarrow> k \<in> {k. \<exists>v. (k, v) \<in> set lvs \<and> v \<noteq> JUndef}"
      by (rule key) (use nu in blast)
    ultimately show ?thesis by (simp only: D)
  qed
  show ?thesis
  proof (cases "map_of kvs k")
    case None
    then have "k \<notin> fst ` set kvs" by (rule iffD1 [OF map_of_eq_None_iff])
    then have "k \<notin> fst ` set lvs" using dom by simp
    then have "map_of lvs k = None" by (rule iffD2 [OF map_of_eq_None_iff])
    with None show ?thesis by simp
  next
    case (Some v)
    then obtain w where w: "map_of lvs k = Some w"
      using dom by (metis map_of_eq_None_iff not_None_eq)
    have "json_eqv v w"
      using V [of k v w] nu map_of_SomeD [OF Some] map_of_SomeD [OF w] by blast
    then show ?thesis using Some w by simp
  qed
qed

lemma auth_type_name_inj [simp]: "auth_type_name a = auth_type_name b \<longleftrightarrow> a = b"
  by (cases a; cases b; simp add: auth_type_name_def)

lemma secret_method_name_inj [simp]: "secret_method_name a = secret_method_name b \<longleftrightarrow> a = b"
  by (cases a; cases b; simp add: secret_method_name_def)

lemma eqv_strings: "json_eqv (JStr s) (JStr t) \<longleftrightarrow> s = t" "json_eqv (JArr (map JStr xs)) (JArr (map JStr ys)) \<longleftrightarrow> xs = ys"
proof -
  show eqv: "json_eqv (JStr s) (JStr t) \<longleftrightarrow> s = t" for s t
    by (auto elim: eqv_strE intro: eqv_str)
  show "json_eqv (JArr (map JStr xs)) (JArr (map JStr ys)) \<longleftrightarrow> xs = ys"
    by (auto elim!: eqv_arrE intro!: nth_equalityI eqv_arr simp: eqv eqv_str)
qed

lemma rel_option_inj:
  "(\<And>x y. json_eqv (f x) (f y) \<longleftrightarrow> x = y) \<Longrightarrow> rel_option json_eqv (map_option f a) (map_option f b) \<longleftrightarrow> a = b"
  by (cases a; cases b; simp)

text \<open>Nothing of the configuration is lost in its text.\<close>

lemma auth_value_text: "stable_value (auth_value a) = stable_value (auth_value b) \<longleftrightarrow> a = b"
proof
  assume "stable_value (auth_value a) = stable_value (auth_value b)"
  then have eqv: "json_eqv (auth_value a) (auth_value b)"
    using stable_value_iff [OF auth_data(1) auth_data(1) auth_data(2) auth_data(2)] by simp
  have same: "rel_option json_eqv (map_of (auth_members a) k) (map_of (auth_members b) k)" for k
    using eqv_members [of "auth_members a" "auth_members b" k] eqv auth_data(2) by (simp add: auth_value_def)
  show "a = b"
    using same [of "''type''"] same [of "''scheme''"] same [of "''header_name''"] same [of "''query_name''"]
      same [of "''prefix''"] same [of "''username''"] same [of "''client_id''"] same [of "''token_url''"]
      same [of "''token_endpoint_auth_method''"] same [of "''scopes''"] same [of "''audience''"] same [of "''resource''"]
    unfolding map_of_auth by (intro upstream_auth.equality) (simp_all add: eqv_strings rel_option_inj)
qed simp

lemma split_at_last_nul:
  "p @ nul # s = q @ nul # t \<Longrightarrow> nul \<notin> set s \<Longrightarrow> nul \<notin> set t \<Longrightarrow> p = q \<and> s = t"
proof -
  assume e: "p @ nul # s = q @ nul # t" and free: "nul \<notin> set s" "nul \<notin> set t"
  have r: "rev s @ nul # rev p = rev t @ nul # rev q"
    using arg_cong [OF e, of rev] by simp
  have "takeWhile (\<lambda>c. c \<noteq> nul) (rev u @ nul # v) = rev u" if "nul \<notin> set u" for u v
    using that by (subst takeWhile_append2) auto
  then have "rev s = rev t"
    using arg_cong [OF r, of "takeWhile (\<lambda>c. c \<noteq> nul)"] free by simp
  then show "p = q \<and> s = t" using e by simp
qed

text \<open>
  Property C33. A credential that was entered for an endpoint and an authentication configuration may be used
  for another endpoint and configuration exactly when both endpoints have the same origin and the
  configurations agree in every field, whatever bytes the fields and the endpoints have and however the URL
  parser behaves.
\<close>

theorem tool_credential_bound:
  "tool_credential_binding_matches parse (tool_credential_binding parse endpoint (auth_value a)) endpoint' (auth_value b)
     \<longleftrightarrow> endpoint_origin parse endpoint = endpoint_origin parse endpoint' \<and> a = b"
proof -
  obtain s t where st: "stable_value (auth_value a) = Some s" "stable_value (auth_value b) = Some t"
    by (simp add: stable_value_text auth_data)
  have "nul \<notin> set s" "nul \<notin> set t"
    using st stable_value_no_nul by blast+
  then have "endpoint_origin parse endpoint @ nul # s = endpoint_origin parse endpoint' @ nul # t
      \<longleftrightarrow> endpoint_origin parse endpoint = endpoint_origin parse endpoint' \<and> s = t"
    using split_at_last_nul by blast
  moreover have "s = t \<longleftrightarrow> a = b"
    using auth_value_text [of a b] st by simp
  ultimately show ?thesis
    by (simp add: tool_credential_binding_matches_def tool_credential_binding_def st)
qed

end
