(* ===== verification/ToolDraft.thy ===== *)
theory ToolDraft
  imports ToolCredential Structured
begin

text \<open>
  The working contract of a tool (\<^verbatim>\<open>app/lib/api-contracts.ts\<close>) and how the tool builder reads it from untrusted
  values and shows it as a form (\<^verbatim>\<open>app/components/tool-builder/model.ts\<close>). \<^verbatim>\<open>JSON.parse\<close> is an argument. An object whose
  own members hide \<^verbatim>\<open>toString\<close>, which \<^verbatim>\<open>String\<close> cannot convert, is outside the model.
\<close>

section \<open>Enumerations\<close>

datatype tool_method = GetTool | PostTool | PutTool | PatchTool | DeleteTool

definition tool_methods :: "(string \<times> tool_method) list" where
  "tool_methods = [(''GET'', GetTool), (''POST'', PostTool), (''PUT'', PutTool), (''PATCH'', PatchTool), (''DELETE'', DeleteTool)]"

datatype tool_risk = LowRisk | MediumRisk | HighRisk | CriticalRisk

definition tool_risks :: "(string \<times> tool_risk) list" where
  "tool_risks = [(''low'', LowRisk), (''medium'', MediumRisk), (''high'', HighRisk), (''critical'', CriticalRisk)]"

definition auth_types :: "(string \<times> auth_type) list" where
  "auth_types = map (\<lambda>a. (auth_type_name a, a))
     [DelegatedOauth, NoAuth, Bearer, AuthorizationScheme, ApiKeyHeader, ApiKeyQuery, BasicAuth, OauthClientCredentials,
      CustomHeader]"

definition credential_auth_types :: "auth_type list" where
  "credential_auth_types =
     [Bearer, AuthorizationScheme, ApiKeyHeader, ApiKeyQuery, BasicAuth, OauthClientCredentials, CustomHeader]"

text \<open>The name under which a table lists a value.\<close>

definition listed_name :: "(string \<times> 'a) list \<Rightarrow> 'a \<Rightarrow> string" where
  "listed_name table v = nullish (map_of (map (\<lambda>(n, v). (v, n)) table) v) []"

text \<open>Reading an enumeration from any value.\<close>

definition listed_value :: "(string \<times> 'a) list \<Rightarrow> json \<Rightarrow> 'a \<Rightarrow> 'a" where
  "listed_value table v fallback = (case v of JStr s \<Rightarrow> nullish (map_of table s) fallback | _ \<Rightarrow> fallback)"

section \<open>Drafts\<close>

text \<open>
  What a draft and its form have in common. The location of a parameter is any value that \<^verbatim>\<open>String\<close> turns into
  one of four names, see below.
\<close>

record tool_core =
  tc_namespace :: string
  tc_name :: string
  tc_description :: string
  tc_method :: tool_method
  tc_endpoint :: string
  tc_timeout :: json
  tc_auth :: upstream_auth
  tc_locations :: json_object
  tc_result_path :: "string option"
  tc_grants :: "string list"
  tc_confirmation :: bool
  tc_risk :: tool_risk
  tc_idempotency :: bool
  tc_credential_present :: bool

record tool_draft = tool_core +
  td_input_schema :: json_object
  td_output_schema :: json_object
  td_request_example :: "json_object option"
  td_response_example :: json

record tool_form = tool_core +
  tf_input_schema_text :: string
  tf_output_schema_text :: string
  tf_request_example_text :: string
  tf_response_example_text :: string

definition default_schema :: json_object where
  "default_schema = [(''type'', JStr ''object''), (''additionalProperties'', JBool False), (''properties'', JObj [])]"

definition no_auth_fields :: "auth_type \<Rightarrow> upstream_auth" where
  "no_auth_fields a = \<lparr>ua_type = a, ua_scheme = None, ua_header_name = None, ua_query_name = None, ua_prefix = None,
     ua_username = None, ua_client_id = None, ua_token_url = None, ua_token_endpoint_auth_method = None,
     ua_scopes = None, ua_audience = None, ua_resource = None\<rparr>"

definition default_tool_draft :: tool_draft where
  "default_tool_draft = \<lparr>tc_namespace = [], tc_name = [], tc_description = [], tc_method = GetTool, tc_endpoint = [],
     tc_timeout = JNum 10000, tc_auth = no_auth_fields DelegatedOauth, tc_locations = [], tc_result_path = None,
     tc_grants = [], tc_confirmation = False, tc_risk = LowRisk, tc_idempotency = False, tc_credential_present = False,
     td_input_schema = default_schema, td_output_schema = default_schema, td_request_example = None,
     td_response_example = JUndef\<rparr>"

text \<open>The members of the object a draft or a form stands for.\<close>

definition policy_members :: "'a tool_core_scheme \<Rightarrow> json_object" where
  "policy_members d =
     [(''required_grants'', JArr (map JStr (tc_grants d))), (''confirmation_required'', JBool (tc_confirmation d)),
      (''risk'', JStr (listed_name tool_risks (tc_risk d))), (''idempotency_required'', JBool (tc_idempotency d))]"

definition core_members :: "'a tool_core_scheme \<Rightarrow> json_object" where
  "core_members d =
     [(''namespace'', JStr (tc_namespace d)), (''name'', JStr (tc_name d)), (''description'', JStr (tc_description d)),
      (''http_method'', JStr (listed_name tool_methods (tc_method d))), (''endpoint'', JStr (tc_endpoint d)),
      (''timeout_ms'', tc_timeout d), (''upstream_auth'', auth_value (tc_auth d)),
      (''request_mapping'', JObj [(''parameter_locations'', JObj (tc_locations d))]),
      (''response_mapping'', JObj (option_member ''result_path'' JStr (tc_result_path d))),
      (''authorization_policy'', JObj (policy_members d)),
      (''credential_present'', JBool (tc_credential_present d))]"

definition given_member :: "string \<Rightarrow> json \<Rightarrow> json_object" where
  "given_member k v = (if v = JUndef then [] else [(k, v)])"

definition draft_members :: "tool_draft \<Rightarrow> json_object" where
  "draft_members d =
     core_members d @ [(''input_schema'', JObj (td_input_schema d)), (''output_schema'', JObj (td_output_schema d))]
     @ option_member ''request_example'' JObj (td_request_example d)
     @ given_member ''response_example'' (td_response_example d)"

section \<open>Reading a draft from any value\<close>

fun js_string :: "json \<Rightarrow> string" where
  "js_string JUndef = ''undefined''"
| "js_string (JStr s) = s"
| "js_string (JArr vs) = join '','' (map (\<lambda>v. if v = JUndef \<or> v = JNull then [] else js_string v) vs)"
| "js_string (JObj kvs) = ''[object Object]''"
| "js_string v = stringify v"

fun truthy :: "json \<Rightarrow> bool" where
  "truthy JUndef = False"
| "truthy JNull = False"
| "truthy (JBool b) = b"
| "truthy (JNum i) = (i \<noteq> 0)"
| "truthy (JStr s) = (s \<noteq> [])"
| "truthy _ = True"

fun is_number :: "json \<Rightarrow> bool" where
  "is_number (JNum i) = True"
| "is_number (JDec n w ds) = True"
| "is_number _ = False"

definition text_value :: "json \<Rightarrow> string \<Rightarrow> string" where
  "text_value v fallback = (case v of JStr s \<Rightarrow> s | _ \<Rightarrow> fallback)"

definition texts_in :: "json \<Rightarrow> string list" where
  "texts_in v = (case v of JArr vs \<Rightarrow> concat (map (\<lambda>v. case v of JStr s \<Rightarrow> [s] | _ \<Rightarrow> []) vs) | _ \<Rightarrow> [])"

definition parameter_places :: "string list" where
  "parameter_places = [''path'', ''query'', ''header'', ''body'']"

abbreviation some_text :: "json_object \<Rightarrow> string \<Rightarrow> string option" where
  "some_text kvs k \<equiv> present (Some (text_value (member kvs k) []))"

definition secret_method :: "json \<Rightarrow> client_secret_method option" where
  "secret_method v = (if v = JStr ''client_secret_post'' then Some SecretPost
     else if v = JStr ''client_secret_basic'' then Some SecretBasic else None)"

definition sanitize_auth :: "json_object \<Rightarrow> auth_type \<Rightarrow> upstream_auth" where
  "sanitize_auth auth fallback = \<lparr>ua_type = listed_value auth_types (member auth ''type'') fallback,
     ua_scheme = some_text auth ''scheme'', ua_header_name = some_text auth ''header_name'',
     ua_query_name = some_text auth ''query_name'', ua_prefix = some_text auth ''prefix'',
     ua_username = some_text auth ''username'', ua_client_id = some_text auth ''client_id'',
     ua_token_url = some_text auth ''token_url'',
     ua_token_endpoint_auth_method = secret_method (member auth ''token_endpoint_auth_method''),
     ua_scopes = (let scopes = texts_in (member auth ''scopes'') in if scopes = [] then None else Some scopes),
     ua_audience = some_text auth ''audience'', ua_resource = some_text auth ''resource''\<rparr>"

definition record_member :: "json_object \<Rightarrow> string \<Rightarrow> json_object \<Rightarrow> json_object" where
  "record_member kvs k fallback = nullish (object_value (member kvs k)) fallback"

text \<open>A location under the key \<^verbatim>\<open>__proto__\<close> is assigned to the prototype, so it is no member of the draft.\<close>

definition sanitize_draft :: "json \<Rightarrow> tool_draft \<Rightarrow> tool_draft" where
  "sanitize_draft v fallback =
     (let source = nullish (object_value v) [];
          auth = record_member source ''upstream_auth'' (auth_members (tc_auth fallback));
          request_mapping = record_member source ''request_mapping'' [(''parameter_locations'', JObj (tc_locations fallback))];
          locations = record_member request_mapping ''parameter_locations'' [];
          response_mapping = record_member source ''response_mapping'' (option_member ''result_path'' JStr (tc_result_path fallback));
          policy = record_member source ''authorization_policy'' (policy_members fallback);
          timeout = member source ''timeout_ms'';
          risk = listed_value tool_risks (member policy ''risk'') (tc_risk fallback)
      in \<lparr>tc_namespace = text_value (member source ''namespace'') (tc_namespace fallback),
          tc_name = text_value (member source ''name'') (tc_name fallback),
          tc_description = text_value (member source ''description'') (tc_description fallback),
          tc_method = listed_value tool_methods (member source ''http_method'') (tc_method fallback),
          tc_endpoint = text_value (member source ''endpoint'') (tc_endpoint fallback),
          tc_timeout = (if is_number timeout then timeout else tc_timeout fallback),
          tc_auth = sanitize_auth auth (ua_type (tc_auth fallback)),
          tc_locations = filter (\<lambda>(k, location). k \<noteq> ''__proto__'' \<and> js_string location \<in> set parameter_places) locations,
          tc_result_path = some_text response_mapping ''result_path'',
          tc_grants = dedup (texts_in (member policy ''required_grants'')),
          tc_confirmation = (truthy (member policy ''confirmation_required'') \<or> risk = CriticalRisk),
          tc_risk = risk,
          tc_idempotency = truthy (member policy ''idempotency_required''),
          tc_credential_present = (case member source ''credential_present'' of
            JBool b \<Rightarrow> b | _ \<Rightarrow> tc_credential_present fallback),
          td_input_schema = record_member source ''input_schema'' (td_input_schema fallback),
          td_output_schema = record_member source ''output_schema'' (td_output_schema fallback),
          td_request_example = object_value (member source ''request_example''),
          td_response_example = member source ''response_example''\<rparr>)"

definition tool_draft_from_tool :: "json_object option \<Rightarrow> tool_draft" where
  "tool_draft_from_tool tool = (case tool of
     None \<Rightarrow> default_tool_draft
   | Some t \<Rightarrow>
     (let policy = record_member t ''authorization_policy'' []
      in sanitize_draft (JObj
           (map (\<lambda>k. (k, member t k))
              [''namespace'', ''name'', ''description'', ''http_method'', ''endpoint'', ''timeout_ms'', ''input_schema'',
               ''output_schema'', ''upstream_auth'', ''request_mapping'', ''response_mapping'']
            @ [(''authorization_policy'', JObj (map (\<lambda>k. (k, member policy k))
                 [''required_grants'', ''confirmation_required'', ''risk'', ''idempotency_required'']))]
            @ map (\<lambda>k. (k, member t k)) [''request_example'', ''response_example'']
            @ [(''credential_present'', JBool (truthy (member t ''credential_present'')))])) default_tool_draft))"

section \<open>Forms\<close>

definition json_text :: "json \<Rightarrow> string" where
  "json_text v = (if v = JUndef then [] else stringify_indented [] v)"

definition draft_to_form :: "tool_draft \<Rightarrow> tool_form" where
  "draft_to_form d = tool_core.extend (tool_core.truncate d)
     (tool_form.fields (json_text (JObj (td_input_schema d))) (json_text (JObj (td_output_schema d)))
       (case td_request_example d of None \<Rightarrow> [] | Some e \<Rightarrow> json_text (JObj e))
       (json_text (td_response_example d)))"

definition form_members :: "tool_form \<Rightarrow> json_object" where
  "form_members f =
     core_members f
     @ [(''input_schema_text'', JStr (tf_input_schema_text f)), (''output_schema_text'', JStr (tf_output_schema_text f)),
        (''request_example_text'', JStr (tf_request_example_text f)),
        (''response_example_text'', JStr (tf_response_example_text f))]"

definition parse_object :: "(string \<Rightarrow> json option) \<Rightarrow> string \<Rightarrow> json_object option" where
  "parse_object parse text = Option.bind (parse text) object_value"

definition draft_for_assistance :: "(string \<Rightarrow> json option) \<Rightarrow> tool_form \<Rightarrow> tool_draft" where
  "draft_for_assistance parse f =
     (let request_example =
            (if trim (tf_request_example_text f) = [] then None else parse_object parse (tf_request_example_text f));
          response_example =
            (if trim (tf_response_example_text f) = [] then JUndef else nullish (parse (tf_response_example_text f)) JUndef)
      in sanitize_draft (JObj
           (form_members f
            @ [(''input_schema'', JObj (nullish (parse_object parse (tf_input_schema_text f)) default_schema)),
               (''output_schema'', JObj (nullish (parse_object parse (tf_output_schema_text f)) default_schema))]
            @ option_member ''request_example'' JObj request_example
            @ given_member ''response_example'' response_example)) default_tool_draft)"

section \<open>Normal drafts\<close>

text \<open>The drafts that reading leaves as they are.\<close>

definition filled :: "string option \<Rightarrow> bool" where
  "filled v \<longleftrightarrow> v \<noteq> Some []"

definition normal_auth :: "upstream_auth \<Rightarrow> bool" where
  "normal_auth a \<longleftrightarrow> list_all filled [ua_scheme a, ua_header_name a, ua_query_name a, ua_prefix a, ua_username a,
     ua_client_id a, ua_token_url a, ua_audience a, ua_resource a] \<and> ua_scopes a \<noteq> Some []"

definition normal_core :: "'a tool_core_scheme \<Rightarrow> bool" where
  "normal_core d \<longleftrightarrow> is_number (tc_timeout d) \<and> normal_auth (tc_auth d)
     \<and> list_all (\<lambda>(k, location). k \<noteq> ''__proto__'' \<and> js_string location \<in> set parameter_places) (tc_locations d)
     \<and> filled (tc_result_path d) \<and> distinct (tc_grants d) \<and> (tc_risk d = CriticalRisk \<longrightarrow> tc_confirmation d)"

lemma present_filled [simp]: "filled (present v)"
  by (auto simp: present_def filled_def)

lemma present_eq: "filled v \<Longrightarrow> present v = v"
  by (simp add: present_def filled_def)

lemma sanitize_auth_normal: "normal_auth (sanitize_auth auth fallback)"
  by (simp add: normal_auth_def sanitize_auth_def Let_def)

lemma sanitize_normal: "is_number (tc_timeout fallback) \<Longrightarrow> normal_core (sanitize_draft v fallback)"
  unfolding normal_core_def sanitize_draft_def Let_def
  by (simp add: sanitize_auth_normal list_all_iff)

lemma default_number: "is_number (tc_timeout default_tool_draft)"
  by (simp add: default_tool_draft_def)

lemma texts_in_texts [simp]: "texts_in (JArr (map JStr xs)) = xs"
  by (induction xs) (simp_all add: texts_in_def)

lemma listed_method: "listed_value tool_methods (JStr (listed_name tool_methods m)) fallback = m"
  by (cases m; hypsubst; code_simp)

lemma listed_risk: "listed_value tool_risks (JStr (listed_name tool_risks r)) fallback = r"
  by (cases r; hypsubst; code_simp)

lemma listed_auth_type: "listed_value auth_types (JStr (auth_type_name a)) fallback = a"
  by (cases a; hypsubst; code_simp)

lemma some_text_option: "filled v \<Longrightarrow> present (Some (text_value (nullish (map_option JStr v) JUndef) [])) = v"
  by (cases v) (auto simp: present_def filled_def text_value_def)

lemma secret_method_option: "secret_method (nullish (map_option (\<lambda>m. JStr (secret_method_name m)) v) JUndef) = v"
proof (cases v)
  case (Some m)
  then show ?thesis by (cases m) (simp_all add: secret_method_def secret_method_name_def)
qed (simp add: secret_method_def)

lemma texts_in_option: "texts_in (nullish (map_option (\<lambda>xs. JArr (map JStr xs)) v) JUndef) = nullish v []"
  by (cases v) (simp_all add: texts_in_def [of JUndef])

lemma scopes_option: "v \<noteq> Some [] \<Longrightarrow> (if nullish v [] = [] then None else Some (nullish v [])) = v"
  by (cases v) auto

lemma sanitize_auth_members: "normal_auth a \<Longrightarrow> sanitize_auth (auth_members a) fallback = a"
  by (rule upstream_auth.equality)
    (auto simp: sanitize_auth_def normal_auth_def map_of_auth some_text_option secret_method_option texts_in_option
      scopes_option listed_auth_type Let_def simp del: not_None_eq split del: if_split)

lemma core_lookup:
  "map_of (core_members d @ xs) ''namespace'' = Some (JStr (tc_namespace d))"
  "map_of (core_members d @ xs) ''name'' = Some (JStr (tc_name d))"
  "map_of (core_members d @ xs) ''description'' = Some (JStr (tc_description d))"
  "map_of (core_members d @ xs) ''http_method'' = Some (JStr (listed_name tool_methods (tc_method d)))"
  "map_of (core_members d @ xs) ''endpoint'' = Some (JStr (tc_endpoint d))"
  "map_of (core_members d @ xs) ''timeout_ms'' = Some (tc_timeout d)"
  "map_of (core_members d @ xs) ''upstream_auth'' = Some (auth_value (tc_auth d))"
  "map_of (core_members d @ xs) ''request_mapping'' = Some (JObj [(''parameter_locations'', JObj (tc_locations d))])"
  "map_of (core_members d @ xs) ''response_mapping'' = Some (JObj (option_member ''result_path'' JStr (tc_result_path d)))"
  "map_of (core_members d @ xs) ''authorization_policy'' = Some (JObj (policy_members d))"
  "map_of (core_members d @ xs) ''credential_present'' = Some (JBool (tc_credential_present d))"
  "map_of (core_members d @ xs) ''input_schema'' = map_of xs ''input_schema''"
  "map_of (core_members d @ xs) ''output_schema'' = map_of xs ''output_schema''"
  "map_of (core_members d @ xs) ''request_example'' = map_of xs ''request_example''"
  "map_of (core_members d @ xs) ''response_example'' = map_of xs ''response_example''"
  by (simp_all add: core_members_def)

lemma policy_lookup:
  "map_of (policy_members d) ''required_grants'' = Some (JArr (map JStr (tc_grants d)))"
  "map_of (policy_members d) ''confirmation_required'' = Some (JBool (tc_confirmation d))"
  "map_of (policy_members d) ''risk'' = Some (JStr (listed_name tool_risks (tc_risk d)))"
  "map_of (policy_members d) ''idempotency_required'' = Some (JBool (tc_idempotency d))"
  by (simp_all add: policy_members_def)

lemma sanitize_of_core:
  assumes "normal_core c"
  shows "sanitize_draft (JObj (core_members c @ xs)) fallback =
     tool_core.extend (tool_core.truncate c)
       (tool_draft.fields (record_member xs ''input_schema'' (td_input_schema fallback))
          (record_member xs ''output_schema'' (td_output_schema fallback))
          (object_value (member xs ''request_example'')) (member xs ''response_example''))"
proof -
  have "filter (\<lambda>(k, location). k \<noteq> ''__proto__'' \<and> js_string location \<in> set parameter_places) (tc_locations c) = tc_locations c"
    using assms by (auto simp: normal_core_def filter_id_conv list_all_iff)
  moreover have "sanitize_auth (auth_members (tc_auth c)) t = tc_auth c" for t
    using assms by (simp add: normal_core_def sanitize_auth_members)
  moreover have "present (Some (text_value (nullish (map_option JStr (tc_result_path c)) JUndef) [])) = tc_result_path c"
    using assms by (simp add: normal_core_def some_text_option)
  moreover have "dedup (tc_grants c) = tc_grants c" "is_number (tc_timeout c)"
    "(tc_confirmation c \<or> tc_risk c = CriticalRisk) = tc_confirmation c"
    using assms by (auto simp: normal_core_def dedup_distinct)
  ultimately show ?thesis
    by (simp add: sanitize_draft_def Let_def record_member_def core_lookup policy_lookup auth_value_def text_value_def [of "JStr _"]
        map_of_optional listed_method listed_risk tool_core.defs tool_draft.defs del: map_of_append)
qed

lemma extend_draft: "tool_core.extend (tool_core.truncate d)
     (tool_draft.fields (td_input_schema d) (td_output_schema d) (td_request_example d) (td_response_example d)) = d"
  by (cases d) (simp add: tool_core.defs tool_draft.defs)

lemma given_lookup: "nullish (map_of (given_member k v) k) JUndef = v"
  by (simp add: given_member_def)

lemma example_lookup: "object_value (nullish (map_option JObj v) JUndef) = v"
  by (cases v) simp_all

definition draft_tail :: "json_object \<Rightarrow> json_object \<Rightarrow> json_object option \<Rightarrow> json \<Rightarrow> json_object" where
  "draft_tail i out e v = [(''input_schema'', JObj i), (''output_schema'', JObj out)] @ option_member ''request_example'' JObj e
     @ given_member ''response_example'' v"

lemma draft_tail_lookup:
  "record_member (draft_tail i out e v) ''input_schema'' fallback = i"
  "record_member (draft_tail i out e v) ''output_schema'' fallback = out"
  "object_value (member (draft_tail i out e v) ''request_example'') = e"
  "member (draft_tail i out e v) ''response_example'' = v"
  unfolding draft_tail_def record_member_def by (cases e; cases "v = JUndef"; simp add: option_member_def given_member_def)+

lemma draft_members_tail:
  "draft_members d = core_members d
     @ draft_tail (td_input_schema d) (td_output_schema d) (td_request_example d) (td_response_example d)"
  by (simp only: draft_members_def draft_tail_def)

text \<open>
  Property C34. Whatever value the tool builder is given, what it reads is a normal draft, with filled texts, known
  places under keys that are members, distinct grants and a confirmation for every critical tool, and reading that draft again changes nothing.
\<close>

theorem sanitized_draft_normal:
  "normal_core (sanitize_draft v default_tool_draft) \<and>
   sanitize_draft (JObj (draft_members (sanitize_draft v default_tool_draft))) fallback = sanitize_draft v default_tool_draft"
proof -
  have "normal_core (sanitize_draft v default_tool_draft)"
    using sanitize_normal default_number by blast
  then show ?thesis
    by (simp add: draft_members_tail sanitize_of_core draft_tail_lookup extend_draft)
qed

section \<open>A form and back\<close>

lemma not_blank: "s \<noteq> [] \<Longrightarrow> \<not> is_ws (hd s) \<Longrightarrow> trim s \<noteq> []"
proof -
  assume "s \<noteq> []" "\<not> is_ws (hd s)"
  then have "filter (\<lambda>c. \<not> is_ws c) s \<noteq> []" by (cases s) auto
  then show ?thesis by (metis filter.simps(1) filter_trim)
qed

lemma number_head_not_ws: "list_all number_char s \<Longrightarrow> s \<noteq> [] \<Longrightarrow> \<not> is_ws (hd s)"
  by (cases s) (auto simp: number_char_def is_digit_def char_in_def is_ws_def ws_chars_def)

lemma marks_not_ws: "\<not> is_ws CHR 0x22" "\<not> is_ws CHR ''[''" "\<not> is_ws CHR ''{''" "\<not> is_ws CHR ''n''" "\<not> is_ws CHR ''t''"
  "\<not> is_ws CHR ''f''"
  by code_simp+

lemma json_text_head: "v \<noteq> JUndef \<Longrightarrow> json_text v \<noteq> [] \<and> \<not> is_ws (hd (json_text v))"
proof (cases v)
  case (JNum i)
  then show ?thesis using number_head_not_ws [OF int_str_chars [of i]] by (simp add: json_text_def)
next
  case (JDec n w ds)
  then show ?thesis using number_head_not_ws [OF dec_str_chars [of n w ds]] by (simp add: json_text_def)
qed (simp_all add: json_text_def quote_def marks_not_ws)

lemma json_text_not_blank: "v \<noteq> JUndef \<Longrightarrow> trim (json_text v) \<noteq> []"
  using json_text_head not_blank by blast

text \<open>The parser reads a value back from the indented text that \<^verbatim>\<open>JSON.stringify\<close> gives for it.\<close>

definition reads_back :: "(string \<Rightarrow> json option) \<Rightarrow> json \<Rightarrow> bool" where
  "reads_back parse v \<longleftrightarrow> parse (json_text v) = Some v"

lemma form_core: "core_members (draft_to_form d) = core_members d"
  "normal_core (draft_to_form d) = normal_core d"
  "tool_core.extend (tool_core.truncate (draft_to_form d)) m = tool_core.extend (tool_core.truncate d) m"
  by (simp_all add: draft_to_form_def tool_core.defs tool_form.defs core_members_def normal_core_def policy_members_def)

lemma form_texts:
  "tf_input_schema_text (draft_to_form d) = json_text (JObj (td_input_schema d))"
  "tf_output_schema_text (draft_to_form d) = json_text (JObj (td_output_schema d))"
  "tf_request_example_text (draft_to_form d) = (case td_request_example d of None \<Rightarrow> [] | Some e \<Rightarrow> json_text (JObj e))"
  "tf_response_example_text (draft_to_form d) = json_text (td_response_example d)"
  by (simp_all add: draft_to_form_def tool_core.defs tool_form.defs)

text \<open>
  Property C35. A normal draft that is shown as a form and read again for assistance is the same draft, as long as the
  parser reads back the JSON texts of its schemas and examples.
\<close>

theorem assistance_form_roundtrip:
  assumes "normal_core d" "reads_back parse (JObj (td_input_schema d))" "reads_back parse (JObj (td_output_schema d))"
    "case td_request_example d of None \<Rightarrow> True | Some e \<Rightarrow> reads_back parse (JObj e)"
    "td_response_example d = JUndef \<or> reads_back parse (td_response_example d)"
  shows "draft_for_assistance parse (draft_to_form d) = d"
proof -
  let ?f = "draft_to_form d"
  have texts: "parse_object parse (tf_input_schema_text ?f) = Some (td_input_schema d)"
    "parse_object parse (tf_output_schema_text ?f) = Some (td_output_schema d)"
    using assms(2,3) by (simp_all add: parse_object_def form_texts reads_back_def)
  have request: "(if trim (tf_request_example_text ?f) = [] then None else parse_object parse (tf_request_example_text ?f))
      = td_request_example d"
    using assms(4) by (auto simp: form_texts parse_object_def reads_back_def json_text_not_blank split: option.splits)
  have response: "(if trim (tf_response_example_text ?f) = [] then JUndef
      else nullish (parse (tf_response_example_text ?f)) JUndef) = td_response_example d"
    using assms(5) by (cases "td_response_example d = JUndef")
      (auto simp: form_texts reads_back_def json_text_def [of JUndef] dest: json_text_not_blank)
  define xs where "xs = [(''input_schema_text'', JStr (tf_input_schema_text ?f)), (''output_schema_text'', JStr (tf_output_schema_text ?f)),
        (''request_example_text'', JStr (tf_request_example_text ?f)),
        (''response_example_text'', JStr (tf_response_example_text ?f))]"
  have skip: "map_of (xs @ ys) k = map_of ys k"
    if "k \<in> set [''input_schema'', ''output_schema'', ''request_example'', ''response_example'']" for k ys
    using that by (auto simp: xs_def)
  have "draft_for_assistance parse ?f = sanitize_draft (JObj (core_members d
      @ (xs @ draft_tail (td_input_schema d) (td_output_schema d) (td_request_example d) (td_response_example d)))) default_tool_draft"
    unfolding draft_for_assistance_def Let_def texts request response nullish.simps draft_tail_def form_members_def xs_def form_core
    by (simp only: append_assoc)
  also have "\<dots> = d"
    using sanitize_of_core [OF assms(1), of "xs @ draft_tail (td_input_schema d) (td_output_schema d) (td_request_example d) (td_response_example d)"]
    by (simp add: record_member_def skip del: map_of_append)
      (simp add: record_member_def [symmetric] draft_tail_lookup extend_draft)
  finally show ?thesis .
qed

definition sample_draft :: tool_draft where
  "sample_draft = default_tool_draft\<lparr>tc_namespace := ''voices'', tc_risk := CriticalRisk, tc_confirmation := True,
     td_response_example := JStr ''ok''\<rparr>"

definition sample_reader :: "string \<Rightarrow> json option" where
  "sample_reader text = (if text = json_text (JObj default_schema) then Some (JObj default_schema)
     else if text = json_text (JStr ''ok'') then Some (JStr ''ok'') else None)"

theorem assistance_form_roundtrip_witness: "draft_for_assistance sample_reader (draft_to_form sample_draft) = sample_draft"
proof (rule assistance_form_roundtrip)
  have sample: "td_input_schema sample_draft = default_schema" "td_output_schema sample_draft = default_schema"
    "td_request_example sample_draft = None" "td_response_example sample_draft = JStr ''ok''"
    by (simp_all add: sample_draft_def default_tool_draft_def)
  show "normal_core sample_draft" by code_simp
  show "reads_back sample_reader (JObj (td_input_schema sample_draft))" "reads_back sample_reader (JObj (td_output_schema sample_draft))"
    "case td_request_example sample_draft of None \<Rightarrow> True | Some e \<Rightarrow> reads_back sample_reader (JObj e)"
    "td_response_example sample_draft = JUndef \<or> reads_back sample_reader (td_response_example sample_draft)"
    by (simp_all add: sample reads_back_def sample_reader_def json_text_def quote_def default_schema_def)
qed

section \<open>Following up a proposal\<close>

text \<open>
  The fields of a draft that a proposal may change (\<^verbatim>\<open>TOOL_BUILDER_FOLLOW_UP_FIELDS\<close>, which lists the same fields
  as \<^verbatim>\<open>REVIEW_FIELDS\<close>), what they hold and how one is copied.
\<close>

datatype tool_field =
    NamespaceField | NameField | DescriptionField | MethodField | EndpointField | TimeoutField | InputSchemaField
  | OutputSchemaField | AuthField | RequestMappingField | ResponseMappingField | PolicyField | RequestExampleField
  | ResponseExampleField

definition tool_fields :: "tool_field list" where
  "tool_fields = [NamespaceField, NameField, DescriptionField, MethodField, EndpointField, TimeoutField, InputSchemaField,
     OutputSchemaField, AuthField, RequestMappingField, ResponseMappingField, PolicyField, RequestExampleField,
     ResponseExampleField]"

fun copy_field :: "tool_draft \<Rightarrow> tool_field \<Rightarrow> tool_draft \<Rightarrow> tool_draft" where
  "copy_field c NamespaceField d = d\<lparr>tc_namespace := tc_namespace c\<rparr>"
| "copy_field c NameField d = d\<lparr>tc_name := tc_name c\<rparr>"
| "copy_field c DescriptionField d = d\<lparr>tc_description := tc_description c\<rparr>"
| "copy_field c MethodField d = d\<lparr>tc_method := tc_method c\<rparr>"
| "copy_field c EndpointField d = d\<lparr>tc_endpoint := tc_endpoint c\<rparr>"
| "copy_field c TimeoutField d = d\<lparr>tc_timeout := tc_timeout c\<rparr>"
| "copy_field c InputSchemaField d = d\<lparr>td_input_schema := td_input_schema c\<rparr>"
| "copy_field c OutputSchemaField d = d\<lparr>td_output_schema := td_output_schema c\<rparr>"
| "copy_field c AuthField d = d\<lparr>tc_auth := tc_auth c\<rparr>"
| "copy_field c RequestMappingField d = d\<lparr>tc_locations := tc_locations c\<rparr>"
| "copy_field c ResponseMappingField d = d\<lparr>tc_result_path := tc_result_path c\<rparr>"
| "copy_field c PolicyField d = d\<lparr>tc_grants := tc_grants c, tc_confirmation := tc_confirmation c, tc_risk := tc_risk c,
     tc_idempotency := tc_idempotency c\<rparr>"
| "copy_field c RequestExampleField d = d\<lparr>td_request_example := td_request_example c\<rparr>"
| "copy_field c ResponseExampleField d = d\<lparr>td_response_example := td_response_example c\<rparr>"

definition tool_builder_follow_up_draft ::
  "tool_draft \<Rightarrow> tool_draft option \<Rightarrow> (tool_field \<Rightarrow> bool option) \<Rightarrow> bool \<Rightarrow> bool \<Rightarrow> tool_draft" where
  "tool_builder_follow_up_draft current pending accepted stale identity_locked =
     (case pending of
        None \<Rightarrow> current
      | Some p \<Rightarrow> if stale then current else
          fold (\<lambda>f d. if accepted f = Some False \<or> identity_locked \<and> f \<in> {NamespaceField, NameField}
                  then copy_field current f d else d)
            tool_fields (p\<lparr>tc_credential_present := tc_credential_present current\<rparr>))"

end
