(* ===== verification/ToolContext.thy ===== *)
theory ToolContext
  imports ToolDraft
begin

text \<open>
  The runtime connection behind a tool of an API (\<^verbatim>\<open>app/lib/tool-builder-runtime-context.ts\<close>): the saved revision that
  is previewed, the lock it puts on a draft, relative paths and the endpoint they compose. The URL parser is an
  argument.
\<close>

section \<open>Connections\<close>

record runtime_revision =
  rr_id :: string
  rr_environment_id :: string
  rr_base_url :: string
  rr_authentication_type :: auth_type
  rr_authorization_id :: "string option"
  rr_auth_config :: "json_object option"
  rr_current :: bool

record runtime_connection =
  rc_id :: string
  rc_current_revisions :: "runtime_revision list option"

record credential_set =
  cs_id :: string
  cs_header_name :: "string option"
  cs_credential_present :: bool

record runtime_environment =
  re_id :: string
  re_is_production :: bool

record runtime_setup =
  rs_integration_id :: string
  rs_environments :: "runtime_environment list"
  rs_authorizations :: "credential_set list"

record runtime_lock =
  rl_owner_integration_id :: string
  rl_connection_id :: string
  rl_base_url :: string
  rl_upstream_auth :: upstream_auth
  rl_credential_present :: bool

definition runtime_connection_preview :: "runtime_setup \<Rightarrow> runtime_connection option \<Rightarrow> runtime_revision option" where
  "runtime_connection_preview setup connection = (case connection of
     None \<Rightarrow> None
   | Some c \<Rightarrow>
     (let production = map re_id (filter re_is_production (rs_environments setup));
          revisions = nullish (rc_current_revisions c) []
      in case find (\<lambda>r. rr_current r \<and> rr_environment_id r \<in> set production) revisions of
           Some r \<Rightarrow> Some r
         | None \<Rightarrow> find rr_current revisions))"

text \<open>The configuration of a revision as authentication: empty texts are left out, scopes that are no list too.\<close>

definition locked_auth :: "runtime_revision \<Rightarrow> credential_set option \<Rightarrow> upstream_auth" where
  "locked_auth r credential =
     (let config = nullish (rr_auth_config r) []
      in \<lparr>ua_type = rr_authentication_type r,
          ua_scheme = some_text config ''scheme'',
          ua_header_name = (case some_text config ''header_name'' of
            Some h \<Rightarrow> Some h | None \<Rightarrow> present (Option.bind credential cs_header_name)),
          ua_query_name = some_text config ''query_name'', ua_prefix = some_text config ''prefix'',
          ua_username = some_text config ''username'', ua_client_id = some_text config ''client_id'',
          ua_token_url = some_text config ''token_url'',
          ua_token_endpoint_auth_method = secret_method (member config ''token_endpoint_auth_method''),
          ua_scopes = (case member config ''scopes'' of JArr vs \<Rightarrow> Some (texts_in (JArr vs)) | _ \<Rightarrow> None),
          ua_audience = some_text config ''audience'', ua_resource = some_text config ''resource''\<rparr>)"

definition runtime_lock_for_connection :: "runtime_setup \<Rightarrow> runtime_connection option \<Rightarrow> runtime_lock option" where
  "runtime_lock_for_connection setup connection =
     (case (connection, runtime_connection_preview setup connection) of
        (Some c, Some r) \<Rightarrow>
          (let credential = Option.bind (present (rr_authorization_id r))
                 (\<lambda>i. find (\<lambda>s. cs_id s = i) (rs_authorizations setup))
           in Some \<lparr>rl_owner_integration_id = rs_integration_id setup, rl_connection_id = rc_id c,
                rl_base_url = rr_base_url r, rl_upstream_auth = locked_auth r credential,
                rl_credential_present = (case credential of None \<Rightarrow> False | Some s \<Rightarrow> cs_credential_present s)\<rparr>)
      | _ \<Rightarrow> None)"

section \<open>Paths\<close>

definition url_search :: "url \<Rightarrow> string" where
  "url_search u = (case u_query u of Some q \<Rightarrow> if q = [] then [] else ''?'' @ q | None \<Rightarrow> [])"

definition url_hash :: "url \<Rightarrow> string" where
  "url_hash u = (case u_fragment u of Some f \<Rightarrow> if f = [] then [] else ''#'' @ f | None \<Rightarrow> [])"

definition api_tool_http_path :: "url_parser \<Rightarrow> string \<Rightarrow> string \<Rightarrow> string" where
  "api_tool_http_path parse v fallback =
     (let candidate = trim v
      in if candidate = [] then fallback
         else case parse None candidate of
             Some u \<Rightarrow> or_else (u_path u @ url_search u @ url_hash u) fallback
           | None \<Rightarrow> candidate)"

datatype path_problem = EmptyPath | HostInPath | QueryInPath | FragmentInPath | UnsupportedPath

definition api_tool_http_path_problem :: "string \<Rightarrow> path_problem option" where
  "api_tool_http_path_problem v =
     (let candidate = trim v
      in if candidate = [] then Some EmptyPath
         else if \<not> starts_with candidate ''/'' \<or> starts_with candidate ''//'' then Some HostInPath
         else if CHR ''?'' \<in> set candidate then Some QueryInPath
         else if CHR ''#'' \<in> set candidate then Some FragmentInPath
         else if 2048 < length candidate \<or> list_ex (\<lambda>c. c = CHR 0x0D \<or> c = newline \<or> c = nul) candidate then Some UnsupportedPath
         else None)"

definition compose_api_tool_preview_endpoint :: "url_parser \<Rightarrow> string \<Rightarrow> string \<Rightarrow> string" where
  "compose_api_tool_preview_endpoint parse base http_path = (case parse None base of
     None \<Rightarrow> []
   | Some u \<Rightarrow>
     (case parse None (url_origin parse u @ (if starts_with http_path ''/'' then http_path else ''/'' @ http_path)) of
        None \<Rightarrow> []
      | Some v \<Rightarrow> href v))"

definition lock_api_tool_builder_draft :: "url_parser \<Rightarrow> tool_draft \<Rightarrow> runtime_lock \<Rightarrow> string \<Rightarrow> tool_draft" where
  "lock_api_tool_builder_draft parse d lock http_path =
     d\<lparr>tc_endpoint := compose_api_tool_preview_endpoint parse (rl_base_url lock) http_path,
       tc_auth := rl_upstream_auth lock, tc_credential_present := rl_credential_present lock\<rparr>"

record persistence_context =
  pc_scope :: string
  pc_owner_integration_id :: string
  pc_connection_id :: string
  pc_http_path :: string

definition api_tool_persistence_context :: "runtime_lock \<Rightarrow> string \<Rightarrow> persistence_context" where
  "api_tool_persistence_context lock http_path = \<lparr>pc_scope = ''api'', pc_owner_integration_id = rl_owner_integration_id lock,
     pc_connection_id = rl_connection_id lock, pc_http_path = trim http_path\<rparr>"

section \<open>What they keep\<close>

lemma find_Some_props: "find P xs = Some x \<Longrightarrow> x \<in> set xs \<and> P x"
  by (auto simp: find_Some_iff)

lemma preview_current:
  "runtime_connection_preview setup connection = Some r \<Longrightarrow> rr_current r \<and>
     (\<exists>c. connection = Some c \<and> r \<in> set (nullish (rc_current_revisions c) []))"
  by (auto simp: runtime_connection_preview_def Let_def dest!: find_Some_props split: option.splits)

lemma preview_prefers_production:
  assumes "c = Some k" "r \<in> set (nullish (rc_current_revisions k) [])" "rr_current r"
    "rr_environment_id r \<in> re_id ` {e \<in> set (rs_environments setup). re_is_production e}"
  shows "\<exists>q. runtime_connection_preview setup c = Some q \<and>
     rr_environment_id q \<in> re_id ` {e \<in> set (rs_environments setup). re_is_production e}"
proof -
  let ?P = "\<lambda>r. rr_current r \<and> rr_environment_id r \<in> set (map re_id (filter re_is_production (rs_environments setup)))"
  have "find ?P (nullish (rc_current_revisions k) []) \<noteq> None"
    using assms(2,3,4) by (auto simp: find_None_iff)
  then obtain q where q: "find ?P (nullish (rc_current_revisions k) []) = Some q" by blast
  then have "?P q" using find_Some_props by fast
  then show ?thesis
    using q assms(1) by (auto simp: runtime_connection_preview_def Let_def)
qed

lemma persisted_path_relative:
  assumes "api_tool_http_path_problem v = None"
  shows "starts_with (pc_http_path (api_tool_persistence_context lock v)) ''/''"
    "\<not> starts_with (pc_http_path (api_tool_persistence_context lock v)) ''//''"
    "set (pc_http_path (api_tool_persistence_context lock v)) \<inter> {CHR ''?'', CHR ''#'', CHR 0x0D, newline, nul} = {}"
    "length (pc_http_path (api_tool_persistence_context lock v)) \<le> 2048"
  using assms by (auto simp: api_tool_http_path_problem_def api_tool_persistence_context_def Let_def list_ex_iff split: if_splits)

lemma starts_with_head: "starts_with s [c] \<longleftrightarrow> (s \<noteq> [] \<and> hd s = c)"
  by (cases s) (auto simp: starts_with_iff)

text \<open>
  A path with a space before its slash is accepted, saved without the space and previewed with it: the preview
  shows another path than the one that is saved.
\<close>

lemma preview_path_not_trimmed:
  "api_tool_http_path_problem '' /v1'' = None"
  "pc_http_path (api_tool_persistence_context lock '' /v1'') = ''/v1''"
  "parse None base = Some u \<Longrightarrow> compose_api_tool_preview_endpoint parse base '' /v1''
     = (case parse None (url_origin parse u @ ''/ /v1'') of None \<Rightarrow> [] | Some v \<Rightarrow> href v)"
proof -
  show "api_tool_http_path_problem '' /v1'' = None" by code_simp
  have "trim '' /v1'' = ''/v1''" by code_simp
  then show "pc_http_path (api_tool_persistence_context lock '' /v1'') = ''/v1''"
    by (simp add: api_tool_persistence_context_def)
  show "compose_api_tool_preview_endpoint parse base '' /v1''
     = (case parse None (url_origin parse u @ ''/ /v1'') of None \<Rightarrow> [] | Some v \<Rightarrow> href v)" if "parse None base = Some u"
    using that by (simp add: compose_api_tool_preview_endpoint_def starts_with_head)
qed

end
