(* ===== verification/ToolReview.thy ===== *)
theory ToolReview
  imports ToolContext
begin

text \<open>
  Reviewing and validating drafts in the tool builder (\<^verbatim>\<open>app/components/tool-builder/model.ts\<close>): the fields in which a
  proposal differs from a draft, and the validation of a form before it is sent.
\<close>

section \<open>Review changes\<close>

fun draft_field :: "tool_draft \<Rightarrow> tool_field \<Rightarrow> json" where
  "draft_field d NamespaceField = JStr (tc_namespace d)"
| "draft_field d NameField = JStr (tc_name d)"
| "draft_field d DescriptionField = JStr (tc_description d)"
| "draft_field d MethodField = JStr (listed_name tool_methods (tc_method d))"
| "draft_field d EndpointField = JStr (tc_endpoint d)"
| "draft_field d TimeoutField = tc_timeout d"
| "draft_field d InputSchemaField = JObj (td_input_schema d)"
| "draft_field d OutputSchemaField = JObj (td_output_schema d)"
| "draft_field d AuthField = auth_value (tc_auth d)"
| "draft_field d RequestMappingField = JObj [(''parameter_locations'', JObj (tc_locations d))]"
| "draft_field d ResponseMappingField = JObj (option_member ''result_path'' JStr (tc_result_path d))"
| "draft_field d PolicyField = JObj (policy_members d)"
| "draft_field d RequestExampleField = (case td_request_example d of None \<Rightarrow> JUndef | Some e \<Rightarrow> JObj e)"
| "draft_field d ResponseExampleField = td_response_example d"

definition tool_field_name :: "tool_field \<Rightarrow> string" where
  "tool_field_name f = (case f of
     NamespaceField \<Rightarrow> ''namespace'' | NameField \<Rightarrow> ''name'' | DescriptionField \<Rightarrow> ''description''
   | MethodField \<Rightarrow> ''http_method'' | EndpointField \<Rightarrow> ''endpoint'' | TimeoutField \<Rightarrow> ''timeout_ms''
   | InputSchemaField \<Rightarrow> ''input_schema'' | OutputSchemaField \<Rightarrow> ''output_schema'' | AuthField \<Rightarrow> ''upstream_auth''
   | RequestMappingField \<Rightarrow> ''request_mapping'' | ResponseMappingField \<Rightarrow> ''response_mapping''
   | PolicyField \<Rightarrow> ''authorization_policy'' | RequestExampleField \<Rightarrow> ''request_example''
   | ResponseExampleField \<Rightarrow> ''response_example'')"

definition security_sensitive_fields :: "tool_field list" where
  "security_sensitive_fields = [MethodField, EndpointField, AuthField, RequestMappingField, PolicyField]"

record server_change =
  sc_field :: string
  sc_summary :: "string option"
  sc_rationale :: "string option"
  sc_security_sensitive :: "bool option"

record review_change =
  vc_field :: tool_field
  vc_before :: json
  vc_after :: json
  vc_rationale :: "string option"
  vc_security_sensitive :: bool

definition shown_value :: "url_parser \<Rightarrow> bool \<Rightarrow> tool_draft \<Rightarrow> tool_field \<Rightarrow> json" where
  "shown_value parse api_scoped d f =
     (if api_scoped \<and> f = EndpointField then JStr (api_tool_http_path parse (tc_endpoint d) ''/'') else draft_field d f)"

definition review_changes ::
  "url_parser \<Rightarrow> tool_draft \<Rightarrow> tool_draft \<Rightarrow> server_change list \<Rightarrow> bool \<Rightarrow> bool \<Rightarrow> review_change list" where
  "review_changes parse base proposed server_changes editing api_scoped =
     concat (map (\<lambda>f.
       let before_value = shown_value parse api_scoped base f; after_value = shown_value parse api_scoped proposed f
       in if editing \<and> (f = NamespaceField \<or> f = NameField) then []
          else if stable_value before_value = stable_value after_value then []
          else let server = find (\<lambda>c. sc_field c = tool_field_name f \<or> starts_with (sc_field c) (tool_field_name f @ ''.''))
                     server_changes
            in [\<lparr>vc_field = f, vc_before = before_value, vc_after = after_value,
                 vc_rationale = (case server of None \<Rightarrow> None
                   | Some c \<Rightarrow> (case sc_rationale c of Some r \<Rightarrow> Some r | None \<Rightarrow> sc_summary c)),
                 vc_security_sensitive = nullish (Option.bind server sc_security_sensitive)
                   (f \<in> set security_sensitive_fields)\<rparr>]) tool_fields)"

text \<open>The JSON values of a draft are data: distinct keys and no \<^verbatim>\<open>undefined\<close> inside.\<close>

definition json_draft :: "tool_draft \<Rightarrow> bool" where
  "json_draft d \<longleftrightarrow> list_all (\<lambda>v. plain_data v \<and> defined v) [tc_timeout d, JObj (td_input_schema d), JObj (td_output_schema d), JObj (tc_locations d)]
     \<and> (case td_request_example d of None \<Rightarrow> True | Some e \<Rightarrow> plain_data (JObj e) \<and> defined (JObj e))
     \<and> (td_response_example d = JUndef \<or> plain_data (td_response_example d) \<and> defined (td_response_example d))"

lemma map_JStr_data: "list_all plain_data (map JStr xs)" "list_all defined (map JStr xs)"
  by (simp_all add: list_all_iff)

lemma shown_value_data:
  "json_draft d \<Longrightarrow> shown_value parse api_scoped d f = JUndef
     \<or> plain_data (shown_value parse api_scoped d f) \<and> defined (shown_value parse api_scoped d f)"
  by (cases f)
    (auto simp: shown_value_def json_draft_def auth_data policy_members_def map_JStr_data option_member_def
      split: option.splits)

lemma stable_value_None [simp]: "stable_value v = None \<longleftrightarrow> v = JUndef" "None = stable_value v \<longleftrightarrow> v = JUndef"
  by (cases v; auto)+

inductive_cases eqv_undefE: "json_eqv JUndef w"
inductive_cases eqv_to_undefE: "json_eqv v JUndef"

lemma eqv_undef_iff: "json_eqv JUndef w \<longleftrightarrow> w = JUndef" "json_eqv v JUndef \<longleftrightarrow> v = JUndef"
  by (auto elim: eqv_undefE eqv_to_undefE intro: eqv_undef)

lemma stable_same_data:
  assumes "v = JUndef \<or> plain_data v \<and> defined v" "w = JUndef \<or> plain_data w \<and> defined w"
  shows "stable_value v = stable_value w \<longleftrightarrow> json_eqv v w"
proof (cases "v = JUndef \<or> w = JUndef")
  case True
  then show ?thesis by (auto simp: eqv_undef_iff)
next
  case False
  then show ?thesis using assms stable_value_iff by blast
qed

lemma concat_filter: "(\<And>f. map h (g f) = (if P f then [f] else [])) \<Longrightarrow> map h (concat (map g fs)) = filter P fs"
  by (induction fs) auto

lemma changed_fields:
  "map vc_field (review_changes parse base proposed server_changes editing api_scoped) =
     filter (\<lambda>f. \<not> (editing \<and> f \<in> {NamespaceField, NameField}) \<and>
       stable_value (shown_value parse api_scoped base f) \<noteq> stable_value (shown_value parse api_scoped proposed f)) tool_fields"
  unfolding review_changes_def by (rule concat_filter) (auto simp: Let_def)

text \<open>
  Property C36. The review lists exactly the fields in which the proposal and the draft are not the same data,
  in the order of the fields, except the identity of a tool that is being edited; the order of the members of an
  object makes no difference, and of the endpoint of a tool of an API the path alone counts.
\<close>

theorem review_changes_exact:
  assumes "json_draft base" "json_draft proposed"
  shows "map vc_field (review_changes parse base proposed server_changes editing api_scoped) =
     filter (\<lambda>f. \<not> (editing \<and> f \<in> {NamespaceField, NameField}) \<and>
       \<not> json_eqv (shown_value parse api_scoped base f) (shown_value parse api_scoped proposed f)) tool_fields"
  unfolding changed_fields using stable_same_data [OF shown_value_data [OF assms(1)] shown_value_data [OF assms(2)]] by simp

theorem review_changes_exact_witness:
  "NamespaceField \<in> set (map vc_field (review_changes (\<lambda>_ _. None) default_tool_draft sample_draft [] False False)) \<and>
   NameField \<notin> set (map vc_field (review_changes (\<lambda>_ _. None) default_tool_draft sample_draft [] False False))"
proof -
  have data: "json_draft default_tool_draft" "json_draft sample_draft"
    by (simp_all add: json_draft_def sample_draft_def default_tool_draft_def default_schema_def)
  have "NamespaceField \<in> set tool_fields"
    by (simp add: tool_fields_def)
  then show ?thesis
    unfolding review_changes_exact [OF data]
    by (simp add: shown_value_def sample_draft_def default_tool_draft_def eqv_strings)
qed

section \<open>Decisions\<close>

lemma field_copied: "draft_field (copy_field c g d) f = (if f = g then draft_field c f else draft_field d f)"
  by (cases g; cases f; simp add: policy_members_def)

lemma fields_copied:
  "draft_field (fold (\<lambda>g d. if R g then copy_field c g d else d) fs d) f
     = (if f \<in> set fs \<and> R f then draft_field c f else draft_field d f)"
  by (induction fs arbitrary: d) (auto simp: field_copied)

lemma all_fields: "f \<in> set tool_fields"
  by (cases f) (simp_all add: tool_fields_def)

lemma shown_value_field: "draft_field d f = draft_field e f \<Longrightarrow> shown_value parse api_scoped d f = shown_value parse api_scoped e f"
  by (cases f) (simp_all add: shown_value_def)

text \<open>
  Property C37. After a follow-up the review shows the changes of the proposal without those that were rejected, and
  without the identity when it is locked: every other proposed change stays, nothing else is added.
\<close>

theorem follow_up_keeps_decisions:
  "map vc_field (review_changes parse current (tool_builder_follow_up_draft current (Some pending) accepted False locked)
       server_changes editing api_scoped)
     = filter (\<lambda>f. accepted f \<noteq> Some False \<and> \<not> (locked \<and> f \<in> {NamespaceField, NameField}))
         (map vc_field (review_changes parse current pending server_changes editing api_scoped))"
proof -
  let ?R = "\<lambda>f. accepted f = Some False \<or> locked \<and> f \<in> {NamespaceField, NameField}"
  let ?followed = "tool_builder_follow_up_draft current (Some pending) accepted False locked"
  have credential: "draft_field (d\<lparr>tc_credential_present := b\<rparr>) f = draft_field d f" for d b f
    by (cases f) (simp_all add: policy_members_def)
  have "draft_field ?followed f = (if ?R f then draft_field current f else draft_field pending f)" for f
    unfolding tool_builder_follow_up_draft_def
    using fields_copied [of ?R current tool_fields "pending\<lparr>tc_credential_present := tc_credential_present current\<rparr>" f]
    by (auto simp: all_fields credential)
  then have "shown_value parse api_scoped ?followed f
      = (if ?R f then shown_value parse api_scoped current f else shown_value parse api_scoped pending f)" for f
    using shown_value_field [of ?followed f current] shown_value_field [of ?followed f pending] by (cases "?R f") auto
  then show ?thesis
    unfolding changed_fields by (auto simp: filter_filter intro!: filter_cong)
qed

end
