(* ===== verification/ToolValidation.thy ===== *)
theory ToolValidation
  imports ToolReview
begin

text \<open>
  The validation of a form before it is sent, and the search for credentials in free text
  (\<^verbatim>\<open>app/components/tool-builder/model.ts\<close>). \<^verbatim>\<open>JSON.parse\<close> and the URL parser are arguments.
\<close>

section \<open>Findings\<close>

datatype finding_level = ErrorFinding | WarningFinding

record tool_finding =
  tf_level :: finding_level
  tf_code :: string
  tf_field :: string
  tf_message :: string

record grant_definition =
  gd_key :: string
  gd_state :: string

definition blocking :: "string \<Rightarrow> string \<Rightarrow> string \<Rightarrow> tool_finding" where
  "blocking code field message = \<lparr>tf_level = ErrorFinding, tf_code = code, tf_field = field, tf_message = message\<rparr>"

definition warned :: "string \<Rightarrow> string \<Rightarrow> string \<Rightarrow> tool_finding" where
  "warned code field message = \<lparr>tf_level = WarningFinding, tf_code = code, tf_field = field, tf_message = message\<rparr>"

definition found_if :: "bool \<Rightarrow> string \<Rightarrow> string \<Rightarrow> tool_finding list" where
  "found_if b code field = (if b then [blocking code field code] else [])"

definition parse_object_json :: "(string \<Rightarrow> json option) \<Rightarrow> string \<Rightarrow> string \<Rightarrow> json_object option \<times> tool_finding list" where
  "parse_object_json parse text field = (case parse text of
     None \<Rightarrow> (None, [blocking ''invalid_json'' field field])
   | Some v \<Rightarrow> (case object_value v of
       None \<Rightarrow> (None, [blocking ''object_required'' field field])
     | Some kvs \<Rightarrow> (Some kvs, [])))"

text \<open>\<^verbatim>\<open>IDENTIFIER_PATTERN\<close>, \<^verbatim>\<open>PARAMETER_PATTERN\<close> and the pattern of an authorization scheme.\<close>

definition is_identifier :: "string \<Rightarrow> bool" where
  "is_identifier s \<longleftrightarrow> s \<noteq> [] \<and> length s \<le> 64 \<and> is_lower (hd s)
     \<and> list_all (\<lambda>c. is_lower c \<or> is_digit c \<or> c = CHR ''_'') (tl s)"

definition is_parameter :: "string \<Rightarrow> bool" where
  "is_parameter s \<longleftrightarrow> s \<noteq> [] \<and> length s \<le> 64 \<and> (is_lower (hd s) \<or> is_upper (hd s))
     \<and> list_all (\<lambda>c. is_lower c \<or> is_upper c \<or> is_digit c \<or> c \<in> set ''_.-'') (tl s)"

definition is_scheme_token :: "string \<Rightarrow> bool" where
  "is_scheme_token s \<longleftrightarrow> s \<noteq> [] \<and> length s \<le> 64
     \<and> list_all (\<lambda>c. is_lower c \<or> is_upper c \<or> is_digit c \<or> c \<in> set (CHR 0x27 # ''!#$%&*+.^_`|~-'')) s"

section \<open>Parts of the validation\<close>

definition local_hostname :: "url \<Rightarrow> bool" where
  "local_hostname u \<longleftrightarrow> u_hostname u = ''localhost'' \<or> ends_with (u_hostname u) ''.localhost''
     \<or> u_hostname u \<in> set [''127.0.0.1'', ''::1'', ''[::1]'']"

definition endpoint_findings :: "url_parser \<Rightarrow> string \<Rightarrow> tool_finding list" where
  "endpoint_findings parse endpoint =
     (if trim endpoint = [] then [blocking ''endpoint_required'' ''endpoint'' ''endpoint_required'']
      else case parse None endpoint of
        None \<Rightarrow> [blocking ''invalid_endpoint'' ''endpoint'' ''invalid_endpoint'']
      | Some u \<Rightarrow>
          found_if (u_scheme u \<noteq> ''https'' \<and> \<not> (u_scheme u = ''http'' \<and> local_hostname u)) ''https_required'' ''endpoint''
          @ found_if (u_scheme u = ''https'' \<and> local_hostname u) ''localhost_http_required'' ''endpoint''
          @ found_if (u_scheme u = ''https'' \<and> u_port u \<noteq> []) ''default_https_port_required'' ''endpoint''
          @ found_if (u_username u \<noteq> [] \<or> u_password u \<noteq> []) ''endpoint_credentials'' ''endpoint''
          @ found_if (url_search u \<noteq> []) ''endpoint_query'' ''endpoint''
          @ found_if (url_hash u \<noteq> []) ''endpoint_fragment'' ''endpoint'')"

definition mapping_findings :: "tool_form \<Rightarrow> tool_finding list" where
  "mapping_findings f = concat (map (\<lambda>(parameter, location).
     (if is_parameter parameter then [] else [blocking ''mapping_name_invalid'' ''request_mapping'' parameter])
     @ (if location = JStr ''path'' \<and> \<not> str_includes (tc_endpoint f) (''{'' @ parameter @ ''}'')
        then [warned ''path_parameter_missing'' ''request_mapping'' parameter] else [])
     @ (if tc_method f = GetTool \<and> location = JStr ''body''
        then [blocking ''get_body_mapping'' ''request_mapping'' parameter] else [])) (tc_locations f))"

definition blank_option :: "string option \<Rightarrow> bool" where
  "blank_option v \<longleftrightarrow> trim (nullish v []) = []"

definition token_url_valid :: "url_parser \<Rightarrow> string \<Rightarrow> bool" where
  "token_url_valid parse t = (case parse None t of
     None \<Rightarrow> False
   | Some u \<Rightarrow> \<not> (local_hostname u \<and> u_scheme u \<noteq> ''http''
       \<or> \<not> local_hostname u \<and> (u_scheme u \<noteq> ''https'' \<or> u_port u \<noteq> [])
       \<or> u_username u \<noteq> [] \<or> u_password u \<noteq> [] \<or> url_search u \<noteq> [] \<or> url_hash u \<noteq> []))"

definition auth_findings :: "url_parser \<Rightarrow> upstream_auth \<Rightarrow> tool_finding list" where
  "auth_findings parse a =
     found_if (ua_type a = AuthorizationScheme \<and> \<not> is_scheme_token (trim (nullish (ua_scheme a) [])))
       ''authorization_scheme_required'' ''upstream_auth.scheme''
     @ found_if (ua_type a \<in> {ApiKeyHeader, CustomHeader} \<and> blank_option (ua_header_name a))
       ''header_name_required'' ''upstream_auth.header_name''
     @ found_if (ua_type a = ApiKeyQuery \<and> blank_option (ua_query_name a))
       ''query_name_required'' ''upstream_auth.query_name''
     @ found_if (ua_type a = BasicAuth \<and> blank_option (ua_username a)) ''username_required'' ''upstream_auth.username''
     @ (if ua_type a = OauthClientCredentials
        then found_if (blank_option (ua_client_id a)) ''client_id_required'' ''upstream_auth.client_id''
          @ (if blank_option (ua_token_url a)
             then [blocking ''token_url_required'' ''upstream_auth.token_url'' ''token_url_required'']
             else found_if (\<not> token_url_valid parse (nullish (ua_token_url a) [])) ''invalid_token_url'' ''upstream_auth.token_url'')
        else [])"

definition grant_findings :: "grant_definition list \<Rightarrow> string list \<Rightarrow> tool_finding list" where
  "grant_findings grants required =
     (let grant_map = jm_of_list (map (\<lambda>g. (gd_key g, g)) grants)
      in concat (map (\<lambda>key. case jm_get grant_map key of
           None \<Rightarrow> [blocking ''unknown_grant'' ''authorization_policy.required_grants'' key]
         | Some g \<Rightarrow> if gd_state g \<noteq> ''active'' then [warned ''deprecated_grant'' ''authorization_policy.required_grants'' key] else [])
         required))"

definition invalid_timeout :: "json \<Rightarrow> bool" where
  "invalid_timeout v = (case v of JNum i \<Rightarrow> i < 100 \<or> 60000 < i | _ \<Rightarrow> True)"

definition credential_given :: "tool_form \<Rightarrow> string \<Rightarrow> bool" where
  "credential_given f credential \<longleftrightarrow> ua_type (tc_auth f) \<in> set credential_auth_types \<and> (tc_credential_present f \<or> trim credential \<noteq> [])"

definition request_example_of :: "(string \<Rightarrow> json option) \<Rightarrow> tool_form \<Rightarrow> json_object option \<times> tool_finding list" where
  "request_example_of parse f = (if trim (tf_request_example_text f) = [] then (None, [])
     else parse_object_json parse (tf_request_example_text f) ''request_example'')"

definition response_example_of :: "(string \<Rightarrow> json option) \<Rightarrow> tool_form \<Rightarrow> json \<times> tool_finding list" where
  "response_example_of parse f = (if trim (tf_response_example_text f) = [] then (JUndef, [])
     else case parse (tf_response_example_text f) of
       Some v \<Rightarrow> (v, [])
     | None \<Rightarrow> (JUndef, [blocking ''invalid_json'' ''response_example'' ''response_example'']))"

section \<open>The validation\<close>

definition validated_draft :: "(string \<Rightarrow> json option) \<Rightarrow> tool_form \<Rightarrow> string \<Rightarrow> json_object \<Rightarrow> json_object \<Rightarrow> tool_draft" where
  "validated_draft parse_json f credential input_schema output_schema =
     \<lparr>tc_namespace = tc_namespace f, tc_name = tc_name f, tc_description = trim (tc_description f), tc_method = tc_method f,
      tc_endpoint = trim (tc_endpoint f), tc_timeout = tc_timeout f, tc_auth = tc_auth f, tc_locations = tc_locations f,
      tc_result_path = (if blank_option (tc_result_path f) then None else map_option trim (tc_result_path f)),
      tc_grants = js_sort compare_text (dedup (tc_grants f)),
      tc_confirmation = (tc_risk f = CriticalRisk \<or> tc_confirmation f), tc_risk = tc_risk f,
      tc_idempotency = tc_idempotency f, tc_credential_present = credential_given f credential,
      td_input_schema = input_schema, td_output_schema = output_schema,
      td_request_example = fst (request_example_of parse_json f),
      td_response_example = fst (response_example_of parse_json f)\<rparr>"

definition local_validation ::
  "url_parser \<Rightarrow> (string \<Rightarrow> json option) \<Rightarrow> tool_form \<Rightarrow> grant_definition list \<Rightarrow> string \<Rightarrow> tool_draft option \<times> tool_finding list" where
  "local_validation parse_url parse_json f grants credential =
     (let input = parse_object_json parse_json (tf_input_schema_text f) ''input_schema'';
          out = parse_object_json parse_json (tf_output_schema_text f) ''output_schema'';
          findings =
            found_if (\<not> is_identifier (tc_namespace f)) ''invalid_namespace'' ''namespace''
            @ found_if (\<not> is_identifier (tc_name f)) ''invalid_name'' ''name''
            @ found_if (trim (tc_description f) = []) ''description_required'' ''description''
            @ found_if (500 < length (trim (tc_description f))) ''description_too_long'' ''description''
            @ found_if (invalid_timeout (tc_timeout f)) ''invalid_timeout'' ''timeout_ms''
            @ endpoint_findings parse_url (tc_endpoint f)
            @ snd input @ snd out @ snd (request_example_of parse_json f) @ snd (response_example_of parse_json f)
            @ mapping_findings f
            @ auth_findings parse_url (tc_auth f)
            @ found_if (ua_type (tc_auth f) \<in> set credential_auth_types \<and> \<not> credential_given f credential)
                ''credential_required'' ''credential''
            @ grant_findings grants (tc_grants f)
            @ found_if (tc_risk f = CriticalRisk \<and> \<not> tc_confirmation f)
                ''critical_confirmation'' ''authorization_policy.confirmation_required''
            @ found_if (tc_method f \<noteq> GetTool \<and> \<not> tc_idempotency f)
                ''mutation_without_idempotency'' ''authorization_policy.idempotency_required''
      in (if list_ex (\<lambda>x. tf_level x = ErrorFinding) findings then None
          else case (fst input, fst out) of
            (Some i, Some r) \<Rightarrow> Some (validated_draft parse_json f credential i r)
          | _ \<Rightarrow> None,
          findings))"

section \<open>What a validated draft has\<close>

abbreviation has_error :: "tool_finding list \<Rightarrow> bool" where
  "has_error fs \<equiv> list_ex (\<lambda>x. tf_level x = ErrorFinding) fs"

lemma found_if_error [simp]: "has_error (found_if b code field) = b"
  by (simp add: found_if_def blocking_def)

lemma finding_levels [simp]: "tf_level (blocking c g m) = ErrorFinding" "tf_level (warned c g m) = WarningFinding"
  by (simp_all add: blocking_def warned_def)

lemma has_error_concat: "has_error (concat (map g xs)) \<longleftrightarrow> list_ex (\<lambda>x. has_error (g x)) xs"
  by (induction xs) auto

lemma parse_object_json_error: "has_error (snd (parse_object_json parse text field)) \<longleftrightarrow> fst (parse_object_json parse text field) = None"
  by (auto simp: parse_object_json_def split: option.split)

text \<open>
  The validation gives a draft exactly when none of its findings is an error; a warning alone never
  stops it and nothing stops it without an error that says why.
\<close>

theorem draft_unless_error:
  "fst (local_validation parse_url parse_json f grants credential) = None \<longleftrightarrow>
     has_error (snd (local_validation parse_url parse_json f grants credential))"
proof -
  let ?in = "parse_object_json parse_json (tf_input_schema_text f) ''input_schema''"
  let ?out = "parse_object_json parse_json (tf_output_schema_text f) ''output_schema''"
  have none: "has_error (snd (local_validation parse_url parse_json f grants credential))" if "fst ?in = None \<or> fst ?out = None"
    using that by (auto simp: local_validation_def Let_def parse_object_json_error)
  show ?thesis
  proof (cases "has_error (snd (local_validation parse_url parse_json f grants credential))")
    case True
    then show ?thesis by (simp add: local_validation_def Let_def)
  next
    case False
    then obtain i r where "fst ?in = Some i" "fst ?out = Some r"
      using none by fastforce
    with False show ?thesis by (simp add: local_validation_def Let_def)
  qed
qed

definition endpoint_allowed :: "url \<Rightarrow> bool" where
  "endpoint_allowed u \<longleftrightarrow> (u_scheme u = ''https'' \<and> u_port u = [] \<and> \<not> local_hostname u \<or> u_scheme u = ''http'' \<and> local_hostname u)
     \<and> u_username u = [] \<and> u_password u = [] \<and> url_search u = [] \<and> url_hash u = []"

definition auth_complete :: "url_parser \<Rightarrow> upstream_auth \<Rightarrow> bool" where
  "auth_complete parse a \<longleftrightarrow> (case ua_type a of
     AuthorizationScheme \<Rightarrow> is_scheme_token (trim (nullish (ua_scheme a) []))
   | ApiKeyHeader \<Rightarrow> \<not> blank_option (ua_header_name a)
   | CustomHeader \<Rightarrow> \<not> blank_option (ua_header_name a)
   | ApiKeyQuery \<Rightarrow> \<not> blank_option (ua_query_name a)
   | BasicAuth \<Rightarrow> \<not> blank_option (ua_username a)
   | OauthClientCredentials \<Rightarrow> \<not> blank_option (ua_client_id a) \<and> \<not> blank_option (ua_token_url a)
       \<and> token_url_valid parse (nullish (ua_token_url a) [])
   | _ \<Rightarrow> True)"

lemma endpoint_findings_allowed:
  "\<not> has_error (endpoint_findings parse e) \<longleftrightarrow> trim e \<noteq> [] \<and> (\<exists>u. parse None e = Some u \<and> endpoint_allowed u)"
  by (auto simp: endpoint_findings_def endpoint_allowed_def split: option.splits)

lemma auth_findings_complete: "\<not> has_error (auth_findings parse a) \<longleftrightarrow> auth_complete parse a"
  by (cases "ua_type a") (auto simp: auth_findings_def auth_complete_def)

lemma grants_known: "\<not> has_error (grant_findings grants required) \<longleftrightarrow> set required \<subseteq> gd_key ` set grants"
proof -
  have "jm_get (jm_of_list (map (\<lambda>g. (gd_key g, g)) grants)) k = None \<longleftrightarrow> k \<notin> gd_key ` set grants" for k
    by (auto simp: jm_of_list_get map_of_eq_None_iff image_iff)
  then show ?thesis
    unfolding grant_findings_def Let_def has_error_concat
    by (auto simp: list_ex_iff subset_iff split: option.splits if_splits)
qed

lemma mapping_findings_fine:
  "\<not> has_error (mapping_findings f) \<longleftrightarrow>
     list_all (\<lambda>(k, l). is_parameter k \<and> \<not> (tc_method f = GetTool \<and> l = JStr ''body'')) (tc_locations f)"
proof -
  have "(\<lambda>x. has_error (case x of (k, l) \<Rightarrow>
      (if is_parameter k then [] else [blocking ''mapping_name_invalid'' ''request_mapping'' k])
      @ (if l = JStr ''path'' \<and> \<not> str_includes (tc_endpoint f) (''{'' @ k @ ''}'')
         then [warned ''path_parameter_missing'' ''request_mapping'' k] else [])
      @ (if tc_method f = GetTool \<and> l = JStr ''body'' then [blocking ''get_body_mapping'' ''request_mapping'' k] else [])))
    = (\<lambda>(k, l). \<not> is_parameter k \<or> tc_method f = GetTool \<and> l = JStr ''body'')"
    by (auto simp: fun_eq_iff)
  then show ?thesis
    unfolding mapping_findings_def has_error_concat by (auto simp: list_ex_iff list_all_iff)
qed

text \<open>What the parts of a sendable contract satisfy.\<close>

definition sendable :: "url_parser \<Rightarrow> grant_definition list \<Rightarrow> tool_draft \<Rightarrow> bool" where
  "sendable parse grants d \<longleftrightarrow>
     is_identifier (tc_namespace d) \<and> is_identifier (tc_name d)
     \<and> tc_description d \<noteq> [] \<and> length (tc_description d) \<le> 500 \<and> \<not> invalid_timeout (tc_timeout d)
     \<and> auth_complete parse (tc_auth d) \<and> (ua_type (tc_auth d) \<in> set credential_auth_types \<longleftrightarrow> tc_credential_present d)
     \<and> list_all (\<lambda>(k, l). is_parameter k \<and> \<not> (tc_method d = GetTool \<and> l = JStr ''body'')) (tc_locations d)
     \<and> set (tc_grants d) \<subseteq> gd_key ` set grants \<and> distinct (tc_grants d) \<and> sorted (tc_grants d)
     \<and> (tc_risk d = CriticalRisk \<longrightarrow> tc_confirmation d) \<and> (tc_method d \<noteq> GetTool \<longrightarrow> tc_idempotency d)
     \<and> filled (tc_result_path d)"

lemma validation_result:
  "local_validation parse_url parse_json f grants credential = (Some d, findings) \<Longrightarrow>
     \<not> has_error findings \<and> (\<exists>i r. d = validated_draft parse_json f credential i r)"
  by (auto simp: local_validation_def Let_def split: if_splits option.splits)

text \<open>
  Property C38. A draft that leaves the validation has an endpoint that is HTTPS on the default port of a host that
  is not local, or HTTP on a local one, without credentials, query or fragment, and can be sent: its names,
  description and timeout are in bounds, its authentication is complete and has a credential exactly when its type
  needs one, no parameter of a GET is in the body, its grants are known, distinct and sorted, a critical tool asks for
  confirmation and a tool that is no GET is idempotent.
\<close>

theorem validated_draft_sendable:
  assumes "local_validation parse_url parse_json f grants credential = (Some d, findings)"
  shows "sendable parse_url grants d \<and> tc_endpoint d = trim (tc_endpoint f) \<and>
    (\<exists>u. parse_url None (tc_endpoint f) = Some u \<and> endpoint_allowed u)"
proof -
  obtain i r where d: "d = validated_draft parse_json f credential i r" and fine: "\<not> has_error findings"
    using validation_result [OF assms] by blast
  have "\<not> has_error (snd (local_validation parse_url parse_json f grants credential))"
    using fine assms by simp
  then have parts: "is_identifier (tc_namespace f)" "is_identifier (tc_name f)" "trim (tc_description f) \<noteq> []"
    "length (trim (tc_description f)) \<le> 500" "\<not> invalid_timeout (tc_timeout f)"
    "\<not> has_error (endpoint_findings parse_url (tc_endpoint f))" "\<not> has_error (mapping_findings f)"
    "\<not> has_error (auth_findings parse_url (tc_auth f))" "\<not> has_error (grant_findings grants (tc_grants f))"
    "ua_type (tc_auth f) \<in> set credential_auth_types \<longleftrightarrow> credential_given f credential"
    "tc_method f \<noteq> GetTool \<longrightarrow> tc_idempotency f"
    by (auto simp: local_validation_def Let_def credential_given_def)
  have "sorted (js_sort compare_text (dedup (tc_grants f)))"
    by (rule sorted_compare_text)
  then show ?thesis
    using parts unfolding endpoint_findings_allowed auth_findings_complete grants_known mapping_findings_fine
    by (auto simp: d sendable_def validated_draft_def filled_def blank_option_def)
qed

definition sample_form :: tool_form where
  "sample_form = draft_to_form (sample_draft\<lparr>tc_name := ''list'', tc_description := ''Lists the voices'',
     tc_endpoint := ''https://a.b/v'', tc_auth := no_auth_fields NoAuth\<rparr>)"

definition sample_endpoint :: url where
  "sample_endpoint = \<lparr>u_scheme = ''https'', u_username = [], u_password = [], u_hostname = ''a.b'', u_port = [],
     u_path = ''/v'', u_query = None, u_fragment = None\<rparr>"

theorem validated_draft_sendable_witness:
  "sendable (\<lambda>_ _. Some sample_endpoint) [] (validated_draft sample_reader sample_form [] default_schema default_schema)"
proof -
  have texts: "tf_input_schema_text sample_form = json_text (JObj default_schema)"
    "tf_output_schema_text sample_form = json_text (JObj default_schema)"
    "tf_request_example_text sample_form = []" "tf_response_example_text sample_form = json_text (JStr ''ok'')"
    by (simp_all add: sample_form_def form_texts sample_draft_def default_tool_draft_def)
  have core: "tc_namespace sample_form = ''voices''" "tc_name sample_form = ''list''"
    "tc_description sample_form = ''Lists the voices''" "tc_timeout sample_form = JNum 10000" "tc_endpoint sample_form = ''https://a.b/v''"
    "tc_auth sample_form = no_auth_fields NoAuth" "tc_locations sample_form = []" "tc_grants sample_form = []"
    "tc_risk sample_form = CriticalRisk" "tc_confirmation sample_form" "tc_method sample_form = GetTool"
    by (simp_all add: sample_form_def draft_to_form_def tool_core.defs tool_form.defs sample_draft_def default_tool_draft_def)
  have response: "snd (response_example_of sample_reader sample_form) = []"
    by (simp add: response_example_of_def texts sample_reader_def)
  have endpoint: "endpoint_findings (\<lambda>_ _. Some sample_endpoint) ''https://a.b/v'' = []"
    by code_simp
  have names: "is_identifier ''voices''" "is_identifier ''list''" "trim ''Lists the voices'' = ''Lists the voices''"
    by code_simp+
  have "local_validation (\<lambda>_ _. Some sample_endpoint) sample_reader sample_form [] []
      = (Some (validated_draft sample_reader sample_form [] default_schema default_schema), [])"
    unfolding local_validation_def Let_def core texts parse_object_json_def request_example_of_def response endpoint
    by (simp add: names sample_reader_def found_if_def invalid_timeout_def mapping_findings_def auth_findings_def core
        no_auth_fields_def credential_auth_types_def grant_findings_def)
  from validated_draft_sendable [OF this] show ?thesis by blast
qed

lemma validated_draft_normal: "normal_core f \<Longrightarrow> normal_core (validated_draft parse_json f credential i r)"
  by (auto simp: normal_core_def validated_draft_def filled_def blank_option_def)

text \<open>A location that is an array of one name passes the check of the names and stays an array.\<close>

lemma array_location_kept:
  "tc_locations (sanitize_draft (JObj [(''request_mapping'', JObj [(''parameter_locations'', JObj [(''q'', JArr [JStr ''query''])])])])
     default_tool_draft) = [(''q'', JArr [JStr ''query''])]"
  by (simp add: sanitize_draft_def Let_def record_member_def parameter_places_def)

section \<open>Credentials in free text\<close>

definition credential_name_rx :: rx where
  "credential_name_rx = alts
     [lit_i ''authorization'', seqs [lit_i ''api'', maybe (Cls (\<lambda>c. c \<in> set ''-_ '')), lit_i ''key''],
      seqs [lit_i ''access'', maybe (Cls (\<lambda>c. c \<in> set ''-_ '')), lit_i ''token''],
      seqs [lit_i ''refresh'', maybe (Cls (\<lambda>c. c \<in> set ''-_ '')), lit_i ''token''],
      seqs [lit_i ''client'', maybe (Cls (\<lambda>c. c \<in> set ''-_ '')), lit_i ''secret''], lit_i ''password'', lit_i ''secret'']"

fun at_least :: "nat \<Rightarrow> rx \<Rightarrow> rx" where
  "at_least 0 r = many r"
| "at_least (Suc n) r = Seq r (at_least n r)"

definition token_char :: "char \<Rightarrow> bool" where
  "token_char c \<longleftrightarrow> rx_word c \<or> c = CHR ''-''"

definition credential_material_rx :: rx where
  "credential_material_rx = alts
     [seqs [WordEdge, credential_name_rx, spaces, Cls (\<lambda>c. c \<in> set '':=''), spaces,
        maybe (Cls (\<lambda>c. c = CHR 0x22 \<or> c = CHR 0x27)),
        at_least 8 (Cls (\<lambda>c. \<not> is_ws c \<and> c \<noteq> CHR '','' \<and> c \<noteq> CHR 0x22 \<and> c \<noteq> CHR 0x27 \<and> c \<noteq> CHR ''}''))],
      seqs [WordEdge, lit_i ''eyJ'', at_least 6 (Cls token_char), lit ''.'', at_least 6 (Cls token_char), lit ''.'',
        at_least 6 (Cls token_char), WordEdge],
      seqs [WordEdge, alts [lit_i ''sk'', lit_i ''pk'', lit_i ''rk'', lit_i ''ghp'', lit_i ''gho'',
          Seq (lit_i ''xox'') (Cls (\<lambda>c. lower_char c \<in> set ''baprs''))],
        Cls (\<lambda>c. c \<in> set ''-_''), at_least 8 (Cls token_char), WordEdge],
      seqs [WordEdge, lit_i ''http'', maybe (lit_i ''s''), lit ''://'',
        some_rx (Cls (\<lambda>c. \<not> is_ws c \<and> c \<notin> set ''/?#@'')), lit ''@'', some_rx (Cls (\<lambda>c. \<not> is_ws c \<and> c \<notin> set ''/?#''))]]"

definition bearer_material_rx :: rx where
  "bearer_material_rx = seqs [WordEdge, lit_i ''bearer'', some_rx space,
     Cap 1 (at_least 8 (Cls (\<lambda>c. is_lower c \<or> is_upper c \<or> is_digit c \<or> c \<in> set ''._~+/=-'')))]"

definition basic_material_rx :: rx where
  "basic_material_rx = seqs [WordEdge, lit_i ''basic'', some_rx space,
     Cap 1 (at_least 8 (Cls (\<lambda>c. is_lower c \<or> is_upper c \<or> is_digit c \<or> c \<in> set ''+/='')))]"

definition non_secret_auth_terms :: "string list" where
  "non_secret_auth_terms = [''authentication'', ''authorization'', ''credential'', ''credentials'', ''token'', ''tokens'']"

definition contains_credential_material :: "string \<Rightarrow> bool" where
  "contains_credential_material v \<longleftrightarrow> rx_test credential_material_rx v
     \<or> list_ex (\<lambda>m. let candidate = strip_right (\<lambda>c. c \<in> set ''.,;:!?'') (to_lower (match_group 1 m))
           in candidate \<noteq> [] \<and> candidate \<notin> set non_secret_auth_terms)
         (rx_all bearer_material_rx [] v @ rx_all basic_material_rx [] v)"

definition utf8_byte_length :: "string \<Rightarrow> nat" where
  "utf8_byte_length v = length (utf8 v)"

text \<open>The label of an empty value is an argument: by default it is the em dash U+2014.\<close>

definition format_review_value :: "json \<Rightarrow> string \<Rightarrow> string" where
  "format_review_value v empty_label = (if v = JUndef \<or> v = JStr [] then empty_label
     else case v of JStr s \<Rightarrow> s | _ \<Rightarrow> stringify_indented [] v)"

end
