(* ===== verification/UriCodec.thy ===== *)
theory UriCodec
  imports Uri Sources
begin

text \<open>\<^verbatim>\<open>decodeURIComponent\<close> undoes \<^verbatim>\<open>encodeURIComponent\<close>, whose results have no character with a meaning in a path.\<close>

lemma decode_percent:
  "decode_uri_bytes (percent_byte b @ t) = map_option ((#) (char_of (unat b))) (decode_uri_bytes t)"
proof -
  have "unat b div 16 < 16" "unat b mod 16 < 16" by (simp_all add: less_mult_imp_div_less)
  from upper_hex [OF this(1)] upper_hex [OF this(2)] show ?thesis
    by (simp add: percent_byte_def)
qed

lemma decode_percents:
  "decode_uri_bytes (concat (map percent_byte bs) @ t) = map_option ((@) (map (\<lambda>b. char_of (unat b)) bs)) (decode_uri_bytes t)"
proof (induction bs)
  case Nil
  then show ?case by (simp add: option.map_ident)
next
  case (Cons b bs)
  then show ?case by (simp add: decode_percent option.map_comp comp_def)
qed

lemma plain_not_percent: "uri_plain c \<Longrightarrow> c \<noteq> CHR ''%''"
  by (auto simp: uri_plain_def is_digit_def is_lower_def is_upper_def char_in_def)

lemma decode_bytes_encode: "decode_uri_bytes (encode_uri_component s) = Some (concat (map utf8_text s))"
proof (induction s)
  case Nil
  then show ?case by (simp add: encode_uri_component_def)
next
  case (Cons c s)
  then show ?case
    by (simp add: encode_uri_component_def decode_percents utf8_text_def plain_not_percent)
qed

lemma utf8_text_cases:
  obtains "utf8_text c = [c]" "(of_char c :: nat) < 128"
  | a b where "utf8_text c = [a, b]" "of_char a \<in> {194, 195 :: nat}" "128 \<le> (of_char b :: nat)" "(of_char b :: nat) \<le> 191"
      "char_of ((of_char a - 192) * 64 + (of_char b - 128) :: nat) = c"
proof (cases "(of_char c :: nat) < 128")
  case True
  then show ?thesis
    by (intro that(1)) (simp_all add: utf8_text_def utf8_char_def unat_of_nat)
next
  case False
  define n where "n = (of_char c :: nat)"
  have n: "128 \<le> n" "n < 256" using False nat_of_char_less_256 [of c] by (simp_all add: n_def)
  have d: "n div 64 = 2 \<or> n div 64 = 3" using n by linarith
  have "n mod 64 < 64" by simp
  show ?thesis
  proof (rule that(2))
    show "utf8_text c = [char_of (192 + n div 64), char_of (128 + n mod 64)]"
    proof -
      have "unat (word_of_nat (192 + n div 64) :: byte) = 192 + n div 64" "unat (word_of_nat (128 + n mod 64) :: byte) = 128 + n mod 64"
        using n d \<open>n mod 64 < 64\<close> by (simp_all only: unat_of_nat) auto
      then show ?thesis using n by (simp add: utf8_text_def utf8_char_def Let_def flip: n_def del: of_nat_add)
    qed
    show "of_char (char_of (192 + n div 64) :: char) \<in> {194, 195 :: nat}" using d by auto
    show "128 \<le> (of_char (char_of (128 + n mod 64) :: char) :: nat)" "(of_char (char_of (128 + n mod 64) :: char) :: nat) \<le> 191"
      using \<open>n mod 64 < 64\<close> by simp_all
    have "(of_char (char_of (192 + n div 64) :: char) :: nat) = 192 + n div 64" using d by auto
    moreover have "(of_char (char_of (128 + n mod 64) :: char) :: nat) = 128 + n mod 64" using \<open>n mod 64 < 64\<close> by simp
    ultimately have "(of_char (char_of (192 + n div 64) :: char) - 192) * 64 + (of_char (char_of (128 + n mod 64) :: char) - 128) = n"
      using div_mult_mod_eq [of n 64] by (simp only: diff_add_inverse)
    then show "char_of ((of_char (char_of (192 + n div 64) :: char) - 192) * 64 + (of_char (char_of (128 + n mod 64) :: char) - 128) :: nat) = c"
      by (simp add: n_def)
  qed
qed

lemma valid_utf8_text: "valid_utf8 (map of_char (concat (map utf8_text s)))"
proof (induction s)
  case (Cons c s)
  show ?case by (rule utf8_text_cases [of c]) (use Cons in \<open>auto simp: continuation_def\<close>)
qed simp

lemma latin_text_ascii: "(of_char a :: nat) < 128 \<Longrightarrow> latin_text (a # s) = a # latin_text s"
  by (cases s) auto

lemma latin_text_utf8: "latin_text (concat (map utf8_text s)) = s"
proof (induction s)
  case (Cons c s)
  show ?case by (rule utf8_text_cases [of c]) (use Cons in \<open>auto simp: latin_text_ascii\<close>)
qed simp

lemma decode_encode [simp]: "decode_uri_text (encode_uri_component s) = Some s"
  by (simp add: decode_uri_text_def decode_uri_component_def decode_bytes_encode valid_utf8_text latin_text_utf8)

definition path_char :: "char \<Rightarrow> bool" where
  "path_char c \<longleftrightarrow> uri_plain c \<or> c = CHR ''%''"

lemma upper_hex_plain: "n < 16 \<Longrightarrow> uri_plain (upper_hex_digit n)"
  by (auto simp: upper_hex_digit_def uri_plain_def is_digit_def is_upper_def char_in_def)

lemma encode_path_chars: "list_all path_char (encode_uri_component s)"
proof -
  have byte: "list_all path_char (percent_byte b)" for b
  proof -
    have "unat b div 16 < 16" "unat b mod 16 < 16" by (simp_all add: less_mult_imp_div_less)
    from upper_hex_plain [OF this(1)] upper_hex_plain [OF this(2)] show ?thesis
      by (simp add: percent_byte_def path_char_def)
  qed
  have bytes: "list_all path_char (concat (map percent_byte bs))" for bs
    by (induction bs) (auto simp: byte)
  have "list_all path_char (if uri_plain c then [c] else concat (map percent_byte (utf8_char c)))" for c
    using bytes by (simp add: path_char_def [of c])
  then show ?thesis by (induction s) (simp_all add: encode_uri_component_def)
qed

lemma encode_empty [simp]: "encode_uri_component [] = []"
  by (simp add: encode_uri_component_def)

lemma encode_nonempty [simp]: "encode_uri_component s = [] \<longleftrightarrow> s = []"
  using decode_encode [of s] by (cases "encode_uri_component s = []") (auto simp: decode_uri_text_def decode_uri_component_def)

end
