(* ===== verification/ConsoleRoutes.thy ===== *)
theory ConsoleRoutes
  imports UriCodec Markup
begin

text \<open>
  The routes of the operator console (\<^verbatim>\<open>app/lib/console-routes.ts\<close>): the paths that are built for its screens, and
  the parser of a path. The query string that a view may add to a route is left out.
\<close>

section \<open>Sections, tabs and entities\<close>

datatype console_section =
    ProductSection | SourcesSection | DocumentsSection | ContractsSection | SdksSection | QueryLabSection
  | IdentitySection | RecipesSection | ConnectionsSection | ToolsSection | PreviewSection | DistributionSection
  | ReportingSection | SettingsSection

datatype integration_tab = OverviewTab | DocumentationTab | AuthorizationTab | ToolsTab | TestTab | HistoryTab

datatype resource_tab = DocumentationResource | ContractsResource | SdksResource

datatype settings_tab = SettingsOverview | SettingsTenant | SettingsConfiguration | SettingsAi | SettingsRoot

datatype identity_tab = SignIn | CustomerAccounts

datatype entity_kind =
    IntegrationEntity | ResourceSetEntity | SourceEntity | ToolEntity | ConnectionEntity | ReportEntity
  | AuditEventEntity | RootUserEntity

datatype console_route =
    SectionRoute console_section "settings_tab option" "identity_tab option" string
  | BuilderRoute "string option" "string option" string
  | IntegrationRoute string integration_tab "resource_tab option" string
  | EntityRoute entity_kind string console_section string
  | NotFoundRoute string

fun route_path :: "console_route \<Rightarrow> string" where
  "route_path (SectionRoute s settings identity p) = p"
| "route_path (BuilderRoute uid integration p) = p"
| "route_path (IntegrationRoute uid tab resource p) = p"
| "route_path (EntityRoute e uid s p) = p"
| "route_path (NotFoundRoute p) = p"

definition integration_tabs :: "(string \<times> integration_tab) list" where
  "integration_tabs =
     [(''overview'', OverviewTab), (''documentation'', DocumentationTab), (''authorization'', AuthorizationTab),
      (''tools'', ToolsTab), (''test'', TestTab), (''history'', HistoryTab)]"

definition resource_tabs :: "(string \<times> resource_tab) list" where
  "resource_tabs = [(''documentation'', DocumentationResource), (''contracts'', ContractsResource), (''sdks'', SdksResource)]"

definition settings_tabs :: "(string \<times> settings_tab) list" where
  "settings_tabs =
     [(''overview'', SettingsOverview), (''tenant'', SettingsTenant), (''configuration'', SettingsConfiguration),
      (''ai'', SettingsAi), (''root'', SettingsRoot)]"

definition identity_tabs :: "(string \<times> identity_tab) list" where
  "identity_tabs = [(''sign-in'', SignIn), (''customer-accounts'', CustomerAccounts)]"

definition section_paths :: "(console_section \<times> string) list" where
  "section_paths =
     [(ProductSection, ''/integrations''),
      (DocumentsSection, ''/developer-assets/documentation/documents''),
      (ContractsSection, ''/developer-assets/api-contracts''),
      (SdksSection, ''/developer-assets/sdk-packages''),
      (QueryLabSection, ''/developer-assets/query-lab''),
      (IdentitySection, ''/identity''),
      (RecipesSection, ''/recipes''),
      (SourcesSection, ''/integrations/documentation''),
      (ToolsSection, ''/tools''),
      (ConnectionsSection, ''/tools/connections''),
      (PreviewSection, ''/tools/preview''),
      (DistributionSection, ''/agent-access''),
      (ReportingSection, ''/operations/outbox''),
      (SettingsSection, ''/settings'')]"

definition entity_sections :: "(string \<times> entity_kind \<times> console_section) list" where
  "entity_sections =
     [(''integration'', IntegrationEntity, ProductSection), (''resource-set'', ResourceSetEntity, ProductSection),
      (''source'', SourceEntity, SourcesSection), (''tool'', ToolEntity, ToolsSection),
      (''connection'', ConnectionEntity, ConnectionsSection), (''report'', ReportEntity, ReportingSection),
      (''audit-event'', AuditEventEntity, ReportingSection), (''root-user'', RootUserEntity, SettingsSection)]"

text \<open>The name under which a table lists a value.\<close>

definition name_of :: "(string \<times> 'a) list \<Rightarrow> 'a \<Rightarrow> string" where
  "name_of table v = nullish (map_of (map (\<lambda>(n, v). (v, n)) table) v) []"

definition entity_name :: "entity_kind \<Rightarrow> string" where
  "entity_name e = name_of (map (\<lambda>(n, e, s). (n, e)) entity_sections) e"

definition entity_section :: "entity_kind \<Rightarrow> console_section" where
  "entity_section e = nullish (map_of (map (\<lambda>(n, e, s). (e, s)) entity_sections) e) ProductSection"

section \<open>Paths\<close>

definition normalize_path :: "string \<Rightarrow> string" where
  "normalize_path pathname =
     (let path = or_else (takeWhile (\<lambda>c. c \<notin> set ''?#'') pathname) ''/''
      in if path = ''/'' then path else CHR ''/'' # strip_outer (\<lambda>c. c = CHR ''/'') path)"

definition section_path :: "console_section \<Rightarrow> string" where
  "section_path s = nullish (map_of section_paths s) []"

definition settings_path :: "settings_tab \<Rightarrow> string" where
  "settings_path tab = (if tab = SettingsOverview then section_path SettingsSection
     else section_path SettingsSection @ ''/'' @ name_of settings_tabs tab)"

definition identity_path :: "identity_tab \<Rightarrow> string" where
  "identity_path tab = (if tab = SignIn then section_path IdentitySection
     else section_path IdentitySection @ ''/'' @ name_of identity_tabs tab)"

definition entity_path :: "entity_kind \<Rightarrow> string \<Rightarrow> string" where
  "entity_path e uid = ''/'' @ entity_name e @ ''/'' @ encode_uri_component uid"

definition tool_builder_path :: "string option \<Rightarrow> string" where
  "tool_builder_path uid = (case present uid of
     Some u \<Rightarrow> ''/tools/new/'' @ encode_uri_component u
   | None \<Rightarrow> ''/tools/new'')"

definition integration_tool_builder_path :: "string \<Rightarrow> string" where
  "integration_tool_builder_path i = ''/integration/'' @ encode_uri_component i @ ''/tools/new''"

definition integration_path :: "string \<Rightarrow> integration_tab \<Rightarrow> resource_tab option \<Rightarrow> string" where
  "integration_path uid tab resource =
     (let base = entity_path IntegrationEntity uid
      in if tab = OverviewTab then base
         else case resource of
             Some r \<Rightarrow> if tab = DocumentationTab \<and> r \<noteq> DocumentationResource
               then base @ ''/documentation/'' @ name_of resource_tabs r else base @ ''/'' @ name_of integration_tabs tab
           | None \<Rightarrow> base @ ''/'' @ name_of integration_tabs tab)"

definition integration_validation_path :: "string \<Rightarrow> string \<Rightarrow> string" where
  "integration_validation_path uid tab =
     (if tab = ''resources'' then integration_path uid DocumentationTab None
      else if tab = ''access'' \<or> tab = ''authorization'' then integration_path uid AuthorizationTab None
      else if tab = ''tools'' then integration_path uid ToolsTab None
      else if tab = ''recipes'' then section_path RecipesSection
      else if tab = ''delivery'' then section_path DistributionSection
      else integration_path uid OverviewTab None)"

section \<open>Routes\<close>

definition route_for_section :: "console_section \<Rightarrow> console_route" where
  "route_for_section s = SectionRoute s None None (section_path s)"

definition route_for_integration :: "string \<Rightarrow> integration_tab \<Rightarrow> resource_tab option \<Rightarrow> console_route" where
  "route_for_integration uid tab resource =
     (let shown = (if tab = DocumentationTab then Some (nullish resource DocumentationResource) else None)
      in IntegrationRoute uid tab shown (integration_path uid tab shown))"

definition route_for_entity :: "entity_kind \<Rightarrow> string \<Rightarrow> console_route" where
  "route_for_entity e uid =
     (if e = IntegrationEntity then route_for_integration uid OverviewTab None
      else EntityRoute e uid (entity_section e) (entity_path e uid))"

definition route_for_builder :: "string option \<Rightarrow> console_route" where
  "route_for_builder uid = BuilderRoute (present uid) None (tool_builder_path uid)"

definition route_for_integration_builder :: "string \<Rightarrow> console_route" where
  "route_for_integration_builder i = BuilderRoute None (Some i) (integration_tool_builder_path i)"

section \<open>The parser of a path\<close>

text \<open>\<^verbatim>\<open>\/([^/]+)\<close>\<close>

definition hole :: "nat \<Rightarrow> rx" where
  "hole k = Seq (lit ''/'') (Cap k (some_rx (but ''/'')))"

definition tool_builder_rx :: rx where
  "tool_builder_rx = seqs [TextStart, lit ''/tools/new'', maybe (hole 1), TextEnd]"

definition integration_builder_rx :: rx where
  "integration_builder_rx = seqs [TextStart, lit ''/integration'', hole 1, lit ''/tools/new'', TextEnd]"

definition settings_rx :: rx where
  "settings_rx = seqs [TextStart, lit ''/settings'', hole 1, TextEnd]"

definition identity_rx :: rx where
  "identity_rx = seqs [TextStart, lit ''/identity'', hole 1, TextEnd]"

definition integration_rx :: rx where
  "integration_rx = seqs [TextStart, lit ''/integration'', hole 1, maybe (hole 2), maybe (hole 3), TextEnd]"

definition two_parts_rx :: rx where
  "two_parts_rx = seqs [TextStart, hole 1, hole 2, TextEnd]"

definition read_builder :: "console_route \<Rightarrow> rx_match \<Rightarrow> console_route" where
  "read_builder lost m = (case present (rx_group 1 m) of
     None \<Rightarrow> route_for_builder None
   | Some e \<Rightarrow> (case decode_uri_text e of None \<Rightarrow> lost | Some uid \<Rightarrow> route_for_builder (Some uid)))"

definition read_integration_builder :: "console_route \<Rightarrow> rx_match \<Rightarrow> console_route" where
  "read_integration_builder lost m =
     (case decode_uri_text (match_group 1 m) of None \<Rightarrow> lost | Some i \<Rightarrow> route_for_integration_builder i)"

definition read_settings :: "console_route \<Rightarrow> rx_match \<Rightarrow> console_route" where
  "read_settings lost m = (case map_of settings_tabs (match_group 1 m) of
     None \<Rightarrow> lost
   | Some tab \<Rightarrow> if tab = SettingsOverview then lost else SectionRoute SettingsSection (Some tab) None (settings_path tab))"

definition read_identity :: "console_route \<Rightarrow> rx_match \<Rightarrow> console_route" where
  "read_identity lost m = (case map_of identity_tabs (match_group 1 m) of
     None \<Rightarrow> lost
   | Some tab \<Rightarrow> if tab = SignIn then lost else SectionRoute IdentitySection None (Some tab) (identity_path tab))"

definition read_integration :: "console_route \<Rightarrow> rx_match \<Rightarrow> console_route" where
  "read_integration lost m = (case map_of integration_tabs (nullish (rx_group 2 m) ''overview'') of
     None \<Rightarrow> lost
   | Some tab \<Rightarrow>
       let resource = present (rx_group 3 m)
       in if resource \<noteq> None \<and> (tab \<noteq> DocumentationTab \<or> map_of resource_tabs (the resource) = None) then lost
          else case decode_uri_text (match_group 1 m) of
              None \<Rightarrow> lost
            | Some uid \<Rightarrow> route_for_integration uid tab (Option.bind resource (map_of resource_tabs)))"

definition read_entity :: "console_route \<Rightarrow> rx_match \<Rightarrow> console_route" where
  "read_entity lost m = (case map_of entity_sections (match_group 1 m) of
     None \<Rightarrow> lost
   | Some (e, s) \<Rightarrow> (case decode_uri_text (match_group 2 m) of None \<Rightarrow> lost | Some uid \<Rightarrow> route_for_entity e uid))"

definition section_at :: "string \<Rightarrow> console_section option" where
  "section_at path = map_option fst (find (\<lambda>(s, p). p = path) section_paths)"

definition parse_console_path :: "string \<Rightarrow> console_route" where
  "parse_console_path pathname =
     (let path = normalize_path pathname; lost = NotFoundRoute path
      in if path = ''/'' then route_for_section ProductSection
         else case rx_exec tool_builder_rx path of Some m \<Rightarrow> read_builder lost m
         | None \<Rightarrow> (case rx_exec integration_builder_rx path of Some m \<Rightarrow> read_integration_builder lost m
         | None \<Rightarrow> (case rx_exec settings_rx path of Some m \<Rightarrow> read_settings lost m
         | None \<Rightarrow> (case rx_exec identity_rx path of Some m \<Rightarrow> read_identity lost m
         | None \<Rightarrow> (case section_at path of Some s \<Rightarrow> route_for_section s
         | None \<Rightarrow> (case rx_exec integration_rx path of Some m \<Rightarrow> read_integration lost m
         | None \<Rightarrow> (case rx_exec two_parts_rx path of Some m \<Rightarrow> read_entity lost m
         | None \<Rightarrow> lost)))))))"

end
