(* ===== verification/RouteTrip.thy ===== *)
theory RouteTrip
  imports ConsoleRoutes
begin

text \<open>
  Every path that the console builds is parsed as the route it was built for, and the path of a parsed route is
  parsed as the same route.
\<close>

section \<open>Expressions over the parts of a path\<close>

definition slashless :: "string \<Rightarrow> bool" where
  "slashless s \<longleftrightarrow> CHR ''/'' \<notin> set s"

text \<open>An expression that can only start at a slash or at the end of the text.\<close>

definition edge :: "rx \<Rightarrow> bool" where
  "edge r \<longleftrightarrow> (\<forall>b c s g. c \<noteq> CHR ''/'' \<longrightarrow> rx_run r (b, c # s, g) = [])"

lemma edge_TextEnd: "edge TextEnd"
  by (simp add: edge_def)

lemma edge_lit: "edge (Seq (lit (CHR ''/'' # w)) q)"
  by (cases w) (simp_all add: edge_def lit_def)

lemma edge_hole: "edge (Seq (hole k) q)"
  by (simp add: edge_def hole_def lit_def)

lemma edge_maybe: "edge q \<Longrightarrow> edge (Seq (maybe (hole k)) q)"
  by (simp add: edge_def hole_def lit_def maybe_def)

lemma runs_down_first:
  "\<exists>ts. runs_down P (b, s, g) = (rev (takeWhile P s) @ b, dropWhile P s, g) # ts
     \<and> (\<forall>t\<in>set ts. rest t \<noteq> [] \<and> P (hd (rest t)))"
proof (induction s arbitrary: b)
  case (Cons c s)
  show ?case
  proof (cases "P c")
    case True
    obtain ts where "runs_down P (c # b, s, g) = (rev (takeWhile P s) @ c # b, dropWhile P s, g) # ts"
      "\<forall>t\<in>set ts. rest t \<noteq> [] \<and> P (hd (rest t))"
      using Cons by blast
    then show ?thesis using True by auto
  qed simp
qed simp

lemma run_at_edge:
  assumes "edge q"
  shows "concat (map (rx_run q) (map (\<lambda>t. (fst t, rest t, h t)) (runs_down (\<lambda>c. c \<noteq> CHR ''/'') (b, s, g))))
    = rx_run q (rev (takeWhile (\<lambda>c. c \<noteq> CHR ''/'') s) @ b, dropWhile (\<lambda>c. c \<noteq> CHR ''/'') s,
        h (rev (takeWhile (\<lambda>c. c \<noteq> CHR ''/'') s) @ b, dropWhile (\<lambda>c. c \<noteq> CHR ''/'') s, g))"
proof -
  obtain ts where runs: "runs_down (\<lambda>c. c \<noteq> CHR ''/'') (b, s, g)
      = (rev (takeWhile (\<lambda>c. c \<noteq> CHR ''/'') s) @ b, dropWhile (\<lambda>c. c \<noteq> CHR ''/'') s, g) # ts"
    and ts: "\<forall>t\<in>set ts. rest t \<noteq> [] \<and> hd (rest t) \<noteq> CHR ''/''"
    using runs_down_first by blast
  have "rx_run q (fst t, rest t, h t) = []" if t: "t \<in> set ts" for t
  proof -
    obtain c cs where "rest t = c # cs" "c \<noteq> CHR ''/''" using ts t by (cases "rest t") auto
    then show ?thesis using assms by (simp add: edge_def)
  qed
  then have "concat (map (rx_run q) (map (\<lambda>t. (fst t, rest t, h t)) ts)) = []" by simp
  then show ?thesis by (simp add: runs)
qed


lemma take_span: "take (length s - length (dropWhile P s)) s = takeWhile P s"
  by (metis append_eq_conv_conj diff_add_inverse2 length_append takeWhile_dropWhile_id)

lemma run_hole:
  assumes "edge q"
  shows "rx_run (Seq (hole k) q) (b, s, g) =
    (case s of [] \<Rightarrow> []
     | c # t \<Rightarrow> if c = CHR ''/'' \<and> takeWhile (\<lambda>c. c \<noteq> CHR ''/'') t \<noteq> []
         then rx_run q (rev (takeWhile (\<lambda>c. c \<noteq> CHR ''/'') t) @ c # b, dropWhile (\<lambda>c. c \<noteq> CHR ''/'') t,
                (k, takeWhile (\<lambda>c. c \<noteq> CHR ''/'') t) # g)
         else [])"
proof (cases "\<exists>t. s = CHR ''/'' # t \<and> takeWhile (\<lambda>c. c \<noteq> CHR ''/'') t \<noteq> []")
  case False
  show ?thesis
  proof (cases s)
    case (Cons d t)
    show ?thesis
    proof (cases t)
      case Nil
      then show ?thesis using Cons by (simp add: hole_def lit_def some_rx_def)
    next
      case (Cons c t')
      have "d \<noteq> CHR ''/'' \<or> c = CHR ''/''" using False \<open>s = d # t\<close> Cons by (auto split: if_splits)
      then show ?thesis using Cons \<open>s = d # t\<close> by (auto simp: hole_def lit_def some_rx_def)
    qed
  qed (simp add: hole_def lit_def)
next
  case True
  then obtain t' where t': "s = CHR ''/'' # t'" "takeWhile (\<lambda>c. c \<noteq> CHR ''/'') t' \<noteq> []" by blast
  then obtain c t where "t' = c # t" by (cases t') simp_all
  with t' have s: "s = CHR ''/'' # c # t" "c \<noteq> CHR ''/''" by (auto split: if_splits)
  define h where "h st = (k, take (length (c # t) - length (rest st)) (c # t)) # snd (snd st)" for st :: rx_state
  have "rx_run (Cap k (some_rx (but ''/''))) (CHR ''/'' # b, c # t, g)
      = map (\<lambda>st. (fst st, rest st, h st)) (runs_down (\<lambda>c. c \<noteq> CHR ''/'') (c # CHR ''/'' # b, t, g))"
    using s(2) rx_run_many_cls [of "\<lambda>c. c \<noteq> CHR ''/''"] by (simp add: some_rx_def h_def many_def del: rx_run.simps(5))
  then have "rx_run (Seq (hole k) q) (b, s, g)
      = concat (map (rx_run q) (map (\<lambda>st. (fst st, rest st, h st)) (runs_down (\<lambda>c. c \<noteq> CHR ''/'') (c # CHR ''/'' # b, t, g))))"
    by (simp add: hole_def lit_def s)
  also have "\<dots> = rx_run q (rev (takeWhile (\<lambda>c. c \<noteq> CHR ''/'') t) @ c # CHR ''/'' # b, dropWhile (\<lambda>c. c \<noteq> CHR ''/'') t,
      (k, c # takeWhile (\<lambda>c. c \<noteq> CHR ''/'') t) # g)"
  proof -
    have "take (length (c # t) - length (dropWhile (\<lambda>c. c \<noteq> CHR ''/'') t)) (c # t) = c # takeWhile (\<lambda>c. c \<noteq> CHR ''/'') t"
      using take_span [of "c # t" "\<lambda>c. c \<noteq> CHR ''/''"] s(2) by simp
    then show ?thesis unfolding run_at_edge [OF assms, of h] by (simp add: h_def)
  qed
  finally show ?thesis using s by simp
qed

lemma exec_anchored:
  "rx_exec (Seq TextStart r) s = (case rx_run r ([], s, []) of
     [] \<Rightarrow> None
   | (b, t, g) # _ \<Rightarrow> Some \<lparr>rm_before = [], rm_text = take (length s - length t) s, rm_groups = g, rm_after = t\<rparr>)"
proof -
  have later: "rx_search (Seq TextStart r) (c # b) s = None" for c b s
    by (induction s arbitrary: c b) (subst rx_search.simps; simp)+
  show ?thesis
  proof (cases "rx_run r ([], s, [])")
    case Nil
    then have "rx_run (Seq TextStart r) ([], s, []) = []" by simp
    then show ?thesis using Nil unfolding rx_exec_def by (subst rx_search.simps) (simp add: later split: list.split)
  next
    case (Cons st ts)
    then have "rx_run (Seq TextStart r) ([], s, []) = st # ts" by simp
    then show ?thesis using Cons unfolding rx_exec_def by (cases st) (subst rx_search.simps, simp)
  qed
qed


lemma run_lit:
  "rx_run (Seq (lit w) q) (b, s, g) = (if take (length w) s = w then rx_run q (rev w @ b, drop (length w) s, g) else [])"
proof (induction w arbitrary: b s)
  case Nil
  then show ?case by (simp add: lit_def)
next
  case (Cons c w)
  have step: "rx_run (lit (c # w)) (b, s, g) = (case s of [] \<Rightarrow> [] | d # s' \<Rightarrow> if d = c then rx_run (lit w) (c # b, s', g) else [])" for b s
    by (cases w) (auto simp: lit_def split: list.splits)
  show ?case
  proof (cases s)
    case (Cons d s')
    have "rx_run (Seq (lit (c # w)) q) (b, s, g) = (if d = c then rx_run (Seq (lit w) q) (c # b, s', g) else [])"
      by (simp add: step Cons)
    then show ?thesis unfolding Cons.IH using Cons by auto
  qed (simp add: step)
qed

lemma run_maybe: "rx_run (Seq (maybe r) q) st = rx_run (Seq r q) st @ rx_run q st"
  by (simp add: maybe_def)

lemma edges [simp]:
  "edge TextEnd" "edge (Seq (hole k) q)" "edge q \<Longrightarrow> edge (Seq (maybe (hole k)) q)"
  "edge (Seq (lit (CHR ''/'' # w)) q)"
  by (simp_all add: edge_TextEnd edge_hole edge_maybe edge_lit)

lemmas run_route = run_lit run_hole run_maybe
lemmas route_rx = tool_builder_rx_def integration_builder_rx_def settings_rx_def identity_rx_def integration_rx_def two_parts_rx_def

section \<open>Segments\<close>

lemma encode_slashless: "CHR ''/'' \<notin> set (encode_uri_component uid)"
  and encode_no_query: "CHR ''?'' \<notin> set (encode_uri_component uid)"
  and encode_no_fragment: "CHR ''#'' \<notin> set (encode_uri_component uid)"
  using encode_path_chars [of uid]
  by (auto simp: list_all_iff path_char_def uri_plain_def is_digit_def is_lower_def is_upper_def char_in_def)

lemma slash_span:
  "CHR ''/'' \<notin> set u \<Longrightarrow> takeWhile (\<lambda>c. c \<noteq> CHR ''/'') (u @ CHR ''/'' # r) = u"
  "CHR ''/'' \<notin> set u \<Longrightarrow> dropWhile (\<lambda>c. c \<noteq> CHR ''/'') (u @ CHR ''/'' # r) = CHR ''/'' # r"
  "CHR ''/'' \<notin> set u \<Longrightarrow> takeWhile (\<lambda>c. c \<noteq> CHR ''/'') u = u"
  "CHR ''/'' \<notin> set u \<Longrightarrow> dropWhile (\<lambda>c. c \<noteq> CHR ''/'') u = []"
  by (induction u) auto

lemma first_part [simp]:
  "takeWhile (\<lambda>c. c \<noteq> CHR ''/'') (encode_uri_component uid @ CHR ''/'' # r) = encode_uri_component uid"
  "dropWhile (\<lambda>c. c \<noteq> CHR ''/'') (encode_uri_component uid @ CHR ''/'' # r) = CHR ''/'' # r"
  "takeWhile (\<lambda>c. c \<noteq> CHR ''/'') (encode_uri_component uid) = encode_uri_component uid"
  "dropWhile (\<lambda>c. c \<noteq> CHR ''/'') (encode_uri_component uid) = []"
  by (simp_all add: slash_span encode_slashless)

lemma normal_path:
  assumes "list_all (\<lambda>c. c \<notin> set ''?#'') body" "body \<noteq> []" "hd body \<noteq> CHR ''/''" "last body \<noteq> CHR ''/''"
  shows "normalize_path (CHR ''/'' # body) = CHR ''/'' # body"
proof -
  have whole: "takeWhile (\<lambda>c. c \<notin> set ''?#'') (CHR ''/'' # body) = CHR ''/'' # body"
    using assms(1) by (auto simp: takeWhile_eq_all_conv list_all_iff)
  moreover have "strip_outer (\<lambda>c. c = CHR ''/'') (CHR ''/'' # body) = body"
  proof -
    have "dropWhile (\<lambda>c. c = CHR ''/'') (CHR ''/'' # body) = body" using assms(2,3) by (cases body) simp_all
    moreover have "dropWhile (\<lambda>c. c = CHR ''/'') (rev body) = rev body"
      using assms(2,4) by (cases "rev body") (auto simp: last_rev hd_rev rev_swap)
    ultimately show ?thesis by (simp add: strip_outer_def strip_right_def)
  qed
  ultimately show ?thesis using assms(2) unfolding normalize_path_def Let_def or_else_def whole by simp
qed


section \<open>Built paths\<close>

lemma parse_section_path: "parse_console_path (section_path s) = route_for_section s"
  by (cases s; hypsubst; code_simp)

lemma parse_builder_path: "parse_console_path (tool_builder_path None) = route_for_builder None"
  by code_simp

lemma parse_settings_path:
  "parse_console_path (settings_path tab) = (if tab = SettingsOverview then route_for_section SettingsSection
     else SectionRoute SettingsSection (Some tab) None (settings_path tab))"
  by (cases tab; hypsubst; code_simp)

lemma parse_identity_path:
  "parse_console_path (identity_path tab) = (if tab = SignIn then route_for_section IdentitySection
     else SectionRoute IdentitySection None (Some tab) (identity_path tab))"
  by (cases tab; hypsubst; code_simp)

lemma safe_encoded: "list_all (\<lambda>c. c \<notin> set ''?#'') (encode_uri_component uid)"
  using encode_no_query [of uid] encode_no_fragment [of uid] by (auto simp: list_all_iff)

lemma last_encoded: "uid \<noteq> [] \<Longrightarrow> last (encode_uri_component uid) \<noteq> CHR ''/''"
  by (metis encode_nonempty encode_slashless last_in_set)

lemma exec_none: "rx_run r ([], s, []) = [] \<Longrightarrow> rx_exec (Seq TextStart r) s = None"
  by (simp add: exec_anchored)

lemma exec_groups: "rx_run r ([], s, []) = (b, t, g) # ts \<Longrightarrow> \<exists>m. rx_exec (Seq TextStart r) s = Some m \<and> rm_groups m = g"
  by (simp add: exec_anchored)

lemma parse_builder_uid:
  assumes "uid \<noteq> []"
  shows "parse_console_path (tool_builder_path (Some uid)) = route_for_builder (Some uid)"
proof -
  have path: "tool_builder_path (Some uid) = ''/tools/new/'' @ encode_uri_component uid"
    using assms by (simp add: tool_builder_path_def present_def)
  have "normalize_path (''/tools/new/'' @ encode_uri_component uid) = ''/tools/new/'' @ encode_uri_component uid"
    using normal_path [of "''tools/new/'' @ encode_uri_component uid"] assms safe_encoded last_encoded by simp
  moreover have "\<exists>m. rx_exec tool_builder_rx (''/tools/new/'' @ encode_uri_component uid) = Some m \<and> rm_groups m = [(1, encode_uri_component uid)]"
    using assms unfolding tool_builder_rx_def seqs.simps by (intro exec_groups) (simp add: run_route del: rx_run.simps(3))
  ultimately show ?thesis
    using assms by (auto simp: path parse_console_path_def read_builder_def rx_group_def present_def Let_def)
qed


lemma only_integration:
  "rx_exec tool_builder_rx (''/integration/'' @ r) = None" "rx_exec settings_rx (''/integration/'' @ r) = None"
  "rx_exec identity_rx (''/integration/'' @ r) = None" "section_at (''/integration/'' @ r) = None"
  unfolding tool_builder_rx_def settings_rx_def identity_rx_def seqs.simps
  by (intro exec_none, simp add: run_route del: rx_run.simps(3))+ (simp add: section_at_def section_paths_def)

lemma integration_builder_run:
  assumes "uid \<noteq> []" "tail = [] \<or> hd tail = CHR ''/''"
  shows "rx_run (Seq (lit ''/integration'') (Seq (hole 1) (Seq (lit ''/tools/new'') TextEnd))) ([], ''/integration/'' @ encode_uri_component uid @ tail, [])
    = rx_run (Seq (lit ''/tools/new'') TextEnd) (rev (''/integration/'' @ encode_uri_component uid), tail, [(1, encode_uri_component uid)])"
  using assms by (cases tail) (simp_all add: run_route del: rx_run.simps(3))

lemma parse_integration_builder:
  assumes "uid \<noteq> []"
  shows "parse_console_path (integration_tool_builder_path uid) = route_for_integration_builder uid"
proof -
  have "normalize_path (''/integration/'' @ encode_uri_component uid @ ''/tools/new'') = ''/integration/'' @ encode_uri_component uid @ ''/tools/new''"
    using normal_path [of "''integration/'' @ encode_uri_component uid @ ''/tools/new''"] safe_encoded [of uid] by simp
  moreover have "\<exists>m. rx_exec integration_builder_rx (''/integration/'' @ encode_uri_component uid @ ''/tools/new'') = Some m
      \<and> rm_groups m = [(1, encode_uri_component uid)]"
  proof -
    have tail: "rx_run (Seq (lit ''/tools/new'') TextEnd) (b, ''/tools/new'', g) = (rev ''/tools/new'' @ b, [], g) # []" for b g
      by (simp add: run_lit del: rx_run.simps(3))
    show ?thesis unfolding integration_builder_rx_def seqs.simps
      by (rule exec_groups [OF trans [OF integration_builder_run tail]]) (use assms in simp_all)
  qed
  moreover note only_integration(1) [of "encode_uri_component uid @ ''/tools/new''"]
  ultimately show ?thesis
    by (auto simp: integration_tool_builder_path_def parse_console_path_def read_integration_builder_def match_group_def rx_group_def Let_def)
qed

text \<open>The parts of a path after the identifier of an integration.\<close>

definition tail_groups :: "string \<Rightarrow> (nat \<times> string) list \<Rightarrow> bool" where
  "tail_groups tail g \<longleftrightarrow> (tail = [] \<or> hd tail = CHR ''/'') \<and> take (length ''/tools/new'') tail \<noteq> ''/tools/new''
     \<and> list_all (\<lambda>c. c \<notin> set ''?#'') tail \<and> (tail = [] \<or> last tail \<noteq> CHR ''/'')
     \<and> (\<forall>b h. \<exists>t. rx_run (Seq (maybe (hole 2)) (Seq (maybe (hole 3)) TextEnd)) (b, tail, h) = (fst t, fst (snd t), g @ h) # snd (snd t))"

lemma parse_tail:
  assumes uid: "uid \<noteq> []" and tail: "tail_groups tail g"
  shows "\<exists>m. parse_console_path (''/integration/'' @ encode_uri_component uid @ tail)
      = read_integration (NotFoundRoute (''/integration/'' @ encode_uri_component uid @ tail)) m
    \<and> rm_groups m = g @ [(1, encode_uri_component uid)]"
proof -
  let ?p = "''/integration/'' @ encode_uri_component uid @ tail"
  have path: "normalize_path ?p = ?p"
  proof -
    have "last (''integration/'' @ encode_uri_component uid @ tail) \<noteq> CHR ''/''"
      using last_encoded [OF uid] uid tail by (cases "tail = []") (simp_all add: tail_groups_def)
    then show ?thesis
      using normal_path [of "''integration/'' @ encode_uri_component uid @ tail"] safe_encoded [of uid] tail
      by (simp add: tail_groups_def)
  qed
  have builder: "rx_exec integration_builder_rx ?p = None"
  proof -
    have "rx_run (Seq (lit ''/tools/new'') TextEnd) (b, tail, h) = []" for b h
    proof -
      have "take (length ''/tools/new'') tail \<noteq> ''/tools/new''" using tail unfolding tail_groups_def by (elim conjE)
      then show ?thesis unfolding run_lit by (simp only: if_False)
    qed
    then show ?thesis unfolding integration_builder_rx_def seqs.simps
      by (intro exec_none trans [OF integration_builder_run]) (use uid tail in \<open>simp_all add: tail_groups_def\<close>)
  qed
  have "\<forall>b h. \<exists>t. rx_run (Seq (maybe (hole 2)) (Seq (maybe (hole 3)) TextEnd)) (b, tail, h) = (fst t, fst (snd t), g @ h) # snd (snd t)"
    using tail unfolding tail_groups_def by (elim conjE)
  then obtain t where "rx_run (Seq (maybe (hole 2)) (Seq (maybe (hole 3)) TextEnd))
      (rev (''/integration/'' @ encode_uri_component uid), tail, [(1, encode_uri_component uid)])
      = (fst t, fst (snd t), g @ [(1, encode_uri_component uid)]) # snd (snd t)"
    by blast
  then have run: "rx_run (Seq (lit ''/integration'') (Seq (hole 1) (Seq (maybe (hole 2)) (Seq (maybe (hole 3)) TextEnd)))) ([], ?p, [])
      = (fst t, fst (snd t), g @ [(1, encode_uri_component uid)]) # snd (snd t)"
    using uid tail by (cases tail) (simp_all add: run_lit run_hole tail_groups_def del: rx_run.simps(3))
  obtain m where "rx_exec integration_rx ?p = Some m" "rm_groups m = g @ [(1, encode_uri_component uid)]"
    using exec_groups [OF run] unfolding integration_rx_def seqs.simps by blast
  then show ?thesis
    using path builder only_integration [of "encode_uri_component uid @ tail"]
    by (auto simp: parse_console_path_def Let_def)
qed


lemma tail_none: "tail_groups [] []"
  by (simp add: tail_groups_def run_maybe run_hole del: rx_run.simps(3))

lemma tail_tab:
  "tab \<noteq> OverviewTab \<Longrightarrow> tail_groups (CHR ''/'' # name_of integration_tabs tab) [(2, name_of integration_tabs tab)]"
  by (cases tab) (simp_all add: tail_groups_def name_of_def integration_tabs_def run_maybe run_hole del: rx_run.simps(3))

lemma tail_resource:
  "tail_groups (''/documentation/'' @ name_of resource_tabs r) [(3, name_of resource_tabs r), (2, ''documentation'')]"
  by (cases r) (simp_all add: tail_groups_def name_of_def resource_tabs_def run_maybe run_hole del: rx_run.simps(3))

lemma named_tab: "map_of integration_tabs (name_of integration_tabs tab) = Some tab"
  by (cases tab) (simp_all add: name_of_def integration_tabs_def)

lemma named_resource: "map_of resource_tabs (name_of resource_tabs r) = Some r" "name_of resource_tabs r \<noteq> []"
  by (cases r; simp add: name_of_def resource_tabs_def)+

lemma integration_base: "entity_path IntegrationEntity uid = ''/integration/'' @ encode_uri_component uid"
  by (simp add: entity_path_def entity_name_def name_of_def entity_sections_def)

lemma parse_integration:
  assumes "uid \<noteq> []"
  shows "parse_console_path (integration_path uid tab resource)
    = route_for_integration uid tab (if tab = DocumentationTab then Some (nullish resource DocumentationResource) else None)"
proof (cases "tab = OverviewTab")
  case True
  obtain m where "parse_console_path (''/integration/'' @ encode_uri_component uid)
      = read_integration (NotFoundRoute (''/integration/'' @ encode_uri_component uid)) m"
    "rm_groups m = [(1, encode_uri_component uid)]"
    using parse_tail [OF assms tail_none] by auto
  then show ?thesis
    using True by (simp add: integration_path_def integration_base read_integration_def rx_group_def match_group_def
      integration_tabs_def present_def route_for_integration_def Let_def)
next
  case False
  show ?thesis
  proof (cases "tab = DocumentationTab \<and> resource \<noteq> None \<and> resource \<noteq> Some DocumentationResource")
    case True
    then obtain r where r: "resource = Some r" "r \<noteq> DocumentationResource" by auto
    obtain m where "parse_console_path (''/integration/'' @ encode_uri_component uid @ ''/documentation/'' @ name_of resource_tabs r)
        = read_integration (NotFoundRoute (''/integration/'' @ encode_uri_component uid @ ''/documentation/'' @ name_of resource_tabs r)) m"
      "rm_groups m = [(3, name_of resource_tabs r), (2, ''documentation''), (1, encode_uri_component uid)]"
      using parse_tail [OF assms tail_resource] by force
    then show ?thesis
      using True r named_resource [of r]
      by (simp add: integration_path_def integration_base read_integration_def rx_group_def match_group_def
        integration_tabs_def present_def route_for_integration_def Let_def)
  next
    case docs: False
    obtain m where "parse_console_path (''/integration/'' @ encode_uri_component uid @ CHR ''/'' # name_of integration_tabs tab)
        = read_integration (NotFoundRoute (''/integration/'' @ encode_uri_component uid @ CHR ''/'' # name_of integration_tabs tab)) m"
      "rm_groups m = [(2, name_of integration_tabs tab), (1, encode_uri_component uid)]"
      using parse_tail [OF assms tail_tab [OF False]] by force
    moreover have "integration_path uid tab resource = ''/integration/'' @ encode_uri_component uid @ CHR ''/'' # name_of integration_tabs tab"
      using False docs by (cases resource) (auto simp: integration_path_def integration_base Let_def)
    ultimately show ?thesis
      using False docs named_tab [of tab]
      by (auto simp: read_integration_def rx_group_def match_group_def present_def route_for_integration_def integration_path_def Let_def
        split: option.splits)
  qed
qed


lemma only_two_parts:
  assumes "uid \<noteq> []" "w \<in> fst ` set entity_sections" "w \<noteq> ''integration''"
  defines "p \<equiv> CHR ''/'' # w @ CHR ''/'' # encode_uri_component uid"
  shows "normalize_path p = p" "rx_exec tool_builder_rx p = None" "rx_exec integration_builder_rx p = None" "rx_exec settings_rx p = None"
    "rx_exec identity_rx p = None" "section_at p = None" "rx_exec integration_rx p = None"
    "\<exists>m. rx_exec two_parts_rx p = Some m \<and> rm_groups m = [(2, encode_uri_component uid), (1, w)]"
proof -
  have w: "w \<in> set [''resource-set'', ''source'', ''tool'', ''connection'', ''report'', ''audit-event'', ''root-user'']"
    using assms(2,3) by (auto simp: entity_sections_def)
  show "normalize_path p = p"
    unfolding p_def using w safe_encoded [of uid] last_encoded [of uid] assms(1) by (intro normal_path) auto
  show "rx_exec tool_builder_rx p = None" "rx_exec integration_builder_rx p = None" "rx_exec settings_rx p = None"
    "rx_exec identity_rx p = None" "rx_exec integration_rx p = None"
    unfolding route_rx seqs.simps p_def
    by (intro exec_none, use w in \<open>auto simp: run_lit simp del: rx_run.simps(3)\<close>)+
  show "section_at p = None"
    unfolding p_def using w by (auto simp: section_at_def section_paths_def)
  have span: "takeWhile (\<lambda>c. c \<noteq> CHR ''/'') (w @ CHR ''/'' # encode_uri_component uid) = w"
    "dropWhile (\<lambda>c. c \<noteq> CHR ''/'') (w @ CHR ''/'' # encode_uri_component uid) = CHR ''/'' # encode_uri_component uid" "w \<noteq> []"
    using w by auto
  show "\<exists>m. rx_exec two_parts_rx p = Some m \<and> rm_groups m = [(2, encode_uri_component uid), (1, w)]"
    unfolding two_parts_rx_def seqs.simps p_def
    by (intro exec_groups) (simp add: run_hole span assms(1) del: rx_run.simps(3))
qed

lemma parse_entity:
  assumes "uid \<noteq> []"
  shows "parse_console_path (entity_path e uid) = route_for_entity e uid"
proof (cases "e = IntegrationEntity")
  case True
  have "entity_path IntegrationEntity uid = integration_path uid OverviewTab None" by (simp add: integration_path_def)
  then show ?thesis using True parse_integration [OF assms, of OverviewTab None] by (simp add: route_for_entity_def)
next
  case False
  have table: "map_of entity_sections (entity_name e) = Some (e, entity_section e)"
    by (cases e) (simp_all add: entity_name_def name_of_def entity_section_def entity_sections_def)
  then have w: "entity_name e \<in> fst ` set entity_sections" by (force dest: map_of_SomeD)
  have name: "entity_name e \<noteq> ''integration''" using False by (cases e) (simp_all add: entity_name_def name_of_def entity_sections_def)
  show ?thesis
    using only_two_parts [OF assms w name] table
    by (auto simp: entity_path_def parse_console_path_def read_entity_def match_group_def rx_group_def Let_def)
qed

section \<open>Parsing and building\<close>

text \<open>All routes that the builders give for an identifier.\<close>

definition console_links :: "string \<Rightarrow> console_route list" where
  "console_links uid =
     map route_for_section (map fst section_paths)
     @ map (\<lambda>tab. SectionRoute SettingsSection (Some tab) None (settings_path tab)) [SettingsTenant, SettingsConfiguration, SettingsAi, SettingsRoot]
     @ [SectionRoute IdentitySection None (Some CustomerAccounts) (identity_path CustomerAccounts)]
     @ [route_for_builder None, route_for_builder (Some uid), route_for_integration_builder uid]
     @ map (\<lambda>tab. route_for_integration uid tab None) (map snd integration_tabs)
     @ map (\<lambda>r. route_for_integration uid DocumentationTab (Some r)) (map snd resource_tabs)
     @ map (\<lambda>e. route_for_entity e uid) (map (fst \<circ> snd) entity_sections)"

definition stable_route :: "console_route \<Rightarrow> bool" where
  "stable_route r \<longleftrightarrow> parse_console_path (route_path r) = r"

lemma stable_section: "stable_route (route_for_section s)"
  using parse_section_path by (simp add: stable_route_def route_for_section_def)

lemma stable_settings: "tab \<noteq> SettingsOverview \<Longrightarrow> stable_route (SectionRoute SettingsSection (Some tab) None (settings_path tab))"
  using parse_settings_path by (simp add: stable_route_def)

lemma stable_identity: "tab \<noteq> SignIn \<Longrightarrow> stable_route (SectionRoute IdentitySection None (Some tab) (identity_path tab))"
  using parse_identity_path by (simp add: stable_route_def)

lemma stable_builder: "stable_route (route_for_builder None)" "uid \<noteq> [] \<Longrightarrow> stable_route (route_for_builder (Some uid))"
  "uid \<noteq> [] \<Longrightarrow> stable_route (route_for_integration_builder uid)"
  using parse_builder_path parse_builder_uid [of uid] parse_integration_builder [of uid]
  by (simp_all add: stable_route_def route_for_builder_def route_for_integration_builder_def)

lemma stable_integration: "uid \<noteq> [] \<Longrightarrow> stable_route (route_for_integration uid tab resource)"
  using parse_integration [of uid tab] by (simp add: stable_route_def route_for_integration_def Let_def)

lemma stable_entity: "uid \<noteq> [] \<Longrightarrow> stable_route (route_for_entity e uid)"
  using parse_entity [of uid e] stable_integration [of uid OverviewTab None]
  by (cases "e = IntegrationEntity") (simp_all add: stable_route_def route_for_entity_def)

text \<open>
  Property C32. The path of every route that the console builds for a nonempty identifier is parsed as that route.
\<close>

theorem console_route_roundtrip:
  "uid \<noteq> [] \<Longrightarrow> list_all (\<lambda>r. parse_console_path (route_path r) = r) (console_links uid)"
  unfolding stable_route_def [symmetric] console_links_def
  by (auto simp: stable_section stable_settings stable_identity stable_builder stable_integration stable_entity list_all_iff)

theorem console_route_roundtrip_witness:
  "list_all (\<lambda>r. parse_console_path (route_path r) = r) (console_links ''a/b?c'')"
  by (rule console_route_roundtrip) simp


section \<open>Parsed routes\<close>

lemma normalize_again: "normalize_path (normalize_path p) = normalize_path p"
proof -
  define path where "path = or_else (takeWhile (\<lambda>c. c \<notin> set ''?#'') p) ''/''"
  define body where "body = strip_outer (\<lambda>c. c = CHR ''/'') path"
  have norm: "normalize_path p = (if path = ''/'' then path else CHR ''/'' # body)"
    by (simp add: normalize_path_def path_def body_def Let_def)
  have root: "normalize_path ''/'' = ''/''" by code_simp
  show ?thesis
  proof (cases "path = ''/'' \<or> body = []")
    case True
    then show ?thesis using norm root by auto
  next
    case False
    have "list_all (\<lambda>c. c \<notin> set ''?#'') path"
      by (auto simp: path_def or_else_def list_all_iff dest: set_takeWhileD)
    then have "normalize_path (CHR ''/'' # body) = CHR ''/'' # body"
      using False strip_outer_ends [of "\<lambda>c. c = CHR ''/''" path] set_strip_outer [of "\<lambda>c. c = CHR ''/''" path]
      by (intro normal_path) (auto simp: body_def list_all_iff)
    then show ?thesis using False norm by simp
  qed
qed

lemma decoded_nonempty: "decode_uri_text e = Some u \<Longrightarrow> e \<noteq> [] \<Longrightarrow> u \<noteq> []"
proof -
  assume d: "decode_uri_text e = Some u" and e: "e \<noteq> []"
  have "decode_uri_bytes e \<noteq> Some []"
    using e by (cases e) (auto simp: utf8_text_def utf8_char_def Let_def split: if_splits list.splits)
  moreover have "latin_text s = [] \<Longrightarrow> s = []" for s by (induction s rule: latin_text.induct) (auto split: if_splits)
  ultimately show "u \<noteq> []" using d by (auto simp: decode_uri_text_def decode_uri_component_def split: option.splits if_splits)
qed

lemma hole_result:
  "edge q \<Longrightarrow> t \<in> set (rx_run (Seq (hole k) q) (b, s, g)) \<Longrightarrow> \<exists>u b s. u \<noteq> [] \<and> t \<in> set (rx_run q (b, s, (k, u) # g))"
  unfolding run_hole by (cases s) (auto split: if_splits)

lemma lit_result: "t \<in> set (rx_run (Seq (lit w) q) (b, s, g)) \<Longrightarrow> \<exists>b s. t \<in> set (rx_run q (b, s, g))"
  unfolding run_lit by (auto split: if_splits)

lemma maybe_result:
  assumes "edge q" "t \<in> set (rx_run (Seq (maybe (hole k)) q) (b, s, g))"
  shows "\<exists>h b s. fst ` set h \<subseteq> {k} \<and> t \<in> set (rx_run q (b, s, h @ g))"
proof -
  consider "t \<in> set (rx_run (Seq (hole k) q) (b, s, g))" | "t \<in> set (rx_run q (b, s, g))"
    using assms(2) unfolding run_maybe by auto
  then show ?thesis
  proof cases
    case 1
    obtain u b' s' where "t \<in> set (rx_run q (b', s', (k, u) # g))" using hole_result [OF assms(1) 1] by blast
    then have "fst ` set [(k, u)] \<subseteq> {k} \<and> t \<in> set (rx_run q (b', s', [(k, u)] @ g))" by simp
    then show ?thesis by blast
  next
    case 2
    then have "fst ` set [] \<subseteq> {k} \<and> t \<in> set (rx_run q (b, s, [] @ g))" by simp
    then show ?thesis by blast
  qed
qed

lemma end_result: "t \<in> set (rx_run TextEnd (b, s, g)) \<Longrightarrow> snd (snd t) = g"
  by (auto split: if_splits)

lemma exec_result: "rx_exec (Seq TextStart r) p = Some m \<Longrightarrow> \<exists>t\<in>set (rx_run r ([], p, [])). rm_groups m = snd (snd t)"
  by (auto simp: exec_anchored split: list.splits)

lemma builder_capture: "rx_exec integration_builder_rx p = Some m \<Longrightarrow> match_group 1 m \<noteq> []"
proof -
  assume "rx_exec integration_builder_rx p = Some m"
  then obtain t where t: "t \<in> set (rx_run (Seq (lit ''/integration'') (Seq (hole 1) (Seq (lit ''/tools/new'') TextEnd))) ([], p, []))"
    and g: "rm_groups m = snd (snd t)"
    unfolding integration_builder_rx_def seqs.simps using exec_result by blast
  obtain b s where "t \<in> set (rx_run (Seq (hole 1) (Seq (lit ''/tools/new'') TextEnd)) (b, s, []))" using lit_result [OF t] by blast
  then obtain u b s where u: "u \<noteq> []" and "t \<in> set (rx_run (Seq (lit ''/tools/new'') TextEnd) (b, s, [(1, u)]))"
    using hole_result [OF edges(4)] by blast
  then have "snd (snd t) = [(1, u)]" using lit_result end_result by blast
  then show "match_group 1 m \<noteq> []" using u g by (simp add: match_group_def rx_group_def)
qed

lemma parts_capture: "rx_exec two_parts_rx p = Some m \<Longrightarrow> match_group 2 m \<noteq> []"
proof -
  assume "rx_exec two_parts_rx p = Some m"
  then obtain t where t: "t \<in> set (rx_run (Seq (hole 1) (Seq (hole 2) TextEnd)) ([], p, []))" and g: "rm_groups m = snd (snd t)"
    unfolding two_parts_rx_def seqs.simps using exec_result by blast
  obtain w b s where "t \<in> set (rx_run (Seq (hole 2) TextEnd) (b, s, [(1, w)]))" using hole_result [OF edges(2) t] by blast
  then obtain u b s where u: "u \<noteq> []" and "t \<in> set (rx_run TextEnd (b, s, [(2, u), (1, w)]))"
    using hole_result [OF edges(1)] by blast
  then have "snd (snd t) = [(2, u), (1, w)]" using end_result by blast
  then show "match_group 2 m \<noteq> []" using u g by (simp add: match_group_def rx_group_def)
qed

lemma integration_capture: "rx_exec integration_rx p = Some m \<Longrightarrow> match_group 1 m \<noteq> []"
proof -
  assume "rx_exec integration_rx p = Some m"
  then obtain t where t: "t \<in> set (rx_run (Seq (lit ''/integration'') (Seq (hole 1) (Seq (maybe (hole 2)) (Seq (maybe (hole 3)) TextEnd)))) ([], p, []))"
    and g: "rm_groups m = snd (snd t)"
    unfolding integration_rx_def seqs.simps using exec_result by blast
  have e: "edge (Seq (maybe (hole 3)) TextEnd)" "edge (Seq (maybe (hole 2)) (Seq (maybe (hole 3)) TextEnd))" by simp_all
  obtain b s where "t \<in> set (rx_run (Seq (hole 1) (Seq (maybe (hole 2)) (Seq (maybe (hole 3)) TextEnd))) (b, s, []))"
    using lit_result [OF t] by blast
  from hole_result [OF e(2) this] obtain u b s where u: "u \<noteq> []"
    and two: "t \<in> set (rx_run (Seq (maybe (hole 2)) (Seq (maybe (hole 3)) TextEnd)) (b, s, [(1, u)]))" by blast
  from maybe_result [OF e(1) two] obtain h b s where h: "fst ` set h \<subseteq> {2}"
    and three: "t \<in> set (rx_run (Seq (maybe (hole 3)) TextEnd) (b, s, h @ [(1, u)]))" by blast
  from maybe_result [OF edges(1) three] obtain h' b s where h': "fst ` set h' \<subseteq> {3}"
    and four: "t \<in> set (rx_run TextEnd (b, s, h' @ h @ [(1, u)]))" by blast
  have groups: "snd (snd t) = h' @ h @ [(1, u)]" by (rule end_result [OF four])
  have "map_of h 1 = None" "map_of h' 1 = None" using h h' by (auto simp: map_of_eq_None_iff)
  then show "match_group 1 m \<noteq> []" using u g groups by (simp add: match_group_def rx_group_def map_add_def)
qed

lemma parse_normalized: "parse_console_path (normalize_path p) = parse_console_path p"
  by (simp add: parse_console_path_def normalize_again)

lemma stable_lost: "parse_console_path p = NotFoundRoute (normalize_path p) \<Longrightarrow> stable_route (parse_console_path p)"
  using parse_normalized [of p] by (simp add: stable_route_def)


text \<open>
  The path of a parsed route is its canonical path: parsing it gives the same route, whatever was parsed.
\<close>

theorem parsed_route_canonical: "parse_console_path (route_path (parse_console_path p)) = parse_console_path p"
proof -
  let ?path = "normalize_path p"
  define lost where "lost = NotFoundRoute ?path"
  define r where "r = parse_console_path p"
  have "r = lost \<or> stable_route r"
  proof (cases "?path = ''/''")
    case True
    then show ?thesis by (simp add: r_def parse_console_path_def stable_section)
  next
    case root: False
    have uids: "case decode_uri_text e of None \<Rightarrow> True | Some u \<Rightarrow> u \<noteq> []" if e: "e \<noteq> []" for e
      using decoded_nonempty [OF _ e] by (simp split: option.split)
    have builder: "read_builder lost m = lost \<or> stable_route (read_builder lost m)" for m
      by (auto simp: read_builder_def present_def split: option.splits if_splits
        intro!: stable_builder dest: decoded_nonempty)
    have integration_builder: "read_integration_builder lost m = lost \<or> stable_route (read_integration_builder lost m)"
      if g: "match_group 1 m \<noteq> []" for m
      using uids [OF g] stable_builder(3) by (auto simp: read_integration_builder_def split: option.splits)
    have settings: "read_settings lost m = lost \<or> stable_route (read_settings lost m)" for m
      using stable_settings by (auto simp: read_settings_def split: option.splits)
    have identity: "read_identity lost m = lost \<or> stable_route (read_identity lost m)" for m
      using stable_identity by (auto simp: read_identity_def split: option.splits)
    have integration: "read_integration lost m = lost \<or> stable_route (read_integration lost m)" if g: "match_group 1 m \<noteq> []" for m
      using uids [OF g] stable_integration by (auto simp: read_integration_def Let_def split: option.splits if_splits)
    have entity: "read_entity lost m = lost \<or> stable_route (read_entity lost m)" if g: "match_group 2 m \<noteq> []" for m
      using uids [OF g] stable_entity by (auto simp: read_entity_def split: option.splits)
    show ?thesis
      using root builder integration_builder [OF builder_capture] settings identity integration [OF integration_capture]
        entity [OF parts_capture] stable_section
      by (auto simp: r_def parse_console_path_def lost_def [symmetric] Let_def split: option.split)
  qed
  then have "stable_route r" using stable_lost [of p] by (auto simp: r_def lost_def)
  then show ?thesis by (simp add: stable_route_def r_def)
qed

end
