(* ===== verification/SetupSelection.thy ===== *)
theory SetupSelection
  imports RouteTrip
begin

text \<open>
  The selection that a setup screen of the console keeps in the query string of its route: named fields, read and
  written with \<^verbatim>\<open>URLSearchParams\<close> (\<^verbatim>\<open>contract-setup.ts\<close>, \<^verbatim>\<open>documentation-setup.ts\<close>, \<^verbatim>\<open>sdk-setup.ts\<close> under \<^verbatim>\<open>app/lib\<close>).
\<close>

section \<open>Query strings of text\<close>

definition utf8_bytes_text :: "string \<Rightarrow> string" where
  "utf8_bytes_text s = concat (map utf8_text s)"

definition search_params :: "string \<Rightarrow> (string \<times> string) list" where
  "search_params search = map (\<lambda>(k, v). (latin_text k, latin_text v))
     (parse_query (if starts_with search ''?'' then tl search else search))"

definition params_text :: "(string \<times> string) list \<Rightarrow> string" where
  "params_text ps = serialize_query (map (\<lambda>(k, v). (utf8_bytes_text k, utf8_bytes_text v)) ps)"

text \<open>\<^verbatim>\<open>params.get(key) ?? ""\<close>, trimmed, and the parameters of the fields that have a text.\<close>

definition selected_text :: "(string \<times> string) list \<Rightarrow> string \<Rightarrow> string" where
  "selected_text params k = trim (nullish (map_of params k) [])"

definition parse_selection :: "string list \<Rightarrow> string \<Rightarrow> (string \<times> string) list" where
  "parse_selection names search = map (\<lambda>k. (k, selected_text (search_params search) k)) names"

definition selection_params :: "string list \<Rightarrow> (string \<times> string) list \<Rightarrow> (string \<times> string) list" where
  "selection_params names selection =
     concat (map (\<lambda>k. case present (map_of selection k) of None \<Rightarrow> [] | Some v \<Rightarrow> [(k, v)]) names)"

section \<open>Reading back\<close>

lemma latin_utf8 [simp]: "latin_text (utf8_bytes_text s) = s"
  by (simp add: utf8_bytes_text_def latin_text_utf8)

lemma form_char_head: "form_char c \<noteq> [] \<and> hd (form_char c) \<noteq> CHR ''?''"
  by (auto simp: form_char_def form_plain_def is_digit_def is_lower_def is_upper_def char_in_def)

lemma form_encode_head: "form_encode s = [] \<or> hd (form_encode s) \<noteq> CHR ''?''"
  using form_char_head by (cases s) (auto simp: form_encode_def)

lemma query_pair_head: "query_pair p \<noteq> [] \<and> hd (query_pair p) \<noteq> CHR ''?''"
  using form_encode_head [of "fst p"] by (cases "form_encode (fst p)") (auto simp: query_pair_def)

lemma params_text_head: "\<not> starts_with (params_text ps) ''?''"
proof (cases ps)
  case Nil
  then show ?thesis by (simp add: params_text_def serialize_query_def starts_with_iff)
next
  case (Cons p qs)
  obtain k v where p: "p = (k, v)" by (cases p)
  let ?q = "query_pair (utf8_bytes_text k, utf8_bytes_text v)"
  obtain r where "params_text ps = ?q @ r"
    by (cases "qs = []") (auto simp: params_text_def serialize_query_def Cons p join_Cons)
  then show ?thesis
    using query_pair_head [of "(utf8_bytes_text k, utf8_bytes_text v)"]
    by (cases ?q) (auto simp: starts_with_iff)
qed

lemma search_params_text: "search_params (params_text ps) = ps" "search_params (''?'' @ params_text ps) = ps"
proof -
  have "map (\<lambda>(k, v). (latin_text k, latin_text v)) (map (\<lambda>(k, v). (utf8_bytes_text k, utf8_bytes_text v)) ps) = ps"
    by (auto simp: comp_def case_prod_beta intro!: map_idI)
  then show "search_params (params_text ps) = ps" "search_params (''?'' @ params_text ps) = ps"
    using params_text_head [of ps] starts_with_append [of "''?''" "params_text ps"]
    unfolding search_params_def by (auto simp: params_text_def parse_serialize)
qed

lemma selection_params_get:
  "distinct names \<Longrightarrow> map_of (selection_params names selection) k = (if k \<in> set names then present (map_of selection k) else None)"
  unfolding selection_params_def by (induction names) (auto split: option.split)

lemma selection_read_back:
  assumes "distinct names" "list_all (\<lambda>k. trim (nullish (map_of selection k) []) = nullish (map_of selection k) []) names"
  shows "parse_selection names (''?'' @ params_text (selection_params names selection))
    = map (\<lambda>k. (k, nullish (map_of selection k) [])) names"
proof -
  have "selected_text (selection_params names selection) k = nullish (map_of selection k) []" if "k \<in> set names" for k
    using assms that by (auto simp: selected_text_def selection_params_get present_def list_all_iff)
  moreover have "search_params (''?'' @ params_text (selection_params names selection)) = selection_params names selection"
    by (rule search_params_text)
  ultimately show ?thesis unfolding parse_selection_def by simp
qed

end
