(* ===== verification/SetupRun.thy ===== *)
theory SetupRun
  imports SetupSelection
begin

text \<open>
  What the setups of the console share (\<^verbatim>\<open>contract-setup.ts\<close>, \<^verbatim>\<open>documentation-setup.ts\<close> and \<^verbatim>\<open>sdk-setup.ts\<close> under \<^verbatim>\<open>app/lib\<close>):
  the rows of the server that all of them read, and runs against a server that is an argument. Every call takes the
  state of the server and gives an answer, or the message of the error it throws, and the next state. The history of
  a run holds, newest first, what the code saw and what it sent; a write is in it even when its answer is lost.
\<close>

section \<open>Data\<close>

datatype audience = PrivateAudience | PublicAudience

definition audience_name :: "audience \<Rightarrow> string" where
  "audience_name a = (case a of PrivateAudience \<Rightarrow> ''private'' | PublicAudience \<Rightarrow> ''public'')"

record api_integration =
  ai_id :: string
  ai_deployment_id :: string
  ai_visibility :: audience

record review_document =
  rd_id :: string
  rd_content_hash :: string
  rd_state :: string
  rd_injection_indicators :: "string list"

record source_publication =
  sp_id :: string
  sp_product_id :: string
  sp_source_id :: string
  sp_crawl_job_id :: string
  sp_visibility :: audience
  sp_content_hash :: string

record source_review =
  sr_product_id :: string
  sr_source_id :: string
  sr_visibility :: audience
  sr_quarantined :: bool
  sr_run_id :: string
  sr_failed_count :: int
  sr_skipped_count :: int
  sr_documents :: "review_document list"
  sr_publication :: "source_publication option"
  sr_source_revision :: int
  sr_source_name :: string
  sr_job_state :: string
  sr_published_document_ids :: "string list option"

record crawl_job_row =
  cj_id :: string

definition document_row :: "review_document \<Rightarrow> json" where
  "document_row d = JArr [JStr (rd_id d), JStr (rd_content_hash d),
     JStr (if rd_state d = ''published'' then ''validated'' else rd_state d), JArr (map JStr (rd_injection_indicators d))]"

definition row_id :: "json \<Rightarrow> string" where
  "row_id v = (case v of JArr (JStr i # _) \<Rightarrow> i | _ \<Rightarrow> [])"

lemma row_id_document [simp]: "row_id (document_row d) = rd_id d"
  by (simp add: row_id_def document_row_def)

lemma audience_name_inj [simp]: "audience_name a = audience_name b \<longleftrightarrow> a = b"
  by (cases a; cases b; simp add: audience_name_def)

lemma document_row_defined: "defined (document_row d)"
  by (simp add: document_row_def list_all_iff)

section \<open>Runs\<close>

datatype setup_error = SetupChanged | TransportError string

type_synonym ('s, 'e, 'a) setup_run = "'s \<times> 'e list \<Rightarrow> (setup_error + 'a) \<times> 's \<times> 'e list"

definition give :: "'a \<Rightarrow> ('s, 'e, 'a) setup_run" where
  "give x c = (Inr x, c)"

definition changed :: "('s, 'e, 'a) setup_run" where
  "changed c = (Inl SetupChanged, c)"

definition after_run :: "('s, 'e, 'a) setup_run \<Rightarrow> ('a \<Rightarrow> ('s, 'e, 'b) setup_run) \<Rightarrow> ('s, 'e, 'b) setup_run" where
  "after_run m k c = (case m c of (Inl e, d) \<Rightarrow> (Inl e, d) | (Inr x, d) \<Rightarrow> k x d)"

definition ask :: "('s \<Rightarrow> (string + 'a) \<times> 's) \<Rightarrow> ('a \<Rightarrow> 'e) \<Rightarrow> ('s, 'e, 'a) setup_run" where
  "ask call saw = (\<lambda>(s, h). case call s of
     (Inl m, t) \<Rightarrow> (Inl (TransportError m), t, h)
   | (Inr x, t) \<Rightarrow> (Inr x, t, saw x # h))"

definition send_call :: "('s \<Rightarrow> (string + 'a) \<times> 's) \<Rightarrow> 'e \<Rightarrow> ('s, 'e, 'a) setup_run" where
  "send_call call sent = (\<lambda>(s, h). case call s of
     (Inl m, t) \<Rightarrow> (Inl (TransportError m), t, sent # h)
   | (Inr x, t) \<Rightarrow> (Inr x, t, sent # h))"

definition note_event :: "'e \<Rightarrow> ('s, 'e, unit) setup_run" where
  "note_event e = (\<lambda>(s, h). (Inr (), s, e # h))"

definition require :: "bool \<Rightarrow> ('s, 'e, unit) setup_run" where
  "require b = (if b then give () else changed)"

definition same_api :: "api_integration \<Rightarrow> api_integration \<Rightarrow> bool" where
  "same_api current api \<longleftrightarrow> ai_id current = ai_id api \<and> ai_deployment_id current = ai_deployment_id api
     \<and> ai_visibility current = ai_visibility api"

text \<open>Runs: what holds of the history after one, and of its result.\<close>

definition run_gives :: "('s, 'e, 'a) setup_run \<Rightarrow> ('e list \<Rightarrow> bool) \<Rightarrow> ('a \<Rightarrow> 'e list \<Rightarrow> bool) \<Rightarrow> ('e list \<Rightarrow> bool) \<Rightarrow> bool" where
  "run_gives m pre post fails \<longleftrightarrow> (\<forall>s h r t g. pre h \<longrightarrow> m (s, h) = (r, t, g) \<longrightarrow>
     (case r of Inr x \<Rightarrow> post x g | Inl e \<Rightarrow> fails g))"

lemma run_givesI:
  "(\<And>s h r t g. pre h \<Longrightarrow> m (s, h) = (r, t, g) \<Longrightarrow> case r of Inr x \<Rightarrow> post x g | Inl e \<Rightarrow> fails g) \<Longrightarrow> run_gives m pre post fails"
  unfolding run_gives_def by blast

lemma run_givesD:
  "run_gives m pre post fails \<Longrightarrow> m (s, h) = (Inr x, t, g) \<Longrightarrow> pre h \<Longrightarrow> post x g"
  "run_gives m pre post fails \<Longrightarrow> m (s, h) = (Inl e, t, g) \<Longrightarrow> pre h \<Longrightarrow> fails g"
  unfolding run_gives_def by force+

lemma after_run_gives:
  assumes m: "run_gives m pre mid fails" and k: "\<And>x. run_gives (k x) (mid x) post fails"
  shows "run_gives (after_run m k) pre post fails"
proof (rule run_givesI)
  fix s h r t g assume pre: "pre h" and run: "after_run m k (s, h) = (r, t, g)"
  obtain r' s' h' where m': "m (s, h) = (r', s', h')" by (cases "m (s, h)")
  show "case r of Inr x \<Rightarrow> post x g | Inl e \<Rightarrow> fails g"
  proof (cases r')
    case (Inl e)
    then show ?thesis using run m' run_givesD(2) [OF m] pre by (auto simp: after_run_def)
  next
    case (Inr x)
    then have "k x (s', h') = (r, t, g)" "mid x h'"
      using run m' run_givesD(1) [OF m] pre by (auto simp: after_run_def)
    then show ?thesis using run_givesD [OF k] by (cases r) auto
  qed
qed

lemma ask_gives: "(\<And>h x. pre h \<Longrightarrow> post x (saw x # h)) \<Longrightarrow> (\<And>h. pre h \<Longrightarrow> fails h) \<Longrightarrow> run_gives (ask call saw) pre post fails"
  by (rule run_givesI) (auto simp: ask_def split: prod.splits sum.splits)

lemma send_gives:
  "(\<And>h x. pre h \<Longrightarrow> post x (sent # h)) \<Longrightarrow> (\<And>h. pre h \<Longrightarrow> fails (sent # h)) \<Longrightarrow> run_gives (send_call call sent) pre post fails"
  by (rule run_givesI) (auto simp: send_call_def split: prod.splits sum.splits)

lemma require_gives: "(\<And>h. pre h \<Longrightarrow> b \<Longrightarrow> post () h) \<Longrightarrow> (\<And>h. pre h \<Longrightarrow> fails h) \<Longrightarrow> run_gives (require b) pre post fails"
  by (rule run_givesI) (auto simp: require_def give_def changed_def split: sum.splits if_splits)

lemma give_gives: "(\<And>h. pre h \<Longrightarrow> post x h) \<Longrightarrow> run_gives (give x) pre post fails"
  by (rule run_givesI) (auto simp: give_def split: sum.splits)

lemma note_gives: "(\<And>h. pre h \<Longrightarrow> post () (e # h)) \<Longrightarrow> run_gives (note_event e) pre post fails"
  by (rule run_givesI) (auto simp: note_event_def split: sum.splits)

lemma run_gives_weaken:
  assumes "run_gives m pre post fails" "\<And>h. pre' h \<Longrightarrow> pre h" "\<And>x h. post x h \<Longrightarrow> post' x h" "\<And>h. fails h \<Longrightarrow> fails' h"
  shows "run_gives m pre' post' fails'"
proof (rule run_givesI)
  fix s h r t g assume "pre' h" "m (s, h) = (r, t, g)"
  then show "case r of Inr x \<Rightarrow> post' x g | Inl e \<Rightarrow> fails' g"
    using run_givesD [OF assms(1)] assms(2,3,4) by (cases r) auto
qed

lemma ask_then:
  assumes "\<And>x h. pre h \<Longrightarrow> mid x (saw x # h)" "\<And>h. pre h \<Longrightarrow> fails h" "\<And>x. run_gives (k x) (mid x) post fails"
  shows "run_gives (after_run (ask call saw) k) pre post fails"
  by (rule after_run_gives [where mid = mid], rule ask_gives) (use assms in blast)+

lemma require_then:
  assumes "b \<Longrightarrow> run_gives (k ()) pre post fails" "\<And>h. pre h \<Longrightarrow> fails h"
  shows "run_gives (after_run (require b) k) pre post fails"
proof (cases b)
  case True
  then show ?thesis
    using assms(1) by (simp add: require_def give_def after_run_def run_gives_def)
next
  case False
  then show ?thesis
    using assms(2) by (auto simp: require_def changed_def after_run_def run_gives_def)
qed

end
