(* ===== verification/SetupContract.thy ===== *)
theory SetupContract
  imports SetupRun
begin

text \<open>
  Finishing the setup of an API contract (\<^verbatim>\<open>app/lib/contract-setup.ts\<close>): publish the reviewed source and the candidate,
  then attach the revision to the API.
\<close>

section \<open>Data\<close>

record api_contract =
  ac_id :: string
  ac_deployment_id :: string
  ac_visibility :: audience
  ac_lifecycle :: string
  ac_revision :: int

record contract_candidate =
  cc_id :: string
  cc_api_contract_id :: string
  cc_deployment_id :: string
  cc_ingestion_run_id :: string
  cc_content_hash :: string
  cc_visibility :: audience
  cc_validation_result :: "(string \<times> json) list"

record contract_revision =
  cr_id :: string
  cr_deployment_id :: string
  cr_api_contract_id :: string
  cr_candidate_id :: string
  cr_content_hash :: string
  cr_visibility :: audience

record contract_binding =
  cb_id :: string
  cb_deployment_id :: string
  cb_api_id :: string
  cb_api_contract_id :: string
  cb_pinned_revision_id :: string
  cb_follow_latest :: bool
  cb_primary :: bool
  cb_visibility :: audience
  cb_lifecycle :: string
  cb_revision :: int

definition contract_fields :: "string list" where
  "contract_fields =
     [''contract'', ''api'', ''source'', ''run'', ''candidate'', ''revision'', ''input'', ''queue'', ''after'']"

definition parse_contract_setup_selection :: "string \<Rightarrow> (string \<times> string) list" where
  "parse_contract_setup_selection search = parse_selection contract_fields search"

definition contract_setup_path :: "(string \<times> string) list \<Rightarrow> string" where
  "contract_setup_path selection =
     (let params = selection_params contract_fields selection
      in section_path ContractsSection @ (if params = [] then [] else ''?'' @ params_text params))"

definition pending_contract_import :: "crawl_job_row list \<Rightarrow> string \<Rightarrow> string \<Rightarrow> setup_error + crawl_job_row option" where
  "pending_contract_import jobs queue after =
     (if queue \<noteq> ''pending'' then Inr None
      else if after = [] then Inr (if jobs = [] then None else Some (hd jobs))
      else if after \<notin> cj_id ` set jobs then Inl SetupChanged
      else Inr (if cj_id (hd jobs) = after then None else Some (hd jobs)))"

section \<open>Conditions\<close>

definition contract_candidate_valid :: "contract_candidate \<Rightarrow> bool" where
  "contract_candidate_valid c \<longleftrightarrow>
     member (cc_validation_result c) ''valid'' = JBool True \<and>
     member (cc_validation_result c) ''errors'' \<in> {JUndef, JNull, JArr []}"

definition contract_source_fingerprint :: "(string \<Rightarrow> string \<Rightarrow> int) \<Rightarrow> source_review \<Rightarrow> string" where
  "contract_source_fingerprint collate r = stringify (JArr
     [JStr (sr_product_id r), JStr (sr_source_id r), JStr (audience_name (sr_visibility r)), JBool (sr_quarantined r),
      JStr (sr_run_id r), JNum (sr_failed_count r), JNum (sr_skipped_count r),
      JArr (map document_row (js_sort (\<lambda>a b. collate (rd_id a) (rd_id b)) (sr_documents r)))])"

definition contract_attachment_visibility :: "api_integration \<Rightarrow> contract_binding option \<Rightarrow> audience" where
  "contract_attachment_visibility api binding =
     (if ai_visibility api = PublicAudience then PublicAudience
      else case binding of None \<Rightarrow> ai_visibility api | Some b \<Rightarrow> cb_visibility b)"

definition contract_binding_matches ::
  "contract_binding option \<Rightarrow> contract_revision \<Rightarrow> api_integration \<Rightarrow> bool \<Rightarrow> audience \<Rightarrow> bool" where
  "contract_binding_matches binding revision api primary visibility \<longleftrightarrow> (case binding of
     None \<Rightarrow> False
   | Some b \<Rightarrow> cb_deployment_id b = ai_deployment_id api \<and> cb_api_id b = ai_id api \<and> cb_lifecycle b = ''attached''
       \<and> cb_api_contract_id b = cr_api_contract_id revision \<and> cb_pinned_revision_id b = cr_id revision
       \<and> \<not> cb_follow_latest b \<and> cb_primary b = primary \<and> cb_visibility b = visibility
       \<and> (ai_visibility api \<noteq> PublicAudience \<or> visibility = PublicAudience))"

section \<open>Calls\<close>

record 's contract_transport =
  ct_integration :: "string \<Rightarrow> 's \<Rightarrow> (string + api_integration) \<times> 's"
  ct_contract :: "string \<Rightarrow> 's \<Rightarrow> (string + api_contract) \<times> 's"
  ct_revisions :: "string \<Rightarrow> 's \<Rightarrow> (string + contract_revision list) \<times> 's"
  ct_review :: "string \<Rightarrow> string \<Rightarrow> string \<Rightarrow> 's \<Rightarrow> (string + source_review) \<times> 's"
  ct_publish_source :: "source_review \<Rightarrow> 's \<Rightarrow> (string + unit) \<times> 's"
  ct_publish_contract :: "string \<Rightarrow> string \<Rightarrow> int \<Rightarrow> 's \<Rightarrow> (string + contract_revision) \<times> 's"
  ct_resources :: "string \<Rightarrow> 's \<Rightarrow> (string + contract_binding list) \<times> 's"
  ct_attach :: "string \<Rightarrow> string \<Rightarrow> string \<Rightarrow> bool \<Rightarrow> audience \<Rightarrow> 's \<Rightarrow> (string + unit) \<times> 's"
  ct_change :: "string \<Rightarrow> contract_binding \<Rightarrow> string \<Rightarrow> bool \<Rightarrow> audience \<Rightarrow> 's \<Rightarrow> (string + unit) \<times> 's"

datatype contract_event =
    SawIntegration api_integration
  | SawContract api_contract
  | SawRevisions "contract_revision list"
  | SawReview source_review
  | SawResources "contract_binding list"
  | SentSource source_review
  | SentContract string string int
  | Checkpoint contract_revision
  | SentAttachment string string string bool audience
  | SentChange string contract_binding string bool audience

section \<open>Finishing a setup\<close>

record contract_input =
  ci_contract :: api_contract
  ci_candidate :: contract_candidate
  ci_review :: source_review
  ci_api :: "api_integration option"
  ci_expected_binding :: "contract_binding option"
  ci_primary :: bool

definition check_api :: "'s contract_transport \<Rightarrow> api_integration option \<Rightarrow> ('s, contract_event, unit) setup_run" where
  "check_api t api = (case api of
     None \<Rightarrow> give ()
   | Some a \<Rightarrow> after_run (ask (ct_integration t (ai_id a)) SawIntegration) (\<lambda>current. require (same_api current a)))"

definition contract_consistent :: "contract_input \<Rightarrow> api_contract \<Rightarrow> bool" where
  "contract_consistent i contract \<longleftrightarrow>
     ac_id contract = cc_api_contract_id (ci_candidate i) \<and> ac_deployment_id contract = cc_deployment_id (ci_candidate i)
     \<and> ac_visibility contract = ac_visibility (ci_contract i) \<and> ac_lifecycle contract = ''active''
     \<and> cc_ingestion_run_id (ci_candidate i) = sr_run_id (ci_review i)
     \<and> cc_deployment_id (ci_candidate i) = sr_product_id (ci_review i)
     \<and> cc_visibility (ci_candidate i) = sr_visibility (ci_review i)
     \<and> (case ci_api i of None \<Rightarrow> True | Some a \<Rightarrow>
          (ai_visibility a = PublicAudience \<longrightarrow> cc_visibility (ci_candidate i) = PublicAudience)
          \<and> ai_deployment_id a = ac_deployment_id contract)
     \<and> contract_candidate_valid (ci_candidate i)"

definition published_revision :: "contract_input \<Rightarrow> api_contract \<Rightarrow> contract_revision list \<Rightarrow> contract_revision option" where
  "published_revision i contract revisions = find (\<lambda>r. cr_candidate_id r = cc_id (ci_candidate i)
     \<and> cr_content_hash r = cc_content_hash (ci_candidate i) \<and> cr_api_contract_id r = ac_id contract) revisions"

definition review_unchanged :: "(string \<Rightarrow> string \<Rightarrow> int) \<Rightarrow> contract_input \<Rightarrow> source_review \<Rightarrow> bool" where
  "review_unchanged collate i review \<longleftrightarrow>
     contract_source_fingerprint collate review = contract_source_fingerprint collate (ci_review i)
     \<and> \<not> sr_quarantined review \<and> sr_failed_count review \<le> 0 \<and> sr_skipped_count review \<le> 0 \<and> sr_documents review \<noteq> []
     \<and> list_all (\<lambda>d. rd_state d \<in> set [''validated'', ''published''] \<and> rd_injection_indicators d = []) (sr_documents review)"

definition obtain_revision ::
  "(string \<Rightarrow> string \<Rightarrow> int) \<Rightarrow> contract_input \<Rightarrow> 's contract_transport \<Rightarrow> api_contract \<Rightarrow> ('s, contract_event, contract_revision) setup_run" where
  "obtain_revision collate i t contract =
     after_run (ask (ct_revisions t (ac_id contract)) SawRevisions) (\<lambda>revisions.
       case published_revision i contract revisions of
         Some r \<Rightarrow> give r
       | None \<Rightarrow>
           after_run (require (ac_revision contract = ac_revision (ci_contract i))) (\<lambda>_.
           after_run (ask (ct_review t (ac_deployment_id contract) (sr_source_id (ci_review i)) (cc_ingestion_run_id (ci_candidate i)))
             SawReview) (\<lambda>review.
           after_run (require (review_unchanged collate i review)) (\<lambda>_.
           after_run (if sr_publication review = None then send_call (ct_publish_source t review) (SentSource review) else give ())
             (\<lambda>_. send_call (ct_publish_contract t (ac_id contract) (cc_id (ci_candidate i)) (ac_revision contract))
                (SentContract (ac_id contract) (cc_id (ci_candidate i)) (ac_revision contract)))))))"

definition revision_exact :: "contract_input \<Rightarrow> api_contract \<Rightarrow> contract_revision \<Rightarrow> bool" where
  "revision_exact i contract r \<longleftrightarrow>
     cr_deployment_id r = ac_deployment_id contract \<and> cr_api_contract_id r = ac_id contract
     \<and> cr_candidate_id r = cc_id (ci_candidate i) \<and> cr_content_hash r = cc_content_hash (ci_candidate i)
     \<and> cr_visibility r = cc_visibility (ci_candidate i)"

definition attached_binding :: "api_contract \<Rightarrow> contract_binding list \<Rightarrow> contract_binding option" where
  "attached_binding contract bindings =
     find (\<lambda>b. cb_lifecycle b = ''attached'' \<and> cb_api_contract_id b = ac_id contract) bindings"

definition bind_revision ::
  "contract_input \<Rightarrow> 's contract_transport \<Rightarrow> api_contract \<Rightarrow> api_integration \<Rightarrow> contract_revision \<Rightarrow> ('s, contract_event, unit) setup_run" where
  "bind_revision i t contract api published =
     after_run (check_api t (Some api)) (\<lambda>_.
     let visibility = contract_attachment_visibility api (ci_expected_binding i) in
     after_run (ask (ct_resources t (ai_id api)) SawResources) (\<lambda>bindings.
     let existing = attached_binding contract bindings in
     if contract_binding_matches existing published api (ci_primary i) visibility then give ()
     else
       after_run (require (map_option cb_id existing = map_option cb_id (ci_expected_binding i)
         \<and> map_option cb_revision existing = map_option cb_revision (ci_expected_binding i))) (\<lambda>_.
       after_run (require (case existing of None \<Rightarrow> True
         | Some b \<Rightarrow> cb_deployment_id b = ai_deployment_id api \<and> cb_api_id b = ai_id api)) (\<lambda>_.
       after_run (case existing of
           Some b \<Rightarrow> send_call (ct_change t (ai_id api) b (cr_id published) (ci_primary i) visibility)
             (SentChange (ai_id api) b (cr_id published) (ci_primary i) visibility)
         | None \<Rightarrow> send_call (ct_attach t (ai_id api) (ac_id contract) (cr_id published) (ci_primary i) (ai_visibility api))
             (SentAttachment (ai_id api) (ac_id contract) (cr_id published) (ci_primary i) (ai_visibility api))) (\<lambda>_.
       after_run (ask (ct_resources t (ai_id api)) SawResources) (\<lambda>saved.
         require (contract_binding_matches (attached_binding contract saved) published api (ci_primary i) visibility)))))))"

definition finish_contract_setup ::
  "(string \<Rightarrow> string \<Rightarrow> int) \<Rightarrow> contract_input \<Rightarrow> 's contract_transport \<Rightarrow> ('s, contract_event, contract_revision) setup_run" where
  "finish_contract_setup collate i t =
     after_run (check_api t (ci_api i)) (\<lambda>_.
     after_run (ask (ct_contract t (ac_id (ci_contract i))) SawContract) (\<lambda>contract.
     after_run (require (contract_consistent i contract)) (\<lambda>_.
     after_run (obtain_revision collate i t contract) (\<lambda>published.
     after_run (require (revision_exact i contract published)) (\<lambda>_.
     after_run (note_event (Checkpoint published)) (\<lambda>_.
     after_run (case ci_api i of None \<Rightarrow> give () | Some api \<Rightarrow> bind_revision i t contract api published) (\<lambda>_.
     give published)))))))"

section \<open>What is sent, and why\<close>

text \<open>The writes of a history, newest first, by their place in the protocol.\<close>

fun write_rank :: "contract_event \<Rightarrow> nat option" where
  "write_rank (SentSource r) = Some 0"
| "write_rank (SentContract c k n) = Some 1"
| "write_rank (Checkpoint r) = Some 2"
| "write_rank (SentAttachment a k r p v) = Some 3"
| "write_rank (SentChange a b r p v) = Some 3"
| "write_rank e = None"

definition write_ranks :: "contract_event list \<Rightarrow> nat list" where
  "write_ranks h = List.map_filter write_rank h"

text \<open>Every write rests on what was seen before it.\<close>

definition seen_contract :: "contract_input \<Rightarrow> contract_event list \<Rightarrow> api_contract \<Rightarrow> bool" where
  "seen_contract i h c \<longleftrightarrow> SawContract c \<in> set h \<and> contract_consistent i c"

definition unpublished :: "contract_input \<Rightarrow> contract_event list \<Rightarrow> api_contract \<Rightarrow> bool" where
  "unpublished i h c \<longleftrightarrow> ac_revision c = ac_revision (ci_contract i)
     \<and> (\<exists>rs. SawRevisions rs \<in> set h \<and> published_revision i c rs = None)"

definition reviewed :: "(string \<Rightarrow> string \<Rightarrow> int) \<Rightarrow> contract_input \<Rightarrow> contract_event list \<Rightarrow> source_review \<Rightarrow> bool" where
  "reviewed collate i h r \<longleftrightarrow> SawReview r \<in> set h \<and> review_unchanged collate i r"

definition binding_seen ::
  "contract_input \<Rightarrow> contract_event list \<Rightarrow> string \<Rightarrow> string \<Rightarrow> bool \<Rightarrow> contract_binding option \<Rightarrow> api_contract \<Rightarrow> api_integration \<Rightarrow> bool" where
  "binding_seen i h api revision primary binding c a \<longleftrightarrow> seen_contract i h c \<and> ci_api i = Some a \<and> api = ai_id a \<and> primary = ci_primary i
     \<and> (\<exists>current. SawIntegration current \<in> set h \<and> same_api current a)
     \<and> (\<exists>r. Checkpoint r \<in> set h \<and> revision = cr_id r \<and> revision_exact i c r
          \<and> \<not> contract_binding_matches binding r a (ci_primary i) (contract_attachment_visibility a (ci_expected_binding i)))
     \<and> (\<exists>bs. SawResources bs \<in> set h \<and> attached_binding c bs = binding)
     \<and> map_option cb_id binding = map_option cb_id (ci_expected_binding i)
     \<and> map_option cb_revision binding = map_option cb_revision (ci_expected_binding i)"

fun write_justified :: "(string \<Rightarrow> string \<Rightarrow> int) \<Rightarrow> contract_input \<Rightarrow> contract_event list \<Rightarrow> contract_event \<Rightarrow> bool" where
  "write_justified collate i h (SentSource r) \<longleftrightarrow>
     reviewed collate i h r \<and> sr_publication r = None \<and> (\<exists>c. seen_contract i h c \<and> unpublished i h c)"
| "write_justified collate i h (SentContract k candidate n) \<longleftrightarrow>
     candidate = cc_id (ci_candidate i) \<and> n = ac_revision (ci_contract i)
     \<and> (\<exists>c. seen_contract i h c \<and> unpublished i h c \<and> k = ac_id c)
     \<and> (\<exists>r. reviewed collate i h r \<and> (sr_publication r \<noteq> None \<or> SentSource r \<in> set h))"
| "write_justified collate i h (Checkpoint r) \<longleftrightarrow> (\<exists>c. seen_contract i h c \<and> revision_exact i c r)"
| "write_justified collate i h (SentAttachment api k r p v) \<longleftrightarrow>
     (\<exists>c a. binding_seen i h api r p None c a \<and> k = ac_id c \<and> v = ai_visibility a)"
| "write_justified collate i h (SentChange api b r p v) \<longleftrightarrow>
     (\<exists>c a. binding_seen i h api r p (Some b) c a \<and> cb_api_id b = api \<and> cb_deployment_id b = ai_deployment_id a
        \<and> v = contract_attachment_visibility a (ci_expected_binding i))"
| "write_justified collate i h e \<longleftrightarrow> True"

primrec justified :: "(string \<Rightarrow> string \<Rightarrow> int) \<Rightarrow> contract_input \<Rightarrow> contract_event list \<Rightarrow> bool" where
  "justified collate i [] \<longleftrightarrow> True"
| "justified collate i (e # h) \<longleftrightarrow> write_justified collate i h e \<and> justified collate i h"

lemma write_ranks_simps [simp]:
  "write_ranks [] = []"
  "write_ranks (e # h) = (case write_rank e of None \<Rightarrow> write_ranks h | Some n \<Rightarrow> n # write_ranks h)"
  by (simp_all add: write_ranks_def List.map_filter_simps split: option.split)

text \<open>A history whose writes are justified, in order and below a place, and that contains the given events.\<close>

definition on_course ::
  "(string \<Rightarrow> string \<Rightarrow> int) \<Rightarrow> contract_input \<Rightarrow> nat \<Rightarrow> contract_event set \<Rightarrow> contract_event list \<Rightarrow> bool" where
  "on_course collate i n seen h \<longleftrightarrow> justified collate i h \<and> sorted_wrt (\<lambda>x y. y < x) (write_ranks h)
     \<and> (\<forall>k \<in> set (write_ranks h). k < n) \<and> seen \<subseteq> set h"

lemma on_course_mono: "on_course collate i n F h \<Longrightarrow> n \<le> m \<Longrightarrow> G \<subseteq> F \<Longrightarrow> on_course collate i m G h"
  by (auto simp: on_course_def)

lemma on_course_read: "on_course collate i n F h \<Longrightarrow> write_rank e = None \<Longrightarrow> on_course collate i n (insert e F) (e # h)"
  by (cases e) (auto simp: on_course_def)

lemma on_course_saw: "on_course collate i n F h \<Longrightarrow> write_rank e = None \<Longrightarrow> G \<subseteq> insert e F \<Longrightarrow> on_course collate i n G (e # h)"
  by (cases e) (auto simp: on_course_def)

lemma on_course_write:
  "on_course collate i n F h \<Longrightarrow> write_rank e = Some k \<Longrightarrow> n \<le> k \<Longrightarrow> write_justified collate i h e
     \<Longrightarrow> on_course collate i (Suc k) (insert e F) (e # h)"
  by (fastforce simp: on_course_def)

lemma check_api_gives:
  "run_gives (check_api t api) (on_course collate i n F)
     (\<lambda>_ h. on_course collate i n F h \<and> (\<forall>a. api = Some a \<longrightarrow> (\<exists>current. SawIntegration current \<in> set h \<and> same_api current a)))
     (on_course collate i n F)"
proof (cases api)
  case None
  then show ?thesis by (simp add: check_api_def give_gives)
next
  case (Some a)
  show ?thesis
    unfolding check_api_def Some option.case
    by (rule after_run_gives [where mid = "\<lambda>c. on_course collate i n (insert (SawIntegration c) F)"], rule ask_gives)
      (auto intro!: on_course_read require_gives elim: on_course_mono simp: on_course_def)
qed

lemma publish_gives:
  assumes "contract_consistent i c" "published_revision i c rs = None" "ac_revision c = ac_revision (ci_contract i)"
    "review_unchanged collate i r"
  shows "run_gives
     (after_run (if sr_publication r = None then send_call (ct_publish_source t r) (SentSource r) else give ())
       (\<lambda>_. send_call (ct_publish_contract t (ac_id c) (cc_id (ci_candidate i)) (ac_revision c))
          (SentContract (ac_id c) (cc_id (ci_candidate i)) (ac_revision c))))
     (on_course collate i 0 {SawContract c, SawRevisions rs, SawReview r})
     (\<lambda>_. on_course collate i 2 {SawContract c}) (on_course collate i 2 {SawContract c})"
    (is "run_gives _ (on_course collate i 0 ?F) _ _")
proof -
  have base: "seen_contract i h c \<and> unpublished i h c \<and> reviewed collate i h r" if "?F \<subseteq> set h" for h
    using that assms by (auto simp: seen_contract_def unpublished_def reviewed_def)
  have source: "on_course collate i 1 (insert (SentSource r) ?F) (SentSource r # h)"
    if "on_course collate i 0 ?F h" "sr_publication r = None" for h
  proof -
    have "?F \<subseteq> set h" using that(1) by (simp only: on_course_def)
    then have "write_justified collate i h (SentSource r)"
      using base [of h] that(2) by (simp only: write_justified.simps) blast
    then show ?thesis
      using on_course_write [OF that(1), of "SentSource r" 0] by simp
  qed
  have contract: "on_course collate i 2 (insert e ?F) (e # h)"
    if "on_course collate i 1 ?F h" "sr_publication r \<noteq> None \<or> SentSource r \<in> set h"
      "e = SentContract (ac_id c) (cc_id (ci_candidate i)) (ac_revision c)" for h e
  proof -
    have "?F \<subseteq> set h" using that(1) by (simp only: on_course_def)
    then have "write_justified collate i h e"
      using base [of h] that(2) assms(3) unfolding that(3) write_justified.simps by blast
    then show ?thesis
      using on_course_write [OF that(1), of e 1] that(3) by (simp add: numeral_2_eq_2)
  qed
  show ?thesis
  proof (rule after_run_gives [where mid = "\<lambda>_ h. on_course collate i 1 ?F h \<and> (sr_publication r \<noteq> None \<or> SentSource r \<in> set h)"])
    show "run_gives (if sr_publication r = None then send_call (ct_publish_source t r) (SentSource r) else give ())
       (on_course collate i 0 ?F) (\<lambda>_ h. on_course collate i 1 ?F h \<and> (sr_publication r \<noteq> None \<or> SentSource r \<in> set h))
       (on_course collate i 2 {SawContract c})"
    proof (cases "sr_publication r = None")
      case True
      have sent: "on_course collate i 1 ?F (SentSource r # h) \<and> SentSource r \<in> set (SentSource r # h)
          \<and> on_course collate i 2 {SawContract c} (SentSource r # h)" if "on_course collate i 0 ?F h" for h
        using source [OF that True] by (auto intro: on_course_mono)
      show ?thesis
        unfolding if_P [OF True] by (rule send_gives) (use sent in blast)+
    next
      case False
      have kept: "on_course collate i 1 ?F h" if "on_course collate i 0 ?F h" for h
        using that by (rule on_course_mono) auto
      show ?thesis
        unfolding if_not_P [OF False] by (rule give_gives) (use kept False in blast)
    qed
    show "run_gives (send_call (ct_publish_contract t (ac_id c) (cc_id (ci_candidate i)) (ac_revision c))
          (SentContract (ac_id c) (cc_id (ci_candidate i)) (ac_revision c)))
       (\<lambda>h. on_course collate i 1 ?F h \<and> (sr_publication r \<noteq> None \<or> SentSource r \<in> set h))
       (\<lambda>_. on_course collate i 2 {SawContract c}) (on_course collate i 2 {SawContract c})" for x :: unit
    proof -
      have sent: "on_course collate i 2 {SawContract c} (SentContract (ac_id c) (cc_id (ci_candidate i)) (ac_revision c) # h)"
        if "on_course collate i 1 ?F h \<and> (sr_publication r \<noteq> None \<or> SentSource r \<in> set h)" for h
        using contract [OF conjunct1 [OF that] conjunct2 [OF that] refl] by (rule on_course_mono) auto
      show ?thesis by (rule send_gives) (rule sent, assumption)+
    qed
  qed
qed

lemma obtain_revision_gives:
  assumes "contract_consistent i c"
  shows "run_gives (obtain_revision collate i t c) (on_course collate i 0 {SawContract c})
     (\<lambda>_. on_course collate i 2 {SawContract c}) (on_course collate i 2 {SawContract c})"
  unfolding obtain_revision_def
proof (rule ask_then [where mid = "\<lambda>rs. on_course collate i 0 {SawContract c, SawRevisions rs}"])
  fix rs
  show "run_gives (case published_revision i c rs of None \<Rightarrow>
           after_run (require (ac_revision c = ac_revision (ci_contract i))) (\<lambda>_.
           after_run (ask (ct_review t (ac_deployment_id c) (sr_source_id (ci_review i)) (cc_ingestion_run_id (ci_candidate i)))
             SawReview) (\<lambda>review.
           after_run (require (review_unchanged collate i review)) (\<lambda>_.
           after_run (if sr_publication review = None then send_call (ct_publish_source t review) (SentSource review) else give ())
             (\<lambda>_. send_call (ct_publish_contract t (ac_id c) (cc_id (ci_candidate i)) (ac_revision c))
                (SentContract (ac_id c) (cc_id (ci_candidate i)) (ac_revision c))))))
       | Some r \<Rightarrow> give r) (on_course collate i 0 {SawContract c, SawRevisions rs})
     (\<lambda>_. on_course collate i 2 {SawContract c}) (on_course collate i 2 {SawContract c})"
  proof (cases "published_revision i c rs")
    case (Some r)
    show ?thesis unfolding Some option.case by (rule give_gives) (erule on_course_mono; simp)
  next
    case None
    show ?thesis
      unfolding None option.case
    proof (rule require_then)
      assume new: "ac_revision c = ac_revision (ci_contract i)"
      show "run_gives (after_run (ask (ct_review t (ac_deployment_id c) (sr_source_id (ci_review i)) (cc_ingestion_run_id (ci_candidate i)))
             SawReview) (\<lambda>review.
           after_run (require (review_unchanged collate i review)) (\<lambda>_.
           after_run (if sr_publication review = None then send_call (ct_publish_source t review) (SentSource review) else give ())
             (\<lambda>_. send_call (ct_publish_contract t (ac_id c) (cc_id (ci_candidate i)) (ac_revision c))
                (SentContract (ac_id c) (cc_id (ci_candidate i)) (ac_revision c))))))
           (on_course collate i 0 {SawContract c, SawRevisions rs})
           (\<lambda>_. on_course collate i 2 {SawContract c}) (on_course collate i 2 {SawContract c})"
        by (rule ask_then [where mid = "\<lambda>r. on_course collate i 0 {SawContract c, SawRevisions rs, SawReview r}"],
            erule on_course_saw, simp, simp, erule on_course_mono, simp, simp,
            rule require_then, rule publish_gives [OF assms None new], assumption, erule on_course_mono, simp, simp)
    qed (erule on_course_mono; simp)
  qed
qed ((erule on_course_saw; simp), (erule on_course_mono; simp))

text \<open>Attaching, once the revision is published.\<close>

lemma bind_revision_gives:
  assumes "contract_consistent i c" "revision_exact i c r" "ci_api i = Some a"
  shows "run_gives (bind_revision i t c a r) (on_course collate i 3 {SawContract c, Checkpoint r})
     (\<lambda>_ h. on_course collate i 4 {SawContract c, Checkpoint r} h \<and> (\<exists>bs. hd h = SawResources bs
        \<and> contract_binding_matches (attached_binding c bs) r a (ci_primary i) (contract_attachment_visibility a (ci_expected_binding i))))
     (on_course collate i 4 {})"
    (is "run_gives _ _ ?post ?fails")
proof -
  let ?v = "contract_attachment_visibility a (ci_expected_binding i)"
  let ?F = "\<lambda>bs current. {SawContract c, Checkpoint r, SawIntegration current, SawResources bs}"
  let ?pre = "\<lambda>bs h. hd h = SawResources bs \<and> (\<exists>current. same_api current a \<and> on_course collate i 3 (?F bs current) h)"
  let ?exp = "\<lambda>b. map_option cb_id b = map_option cb_id (ci_expected_binding i) \<and> map_option cb_revision b = map_option cb_revision (ci_expected_binding i)"
  let ?own = "\<lambda>b. case b of None \<Rightarrow> True | Some b \<Rightarrow> cb_deployment_id b = ai_deployment_id a \<and> cb_api_id b = ai_id a"
  let ?send = "\<lambda>b. case b of
      Some b \<Rightarrow> send_call (ct_change t (ai_id a) b (cr_id r) (ci_primary i) ?v) (SentChange (ai_id a) b (cr_id r) (ci_primary i) ?v)
    | None \<Rightarrow> send_call (ct_attach t (ai_id a) (ac_id c) (cr_id r) (ci_primary i) (ai_visibility a))
        (SentAttachment (ai_id a) (ac_id c) (cr_id r) (ci_primary i) (ai_visibility a))"
  let ?e = "\<lambda>b. case b of
      Some b \<Rightarrow> SentChange (ai_id a) b (cr_id r) (ci_primary i) ?v
    | None \<Rightarrow> SentAttachment (ai_id a) (ac_id c) (cr_id r) (ci_primary i) (ai_visibility a)"
  have low: "?fails h" if "on_course collate i n F h" "n \<le> 4" for n F h
    using that by (auto elim: on_course_mono)
  have written: "on_course collate i 4 {SawContract c, Checkpoint r} (?e b # h)"
    if pre: "?pre bs h" and b: "b = attached_binding c bs" and b_ok: "\<not> contract_binding_matches b r a (ci_primary i) ?v"
      "?exp b" "?own b" for b bs h
  proof -
    obtain current where api: "same_api current a" and o: "on_course collate i 3 (?F bs current) h" using pre by blast
    have "?F bs current \<subseteq> set h" using o by (simp only: on_course_def)
    then have "binding_seen i h (ai_id a) (cr_id r) (ci_primary i) b c a"
      using api b b_ok assms unfolding binding_seen_def seen_contract_def by blast
    then have "write_justified collate i h (?e b)"
      using b_ok(3) by (cases b) auto
    moreover have "write_rank (?e b) = Some 3" by (cases b) auto
    ultimately show ?thesis
      using on_course_write [OF o, of "?e b" 3] by (auto elim: on_course_mono)
  qed
  have sent: "run_gives (?send b) (?pre bs) (\<lambda>_. on_course collate i 4 {SawContract c, Checkpoint r}) ?fails"
    if "b = attached_binding c bs" "\<not> contract_binding_matches b r a (ci_primary i) ?v" "?exp b" "?own b" for b bs
  proof -
    have w: "on_course collate i 4 {SawContract c, Checkpoint r} (?e b # h) \<and> ?fails (?e b # h)" if "?pre bs h" for h
      using written [OF that \<open>b = _\<close> \<open>\<not> _\<close> \<open>?exp b\<close> \<open>?own b\<close>] low by blast
    show ?thesis
    proof (cases b)
      case None
      show ?thesis unfolding None option.case by (rule send_gives) (use w in \<open>simp_all only: None option.case\<close>)
    next
      case (Some x)
      show ?thesis unfolding Some option.case by (rule send_gives) (use w in \<open>simp_all only: Some option.case\<close>)
    qed
  qed
  have read_back: "run_gives (after_run (ask (ct_resources t (ai_id a)) SawResources)
       (\<lambda>saved. require (contract_binding_matches (attached_binding c saved) r a (ci_primary i) ?v)))
     (on_course collate i 4 {SawContract c, Checkpoint r}) ?post ?fails"
    by (rule ask_then [where mid = "\<lambda>bs h. hd h = SawResources bs \<and> on_course collate i 4 {SawContract c, Checkpoint r} h"])
      (auto intro!: require_gives on_course_saw elim: low)
  have attach: "run_gives (if contract_binding_matches (attached_binding c bs) r a (ci_primary i) ?v then give ()
     else after_run (require (?exp (attached_binding c bs))) (\<lambda>_. after_run (require (?own (attached_binding c bs))) (\<lambda>_.
       after_run (?send (attached_binding c bs)) (\<lambda>_. after_run (ask (ct_resources t (ai_id a)) SawResources)
       (\<lambda>saved. require (contract_binding_matches (attached_binding c saved) r a (ci_primary i) ?v)))))) (?pre bs) ?post ?fails" for bs
  proof (cases "contract_binding_matches (attached_binding c bs) r a (ci_primary i) ?v")
    case True
    then show ?thesis by (auto intro!: give_gives elim: on_course_mono)
  next
    case False
    show ?thesis
      unfolding if_not_P [OF False]
      by (rule require_then, rule require_then, rule after_run_gives [OF sent [OF refl False] read_back]) (use low in auto)
  qed
  have resources_seen: "?pre bs (SawResources bs # h)"
    if ex: "\<exists>current. same_api current a \<and> on_course collate i 3 {SawContract c, Checkpoint r, SawIntegration current} h" for bs h
  proof -
    obtain current where current: "same_api current a" "on_course collate i 3 {SawContract c, Checkpoint r, SawIntegration current} h"
      using ex by blast
    have "on_course collate i 3 (?F bs current) (SawResources bs # h)"
      using current(2) by (rule on_course_saw) auto
    then show ?thesis using current(1) by auto
  qed
  show ?thesis
    unfolding bind_revision_def Let_def
  proof (rule after_run_gives [where mid = "\<lambda>_ h. \<exists>current. same_api current a \<and> on_course collate i 3 {SawContract c, Checkpoint r, SawIntegration current} h"])
    show "run_gives (check_api t (Some a)) (on_course collate i 3 {SawContract c, Checkpoint r})
        (\<lambda>_ h. \<exists>current. same_api current a \<and> on_course collate i 3 {SawContract c, Checkpoint r, SawIntegration current} h) ?fails"
      by (rule run_gives_weaken [OF check_api_gives [where F = "{SawContract c, Checkpoint r}" and i = i and n = 3]]) (auto simp: on_course_def)
    show "run_gives (after_run (ask (ct_resources t (ai_id a)) SawResources) (\<lambda>bs.
       if contract_binding_matches (attached_binding c bs) r a (ci_primary i) ?v then give ()
     else after_run (require (?exp (attached_binding c bs))) (\<lambda>_. after_run (require (?own (attached_binding c bs))) (\<lambda>_.
       after_run (?send (attached_binding c bs)) (\<lambda>_. after_run (ask (ct_resources t (ai_id a)) SawResources)
       (\<lambda>saved. require (contract_binding_matches (attached_binding c saved) r a (ci_primary i) ?v)))))))
      (\<lambda>h. \<exists>current. same_api current a \<and> on_course collate i 3 {SawContract c, Checkpoint r, SawIntegration current} h) ?post ?fails" for u :: unit
      by (rule ask_then [where mid = ?pre, OF _ _ attach], erule resources_seen) (use low in auto)
  qed
qed

definition setup_done :: "contract_input \<Rightarrow> contract_revision \<Rightarrow> contract_event list \<Rightarrow> bool" where
  "setup_done i r h \<longleftrightarrow> Checkpoint r \<in> set h \<and> (\<exists>c. seen_contract i h c \<and> revision_exact i c r \<and>
     (case ci_api i of None \<Rightarrow> True | Some a \<Rightarrow> (\<exists>bs. hd h = SawResources bs \<and>
        contract_binding_matches (attached_binding c bs) r a (ci_primary i) (contract_attachment_visibility a (ci_expected_binding i)))))"

lemma finish_contract_setup_gives:
  "run_gives (finish_contract_setup collate i t) (on_course collate i 0 {})
     (\<lambda>r h. on_course collate i 4 {} h \<and> setup_done i r h) (on_course collate i 4 {})"
  (is "run_gives _ _ ?post ?fails")
proof -
  have low: "?fails h" if "on_course collate i n F h" "n \<le> 4" for n F h
    using that by (auto elim: on_course_mono)
  have bound: "run_gives (after_run (case ci_api i of None \<Rightarrow> give () | Some api \<Rightarrow> bind_revision i t c api r) (\<lambda>_. give r))
      (on_course collate i 3 {SawContract c, Checkpoint r}) ?post ?fails"
    if c: "contract_consistent i c" "revision_exact i c r" for c r
  proof (cases "ci_api i")
    case None
    have "?post r h" if "on_course collate i 3 {SawContract c, Checkpoint r} h" for h
    proof -
      have "Checkpoint r \<in> set h" "seen_contract i h c"
        using that c by (auto simp: on_course_def seen_contract_def)
      then show ?thesis using that c None low by (auto simp: setup_done_def)
    qed
    then show ?thesis
      unfolding None option.case by (auto simp: run_gives_def after_run_def give_def)
  next
    case (Some a)
    show ?thesis
      unfolding Some option.case
    proof (rule after_run_gives [OF bind_revision_gives [OF c Some]])
      show "run_gives (give r) (\<lambda>h. on_course collate i 4 {SawContract c, Checkpoint r} h \<and> (\<exists>bs. hd h = SawResources bs
        \<and> contract_binding_matches (attached_binding c bs) r a (ci_primary i) (contract_attachment_visibility a (ci_expected_binding i)))) ?post ?fails"
        for u :: unit
        using c Some by (auto intro!: give_gives elim: low simp: setup_done_def seen_contract_def on_course_def)
    qed
  qed
  have checkpoint: "run_gives (after_run (note_event (Checkpoint r)) (\<lambda>_. after_run (case ci_api i of None \<Rightarrow> give ()
       | Some api \<Rightarrow> bind_revision i t c api r) (\<lambda>_. give r))) (on_course collate i 2 {SawContract c}) ?post ?fails"
    if c: "contract_consistent i c" "revision_exact i c r" for c r
  proof (rule after_run_gives [OF note_gives bound [OF c]])
    fix h assume o: "on_course collate i 2 {SawContract c} h"
    then have "write_justified collate i h (Checkpoint r)"
      using c by (auto simp: on_course_def seen_contract_def)
    then show "on_course collate i 3 {SawContract c, Checkpoint r} (Checkpoint r # h)"
      using on_course_write [OF o, of "Checkpoint r" 2] by (auto elim: on_course_mono simp: numeral_3_eq_3)
  qed
  have rest: "run_gives (after_run (obtain_revision collate i t c) (\<lambda>published.
       after_run (require (revision_exact i c published)) (\<lambda>_.
       after_run (note_event (Checkpoint published)) (\<lambda>_.
       after_run (case ci_api i of None \<Rightarrow> give () | Some api \<Rightarrow> bind_revision i t c api published) (\<lambda>_.
       give published))))) (on_course collate i 0 {SawContract c}) ?post ?fails" if c: "contract_consistent i c" for c
    by (rule after_run_gives [OF run_gives_weaken [OF obtain_revision_gives [OF c]]],
        assumption, assumption, erule low, simp, rule require_then, rule checkpoint [OF c], assumption, erule low, simp)
  show ?thesis
    unfolding finish_contract_setup_def
  proof (rule after_run_gives [where mid = "\<lambda>_. on_course collate i 0 {}"])
    show "run_gives (check_api t (ci_api i)) (on_course collate i 0 {}) (\<lambda>_. on_course collate i 0 {}) ?fails"
      by (rule run_gives_weaken [OF check_api_gives [where F = "{}" and i = i and n = 0]]) (auto elim: low)
    show "run_gives (after_run (ask (ct_contract t (ac_id (ci_contract i))) SawContract) (\<lambda>contract.
     after_run (require (contract_consistent i contract)) (\<lambda>_.
     after_run (obtain_revision collate i t contract) (\<lambda>published.
     after_run (require (revision_exact i contract published)) (\<lambda>_.
     after_run (note_event (Checkpoint published)) (\<lambda>_.
     after_run (case ci_api i of None \<Rightarrow> give () | Some api \<Rightarrow> bind_revision i t contract api published) (\<lambda>_.
     give published))))))) (on_course collate i 0 {}) ?post ?fails" for u :: unit
      by (rule ask_then [where mid = "\<lambda>c. on_course collate i 0 {SawContract c}"],
          erule on_course_saw, simp, simp, erule low, simp, rule require_then, erule rest, erule low, simp)
  qed
qed

lemma start_on_course: "on_course collate i 0 {} []"
  by (simp add: on_course_def)

text \<open>
  Property C39. Whatever the server answers and wherever a run stops, its writes happen in the order source, contract,
  checkpoint, attachment, each at most once, and each rests on what was seen before it: the source is published only
  when its review was just read, equals the reviewed one and has no publication; the contract only at the reviewed
  revision, after the source, when the server showed no revision of the candidate; the attachment is written only for
  a revision that is exactly the reviewed candidate, over the binding that was expected and that does not match yet.
  A run that succeeds ends with the attachment read back from the server as it was wanted.
\<close>

theorem contract_setup_safe:
  "case finish_contract_setup collate i t (s, []) of (result, s', h) \<Rightarrow>
     justified collate i h \<and> sorted_wrt (\<lambda>x y. y < x) (write_ranks h)
     \<and> (case result of Inr r \<Rightarrow> setup_done i r h | Inl e \<Rightarrow> True)"
proof -
  obtain result s' h where run: "finish_contract_setup collate i t (s, []) = (result, s', h)"
    by (cases "finish_contract_setup collate i t (s, [])")
  show ?thesis
  proof (cases result)
    case (Inl e)
    then show ?thesis
      using run run_givesD(2) [OF finish_contract_setup_gives _ start_on_course, of collate i t s e s' h]
      by (simp add: on_course_def)
  next
    case (Inr r)
    then show ?thesis
      using run run_givesD(1) [OF finish_contract_setup_gives _ start_on_course, of collate i t s r s' h]
      by (simp add: on_course_def)
  qed
qed

section \<open>Recovering\<close>

text \<open>
  Property C40. A setup whose records are all on the server succeeds when it is run again, without another write: it
  finds the published revision and the attached binding and gives back that revision.
\<close>

theorem contract_setup_recovers:
  assumes "ci_api i = Some a" "ct_integration t (ai_id a) s = (Inr current, s)" "same_api current a"
    "ct_contract t (ac_id (ci_contract i)) s = (Inr c, s)" "contract_consistent i c"
    "ct_revisions t (ac_id c) s = (Inr revisions, s)" "published_revision i c revisions = Some r" "revision_exact i c r"
    "ct_resources t (ai_id a) s = (Inr bindings, s)"
    "contract_binding_matches (attached_binding c bindings) r a (ci_primary i) (contract_attachment_visibility a (ci_expected_binding i))"
  shows "\<exists>h. finish_contract_setup collate i t (s, []) = (Inr r, s, h) \<and> write_ranks h = [2]"
  using assms
  by (simp add: finish_contract_setup_def bind_revision_def obtain_revision_def check_api_def after_run_def ask_def
      require_def give_def note_event_def Let_def)

definition sample_api :: api_integration where
  "sample_api = \<lparr>ai_id = ''api'', ai_deployment_id = ''dep'', ai_visibility = PrivateAudience\<rparr>"

definition sample_contract_row :: api_contract where
  "sample_contract_row = \<lparr>ac_id = ''contract'', ac_deployment_id = ''dep'', ac_visibility = PrivateAudience,
     ac_lifecycle = ''active'', ac_revision = 1\<rparr>"

definition sample_candidate :: contract_candidate where
  "sample_candidate = \<lparr>cc_id = ''cand'', cc_api_contract_id = ''contract'', cc_deployment_id = ''dep'',
     cc_ingestion_run_id = ''run'', cc_content_hash = ''hash'', cc_visibility = PrivateAudience,
     cc_validation_result = [(''valid'', JBool True)]\<rparr>"

definition sample_review :: source_review where
  "sample_review = \<lparr>sr_product_id = ''dep'', sr_source_id = ''source'', sr_visibility = PrivateAudience,
     sr_quarantined = False, sr_run_id = ''run'', sr_failed_count = 0, sr_skipped_count = 0,
     sr_documents = [\<lparr>rd_id = ''doc'', rd_content_hash = ''body'', rd_state = ''validated'', rd_injection_indicators = []\<rparr>],
     sr_publication = None, sr_source_revision = 1, sr_source_name = ''Docs'', sr_job_state = ''review'',
     sr_published_document_ids = None\<rparr>"

definition sample_revision :: contract_revision where
  "sample_revision = \<lparr>cr_id = ''rev'', cr_deployment_id = ''dep'', cr_api_contract_id = ''contract'',
     cr_candidate_id = ''cand'', cr_content_hash = ''hash'', cr_visibility = PrivateAudience\<rparr>"

definition sample_binding :: "string \<Rightarrow> string \<Rightarrow> string \<Rightarrow> bool \<Rightarrow> audience \<Rightarrow> contract_binding" where
  "sample_binding api contract revision primary visibility = \<lparr>cb_id = ''binding'', cb_deployment_id = ''dep'', cb_api_id = api,
     cb_api_contract_id = contract, cb_pinned_revision_id = revision, cb_follow_latest = False, cb_primary = primary,
     cb_visibility = visibility, cb_lifecycle = ''attached'', cb_revision = 1\<rparr>"

text \<open>A server with one contract: its state are the published revisions and the bindings.\<close>

definition sample_transport :: "(contract_revision list \<times> contract_binding list) contract_transport" where
  "sample_transport = \<lparr>ct_integration = (\<lambda>_ s. (Inr sample_api, s)), ct_contract = (\<lambda>_ s. (Inr sample_contract_row, s)),
     ct_revisions = (\<lambda>_ s. (Inr (fst s), s)), ct_review = (\<lambda>_ _ _ s. (Inr sample_review, s)),
     ct_publish_source = (\<lambda>_ s. (Inr (), s)),
     ct_publish_contract = (\<lambda>_ _ _ s. (Inr sample_revision, ([sample_revision], snd s))),
     ct_resources = (\<lambda>_ s. (Inr (snd s), s)),
     ct_attach = (\<lambda>a k r p v s. (Inr (), (fst s, [sample_binding a k r p v]))),
     ct_change = (\<lambda>a b r p v s. (Inr (), (fst s, [sample_binding a (cb_api_contract_id b) r p v])))\<rparr>"

definition sample_input :: contract_input where
  "sample_input = \<lparr>ci_contract = sample_contract_row, ci_candidate = sample_candidate, ci_review = sample_review,
     ci_api = Some sample_api, ci_expected_binding = None, ci_primary = True\<rparr>"

definition sample_settled :: "contract_revision list \<times> contract_binding list" where
  "sample_settled = ([sample_revision], [sample_binding ''api'' ''contract'' ''rev'' True PrivateAudience])"

lemmas sample_setup_defs = sample_api_def sample_contract_row_def sample_candidate_def sample_review_def
  sample_revision_def sample_binding_def sample_transport_def sample_input_def sample_settled_def

theorem contract_setup_recovers_witness:
  "\<exists>h. finish_contract_setup compare_text sample_input sample_transport (sample_settled, []) = (Inr sample_revision, sample_settled, h)
     \<and> write_ranks h = [2]"
  by (rule contract_setup_recovers [of _ sample_api _ _ sample_api sample_contract_row "[sample_revision]" _ "snd sample_settled"])
    (simp_all add: sample_setup_defs same_api_def contract_consistent_def contract_candidate_valid_def published_revision_def
      revision_exact_def contract_binding_matches_def attached_binding_def contract_attachment_visibility_def)

text \<open>A first run on that server publishes and attaches, and settles it.\<close>

lemma sample_first_run:
  "\<exists>h. finish_contract_setup compare_text sample_input sample_transport (([], []), []) = (Inr sample_revision, sample_settled, h)
     \<and> rev (write_ranks h) = [0, 1, 2, 3]"
  by (simp add: finish_contract_setup_def bind_revision_def obtain_revision_def check_api_def after_run_def ask_def
      require_def give_def note_event_def Let_def send_call_def sample_setup_defs same_api_def contract_consistent_def
      contract_candidate_valid_def published_revision_def review_unchanged_def revision_exact_def contract_binding_matches_def
      attached_binding_def contract_attachment_visibility_def)

section \<open>The fingerprint of a review\<close>

text \<open>
  The fingerprint stands for the reviewed evidence: the source, the run, its counts and what is compared of the
  documents, whatever their order.
\<close>

lemma contract_fingerprint_exact:
  assumes collate: "keyed_comparator collate (\<lambda>s. s)" and docs: "distinct (map rd_id (sr_documents r))"
  shows "contract_source_fingerprint collate r = contract_source_fingerprint collate q \<longleftrightarrow>
     sr_product_id r = sr_product_id q \<and> sr_source_id r = sr_source_id q \<and> sr_visibility r = sr_visibility q
     \<and> sr_quarantined r = sr_quarantined q \<and> sr_run_id r = sr_run_id q \<and> sr_failed_count r = sr_failed_count q
     \<and> sr_skipped_count r = sr_skipped_count q
     \<and> mset (map document_row (sr_documents r)) = mset (map document_row (sr_documents q))"
proof -
  let ?by_row = "\<lambda>x y. collate (row_id x) (row_id y)"
  have key: "keyed_comparator ?by_row row_id"
    using collate unfolding keyed_comparator_def comparator_def keyed_comparator_axioms_def by blast
  have rows: "map document_row (js_sort (\<lambda>a b. collate (rd_id a) (rd_id b)) ds) = js_sort ?by_row (map document_row ds)" for ds
    by (rule js_sort_map [symmetric]) simp
  have inj: "inj_on row_id (set (map document_row (sr_documents r)))"
    using docs by (auto simp: inj_on_def distinct_map)
  have "js_sort ?by_row (map document_row (sr_documents r)) = js_sort ?by_row (map document_row (sr_documents q))
      \<longleftrightarrow> mset (map document_row (sr_documents r)) = mset (map document_row (sr_documents q))"
    using keyed_comparator.sort_determined [OF key _ inj] mset_js_sort by metis
  then show ?thesis
    unfolding contract_source_fingerprint_def rows
    by (subst stringify_inj) (auto simp: list_all_iff document_row_defined)
qed

section \<open>The route of a setup\<close>

lemma contract_selection_read_back:
  assumes "list_all (\<lambda>k. trim (nullish (map_of selection k) []) = nullish (map_of selection k) []) contract_fields"
  shows "parse_contract_setup_selection (drop (length (section_path ContractsSection)) (contract_setup_path selection))
    = map (\<lambda>k. (k, nullish (map_of selection k) [])) contract_fields"
proof -
  have names: "distinct contract_fields" by code_simp
  have empty: "parse_selection contract_fields [] = parse_selection contract_fields (''?'' @ params_text [])"
    unfolding parse_selection_def search_params_text by (simp add: search_params_def parse_query_def starts_with_iff)
  show ?thesis
    using selection_read_back [OF names assms] empty
    by (cases "selection_params contract_fields selection = []")
      (simp_all add: parse_contract_setup_selection_def contract_setup_path_def Let_def)
qed

end
