(* ===== verification/Spec2Isabelle.thy ===== *)
theory Spec2Isabelle
  imports Quality DocMap PinnedClient Worker Website PersistIds CrawlerCorpus PersistRows MarkdownCode HtmlLayout HtmlSafe StructuredText
    ToolValidation SetupContract
begin

text \<open>
  A verification development for the TypeScript core of the Dokosoko service: the crawler under
  \<^verbatim>\<open>src/crawler\<close> that fetches developer documentation, cuts it into sections, assesses it and
  stores it under job leases, and for the parts of the operator console under \<^verbatim>\<open>src/app\<close> that are not views.

  \<^bold>\<open>How the parts fit together.\<close>  A worker claims a job (\<^verbatim>\<open>index.ts\<close>), collects its source (a website, an
  OpenAPI document or an upload; \<^verbatim>\<open>sources.ts\<close>, \<^verbatim>\<open>index.ts\<close>), every request going through the URL check of
  \<^verbatim>\<open>security.ts\<close>, and stores the pages in a transaction that is fenced by the lease.  The ingestion
  pipeline (\<^verbatim>\<open>ingestion/*.ts\<close>) turns a page into a normalised document, the document into sections, and
  a set of documents into a quality report and a documentation map.

  \<^bold>\<open>Theories.\<close>
  \<^item> Prelude, JsText, JsValue, Digest, JsRegex: the part of JavaScript the code uses: code units, white
    space, case, stable sorting, search in strings, JSON values, SHA-256, regular expressions.
  \<^item> Canonical (\<^verbatim>\<open>ingestion/canonical.ts\<close>): canonical JSON, prose and code normalisation, source ranges, slugs.
  \<^item> DocTypes (\<^verbatim>\<open>ingestion/types.ts\<close>, \<^verbatim>\<open>parser-types.ts\<close>), Render (\<^verbatim>\<open>render.ts\<close>), Segment (\<^verbatim>\<open>segment.ts\<close>),
    Quality (\<^verbatim>\<open>quality.ts\<close>), DocMap (\<^verbatim>\<open>documentation-map.ts\<close>): the pipeline after parsing.
  \<^item> Addresses, Settings, SafeUrl (\<^verbatim>\<open>security.ts\<close>): the network deny lists, the configuration, the URL check
    and the canonical URL.
  \<^item> Fetch, PinnedClient, Sources (\<^verbatim>\<open>sources.ts\<close>, \<^verbatim>\<open>pinned-http-client.ts\<close>): the fetch with its redirects,
    the client of the website crawler, OpenAPI documents and uploads.
  \<^item> JobStore, JobLease (\<^verbatim>\<open>index.ts\<close>): the tables, one definition per SQL transaction, and the interleaving
    of workers as a step relation.  Worker: the run of one job with its pulses.
  \<^item> Uri, WebScope, Website (\<^verbatim>\<open>index.ts\<close>): the scope of a website, sitemaps, the rendering browser and the
    handlers that the crawling engine calls, each in the steps between its awaits, interleaved in whatever order.
  \<^item> OpenApi (\<^verbatim>\<open>ingestion/openapi-candidate.ts\<close>): the index of operations and the contract candidate.
  \<^item> Normalize (\<^verbatim>\<open>ingestion/normalize.ts\<close>, \<^verbatim>\<open>pipeline.ts\<close>): from a page to a normalised document and from
    pages to a corpus.
  \<^item> Markup: lines, links and ranges, shared by the parsers.  Markdown (\<^verbatim>\<open>markdown.ts\<close>): the blocks of a
    document and where they lie; MarkdownCode: reading back rendered code.  HtmlDoc (\<^verbatim>\<open>html.ts\<close>):
    tokens, tree and blocks; HtmlLayout: where the blocks lie; HtmlSafe: the skeleton of a tree, without what is excluded,
    determines the document.
  \<^item> Yaml (\<^verbatim>\<open>structured.ts\<close>): tokens, scalars and the descent by indentation; YamlLayout: the grammar it reads and
    that it returns data; Structured: the blocks of a value and of an OpenAPI document, and the parsers of
    the crawler as one record; StructuredText: what those blocks show.
  \<^item> PersistMap, Persist (\<^verbatim>\<open>candidate-persistence.ts\<close>): what is derived from a corpus, and the transaction that
    writes it; PersistSafe, PersistIds, PersistRows: its fencing, its identities, its rows;
    CrawlerCorpus: the parsers of the crawler meet what PersistIds asks of them.
  \<^item> UriCodec, ConsoleRoutes (\<^verbatim>\<open>app/lib/console-routes.ts\<close>): the paths of the operator console and their parser;
    RouteTrip: reading them back.
  \<^item> ToolCredential (\<^verbatim>\<open>app/lib/tool-builder-safety.ts\<close>): to what a credential in the browser is bound.
    ToolDraft, ToolReview, ToolValidation (\<^verbatim>\<open>app/components/tool-builder/model.ts\<close>): the contract of a tool, how it is
    read from untrusted values, shown as a form, compared with a proposal and validated; ToolContext
    (\<^verbatim>\<open>app/lib/tool-builder-runtime-context.ts\<close>): the connection that a draft is locked to.
  \<^item> SetupSelection, SetupRun: the query string of a setup screen, and runs of a setup against a server that is an
    argument, with their history.  SetupContract (\<^verbatim>\<open>app/lib/contract-setup.ts\<close>): publishing and attaching a contract,
    what justifies each write and how a setup recovers.

  \<^bold>\<open>Correspondence.\<close>  A TypeScript function has a definition of its name in snake case.  A thrown
  \<^verbatim>\<open>CrawlerJobError\<close> is \<^verbatim>\<open>Inl\<close> of its code and message; the result is \<^verbatim>\<open>Inr\<close>.  A \<^verbatim>\<open>Map\<close> or an object is an
  association list in insertion order.  An array mutated in a loop is an accumulator of a fold, and the
  loop that cuts long blocks is a function with a termination proof.  A database row is a record, a
  table a list of rows, a transaction one function from a database to a result and a database, which
  is the old one when the transaction is rolled back.

  \<^bold>\<open>Bounds.\<close>  Strings are lists of code units below 256; numbers of JSON values are integers or
  decimals given by their digits; a text that \<^verbatim>\<open>Number\<close> reads is an integer or a rounded decimal.  Nothing
  here runs on fuel: each recursion is structural or has a measure, except a redirect chain, which the
  code itself bounds by five.

  \<^bold>\<open>Parameters.\<close>  Code that is not in the repository is an argument of the definitions that use it: the
  URL parser, DNS, the HTTP exchange, the file system, \<^verbatim>\<open>JSON.parse\<close>, the UTF-8 decoder, random
  identifiers, the crawling engine and the browser.  Normalisation takes the parsers as one argument, a
  record of three functions.  The text of a code point above 255, which no code unit below 256 is, is
  an argument too: \<^verbatim>\<open>wide\<close> for an entity of HTML, \<^verbatim>\<open>dash\<close> for U+2014.
  \<^verbatim>\<open>now()\<close> is the start of the transaction.

  \<^bold>\<open>Not modelled.\<close>  The views of the console under \<^verbatim>\<open>src/app\<close>, its API client and translations, and the server, which is not written in
  TypeScript.  Prototypes of objects: a member \<^verbatim>\<open>__proto__\<close> that is assigned is dropped.  Query strings with bytes that are no UTF-8
  keep them.  Rounding of doubles: decimals of more
  than 15 digits and numbers that JavaScript prints with an exponent are outside the model.
  Of the tables, the unique indexes and the rule that freezes the resolved input of a run are modelled,
  the CHECK constraints and foreign keys are not.
\<close>

end
